(* ===== verification/Prelude.thy ===== *)
theory Prelude
  imports Complex_Main "HOL-Library.Multiset"
begin

text \<open>
  What every component of the development shares: the exceptions of the Python code as one
  datatype, results as values of a sum type, and the generic lemmas on lists and tables.

  A service method of \<open>src/src/kaleta/services\<close> that may raise is modelled by a function into
  \<open>'a result\<close>: \<open>Inl e\<close> is the raised exception, \<open>Inr x\<close> the returned value. A database table
  is the list of its rows in insertion order; a select by primary key is \<open>find_row\<close>.
\<close>

section \<open>Exceptions and results\<close>

text \<open>
  The domain errors of \<open>kaleta/exceptions.py\<close> carry the \<open>message_key\<close> of the raise site; the
  others are the exceptions of the Python standard library and of SQLAlchemy that the modelled
  code can let through.
\<close>

datatype error =
    NotFoundError string
  | ValidationError string
  | ConflictError string
  | StaleWriteError "string option"
  | KaletaError string
  | IntegrityError string
  | DataError string
  | MultipleResultsFound
  | ValueError
  | OverflowError
  | KeyError
  | IndexError
  | AttributeError
  | TypeError
  | InvalidOperation
  | CsvError
  | ImportError string

type_synonym 'a result = "error + 'a"

named_theorems result_simps \<open>sequencing of computations that may raise\<close>

definition ebind :: "'a result \<Rightarrow> ('a \<Rightarrow> 'b result) \<Rightarrow> 'b result" where
  "ebind m f = (case m of Inl e \<Rightarrow> Inl e | Inr x \<Rightarrow> f x)"

definition raise_if :: "bool \<Rightarrow> error \<Rightarrow> 'a result \<Rightarrow> 'a result" where
  "raise_if b e m = (if b then Inl e else m)"

primrec emap :: "('a \<Rightarrow> 'b result) \<Rightarrow> 'a list \<Rightarrow> 'b list result" where
  "emap f [] = Inr []"
| "emap f (x # xs) = ebind (f x) (\<lambda>y. ebind (emap f xs) (\<lambda>ys. Inr (y # ys)))"

text \<open>A Python \<open>for\<close> loop over a state, left at the first exception.\<close>

primrec efold :: "('a \<Rightarrow> 's \<Rightarrow> 's result) \<Rightarrow> 'a list \<Rightarrow> 's \<Rightarrow> 's result" where
  "efold f [] s = Inr s"
| "efold f (x # xs) s = ebind (f x s) (efold f xs)"

section \<open>Tables\<close>

definition find_row :: "('r \<Rightarrow> int) \<Rightarrow> int \<Rightarrow> 'r list \<Rightarrow> 'r option" where
  "find_row key i rows = find (\<lambda>r. key r = i) rows"

definition upd_row :: "('r \<Rightarrow> int) \<Rightarrow> int \<Rightarrow> ('r \<Rightarrow> 'r) \<Rightarrow> 'r list \<Rightarrow> 'r list" where
  "upd_row key i f rows = map (\<lambda>r. if key r = i then f r else r) rows"

definition del_row :: "('r \<Rightarrow> int) \<Rightarrow> int \<Rightarrow> 'r list \<Rightarrow> 'r list" where
  "del_row key i rows = filter (\<lambda>r. key r \<noteq> i) rows"

text \<open>A table's primary keys are distinct and below the next value of its sequence.\<close>

definition ids_ok :: "('r \<Rightarrow> int) \<Rightarrow> int \<Rightarrow> 'r list \<Rightarrow> bool" where
  "ids_ok key nxt rows \<longleftrightarrow> distinct (map key rows) \<and> (\<forall>r \<in> set rows. key r < nxt)"

text \<open>
  \<open>payload.model_dump(exclude_unset=True)\<close> followed by \<open>setattr\<close>: a field that was not sent
  (\<open>None\<close>) leaves the column as it is. A nullable column takes an \<open>'a option option\<close>, so that an
  explicit null can be sent.
\<close>

definition patch :: "'a option \<Rightarrow> ('a \<Rightarrow> 'r \<Rightarrow> 'r) \<Rightarrow> 'r \<Rightarrow> 'r" where
  "patch v upd r = (case v of None \<Rightarrow> r | Some x \<Rightarrow> upd x r)"

section \<open>Lemmas on results\<close>

lemma patch_simps [simp]:
  "patch None upd r = r"
  "patch (Some x) upd r = upd x r"
  by (simp_all add: patch_def)

lemma ebind_simps [simp, result_simps]:
  "ebind (Inl e) f = Inl e"
  "ebind (Inr x) f = f x"
  by (simp_all add: ebind_def)

lemma ebind_Inr_iff [result_simps]:
  "ebind m f = Inr y \<longleftrightarrow> (\<exists>x. m = Inr x \<and> f x = Inr y)"
  by (cases m) auto

lemma ebind_Inl_iff [result_simps]:
  "ebind m f = Inl e \<longleftrightarrow> m = Inl e \<or> (\<exists>x. m = Inr x \<and> f x = Inl e)"
  by (cases m) auto

lemma raise_if_simps [simp]:
  "raise_if True e m = Inl e"
  "raise_if False e m = m"
  by (simp_all add: raise_if_def)

lemma raise_if_Inr_iff [result_simps]:
  "raise_if b e m = Inr y \<longleftrightarrow> \<not> b \<and> m = Inr y"
  by (simp add: raise_if_def)

lemma raise_if_Inl_iff [result_simps]:
  "raise_if b e m = Inl e' \<longleftrightarrow> (b \<and> e' = e) \<or> (\<not> b \<and> m = Inl e')"
  by (auto simp: raise_if_def)

definition succeeds :: "'a result \<Rightarrow> bool" where
  "succeeds r = (case r of Inl _ \<Rightarrow> False | Inr _ \<Rightarrow> True)"

lemma succeedsE: "succeeds r \<Longrightarrow> (\<And>x. r = Inr x \<Longrightarrow> thesis) \<Longrightarrow> thesis"
  by (auto simp: succeeds_def split: sum.splits)

lemma emap_total: "(\<And>x. x \<in> set xs \<Longrightarrow> f x = Inr (g x)) \<Longrightarrow> emap f xs = Inr (map g xs)"
  by (induction xs) auto

lemma emap_Inr_iff: "emap f xs = Inr ys \<longleftrightarrow> list_all2 (\<lambda>x y. f x = Inr y) xs ys"
  by (induction xs arbitrary: ys) (auto simp: ebind_Inr_iff list_all2_Cons1)

lemma emap_succeeds: "\<forall>x \<in> set xs. \<exists>y. f x = Inr y \<Longrightarrow> \<exists>ys. emap f xs = Inr ys"
  by (induction xs) auto

lemma efold_invariant:
  assumes "efold f xs s = Inr t" and "P s"
    and "\<And>x u v. x \<in> set xs \<Longrightarrow> P u \<Longrightarrow> f x u = Inr v \<Longrightarrow> P v"
  shows "P t"
  using assms
proof (induction xs arbitrary: s)
  case Nil
  then show ?case by simp
next
  case (Cons x xs)
  from Cons.prems(1) obtain u where u: "f x s = Inr u" and rest: "efold f xs u = Inr t"
    by (auto simp: ebind_Inr_iff)
  have "P u" by (rule Cons.prems(3) [OF _ Cons.prems(2) u]) simp
  with rest show ?case
    by (rule Cons.IH) (rule Cons.prems(3), simp_all)
qed

lemma efold_append:
  "efold f (xs @ ys) s = ebind (efold f xs s) (efold f ys)"
  by (induction xs arbitrary: s) (auto simp: ebind_def split: sum.splits)

section \<open>Lemmas on tables\<close>

lemma find_row_simps [simp]:
  "find_row key i [] = None"
  "find_row key i (r # rs) = (if key r = i then Some r else find_row key i rs)"
  by (simp_all add: find_row_def)

lemma find_row_Some_D:
  "find_row key i rows = Some r \<Longrightarrow> r \<in> set rows \<and> key r = i"
  by (induction rows) (auto split: if_splits)

lemma find_row_None_iff:
  "find_row key i rows = None \<longleftrightarrow> i \<notin> key ` set rows"
  by (induction rows) auto

lemma find_row_member:
  "distinct (map key rows) \<Longrightarrow> r \<in> set rows \<Longrightarrow> find_row key (key r) rows = Some r"
  by (induction rows) (auto simp: rev_image_eqI)

lemma find_row_append:
  "find_row key i (xs @ ys) =
    (case find_row key i xs of None \<Rightarrow> find_row key i ys | Some r \<Rightarrow> Some r)"
  by (induction xs) auto

lemma upd_row_simps [simp]:
  "upd_row key i f [] = []"
  "upd_row key i f (r # rs) = (if key r = i then f r else r) # upd_row key i f rs"
  by (simp_all add: upd_row_def)

lemma upd_row_append [simp]:
  "upd_row key i f (xs @ ys) = upd_row key i f xs @ upd_row key i f ys"
  by (simp add: upd_row_def)

lemma length_upd_row [simp]: "length (upd_row key i f rows) = length rows"
  by (simp add: upd_row_def)

lemma map_key_upd_row:
  "(\<And>r. key (f r) = key r) \<Longrightarrow> map key (upd_row key i f rows) = map key rows"
  by (induction rows) auto

lemma find_row_upd_row:
  assumes "\<And>r. key (f r) = key r"
  shows "find_row key j (upd_row key i f rows) =
    (if j = i then map_option f (find_row key j rows) else find_row key j rows)"
  by (induction rows) (auto simp: assms)

lemma upd_row_absent:
  "i \<notin> key ` set rows \<Longrightarrow> upd_row key i f rows = rows"
  by (induction rows) auto

lemma set_upd_row_D:
  "r \<in> set (upd_row key i f rows) \<Longrightarrow>
    (r \<in> set rows \<and> key r \<noteq> i) \<or> (\<exists>r0 \<in> set rows. key r0 = i \<and> r = f r0)"
  by (induction rows) auto

lemma set_del_row [simp]: "set (del_row key i rows) = {r \<in> set rows. key r \<noteq> i}"
  by (auto simp: del_row_def)

lemma find_row_del_row:
  "find_row key j (del_row key i rows) = (if j = i then None else find_row key j rows)"
  by (induction rows) (auto simp: del_row_def)

lemma ids_ok_upd_row:
  assumes "\<And>r. key (f r) = key r" and "ids_ok key nxt rows"
  shows "ids_ok key nxt (upd_row key i f rows)"
proof -
  have eq: "map key (upd_row key i f rows) = map key rows"
    by (rule map_key_upd_row) (rule assms(1))
  then have "key ` set (upd_row key i f rows) = key ` set rows"
    by (metis list.set_map)
  with assms(2) eq show ?thesis
    unfolding ids_ok_def by (metis imageE imageI)
qed

lemma ids_ok_map: "ids_ok key nxt rows \<longleftrightarrow> distinct (map key rows) \<and> (\<forall>k \<in> set (map key rows). k < nxt)"
  by (auto simp: ids_ok_def)

lemma ids_ok_cong: "map key rows' = map key rows \<Longrightarrow> ids_ok key nxt rows' = ids_ok key nxt rows"
  by (simp only: ids_ok_map)

lemma upd_row_const_key: "map key (upd_row key (key p) (\<lambda>_. p) rows) = map key rows"
  by (induction rows) auto

lemma find_row_upd_const_key:
  "find_row key j (upd_row key (key p) (\<lambda>_. p) rows) =
    (if j = key p then map_option (\<lambda>_. p) (find_row key j rows) else find_row key j rows)"
  by (induction rows) auto

lemma ids_ok_del_row: "ids_ok key nxt rows \<Longrightarrow> ids_ok key nxt (del_row key i rows)"
  by (auto simp: ids_ok_def del_row_def distinct_map_filter)

lemma ids_ok_insert:
  "ids_ok key nxt rows \<Longrightarrow> key r = nxt \<Longrightarrow> ids_ok key (nxt + 1) (rows @ [r])"
  by (fastforce simp: ids_ok_def)

lemma ids_ok_fresh: "ids_ok key nxt rows \<Longrightarrow> find_row key nxt rows = None"
  by (auto simp: ids_ok_def find_row_None_iff)

section \<open>Sums over lists\<close>

lemma sum_list_filter_split:
  "sum_list (map f xs) =
    sum_list (map f (filter P xs)) + sum_list (map f (filter (\<lambda>x. \<not> P x) xs))"
  for f :: "'a \<Rightarrow> 'b::ab_group_add"
  by (induction xs) auto

lemma sum_list_map_upd_row:
  fixes f :: "'r \<Rightarrow> 'b::ab_group_add"
  assumes "distinct (map key rows)" and "find_row key i rows = Some r"
  shows "sum_list (map f (upd_row key i g rows)) = sum_list (map f rows) - f r + f (g r)"
  using assms
proof (induction rows)
  case Nil
  then show ?case by simp
next
  case (Cons x rows)
  show ?case
  proof (cases "key x = i")
    case True
    with Cons.prems have "x = r" and "i \<notin> key ` set rows" by auto
    with True show ?thesis by (simp add: upd_row_absent)
  next
    case False
    with Cons show ?thesis by (simp add: algebra_simps)
  qed
qed

lemma sum_list_concat_map: "sum_list (concat xss) = sum_list (map sum_list xss)"
  by (induction xss) simp_all

lemma sum_list_mset_eq: "mset xs = mset ys \<Longrightarrow> sum_list xs = sum_list ys" for xs ys :: "'a::comm_monoid_add list"
  by (metis sum_mset_sum_list)

end
