(* ===== verification/Dates.thy ===== *)
theory Dates
  imports Prelude
begin

text \<open>
  The part of Python's \<open>datetime\<close> and \<open>calendar\<close> modules the services use: calendar dates of the
  proleptic Gregorian calendar, their order, ordinals, \<open>timedelta\<close> arithmetic with its
  \<open>OverflowError\<close>, the constructor with its \<open>ValueError\<close>, weekdays and ISO week numbers.

  A \<open>datetime.date\<close> is a year, a month and a day; \<open>valid_date\<close> says that the constructor accepts
  them. Addition of days goes through the proleptic ordinal as in the library. The lemmas give the
  order isomorphism between valid dates and ordinals and the round trip of the two conversions,
  which is all the component proofs use.
\<close>

section \<open>Definitions\<close>

datatype date = Date (d_year: int) (d_month: int) (d_day: int)

instantiation date :: linorder
begin

definition less_date :: "date \<Rightarrow> date \<Rightarrow> bool" where
  "less_date a b \<longleftrightarrow> d_year a < d_year b \<or>
    (d_year a = d_year b \<and> (d_month a < d_month b \<or>
      (d_month a = d_month b \<and> d_day a < d_day b)))"

definition less_eq_date :: "date \<Rightarrow> date \<Rightarrow> bool" where
  "less_eq_date a b \<longleftrightarrow> a < b \<or> a = (b :: date)"

instance
proof
  fix a b c :: date
  show "a < b \<longleftrightarrow> a \<le> b \<and> \<not> b \<le> a"
    by (auto simp: less_date_def less_eq_date_def)
  show "a \<le> a" by (simp add: less_eq_date_def)
  show "a \<le> b \<Longrightarrow> b \<le> c \<Longrightarrow> a \<le> c"
    by (auto simp: less_date_def less_eq_date_def)
  show "a \<le> b \<Longrightarrow> b \<le> a \<Longrightarrow> a = b"
    by (auto simp: less_date_def less_eq_date_def)
  show "a \<le> b \<or> b \<le> a"
    by (cases a; cases b) (auto simp: less_date_def less_eq_date_def)
qed

end

definition is_leap :: "int \<Rightarrow> bool" where
  "is_leap y \<longleftrightarrow> y mod 4 = 0 \<and> (y mod 100 \<noteq> 0 \<or> y mod 400 = 0)"

text \<open>The second component of \<open>calendar.monthrange(year, month)\<close>.\<close>

definition days_in_month :: "int \<Rightarrow> int \<Rightarrow> int" where
  "days_in_month y m =
    (if m = 2 then (if is_leap y then 29 else 28)
     else if m = 4 \<or> m = 6 \<or> m = 9 \<or> m = 11 then 30 else 31)"

definition valid_date :: "date \<Rightarrow> bool" where
  "valid_date d \<longleftrightarrow> 1 \<le> d_year d \<and> d_year d \<le> 9999 \<and> 1 \<le> d_month d \<and> d_month d \<le> 12 \<and>
    1 \<le> d_day d \<and> d_day d \<le> days_in_month (d_year d) (d_month d)"

text \<open>The constructor \<open>datetime.date(year, month, day)\<close>.\<close>

definition mk_date :: "int \<Rightarrow> int \<Rightarrow> int \<Rightarrow> date result" where
  "mk_date y m d = (if valid_date (Date y m d) then Inr (Date y m d) else Inl ValueError)"

definition days_before_year :: "int \<Rightarrow> int" where
  "days_before_year y =
    (y - 1) * 365 + (y - 1) div 4 - (y - 1) div 100 + (y - 1) div 400"

definition days_before_month :: "int \<Rightarrow> int \<Rightarrow> int" where
  "days_before_month y m = sum_list (map (days_in_month y) [1..m - 1])"

definition toordinal :: "date \<Rightarrow> int" where
  "toordinal d = days_before_year (d_year d) + days_before_month (d_year d) (d_month d) + d_day d"

text \<open>
  The search for the year of an ordinal ends because the days before a year grow with the year.
\<close>

lemma div_pred_step:
  fixes y k :: int
  assumes "0 < k"
  shows "y div k = (y - 1) div k + (if y mod k = 0 then 1 else 0)"
proof -
  have "y - 1 = (y mod k - 1) + k * (y div k)" by simp
  then have "(y - 1) div k = y div k + (y mod k - 1) div k"
    using assms by (metis add.commute div_mult_self2 less_irrefl)
  moreover have "(y mod k - 1) div k = (if y mod k = 0 then -1 else 0)"
  proof (cases "y mod k = 0")
    case True
    then show ?thesis using assms by (simp add: div_eq_minus1)
  next
    case False
    then show ?thesis
      using assms pos_mod_sign [of k y] pos_mod_bound [of k y]
      by (simp add: div_pos_pos_trivial less_le)
  qed
  ultimately show ?thesis by simp
qed

lemma leap_count:
  fixes v x :: int
  assumes "b \<Longrightarrow> a" and "c \<Longrightarrow> b"
    and "x = v + 365 + (if a then 1 else 0) - (if b then 1 else 0) + (if c then 1 else 0)"
  shows "x = v + (if a \<and> (\<not> b \<or> c) then 366 else 365)"
  using assms by (cases a; cases b; cases c) auto

lemma days_before_year_step:
  "days_before_year (y + 1) = days_before_year y + (if is_leap y then 366 else 365)"
proof -
  have imp: "y mod 100 = 0 \<Longrightarrow> y mod 4 = 0" "y mod 400 = 0 \<Longrightarrow> y mod 100 = 0"
    using mod_mod_cancel [of 4 100 y] mod_mod_cancel [of 100 400 y] by simp_all
  have "days_before_year (y + 1) = days_before_year y + 365
      + (if y mod 4 = 0 then 1 else 0) - (if y mod 100 = 0 then 1 else 0)
      + (if y mod 400 = 0 then 1 else 0)"
  proof -
    have "y div 4 = (y - 1) div 4 + (if y mod 4 = 0 then 1 else 0)"
      "y div 100 = (y - 1) div 100 + (if y mod 100 = 0 then 1 else 0)"
      "y div 400 = (y - 1) div 400 + (if y mod 400 = 0 then 1 else 0)"
      by (rule div_pred_step, simp)+
    then show ?thesis
      unfolding days_before_year_def add_diff_cancel_right' by (simp only: algebra_simps)
  qed
  from leap_count [OF imp this] show ?thesis unfolding is_leap_def .
qed

function find_year :: "int \<Rightarrow> int \<Rightarrow> int" where
  "find_year n y = (if days_before_year (y + 1) < n \<and> 1 \<le> y then find_year n (y + 1) else y)"
  by pat_completeness auto
termination
proof (relation "measure (\<lambda>(n, y). nat (n - days_before_year y))", simp)
  fix n y :: int
  assume "days_before_year (y + 1) < n \<and> 1 \<le> y"
  moreover have "days_before_year y < days_before_year (y + 1)"
    by (simp add: days_before_year_step)
  ultimately show "((n, y + 1), n, y) \<in> measure (\<lambda>(n, y). nat (n - days_before_year y))"
    by simp
qed

function find_month :: "int \<Rightarrow> int \<Rightarrow> int \<Rightarrow> int" where
  "find_month y r m = (if m < 12 \<and> days_in_month y m < r
     then find_month y (r - days_in_month y m) (m + 1) else m)"
  by pat_completeness auto
termination
  by (relation "measure (\<lambda>(y, r, m). nat (12 - m))") auto

definition fromordinal :: "int \<Rightarrow> date" where
  "fromordinal n =
    (let y = find_year n ((n - 1) div 366 + 1);
         r = n - days_before_year y;
         m = find_month y r 1
     in Date y m (r - days_before_month y m))"

definition max_ordinal :: int where
  "max_ordinal = 3652059"

text \<open>\<open>d + datetime.timedelta(days=n)\<close>; a subtraction is the addition of \<open>-n\<close>.\<close>

definition add_days :: "date \<Rightarrow> int \<Rightarrow> date result" where
  "add_days d n =
    (let t = toordinal d + n
     in if 1 \<le> t \<and> t \<le> max_ordinal then Inr (fromordinal t) else Inl OverflowError)"

text \<open>\<open>(a - b).days\<close>\<close>

definition days_between :: "date \<Rightarrow> date \<Rightarrow> int" where
  "days_between a b = toordinal a - toordinal b"

text \<open>\<open>date.weekday()\<close>: Monday is 0.\<close>

definition weekday :: "date \<Rightarrow> int" where
  "weekday d = (toordinal d + 6) mod 7"

text \<open>\<open>date.isocalendar().week\<close>, as the library computes it.\<close>

definition isoweek1monday :: "int \<Rightarrow> int" where
  "isoweek1monday y =
    (let firstday = days_before_year y + 1;
         firstweekday = (firstday + 6) mod 7;
         week1monday = firstday - firstweekday
     in if firstweekday > 3 then week1monday + 7 else week1monday)"

definition iso_week :: "date \<Rightarrow> int" where
  "iso_week d =
    (let y = d_year d;
         today = toordinal d;
         week = (today - isoweek1monday y) div 7
     in if week < 0 then (today - isoweek1monday (y - 1)) div 7 + 1
        else if week \<ge> 52 \<and> today \<ge> isoweek1monday (y + 1) then 1
        else week + 1)"

section \<open>Years and months\<close>

lemma days_before_year_less:
  assumes "a < b" shows "days_before_year (a + 1) \<le> days_before_year b"
proof -
  have "a + 1 \<le> b" using assms by simp
  then show ?thesis
  proof (induction b rule: int_ge_induct)
    case base
    then show ?case by simp
  next
    case (step i)
    then show ?case by (simp add: days_before_year_step)
  qed
qed

lemma days_before_year_lower: "1 \<le> y \<Longrightarrow> 0 \<le> days_before_year y"
proof (induction y rule: int_ge_induct)
  case base
  then show ?case by (simp add: days_before_year_def)
next
  case (step i)
  then show ?case by (simp add: days_before_year_step)
qed

lemma days_before_year_upper: "1 \<le> y \<Longrightarrow> days_before_year y \<le> (y - 1) * 366"
proof (induction y rule: int_ge_induct)
  case base
  then show ?case by (simp add: days_before_year_def)
next
  case (step i)
  then show ?case using days_before_year_step [of i] by (simp add: algebra_simps)
qed

lemma days_in_month_bounds: "28 \<le> days_in_month y m" "days_in_month y m \<le> 31"
  by (simp_all add: days_in_month_def)

lemma days_before_month_1 [simp]: "days_before_month y 1 = 0"
  by (simp add: days_before_month_def)

lemma days_before_month_step:
  "1 \<le> m \<Longrightarrow> days_before_month y (m + 1) = days_before_month y m + days_in_month y m"
  by (simp add: days_before_month_def upto_rec2)

lemma days_before_month_less:
  assumes "1 \<le> a" and "a < b"
  shows "days_before_month y (a + 1) \<le> days_before_month y b"
proof -
  have "a + 1 \<le> b" using assms by simp
  then show ?thesis
  proof (induction b rule: int_ge_induct)
    case base
    then show ?case by simp
  next
    case (step i)
    with assms show ?case
      using days_in_month_bounds(1) [of y i] by (simp add: days_before_month_step)
  qed
qed

lemma days_before_month_nonneg: "1 \<le> m \<Longrightarrow> 0 \<le> days_before_month y m"
  using days_before_month_less [of 1 m y] days_in_month_bounds(1) [of y 1]
    days_before_month_step [of 1 y]
  by (cases "m = 1") auto

lemma days_before_month_13: "days_before_month y 13 = (if is_leap y then 366 else 365)"
proof -
  have "[1..12] = [1, 2, 3, 4, 5, 6, 7, 8, 9, 10, 11, 12 :: int]"
    by (simp add: upto_rec1)
  then show ?thesis
    by (simp add: days_before_month_def days_in_month_def)
qed

lemma days_before_month_in_year:
  assumes "1 \<le> m" and "m \<le> 12"
  shows "days_before_month y m + days_in_month y m \<le> (if is_leap y then 366 else 365)"
proof (cases "m = 12")
  case True
  then show ?thesis using days_before_month_step [of 12 y] days_before_month_13 [of y] by simp
next
  case False
  with assms have "days_before_month y (m + 1) \<le> days_before_month y 13"
    using days_before_month_less [of m 13 y] by simp
  with assms show ?thesis by (simp add: days_before_month_step days_before_month_13)
qed

section \<open>Dates and ordinals\<close>

lemma valid_date_simps [simp]:
  "valid_date (Date y m d) \<longleftrightarrow> 1 \<le> y \<and> y \<le> 9999 \<and> 1 \<le> m \<and> m \<le> 12 \<and> 1 \<le> d \<and> d \<le> days_in_month y m"
  by (simp add: valid_date_def)

lemma Date_less_simps [simp]:
  "Date y m d < Date y' m' d' \<longleftrightarrow> y < y' \<or> y = y' \<and> (m < m' \<or> m = m' \<and> d < d')"
  "Date y m d \<le> Date y' m' d' \<longleftrightarrow> y < y' \<or> y = y' \<and> (m < m' \<or> m = m' \<and> d \<le> d')"
  by (auto simp: less_date_def less_eq_date_def)

lemma toordinal_bounds:
  assumes "valid_date d"
  shows "days_before_year (d_year d) < toordinal d"
    and "toordinal d \<le> days_before_year (d_year d + 1)"
proof -
  obtain y m k where d: "d = Date y m k" by (cases d)
  with assms have v: "1 \<le> m" "m \<le> 12" "1 \<le> k" "k \<le> days_in_month y m" by auto
  show "days_before_year (d_year d) < toordinal d"
    using days_before_month_nonneg [of m y] v d by (simp add: toordinal_def)
  show "toordinal d \<le> days_before_year (d_year d + 1)"
    using days_before_month_in_year [of m y] v d
    by (simp add: toordinal_def days_before_year_step)
qed

lemma toordinal_less:
  assumes "valid_date a" and "valid_date b" and "a < b"
  shows "toordinal a < toordinal b"
proof -
  obtain y m d where a: "a = Date y m d" by (cases a)
  obtain y' m' d' where b: "b = Date y' m' d'" by (cases b)
  from assms(3) a b consider "y < y'" | "y = y'" "m < m'" | "y = y'" "m = m'" "d < d'" by auto
  then show ?thesis
  proof cases
    case 1
    then show ?thesis
      using days_before_year_less [OF 1] toordinal_bounds [OF assms(1)]
        toordinal_bounds [OF assms(2)] a b by simp
  next
    case 2
    with assms a b have "days_before_month y (m + 1) \<le> days_before_month y m'"
      using days_before_month_less by simp
    with assms a b 2 show ?thesis by (simp add: toordinal_def days_before_month_step)
  next
    case 3
    with a b show ?thesis by (simp add: toordinal_def)
  qed
qed

lemma toordinal_less_iff [simp]:
  "valid_date a \<Longrightarrow> valid_date b \<Longrightarrow> toordinal a < toordinal b \<longleftrightarrow> a < b"
  by (metis linorder_cases order_less_asym toordinal_less)

lemma toordinal_le_iff [simp]:
  "valid_date a \<Longrightarrow> valid_date b \<Longrightarrow> toordinal a \<le> toordinal b \<longleftrightarrow> a \<le> b"
  by (meson linorder_not_le toordinal_less_iff)

lemma toordinal_eq_iff:
  "valid_date a \<Longrightarrow> valid_date b \<Longrightarrow> toordinal a = toordinal b \<longleftrightarrow> a = b"
  by (metis linorder_cases order_less_irrefl toordinal_less)

declare find_year.simps [simp del]
declare find_month.simps [simp del]

lemma find_year_bounds:
  assumes "1 \<le> y" and "days_before_year y < n"
  shows "y \<le> find_year n y \<and> days_before_year (find_year n y) < n \<and>
    n \<le> days_before_year (find_year n y + 1)"
  using assms
proof (induction n y rule: find_year.induct)
  case (1 n y)
  show ?case
  proof (cases "days_before_year (y + 1) < n")
    case True
    with 1 show ?thesis by (auto simp: find_year.simps [of n y])
  next
    case False
    with 1 show ?thesis by (auto simp: find_year.simps [of n y])
  qed
qed

lemma find_month_bounds:
  assumes "1 \<le> m" and "m \<le> 12" and "days_before_month y m + r \<le> days_before_month y 13" and "1 \<le> r"
  shows "m \<le> find_month y r m \<and> find_month y r m \<le> 12 \<and>
    days_before_month y (find_month y r m) < days_before_month y m + r \<and>
    days_before_month y m + r \<le> days_before_month y (find_month y r m + 1)"
  using assms
proof (induction y r m rule: find_month.induct)
  case (1 y r m)
  show ?case
  proof (cases "m < 12 \<and> days_in_month y m < r")
    case True
    with 1 show ?thesis
      by (auto simp: find_month.simps [of y r m] days_before_month_step)
  next
    case False
    have eq: "find_month y r m = m" using False by (subst find_month.simps) auto
    have "days_before_month y m + r \<le> days_before_month y (m + 1)"
    proof (cases "m = 12")
      case True
      then show ?thesis using 1 by simp
    next
      case False
      with \<open>\<not> (m < 12 \<and> days_in_month y m < r)\<close> 1 show ?thesis
        by (auto simp: days_before_month_step)
    qed
    with eq 1 show ?thesis by auto
  qed
qed

lemma max_ordinal_eq: "days_before_year 10000 = max_ordinal"
  by (simp add: days_before_year_def max_ordinal_def)

lemma valid_fromordinal:
  assumes "1 \<le> n" and "n \<le> max_ordinal"
  shows "valid_date (fromordinal n) \<and> toordinal (fromordinal n) = n"
proof -
  define y0 where "y0 = (n - 1) div 366 + 1"
  define y where "y = find_year n y0"
  define r where "r = n - days_before_year y"
  define m where "m = find_month y r 1"
  have y0: "1 \<le> y0" using assms(1) by (simp add: y0_def pos_imp_zdiv_nonneg_iff)
  have "(y0 - 1) * 366 \<le> n - 1"
    by (simp add: y0_def mult.commute)
  with days_before_year_upper [OF y0] have "days_before_year y0 < n" by simp
  from find_year_bounds [OF y0 this] y0 have
    y: "1 \<le> y" "days_before_year y < n" "n \<le> days_before_year (y + 1)"
    by (auto simp: y_def)
  have "y \<le> 9999"
  proof (rule ccontr)
    assume "\<not> y \<le> 9999"
    then have "days_before_year 10000 \<le> days_before_year y"
      using days_before_year_less [of 9999 y] by simp
    with y(2) assms(2) show False by (simp add: max_ordinal_eq)
  qed
  have "r \<le> days_before_month y 13" "1 \<le> r"
    using y by (auto simp: r_def days_before_year_step days_before_month_13)
  then have m: "1 \<le> m" "m \<le> 12" "days_before_month y m < r" "r \<le> days_before_month y (m + 1)"
    using find_month_bounds [of 1 y r] by (auto simp: m_def)
  have eq: "fromordinal n = Date y m (r - days_before_month y m)"
    by (simp add: fromordinal_def y_def [unfolded y0_def, symmetric] Let_def r_def [symmetric]
        m_def [symmetric])
  show ?thesis
    using y \<open>y \<le> 9999\<close> m unfolding eq
    by (simp add: toordinal_def days_before_month_step r_def)
qed

lemma toordinal_range:
  assumes "valid_date d" shows "1 \<le> toordinal d" "toordinal d \<le> max_ordinal"
proof -
  have "1 \<le> d_year d" "d_year d \<le> 9999" using assms by (auto simp: valid_date_def)
  then show "1 \<le> toordinal d" "toordinal d \<le> max_ordinal"
    using toordinal_bounds [OF assms] days_before_year_lower [of "d_year d"]
      days_before_year_less [of "d_year d" 10000] max_ordinal_eq by auto
qed

lemma fromordinal_toordinal [simp]:
  "valid_date d \<Longrightarrow> fromordinal (toordinal d) = d"
  using valid_fromordinal toordinal_range toordinal_eq_iff by blast

section \<open>Day arithmetic\<close>

lemma add_days_Inr:
  assumes "valid_date d" and "add_days d n = Inr e"
  shows "valid_date e" and "toordinal e = toordinal d + n"
  using assms(2) valid_fromordinal [of "toordinal d + n"]
  by (auto simp: add_days_def Let_def split: if_splits)

lemma add_days_eq_Inr_iff:
  assumes "valid_date d"
  shows "add_days d n = Inr e \<longleftrightarrow> valid_date e \<and> toordinal e = toordinal d + n"
proof
  assume "add_days d n = Inr e"
  then show "valid_date e \<and> toordinal e = toordinal d + n"
    using add_days_Inr [OF assms] by simp
next
  assume e: "valid_date e \<and> toordinal e = toordinal d + n"
  then have "1 \<le> toordinal d + n" "toordinal d + n \<le> max_ordinal"
    using toordinal_range [of e] by auto
  moreover have "fromordinal (toordinal d + n) = e"
    using e fromordinal_toordinal [of e] by simp
  ultimately show "add_days d n = Inr e" by (simp add: add_days_def Let_def)
qed

lemma add_days_error: "add_days d n = Inl e \<Longrightarrow> e = OverflowError"
  by (auto simp: add_days_def Let_def split: if_splits)

lemma mk_date_Inr_iff: "mk_date y m d = Inr x \<longleftrightarrow> valid_date (Date y m d) \<and> x = Date y m d"
  by (auto simp: mk_date_def)

lemma days_between_nonneg_iff:
  "valid_date a \<Longrightarrow> valid_date b \<Longrightarrow> 0 \<le> days_between a b \<longleftrightarrow> b \<le> a"
  by (simp add: days_between_def)

lemma weekday_range: "0 \<le> weekday d" "weekday d \<le> 6"
  using pos_mod_bound [of 7 "toordinal d + 6"] by (auto simp: weekday_def)

end
