(* ===== verification/Decimals.thy ===== *)
theory Decimals
  imports Prelude
begin

text \<open>
  The part of Python's \<open>decimal\<close> module the services use. A \<open>Decimal\<close> is its rational value (the
  exponent, which only \<open>str\<close> shows, is not kept). \<open>quantize\<close> rounds to a fixed number of decimal
  places in one of the three rounding modes of the code; \<open>ctx\<close> is the rounding of every arithmetic
  result to the 28 significant digits of the default context, half to even.

  Products, quotients and powers are modelled with their context rounding (\<open>dec_mul\<close>, \<open>dec_div\<close>,
  \<open>dec_pow\<close>, \<open>dec_add\<close>). Sums and differences of money amounts are plain \<open>+\<close> and \<open>-\<close>: a
  \<open>Numeric(15, 2)\<close> column is below \<open>10 ^ 13\<close>, and \<open>ctx_cents\<close> shows that the context does not
  round any two-place value below \<open>10 ^ 26\<close>.
\<close>

section \<open>Definitions\<close>

type_synonym decimal = rat

datatype rounding = ROUND_HALF_EVEN | ROUND_HALF_UP | ROUND_UP

fun round_to_int :: "rounding \<Rightarrow> rat \<Rightarrow> int" where
  "round_to_int ROUND_HALF_EVEN x =
    (let f = \<lfloor>x\<rfloor>; r = x - of_int f
     in if r < 1 / 2 then f else if 1 / 2 < r then f + 1 else if even f then f else f + 1)"
| "round_to_int ROUND_HALF_UP x = (if 0 \<le> x then \<lfloor>x + 1 / 2\<rfloor> else - \<lfloor>- x + 1 / 2\<rfloor>)"
| "round_to_int ROUND_UP x = (if 0 \<le> x then \<lceil>x\<rceil> else - \<lceil>- x\<rceil>)"

text \<open>\<open>x.quantize(Decimal(10) ** -places, rounding=mode)\<close>\<close>

definition quantize :: "rounding \<Rightarrow> nat \<Rightarrow> decimal \<Rightarrow> decimal" where
  "quantize mode places x = of_int (round_to_int mode (x * 10 ^ places)) / 10 ^ places"

definition pow10 :: "int \<Rightarrow> rat" where
  "pow10 e = (if 0 \<le> e then 10 ^ nat e else 1 / 10 ^ nat (- e))"

fun ndigits :: "nat \<Rightarrow> nat" where
  "ndigits n = (if n < 10 then 1 else Suc (ndigits (n div 10)))"

text \<open>The exponent of the leading digit of a positive value.\<close>

definition adjusted :: "rat \<Rightarrow> int" where
  "adjusted x =
    (if 1 \<le> x then int (ndigits (nat \<lfloor>x\<rfloor>)) - 1 else - int (ndigits (nat \<lfloor>1 / x\<rfloor>)))"

definition ctx :: "rat \<Rightarrow> decimal" where
  "ctx x =
    (if x = 0 then 0
     else let e = 27 - adjusted \<bar>x\<bar>
          in of_int (round_to_int ROUND_HALF_EVEN (x * pow10 e)) / pow10 e)"

definition dec_add :: "decimal \<Rightarrow> decimal \<Rightarrow> decimal" where
  "dec_add a b = ctx (a + b)"

definition dec_mul :: "decimal \<Rightarrow> decimal \<Rightarrow> decimal" where
  "dec_mul a b = ctx (a * b)"

definition dec_div :: "decimal \<Rightarrow> decimal \<Rightarrow> decimal" where
  "dec_div a b = ctx (a / b)"

definition dec_pow :: "decimal \<Rightarrow> nat \<Rightarrow> decimal" where
  "dec_pow a n = ctx (a ^ n)"

text \<open>A value with at most two decimal places, as every money column holds.\<close>

definition cents :: "decimal \<Rightarrow> bool" where
  "cents x \<longleftrightarrow> x * 100 = of_int \<lfloor>x * 100\<rfloor>"

section \<open>Rounding to an integer\<close>

lemma round_to_int_of_int [simp]: "round_to_int mode (of_int n) = n"
proof -
  have "\<lfloor>of_int n + 1 / 2 :: rat\<rfloor> = n" "\<lfloor>- of_int n + 1 / 2 :: rat\<rfloor> = - n"
    by linarith+
  then show ?thesis by (cases mode) (auto simp: ceiling_minus)
qed

lemma round_half_even_error: "\<bar>of_int (round_to_int ROUND_HALF_EVEN x) - x\<bar> \<le> 1 / 2"
proof -
  define f where "f = \<lfloor>x\<rfloor>"
  have "of_int f \<le> x" "x < of_int f + 1" unfolding f_def by linarith+
  then show ?thesis
    by (simp only: round_to_int.simps Let_def abs_le_iff f_def [symmetric] split: if_split) auto
qed

lemma round_half_up_error: "\<bar>of_int (round_to_int ROUND_HALF_UP x) - x\<bar> \<le> 1 / 2"
proof (cases "0 \<le> x")
  case True
  have "of_int \<lfloor>x + 1 / 2\<rfloor> \<le> x + 1 / 2" "x + 1 / 2 < of_int \<lfloor>x + 1 / 2\<rfloor> + 1" by linarith+
  then show ?thesis using True by (simp only: round_to_int.simps if_True abs_le_iff) linarith
next
  case False
  have "of_int \<lfloor>- x + 1 / 2\<rfloor> \<le> - x + 1 / 2" "- x + 1 / 2 < of_int \<lfloor>- x + 1 / 2\<rfloor> + 1" by linarith+
  then show ?thesis using False by (simp only: round_to_int.simps if_False of_int_minus abs_le_iff) linarith
qed

lemma round_up_ge: "0 \<le> x \<Longrightarrow> x \<le> of_int (round_to_int ROUND_UP x)"
  by (simp add: le_of_int_ceiling)

lemma round_to_int_nonneg: "0 \<le> x \<Longrightarrow> 0 \<le> round_to_int mode x"
proof (cases mode)
  case ROUND_HALF_EVEN
  moreover assume "0 \<le> x"
  moreover from this have "0 \<le> \<lfloor>x\<rfloor>" by simp
  ultimately show ?thesis by (simp add: Let_def)
next
  case ROUND_HALF_UP
  moreover assume "0 \<le> x"
  moreover from this have "0 \<le> \<lfloor>x + 1 / 2\<rfloor>" by simp
  ultimately show ?thesis by simp
next
  case ROUND_UP
  moreover assume "0 \<le> x"
  moreover from this have "(-1 :: rat) < x" by simp
  ultimately show ?thesis by simp
qed

section \<open>Two-place values\<close>

lemma centsI: "x = of_int n / 100 \<Longrightarrow> cents x"
  by (simp add: cents_def)

lemma centsE:
  assumes "cents x"
  obtains n where "x = of_int n / 100"
proof
  show "x = of_int \<lfloor>x * 100\<rfloor> / 100" using assms by (simp add: cents_def)
qed

lemma cents_0 [simp]: "cents 0"
  by (simp add: cents_def)

lemma cents_add [simp]: "cents x \<Longrightarrow> cents y \<Longrightarrow> cents (x + y)"
  by (elim centsE) (rule centsI, simp add: add_divide_distrib of_int_add [symmetric] del: of_int_add)

lemma cents_minus [simp]: "cents x \<Longrightarrow> cents (- x)"
  by (elim centsE) (rule centsI [of _ "- n" for n], simp)

lemma cents_diff [simp]: "cents x \<Longrightarrow> cents y \<Longrightarrow> cents (x - y)"
  using cents_add [of x "- y"] by simp

lemma cents_abs [simp]: "cents x \<Longrightarrow> cents \<bar>x\<bar>"
  by (simp add: abs_if)

lemma cents_quantize [simp]: "cents (quantize mode 2 x)"
  by (rule centsI) (simp add: quantize_def)

lemma quantize_cents [simp]: "cents x \<Longrightarrow> quantize mode 2 x = x"
  by (elim centsE) (simp add: quantize_def)

lemma cents_max [simp]: "cents x \<Longrightarrow> cents y \<Longrightarrow> cents (max x y)"
  by (simp add: max_def)

lemma cents_min [simp]: "cents x \<Longrightarrow> cents y \<Longrightarrow> cents (min x y)"
  by (simp add: min_def)

lemma cents_sum_list: "(\<And>x. x \<in> set xs \<Longrightarrow> cents x) \<Longrightarrow> cents (sum_list xs)"
  by (induction xs) simp_all

lemma quantize_nonneg: "0 \<le> x \<Longrightarrow> 0 \<le> quantize mode p x"
  by (simp add: quantize_def round_to_int_nonneg)

lemma quantize_half_up_error: "\<bar>quantize ROUND_HALF_UP 2 x - x\<bar> \<le> 1 / 200"
proof -
  define r where "r = (of_int (round_to_int ROUND_HALF_UP (x * 100)) :: rat)"
  have "\<bar>r - x * 100\<bar> \<le> 1 / 2" unfolding r_def by (rule round_half_up_error)
  then have "- (1 / 2) \<le> r - x * 100" "r - x * 100 \<le> 1 / 2" by linarith+
  then have "\<bar>r / 100 - x\<bar> \<le> 1 / 200" by linarith
  then show ?thesis by (simp add: quantize_def r_def del: round_to_int.simps)
qed

section \<open>Context precision\<close>

lemma pow10_pos [simp]: "0 < pow10 e"
  by (simp add: pow10_def)

lemma pow10_nonzero [simp]: "pow10 e \<noteq> 0"
  using pow10_pos [of e] by linarith

lemma pow10_add: "pow10 (a + b) = pow10 a * pow10 b"
proof -
  have *: "pow10 e = 10 powi e" for e
    by (simp add: pow10_def power_int_def field_simps)
  show ?thesis by (simp add: * power_int_add)
qed

lemma pow10_of_nat: "pow10 (int n) = 10 ^ n"
  by (simp add: pow10_def)

lemma pow10_uminus: "pow10 (- e) = 1 / pow10 e"
  using pow10_add [of e "- e"] by (simp add: field_simps pow10_def)

lemma pow10_mono: "a \<le> b \<Longrightarrow> pow10 a \<le> pow10 b"
proof -
  assume "a \<le> b"
  then obtain k where b: "b = a + int k" by (metis zle_iff_zadd)
  have "pow10 a * 1 \<le> pow10 a * 10 ^ k" by (rule mult_left_mono) (simp_all add: less_imp_le)
  then show ?thesis by (simp add: b pow10_add pow10_of_nat)
qed

declare ndigits.simps [simp del]

lemma ndigits_bounds: "1 \<le> n \<Longrightarrow> 10 ^ (ndigits n - 1) \<le> n \<and> n < 10 ^ ndigits n"
proof (induction n rule: ndigits.induct)
  case (1 n)
  show ?case
  proof (cases "n < 10")
    case True
    with 1 show ?thesis by (simp add: ndigits.simps [of n])
  next
    case False
    then have eq: "ndigits n = Suc (ndigits (n div 10))" and "1 \<le> n div 10"
      by (simp_all add: ndigits.simps [of n])
    with 1 False have IH: "10 ^ (ndigits (n div 10) - 1) \<le> n div 10" "n div 10 < 10 ^ ndigits (n div 10)"
      by simp_all
    have "1 \<le> ndigits (n div 10)" by (simp add: ndigits.simps [of "n div 10"])
    then have "(10::nat) ^ ndigits (n div 10) = 10 * 10 ^ (ndigits (n div 10) - 1)"
      by (metis Suc_diff_1 less_eq_Suc_le One_nat_def power_Suc)
    then have "10 * 10 ^ (ndigits (n div 10) - 1) \<le> 10 * (n div 10)"
      and "10 * (n div 10) + 10 \<le> 10 * 10 ^ ndigits (n div 10)"
      using IH by linarith+
    moreover have "10 * (n div 10) \<le> n" "n < 10 * (n div 10) + 10" by linarith+
    moreover note \<open>(10::nat) ^ ndigits (n div 10) = 10 * 10 ^ (ndigits (n div 10) - 1)\<close>
    ultimately show ?thesis unfolding eq by simp linarith
  qed
qed

lemma of_nat_floor_bounds:
  fixes x :: rat
  assumes "1 \<le> x"
  shows "1 \<le> nat \<lfloor>x\<rfloor>" and "of_nat (nat \<lfloor>x\<rfloor>) \<le> x" and "x < of_nat (nat \<lfloor>x\<rfloor>) + 1"
  using assms by (auto simp: le_floor_iff le_nat_iff) linarith+

lemma ndigits_rat_bounds:
  fixes x :: rat
  assumes "1 \<le> x"
  shows "pow10 (int (ndigits (nat \<lfloor>x\<rfloor>)) - 1) \<le> x" and "x < pow10 (int (ndigits (nat \<lfloor>x\<rfloor>)))"
proof -
  let ?n = "nat \<lfloor>x\<rfloor>"
  note b = ndigits_bounds [OF of_nat_floor_bounds(1) [OF assms]]
  have "1 \<le> ndigits ?n" by (simp add: ndigits.simps [of ?n])
  then have e: "int (ndigits ?n) - 1 = int (ndigits ?n - 1)" by simp
  have "(10 :: rat) ^ (ndigits ?n - 1) = of_nat (10 ^ (ndigits ?n - 1))" by simp
  also have "\<dots> \<le> of_nat ?n" using b by (simp only: of_nat_le_iff)
  finally show "pow10 (int (ndigits ?n) - 1) \<le> x"
    using of_nat_floor_bounds(2) [OF assms] unfolding e pow10_of_nat by (rule order_trans)
  have "x < of_nat (?n + 1)" using of_nat_floor_bounds(3) [OF assms] by simp
  also have "\<dots> \<le> (of_nat (10 ^ ndigits ?n) :: rat)"
    using b by (simp only: of_nat_le_iff Suc_leI Suc_eq_plus1 [symmetric])
  finally show "x < pow10 (int (ndigits ?n))" unfolding pow10_of_nat by simp
qed

text \<open>The leading digit lies at \<open>adjusted x\<close>, exact powers of ten below one being the boundary.\<close>

lemma adjusted_lower: "0 < x \<Longrightarrow> pow10 (adjusted x) \<le> x"
proof (cases "1 \<le> x")
  case True
  then show ?thesis using ndigits_rat_bounds(1) [of x] by (simp add: adjusted_def)
next
  case False
  assume "0 < x"
  with False have "1 \<le> 1 / x" by simp
  from ndigits_rat_bounds(2) [OF this] \<open>0 < x\<close> False show ?thesis
    by (simp add: adjusted_def pow10_uminus field_simps)
qed

lemma adjusted_upper: "0 < x \<Longrightarrow> x \<le> pow10 (adjusted x + 1)"
proof (cases "1 \<le> x")
  case True
  then show ?thesis using ndigits_rat_bounds(2) [of x] by (simp add: adjusted_def)
next
  case False
  assume "0 < x"
  let ?d = "int (ndigits (nat \<lfloor>1 / x\<rfloor>))"
  have "- ?d + 1 = - (?d - 1)" by simp
  with \<open>0 < x\<close> False ndigits_rat_bounds(1) [of "1 / x"] show ?thesis
    by (simp only: adjusted_def if_False pow10_uminus) (simp add: field_simps)
qed

lemma adjusted_le:
  assumes "0 < x" and "x < pow10 e"
  shows "adjusted x < e"
proof (rule ccontr)
  assume "\<not> adjusted x < e"
  then have "pow10 e \<le> pow10 (adjusted x)" by (simp add: pow10_mono)
  with adjusted_lower [OF assms(1)] assms(2) show False by simp
qed

text \<open>Values of at most 28 digits are kept as they are.\<close>

lemma ctx_exact:
  assumes "\<bar>x\<bar> < pow10 (28 - int k)" and "x * 10 ^ k = of_int n"
  shows "ctx x = x"
proof (cases "x = 0")
  case True
  then show ?thesis by (simp add: ctx_def)
next
  case False
  define e where "e = 27 - adjusted \<bar>x\<bar>"
  have "adjusted \<bar>x\<bar> < 28 - int k" by (rule adjusted_le) (use False assms in auto)
  then obtain j where j: "e = int k + int j" using zle_iff_zadd [of "int k" e] by (auto simp: e_def)
  have "x * pow10 e = of_int (n * 10 ^ j)"
    using assms(2) by (simp add: j pow10_add pow10_of_nat mult.assoc [symmetric])
  then show ?thesis
    using False by (simp add: ctx_def Let_def e_def [symmetric] del: round_to_int.simps)
      (simp add: field_simps)
qed

lemma ctx_cents:
  assumes "cents x" and "\<bar>x\<bar> < 10 ^ 26"
  shows "ctx x = x"
proof -
  from assms(1) obtain n where "x = of_int n / 100" by (rule centsE)
  then have "x * 10 ^ 2 = of_int n" by simp
  moreover have "\<bar>x\<bar> < pow10 (28 - int 2)" using assms(2) by (simp add: pow10_def)
  ultimately show ?thesis by (rule ctx_exact [rotated])
qed

lemma ctx_error: "\<bar>ctx x - x\<bar> \<le> \<bar>x\<bar> / 10 ^ 27"
proof (cases "x = 0")
  case True
  then show ?thesis by (simp add: ctx_def)
next
  case False
  define e where "e = 27 - adjusted \<bar>x\<bar>"
  define r where "r = (of_int (round_to_int ROUND_HALF_EVEN (x * pow10 e)) :: rat)"
  have r: "ctx x = r / pow10 e" using False by (simp add: ctx_def Let_def e_def r_def)
  have "\<bar>r - x * pow10 e\<bar> \<le> 1 / 2" unfolding r_def by (rule round_half_even_error)
  moreover have "r / pow10 e - x = (r - x * pow10 e) / pow10 e" by (simp add: field_simps)
  ultimately have "\<bar>ctx x - x\<bar> \<le> 1 / 2 / pow10 e"
    unfolding r abs_divide abs_of_pos [OF pow10_pos] by (metis (no_types) divide_right_mono
        less_imp_le pow10_pos abs_divide abs_of_pos)
  also have "\<dots> \<le> 1 / pow10 e" using pow10_pos [of e] by (simp add: field_simps)
  also have "1 / pow10 e = pow10 (adjusted \<bar>x\<bar>) / 10 ^ 27"
    using pow10_add [of "adjusted \<bar>x\<bar>" e] pow10_of_nat [of 27] by (simp add: e_def field_simps)
  also have "\<dots> \<le> \<bar>x\<bar> / 10 ^ 27"
    using adjusted_lower [of "\<bar>x\<bar>"] False by (simp add: divide_right_mono)
  finally show ?thesis .
qed

lemma ctx_nonneg: "0 \<le> x \<Longrightarrow> 0 \<le> ctx x"
  by (auto simp: ctx_def Let_def round_to_int_nonneg less_imp_le simp del: round_to_int.simps)

lemma ctx_bounds:
  assumes "0 \<le> x"
  shows "x - x / 10 ^ 27 \<le> ctx x" and "ctx x \<le> x + x / 10 ^ 27"
  using ctx_error [of x] assms by linarith+

end
