(* ===== verification/Texts.thy ===== *)
theory Texts
  imports Prelude "HOL-Library.List_Lexorder" "HOL-Library.Char_ord"
begin

text \<open>
  The text functions the services share: \<open>casefold\<close> ordering (\<open>services/text_order.py\<close>), collapsed
  whitespace, and the blind indexes of \<open>db/types.py\<close>, the columns through which an encrypted text is
  compared. A \<open>string\<close> holds ASCII text here: the Unicode steps (NFKC, the folding of other scripts)
  are the identity on it. The keyed hash (HMAC-SHA256 under the index key) is the parameter \<open>hmac\<close> of
  every definition that uses it.
\<close>

section \<open>Definitions\<close>

subsection \<open>Case folding and order\<close>

definition lower_char :: "char \<Rightarrow> char" where
  "lower_char c =
    (let n = of_char c :: nat in if 65 \<le> n \<and> n \<le> 90 then char_of (n + 32) else c)"

definition casefold :: "string \<Rightarrow> string" where
  "casefold = map lower_char"

definition text_key :: "string option \<Rightarrow> string" where
  "text_key v = (case v of None \<Rightarrow> [] | Some x \<Rightarrow> casefold x)"

definition by_name :: "('a \<Rightarrow> string) \<Rightarrow> 'a list \<Rightarrow> 'a list" where
  "by_name name items = sort_key (\<lambda>x. text_key (Some (name x))) items"

subsection \<open>Whitespace\<close>

text \<open>The ASCII characters for which \<open>str.isspace\<close> holds.\<close>

definition is_space :: "char \<Rightarrow> bool" where
  "is_space c = (let n = of_char c :: nat in n = 32 \<or> (9 \<le> n \<and> n \<le> 13) \<or> (28 \<le> n \<and> n \<le> 31))"

text \<open>\<open>str.split()\<close>: the maximal runs of characters that are not whitespace.\<close>

function words_of :: "string \<Rightarrow> string list" where
  "words_of s =
    (let r = dropWhile is_space s
     in if r = [] then []
        else takeWhile (\<lambda>c. \<not> is_space c) r # words_of (dropWhile (\<lambda>c. \<not> is_space c) r))"
  by pat_completeness auto
termination
proof (relation "measure length")
  fix s r :: string
  assume r: "r = dropWhile is_space s" "r \<noteq> []"
  then have "\<not> is_space (hd r)" by (metis hd_dropWhile)
  with r(2) have "length (dropWhile (\<lambda>c. \<not> is_space c) r) < length r"
    by (cases r) (auto intro: le_imp_less_Suc length_dropWhile_le)
  also have "length r \<le> length s" using r(1) by (simp add: length_dropWhile_le)
  finally show "(dropWhile (\<lambda>c. \<not> is_space c) r, s) \<in> measure length" by simp
qed simp

text \<open>\<open>" ".join(words)\<close>\<close>

fun join_words :: "string list \<Rightarrow> string" where
  "join_words [] = []"
| "join_words [w] = w"
| "join_words (w # v # ws) = w @ '' '' @ join_words (v # ws)"

definition cleaned :: "string \<Rightarrow> string" where
  "cleaned s = join_words (words_of s)"

definition strip :: "string \<Rightarrow> string" where
  "strip s = rev (dropWhile is_space (rev (dropWhile is_space s)))"

text \<open>\<open>re.sub(r"\s+", " ", s)\<close>\<close>

fun collapse_in :: "bool \<Rightarrow> string \<Rightarrow> string" where
  "collapse_in inside [] = []"
| "collapse_in inside (c # cs) =
    (if is_space c then (if inside then collapse_in True cs else CHR '' '' # collapse_in True cs)
     else c # collapse_in False cs)"

subsection \<open>Blind indexes\<close>

definition normalise_for_index :: "string \<Rightarrow> string" where
  "normalise_for_index v = strip (collapse_in False (casefold v))"

definition blind_index :: "(string \<Rightarrow> string) \<Rightarrow> string \<Rightarrow> string" where
  "blind_index hmac v = hmac (normalise_for_index v)"

definition exact_index :: "(string \<Rightarrow> string) \<Rightarrow> string \<Rightarrow> string" where
  "exact_index hmac v = hmac (''='' @ v)"

definition is_digit :: "char \<Rightarrow> bool" where
  "is_digit c \<longleftrightarrow> 48 \<le> (of_char c :: nat) \<and> (of_char c :: nat) \<le> 57"

definition digits_only :: "string \<Rightarrow> string" where
  "digits_only = filter is_digit"

definition last_n :: "nat \<Rightarrow> 'a list \<Rightarrow> 'a list" where
  "last_n n xs = drop (length xs - n) xs"

definition account_suffix_digits :: nat where
  "account_suffix_digits = 8"

definition blind_index_digits ::
  "(string \<Rightarrow> string) \<Rightarrow> string option \<Rightarrow> nat option \<Rightarrow> string option" where
  "blind_index_digits hmac v lst =
    (case v of
       None \<Rightarrow> None
     | Some x \<Rightarrow>
         let digits = (case lst of None \<Rightarrow> digits_only x | Some n \<Rightarrow> last_n n (digits_only x))
         in if digits = [] then None else Some (hmac (''#'' @ digits)))"

definition account_suffix_index :: "(string \<Rightarrow> string) \<Rightarrow> string option \<Rightarrow> string option" where
  "account_suffix_index hmac v = blind_index_digits hmac v (Some account_suffix_digits)"

section \<open>Collapsed whitespace\<close>

declare words_of.simps [simp del]

lemma words_of_step:
  "words_of [] = []"
  "is_space c \<Longrightarrow> words_of (c # s) = words_of s"
  "\<not> is_space c \<Longrightarrow> words_of (c # s) =
     (c # takeWhile (\<lambda>c. \<not> is_space c) s) # words_of (dropWhile (\<lambda>c. \<not> is_space c) s)"
  by (simp_all add: words_of.simps [of "[]"] words_of.simps [of "c # s"] words_of.simps [of s] Let_def)

definition word :: "string \<Rightarrow> bool" where
  "word w \<longleftrightarrow> w \<noteq> [] \<and> (\<forall>c \<in> set w. \<not> is_space c)"

text \<open>Induction along the characters: skip a blank, or read one word.\<close>

lemma words_induct [case_names Nil blank word]:
  assumes "P []"
    and "\<And>c s. is_space c \<Longrightarrow> P s \<Longrightarrow> P (c # s)"
    and "\<And>c s. \<not> is_space c \<Longrightarrow> P (dropWhile (\<lambda>c. \<not> is_space c) s) \<Longrightarrow> P (c # s)"
  shows "P s"
proof (induction s rule: length_induct)
  case (1 s)
  show ?case
  proof (cases s)
    case Nil
    with assms(1) show ?thesis by simp
  next
    case (Cons c r)
    have "length (dropWhile (\<lambda>c. \<not> is_space c) r) < length s"
      using Cons length_dropWhile_le [of "\<lambda>c. \<not> is_space c" r] by simp
    with 1 Cons assms(2,3) show ?thesis by (cases "is_space c") auto
  qed
qed

lemma words_of_are_words: "w \<in> set (words_of s) \<Longrightarrow> word w"
proof (induction s rule: words_induct)
  case (word c s)
  have "word (c # takeWhile (\<lambda>c. \<not> is_space c) s)"
    using word(1) by (auto simp: word_def dest: set_takeWhileD)
  with word show ?case by (auto simp: words_of_step(3))
qed (simp_all add: words_of_step)

lemma words_of_prefix:
  assumes "word w" and "s = [] \<or> is_space (hd s)"
  shows "words_of (w @ s) = w # words_of s"
proof -
  obtain c cs where w: "w = c # cs" using assms(1) by (cases w) (auto simp: word_def)
  have "takeWhile (\<lambda>c. \<not> is_space c) (cs @ s) = cs" "dropWhile (\<lambda>c. \<not> is_space c) (cs @ s) = s"
    using assms w by (auto simp: word_def takeWhile_append dropWhile_append
        intro: hd_dropWhile) (cases s; auto)+
  with w assms(1) show ?thesis by (simp add: words_of_step word_def)
qed

lemma is_space_blank [simp]: "is_space CHR '' ''"
  by (simp add: is_space_def)

lemma words_of_join: "\<forall>w \<in> set ws. word w \<Longrightarrow> words_of (join_words ws) = ws"
proof (induction ws rule: join_words.induct)
  case 1
  show ?case by (simp add: words_of_step)
next
  case (2 w)
  then show ?case using words_of_prefix [of w "[]"] by (simp add: words_of_step)
next
  case (3 w v ws)
  have "words_of (w @ '' '' @ join_words (v # ws)) = w # words_of ('' '' @ join_words (v # ws))"
    using 3 by (intro words_of_prefix) auto
  with 3 show ?case by (simp add: words_of_step)
qed

lemma words_of_cleaned [simp]: "words_of (cleaned s) = words_of s"
  by (simp add: cleaned_def words_of_join words_of_are_words)

lemma cleaned_idem [simp]: "cleaned (cleaned s) = cleaned s"
  by (simp only: cleaned_def [of "cleaned s"] words_of_cleaned) (simp add: cleaned_def)

lemma is_space_lower [simp]: "is_space (lower_char c) = is_space c"
  by (auto simp: lower_char_def is_space_def Let_def)

lemma words_of_casefold: "words_of (casefold s) = map casefold (words_of s)"
  by (induction s rule: words_induct)
    (simp_all add: words_of_step casefold_def dropWhile_map takeWhile_map comp_def)

lemma lower_char_idem [simp]: "lower_char (lower_char c) = lower_char c"
  by (auto simp: lower_char_def Let_def)

lemma casefold_idem [simp]: "casefold (casefold s) = casefold s"
  by (simp add: casefold_def)

lemma casefold_join: "casefold (join_words ws) = join_words (map casefold ws)"
  by (induction ws rule: join_words.induct) (simp_all add: casefold_def lower_char_def)

lemma casefold_cleaned: "casefold (cleaned s) = cleaned (casefold s)"
  by (simp add: cleaned_def words_of_casefold casefold_join)


section \<open>Normalisation leaves a cleaned text alone\<close>

lemma collapse_word:
  "\<forall>c \<in> set w. \<not> is_space c \<Longrightarrow> w \<noteq> [] \<Longrightarrow> collapse_in b (w @ s) = w @ collapse_in False s"
proof (induction w arbitrary: b)
  case (Cons c w)
  then show ?case by (cases "w = []") auto
qed simp

lemma collapse_join: "\<forall>w \<in> set ws. word w \<Longrightarrow> collapse_in b (join_words ws) = join_words ws"
proof (induction ws arbitrary: b rule: join_words.induct)
  case (2 w)
  then show ?case using collapse_word [of w b "[]"] by (simp add: word_def)
next
  case (3 w v ws)
  then show ?case
    using collapse_word [of w b "'' '' @ join_words (v # ws)"] by (simp add: word_def)
qed simp

lemma join_words_ends:
  assumes "\<forall>w \<in> set ws. word w" and "ws \<noteq> []"
  shows "join_words ws \<noteq> [] \<and> \<not> is_space (hd (join_words ws)) \<and> \<not> is_space (last (join_words ws))"
  using assms
proof (induction ws rule: join_words.induct)
  case (2 w)
  then show ?case by (auto simp: word_def)
next
  case (3 w v ws)
  then show ?case by (auto simp: word_def hd_append)
qed simp

lemma strip_id:
  assumes "s = [] \<or> (\<not> is_space (hd s) \<and> \<not> is_space (last s))"
  shows "strip s = s"
proof (cases "s = []")
  case False
  with assms have "dropWhile is_space s = s" by (cases s) auto
  moreover have "dropWhile is_space (rev s) = rev s"
    using assms False by (cases s rule: rev_cases) auto
  ultimately show ?thesis by (simp add: strip_def)
qed (simp add: strip_def)

lemma normalise_cleaned: "normalise_for_index (cleaned s) = casefold (cleaned s)"
proof -
  let ?ws = "map casefold (words_of s)"
  have words: "\<forall>w \<in> set ?ws. word w"
    using words_of_are_words by (auto simp: word_def casefold_def)
  have "strip (join_words ?ws) = join_words ?ws"
    by (rule strip_id) (use join_words_ends [OF words] in \<open>cases "?ws = []"; simp\<close>)
  then show ?thesis
    by (simp add: normalise_for_index_def cleaned_def casefold_join collapse_join [OF words])
qed

end
