(* ===== verification/Models.thy ===== *)
theory Models
  imports Dates Decimals Texts
begin

text \<open>
  The ORM models of \<open>src/src/kaleta/models\<close> as records, the enums as datatypes, and the family's
  schema as one record of tables (\<open>db\<close>). Each table is the list of its rows with the next value of
  its id sequence. Timestamps (\<open>updated_at\<close>, \<open>settled_at\<close>, \<open>archived_at\<close>) are numbers of
  microseconds.

  \<open>insert_tx\<close> and \<open>save_tx\<close> are the INSERT and UPDATE of the \<open>transactions\<close> table with the
  constraints the model declares: the check constraint on the transfer direction, the unique
  constraint on a planned occurrence and the foreign keys to modelled tables; a violation is the
  \<open>IntegrityError\<close> of the driver. A transaction's split lines and tags are kept inside the row, as
  the ORM relationships present them.
\<close>

section \<open>Enums\<close>

datatype transaction_type = INCOME | EXPENSE | TRANSFER

datatype transfer_direction = DIR_OUT | DIR_IN

datatype account_type = CHECKING | SAVINGS | CASH | CREDIT

datatype category_type = CAT_INCOME | CAT_EXPENSE

datatype recurrence_frequency = ONCE | DAILY | WEEKLY | BIWEEKLY | MONTHLY | QUARTERLY | YEARLY

datatype loan_direction = LOAN_OUTGOING | LOAN_INCOMING

datatype loan_status = OUTSTANDING | SETTLED

datatype reserve_fund_kind = EMERGENCY | IRREGULAR | VACATION

datatype backing_mode = BACKING_ACCOUNT | BACKING_ENVELOPE

datatype subscription_status = SUB_ACTIVE | SUB_MUTED | SUB_CANCELLED

section \<open>Rows\<close>

record account =
  acc_id :: int
  acc_name :: string
  acc_type :: account_type
  acc_opening :: decimal
  acc_currency :: string
  acc_institution_id :: "int option"
  acc_number :: "string option"

record category =
  cat_id :: int
  cat_name :: string
  cat_type :: category_type
  cat_parent_id :: "int option"
  cat_is_subscriptions_root :: bool

record split_line =
  sp_category_id :: "int option"
  sp_amount :: decimal
  sp_note :: string

record transaction =
  tx_id :: int
  tx_account_id :: int
  tx_category_id :: "int option"
  tx_payee_id :: "int option"
  tx_linked_id :: "int option"
  tx_planned_id :: "int option"
  tx_irregular_id :: "int option"
  tx_gift_id :: "int option"
  tx_amount :: decimal
  tx_exchange_rate :: "decimal option"
  tx_type :: transaction_type
  tx_date :: date
  tx_description :: string
  tx_notes :: "string option"
  tx_direction :: "transfer_direction option"
  tx_is_internal :: bool
  tx_is_split :: bool
  tx_user_id :: "int option"
  tx_updated_at :: int
  tx_splits :: "split_line list"
  tx_tags :: "int list"

record planned_transaction =
  pt_id :: int
  pt_name :: string
  pt_amount :: decimal
  pt_type :: transaction_type
  pt_account_id :: int
  pt_target_account_id :: "int option"
  pt_category_id :: "int option"
  pt_description :: "string option"
  pt_payee_id :: "int option"
  pt_frequency :: recurrence_frequency
  pt_interval :: int
  pt_start_date :: date
  pt_end_date :: "date option"
  pt_is_active :: bool

record budget =
  bud_id :: int
  bud_category_id :: int
  bud_amount :: decimal
  bud_month :: int
  bud_year :: int

record counterparty =
  cp_id :: int
  cp_name :: string
  cp_notes :: "string option"

record personal_loan =
  pl_id :: int
  pl_counterparty_id :: int
  pl_direction :: loan_direction
  pl_principal :: decimal
  pl_currency :: string
  pl_opened_at :: date
  pl_due_at :: "date option"
  pl_notes :: "string option"
  pl_status :: loan_status
  pl_settled_at :: "int option"
  pl_transaction_id :: "int option"

record repayment =
  rp_id :: int
  rp_loan_id :: int
  rp_amount :: decimal
  rp_date :: date
  rp_note :: "string option"
  rp_linked_id :: "int option"

record reserve_fund =
  rf_id :: int
  rf_name :: string
  rf_kind :: reserve_fund_kind
  rf_target_amount :: decimal
  rf_backing_mode :: backing_mode
  rf_backing_account_id :: "int option"
  rf_backing_category_id :: "int option"
  rf_emergency_multiplier :: "int option"
  rf_target_from_spending :: bool
  rf_target_date :: "date option"
  rf_is_archived :: bool
  rf_archived_at :: "int option"

record card_profile =
  cc_id :: int
  cc_account_id :: int
  cc_credit_limit :: decimal
  cc_statement_day :: int
  cc_payment_due_day :: int
  cc_min_payment_pct :: decimal
  cc_min_payment_floor :: decimal
  cc_apr :: decimal

record loan_profile =
  lp_id :: int
  lp_account_id :: int
  lp_principal :: decimal
  lp_apr :: decimal
  lp_term_months :: int
  lp_start_date :: date
  lp_monthly_payment :: decimal

record payee =
  pay_id :: int
  pay_name :: string
  pay_website :: "string option"
  pay_address :: "string option"
  pay_city :: "string option"
  pay_country :: "string option"
  pay_email :: "string option"
  pay_phone :: "string option"
  pay_notes :: "string option"

record payee_identity =
  idn_id :: int
  idn_payee_id :: int
  idn_pattern :: string
  idn_case_sensitive :: bool

record tag =
  tag_id :: int
  tag_name :: string
  tag_color :: "string option"
  tag_icon :: "string option"
  tag_description :: "string option"

record subscription =
  sub_id :: int
  sub_payee_id :: "int option"
  sub_category_id :: "int option"
  sub_name :: string
  sub_amount :: decimal
  sub_cadence_days :: int
  sub_first_seen_at :: "date option"
  sub_next_expected_at :: "date option"
  sub_status :: subscription_status
  sub_muted_until :: "date option"
  sub_cancelled_at :: "date option"
  sub_url :: "string option"
  sub_auto_renew :: bool
  sub_notes :: "string option"

text \<open>\<open>RuleMatchMode\<close> has the one member \<open>CONTAINS\<close>.\<close>

record categorisation_rule =
  rule_id :: int
  rule_pattern :: string
  rule_category_id :: int
  rule_is_active :: bool
  rule_priority :: int

record irregular_item =
  irr_id :: int
  irr_fund_id :: int
  irr_name :: string
  irr_yearly_amount :: decimal
  irr_due_month :: "int option"
  irr_category_id :: "int option"

record gift =
  gf_id :: int
  gf_person :: string
  gf_occasion :: string
  gf_amount :: decimal

text \<open>\<open>merchant_key\<close> holds the blind index of a key, never the key.\<close>

datatype dismissed_candidate_kind = KIND_SUBSCRIPTION | KIND_UNPLANNED

record dismissed_candidate =
  dis_id :: int
  dis_payee_id :: "int option"
  dis_merchant_key :: "string option"
  dis_amount_bucket :: string
  dis_kind :: dismissed_candidate_kind

record dismissed_transfer_pair =
  dtp_id :: int
  dtp_first :: int
  dtp_second :: int

section \<open>The schema\<close>

record db =
  accounts :: "account list"
  seq_account :: int
  categories :: "category list"
  seq_category :: int
  transactions :: "transaction list"
  seq_tx :: int
  plans :: "planned_transaction list"
  seq_plan :: int
  budgets :: "budget list"
  seq_budget :: int
  counterparties :: "counterparty list"
  seq_counterparty :: int
  loans :: "personal_loan list"
  seq_loan :: int
  repayments :: "repayment list"
  seq_repayment :: int
  funds :: "reserve_fund list"
  seq_fund :: int
  cards :: "card_profile list"
  seq_card :: int
  loan_profiles :: "loan_profile list"
  seq_loan_profile :: int
  payees :: "payee list"
  seq_payee :: int
  identities :: "payee_identity list"
  seq_identity :: int
  tags :: "tag list"
  seq_tag :: int
  subscriptions :: "subscription list"
  seq_subscription :: int
  cat_rules :: "categorisation_rule list"
  seq_rule :: int
  irregular_items :: "irregular_item list"
  seq_irregular :: int
  gifts :: "gift list"
  seq_gift :: int
  dismissed :: "dismissed_candidate list"
  seq_dismissed :: int
  dismissed_pairs :: "dismissed_transfer_pair list"
  seq_dismissed_pair :: int

definition empty_db :: db where
  "empty_db = \<lparr>accounts = [], seq_account = 1, categories = [], seq_category = 1, transactions = [], seq_tx = 1,
     plans = [], seq_plan = 1, budgets = [], seq_budget = 1, counterparties = [],
     seq_counterparty = 1, loans = [], seq_loan = 1, repayments = [], seq_repayment = 1,
     funds = [], seq_fund = 1, cards = [], seq_card = 1, loan_profiles = [],
     seq_loan_profile = 1, payees = [], seq_payee = 1, identities = [], seq_identity = 1,
     tags = [], seq_tag = 1, subscriptions = [], seq_subscription = 1,
     cat_rules = [], seq_rule = 1, irregular_items = [], seq_irregular = 1,
     gifts = [], seq_gift = 1, dismissed = [], seq_dismissed = 1,
     dismissed_pairs = [], seq_dismissed_pair = 1\<rparr>"

section \<open>Constraints of the transactions table\<close>

text \<open>\<open>ck_transactions_transfer_direction\<close>\<close>

definition tx_check :: "transaction \<Rightarrow> bool" where
  "tx_check t \<longleftrightarrow> (tx_type t = TRANSFER) = (tx_direction t \<noteq> None)"

text \<open>\<open>uq_transactions_planned_occurrence\<close>: NULL plans are never equal.\<close>

definition same_occurrence :: "transaction \<Rightarrow> transaction \<Rightarrow> bool" where
  "same_occurrence a b \<longleftrightarrow>
    tx_planned_id a \<noteq> None \<and> tx_planned_id a = tx_planned_id b \<and> tx_date a = tx_date b"

definition fk_ok :: "('r \<Rightarrow> int) \<Rightarrow> 'r list \<Rightarrow> int option \<Rightarrow> bool" where
  "fk_ok key rows ref = (case ref of None \<Rightarrow> True | Some i \<Rightarrow> find_row key i rows \<noteq> None)"

definition tx_fk :: "db \<Rightarrow> transaction \<Rightarrow> bool" where
  "tx_fk s t \<longleftrightarrow>
    fk_ok acc_id (accounts s) (Some (tx_account_id t)) \<and>
    fk_ok cat_id (categories s) (tx_category_id t) \<and>
    fk_ok pay_id (payees s) (tx_payee_id t) \<and>
    (\<forall>g \<in> set (tx_tags t). fk_ok tag_id (tags s) (Some g)) \<and>
    fk_ok tx_id (transactions s) (tx_linked_id t) \<and>
    fk_ok pt_id (plans s) (tx_planned_id t) \<and>
    (\<forall>line \<in> set (tx_splits t). fk_ok cat_id (categories s) (sp_category_id line))"

definition tx_allowed :: "db \<Rightarrow> transaction \<Rightarrow> bool" where
  "tx_allowed s t \<longleftrightarrow> tx_check t \<and> tx_fk s t \<and>
    (\<forall>u \<in> set (transactions s). tx_id u \<noteq> tx_id t \<longrightarrow> \<not> same_occurrence u t)"

text \<open>\<open>session.add(t)\<close> and \<open>session.flush()\<close>: the row gets the next id of the sequence.\<close>

definition insert_tx :: "transaction \<Rightarrow> db \<Rightarrow> (transaction \<times> db) result" where
  "insert_tx t s =
    (let row = t\<lparr>tx_id := seq_tx s\<rparr>
     in if tx_allowed s row
        then Inr (row, s\<lparr>transactions := transactions s @ [row], seq_tx := seq_tx s + 1\<rparr>)
        else Inl (IntegrityError ''transactions''))"

text \<open>
  The UPDATE of a changed row. \<open>updated_at\<close> has \<open>onupdate=func.now()\<close>, which fires when a column of
  the row itself changed; split lines and tags live in other tables.
\<close>

definition tx_columns :: "transaction \<Rightarrow> transaction" where
  "tx_columns t = t\<lparr>tx_splits := [], tx_tags := [], tx_updated_at := 0\<rparr>"

definition touch :: "int \<Rightarrow> transaction \<Rightarrow> transaction \<Rightarrow> transaction" where
  "touch now old new =
    (if tx_columns new = tx_columns old then new else new\<lparr>tx_updated_at := now\<rparr>)"

definition save_tx :: "int \<Rightarrow> transaction \<Rightarrow> db \<Rightarrow> db result" where
  "save_tx now t s =
    (if tx_allowed s t
     then Inr (s\<lparr>transactions := upd_row tx_id (tx_id t) (\<lambda>old. touch now old t) (transactions s)\<rparr>)
     else Inl (IntegrityError ''transactions''))"

definition get_tx :: "db \<Rightarrow> int \<Rightarrow> transaction option" where
  "get_tx s i = find_row tx_id i (transactions s)"

definition get_account :: "db \<Rightarrow> int \<Rightarrow> account option" where
  "get_account s i = find_row acc_id i (accounts s)"

text \<open>
  What the constraints promise of every committed state: distinct ids below the sequence, the check
  constraint on every row and at most one row per planned occurrence.
\<close>

definition ledger_ok :: "db \<Rightarrow> bool" where
  "ledger_ok s \<longleftrightarrow>
    ids_ok tx_id (seq_tx s) (transactions s) \<and>
    (\<forall>t \<in> set (transactions s). tx_check t) \<and>
    (\<forall>t \<in> set (transactions s). \<forall>u \<in> set (transactions s).
       same_occurrence t u \<longrightarrow> tx_id t = tx_id u)"

section \<open>Lemmas\<close>

lemma same_occurrence_sym: "same_occurrence a b \<Longrightarrow> same_occurrence b a"
  by (auto simp: same_occurrence_def)

lemma touch_simps [simp]:
  "tx_id (touch now old new) = tx_id new"
  "tx_account_id (touch now old new) = tx_account_id new"
  "tx_category_id (touch now old new) = tx_category_id new"
  "tx_payee_id (touch now old new) = tx_payee_id new"
  "tx_linked_id (touch now old new) = tx_linked_id new"
  "tx_planned_id (touch now old new) = tx_planned_id new"
  "tx_amount (touch now old new) = tx_amount new"
  "tx_type (touch now old new) = tx_type new"
  "tx_date (touch now old new) = tx_date new"
  "tx_direction (touch now old new) = tx_direction new"
  "tx_is_internal (touch now old new) = tx_is_internal new"
  "tx_is_split (touch now old new) = tx_is_split new"
  "tx_description (touch now old new) = tx_description new"
  "tx_splits (touch now old new) = tx_splits new"
  "tx_tags (touch now old new) = tx_tags new"
  by (simp_all add: touch_def)

lemma tx_check_touch [simp]: "tx_check (touch now old new) = tx_check new"
  by (simp add: tx_check_def)

lemma same_occurrence_touch [simp]:
  "same_occurrence (touch now old new) u = same_occurrence new u"
  "same_occurrence u (touch now old new) = same_occurrence u new"
  by (simp_all add: same_occurrence_def)

lemma insert_tx_Inr:
  assumes "insert_tx t s = Inr (row, s')"
  shows "row = t\<lparr>tx_id := seq_tx s\<rparr>"
    and "s' = s\<lparr>transactions := transactions s @ [row], seq_tx := seq_tx s + 1\<rparr>"
    and "tx_allowed s row"
  using assms by (auto simp: insert_tx_def Let_def split: if_splits)

lemma save_tx_Inr:
  assumes "save_tx now t s = Inr s'"
  shows "s' = s\<lparr>transactions := upd_row tx_id (tx_id t) (\<lambda>old. touch now old t) (transactions s)\<rparr>"
    and "tx_allowed s t"
  using assms by (auto simp: save_tx_def split: if_splits)

lemma get_tx_insert:
  assumes "insert_tx t s = Inr (row, s')" and "ledger_ok s"
  shows "get_tx s' i = (if i = seq_tx s then Some row else get_tx s i)"
proof -
  have "ids_ok tx_id (seq_tx s) (transactions s)" using assms(2) by (simp add: ledger_ok_def)
  from ids_ok_fresh [OF this] show ?thesis
    using insert_tx_Inr [OF assms(1)]
    by (auto simp: get_tx_def find_row_append split: option.splits)
qed

lemma map_id_upd_row_const:
  "map tx_id (upd_row tx_id (tx_id t) (\<lambda>old. touch now old t) rows) = map tx_id rows"
  by (induction rows) auto

lemma find_row_upd_const:
  "find_row tx_id i (upd_row tx_id (tx_id t) (\<lambda>old. touch now old t) rows) =
    (if i = tx_id t then map_option (\<lambda>old. touch now old t) (find_row tx_id i rows)
     else find_row tx_id i rows)"
  by (induction rows) auto

lemma get_tx_save:
  assumes "save_tx now t s = Inr s'"
  shows "get_tx s' i =
    (if i = tx_id t then map_option (\<lambda>old. touch now old t) (get_tx s i) else get_tx s i)"
  using save_tx_Inr [OF assms] by (simp add: get_tx_def find_row_upd_const)

lemma ledger_ok_insert:
  assumes "ledger_ok s" and "insert_tx t s = Inr (row, s')"
  shows "ledger_ok s'"
proof -
  note ins = insert_tx_Inr [OF assms(2)]
  have row: "tx_id row = seq_tx s" using ins(1) by simp
  have fresh: "u \<in> set (transactions s) \<Longrightarrow> tx_id u \<noteq> tx_id row" for u
    using assms(1) row by (fastforce simp: ledger_ok_def ids_ok_def)
  have "ids_ok tx_id (seq_tx s + 1) (transactions s @ [row])"
    using assms(1) row by (intro ids_ok_insert) (auto simp: ledger_ok_def)
  then show ?thesis
    using assms(1) ins fresh unfolding ledger_ok_def tx_allowed_def
    by (auto dest: same_occurrence_sym)
qed

lemma ledger_ok_save:
  assumes "ledger_ok s" and "save_tx now t s = Inr s'"
  shows "ledger_ok s'"
proof -
  note sv = save_tx_Inr [OF assms(2)]
  let ?rows = "upd_row tx_id (tx_id t) (\<lambda>old. touch now old t) (transactions s)"
  have ids: "ids_ok tx_id (seq_tx s) ?rows"
    using assms(1) map_id_upd_row_const [of t now "transactions s"]
    unfolding ledger_ok_def ids_ok_def by (metis (no_types, lifting) imageE imageI list.set_map)
  have cases: "(u \<in> set (transactions s) \<and> tx_id u \<noteq> tx_id t) \<or>
      (\<exists>old \<in> set (transactions s). u = touch now old t)" if "u \<in> set ?rows" for u
    using set_upd_row_D [OF that] by auto
  have "tx_check u" if "u \<in> set ?rows" for u
    using cases [OF that] assms(1) sv(2) by (auto simp: ledger_ok_def tx_allowed_def)
  moreover have "tx_id u = tx_id v"
    if "u \<in> set ?rows" "v \<in> set ?rows" "same_occurrence u v" for u v
    using cases [OF that(1)] cases [OF that(2)] that(3) assms(1) sv(2)
    unfolding ledger_ok_def tx_allowed_def by (auto dest: same_occurrence_sym)
  ultimately show ?thesis
    using ids sv(1) by (simp add: ledger_ok_def)
qed

lemma ledger_ok_empty [simp]: "ledger_ok empty_db"
  by (simp add: ledger_ok_def empty_db_def ids_ok_def)

end
