(* ===== verification/Accounts.thy ===== *)
theory Accounts
  imports Models Texts
begin

text \<open>
  \<open>AccountService\<close> (\<open>src/src/kaleta/services/account_service.py\<close>): there is no stored balance; a
  balance is the opening balance plus the signed sum of the account's transactions.

  The locale \<open>ledger\<close> is what the other services rely on: inserting a row moves the balances by the
  row's signed amount and keeps the invariant. It is interpreted on \<open>insert_tx\<close> and \<open>balance\<close> at the
  end of this theory; the transfer lemmas proved inside it serve \<open>create_transfer\<close>, the posting of
  planned transfers and the savings goals.
\<close>

section \<open>Definitions\<close>

subsection \<open>Derived balances\<close>

definition signed_ledger_amount :: "transaction \<Rightarrow> decimal" where
  "signed_ledger_amount t =
    (if tx_type t = INCOME then tx_amount t
     else if tx_type t = EXPENSE then - tx_amount t
     else if tx_direction t = Some DIR_IN then tx_amount t
     else if tx_direction t = Some DIR_OUT then - tx_amount t
     else 0)"

definition in_scope :: "int list option \<Rightarrow> int \<Rightarrow> bool" where
  "in_scope ids i = (case ids of None \<Rightarrow> True | Some is \<Rightarrow> i \<in> set is)"

definition until :: "date option \<Rightarrow> date \<Rightarrow> bool" where
  "until as_of d = (case as_of of None \<Rightarrow> True | Some c \<Rightarrow> d \<le> c)"

definition ledger_rows :: "db \<Rightarrow> date option \<Rightarrow> int \<Rightarrow> transaction list" where
  "ledger_rows s as_of a =
    filter (\<lambda>t. tx_account_id t = a \<and> until as_of (tx_date t)) (transactions s)"

text \<open>The dict of \<open>ledger_sums\<close>: accounts without a transaction in range are absent.\<close>

definition ledger_sums :: "db \<Rightarrow> int list option \<Rightarrow> date option \<Rightarrow> int \<rightharpoonup> decimal" where
  "ledger_sums s ids as_of a =
    (if in_scope ids a \<and> ledger_rows s as_of a \<noteq> []
     then Some (quantize ROUND_HALF_EVEN 2
            (sum_list (map signed_ledger_amount (ledger_rows s as_of a))))
     else None)"

definition get_or_0 :: "decimal option \<Rightarrow> decimal" where
  "get_or_0 v = (case v of None \<Rightarrow> 0 | Some x \<Rightarrow> x)"

definition balances :: "db \<Rightarrow> int list option \<Rightarrow> date option \<Rightarrow> int \<rightharpoonup> decimal" where
  "balances s ids as_of a =
    (if in_scope ids a
     then case get_account s a of
            None \<Rightarrow> None
          | Some acc \<Rightarrow> Some (quantize ROUND_HALF_EVEN 2
              (acc_opening acc + get_or_0 (ledger_sums s ids as_of a)))
     else None)"

definition balance :: "db \<Rightarrow> int \<Rightarrow> date option \<Rightarrow> decimal" where
  "balance s a as_of = get_or_0 (balances s (Some [a]) as_of a)"

definition edited_balance :: "decimal \<Rightarrow> decimal option \<Rightarrow> decimal option" where
  "edited_balance opened entered =
    (case entered of
       None \<Rightarrow> None
     | Some e \<Rightarrow> let value = quantize ROUND_HALF_EVEN 2 e
                 in if value = opened then None else Some value)"

subsection \<open>Lists ordered by name\<close>

record account_response =
  ar_account :: account
  ar_balance :: decimal

definition list_accounts :: "db \<Rightarrow> account list" where
  "list_accounts s = by_name acc_name (accounts s)"

definition list_responses :: "db \<Rightarrow> account_response list result" where
  "list_responses s =
    emap (\<lambda>a. case balances s None None (acc_id a) of
                None \<Rightarrow> Inl KeyError
              | Some b \<Rightarrow> Inr \<lparr>ar_account = a, ar_balance = b\<rparr>) (list_accounts s)"

definition get_response :: "db \<Rightarrow> int \<Rightarrow> account_response option" where
  "get_response s i =
    map_option (\<lambda>a. \<lparr>ar_account = a, ar_balance = balance s i None\<rparr>) (get_account s i)"

record balance_breakdown_view =
  bb_shown :: "account_response list"
  bb_hidden_count :: nat
  bb_hidden_total :: decimal

definition balance_breakdown :: "db \<Rightarrow> nat \<Rightarrow> balance_breakdown_view result" where
  "balance_breakdown s limit =
    ebind (list_responses s) (\<lambda>rs.
      let ranked = sort_key (\<lambda>a. - \<bar>ar_balance a\<bar>) rs;
          rest = drop limit ranked
      in Inr \<lparr>bb_shown = take limit ranked, bb_hidden_count = length rest,
              bb_hidden_total = sum_list (map ar_balance rest)\<rparr>)"

subsection \<open>Writes\<close>

record account_create =
  ac_name :: string
  ac_type :: account_type
  ac_currency :: string
  ac_institution_id :: "int option"
  ac_balance :: decimal

record account_update =
  au_name :: "string option"
  au_type :: "account_type option"
  au_balance :: "decimal option"
  au_currency :: "string option"
  au_institution_id :: "int option option"
  au_number :: "string option option"

definition create_account :: "account_create \<Rightarrow> db \<Rightarrow> account \<times> db" where
  "create_account p s =
    (let a = \<lparr>acc_id = seq_account s, acc_name = ac_name p, acc_type = ac_type p,
              acc_opening = ac_balance p, acc_currency = ac_currency p,
              acc_institution_id = ac_institution_id p, acc_number = None\<rparr>
     in (a, s\<lparr>accounts := accounts s @ [a], seq_account := seq_account s + 1\<rparr>))"

definition apply_account_update :: "account_update \<Rightarrow> account \<Rightarrow> account" where
  "apply_account_update p =
    patch (au_number p) (\<lambda>v a. a\<lparr>acc_number := v\<rparr>) \<circ>
    patch (au_institution_id p) (\<lambda>v a. a\<lparr>acc_institution_id := v\<rparr>) \<circ>
    patch (au_currency p) (\<lambda>v a. a\<lparr>acc_currency := v\<rparr>) \<circ>
    patch (au_type p) (\<lambda>v a. a\<lparr>acc_type := v\<rparr>) \<circ>
    patch (au_name p) (\<lambda>v a. a\<lparr>acc_name := v\<rparr>)"

definition update_account :: "int \<Rightarrow> account_update \<Rightarrow> db \<Rightarrow> account option \<times> db" where
  "update_account i p s =
    (case get_account s i of
       None \<Rightarrow> (None, s)
     | Some a \<Rightarrow>
         let a' = apply_account_update p a;
             a'' = (case au_balance p of
                      None \<Rightarrow> a'
                    | Some b \<Rightarrow> a'\<lparr>acc_opening := b - get_or_0 (ledger_sums s (Some [i]) None i)\<rparr>)
         in (Some a'', s\<lparr>accounts := upd_row acc_id i (\<lambda>_. a'') (accounts s)\<rparr>))"

subsection \<open>Matching an account by its number\<close>

definition ends_with :: "string \<Rightarrow> string \<Rightarrow> bool" where
  "ends_with x suffix \<longleftrightarrow> length suffix \<le> length x \<and> last_n (length suffix) x = suffix"

definition number_matches :: "(string \<Rightarrow> string) \<Rightarrow> string \<Rightarrow> account \<Rightarrow> bool" where
  "number_matches hmac wanted a \<longleftrightarrow>
    account_suffix_index hmac (acc_number a) \<noteq> None \<and>
    account_suffix_index hmac (acc_number a) = account_suffix_index hmac (Some wanted) \<and>
    ends_with (digits_only (case acc_number a of None \<Rightarrow> [] | Some n \<Rightarrow> n)) wanted"

definition find_by_external_number ::
  "(string \<Rightarrow> string) \<Rightarrow> db \<Rightarrow> string \<Rightarrow> account option result" where
  "find_by_external_number hmac s digits =
    (let wanted = digits_only digits
     in if length wanted < account_suffix_digits then Inr None
        else let found = filter (number_matches hmac wanted) (sort_key acc_id (accounts s))
             in if 1 < length found
                then Inl (ConflictError ''errors.account.ambiguous_external_number'')
                else Inr (case found of [] \<Rightarrow> None | a # _ \<Rightarrow> Some a))"

definition save_external_number :: "int \<Rightarrow> string \<Rightarrow> db \<Rightarrow> db" where
  "save_external_number i number s =
    (case get_account s i of
       None \<Rightarrow> s
     | Some a \<Rightarrow> s\<lparr>accounts :=
         upd_row acc_id i (\<lambda>r. r\<lparr>acc_number := Some (last_n 10 number)\<rparr>) (accounts s)\<rparr>)"

definition is_stale :: "date option \<Rightarrow> date \<Rightarrow> bool" where
  "is_stale newest today =
    (case newest of None \<Rightarrow> True | Some d \<Rightarrow> days_between today d > 35)"

section \<open>Balances as exact sums\<close>

definition money_ok :: "db \<Rightarrow> bool" where
  "money_ok s \<longleftrightarrow> (\<forall>t \<in> set (transactions s). cents (tx_amount t)) \<and>
    (\<forall>a \<in> set (accounts s). cents (acc_opening a))"

definition tx_delta :: "transaction \<Rightarrow> int \<Rightarrow> decimal" where
  "tx_delta t a = (if tx_account_id t = a then signed_ledger_amount t else 0)"

lemma get_or_0_simps [simp]: "get_or_0 None = 0" "get_or_0 (Some x) = x"
  by (simp_all add: get_or_0_def)

lemma cents_signed: "cents (tx_amount t) \<Longrightarrow> cents (signed_ledger_amount t)"
  by (simp add: signed_ledger_amount_def)

lemma cents_ledger_sum:
  "money_ok s \<Longrightarrow> cents (sum_list (map signed_ledger_amount (ledger_rows s as_of a)))"
  by (rule cents_sum_list) (auto simp: money_ok_def ledger_rows_def intro: cents_signed)

lemma ledger_sums_eq:
  assumes "money_ok s" and "in_scope ids a"
  shows "get_or_0 (ledger_sums s ids as_of a) =
    sum_list (map signed_ledger_amount (ledger_rows s as_of a))"
  using cents_ledger_sum [OF assms(1)] assms(2) by (auto simp: ledger_sums_def)

lemma get_account_opening:
  "money_ok s \<Longrightarrow> get_account s a = Some acc \<Longrightarrow> cents (acc_opening acc)"
  by (auto simp: money_ok_def get_account_def dest: find_row_Some_D)

lemma balance_eq:
  assumes "money_ok s" and "get_account s a = Some acc"
  shows "balance s a as_of =
    acc_opening acc + sum_list (map signed_ledger_amount (ledger_rows s as_of a))"
proof -
  have "in_scope (Some [a]) a" by (simp add: in_scope_def)
  then show ?thesis
    using assms cents_ledger_sum [OF assms(1), of as_of a] get_account_opening [OF assms]
      ledger_sums_eq [OF assms(1), of "Some [a]" a as_of]
    by (simp add: balance_def balances_def)
qed

lemma balance_missing: "get_account s a = None \<Longrightarrow> balance s a as_of = 0"
  by (simp add: balance_def balances_def)

lemma sum_ledger_rows:
  "sum_list (map signed_ledger_amount (ledger_rows s None a)) =
    sum_list (map (\<lambda>t. tx_delta t a) (transactions s))"
proof -
  have "sum_list (map signed_ledger_amount (filter (\<lambda>t. tx_account_id t = a) ts)) =
    sum_list (map (\<lambda>t. tx_delta t a) ts)" for ts
    by (induction ts) (auto simp: tx_delta_def)
  then show ?thesis by (simp add: ledger_rows_def until_def)
qed

lemma balance_cents: "money_ok s \<Longrightarrow> cents (balance s a as_of)"
  by (cases "get_account s a")
    (auto simp: balance_missing balance_eq get_account_opening intro: cents_add cents_ledger_sum)

text \<open>Only the accounts, their openings and the ledger decide a balance.\<close>

lemma balance_cong:
  assumes "accounts s = accounts s'" and "transactions s = transactions s'"
  shows "balance s = balance s'"
  using assms
  by (auto simp: fun_eq_iff balance_def balances_def get_account_def ledger_sums_def ledger_rows_def
      split: option.split)

lemma balance_save:
  assumes "money_ok s" and "ledger_ok s" and "get_tx s (tx_id t) = Some old"
    and "get_account s a \<noteq> None" and "cents (tx_amount t)"
    and "save_tx now t s = Inr s'"
  shows "balance s' a None = balance s a None - tx_delta old a + tx_delta t a"
proof -
  note sv = save_tx_Inr(1) [OF assms(6)]
  obtain acc where acc: "get_account s a = Some acc" using assms(4) by auto
  have money: "money_ok s'"
    using assms(1,5) sv by (auto simp: money_ok_def dest!: set_upd_row_D)
  have acc': "get_account s' a = Some acc" using acc sv by (simp add: get_account_def)
  have ids: "distinct (map tx_id (transactions s))"
    using assms(2) by (simp add: ledger_ok_def ids_ok_def)
  have "tx_delta (touch now old t) a = tx_delta t a"
    by (simp add: tx_delta_def signed_ledger_amount_def)
  then show ?thesis
    using sum_list_map_upd_row [OF ids assms(3) [unfolded get_tx_def],
        of "\<lambda>t. tx_delta t a" "\<lambda>old. touch now old t"]
    unfolding balance_eq [OF money acc'] balance_eq [OF assms(1) acc] sum_ledger_rows
    by (simp add: sv)
qed

section \<open>The ledger as an interface\<close>

text \<open>
  What a service that books rows relies on: a balance function, an insert that may fail, and the
  effect of a row on the balance of an account.
\<close>

locale ledger =
  fixes bal :: "'s \<Rightarrow> 'a \<Rightarrow> decimal"
    and ins :: "'t \<Rightarrow> 's \<Rightarrow> ('t \<times> 's) result"
    and eff :: "'t \<Rightarrow> 'a \<Rightarrow> decimal"
    and good :: "'t \<Rightarrow> bool"
    and invar :: "'s \<Rightarrow> bool"
    and known :: "'s \<Rightarrow> 'a \<Rightarrow> bool"
  assumes ins_bal:
      "invar s \<Longrightarrow> good t \<Longrightarrow> known s a \<Longrightarrow> ins t s = Inr (r, s') \<Longrightarrow> bal s' a = bal s a + eff r a"
    and ins_eff: "ins t s = Inr (r, s') \<Longrightarrow> eff r a = eff t a"
    and ins_invar: "invar s \<Longrightarrow> good t \<Longrightarrow> ins t s = Inr (r, s') \<Longrightarrow> invar s'"
    and ins_known: "ins t s = Inr (r, s') \<Longrightarrow> known s' a = known s a"
begin

lemma ins2_bal:
  assumes "invar s" and "good t" and "good u" and "known s a"
    and "ins t s = Inr (r, s1)" and "ins u s1 = Inr (q, s2)"
  shows "bal s2 a = bal s a + eff t a + eff u a"
proof -
  have inv1: "invar s1" by (rule ins_invar [OF assms(1,2,5)])
  have k1: "known s1 a" using ins_known [OF assms(5)] assms(4) by simp
  show ?thesis
    using ins_bal [OF assms(1,2,4,5)] ins_bal [OF inv1 assms(3) k1 assms(6)]
      ins_eff [OF assms(5)] ins_eff [OF assms(6)] by simp
qed

text \<open>Two rows that cancel out move no money in total.\<close>

lemma ins2_conserves:
  assumes "invar s" and "good t" and "good u" and "\<forall>a \<in> A. known s a" and "finite A"
    and "ins t s = Inr (r, s1)" and "ins u s1 = Inr (q, s2)"
    and "(\<Sum>a \<in> A. eff t a) + (\<Sum>a \<in> A. eff u a) = 0"
  shows "(\<Sum>a \<in> A. bal s2 a) = (\<Sum>a \<in> A. bal s a)"
proof -
  have "(\<Sum>a \<in> A. bal s2 a) = (\<Sum>a \<in> A. bal s a + eff t a + eff u a)"
    by (rule sum.cong) (use assms ins2_bal in auto)
  with assms(8) show ?thesis by (simp add: sum.distrib)
qed

end

definition has_account :: "db \<Rightarrow> int \<Rightarrow> bool" where
  "has_account s a \<longleftrightarrow> get_account s a \<noteq> None"

definition books_ok :: "db \<Rightarrow> bool" where
  "books_ok s \<longleftrightarrow> ledger_ok s \<and> money_ok s"

lemma insert_tx_frame:
  assumes "insert_tx t s = Inr (row, s')"
  shows "accounts s' = accounts s" and "plans s' = plans s" and "funds s' = funds s"
    and "loans s' = loans s" and "repayments s' = repayments s" and "budgets s' = budgets s"
    and "categories s' = categories s" and "loan_profiles s' = loan_profiles s"
  using insert_tx_Inr(2) [OF assms] by simp_all

lemma balance_insert:
  assumes "money_ok s" and "cents (tx_amount t)" and "has_account s a"
    and "insert_tx t s = Inr (row, s')"
  shows "balance s' a None = balance s a None + tx_delta row a"
proof -
  note ins = insert_tx_Inr [OF assms(4)]
  obtain acc where acc: "get_account s a = Some acc" using assms(3) by (auto simp: has_account_def)
  have money: "money_ok s'" using assms(1,2) ins by (auto simp: money_ok_def)
  have acc': "get_account s' a = Some acc" using acc ins by (simp add: get_account_def)
  show ?thesis
    unfolding balance_eq [OF money acc'] balance_eq [OF assms(1) acc] sum_ledger_rows
    by (simp add: ins(2))
qed

lemma books_ok_insert:
  assumes "books_ok s" and "cents (tx_amount t)" and "insert_tx t s = Inr (row, s')"
  shows "books_ok s'"
  using assms ledger_ok_insert [of s t row s'] insert_tx_Inr [OF assms(3)]
  by (auto simp: books_ok_def money_ok_def)

lemma books_ok_save:
  assumes "books_ok s" and "cents (tx_amount t)" and "save_tx now t s = Inr s'"
  shows "books_ok s'"
  using assms ledger_ok_save [of s now t s'] save_tx_Inr [OF assms(3)]
  by (auto simp: books_ok_def money_ok_def dest!: set_upd_row_D)

interpretation kaleta_ledger: ledger
  "\<lambda>s a. balance s a None" insert_tx tx_delta "\<lambda>t. cents (tx_amount t)" books_ok has_account
proof unfold_locales
  fix s t a r s'
  assume "books_ok s" "cents (tx_amount t)" "has_account s a" "insert_tx t s = Inr (r, s')"
  then show "balance s' a None = balance s a None + tx_delta r a"
    by (auto simp: books_ok_def intro: balance_insert)
next
  fix t s r s' a
  assume "insert_tx t s = Inr (r, s')"
  from insert_tx_Inr(1) [OF this] show "tx_delta r a = tx_delta t a"
    by (simp add: tx_delta_def signed_ledger_amount_def)
next
  fix s t r s'
  assume "books_ok s" "cents (tx_amount t)" "insert_tx t s = Inr (r, s')"
  then show "books_ok s'" by (rule books_ok_insert)
next
  fix t s r s' a
  assume "insert_tx t s = Inr (r, s')"
  then show "has_account s' a = has_account s a"
    by (simp add: has_account_def get_account_def insert_tx_frame)
qed

section \<open>Properties of the account service\<close>

lemma apply_account_update_id [simp]: "acc_id (apply_account_update p a) = acc_id a"
  by (simp add: apply_account_update_def patch_def split: option.split)

lemma get_account_upd_const:
  assumes "get_account s i = Some a" and "acc_id b = i"
  shows "get_account (s\<lparr>accounts := upd_row acc_id i (\<lambda>_. b) (accounts s)\<rparr>) i = Some b"
proof -
  have "find_row acc_id i rows = Some a \<Longrightarrow>
    find_row acc_id i (upd_row acc_id i (\<lambda>_. b) rows) = Some b" for rows
    by (induction rows) (auto simp: assms(2) split: if_splits)
  with assms show ?thesis by (simp add: get_account_def)
qed

lemma ledger_rows_accounts [simp]: "ledger_rows (s\<lparr>accounts := x\<rparr>) = ledger_rows s"
  by (simp add: fun_eq_iff ledger_rows_def)

text \<open>
  C7. "Set the current balance to this": after \<open>update\<close> with a two-place balance, the balance that
  \<open>AccountService.balance\<close> derives for the account is exactly the requested one, whatever the
  ledger holds; the ledger itself is untouched.
\<close>

theorem update_account_sets_balance:
  assumes "money_ok s" and "get_account s i = Some a"
    and "au_balance p = Some b" and "cents b"
    and "update_account i p s = (r, s')"
  shows "balance s' i None = b \<and> transactions s' = transactions s \<and> money_ok s'"
proof -
  define led where "led = sum_list (map signed_ledger_amount (ledger_rows s None i))"
  have sums: "get_or_0 (ledger_sums s (Some [i]) None i) = led"
    unfolding led_def by (rule ledger_sums_eq [OF assms(1)]) (simp add: in_scope_def)
  have "cents led" unfolding led_def by (rule cents_ledger_sum [OF assms(1)])
  define a'' where "a'' = (apply_account_update p a)\<lparr>acc_opening := b - led\<rparr>"
  have s': "s' = s\<lparr>accounts := upd_row acc_id i (\<lambda>_. a'') (accounts s)\<rparr>"
    using assms(2,3,5) sums by (simp add: update_account_def Let_def a''_def)
  have id: "acc_id a'' = i"
    using assms(2) by (auto simp: a''_def get_account_def dest: find_row_Some_D)
  have money: "money_ok s'"
    using assms(1,4) \<open>cents led\<close> unfolding s' money_ok_def
    by (auto simp: a''_def dest!: set_upd_row_D)
  have get: "get_account s' i = Some a''"
    unfolding s' by (rule get_account_upd_const [OF assms(2) id])
  have "ledger_rows s' = ledger_rows s" unfolding s' by simp
  then have "balance s' i None = b"
    unfolding balance_eq [OF money get] by (simp add: a''_def led_def)
  with money s' show ?thesis by simp
qed

definition ex_account :: "int \<Rightarrow> decimal \<Rightarrow> account" where
  "ex_account i opening = \<lparr>acc_id = i, acc_name = ''Main'', acc_type = CHECKING,
     acc_opening = opening, acc_currency = ''PLN'', acc_institution_id = None,
     acc_number = None\<rparr>"

definition ex_tx :: "int \<Rightarrow> int \<Rightarrow> transaction_type \<Rightarrow> decimal \<Rightarrow> date \<Rightarrow> transaction" where
  "ex_tx i a ty amount d = \<lparr>tx_id = i, tx_account_id = a, tx_category_id = None,
     tx_payee_id = None, tx_linked_id = None, tx_planned_id = None, tx_irregular_id = None,
     tx_gift_id = None, tx_amount = amount, tx_exchange_rate = None, tx_type = ty, tx_date = d,
     tx_description = [], tx_notes = None, tx_direction = None, tx_is_internal = False,
     tx_is_split = False, tx_user_id = None, tx_updated_at = 0, tx_splits = [], tx_tags = []\<rparr>"

definition ex_db :: db where
  "ex_db = empty_db\<lparr>accounts := [ex_account 1 100, ex_account 2 (5 / 2)], seq_account := 3,
     transactions := [ex_tx 1 1 EXPENSE 12 (Date 2026 1 31)], seq_tx := 2\<rparr>"

lemmas ex_defs = ex_db_def ex_account_def ex_tx_def empty_db_def

lemma cents_numeral [simp]: "cents (numeral n)" "cents (numeral n / 100)" "cents 1"
  by (rule centsI [of _ "numeral n * 100"], simp) (rule centsI [of _ "numeral n"], simp,
      rule centsI [of _ 100], simp)

lemma cents_half: "cents (5 / 2)"
  by (rule centsI [of _ 250]) simp

lemma ex_db_ok: "money_ok ex_db" "ledger_ok ex_db" "books_ok ex_db"
  by (simp_all add: books_ok_def money_ok_def ledger_ok_def ids_ok_def tx_check_def
      same_occurrence_def ex_defs cents_half)

definition ex_account_update :: account_update where
  "ex_account_update = \<lparr>au_name = None, au_type = Some SAVINGS, au_balance = Some 500,
     au_currency = None, au_institution_id = None, au_number = None\<rparr>"

theorem update_account_sets_balance_witness:
  "balance (snd (update_account 1 ex_account_update ex_db)) 1 None = 500"
proof -
  have "get_account ex_db 1 = Some (ex_account 1 100)"
    by (simp add: get_account_def ex_defs)
  then show ?thesis
    using update_account_sets_balance [OF ex_db_ok(1) _ _ _ surjective_pairing,
        of 1 "ex_account 1 100" ex_account_update 500]
    by (simp add: ex_account_update_def)
qed

subsection \<open>The balance breakdown\<close>

lemma balances_all_eq_balance:
  assumes "get_account s a \<noteq> None"
  shows "balances s None None a = Some (balance s a None)"
  using assms by (auto simp: balances_def balance_def in_scope_def ledger_sums_def)

definition response_of :: "db \<Rightarrow> account \<Rightarrow> account_response" where
  "response_of s a = \<lparr>ar_account = a, ar_balance = balance s (acc_id a) None\<rparr>"

lemma list_responses_eq: "list_responses s = Inr (map (response_of s) (list_accounts s))"
  unfolding list_responses_def
proof (rule emap_total)
  fix a assume "a \<in> set (list_accounts s)"
  then have "get_account s (acc_id a) \<noteq> None"
    by (auto simp: list_accounts_def by_name_def get_account_def find_row_None_iff)
  from balances_all_eq_balance [OF this]
  show "(case balances s None None (acc_id a) of None \<Rightarrow> Inl KeyError
         | Some b \<Rightarrow> Inr \<lparr>ar_account = a, ar_balance = b\<rparr>) = Inr (response_of s a)"
    by (simp add: response_of_def)
qed

text \<open>
  The dashboard's balance breakdown never fails and adds up: the accounts shown and the ones
  left out are together exactly the accounts of the ledger, each with its derived balance; the count
  and the total of the hidden ones are right, so shown and hidden balances sum to the grand total;
  and no hidden account is larger in size than a shown one.
\<close>

lemma balance_breakdown_adds_up:
  "\<exists>v rest. balance_breakdown s limit = Inr v \<and>
     mset (bb_shown v @ rest) = mset (map (response_of s) (accounts s)) \<and>
     bb_hidden_count v = length rest \<and>
     sum_list (map ar_balance (bb_shown v)) + bb_hidden_total v =
       sum_list (map (\<lambda>a. balance s (acc_id a) None) (accounts s)) \<and>
     (\<forall>x \<in> set (bb_shown v). \<forall>y \<in> set rest. \<bar>ar_balance y\<bar> \<le> \<bar>ar_balance x\<bar>)"
proof -
  define rs where "rs = map (response_of s) (list_accounts s)"
  define ranked where "ranked = sort_key (\<lambda>a. - \<bar>ar_balance a\<bar>) rs"
  define v where "v = \<lparr>bb_shown = take limit ranked, bb_hidden_count = length (drop limit ranked),
    bb_hidden_total = sum_list (map ar_balance (drop limit ranked))\<rparr>"
  have v: "balance_breakdown s limit = Inr v"
    by (simp add: balance_breakdown_def list_responses_eq v_def ranked_def rs_def Let_def)
  have m: "mset ranked = mset (map (response_of s) (accounts s))"
    by (simp add: ranked_def rs_def list_accounts_def by_name_def)
  have "sum_list (map ar_balance ranked) = sum_list (map ar_balance (map (response_of s) (accounts s)))"
    using m by (metis mset_map sum_mset_sum_list)
  then have total: "sum_list (map ar_balance (take limit ranked)) +
      sum_list (map ar_balance (drop limit ranked)) =
      sum_list (map (\<lambda>a. balance s (acc_id a) None) (accounts s))"
    by (simp add: response_of_def comp_def flip: sum_list_append map_append)
  have sorted: "sorted (map (\<lambda>a. - \<bar>ar_balance a\<bar>) (take limit ranked @ drop limit ranked))"
    by (simp add: ranked_def)
  have "\<bar>ar_balance y\<bar> \<le> \<bar>ar_balance x\<bar>"
    if "x \<in> set (take limit ranked)" "y \<in> set (drop limit ranked)" for x y
    using sorted that unfolding map_append sorted_append by auto
  then show ?thesis
    using v m total by (intro exI [of _ v] exI [of _ "drop limit ranked"])
      (simp add: v_def flip: mset_append)
qed

lemma balance_breakdown_adds_up_witness:
  "\<exists>v rest. balance_breakdown ex_db 1 = Inr v \<and>
     mset (bb_shown v @ rest) = mset (map (response_of ex_db) (accounts ex_db)) \<and>
     bb_hidden_count v = length rest \<and>
     sum_list (map ar_balance (bb_shown v)) + bb_hidden_total v =
       balance ex_db 1 None + balance ex_db 2 None"
  using balance_breakdown_adds_up [of ex_db 1] by (auto simp: ex_defs)

subsection \<open>External account numbers\<close>

lemma filter_unique:
  assumes "distinct xs" and "x \<in> set xs" and "\<And>y. y \<in> set xs \<Longrightarrow> P y \<longleftrightarrow> y = x"
  shows "filter P xs = [x]"
  using assms
proof (induction xs)
  case (Cons z zs)
  show ?case
  proof (cases "x = z")
    case True
    with Cons.prems have "\<forall>y \<in> set zs. \<not> P y" by auto
    with True Cons.prems show ?thesis by simp
  next
    case False
    with Cons show ?thesis by auto
  qed
qed simp

lemma last_n_digits: "\<forall>c \<in> set xs. is_digit c \<Longrightarrow> digits_only xs = xs"
  by (simp add: digits_only_def filter_id_conv)

lemma ends_with_refl: "ends_with x x"
  by (simp add: ends_with_def last_n_def)

text \<open>
  An account number saved for auto-matching is found again: after \<open>save_external_number\<close> of a
  number whose last ten characters are digits, looking those ten digits up returns that account
  (for every keyed hash), provided no other account's number ends with them.
\<close>

lemma external_number_round_trip:
  assumes "distinct (map acc_id (accounts s))" and "get_account s i = Some a"
    and "10 \<le> length number" and "\<forall>c \<in> set (last_n 10 number). is_digit c"
    and "\<forall>b \<in> set (accounts s). acc_id b \<noteq> i \<longrightarrow>
      \<not> ends_with (digits_only (case acc_number b of None \<Rightarrow> [] | Some n \<Rightarrow> n)) (last_n 10 number)"
  shows "find_by_external_number hmac (save_external_number i number s) (last_n 10 number) =
    Inr (Some (a\<lparr>acc_number := Some (last_n 10 number)\<rparr>))"
proof -
  let ?w = "last_n 10 number" and ?a = "a\<lparr>acc_number := Some (last_n 10 number)\<rparr>"
  let ?accs = "upd_row acc_id i (\<lambda>r. r\<lparr>acc_number := Some ?w\<rparr>) (accounts s)"
  have s': "accounts (save_external_number i number s) = ?accs"
    using assms(2) by (simp add: save_external_number_def)
  have w: "digits_only ?w = ?w" "length ?w = 10"
    using assms(3,4) by (simp_all add: last_n_digits) (simp add: last_n_def)
  have ids: "map acc_id ?accs = map acc_id (accounts s)" by (rule map_key_upd_row) simp
  have dist: "distinct (sort_key acc_id ?accs)"
    using assms(1) ids by (metis distinct_map distinct_sort)
  have a: "a \<in> set (accounts s)" "acc_id a = i"
    using assms(2) by (auto simp: get_account_def dest: find_row_Some_D)
  then have mem: "?a \<in> set ?accs" by (force simp: upd_row_def)
  have "number_matches hmac ?w y \<longleftrightarrow> y = ?a" if y: "y \<in> set ?accs" for y
  proof
    assume "y = ?a"
    moreover have "account_suffix_index hmac (Some ?w) \<noteq> None"
      using w by (auto simp: account_suffix_index_def blind_index_digits_def Let_def last_n_def
          account_suffix_digits_def)
    ultimately show "number_matches hmac ?w y"
      by (simp add: number_matches_def w ends_with_refl)
  next
    assume m: "number_matches hmac ?w y"
    show "y = ?a"
    proof (cases "acc_id y = i")
      case True
      then have "y = ?a"
        using y mem ids assms(1) a by (metis (no_types, lifting) distinct_map inj_onD
            account.select_convs(1) account.surjective account.update_convs(7))
      then show ?thesis .
    next
      case False
      with set_upd_row_D [OF y] have "y \<in> set (accounts s)" by auto
      with False assms(5) m show ?thesis by (auto simp: number_matches_def)
    qed
  qed
  then have "filter (number_matches hmac ?w) (sort_key acc_id ?accs) = [?a]"
    by (intro filter_unique dist) (use mem in auto)
  then show ?thesis
    using w s' by (simp add: find_by_external_number_def account_suffix_digits_def)
qed

lemma external_number_round_trip_witness:
  "find_by_external_number (\<lambda>x. ''h'') (save_external_number 1 ''PL55114020040000330278886836'' ex_db)
     ''0278886836'' = Inr (Some ((ex_account 1 100)\<lparr>acc_number := Some ''0278886836''\<rparr>))"
proof -
  have "last_n 10 ''PL55114020040000330278886836'' = ''0278886836''" by (simp add: last_n_def)
  then show ?thesis
    using external_number_round_trip [of ex_db 1 "ex_account 1 100"
        "''PL55114020040000330278886836''" "\<lambda>x. ''h''"]
    by (simp add: get_account_def ex_defs is_digit_def digits_only_def ends_with_def)
qed

end
