(* ===== verification/Payees.thy ===== *)
theory Payees
  imports Models "HOL-Library.Product_Lexorder"
begin

text \<open>
  \<open>PayeeService\<close> (\<open>src/src/kaleta/services/payee_service.py\<close>) and the payee identities
  (\<open>models/payee_identity.py\<close>): a payee is known under several spellings, and a raw name from a bank
  line is resolved to the payee that holds its spelling.

  The stored index columns \<open>pattern_key\<close> and \<open>name_bidx\<close> are functions of the text they index (the
  hooks of the models keep them current), so they are computed here where a query reads them. The
  session runs with \<open>autoflush=False\<close>: a query inside an operation sees the rows as they were last
  flushed.
\<close>

section \<open>Definitions\<close>

subsection \<open>Identities\<close>

definition identity_key :: "string \<Rightarrow> string" where
  "identity_key pattern = casefold (cleaned pattern)"

definition identity_index :: "(string \<Rightarrow> string) \<Rightarrow> string \<Rightarrow> string" where
  "identity_index hmac pattern = blind_index hmac (identity_key pattern)"

definition identity_matches :: "payee_identity \<Rightarrow> string \<Rightarrow> bool" where
  "identity_matches i raw =
    (if idn_case_sensitive i then idn_pattern i = cleaned raw
     else identity_key (idn_pattern i) = identity_key (cleaned raw))"

definition spelling :: "(string \<Rightarrow> string) \<Rightarrow> payee_identity \<Rightarrow> bool \<times> string" where
  "spelling hmac i =
    (if idn_case_sensitive i then (True, idn_pattern i)
     else (False, identity_index hmac (idn_pattern i)))"

definition get_payee :: "db \<Rightarrow> int \<Rightarrow> payee option" where
  "get_payee s i = find_row pay_id i (payees s)"

text \<open>The INSERT of an identity; its pattern is cleaned by the \<open>validates\<close> hook.\<close>

definition insert_identity ::
  "int \<Rightarrow> string \<Rightarrow> bool \<Rightarrow> db \<Rightarrow> (payee_identity \<times> db) result" where
  "insert_identity pid pattern sensitive s =
    (if get_payee s pid = None then Inl (IntegrityError ''payee_identities'')
     else let i = \<lparr>idn_id = seq_identity s, idn_payee_id = pid, idn_pattern = cleaned pattern,
                   idn_case_sensitive = sensitive\<rparr>
          in Inr (i, s\<lparr>identities := identities s @ [i], seq_identity := seq_identity s + 1\<rparr>))"

text \<open>
  The flush of a new payee: \<open>UNIQUE(name_bidx)\<close>, and the before-flush hook gives it its name as the
  first identity.
\<close>

definition insert_payee :: "(string \<Rightarrow> string) \<Rightarrow> payee \<Rightarrow> db \<Rightarrow> (payee \<times> db) result" where
  "insert_payee hmac p s =
    (if \<exists>q \<in> set (payees s). exact_index hmac (pay_name q) = exact_index hmac (pay_name p)
     then Inl (IntegrityError ''uq_payees_name_bidx'')
     else let row = p\<lparr>pay_id := seq_payee s\<rparr>
          in ebind (insert_identity (pay_id row) (pay_name row) False
                     (s\<lparr>payees := payees s @ [row], seq_payee := seq_payee s + 1\<rparr>))
               (\<lambda>(i, s'). Inr (row, s')))"

subsection \<open>Reading\<close>

definition list_payees :: "db \<Rightarrow> payee list" where
  "list_payees s = sort_key (\<lambda>p. casefold (pay_name p)) (payees s)"

definition list_with_counts :: "db \<Rightarrow> (payee \<times> nat) list" where
  "list_with_counts s =
    sort_key (\<lambda>row. casefold (pay_name (fst row)))
      (map (\<lambda>p. (p, length (filter (\<lambda>t. tx_payee_id t = Some (pay_id p)) (transactions s))))
        (payees s))"

definition identities_of :: "db \<Rightarrow> int \<Rightarrow> payee_identity list" where
  "identities_of s pid =
    sort_key idn_id (filter (\<lambda>i. idn_payee_id i = pid) (identities s))"

definition identities_by_payee :: "db \<Rightarrow> int \<rightharpoonup> payee_identity list" where
  "identities_by_payee s pid =
    (if identities_of s pid = [] then None else Some (identities_of s pid))"

definition list_identities :: "int \<Rightarrow> db \<Rightarrow> payee_identity list result" where
  "list_identities pid s =
    raise_if (get_payee s pid = None) (NotFoundError ''Payee not found'') (Inr (identities_of s pid))"

record payee_last_used =
  lu_category_id :: "int option"
  lu_tag_ids :: "int list"

definition last_used_for :: "int \<Rightarrow> db \<Rightarrow> payee_last_used option" where
  "last_used_for pid s =
    (case rev (sort_key (\<lambda>t. (tx_date t, tx_id t))
            (filter (\<lambda>t. tx_payee_id t = Some pid \<and> tx_type t \<noteq> TRANSFER \<and>
                         tx_category_id t \<noteq> None) (transactions s))) of
       [] \<Rightarrow> None
     | t # _ \<Rightarrow> Some \<lparr>lu_category_id = tx_category_id t, lu_tag_ids = tx_tags t\<rparr>)"

subsection \<open>Resolving a raw name\<close>

definition identity_candidates :: "(string \<Rightarrow> string) \<Rightarrow> db \<Rightarrow> string \<Rightarrow> payee_identity list" where
  "identity_candidates hmac s pattern =
    sort_key idn_id
      (filter (\<lambda>i. identity_index hmac (idn_pattern i) = identity_index hmac pattern) (identities s))"

definition identity_hit :: "(string \<Rightarrow> string) \<Rightarrow> db \<Rightarrow> string \<Rightarrow> payee_identity option" where
  "identity_hit hmac s name =
    (let candidates = identity_candidates hmac s name
     in case find (\<lambda>i. idn_pattern i = name) candidates of
          Some i \<Rightarrow> Some i
        | None \<Rightarrow> find (\<lambda>i. identity_matches i name) candidates)"

definition payee_named :: "(string \<Rightarrow> string) \<Rightarrow> db \<Rightarrow> string \<Rightarrow> payee list" where
  "payee_named hmac s name =
    filter (\<lambda>p. exact_index hmac (pay_name p) = exact_index hmac name) (payees s)"

definition new_payee :: "string \<Rightarrow> payee" where
  "new_payee name = \<lparr>pay_id = 0, pay_name = name, pay_website = None, pay_address = None,
     pay_city = None, pay_country = None, pay_email = None, pay_phone = None, pay_notes = None\<rparr>"

definition match_or_create_from_name ::
  "(string \<Rightarrow> string) \<Rightarrow> string \<Rightarrow> db \<Rightarrow> (payee \<times> db) result" where
  "match_or_create_from_name hmac name s =
    (let name' = cleaned name;
         hit = identity_hit hmac s name'
     in case Option.bind hit (\<lambda>i. get_payee s (idn_payee_id i)) of
          Some p \<Rightarrow> Inr (p, s)
        | None \<Rightarrow>
           (case payee_named hmac s name' of
              [] \<Rightarrow> insert_payee hmac (new_payee name') s
            | [p] \<Rightarrow> Inr (p, s)
            | _ \<Rightarrow> Inl MultipleResultsFound))"

subsection \<open>Writing\<close>

record payee_update =
  pu_name :: "string option"
  pu_website :: "string option option"
  pu_address :: "string option option"
  pu_city :: "string option option"
  pu_country :: "string option option"
  pu_email :: "string option option"
  pu_phone :: "string option option"
  pu_notes :: "string option option"

text \<open>The payload of \<open>create\<close> is a payee without its id.\<close>

definition create_payee :: "(string \<Rightarrow> string) \<Rightarrow> payee \<Rightarrow> db \<Rightarrow> (payee \<times> db) result" where
  "create_payee hmac p s = insert_payee hmac p s"

definition add_name_identity ::
  "(string \<Rightarrow> string) \<Rightarrow> int \<Rightarrow> string \<Rightarrow> db \<Rightarrow> db result" where
  "add_name_identity hmac pid name s =
    (if identity_candidates hmac s name = []
     then ebind (insert_identity pid name False s) (\<lambda>(i, s'). Inr s')
     else Inr s)"

definition apply_payee_update :: "payee_update \<Rightarrow> payee \<Rightarrow> payee" where
  "apply_payee_update u =
    patch (pu_notes u) (\<lambda>v p. p\<lparr>pay_notes := v\<rparr>) \<circ>
    patch (pu_phone u) (\<lambda>v p. p\<lparr>pay_phone := v\<rparr>) \<circ>
    patch (pu_email u) (\<lambda>v p. p\<lparr>pay_email := v\<rparr>) \<circ>
    patch (pu_country u) (\<lambda>v p. p\<lparr>pay_country := v\<rparr>) \<circ>
    patch (pu_city u) (\<lambda>v p. p\<lparr>pay_city := v\<rparr>) \<circ>
    patch (pu_address u) (\<lambda>v p. p\<lparr>pay_address := v\<rparr>) \<circ>
    patch (pu_website u) (\<lambda>v p. p\<lparr>pay_website := v\<rparr>) \<circ>
    patch (pu_name u) (\<lambda>v p. p\<lparr>pay_name := v\<rparr>)"

text \<open>The UPDATE of a payee row under \<open>UNIQUE(name_bidx)\<close>.\<close>

definition save_payee :: "(string \<Rightarrow> string) \<Rightarrow> payee \<Rightarrow> db \<Rightarrow> db result" where
  "save_payee hmac p s =
    (if \<exists>q \<in> set (payees s). pay_id q \<noteq> pay_id p \<and>
          exact_index hmac (pay_name q) = exact_index hmac (pay_name p)
     then Inl (IntegrityError ''uq_payees_name_bidx'')
     else Inr (s\<lparr>payees := upd_row pay_id (pay_id p) (\<lambda>_. p) (payees s)\<rparr>))"

definition update_payee ::
  "(string \<Rightarrow> string) \<Rightarrow> int \<Rightarrow> payee_update \<Rightarrow> db \<Rightarrow> (payee option \<times> db) result" where
  "update_payee hmac pid u s =
    (case get_payee s pid of
       None \<Rightarrow> Inr (None, s)
     | Some p \<Rightarrow>
         let p' = apply_payee_update u p
         in ebind (if pay_name p' \<noteq> pay_name p then add_name_identity hmac pid (pay_name p') s
                   else Inr s) (\<lambda>s1.
            ebind (save_payee hmac p' s1) (\<lambda>s2. Inr (Some p', s2))))"

text \<open>
  The DELETE of a payee: its identities go with it (\<open>cascade\<close>), its transactions are unlinked by the
  ORM, its plans and subscriptions by \<open>ON DELETE SET NULL\<close>; its dismissed patterns are deleted.
\<close>

definition unlinked :: "int \<Rightarrow> int option \<Rightarrow> int option" where
  "unlinked pid v = (if v = Some pid then None else v)"

definition remove_payee :: "int \<Rightarrow> int \<Rightarrow> db \<Rightarrow> db" where
  "remove_payee now pid s = s\<lparr>
     payees := del_row pay_id pid (payees s),
     identities := filter (\<lambda>i. idn_payee_id i \<noteq> pid) (identities s),
     transactions := map (\<lambda>t. if tx_payee_id t = Some pid
        then t\<lparr>tx_payee_id := None, tx_updated_at := now\<rparr> else t) (transactions s),
     plans := map (\<lambda>p. p\<lparr>pt_payee_id := unlinked pid (pt_payee_id p)\<rparr>) (plans s),
     subscriptions := map (\<lambda>u. u\<lparr>sub_payee_id := unlinked pid (sub_payee_id u)\<rparr>) (subscriptions s),
     dismissed := filter (\<lambda>d. dis_payee_id d \<noteq> Some pid) (dismissed s)\<rparr>"

definition delete_payee :: "int \<Rightarrow> int \<Rightarrow> db \<Rightarrow> bool \<times> db" where
  "delete_payee now pid s =
    (case get_payee s pid of None \<Rightarrow> (False, s) | Some p \<Rightarrow> (True, remove_payee now pid s))"

record identity_create =
  ic_pattern :: string
  ic_case_sensitive :: bool

record identity_update =
  iu_pattern :: "string option"
  iu_case_sensitive :: "bool option"

definition clean_pattern :: "string \<Rightarrow> string result" where
  "clean_pattern v = raise_if (cleaned v = []) ValueError (Inr (cleaned v))"

definition check_spelling_free ::
  "(string \<Rightarrow> string) \<Rightarrow> string \<Rightarrow> int \<Rightarrow> int option \<Rightarrow> db \<Rightarrow> unit result" where
  "check_spelling_free hmac pattern pid ignored s =
    (case find (\<lambda>i. identity_index hmac (idn_pattern i) = identity_index hmac pattern \<and>
                    Some (idn_id i) \<noteq> ignored) (identities s) of
       None \<Rightarrow> Inr ()
     | Some clash \<Rightarrow>
         if idn_payee_id clash = pid
         then Inl (ConflictError ''errors.payee.identity_already_owned'')
         else Inl (ConflictError ''errors.payee.identity_taken''))"

definition add_identity ::
  "(string \<Rightarrow> string) \<Rightarrow> int \<Rightarrow> identity_create \<Rightarrow> db \<Rightarrow> (payee_identity \<times> db) result" where
  "add_identity hmac pid d s =
    raise_if (get_payee s pid = None) (NotFoundError ''Payee not found'')
      (ebind (check_spelling_free hmac (ic_pattern d) pid None s) (\<lambda>_.
         insert_identity pid (ic_pattern d) (ic_case_sensitive d) s))"

definition get_identity :: "int \<Rightarrow> int \<Rightarrow> db \<Rightarrow> payee_identity result" where
  "get_identity pid iid s =
    (case find_row idn_id iid (identities s) of
       None \<Rightarrow> Inl (NotFoundError ''Payee identity not found'')
     | Some i \<Rightarrow> raise_if (idn_payee_id i \<noteq> pid) (NotFoundError ''Payee identity not found'') (Inr i))"

definition update_identity ::
  "(string \<Rightarrow> string) \<Rightarrow> int \<Rightarrow> int \<Rightarrow> identity_update \<Rightarrow> db \<Rightarrow> (payee_identity \<times> db) result" where
  "update_identity hmac pid iid u s =
    ebind (get_identity pid iid s) (\<lambda>i.
    ebind (case iu_pattern u of
             None \<Rightarrow> Inr i
           | Some pat \<Rightarrow>
               if pat = idn_pattern i then Inr i
               else ebind (check_spelling_free hmac pat pid (Some iid) s)
                      (\<lambda>_. Inr (i\<lparr>idn_pattern := cleaned pat\<rparr>))) (\<lambda>i1.
      let i2 = patch (iu_case_sensitive u) (\<lambda>v r. r\<lparr>idn_case_sensitive := v\<rparr>) i1
      in Inr (i2, s\<lparr>identities := upd_row idn_id iid (\<lambda>_. i2) (identities s)\<rparr>)))"

definition delete_identity :: "int \<Rightarrow> int \<Rightarrow> db \<Rightarrow> db result" where
  "delete_identity pid iid s =
    ebind (get_identity pid iid s) (\<lambda>i.
      raise_if (length (filter (\<lambda>i. idn_payee_id i = pid) (identities s)) \<le> 1)
        (ConflictError ''last_identity'')
        (Inr (s\<lparr>identities := del_row idn_id iid (identities s)\<rparr>)))"

subsection \<open>Merging\<close>

text \<open>
  The loop of \<open>absorb_identities\<close> over the keeper's and the merged payees' identities: the ids that
  move and the ids that are dropped because the keeper already answers to the spelling.
\<close>

fun absorb_rows :: "(string \<Rightarrow> string) \<Rightarrow> int \<Rightarrow> (bool \<times> string) set \<Rightarrow> payee_identity list \<Rightarrow>
    int list \<times> int list" where
  "absorb_rows hmac keep held [] = ([], [])"
| "absorb_rows hmac keep held (i # is) =
    (if idn_payee_id i = keep then absorb_rows hmac keep held is
     else if spelling hmac i \<in> held
     then let (moved, dropped) = absorb_rows hmac keep held is in (moved, idn_id i # dropped)
     else let (moved, dropped) = absorb_rows hmac keep (insert (spelling hmac i) held) is
          in (idn_id i # moved, dropped))"

definition absorb_identities ::
  "(string \<Rightarrow> string) \<Rightarrow> int \<Rightarrow> int list \<Rightarrow> db \<Rightarrow> (int list \<times> db) result" where
  "absorb_identities hmac keep merged s =
    (if merged = [] then Inr ([], s)
     else
       let rows = sort_key idn_id
             (filter (\<lambda>i. idn_payee_id i \<in> set (keep # merged)) (identities s));
           held = spelling hmac ` set (filter (\<lambda>i. idn_payee_id i = keep) rows);
           (moved, dropped) = absorb_rows hmac keep held rows
       in if moved \<noteq> [] \<and> get_payee s keep = None
          then Inl (IntegrityError ''payee_identities'')
          else Inr (moved, s\<lparr>identities :=
            map (\<lambda>i. if idn_id i \<in> set moved then i\<lparr>idn_payee_id := keep\<rparr> else i)
              (filter (\<lambda>i. idn_id i \<notin> set dropped) (identities s))\<rparr>))"

definition check_merge_name ::
  "(string \<Rightarrow> string) \<Rightarrow> string \<Rightarrow> int \<Rightarrow> int list \<Rightarrow> db \<Rightarrow> payee result" where
  "check_merge_name hmac name keep merged s =
    raise_if (200 < length name) (ValidationError ''Payee name is too long'')
      (case get_payee s keep of
         None \<Rightarrow> Inl (NotFoundError ''Payee not found'')
       | Some keeper \<Rightarrow>
           raise_if (\<exists>q \<in> set (payees s). exact_index hmac (pay_name q) = exact_index hmac name \<and>
                       pay_id q \<notin> set (keep # merged))
             (ConflictError ''A payee with this name already exists'') (Inr keeper))"

text \<open>The three bulk UPDATEs; a keeper that does not exist violates the foreign key.\<close>

definition moved_ref :: "int \<Rightarrow> int list \<Rightarrow> int option \<Rightarrow> int option" where
  "moved_ref keep merged v = (if v \<in> Some ` set merged then Some keep else v)"

definition reassign_payees :: "int \<Rightarrow> int \<Rightarrow> int list \<Rightarrow> db \<Rightarrow> db result" where
  "reassign_payees now keep merged s =
    (if get_payee s keep = None \<and>
        ((\<exists>t \<in> set (transactions s). tx_payee_id t \<in> Some ` set merged) \<or>
         (\<exists>p \<in> set (plans s). pt_payee_id p \<in> Some ` set merged) \<or>
         (\<exists>u \<in> set (subscriptions s). sub_payee_id u \<in> Some ` set merged))
     then Inl (IntegrityError ''payees'')
     else Inr (s\<lparr>
       transactions := map (\<lambda>t. if tx_payee_id t \<in> Some ` set merged
          then t\<lparr>tx_payee_id := Some keep, tx_updated_at := now\<rparr> else t) (transactions s),
       plans := map (\<lambda>p. p\<lparr>pt_payee_id := moved_ref keep merged (pt_payee_id p)\<rparr>) (plans s),
       subscriptions :=
         map (\<lambda>u. u\<lparr>sub_payee_id := moved_ref keep merged (sub_payee_id u)\<rparr>) (subscriptions s)\<rparr>))"

text \<open>
  The renaming at the end of a merge; it runs after the deletes are flushed, so a keeper that was
  itself among the merged payees has no row left to update.
\<close>

definition rename_keeper :: "(string \<Rightarrow> string) \<Rightarrow> payee \<Rightarrow> string \<Rightarrow> db \<Rightarrow> db result" where
  "rename_keeper hmac keeper name s =
    ebind (add_name_identity hmac (pay_id keeper) name s)
      (save_payee hmac (keeper\<lparr>pay_name := name\<rparr>))"

definition merge_payees ::
  "(string \<Rightarrow> string) \<Rightarrow> int \<Rightarrow> int \<Rightarrow> int list \<Rightarrow> string option \<Rightarrow> db \<Rightarrow> (nat \<times> db) result" where
  "merge_payees hmac now keep merged new_name s =
    (if merged = [] then Inr (0, s)
     else
       let name = strip (case new_name of None \<Rightarrow> [] | Some n \<Rightarrow> n)
       in ebind (if name = [] then Inr None
                 else ebind (check_merge_name hmac name keep merged s) (\<lambda>k. Inr (Some k))) (\<lambda>keeper.
          ebind (reassign_payees now keep merged s) (\<lambda>s1.
          ebind (absorb_identities hmac keep merged s1) (\<lambda>(moved, s2).
            let deleted = length (filter (\<lambda>pid. get_payee s2 pid \<noteq> None) merged);
                s3 = fold (remove_payee now) merged s2
            in ebind (case keeper of
                        None \<Rightarrow> Inr s3
                      | Some k \<Rightarrow> if pay_name k = name then Inr s3 else rename_keeper hmac k name s3)
                 (\<lambda>s4. Inr (deleted, s4))))))"

section \<open>The invariant of payees and identities\<close>

text \<open>
  Every identity belongs to a payee, every payee outside \<open>M\<close> holds an identity, names are unique and
  patterns are stored cleaned. \<open>M\<close> is empty except in the middle of a merge.
\<close>

definition payees_ok_except :: "int set \<Rightarrow> (string \<Rightarrow> string) \<Rightarrow> db \<Rightarrow> bool" where
  "payees_ok_except M hmac s \<longleftrightarrow>
    ids_ok pay_id (seq_payee s) (payees s) \<and> ids_ok idn_id (seq_identity s) (identities s) \<and>
    idn_payee_id ` set (identities s) \<subseteq> pay_id ` set (payees s) \<and>
    pay_id ` set (payees s) \<subseteq> M \<union> idn_payee_id ` set (identities s) \<and>
    distinct (map (\<lambda>p. exact_index hmac (pay_name p)) (payees s)) \<and>
    (\<forall>i \<in> set (identities s). cleaned (idn_pattern i) = idn_pattern i)"

abbreviation payees_ok :: "(string \<Rightarrow> string) \<Rightarrow> db \<Rightarrow> bool" where
  "payees_ok \<equiv> payees_ok_except {}"

lemma get_payee_None_iff: "get_payee s i = None \<longleftrightarrow> i \<notin> pay_id ` set (payees s)"
  by (simp add: get_payee_def find_row_None_iff)

lemma get_payee_Some: "get_payee s i = Some p \<Longrightarrow> p \<in> set (payees s) \<and> pay_id p = i"
  by (auto simp: get_payee_def dest: find_row_Some_D)

lemma payees_ok_empty: "payees_ok hmac empty_db"
  by (simp add: payees_ok_except_def ids_ok_def empty_db_def)

lemma insert_identity_Inr:
  assumes "insert_identity pid pattern sensitive s = Inr (i, s')"
  shows "i = \<lparr>idn_id = seq_identity s, idn_payee_id = pid, idn_pattern = cleaned pattern,
      idn_case_sensitive = sensitive\<rparr>"
    and "s' = s\<lparr>identities := identities s @ [i], seq_identity := seq_identity s + 1\<rparr>"
    and "pid \<in> pay_id ` set (payees s)"
  using assms by (auto simp: insert_identity_def Let_def get_payee_None_iff split: if_splits)

lemma insert_identity_ok:
  assumes "payees_ok_except M hmac s" and "insert_identity pid pattern sensitive s = Inr (i, s')"
  shows "payees_ok_except (M - {pid}) hmac s'"
proof -
  note ins = insert_identity_Inr [OF assms(2)]
  have "ids_ok idn_id (seq_identity s + 1) (identities s @ [i])"
    using assms(1) ins(1) by (intro ids_ok_insert) (auto simp: payees_ok_except_def)
  then show ?thesis
    using assms(1) ins unfolding payees_ok_except_def by auto
qed

lemma insert_payee_Inr:
  assumes "insert_payee hmac p s = Inr (row, s')"
  shows "row = p\<lparr>pay_id := seq_payee s\<rparr>"
    and "\<exists>i. insert_identity (seq_payee s) (pay_name p) False
        (s\<lparr>payees := payees s @ [row], seq_payee := seq_payee s + 1\<rparr>) = Inr (i, s')"
    and "\<forall>q \<in> set (payees s). exact_index hmac (pay_name q) \<noteq> exact_index hmac (pay_name p)"
  using assms
  by (auto simp: insert_payee_def Let_def ebind_Inr_iff split: if_splits)

lemma insert_payee_ok:
  assumes "payees_ok hmac s" and "insert_payee hmac p s = Inr (row, s')"
  shows "payees_ok hmac s'"
proof -
  note ins = insert_payee_Inr [OF assms(2)]
  let ?s = "s\<lparr>payees := payees s @ [row], seq_payee := seq_payee s + 1\<rparr>"
  have "ids_ok pay_id (seq_payee s + 1) (payees s @ [row])"
    using assms(1) ins(1) by (intro ids_ok_insert) (auto simp: payees_ok_except_def)
  then have "payees_ok_except {seq_payee s} hmac ?s"
    using assms(1) ins(1,3) unfolding payees_ok_except_def by auto
  with ins(2) show ?thesis using insert_identity_ok by fastforce
qed

lemma insert_identity_total:
  "pid \<in> pay_id ` set (payees s) \<Longrightarrow> \<exists>i s'. insert_identity pid pattern sensitive s = Inr (i, s')"
  by (auto simp: insert_identity_def Let_def get_payee_None_iff)

lemma match_or_create_cases:
  assumes "match_or_create_from_name hmac name s = Inr (p, s')"
  obtains (hit) i where "identity_hit hmac s (cleaned name) = Some i"
      "get_payee s (idn_payee_id i) = Some p" "s' = s"
    | (named) "Option.bind (identity_hit hmac s (cleaned name)) (\<lambda>i. get_payee s (idn_payee_id i)) = None"
      "payee_named hmac s (cleaned name) = [p]" "s' = s"
    | (new) "Option.bind (identity_hit hmac s (cleaned name)) (\<lambda>i. get_payee s (idn_payee_id i)) = None"
      "payee_named hmac s (cleaned name) = []"
      "insert_payee hmac (new_payee (cleaned name)) s = Inr (p, s')"
proof (cases "Option.bind (identity_hit hmac s (cleaned name)) (\<lambda>i. get_payee s (idn_payee_id i))")
  case (Some q)
  with assms have "q = p" "s' = s" by (simp_all add: match_or_create_from_name_def)
  with Some hit show thesis by (auto simp: Option.bind_eq_Some_conv)
next
  case None
  with assms named [OF None] new [OF None] show thesis
    by (simp add: match_or_create_from_name_def Let_def split: list.splits)
qed

lemma match_or_create_ok:
  assumes "payees_ok hmac s" and "match_or_create_from_name hmac name s = Inr (p, s')"
  shows "payees_ok hmac s'"
  using assms(2)
proof (cases rule: match_or_create_cases)
  case new
  with assms(1) show ?thesis by (blast intro: insert_payee_ok)
qed (use assms(1) in simp_all)

lemma add_name_identity_ok:
  assumes "payees_ok_except M hmac s" and "add_name_identity hmac pid name s = Inr s'"
  shows "payees_ok_except M hmac s'"
proof (cases "identity_candidates hmac s name = []")
  case True
  with assms(2) obtain i where "insert_identity pid name False s = Inr (i, s')"
    by (auto simp: add_name_identity_def ebind_Inr_iff)
  from insert_identity_ok [OF assms(1) this] show ?thesis by (auto simp: payees_ok_except_def)
qed (use assms in \<open>simp add: add_name_identity_def\<close>)

lemma save_payee_Inr:
  assumes "save_payee hmac p s = Inr s'"
  shows "s' = s\<lparr>payees := upd_row pay_id (pay_id p) (\<lambda>_. p) (payees s)\<rparr>"
    and "\<forall>q \<in> set (payees s). pay_id q \<noteq> pay_id p \<longrightarrow>
      exact_index hmac (pay_name q) \<noteq> exact_index hmac (pay_name p)"
  using assms by (auto simp: save_payee_def split: if_splits)

lemma distinct_upd_row_const:
  assumes "distinct (map f rows)" and "distinct (map key rows)"
    and "\<forall>q \<in> set rows. key q \<noteq> key p \<longrightarrow> f q \<noteq> f p"
  shows "distinct (map f (upd_row key (key p) (\<lambda>_. p) rows))"
  using assms
proof (induction rows)
  case (Cons r rows)
  show ?case
  proof (cases "key r = key p")
    case True
    with Cons.prems have "key p \<notin> key ` set rows" by auto
    moreover have "f p \<notin> f ` set rows"
    proof
      assume "f p \<in> f ` set rows"
      then obtain q where q: "q \<in> set rows" "f q = f p" by auto
      from calculation q(1) have "key q \<noteq> key p" by (metis imageI)
      with q Cons.prems(3) show False by auto
    qed
    ultimately show ?thesis using True Cons.prems by (simp add: upd_row_absent)
  next
    case False
    with Cons show ?thesis by (auto dest!: set_upd_row_D)
  qed
qed simp

lemma save_payee_ok:
  assumes "payees_ok_except M hmac s" and "save_payee hmac p s = Inr s'"
  shows "payees_ok_except M hmac s'"
proof -
  note sv = save_payee_Inr [OF assms(2)]
  let ?rows = "upd_row pay_id (pay_id p) (\<lambda>_. p) (payees s)"
  have keys: "map pay_id ?rows = map pay_id (payees s)" by (rule upd_row_const_key)
  then have img: "pay_id ` set ?rows = pay_id ` set (payees s)" by (metis list.set_map)
  have "ids_ok pay_id (seq_payee s) ?rows"
    using assms(1) ids_ok_cong [OF keys] unfolding payees_ok_except_def by blast
  moreover have "distinct (map (\<lambda>p. exact_index hmac (pay_name p)) ?rows)"
    using assms(1) sv(2) unfolding payees_ok_except_def ids_ok_def
    by (intro distinct_upd_row_const) auto
  ultimately show ?thesis
    using assms(1) img unfolding sv(1) payees_ok_except_def by simp
qed

lemma update_payee_ok:
  assumes "payees_ok hmac s" and "update_payee hmac pid u s = Inr (r, s')"
  shows "payees_ok hmac s'"
  using assms
  by (auto simp: update_payee_def Let_def ebind_Inr_iff split: option.splits if_splits
      intro: save_payee_ok add_name_identity_ok)

lemma remove_payee_ok:
  assumes "payees_ok_except M hmac s"
  shows "payees_ok_except M hmac (remove_payee now pid s)"
  using assms ids_ok_del_row [of pay_id "seq_payee s" "payees s" pid]
  unfolding payees_ok_except_def remove_payee_def
  by (auto simp: del_row_def distinct_map_filter ids_ok_def)

lemma delete_payee_ok:
  "payees_ok hmac s \<Longrightarrow> payees_ok hmac (snd (delete_payee now pid s))"
  by (auto simp: delete_payee_def remove_payee_ok split: option.split)

lemma add_identity_Inr:
  assumes "add_identity hmac pid d s = Inr (i, s')"
  shows "insert_identity pid (ic_pattern d) (ic_case_sensitive d) s = Inr (i, s')"
    and "\<forall>j \<in> set (identities s).
      identity_index hmac (idn_pattern j) \<noteq> identity_index hmac (ic_pattern d)"
  using assms
  by (auto simp: add_identity_def raise_if_Inr_iff ebind_Inr_iff check_spelling_free_def
      find_None_iff split: option.splits if_splits)

lemma get_identity_Inr:
  "get_identity pid iid s = Inr i \<Longrightarrow>
    find_row idn_id iid (identities s) = Some i \<and> i \<in> set (identities s) \<and> idn_id i = iid \<and> idn_payee_id i = pid"
  by (auto simp: get_identity_def raise_if_Inr_iff split: option.splits dest: find_row_Some_D)

lemma update_identity_Inr:
  assumes "update_identity hmac pid iid u s = Inr (j, s')"
  obtains i where "get_identity pid iid s = Inr i" "idn_id j = iid" "idn_payee_id j = pid"
    "idn_pattern j = idn_pattern i \<or> (\<exists>pat. idn_pattern j = cleaned pat)"
    "s' = s\<lparr>identities := upd_row idn_id iid (\<lambda>_. j) (identities s)\<rparr>"
proof -
  from assms obtain i i1 where i: "get_identity pid iid s = Inr i"
    and i1: "(case iu_pattern u of None \<Rightarrow> Inr i
       | Some pat \<Rightarrow> if pat = idn_pattern i then Inr i
           else ebind (check_spelling_free hmac pat pid (Some iid) s)
                  (\<lambda>_. Inr (i\<lparr>idn_pattern := cleaned pat\<rparr>))) = Inr i1"
    and j: "j = patch (iu_case_sensitive u) (\<lambda>v r. r\<lparr>idn_case_sensitive := v\<rparr>) i1"
    and s': "s' = s\<lparr>identities := upd_row idn_id iid (\<lambda>_. j) (identities s)\<rparr>"
    by (auto simp: update_identity_def ebind_Inr_iff Let_def)
  have "i1 = i \<or> (\<exists>pat. i1 = i\<lparr>idn_pattern := cleaned pat\<rparr>)"
    using i1 by (auto simp: ebind_Inr_iff split: option.splits if_splits)
  with get_identity_Inr [OF i] show thesis
    by (intro that [OF i _ _ _ s']) (auto simp: j patch_def split: option.split)
qed

lemma update_identity_ok:
  assumes "payees_ok hmac s" and "update_identity hmac pid iid u s = Inr (j, s')"
  shows "payees_ok hmac s'"
proof -
  from assms(2) obtain i where i: "get_identity pid iid s = Inr i" "idn_id j = iid"
      "idn_payee_id j = pid" "idn_pattern j = idn_pattern i \<or> (\<exists>pat. idn_pattern j = cleaned pat)"
    and s': "s' = s\<lparr>identities := upd_row idn_id iid (\<lambda>_. j) (identities s)\<rparr>"
    by (rule update_identity_Inr)
  note gi = get_identity_Inr [OF i(1)]
  let ?rows = "upd_row idn_id (idn_id j) (\<lambda>_. j) (identities s)"
  have keys: "map idn_id ?rows = map idn_id (identities s)" by (rule upd_row_const_key)
  then have img: "idn_id ` set ?rows = idn_id ` set (identities s)" by (metis list.set_map)
  have "ids_ok idn_id (seq_identity s) ?rows"
    using assms(1) ids_ok_cong [OF keys] unfolding payees_ok_except_def by blast
  moreover have owners: "map idn_payee_id ?rows = map idn_payee_id (identities s)"
  proof -
    have "idn_payee_id r = pid" if "r \<in> set (identities s)" "idn_id r = iid" for r
      using that gi assms(1) find_row_member [of idn_id "identities s" r]
      by (auto simp: payees_ok_except_def ids_ok_def)
    then show ?thesis by (auto simp: upd_row_def i(2,3))
  qed
  then have owners': "idn_payee_id ` set ?rows = idn_payee_id ` set (identities s)" by (metis list.set_map)
  have rows: "?rows = map (\<lambda>r. if idn_id r = iid then j else r) (identities s)"
    by (simp add: upd_row_def i(2))
  moreover have "cleaned (idn_pattern q) = idn_pattern q" if "q \<in> set ?rows" for q
    using that assms(1) i(4) gi unfolding rows payees_ok_except_def by auto
  ultimately show ?thesis
    using assms(1) i(2) owners' unfolding s' payees_ok_except_def by simp
qed

lemma delete_identity_ok:
  assumes "payees_ok hmac s" and "delete_identity pid iid s = Inr s'"
  shows "payees_ok hmac s'"
proof -
  from assms(2) obtain i where i: "get_identity pid iid s = Inr i"
    and more: "1 < length (filter (\<lambda>i. idn_payee_id i = pid) (identities s))"
    and s': "s' = s\<lparr>identities := del_row idn_id iid (identities s)\<rparr>"
    by (auto simp: delete_identity_def ebind_Inr_iff raise_if_Inr_iff)
  note gi = get_identity_Inr [OF i]
  let ?own = "filter (\<lambda>i. idn_payee_id i = pid) (identities s)"
  have dist: "distinct (map idn_id ?own)"
    using assms(1) by (simp add: payees_ok_except_def ids_ok_def distinct_map_filter)
  have "\<exists>k \<in> set ?own. idn_id k \<noteq> iid"
  proof (rule ccontr)
    assume "\<not> ?thesis"
    then have "idn_id ` set ?own \<subseteq> {iid}" by auto
    then have "length (map idn_id ?own) \<le> 1"
      using distinct_card [OF dist] card_mono [of "{iid}" "idn_id ` set ?own"] by simp
    with more show False by simp
  qed
  then obtain k where k: "k \<in> set (identities s)" "idn_payee_id k = pid" "idn_id k \<noteq> iid" by auto
  have "idn_payee_id ` set (del_row idn_id iid (identities s)) = idn_payee_id ` set (identities s)"
  proof -
    have "idn_payee_id r = pid" if "r \<in> set (identities s)" "idn_id r = iid" for r
      using that gi assms(1) find_row_member [of idn_id "identities s" r]
      by (auto simp: payees_ok_except_def ids_ok_def)
    with k show ?thesis by (auto simp: image_iff)
  qed
  then show ?thesis
    using assms(1) unfolding s' payees_ok_except_def by (simp add: ids_ok_del_row)
qed

subsection \<open>Merges\<close>

lemma absorb_rows_ids:
  "set (fst (absorb_rows hmac keep held rows)) \<union> set (snd (absorb_rows hmac keep held rows)) =
    idn_id ` set (filter (\<lambda>i. idn_payee_id i \<noteq> keep) rows)"
  by (induction hmac keep held rows rule: absorb_rows.induct)
    (simp_all add: Let_def case_prod_beta del: set_filter)

text \<open>The state after \<open>absorb_identities\<close>.\<close>

lemma absorb_identities_Inr:
  assumes "absorb_identities hmac keep merged s = Inr (moved, s')" and "merged \<noteq> []"
  obtains rows dropped where
    "rows = sort_key idn_id (filter (\<lambda>i. idn_payee_id i \<in> set (keep # merged)) (identities s))"
    "absorb_rows hmac keep (spelling hmac ` set (filter (\<lambda>i. idn_payee_id i = keep) rows)) rows =
      (moved, dropped)"
    "moved = [] \<or> keep \<in> pay_id ` set (payees s)"
    "s' = s\<lparr>identities := map (\<lambda>i. if idn_id i \<in> set moved then i\<lparr>idn_payee_id := keep\<rparr> else i)
              (filter (\<lambda>i. idn_id i \<notin> set dropped) (identities s))\<rparr>"
proof -
  define rows where
    "rows = sort_key idn_id (filter (\<lambda>i. idn_payee_id i \<in> set (keep # merged)) (identities s))"
  obtain m d where md: "absorb_rows hmac keep
      (spelling hmac ` set (filter (\<lambda>i. idn_payee_id i = keep) rows)) rows = (m, d)"
    by fastforce
  show thesis
  proof (rule that [OF rows_def, of d])
    have "(if m \<noteq> [] \<and> get_payee s keep = None then Inl (IntegrityError ''payee_identities'')
       else Inr (m, s\<lparr>identities :=
            map (\<lambda>i. if idn_id i \<in> set m then i\<lparr>idn_payee_id := keep\<rparr> else i)
              (filter (\<lambda>i. idn_id i \<notin> set d) (identities s))\<rparr>)) = Inr (moved, s')"
      using assms unfolding absorb_identities_def Let_def rows_def [symmetric] md by simp
    then show "absorb_rows hmac keep (spelling hmac ` set (filter (\<lambda>i. idn_payee_id i = keep) rows)) rows =
        (moved, d)"
      and "moved = [] \<or> keep \<in> pay_id ` set (payees s)"
      and "s' = s\<lparr>identities := map (\<lambda>i. if idn_id i \<in> set moved then i\<lparr>idn_payee_id := keep\<rparr> else i)
              (filter (\<lambda>i. idn_id i \<notin> set d) (identities s))\<rparr>"
      using md by (auto simp: get_payee_None_iff simp del: set_filter split: if_splits)
  qed
qed

lemma absorb_identities_ok:
  assumes "payees_ok_except {} hmac s" and "merged \<noteq> []"
    and "absorb_identities hmac keep merged s = Inr (moved, s')"
  shows "payees_ok_except (set merged) hmac s'"
proof -
  from assms(3,2) obtain rows dropped where
    rows: "rows = sort_key idn_id (filter (\<lambda>i. idn_payee_id i \<in> set (keep # merged)) (identities s))"
    and ab: "absorb_rows hmac keep (spelling hmac ` set (filter (\<lambda>i. idn_payee_id i = keep) rows)) rows =
      (moved, dropped)"
    and keep: "moved = [] \<or> keep \<in> pay_id ` set (payees s)"
    and s': "s' = s\<lparr>identities := map (\<lambda>i. if idn_id i \<in> set moved then i\<lparr>idn_payee_id := keep\<rparr> else i)
              (filter (\<lambda>i. idn_id i \<notin> set dropped) (identities s))\<rparr>"
    by (rule absorb_identities_Inr)
  let ?ids = "map (\<lambda>i. if idn_id i \<in> set moved then i\<lparr>idn_payee_id := keep\<rparr> else i)
              (filter (\<lambda>i. idn_id i \<notin> set dropped) (identities s))"
  have touched: "idn_payee_id i \<in> set merged - {keep}"
    if "i \<in> set (identities s)" "idn_id i \<in> set moved \<union> set dropped" for i
  proof -
    have "set moved \<union> set dropped = idn_id ` set (filter (\<lambda>i. idn_payee_id i \<noteq> keep) rows)"
      using absorb_rows_ids [of hmac keep
          "spelling hmac ` set (filter (\<lambda>i. idn_payee_id i = keep) rows)" rows] ab by simp
    with that(2) obtain j where
      "j \<in> set (identities s)" "idn_id j = idn_id i" "idn_payee_id j \<in> set merged" "idn_payee_id j \<noteq> keep"
      by (auto simp: rows)
    moreover from this(1,2) that(1) assms(1) have "j = i"
      by (auto simp: payees_ok_except_def ids_ok_def distinct_map dest: inj_onD)
    ultimately show ?thesis by simp
  qed
  have keys: "map idn_id ?ids = map idn_id (filter (\<lambda>i. idn_id i \<notin> set dropped) (identities s))"
    by simp
  have "ids_ok idn_id (seq_identity s) ?ids"
    unfolding ids_ok_cong [OF keys] using assms(1)
    by (auto simp: payees_ok_except_def ids_ok_def distinct_map_filter)
  moreover have "idn_payee_id ` set ?ids \<subseteq> pay_id ` set (payees s)"
    using assms(1) keep unfolding payees_ok_except_def by (auto split: if_splits)
  moreover have "pay_id ` set (payees s) \<subseteq> set merged \<union> idn_payee_id ` set ?ids"
  proof
    fix x assume "x \<in> pay_id ` set (payees s)"
    then obtain i where i: "i \<in> set (identities s)" "idn_payee_id i = x"
      using assms(1) unfolding payees_ok_except_def by auto
    show "x \<in> set merged \<union> idn_payee_id ` set ?ids"
    proof (cases "idn_id i \<in> set moved \<union> set dropped")
      case True
      from touched [OF i(1) True] i(2) show ?thesis by simp
    next
      case False
      with i show ?thesis by force
    qed
  qed
  moreover have "\<forall>i \<in> set ?ids. cleaned (idn_pattern i) = idn_pattern i"
    using assms(1) unfolding payees_ok_except_def by auto
  ultimately show ?thesis using assms(1) unfolding s' payees_ok_except_def by simp
qed

lemma reassign_payees_frame:
  assumes "reassign_payees now keep merged s = Inr s'"
  shows "payees s' = payees s" and "identities s' = identities s"
    and "seq_payee s' = seq_payee s" and "seq_identity s' = seq_identity s"
  using assms by (auto simp: reassign_payees_def split: if_splits)

lemma fold_remove_payee_ok:
  "payees_ok_except M hmac s \<Longrightarrow> payees_ok_except M hmac (fold (remove_payee now) ids s)"
  by (induction ids arbitrary: s) (simp_all add: remove_payee_ok)

lemma payees_remove_payee: "payees (remove_payee now pid s) = del_row pay_id pid (payees s)"
  by (simp add: remove_payee_def)

lemma payees_fold_remove:
  "set (payees (fold (remove_payee now) ids s)) = {p \<in> set (payees s). pay_id p \<notin> set ids}"
  by (induction ids arbitrary: s) (auto simp: payees_remove_payee)

lemma rename_keeper_ok:
  "payees_ok hmac s \<Longrightarrow> rename_keeper hmac k name s = Inr s' \<Longrightarrow> payees_ok hmac s'"
  by (auto simp: rename_keeper_def ebind_Inr_iff intro: save_payee_ok add_name_identity_ok)

text \<open>The steps of a successful merge.\<close>

lemma merge_payees_Inr:
  assumes "merge_payees hmac now keep merged new_name s = Inr (n, s')" and "merged \<noteq> []"
  obtains s1 moved s2 where "reassign_payees now keep merged s = Inr s1"
    "absorb_identities hmac keep merged s1 = Inr (moved, s2)"
    "n = length (filter (\<lambda>pid. get_payee s2 pid \<noteq> None) merged)"
    "s' = fold (remove_payee now) merged s2 \<or>
     (\<exists>keeper name. check_merge_name hmac name keep merged s = Inr keeper \<and>
       new_name \<noteq> None \<and> name = strip (the new_name) \<and>
       rename_keeper hmac keeper name (fold (remove_payee now) merged s2) = Inr s')"
proof -
  define name where "name = strip (case new_name of None \<Rightarrow> [] | Some n \<Rightarrow> n)"
  have nn: "new_name \<noteq> None" "strip (the new_name) = name" if "name \<noteq> []"
    using that by (auto simp: name_def strip_def split: option.splits)
  from assms obtain keeper s1 moved s2 where
    k: "(if name = [] then Inr None
         else ebind (check_merge_name hmac name keep merged s) (\<lambda>k. Inr (Some k))) = Inr keeper"
    and st: "reassign_payees now keep merged s = Inr s1"
      "absorb_identities hmac keep merged s1 = Inr (moved, s2)"
      "n = length (filter (\<lambda>pid. get_payee s2 pid \<noteq> None) merged)"
    and l: "(case keeper of None \<Rightarrow> Inr (fold (remove_payee now) merged s2)
             | Some k \<Rightarrow> if pay_name k = name then Inr (fold (remove_payee now) merged s2)
                 else rename_keeper hmac k name (fold (remove_payee now) merged s2)) = Inr s'"
    unfolding merge_payees_def Let_def name_def [symmetric] ebind_Inr_iff by (auto simp: ebind_Inr_iff)
  show thesis
  proof (rule that [OF st])
    show "s' = fold (remove_payee now) merged s2 \<or>
     (\<exists>keeper name. check_merge_name hmac name keep merged s = Inr keeper \<and>
       new_name \<noteq> None \<and> name = strip (the new_name) \<and>
       rename_keeper hmac keeper name (fold (remove_payee now) merged s2) = Inr s')"
      using k l nn by (auto simp: ebind_Inr_iff split: option.splits if_splits)
  qed
qed

lemma merge_payees_ok:
  assumes "payees_ok hmac s" and "merge_payees hmac now keep merged new_name s = Inr (n, s')"
  shows "payees_ok hmac s'"
proof (cases "merged = []")
  case True
  with assms show ?thesis by (simp add: merge_payees_def)
next
  case False
  with assms(2) obtain s1 moved s2 where
    st: "reassign_payees now keep merged s = Inr s1"
      "absorb_identities hmac keep merged s1 = Inr (moved, s2)"
    and last: "s' = fold (remove_payee now) merged s2 \<or>
     (\<exists>keeper name. check_merge_name hmac name keep merged s = Inr keeper \<and>
       new_name \<noteq> None \<and> name = strip (the new_name) \<and>
       rename_keeper hmac keeper name (fold (remove_payee now) merged s2) = Inr s')"
    by (rule merge_payees_Inr)
  have "payees_ok hmac s1"
    using assms(1) reassign_payees_frame [OF st(1)] by (simp add: payees_ok_except_def)
  from absorb_identities_ok [OF this False st(2)]
  have "payees_ok_except (set merged) hmac (fold (remove_payee now) merged s2)"
    by (rule fold_remove_payee_ok)
  moreover have "pay_id ` set (payees (fold (remove_payee now) merged s2)) \<inter> set merged = {}"
    by (auto simp: payees_fold_remove)
  ultimately have "payees_ok hmac (fold (remove_payee now) merged s2)"
    unfolding payees_ok_except_def by blast
  with last show ?thesis by (auto intro: rename_keeper_ok)
qed

section \<open>Resolving names\<close>

lemma identity_key_cleaned [simp]: "identity_key (cleaned p) = identity_key p"
  by (simp add: identity_key_def)

lemma identity_index_eq: "identity_index hmac p = hmac (identity_key p)"
proof -
  have "identity_key p = cleaned (casefold p)" by (simp add: identity_key_def casefold_cleaned)
  then have "normalise_for_index (identity_key p) = casefold (identity_key p)"
    by (simp add: normalise_cleaned)
  then show ?thesis
    by (simp add: identity_index_def blind_index_def) (simp add: identity_key_def)
qed

lemma set_candidates:
  "set (identity_candidates hmac s p) =
    {i \<in> set (identities s). hmac (identity_key (idn_pattern i)) = hmac (identity_key p)}"
  by (simp add: identity_candidates_def identity_index_eq)

lemma hit_is_candidate:
  assumes "identity_hit hmac s name = Some i"
  shows "i \<in> set (identity_candidates hmac s name)"
  using assms
  by (auto simp: identity_hit_def Let_def find_Some_iff split: option.splits)

lemma hit_exact:
  assumes "i \<in> set (identities s)" and "idn_pattern i = name"
  shows "\<exists>j. identity_hit hmac s name = Some j \<and> j \<in> set (identities s) \<and> idn_pattern j = name"
proof -
  let ?c = "identity_candidates hmac s name"
  have "i \<in> set ?c" using assms by (simp add: set_candidates)
  then have "find (\<lambda>i. idn_pattern i = name) ?c \<noteq> None"
    using assms(2) by (auto simp: find_None_iff)
  then obtain j where j: "find (\<lambda>i. idn_pattern i = name) ?c = Some j" by auto
  then have "j \<in> set ?c" "idn_pattern j = name" by (auto simp: find_Some_iff)
  with j show ?thesis by (auto simp: identity_hit_def set_candidates)
qed

lemma hit_insensitive:
  assumes "i \<in> set (identities s)" and "identity_matches i name" and "cleaned name = name"
    and "hmac (identity_key (idn_pattern i)) = hmac (identity_key name)"
  shows "identity_hit hmac s name \<noteq> None"
proof -
  have "find (\<lambda>i. identity_matches i name) (identity_candidates hmac s name) \<noteq> None"
    using assms by (auto simp: find_None_iff set_candidates)
  then show ?thesis by (auto simp: identity_hit_def Let_def split: option.splits)
qed

text \<open>A hit always leads to a payee, so only the last two rules create or look at names.\<close>

lemma hit_payee:
  assumes "payees_ok hmac s" and "identity_hit hmac s name = Some i"
  shows "\<exists>p. get_payee s (idn_payee_id i) = Some p"
proof -
  have "i \<in> set (identities s)" using hit_is_candidate [OF assms(2)] by (simp add: set_candidates)
  with assms(1) have "idn_payee_id i \<in> pay_id ` set (payees s)"
    by (auto simp: payees_ok_except_def)
  then show ?thesis using get_payee_None_iff by blast
qed

lemma match_hit:
  assumes "identity_hit hmac s (cleaned name) = Some i" and "get_payee s (idn_payee_id i) = Some p"
  shows "match_or_create_from_name hmac name s = Inr (p, s)"
  using assms by (simp add: match_or_create_from_name_def)

lemma match_or_create_total:
  assumes "payees_ok hmac s"
  shows "\<exists>p s'. match_or_create_from_name hmac name s = Inr (p, s')"
proof -
  let ?n = "cleaned name"
  have "length (payee_named hmac s ?n) \<le> 1"
  proof -
    have "distinct (map (\<lambda>p. exact_index hmac (pay_name p)) (payee_named hmac s ?n))"
      using assms by (simp add: payee_named_def payees_ok_except_def distinct_map_filter)
    then have "length (payee_named hmac s ?n) =
      card ((\<lambda>p. exact_index hmac (pay_name p)) ` set (payee_named hmac s ?n))"
      using distinct_card by fastforce
    also have "\<dots> \<le> card {exact_index hmac ?n}"
      by (rule card_mono) (auto simp: payee_named_def)
    finally show ?thesis by simp
  qed
  then consider "payee_named hmac s ?n = []" | p where "payee_named hmac s ?n = [p]"
    by (cases "payee_named hmac s ?n") auto
  then show ?thesis
  proof cases
    case 1
    then have "\<forall>q \<in> set (payees s). exact_index hmac (pay_name q) \<noteq> exact_index hmac ?n"
      by (auto simp: payee_named_def filter_empty_conv)
    then have "\<exists>p s'. insert_payee hmac (new_payee ?n) s = Inr (p, s')"
      by (auto simp: insert_payee_def Let_def new_payee_def insert_identity_def get_payee_None_iff)
    with 1 show ?thesis
      by (auto simp: match_or_create_from_name_def Let_def split: option.split)
  next
    case (2 p)
    then show ?thesis
      by (auto simp: match_or_create_from_name_def Let_def split: option.split)
  qed
qed

lemma match_new_state:
  assumes "insert_payee hmac (new_payee name) s = Inr (p, s')"
  shows "\<exists>i \<in> set (identities s'). idn_payee_id i = pay_id p \<and> idn_pattern i = cleaned name \<and>
      \<not> idn_case_sensitive i \<and> set (identities s') = insert i (set (identities s))"
    and "payees s' = payees s @ [p]" and "transactions s' = transactions s" and "accounts s' = accounts s"
proof -
  note ins = insert_payee_Inr [OF assms]
  from ins(2) obtain i where "insert_identity (seq_payee s) (pay_name (new_payee name)) False
      (s\<lparr>payees := payees s @ [p], seq_payee := seq_payee s + 1\<rparr>) = Inr (i, s')" by auto
  note id = insert_identity_Inr [OF this]
  show "\<exists>i \<in> set (identities s'). idn_payee_id i = pay_id p \<and> idn_pattern i = cleaned name \<and>
      \<not> idn_case_sensitive i \<and> set (identities s') = insert i (set (identities s))"
    using ins(1) id by (auto simp: new_payee_def)
  show "payees s' = payees s @ [p]" "transactions s' = transactions s" "accounts s' = accounts s"
    using id(2) by simp_all
qed

text \<open>Only the two payee tables differ.\<close>

definition payee_frame :: "db \<Rightarrow> db \<Rightarrow> bool" where
  "payee_frame s s' \<longleftrightarrow> s' = s\<lparr>payees := payees s', seq_payee := seq_payee s',
     identities := identities s', seq_identity := seq_identity s'\<rparr>"

lemma payee_frame_refl [simp]: "payee_frame s s"
  by (simp add: payee_frame_def)

lemma payee_frameD:
  assumes "payee_frame s s'"
  shows "transactions s' = transactions s" and "accounts s' = accounts s" and "seq_tx s' = seq_tx s"
    and "categories s' = categories s" and "tags s' = tags s" and "plans s' = plans s"
  by (subst assms [unfolded payee_frame_def], simp)+

lemma match_or_create_payee_frame:
  assumes "match_or_create_from_name hmac name s = Inr (p, s')"
  shows "payee_frame s s'"
  using assms
proof (cases rule: match_or_create_cases)
  case new
  from insert_payee_Inr(2) [OF new(3)] insert_identity_Inr(2)
  obtain i where "s' = s\<lparr>payees := payees s @ [p], seq_payee := seq_payee s + 1,
      identities := identities s @ [i], seq_identity := seq_identity s + 1\<rparr>" by fastforce
  then show ?thesis by (simp add: payee_frame_def)
qed simp_all

lemmas match_or_create_frame = payee_frameD [OF match_or_create_payee_frame]

lemma match_or_create_known:
  assumes "payees_ok hmac s" and "match_or_create_from_name hmac name s = Inr (p, s')"
  shows "get_payee s' (pay_id p) = Some p"
proof -
  have "p \<in> set (payees s')"
    using assms(2)
    by (cases rule: match_or_create_cases)
      (auto dest!: get_payee_Some match_new_state(2) simp: payee_named_def filter_eq_Cons_iff)
  moreover have "payees_ok hmac s'" by (rule match_or_create_ok [OF assms])
  ultimately show ?thesis
    by (auto simp: payees_ok_except_def ids_ok_def get_payee_def intro: find_row_member)
qed

lemma match_stable:
  assumes ok: "payees_ok hmac s" and m: "match_or_create_from_name hmac name s = Inr (p, s')"
  shows "match_or_create_from_name hmac name s' = Inr (p, s')"
  using m
proof (cases rule: match_or_create_cases)
  case new
  let ?n = "cleaned name"
  have no_hit: "identity_hit hmac s ?n = None"
    using new(1) hit_payee [OF ok, of ?n] by (cases "identity_hit hmac s ?n") fastforce+
  from match_new_state(1) [OF new(3)] obtain i where i: "i \<in> set (identities s')"
      "idn_payee_id i = pay_id p" "idn_pattern i = ?n"
      "set (identities s') = insert i (set (identities s))"
    by auto
  from hit_exact [OF i(1,3)] obtain j where j: "identity_hit hmac s' ?n = Some j"
      "j \<in> set (identities s')" "idn_pattern j = ?n" by auto
  have "j \<notin> set (identities s)" using hit_exact [of j s ?n hmac] j(3) no_hit by auto
  with j(2) i(4) have "j = i" by auto
  with match_hit [OF j(1)] i(2) match_or_create_known [OF ok m] show ?thesis by simp
qed (use m in simp_all)

section \<open>The resolver as an interface\<close>

text \<open>
  What the transaction service relies on when it turns a typed name into a payee: the resolver never
  fails on a good state, returns a payee that exists afterwards, answers the same when asked again,
  and leaves the ledger alone.
\<close>

locale name_resolver =
  fixes resolve :: "'n \<Rightarrow> 's \<Rightarrow> ('p \<times> 's) result"
    and known :: "'s \<Rightarrow> 'p \<Rightarrow> bool"
    and invar :: "'s \<Rightarrow> bool"
    and frame :: "'s \<Rightarrow> 'f"
  assumes resolve_total: "invar s \<Longrightarrow> \<exists>p s'. resolve n s = Inr (p, s')"
    and resolve_known: "invar s \<Longrightarrow> resolve n s = Inr (p, s') \<Longrightarrow> known s' p"
    and resolve_invar: "invar s \<Longrightarrow> resolve n s = Inr (p, s') \<Longrightarrow> invar s'"
    and resolve_again: "invar s \<Longrightarrow> resolve n s = Inr (p, s') \<Longrightarrow> resolve n s' = Inr (p, s')"
    and resolve_frame: "resolve n s = Inr (p, s') \<Longrightarrow> frame s' = frame s"
begin

lemma resolve_spec:
  assumes "invar s"
  shows "\<exists>p s'. resolve n s = Inr (p, s') \<and> known s' p \<and> invar s' \<and>
    resolve n s' = Inr (p, s') \<and> frame s' = frame s"
proof -
  from resolve_total [OF assms, of n] obtain p s' where r: "resolve n s = Inr (p, s')" by auto
  with assms show ?thesis
    using resolve_known resolve_invar resolve_again resolve_frame by meson
qed

text \<open>A batch of names, as an import resolves them one after the other.\<close>

lemma resolve_batch:
  "invar s \<Longrightarrow> \<exists>s'. efold (\<lambda>n u. ebind (resolve n u) (\<lambda>(p, v). Inr v)) ns s = Inr s' \<and>
    invar s' \<and> frame s' = frame s"
proof (induction ns arbitrary: s)
  case (Cons n ns)
  from resolve_spec [OF Cons.prems] obtain p u where
    u: "resolve n s = Inr (p, u)" "invar u" "frame u = frame s" by blast
  with Cons.IH [OF u(2)] show ?case by auto
qed simp

end

interpretation kaleta_payees: name_resolver "match_or_create_from_name hmac"
  "\<lambda>s p. get_payee s (pay_id p) = Some p" "payees_ok hmac" "\<lambda>s. (transactions s, accounts s)"
  for hmac
proof unfold_locales
  fix s name
  assume "payees_ok hmac s"
  then show "\<exists>p s'. match_or_create_from_name hmac name s = Inr (p, s')"
    by (rule match_or_create_total)
next
  fix s name p s'
  assume a: "payees_ok hmac s" "match_or_create_from_name hmac name s = Inr (p, s')"
  show "get_payee s' (pay_id p) = Some p" by (rule match_or_create_known [OF a])
  show "payees_ok hmac s'" by (rule match_or_create_ok [OF a])
  show "match_or_create_from_name hmac name s' = Inr (p, s')" by (rule match_stable [OF a])
next
  fix name s p s'
  assume "match_or_create_from_name hmac name s = Inr (p, s')"
  from match_or_create_frame [OF this]
  show "(transactions s', accounts s') = (transactions s, accounts s)" by simp
qed

section \<open>The payee service as a state machine\<close>

inductive payee_step :: "(string \<Rightarrow> string) \<Rightarrow> db \<Rightarrow> db \<Rightarrow> bool" for hmac where
  step_create: "create_payee hmac p s = Inr (r, s') \<Longrightarrow> payee_step hmac s s'"
| step_match: "match_or_create_from_name hmac name s = Inr (r, s') \<Longrightarrow> payee_step hmac s s'"
| step_update: "update_payee hmac pid u s = Inr (x, s') \<Longrightarrow> payee_step hmac s s'"
| step_delete: "payee_step hmac s (snd (delete_payee now pid s))"
| step_add: "add_identity hmac pid d s = Inr (i, s') \<Longrightarrow> payee_step hmac s s'"
| step_edit: "update_identity hmac pid iid v s = Inr (i, s') \<Longrightarrow> payee_step hmac s s'"
| step_drop: "delete_identity pid iid s = Inr s' \<Longrightarrow> payee_step hmac s s'"
| step_merge: "merge_payees hmac now keep merged new_name s = Inr (n, s') \<Longrightarrow> payee_step hmac s s'"

inductive payee_reachable :: "(string \<Rightarrow> string) \<Rightarrow> db \<Rightarrow> bool" for hmac where
  reach_start: "payees s = [] \<Longrightarrow> identities s = [] \<Longrightarrow> payee_reachable hmac s"
| reach_step: "payee_reachable hmac s \<Longrightarrow> payee_step hmac s s' \<Longrightarrow> payee_reachable hmac s'"

lemma payee_step_ok: "payee_step hmac s s' \<Longrightarrow> payees_ok hmac s \<Longrightarrow> payees_ok hmac s'"
proof (induction rule: payee_step.induct)
  case (step_add pid d s i s')
  from insert_identity_ok [OF step_add(2) add_identity_Inr(1) [OF step_add(1)]]
  show ?case by simp
qed (auto simp: create_payee_def intro: insert_payee_ok match_or_create_ok update_payee_ok
    delete_payee_ok update_identity_ok delete_identity_ok merge_payees_ok)

lemma payee_reachable_ok: "payee_reachable hmac s \<Longrightarrow> payees_ok hmac s"
proof (induction rule: payee_reachable.induct)
  case (reach_start s)
  then show ?case by (simp add: payees_ok_except_def ids_ok_def)
next
  case (reach_step s s')
  then show ?case by (blast intro: payee_step_ok)
qed



subsection \<open>One raw name leads to one payee\<close>

lemma candidates_insert:
  assumes "set (identities s') = insert i (set (identities s))"
  shows "set (identity_candidates hmac s' n) \<subseteq> insert i (set (identity_candidates hmac s n))"
  using assms by (auto simp: set_candidates)

lemma hit_only_candidate:
  assumes "set (identity_candidates hmac s name) = {i}" and "idn_pattern i = name \<or> identity_matches i name"
  shows "identity_hit hmac s name = Some i"
proof -
  have "find P (identity_candidates hmac s name) = (if P i then Some i else None)" for P
  proof (cases "find P (identity_candidates hmac s name)")
    case None
    with assms(1) show ?thesis by (auto simp: find_None_iff)
  next
    case (Some j)
    then have "j \<in> set (identity_candidates hmac s name)" "P j" by (auto simp: find_Some_iff)
    with Some assms(1) show ?thesis by auto
  qed
  with assms(2) show ?thesis by (auto simp: identity_hit_def)
qed

text \<open>
  C13. A raw name that no identity and no payee holds creates exactly one payee, which from then on
  answers to that name in every case and spacing: resolving any name with the same folded key returns
  the new payee and creates nothing more. (\<open>inj hmac\<close>: the keyed hash has no collisions.)
\<close>

theorem new_payee_answers_to_all_spellings:
  assumes "payees_ok hmac s" and "inj hmac"
    and "\<forall>i \<in> set (identities s). identity_key (idn_pattern i) \<noteq> identity_key name"
    and "\<forall>p \<in> set (payees s). pay_name p \<noteq> cleaned name"
  shows "\<exists>p s'. match_or_create_from_name hmac name s = Inr (p, s') \<and>
    payees s' = payees s @ [p] \<and> pay_name p = cleaned name \<and>
    (\<forall>n. identity_key n = identity_key name \<longrightarrow> match_or_create_from_name hmac n s' = Inr (p, s'))"
proof -
  obtain p s' where m: "match_or_create_from_name hmac name s = Inr (p, s')"
    using match_or_create_total [OF assms(1)] by blast
  have none: "identity_candidates hmac s n = []" if "identity_key n = identity_key name" for n
  proof -
    have "set (identity_candidates hmac s n) = {}"
      using assms(2,3) that by (auto simp: set_candidates dest: injD)
    then show ?thesis by simp
  qed
  have "identity_hit hmac s (cleaned name) = None"
    by (simp add: identity_hit_def none)
  moreover have "payee_named hmac s (cleaned name) = []"
    using assms(2,4) by (auto simp: payee_named_def exact_index_def filter_empty_conv dest!: injD)
  ultimately have new: "insert_payee hmac (new_payee (cleaned name)) s = Inr (p, s')"
    using m by (simp add: match_or_create_from_name_def)
  from match_new_state(1) [OF new] obtain i where i: "i \<in> set (identities s')"
      "idn_payee_id i = pay_id p" "idn_pattern i = cleaned name" "\<not> idn_case_sensitive i"
      "set (identities s') = insert i (set (identities s))"
    by auto
  have "match_or_create_from_name hmac n s' = Inr (p, s')" if n: "identity_key n = identity_key name" for n
  proof -
    have "set (identity_candidates hmac s' (cleaned n)) = {i}"
      using candidates_insert [OF i(5), of hmac "cleaned n"] none [of "cleaned n"] n i(1,3)
      by (auto simp: set_candidates)
    moreover have "identity_matches i (cleaned n)" using i(3,4) n by (simp add: identity_matches_def)
    ultimately have "identity_hit hmac s' (cleaned n) = Some i" by (intro hit_only_candidate) auto
    from match_hit [OF this] i(2) match_or_create_known [OF assms(1) m] show ?thesis by simp
  qed
  with m match_new_state(2) [OF new] insert_payee_Inr(1) [OF new] show ?thesis
    by (auto simp: new_payee_def)
qed

theorem new_payee_answers_to_all_spellings_witness:
  "\<exists>p s'. match_or_create_from_name (\<lambda>x. x) ''Lidl Poznan'' empty_db = Inr (p, s') \<and>
     match_or_create_from_name (\<lambda>x. x) '' LIDL   poznan'' s' = Inr (p, s')"
proof -
  have "identity_key '' LIDL   poznan'' = identity_key ''Lidl Poznan''" by code_simp
  then show ?thesis
    using new_payee_answers_to_all_spellings [OF payees_ok_empty, of "\<lambda>x. x" "''Lidl Poznan''"]
    by (auto simp: empty_db_def)
qed

text \<open>
  A spelling tied to a payee takes effect and disturbs nothing else: after \<open>add_identity\<close> the
  spelling resolves to that payee, whatever its whitespace, and every raw name with another folded
  key hits the same identity as before. A spelling some payee already answers to is refused.
\<close>

lemma add_identity_takes_effect:
  assumes "payees_ok hmac s" and "inj hmac" and "add_identity hmac pid d s = Inr (i, s')"
  shows "(\<forall>n. cleaned n = cleaned (ic_pattern d) \<longrightarrow>
      (\<exists>p. match_or_create_from_name hmac n s' = Inr (p, s') \<and> pay_id p = pid)) \<and>
    (\<forall>n. identity_key n \<noteq> identity_key (ic_pattern d) \<longrightarrow>
      identity_hit hmac s' (cleaned n) = identity_hit hmac s (cleaned n)) \<and>
    (\<forall>j \<in> set (identities s). identity_key (idn_pattern j) \<noteq> identity_key (ic_pattern d))"
proof (intro conjI allI impI)
  note ai = add_identity_Inr [OF assms(3)]
  note ins = insert_identity_Inr [OF ai(1)]
  show free: "\<forall>j \<in> set (identities s). identity_key (idn_pattern j) \<noteq> identity_key (ic_pattern d)"
    using ai(2) by (auto simp: identity_index_eq)
  {
    fix n assume n: "cleaned n = cleaned (ic_pattern d)"
    then have key: "identity_key n = identity_key (ic_pattern d)" by (simp add: identity_key_def)
    have "set (identity_candidates hmac s' (cleaned n)) = {i}"
      using ins free key assms(2) by (auto simp: set_candidates dest: injD)
    then have hit: "identity_hit hmac s' (cleaned n) = Some i"
      by (rule hit_only_candidate) (simp add: ins(1) n)
    have "payees_ok hmac s'" using insert_identity_ok [OF assms(1) ai(1)] by simp
    from hit_payee [OF this hit] obtain p where "get_payee s' (idn_payee_id i) = Some p" by auto
    with match_hit [OF hit this] get_payee_Some [OF this] ins(1)
    show "\<exists>p. match_or_create_from_name hmac n s' = Inr (p, s') \<and> pay_id p = pid" by auto
  next
    fix n assume n: "identity_key n \<noteq> identity_key (ic_pattern d)"
    have "identity_candidates hmac s' (cleaned n) = identity_candidates hmac s (cleaned n)"
    proof -
      have "hmac (identity_key (idn_pattern i)) \<noteq> hmac (identity_key n)"
        using n inj_eq [OF assms(2)] by (simp add: ins(1))
      moreover have "identities s' = identities s @ [i]" by (subst ins(2)) simp
      ultimately show ?thesis by (simp add: identity_candidates_def identity_index_eq)
    qed
    then show "identity_hit hmac s' (cleaned n) = identity_hit hmac s (cleaned n)"
      by (simp add: identity_hit_def)
  }
qed

definition ex_payees :: db where
  "ex_payees = empty_db\<lparr>payees := [(new_payee ''Lidl'')\<lparr>pay_id := 1\<rparr>, (new_payee ''PKO BP'')\<lparr>pay_id := 2\<rparr>],
     seq_payee := 3,
     identities := [\<lparr>idn_id = 1, idn_payee_id = 1, idn_pattern = ''Lidl'', idn_case_sensitive = False\<rparr>,
       \<lparr>idn_id = 2, idn_payee_id = 2, idn_pattern = ''PKO BP'', idn_case_sensitive = False\<rparr>],
     seq_identity := 3\<rparr>"

lemma ex_payees_ok: "payees_ok (\<lambda>x. x) ex_payees"
proof -
  have "cleaned ''Lidl'' = ''Lidl''" "cleaned ''PKO BP'' = ''PKO BP''" by code_simp+
  then show ?thesis
    by (auto simp: payees_ok_except_def ids_ok_def ex_payees_def empty_db_def new_payee_def exact_index_def)
qed

lemma add_identity_takes_effect_witness:
  "\<exists>i s' p. add_identity (\<lambda>x. x) 1 \<lparr>ic_pattern = ''LIDL SP Z O O'', ic_case_sensitive = True\<rparr> ex_payees =
     Inr (i, s') \<and> match_or_create_from_name (\<lambda>x. x) ''LIDL  SP Z O O '' s' = Inr (p, s') \<and> pay_id p = 1"
proof -
  have "identity_key ''LIDL SP Z O O'' \<noteq> identity_key ''Lidl''"
    "identity_key ''LIDL SP Z O O'' \<noteq> identity_key ''PKO BP''"
    and c: "cleaned ''LIDL  SP Z O O '' = cleaned ''LIDL SP Z O O''" by code_simp+
  then obtain i s' where a: "add_identity (\<lambda>x. x) 1
      \<lparr>ic_pattern = ''LIDL SP Z O O'', ic_case_sensitive = True\<rparr> ex_payees = Inr (i, s')"
    by (auto simp: add_identity_def check_spelling_free_def identity_index_eq insert_identity_def
        get_payee_def ex_payees_def empty_db_def new_payee_def Let_def)
  with add_identity_takes_effect [OF ex_payees_ok _ a] c show ?thesis by auto
qed

subsection \<open>What a merge keeps\<close>

lemma absorb_rows_spelling:
  "i \<in> set rows \<Longrightarrow> idn_payee_id i \<noteq> keep \<Longrightarrow>
    idn_id i \<in> set (fst (absorb_rows hmac keep held rows)) \<or>
    spelling hmac i \<in> held \<union> spelling hmac ` {j \<in> set rows.
        idn_payee_id j \<noteq> keep \<and> idn_id j \<in> set (fst (absorb_rows hmac keep held rows))}"
proof (induction hmac keep held rows rule: absorb_rows.induct)
  case (2 hmac keep held r rows)
  consider "idn_payee_id r = keep" | "idn_payee_id r \<noteq> keep" "spelling hmac r \<in> held"
    | "idn_payee_id r \<noteq> keep" "spelling hmac r \<notin> held" by blast
  then show ?case
  proof cases
    case 1
    with 2 show ?thesis by auto
  next
    case 2
    with "2.prems" "2.IH"(2) [OF 2] show ?thesis
      by (cases "i = r") (auto simp: Let_def case_prod_beta)
  next
    case 3
    with "2.prems" "2.IH"(3) [OF 3] show ?thesis
      by (cases "i = r") (auto simp: Let_def case_prod_beta)
  qed
qed simp

lemma absorb_rows_disjoint:
  "distinct (map idn_id rows) \<Longrightarrow>
    set (fst (absorb_rows hmac keep held rows)) \<inter> set (snd (absorb_rows hmac keep held rows)) = {}"
proof (induction hmac keep held rows rule: absorb_rows.induct)
  case (2 hmac keep held r rows)
  have "idn_id r \<notin> set (fst (absorb_rows hmac keep h rows)) \<union> set (snd (absorb_rows hmac keep h rows))" for h
    unfolding absorb_rows_ids using 2(4) by auto
  with 2 show ?case by (auto simp: Let_def case_prod_beta)
qed simp

lemma absorbed_spelling:
  assumes "payees_ok hmac s" and "merged \<noteq> []"
    and "absorb_identities hmac keep merged s = Inr (moved, s')"
    and "i \<in> set (identities s)" and "idn_payee_id i \<in> set (keep # merged)"
  shows "\<exists>j \<in> set (identities s'). idn_payee_id j = keep \<and> spelling hmac j = spelling hmac i"
proof -
  from assms(3,2) obtain rows dropped where
    rows: "rows = sort_key idn_id (filter (\<lambda>i. idn_payee_id i \<in> set (keep # merged)) (identities s))"
    and ab: "absorb_rows hmac keep (spelling hmac ` set (filter (\<lambda>i. idn_payee_id i = keep) rows)) rows =
      (moved, dropped)"
    and s': "s' = s\<lparr>identities := map (\<lambda>i. if idn_id i \<in> set moved then i\<lparr>idn_payee_id := keep\<rparr> else i)
              (filter (\<lambda>i. idn_id i \<notin> set dropped) (identities s))\<rparr>"
    by (rule absorb_identities_Inr)
  let ?held = "spelling hmac ` set (filter (\<lambda>i. idn_payee_id i = keep) rows)"
  have uniq: "j = k" if "j \<in> set (identities s)" "k \<in> set (identities s)" "idn_id j = idn_id k" for j k
    using that assms(1) by (auto simp: payees_ok_except_def ids_ok_def distinct_map dest: inj_onD)
  have mem: "j \<in> set rows \<longleftrightarrow> j \<in> set (identities s) \<and> idn_payee_id j \<in> set (keep # merged)" for j
    by (auto simp: rows)
  have gone: "set moved \<union> set dropped = idn_id ` set (filter (\<lambda>i. idn_payee_id i \<noteq> keep) rows)"
    using absorb_rows_ids [of hmac keep ?held rows] ab by simp
  have "distinct (map idn_id rows)"
    using assms(1) by (simp add: rows payees_ok_except_def ids_ok_def distinct_map_filter
        distinct_map inj_on_def)
  from absorb_rows_disjoint [OF this, of hmac keep ?held] ab
  have disj: "set moved \<inter> set dropped = {}" by simp
  have keeper: "\<exists>j \<in> set (identities s'). idn_payee_id j = keep \<and> spelling hmac j = spelling hmac k"
    if k: "k \<in> set rows" "idn_payee_id k = keep" for k
  proof -
    have "idn_id k \<notin> set moved \<union> set dropped"
      using k uniq mem unfolding gone by fastforce
    with k mem show ?thesis by (intro bexI [of _ k]) (auto simp: s')
  qed
  have mover: "\<exists>j \<in> set (identities s'). idn_payee_id j = keep \<and> spelling hmac j = spelling hmac k"
    if k: "k \<in> set rows" "idn_id k \<in> set moved" for k
  proof -
    have "k\<lparr>idn_payee_id := keep\<rparr> \<in> set (identities s')"
      using k disj mem by (auto simp: s' intro!: rev_image_eqI [of k])
    then show ?thesis by (intro bexI [of _ "k\<lparr>idn_payee_id := keep\<rparr>"]) (simp_all add: spelling_def)
  qed
  have i: "i \<in> set rows" using assms(4,5) mem by simp
  show ?thesis
  proof (cases "idn_payee_id i = keep")
    case True
    with keeper i show ?thesis by simp
  next
    case False
    from absorb_rows_spelling [OF i False, of hmac ?held] ab
    consider "idn_id i \<in> set moved" | "spelling hmac i \<in> ?held"
      | j where "j \<in> set rows" "idn_id j \<in> set moved" "spelling hmac i = spelling hmac j" by auto
    then show ?thesis
    proof cases
      case 1
      with mover i show ?thesis by simp
    next
      case 2
      then obtain k where "k \<in> set rows" "idn_payee_id k = keep" "spelling hmac i = spelling hmac k" by auto
      with keeper show ?thesis by simp
    next
      case 3
      with mover [of j] show ?thesis by simp
    qed
  qed
qed

lemma identities_fold_remove:
  "set (identities (fold (remove_payee now) ids s)) =
    {i \<in> set (identities s). idn_payee_id i \<notin> set ids}"
  by (induction ids arbitrary: s) (auto simp: remove_payee_def)

lemma add_name_identity_frame:
  assumes "add_name_identity hmac pid name s = Inr s'"
  shows "\<exists>new. set (identities s') = set (identities s) \<union> new \<and> (\<forall>i \<in> new. idn_payee_id i = pid)"
    and "transactions s' = transactions s" and "payees s' = payees s"
proof -
  have "s' = s \<or> (\<exists>i. insert_identity pid name False s = Inr (i, s'))"
    using assms by (auto simp: add_name_identity_def ebind_Inr_iff split: if_splits)
  then consider "s' = s" | i where "insert_identity pid name False s = Inr (i, s')" by auto
  then have "(\<exists>new. set (identities s') = set (identities s) \<union> new \<and> (\<forall>i \<in> new. idn_payee_id i = pid)) \<and>
    transactions s' = transactions s \<and> payees s' = payees s"
  proof cases
    case 1
    then show ?thesis by (intro conjI exI [of _ "{}"]) simp_all
  next
    case (2 i)
    note ins = insert_identity_Inr [OF 2]
    show ?thesis by (intro conjI exI [of _ "{i}"]) (simp_all add: ins(2), simp add: ins(1))
  qed
  then show "\<exists>new. set (identities s') = set (identities s) \<union> new \<and> (\<forall>i \<in> new. idn_payee_id i = pid)"
    and "transactions s' = transactions s" and "payees s' = payees s" by auto
qed

lemma rename_keeper_frame:
  assumes "rename_keeper hmac k name s = Inr s'"
  shows "\<exists>new. set (identities s') = set (identities s) \<union> new \<and> (\<forall>i \<in> new. idn_payee_id i = pay_id k)"
    and "transactions s' = transactions s" and "pay_id ` set (payees s') = pay_id ` set (payees s)"
proof -
  from assms obtain s1 where s1: "add_name_identity hmac (pay_id k) name s = Inr s1"
    and sv: "save_payee hmac (k\<lparr>pay_name := name\<rparr>) s1 = Inr s'"
    by (auto simp: rename_keeper_def ebind_Inr_iff)
  note s' = save_payee_Inr(1) [OF sv]
  have "identities s' = identities s1" "transactions s' = transactions s1"
    using s' by simp_all
  with add_name_identity_frame [OF s1]
  show "\<exists>new. set (identities s') = set (identities s) \<union> new \<and> (\<forall>i \<in> new. idn_payee_id i = pay_id k)"
    and "transactions s' = transactions s" by simp_all
  have "map pay_id (payees s') = map pay_id (payees s1)"
    unfolding s' using upd_row_const_key [of pay_id "k\<lparr>pay_name := name\<rparr>" "payees s1"] by simp
  then have "set (map pay_id (payees s')) = set (map pay_id (payees s1))" by simp
  with add_name_identity_frame(3) [OF s1]
  show "pay_id ` set (payees s') = pay_id ` set (payees s)" by simp
qed

lemma absorb_identities_back:
  assumes "payees_ok hmac s" and "merged \<noteq> []"
    and "absorb_identities hmac keep merged s = Inr (moved, s')" and "j \<in> set (identities s')"
  shows "\<exists>i \<in> set (identities s). idn_pattern j = idn_pattern i \<and>
    (idn_payee_id j = keep \<or> j = i)"
  using assms(3,2)
proof (rule absorb_identities_Inr)
qed (use assms(4) in \<open>auto split: if_splits\<close>)

lemma check_merge_name_keeper: "check_merge_name hmac name keep merged s = Inr k \<Longrightarrow> pay_id k = keep"
  by (auto simp: check_merge_name_def raise_if_Inr_iff split: option.splits dest: get_payee_Some)

text \<open>The transactions after a merge into a payee that is not itself merged.\<close>

definition retarget :: "int \<Rightarrow> int \<Rightarrow> int list \<Rightarrow> transaction \<Rightarrow> transaction" where
  "retarget now keep merged t =
    (if tx_payee_id t \<in> Some ` set merged
     then t\<lparr>tx_payee_id := Some keep, tx_updated_at := now\<rparr> else t)"

lemma transactions_fold_remove:
  "\<forall>t \<in> set (transactions s). tx_payee_id t \<notin> Some ` set ids \<Longrightarrow>
    transactions (fold (remove_payee now) ids s) = transactions s"
proof (induction ids arbitrary: s)
  case (Cons pid ids)
  have "transactions (remove_payee now pid s) = transactions s"
    using Cons.prems by (auto simp: remove_payee_def intro!: map_idI)
  with Cons show ?case by simp
qed simp

lemma absorb_identities_frame:
  "absorb_identities hmac keep merged s = Inr (moved, s') \<Longrightarrow>
    transactions s' = transactions s \<and> payees s' = payees s"
  by (auto simp: absorb_identities_def Let_def split: if_splits prod.splits)

lemma merge_transactions:
  assumes "merge_payees hmac now keep merged new_name s = Inr (n, s')" and "keep \<notin> set merged"
  shows "transactions s' = map (retarget now keep merged) (transactions s)"
proof (cases "merged = []")
  case True
  then have "retarget now keep merged = (\<lambda>t. t)" by (simp add: fun_eq_iff retarget_def)
  with True assms(1) show ?thesis by (simp add: merge_payees_def)
next
  case False
  with assms(1) obtain s1 moved s2 where
    st: "reassign_payees now keep merged s = Inr s1"
      "absorb_identities hmac keep merged s1 = Inr (moved, s2)"
    and last: "s' = fold (remove_payee now) merged s2 \<or>
     (\<exists>keeper name. check_merge_name hmac name keep merged s = Inr keeper \<and>
       new_name \<noteq> None \<and> name = strip (the new_name) \<and>
       rename_keeper hmac keeper name (fold (remove_payee now) merged s2) = Inr s')"
    by (rule merge_payees_Inr)
  have t1: "transactions s1 = map (retarget now keep merged) (transactions s)"
    using st(1) by (auto simp: reassign_payees_def retarget_def split: if_splits)
  then have "\<forall>t \<in> set (transactions s2). tx_payee_id t \<notin> Some ` set merged"
    using absorb_identities_frame [OF st(2)] assms(2) by (auto simp: retarget_def)
  from transactions_fold_remove [OF this, of now] absorb_identities_frame [OF st(2)] t1 last
  show ?thesis by (auto dest: rename_keeper_frame(2))
qed

lemma merge_payees_state:
  assumes "merge_payees hmac now keep merged new_name s = Inr (n, s')" and "merged \<noteq> []"
  obtains s1 moved s2 new where "reassign_payees now keep merged s = Inr s1"
    "absorb_identities hmac keep merged s1 = Inr (moved, s2)"
    "set (identities s') = {i \<in> set (identities s2). idn_payee_id i \<notin> set merged} \<union> new"
    "\<forall>i \<in> new. idn_payee_id i = keep"
    "pay_id ` set (payees s') = pay_id ` set (payees s) - set merged"
proof -
  from assms obtain s1 moved s2 where
    st: "reassign_payees now keep merged s = Inr s1"
      "absorb_identities hmac keep merged s1 = Inr (moved, s2)"
    and last: "s' = fold (remove_payee now) merged s2 \<or>
     (\<exists>keeper name. check_merge_name hmac name keep merged s = Inr keeper \<and>
       new_name \<noteq> None \<and> name = strip (the new_name) \<and>
       rename_keeper hmac keeper name (fold (remove_payee now) merged s2) = Inr s')"
    by (rule merge_payees_Inr)
  let ?s3 = "fold (remove_payee now) merged s2"
  have "\<exists>new. set (identities s') = set (identities ?s3) \<union> new \<and> (\<forall>i \<in> new. idn_payee_id i = keep)"
    using last check_merge_name_keeper rename_keeper_frame(1) by fastforce
  moreover have "pay_id ` set (payees s') = pay_id ` set (payees ?s3)"
    using last rename_keeper_frame(3) by blast
  moreover have "pay_id ` set (payees ?s3) = pay_id ` set (payees s) - set merged"
    using absorb_identities_frame [OF st(2)] reassign_payees_frame(1) [OF st(1)]
    by (auto simp: payees_fold_remove)
  ultimately show thesis
    using that [OF st] by (auto simp: identities_fold_remove)
qed

lemma hit_some:
  assumes "j \<in> set (identities s)" and "idn_pattern j = name \<or> identity_matches j name"
    and "hmac (identity_key (idn_pattern j)) = hmac (identity_key name)" and "cleaned name = name"
  shows "identity_hit hmac s name \<noteq> None"
  using assms hit_exact [of j s name hmac] hit_insensitive [of j s name hmac] by auto

lemma spelling_matches:
  assumes "spelling hmac j = spelling hmac i" and "inj hmac"
    and "idn_pattern i = name \<or> identity_matches i name" and "cleaned name = name"
  shows "(idn_pattern j = name \<or> identity_matches j name) \<and>
    identity_key (idn_pattern j) = identity_key name"
  using assms
  by (auto simp: spelling_def identity_matches_def identity_index_eq inj_eq split: if_splits)

lemma hit_matches:
  "identity_hit hmac s name = Some i \<Longrightarrow> idn_pattern i = name \<or> identity_matches i name"
  by (auto simp: identity_hit_def Let_def find_Some_iff split: option.splits)

text \<open>
  C8. A merge loses nothing: every transaction of a merged payee is the keeper's afterwards and the
  other transactions are as they were; the merged payees are gone; and a raw name that an identity of
  the keeper or of a merged payee answered to (with no other payee holding that key) resolves to the
  keeper, so the next import books it there, although spellings the keeper already had are dropped.
\<close>

theorem merge_payees_keeps_names:
  assumes "payees_ok hmac s" and "inj hmac" and "merged \<noteq> []" and "keep \<notin> set merged"
    and "merge_payees hmac now keep merged new_name s = Inr (n, s')"
    and "identity_hit hmac s (cleaned raw) = Some i"
    and "\<forall>j \<in> set (identities s). identity_key (idn_pattern j) = identity_key raw \<longrightarrow>
      idn_payee_id j \<in> set (keep # merged)"
  shows "transactions s' = map (retarget now keep merged) (transactions s) \<and>
    (\<forall>p \<in> set (payees s'). pay_id p \<notin> set merged) \<and>
    (\<exists>p. match_or_create_from_name hmac raw s' = Inr (p, s') \<and> pay_id p = keep)"
proof -
  let ?n = "cleaned raw"
  from assms(5,3) obtain s1 moved s2 new where
    st: "reassign_payees now keep merged s = Inr s1"
      "absorb_identities hmac keep merged s1 = Inr (moved, s2)"
    and grow: "set (identities s') = {i \<in> set (identities s2). idn_payee_id i \<notin> set merged} \<union> new"
      "\<forall>i \<in> new. idn_payee_id i = keep"
    and gone: "pay_id ` set (payees s') = pay_id ` set (payees s) - set merged"
    by (rule merge_payees_state)
  note fr = reassign_payees_frame [OF st(1)]
  have ok1: "payees_ok hmac s1" using assms(1) fr by (simp add: payees_ok_except_def)
  have i: "i \<in> set (identities s)" "idn_pattern i = ?n \<or> identity_matches i ?n"
      "identity_key (idn_pattern i) = identity_key raw"
    using hit_is_candidate [OF assms(6)] hit_matches [OF assms(6)] inj_eq [OF assms(2)]
    by (auto simp: set_candidates)
  with assms(7) have "idn_payee_id i \<in> set (keep # merged)" by blast
  with absorbed_spelling [OF ok1 assms(3) st(2), of i] fr(2) i(1) obtain j where
    j: "j \<in> set (identities s2)" "idn_payee_id j = keep" "spelling hmac j = spelling hmac i" by auto
  have j3: "j \<in> set (identities s')" using grow(1) j(1,2) assms(4) by auto
  have "identity_hit hmac s' ?n \<noteq> None"
    using spelling_matches [OF j(3) assms(2) i(2)] by (intro hit_some [OF j3]) auto
  then obtain k where k: "identity_hit hmac s' ?n = Some k" by auto
  then have mem: "k \<in> set (identities s')" and key: "identity_key (idn_pattern k) = identity_key raw"
    using hit_is_candidate [OF k] inj_eq [OF assms(2)] by (auto simp: set_candidates)
  have "idn_payee_id k = keep" if "k \<in> set (identities s2)" "idn_payee_id k \<notin> set merged"
    using that absorb_identities_back [OF ok1 assms(3) st(2), of k] fr(2) assms(7) key by auto
  with mem grow have kk: "idn_payee_id k = keep" by auto
  from hit_payee [OF merge_payees_ok [OF assms(1,5)] k] obtain p where
    p: "get_payee s' (idn_payee_id k) = Some p" by auto
  have "\<exists>p. match_or_create_from_name hmac raw s' = Inr (p, s') \<and> pay_id p = keep"
    using match_hit [OF k p] get_payee_Some [OF p] kk by auto
  with gone merge_transactions [OF assms(5,4)] show ?thesis by auto
qed

theorem merge_payees_keeps_names_witness:
  "\<exists>n s' p. merge_payees (\<lambda>x. x) 7 1 [2] (Some ''Lidl Polska'') ex_payees = Inr (n, s') \<and>
     match_or_create_from_name (\<lambda>x. x) ''pko  bp'' s' = Inr (p, s') \<and> pay_id p = 1"
proof -
  have "succeeds (merge_payees (\<lambda>x. x) 7 1 [2] (Some ''Lidl Polska'') ex_payees)" by code_simp
  then obtain n s' where m: "merge_payees (\<lambda>x. x) 7 1 [2] (Some ''Lidl Polska'') ex_payees = Inr (n, s')"
    by (auto elim: succeedsE)
  have h: "identity_hit (\<lambda>x. x) ex_payees (cleaned ''pko  bp'') = Some (identities ex_payees ! 1)"
    by code_simp
  have "\<forall>j \<in> set (identities ex_payees). identity_key (idn_pattern j) = identity_key ''pko  bp'' \<longrightarrow>
      idn_payee_id j \<in> set (1 # [2])" by code_simp
  from merge_payees_keeps_names [OF ex_payees_ok _ _ _ m h this] m show ?thesis by auto
qed

end
