(* ===== verification/Transactions.thy ===== *)
theory Transactions
  imports Accounts Payees
begin

text \<open>
  \<open>TransactionService\<close> (\<open>src/src/kaleta/services/transaction_service.py\<close>) with the payloads of
  \<open>schemas/transaction.py\<close>: create, bulk create, transfers as two linked legs, pairing of imported
  rows, bulk recategorisation, update with optimistic locking, delete, and the paged list.

  What the code reads from its surroundings is the record \<open>env\<close>: the database clock, the acting
  member of the household (\<open>services/attribution.py\<close> stamps new rows with it), the last editor of a
  row and the member names (\<open>AuditService\<close>, \<open>MemberNameService\<close>), and the keyed hash of the blind
  indexes. An operation that raises leaves nothing behind: its session is rolled back.
\<close>

section \<open>Definitions\<close>

record env =
  env_now :: int
  env_member :: "int option"
  env_last_changed :: "int \<Rightarrow> int option"
  env_names :: "int \<rightharpoonup> string"
  env_hmac :: "string \<Rightarrow> string"

subsection \<open>Payloads\<close>

record transaction_create =
  tc_account_id :: int
  tc_category_id :: "int option"
  tc_payee_id :: "int option"
  tc_amount :: decimal
  tc_exchange_rate :: "decimal option"
  tc_type :: transaction_type
  tc_direction :: "transfer_direction option"
  tc_date :: date
  tc_description :: string
  tc_notes :: "string option"
  tc_is_internal :: bool
  tc_is_split :: bool
  tc_linked_id :: "int option"
  tc_planned_id :: "int option"
  tc_splits :: "split_line list"
  tc_tag_ids :: "int list"
  tc_payee_name :: "string option"

text \<open>
  The fields of an update that were sent. \<open>None\<close> in the outer option is a field that was not sent;
  nullable columns can be sent as null.
\<close>

record transaction_update =
  tu_account_id :: "int option"
  tu_category_id :: "int option option"
  tu_payee_id :: "int option option"
  tu_amount :: "decimal option"
  tu_type :: "transaction_type option"
  tu_direction :: "transfer_direction option option"
  tu_date :: "date option"
  tu_description :: "string option"
  tu_notes :: "string option option"
  tu_is_internal :: "bool option"
  tu_is_split :: "bool option"
  tu_linked_id :: "int option option"
  tu_planned_id :: "int option option"
  tu_tag_ids :: "int list option"
  tu_splits :: "split_line list option"
  tu_payee_name :: "string option"
  tu_expected :: "int option"

definition normalise_notes :: "string option \<Rightarrow> string option" where
  "normalise_notes v =
    (case v of None \<Rightarrow> None | Some x \<Rightarrow> if strip x = [] then None else Some (strip x))"

definition split_total :: "split_line list \<Rightarrow> decimal" where
  "split_total ls = sum_list (map sp_amount ls)"

definition validate_rules :: "transaction_create \<Rightarrow> transaction_create result" where
  "validate_rules p =
    raise_if (tc_is_internal p \<and> tc_type p \<noteq> TRANSFER) ValueError
    (raise_if (tc_type p = TRANSFER \<and> tc_direction p = None) ValueError
    (raise_if (tc_type p \<noteq> TRANSFER \<and> tc_direction p \<noteq> None) ValueError
    (if tc_type p \<noteq> TRANSFER then
       if tc_is_split p then
         raise_if (tc_splits p = []) ValueError
         (raise_if (tc_category_id p \<noteq> None) ValueError
         (raise_if (split_total (tc_splits p) \<noteq> tc_amount p) ValueError (Inr p)))
       else raise_if (tc_category_id p = None) ValueError (Inr p)
     else Inr p)))"

subsection \<open>Creating\<close>

text \<open>\<open>Transaction(**values)\<close> as the flush stamps it: no id yet, no lines, no tags.\<close>

definition new_row :: "env \<Rightarrow> transaction_create \<Rightarrow> transaction" where
  "new_row e p = \<lparr>tx_id = 0, tx_account_id = tc_account_id p, tx_category_id = tc_category_id p,
     tx_payee_id = tc_payee_id p, tx_linked_id = tc_linked_id p, tx_planned_id = tc_planned_id p,
     tx_irregular_id = None, tx_gift_id = None, tx_amount = tc_amount p,
     tx_exchange_rate = tc_exchange_rate p, tx_type = tc_type p, tx_date = tc_date p,
     tx_description = tc_description p, tx_notes = normalise_notes (tc_notes p),
     tx_direction = tc_direction p, tx_is_internal = tc_is_internal p,
     tx_is_split = tc_is_split p, tx_user_id = env_member e, tx_updated_at = env_now e,
     tx_splits = [], tx_tags = []\<rparr>"

definition load_tags :: "db \<Rightarrow> int list \<Rightarrow> int list" where
  "load_tags s ids = (if ids = [] then [] else filter (\<lambda>g. g \<in> set ids) (map tag_id (tags s)))"

definition resolve_payee_id ::
  "env \<Rightarrow> int option \<Rightarrow> string option \<Rightarrow> db \<Rightarrow> (int option \<times> db) result" where
  "resolve_payee_id e pid name s =
    (if pid \<noteq> None \<or> name = None \<or> name = Some [] then Inr (pid, s)
     else ebind (match_or_create_from_name (env_hmac e) (the name) s)
            (\<lambda>(p, s'). Inr (Some (pay_id p), s')))"

definition payee_tag_defaults :: "db \<Rightarrow> int option \<Rightarrow> int list \<Rightarrow> int list" where
  "payee_tag_defaults s pid tag_ids =
    (case pid of
       None \<Rightarrow> tag_ids
     | Some i \<Rightarrow>
         if tag_ids \<noteq> [] then tag_ids
         else case last_used_for i s of None \<Rightarrow> tag_ids | Some lu \<Rightarrow> lu_tag_ids lu)"

definition create :: "env \<Rightarrow> transaction_create \<Rightarrow> db \<Rightarrow> (transaction \<times> db) result" where
  "create e p s =
    ebind (resolve_payee_id e (tc_payee_id p) (tc_payee_name p) s) (\<lambda>(pid, s1).
    let tag_ids = payee_tag_defaults s1 pid (tc_tag_ids p);
        row = (new_row e p)\<lparr>tx_payee_id := pid, tx_tags := load_tags s1 tag_ids,
                            tx_splits := tc_splits p\<rparr>
    in ebind (insert_tx row s1) (\<lambda>(t, s2).
       case get_tx s2 (tx_id t) of
         None \<Rightarrow> Inl (KaletaError ''not found after commit'')
       | Some fetched \<Rightarrow> Inr (fetched, s2)))"

definition create_bulk :: "env \<Rightarrow> transaction_create list \<Rightarrow> db \<Rightarrow> (nat \<times> db) result" where
  "create_bulk e ps s =
    ebind (efold (\<lambda>p u. ebind (insert_tx (new_row e p) u) (\<lambda>(t, v). Inr v)) ps s)
      (\<lambda>s'. Inr (length ps, s'))"

subsection \<open>Transfers\<close>

definition create_transfer ::
  "env \<Rightarrow> transaction_create \<Rightarrow> transaction_create \<Rightarrow> db \<Rightarrow>
    ((transaction \<times> transaction) \<times> db) result" where
  "create_transfer e outgoing incoming s =
    ebind (insert_tx ((new_row e outgoing)\<lparr>tx_direction := Some DIR_OUT\<rparr>) s) (\<lambda>(tx_out, s1).
    ebind (insert_tx ((new_row e incoming)\<lparr>tx_direction := Some DIR_IN,
                                           tx_linked_id := Some (tx_id tx_out)\<rparr>) s1) (\<lambda>(tx_in, s2).
    ebind (save_tx (env_now e) (tx_out\<lparr>tx_linked_id := Some (tx_id tx_in)\<rparr>) s2) (\<lambda>s3.
    case (get_tx s3 (tx_id tx_out), get_tx s3 (tx_id tx_in)) of
      (Some fetched_out, Some fetched_in) \<Rightarrow> Inr ((fetched_out, fetched_in), s3)
    | _ \<Rightarrow> Inl (KaletaError ''Transfer legs not found after commit''))))"

definition account_currency :: "db \<Rightarrow> transaction \<Rightarrow> string option" where
  "account_currency s t = map_option acc_currency (get_account s (tx_account_id t))"

definition leg_free :: "transaction \<Rightarrow> unit result" where
  "leg_free leg =
    raise_if (tx_linked_id leg \<noteq> None) (ConflictError ''errors.transaction.already_linked'')
    (raise_if (tx_is_split leg) (ValidationError ''errors.transaction.split_cannot_be_transfer'')
    (Inr ()))"

definition validate_transfer_pair ::
  "db \<Rightarrow> transaction \<Rightarrow> transaction \<Rightarrow> decimal \<Rightarrow> unit result" where
  "validate_transfer_pair s outgoing incoming tolerance =
    raise_if (tx_type outgoing = INCOME)
      (ValidationError ''errors.transaction.outgoing_leg_not_income'')
    (raise_if (tx_type incoming = EXPENSE)
      (ValidationError ''errors.transaction.incoming_leg_not_expense'')
    (raise_if (tx_account_id outgoing = tx_account_id incoming)
      (ValidationError ''errors.transaction.transfer_different_accounts'')
    (raise_if (account_currency s outgoing \<noteq> account_currency s incoming)
      (ValidationError ''errors.transaction.transfer_currency_mismatch'')
    (raise_if (\<bar>\<bar>tx_amount outgoing\<bar> - \<bar>tx_amount incoming\<bar>\<bar> > tolerance)
      (ValidationError ''errors.transaction.transfer_amount_mismatch'')
    (ebind (leg_free outgoing) (\<lambda>_. leg_free incoming))))))"

definition as_leg :: "transfer_direction \<Rightarrow> int \<Rightarrow> transaction \<Rightarrow> transaction" where
  "as_leg dir other leg = leg\<lparr>tx_type := TRANSFER, tx_direction := Some dir,
     tx_is_internal := True, tx_category_id := None, tx_linked_id := Some other\<rparr>"

definition pair_as_transfer ::
  "env \<Rightarrow> int \<Rightarrow> int \<Rightarrow> decimal \<Rightarrow> db \<Rightarrow> ((transaction \<times> transaction) \<times> db) result" where
  "pair_as_transfer e expense_id income_id tolerance s =
    (if expense_id = income_id
     then Inl (ValidationError ''errors.transaction.transfer_needs_two_rows'')
     else case (get_tx s expense_id, get_tx s income_id) of
       (None, _) \<Rightarrow> Inl (NotFoundError ''errors.transaction.not_found_id'')
     | (_, None) \<Rightarrow> Inl (NotFoundError ''errors.transaction.not_found_id'')
     | (Some outgoing, Some incoming) \<Rightarrow>
         ebind (validate_transfer_pair s outgoing incoming tolerance) (\<lambda>_.
         ebind (save_tx (env_now e) (as_leg DIR_OUT (tx_id incoming) outgoing) s) (\<lambda>s1.
         ebind (save_tx (env_now e) (as_leg DIR_IN (tx_id outgoing) incoming) s1) (\<lambda>s2.
         case (get_tx s2 expense_id, get_tx s2 income_id) of
           (Some fetched_out, Some fetched_in) \<Rightarrow> Inr ((fetched_out, fetched_in), s2)
         | _ \<Rightarrow> Inl (KaletaError ''Transfer legs not found after commit'')))))"

definition orient_transfer_legs ::
  "transaction \<Rightarrow> transaction \<Rightarrow> (transaction \<times> transaction) option" where
  "orient_transfer_legs a b =
    (if (tx_type a = INCOME \<and> tx_type b = INCOME) \<or> (tx_type a = EXPENSE \<and> tx_type b = EXPENSE)
     then None
     else if tx_type a = INCOME \<or> tx_type b = EXPENSE then Some (b, a)
     else if tx_type a = EXPENSE \<or> tx_type b = INCOME then Some (a, b)
     else if tx_id a < tx_id b then Some (a, b) else Some (b, a))"

definition pair_selected_as_transfer :: "env \<Rightarrow> int \<Rightarrow> int \<Rightarrow> db \<Rightarrow> db result" where
  "pair_selected_as_transfer e first_id second_id s =
    (case (get_tx s first_id, get_tx s second_id) of
       (Some a, Some b) \<Rightarrow>
         (case orient_transfer_legs a b of
            None \<Rightarrow> Inl (ValidationError ''errors.transaction.transfer_needs_both_directions'')
          | Some (outgoing, incoming) \<Rightarrow>
              ebind (pair_as_transfer e (tx_id outgoing) (tx_id incoming) 0 s) (\<lambda>(legs, s'). Inr s'))
     | _ \<Rightarrow> Inl (NotFoundError ''errors.transaction.not_found''))"

subsection \<open>Recategorising a selection\<close>

definition type_of_category :: "category_type \<Rightarrow> transaction_type" where
  "type_of_category c = (case c of CAT_INCOME \<Rightarrow> INCOME | CAT_EXPENSE \<Rightarrow> EXPENSE)"

definition check_bulk_row :: "transaction_type \<Rightarrow> transaction \<Rightarrow> unit result" where
  "check_bulk_row wanted t =
    raise_if (tx_is_split t) (ValidationError ''errors.transaction.split_category_per_line'')
    (raise_if (tx_type t \<noteq> wanted) (ValidationError ''errors.transaction.category_type_mismatch'')
    (Inr ()))"

definition set_category_bulk :: "env \<Rightarrow> int list \<Rightarrow> int \<Rightarrow> db \<Rightarrow> (nat \<times> db) result" where
  "set_category_bulk e ids category_id s =
    (if ids = [] then Inr (0, s)
     else case find_row cat_id category_id (categories s) of
       None \<Rightarrow> Inl (NotFoundError ''errors.transaction.category_not_found'')
     | Some category \<Rightarrow>
         let rows = filter (\<lambda>t. tx_id t \<in> set ids) (transactions s);
             wanted = type_of_category (cat_type category)
         in ebind (emap (check_bulk_row wanted) rows) (\<lambda>_.
            ebind (efold (\<lambda>t. save_tx (env_now e) (t\<lparr>tx_category_id := Some category_id\<rparr>)) rows s)
              (\<lambda>s'. Inr (length rows, s'))))"

subsection \<open>Updating\<close>

definition validate_split_sum :: "decimal \<Rightarrow> split_line list \<Rightarrow> unit result" where
  "validate_split_sum amount splits =
    raise_if (splits = []) (ValidationError ''errors.transaction.split_needs_at_least_one'')
    (raise_if (split_total splits \<noteq> amount) (ValidationError ''errors.transaction.split_sum_mismatch'')
    (Inr ()))"

definition changed_by :: "env \<Rightarrow> int \<Rightarrow> string option" where
  "changed_by e i =
    (case env_last_changed e i of
       None \<Rightarrow> None
     | Some user \<Rightarrow> if Some user \<noteq> env_member e then env_names e user else None)"

definition refuse_stale_write :: "env \<Rightarrow> transaction \<Rightarrow> int option \<Rightarrow> db \<Rightarrow> unit result" where
  "refuse_stale_write e t expected s =
    (case expected of
       None \<Rightarrow> Inr ()
     | Some v \<Rightarrow>
         (case map_option tx_updated_at (get_tx s (tx_id t)) of
            None \<Rightarrow> Inr ()
          | Some current \<Rightarrow>
              raise_if (current \<noteq> v) (StaleWriteError (changed_by e (tx_id t))) (Inr ())))"

definition settle_transfer_direction :: "transaction \<Rightarrow> transaction_type \<Rightarrow> transaction result" where
  "settle_transfer_direction t previous =
    (if tx_type t \<noteq> TRANSFER then Inr (t\<lparr>tx_direction := None\<rparr>)
     else if tx_direction t \<noteq> None then Inr t
     else case previous of
       INCOME \<Rightarrow> Inr (t\<lparr>tx_direction := Some DIR_IN\<rparr>)
     | EXPENSE \<Rightarrow> Inr (t\<lparr>tx_direction := Some DIR_OUT\<rparr>)
     | TRANSFER \<Rightarrow> Inl (ValidationError ''errors.transaction.transfer_leg_needs_direction''))"

definition apply_fields :: "transaction_update \<Rightarrow> transaction \<Rightarrow> transaction" where
  "apply_fields u =
    patch (tu_planned_id u) (\<lambda>v t. t\<lparr>tx_planned_id := v\<rparr>) \<circ>
    patch (tu_linked_id u) (\<lambda>v t. t\<lparr>tx_linked_id := v\<rparr>) \<circ>
    patch (tu_is_internal u) (\<lambda>v t. t\<lparr>tx_is_internal := v\<rparr>) \<circ>
    patch (tu_notes u) (\<lambda>v t. t\<lparr>tx_notes := normalise_notes v\<rparr>) \<circ>
    patch (tu_description u) (\<lambda>v t. t\<lparr>tx_description := v\<rparr>) \<circ>
    patch (tu_date u) (\<lambda>v t. t\<lparr>tx_date := v\<rparr>) \<circ>
    patch (tu_direction u) (\<lambda>v t. t\<lparr>tx_direction := v\<rparr>) \<circ>
    patch (tu_type u) (\<lambda>v t. t\<lparr>tx_type := v\<rparr>) \<circ>
    patch (tu_amount u) (\<lambda>v t. t\<lparr>tx_amount := v\<rparr>) \<circ>
    patch (tu_payee_id u) (\<lambda>v t. t\<lparr>tx_payee_id := v\<rparr>) \<circ>
    patch (tu_category_id u) (\<lambda>v t. t\<lparr>tx_category_id := v\<rparr>) \<circ>
    patch (tu_account_id u) (\<lambda>v t. t\<lparr>tx_account_id := v\<rparr>)"

definition apply_is_split :: "bool option \<Rightarrow> transaction \<Rightarrow> transaction" where
  "apply_is_split v t =
    (case v of
       None \<Rightarrow> t
     | Some True \<Rightarrow> t\<lparr>tx_is_split := True, tx_category_id := None\<rparr>
     | Some False \<Rightarrow> t\<lparr>tx_is_split := False, tx_splits := []\<rparr>)"

definition apply_splits :: "split_line list option \<Rightarrow> transaction \<Rightarrow> transaction result" where
  "apply_splits v t =
    (case v of
       None \<Rightarrow> Inr t
     | Some splits \<Rightarrow>
         ebind (validate_split_sum (tx_amount t) splits) (\<lambda>_.
           Inr (t\<lparr>tx_is_split := True, tx_category_id := None, tx_splits := splits\<rparr>)))"

text \<open>A typed payee name overrides the payee of the payload only when no payee id was sent.\<close>

definition update_payee_field ::
  "env \<Rightarrow> transaction_update \<Rightarrow> db \<Rightarrow> (transaction_update \<times> db) result" where
  "update_payee_field e u s =
    (if tu_payee_name u = None \<or> tu_payee_name u = Some [] then Inr (u, s)
     else ebind (resolve_payee_id e (Option.bind (tu_payee_id u) id) (tu_payee_name u) s)
            (\<lambda>(pid, s'). Inr (u\<lparr>tu_payee_id := Some pid\<rparr>, s')))"

definition edited_row :: "transaction_update \<Rightarrow> transaction \<Rightarrow> transaction result" where
  "edited_row u t =
    raise_if (tx_is_split t \<and> tu_amount u \<noteq> None \<and> tu_amount u \<noteq> Some (tx_amount t) \<and> tu_splits u = None)
      (ValidationError ''errors.transaction.split_amount_needs_splits'')
    (raise_if (tu_is_split u = Some False \<and> tx_is_split t \<and>
        (case tu_type u of None \<Rightarrow> tx_type t | Some ty \<Rightarrow> ty) \<noteq> TRANSFER \<and>
        (tu_category_id u = None \<or> tu_category_id u = Some None))
      (ValidationError ''errors.transaction.type_requires_category'')
    (ebind (settle_transfer_direction (apply_fields u t) (tx_type t)) (\<lambda>t1.
       apply_splits (tu_splits u) (apply_is_split (tu_is_split u) t1))))"

definition update :: "env \<Rightarrow> int \<Rightarrow> transaction_update \<Rightarrow> db \<Rightarrow> (transaction option \<times> db) result" where
  "update e i u s =
    (case get_tx s i of
       None \<Rightarrow> Inr (None, s)
     | Some t \<Rightarrow>
         ebind (refuse_stale_write e t (tu_expected u) s) (\<lambda>_.
         ebind (update_payee_field e u s) (\<lambda>(u1, s1).
         ebind (edited_row u1 t) (\<lambda>t1.
         let t2 = (case tu_tag_ids u of None \<Rightarrow> t1 | Some ids \<Rightarrow> t1\<lparr>tx_tags := load_tags s1 ids\<rparr>)
         in ebind (save_tx (env_now e) t2 s1) (\<lambda>s2. Inr (get_tx s2 i, s2))))))"

subsection \<open>Deleting\<close>

text \<open>
  The row's lines and tag links go with it; loans and repayments that point at it are unlinked
  (\<open>ON DELETE SET NULL\<close>), dismissed pairs with it deleted; a row another transaction is linked to cannot go, since
  \<open>linked_transaction_id\<close> has no such rule.
\<close>

definition delete :: "int \<Rightarrow> db \<Rightarrow> (bool \<times> db) result" where
  "delete i s =
    (case get_tx s i of
       None \<Rightarrow> Inr (False, s)
     | Some t \<Rightarrow>
         if \<exists>u \<in> set (transactions s). tx_id u \<noteq> i \<and> tx_linked_id u = Some i
         then Inl (IntegrityError ''transactions.linked_transaction_id'')
         else Inr (True, s\<lparr>transactions := del_row tx_id i (transactions s),
           loans := map (\<lambda>l. l\<lparr>pl_transaction_id := unlinked i (pl_transaction_id l)\<rparr>) (loans s),
           repayments := map (\<lambda>r. r\<lparr>rp_linked_id := unlinked i (rp_linked_id r)\<rparr>) (repayments s),
           dismissed_pairs := filter (\<lambda>d. dtp_first d \<noteq> i \<and> dtp_second d \<noteq> i) (dismissed_pairs s)\<rparr>))"

subsection \<open>Listing\<close>

record tx_filter =
  fl_account_ids :: "int list"
  fl_category_ids :: "int list"
  fl_date_from :: "date option"
  fl_date_to :: "date option"
  fl_types :: "transaction_type list"
  fl_tag_ids :: "int list"
  fl_user_ids :: "int list"

definition passes :: "'a list \<Rightarrow> bool \<Rightarrow> bool" where
  "passes wanted b \<longleftrightarrow> wanted = [] \<or> b"

definition base_stmt :: "tx_filter \<Rightarrow> transaction \<Rightarrow> bool" where
  "base_stmt f t \<longleftrightarrow>
    passes (fl_account_ids f) (tx_account_id t \<in> set (fl_account_ids f)) \<and>
    passes (fl_category_ids f) (tx_category_id t \<in> Some ` set (fl_category_ids f)) \<and>
    (case fl_date_from f of None \<Rightarrow> True | Some d \<Rightarrow> d \<le> tx_date t) \<and>
    (case fl_date_to f of None \<Rightarrow> True | Some d \<Rightarrow> tx_date t \<le> d) \<and>
    passes (fl_types f) (tx_type t \<in> set (fl_types f)) \<and>
    passes (fl_tag_ids f) (\<exists>g \<in> set (tx_tags t). g \<in> set (fl_tag_ids f)) \<and>
    passes (fl_user_ids f) (tx_user_id t \<in> Some ` set (fl_user_ids f))"

definition newest_first :: "transaction list \<Rightarrow> transaction list" where
  "newest_first ts = rev (sort_key (\<lambda>t. (tx_date t, tx_id t)) ts)"

fun contains :: "string \<Rightarrow> string \<Rightarrow> bool" where
  "contains needle [] = (needle = [])"
| "contains needle (c # cs) = (take (length needle) (c # cs) = needle \<or> contains needle cs)"

definition search_scan_limit :: nat where
  "search_scan_limit = 100000"

definition search_ids :: "db \<Rightarrow> tx_filter \<Rightarrow> string \<Rightarrow> int list" where
  "search_ids s f search =
    map tx_id (filter (\<lambda>t. contains (casefold search) (casefold (tx_description t)))
      (take search_scan_limit (newest_first (filter (base_stmt f) (transactions s)))))"

definition list_page :: "db \<Rightarrow> tx_filter \<Rightarrow> string \<Rightarrow> nat \<Rightarrow> nat \<Rightarrow> transaction list" where
  "list_page s f search limit offset =
    (let rows = newest_first (filter (base_stmt f) (transactions s))
     in if search \<noteq> [] then
          let page_ids = take limit (drop offset (search_ids s f search))
          in if page_ids = [] then [] else filter (\<lambda>t. tx_id t \<in> set page_ids) rows
        else take limit (drop offset rows))"

definition count_rows :: "db \<Rightarrow> tx_filter \<Rightarrow> string \<Rightarrow> nat" where
  "count_rows s f search =
    (if search \<noteq> [] then length (search_ids s f search)
     else length (filter (base_stmt f) (transactions s)))"

subsection \<open>Signs and nets\<close>

definition signed_amount :: "decimal \<Rightarrow> transaction_type \<Rightarrow> transfer_direction option \<Rightarrow> decimal" where
  "signed_amount amount ty dir =
    (if ty = INCOME then \<bar>amount\<bar>
     else if ty = TRANSFER \<and> dir = Some DIR_IN then \<bar>amount\<bar>
     else - \<bar>amount\<bar>)"

definition split_balance :: "decimal \<Rightarrow> decimal list \<Rightarrow> bool \<times> decimal" where
  "split_balance main splits = (let remaining = main - sum_list splits in (remaining = 0, remaining))"

section \<open>Rows and the ledger\<close>

lemma get_tx_Some: "get_tx s i = Some t \<Longrightarrow> tx_id t = i \<and> t \<in> set (transactions s)"
  by (auto simp: get_tx_def dest: find_row_Some_D)

lemma get_tx_inserted:
  assumes "books_ok s" and "insert_tx t s = Inr (row, s')"
  shows "get_tx s' (tx_id row) = Some row" and "tx_id row = seq_tx s"
proof -
  show id: "tx_id row = seq_tx s" using insert_tx_Inr(1) [OF assms(2)] by simp
  show "get_tx s' (tx_id row) = Some row"
    using get_tx_insert [OF assms(2)] assms(1) by (simp add: id books_ok_def)
qed

lemma save_tx_frame:
  assumes "save_tx now t s = Inr s'"
  shows "accounts s' = accounts s" and "categories s' = categories s" and "seq_tx s' = seq_tx s"
    and "has_account s' = has_account s"
  using save_tx_Inr(1) [OF assms] by (simp_all add: has_account_def get_account_def fun_eq_iff)

text \<open>An update that does not change what the row does to any balance.\<close>

lemma balance_save_same:
  assumes "books_ok s" and "get_tx s (tx_id t) = Some old" and "cents (tx_amount t)"
    and "tx_delta t = tx_delta old" and "save_tx now t s = Inr s'"
  shows "balance s' a None = balance s a None"
proof (cases "get_account s a")
  case None
  with save_tx_frame(1) [OF assms(5)] show ?thesis
    by (simp add: balance_missing get_account_def)
next
  case (Some acc)
  with balance_save [OF _ _ assms(2) _ assms(3,5), of a] assms(1,4) show ?thesis
    by (simp add: books_ok_def)
qed

lemma tx_delta_cong:
  assumes "tx_account_id t = tx_account_id u" and "tx_amount t = tx_amount u"
    and "tx_type t = tx_type u" and "tx_direction t = tx_direction u"
  shows "tx_delta t = tx_delta u"
  using assms by (simp add: fun_eq_iff tx_delta_def signed_ledger_amount_def)

lemma books_ok_member: "books_ok s \<Longrightarrow> get_tx s i = Some t \<Longrightarrow> cents (tx_amount t)"
  by (auto simp: books_ok_def money_ok_def dest: get_tx_Some)

lemma sum_tx_delta:
  "finite A \<Longrightarrow> tx_account_id t \<in> A \<Longrightarrow> (\<Sum>a \<in> A. tx_delta t a) = signed_ledger_amount t"
  by (simp add: tx_delta_def sum.delta)

section \<open>Transfers\<close>

text \<open>The steps of a transfer that was created.\<close>

lemma create_transfer_Inr:
  assumes "create_transfer e outgoing incoming s = Inr ((a, b), s')"
  obtains tx_out tx_in s1 s2 where
    "insert_tx ((new_row e outgoing)\<lparr>tx_direction := Some DIR_OUT\<rparr>) s = Inr (tx_out, s1)"
    "insert_tx ((new_row e incoming)\<lparr>tx_direction := Some DIR_IN,
        tx_linked_id := Some (tx_id tx_out)\<rparr>) s1 = Inr (tx_in, s2)"
    "save_tx (env_now e) (tx_out\<lparr>tx_linked_id := Some (tx_id tx_in)\<rparr>) s2 = Inr s'"
    "get_tx s' (tx_id tx_out) = Some a" "get_tx s' (tx_id tx_in) = Some b"
proof -
  from assms obtain tx_out s1 tx_in s2 s3 where
    st: "insert_tx ((new_row e outgoing)\<lparr>tx_direction := Some DIR_OUT\<rparr>) s = Inr (tx_out, s1)"
      "insert_tx ((new_row e incoming)\<lparr>tx_direction := Some DIR_IN,
        tx_linked_id := Some (tx_id tx_out)\<rparr>) s1 = Inr (tx_in, s2)"
      "save_tx (env_now e) (tx_out\<lparr>tx_linked_id := Some (tx_id tx_in)\<rparr>) s2 = Inr s3"
    and f: "(case (get_tx s3 (tx_id tx_out), get_tx s3 (tx_id tx_in)) of
        (Some fetched_out, Some fetched_in) \<Rightarrow> Inr ((fetched_out, fetched_in), s3)
      | _ \<Rightarrow> Inl (KaletaError ''Transfer legs not found after commit'')) = Inr ((a, b), s')"
    unfolding create_transfer_def by (auto simp: ebind_Inr_iff)
  from f have "s3 = s'" "get_tx s3 (tx_id tx_out) = Some a" "get_tx s3 (tx_id tx_in) = Some b"
    by (auto split: option.splits)
  with st that show thesis by blast
qed

lemma inserted_transfer:
  assumes "insert_tx t s = Inr (row, s')" and "tx_direction t \<noteq> None"
  shows "tx_type t = TRANSFER"
proof -
  from insert_tx_Inr [OF assms(1)] have "tx_check (t\<lparr>tx_id := seq_tx s\<rparr>)"
    by (simp add: tx_allowed_def)
  with assms(2) show ?thesis by (simp add: tx_check_def)
qed

lemma create_transfer_effect:
  assumes "books_ok s" and "cents (tc_amount outgoing)" and "cents (tc_amount incoming)"
    and "create_transfer e outgoing incoming s = Inr ((a, b), s')"
  shows "tx_linked_id a = Some (tx_id b) \<and> tx_linked_id b = Some (tx_id a) \<and> tx_id a \<noteq> tx_id b \<and>
    tx_direction a = Some DIR_OUT \<and> tx_direction b = Some DIR_IN \<and> books_ok s' \<and>
    (\<forall>x. has_account s x \<longrightarrow> balance s' x None = balance s x None
        - (if x = tc_account_id outgoing then tc_amount outgoing else 0)
        + (if x = tc_account_id incoming then tc_amount incoming else 0)) \<and>
    (\<forall>A. finite A \<and> (\<forall>x \<in> A. has_account s x) \<and> tc_account_id outgoing \<in> A \<and>
        tc_account_id incoming \<in> A \<and> tc_amount outgoing = tc_amount incoming \<longrightarrow>
        (\<Sum>x \<in> A. balance s' x None) = (\<Sum>x \<in> A. balance s x None))"
proof -
  from assms(4) obtain tx_out tx_in s1 s2 where
    i1: "insert_tx ((new_row e outgoing)\<lparr>tx_direction := Some DIR_OUT\<rparr>) s = Inr (tx_out, s1)"
    and i2: "insert_tx ((new_row e incoming)\<lparr>tx_direction := Some DIR_IN,
        tx_linked_id := Some (tx_id tx_out)\<rparr>) s1 = Inr (tx_in, s2)"
    and sv: "save_tx (env_now e) (tx_out\<lparr>tx_linked_id := Some (tx_id tx_in)\<rparr>) s2 = Inr s'"
    and a: "get_tx s' (tx_id tx_out) = Some a" and b: "get_tx s' (tx_id tx_in) = Some b"
    by (rule create_transfer_Inr)
  let ?o = "(new_row e outgoing)\<lparr>tx_direction := Some DIR_OUT\<rparr>"
  let ?i = "(new_row e incoming)\<lparr>tx_direction := Some DIR_IN, tx_linked_id := Some (tx_id tx_out)\<rparr>"
  have ty: "tc_type outgoing = TRANSFER" "tc_type incoming = TRANSFER"
    using inserted_transfer [OF i1] inserted_transfer [OF i2] by (simp_all add: new_row_def)
  have c: "cents (tx_amount ?o)" "cents (tx_amount ?i)" using assms(2,3) by (simp_all add: new_row_def)
  have ok1: "books_ok s1" by (rule books_ok_insert [OF assms(1) c(1) i1])
  have ok2: "books_ok s2" by (rule books_ok_insert [OF ok1 c(2) i2])
  note n1 = insert_tx_Inr [OF i1] and n2 = insert_tx_Inr [OF i2]
  have ids: "tx_id tx_out = seq_tx s" "tx_id tx_in = seq_tx s + 1"
    using n1(1,2) n2(1) by simp_all
  have g: "get_tx s2 (tx_id tx_out) = Some tx_out" "get_tx s2 (tx_id tx_in) = Some tx_in"
    using get_tx_inserted [OF assms(1) i1] get_tx_inserted [OF ok1 i2]
      get_tx_insert [OF i2, of "tx_id tx_out"] ok1 ids by (simp_all add: books_ok_def)
  have c': "cents (tx_amount (tx_out\<lparr>tx_linked_id := Some (tx_id tx_in)\<rparr>))"
    using books_ok_member [OF ok2 g(1)] by simp
  have same: "balance s' x None = balance s2 x None" for x
    by (rule balance_save_same [OF ok2 _ c' tx_delta_cong sv]) (simp_all add: g)
  have fields: "tx_linked_id a = Some (tx_id b)" "tx_linked_id b = Some (tx_id a)" "tx_id a \<noteq> tx_id b"
      "tx_direction a = Some DIR_OUT" "tx_direction b = Some DIR_IN"
    using a b get_tx_save [OF sv, of "tx_id tx_out"] get_tx_save [OF sv, of "tx_id tx_in"] g ids
    by (auto simp: n1(1) n2(1))
  have "balance s' x None = balance s x None
        - (if x = tc_account_id outgoing then tc_amount outgoing else 0)
        + (if x = tc_account_id incoming then tc_amount incoming else 0)" if "has_account s x" for x
    using kaleta_ledger.ins2_bal [OF assms(1) c that i1 i2] ty
    by (auto simp: same tx_delta_def signed_ledger_amount_def new_row_def)
  moreover have "(\<Sum>x \<in> A. balance s' x None) = (\<Sum>x \<in> A. balance s x None)"
    if "finite A" "\<forall>x \<in> A. has_account s x" "tc_account_id outgoing \<in> A" "tc_account_id incoming \<in> A"
      "tc_amount outgoing = tc_amount incoming" for A
    unfolding same
    by (rule kaleta_ledger.ins2_conserves [OF assms(1) c that(2,1) i1 i2])
      (use that ty in \<open>simp add: sum_tx_delta new_row_def signed_ledger_amount_def\<close>)
  ultimately show ?thesis using fields books_ok_save [OF ok2 c' sv] by auto
qed

lemma get_tx_kept:
  assumes "ledger_ok s" and "insert_tx t s = Inr (r, s')" and "get_tx s i = Some u"
  shows "get_tx s' i = Some u"
proof -
  have "i \<noteq> seq_tx s"
    using get_tx_Some [OF assms(3)] assms(1) by (auto simp: ledger_ok_def ids_ok_def)
  with get_tx_insert [OF assms(2,1)] assms(3) show ?thesis by simp
qed

lemma insert_tx_total:
  assumes "tx_check t" and "tx_fk s t" and "\<forall>u \<in> set (transactions s). \<not> same_occurrence u t"
  shows "\<exists>r s'. insert_tx t s = Inr (r, s')"
proof -
  have "tx_allowed s (t\<lparr>tx_id := seq_tx s\<rparr>)"
    using assms by (auto simp: tx_allowed_def tx_check_def tx_fk_def same_occurrence_def)
  then show ?thesis by (simp add: insert_tx_def Let_def)
qed

lemma fk_insert:
  "insert_tx t s = Inr (r, s') \<Longrightarrow> fk_ok tx_id (transactions s) ref \<Longrightarrow> fk_ok tx_id (transactions s') ref"
  using insert_tx_Inr(2) [of t s r s']
  by (auto simp: fk_ok_def find_row_append split: option.splits)

lemma tx_fk_insert: "insert_tx t s = Inr (r, s') \<Longrightarrow> tx_fk s u \<Longrightarrow> tx_fk s' u"
  using fk_insert [of t s r s'] insert_tx_Inr(2) [of t s r s'] by (simp add: tx_fk_def)

text \<open>
  The last step of a pair of legs: the first row is pointed at the second. It cannot fail and moves no
  balance.
\<close>

lemma link_back:
  assumes "books_ok s" and "insert_tx t s = Inr (a1, s1)" and "insert_tx u s1 = Inr (b1, s2)"
    and "cents (tx_amount t)" and "cents (tx_amount u)"
  shows "\<exists>s3. save_tx now (a1\<lparr>tx_linked_id := Some (tx_id b1)\<rparr>) s2 = Inr s3 \<and> books_ok s3 \<and>
    (\<forall>x. balance s3 x None = balance s2 x None)"
proof -
  let ?a = "a1\<lparr>tx_linked_id := Some (tx_id b1)\<rparr>"
  have ok1: "books_ok s1" by (rule books_ok_insert [OF assms(1,4,2)])
  have ok2: "books_ok s2" by (rule books_ok_insert [OF ok1 assms(5,3)])
  note n1 = insert_tx_Inr [OF assms(2)]
  have g: "get_tx s2 (tx_id a1) = Some a1" "get_tx s2 (tx_id b1) = Some b1"
    using get_tx_kept [OF _ assms(3) get_tx_inserted(1) [OF assms(1,2)]]
      get_tx_inserted(1) [OF ok1 assms(3)] ok1 by (auto simp: books_ok_def)
  have uniq: "\<not> same_occurrence v ?a" if "v \<in> set (transactions s2)" "tx_id v \<noteq> tx_id a1" for v
  proof
    assume "same_occurrence v ?a"
    then have "same_occurrence v a1" by (auto simp: same_occurrence_def)
    moreover have "a1 \<in> set (transactions s2)" using get_tx_Some [OF g(1)] by simp
    ultimately show False using ok2 that unfolding books_ok_def ledger_ok_def by blast
  qed
  have "tx_fk s2 a1" using n1(3) tx_fk_insert [OF assms(2)] tx_fk_insert [OF assms(3)]
    by (simp add: tx_allowed_def)
  then have "tx_fk s2 ?a" using g(2) by (simp add: tx_fk_def fk_ok_def get_tx_def)
  then have "tx_allowed s2 ?a" using n1(3) uniq by (auto simp: tx_allowed_def tx_check_def)
  then obtain s3 where sv: "save_tx now ?a s2 = Inr s3" by (simp add: save_tx_def)
  have c: "cents (tx_amount ?a)" using assms(4) by (simp add: n1(1))
  have "balance s3 x None = balance s2 x None" for x
    by (rule balance_save_same [OF ok2 _ c tx_delta_cong sv]) (simp_all add: g)
  with sv books_ok_save [OF ok2 c sv] show ?thesis by blast
qed

lemma create_transfer_total:
  assumes "books_ok s" and "has_account s (tc_account_id p)" and "has_account s (tc_account_id q)"
    and "tc_type p = TRANSFER" and "tc_type q = TRANSFER" and "cents (tc_amount p)" and "cents (tc_amount q)"
    and "tc_category_id p = None" and "tc_payee_id p = None" and "tc_linked_id p = None" and "tc_planned_id p = None"
    and "tc_category_id q = None" and "tc_payee_id q = None" and "tc_planned_id q = None"
  shows "\<exists>a b s'. create_transfer e p q s = Inr ((a, b), s')"
proof -
  let ?o = "(new_row e p)\<lparr>tx_direction := Some DIR_OUT\<rparr>"
  have "\<exists>r s1. insert_tx ?o s = Inr (r, s1)"
    by (rule insert_tx_total)
      (use assms in \<open>auto simp: tx_check_def tx_fk_def fk_ok_def new_row_def has_account_def get_account_def
        same_occurrence_def\<close>)
  then obtain a1 s1 where i1: "insert_tx ?o s = Inr (a1, s1)" by auto
  let ?i = "(new_row e q)\<lparr>tx_direction := Some DIR_IN, tx_linked_id := Some (tx_id a1)\<rparr>"
  have c: "cents (tx_amount ?o)" "cents (tx_amount ?i)" using assms(6,7) by (simp_all add: new_row_def)
  have ok1: "books_ok s1" by (rule books_ok_insert [OF assms(1) c(1) i1])
  have g1: "get_tx s1 (tx_id a1) = Some a1" by (rule get_tx_inserted(1) [OF assms(1) i1])
  have "\<exists>r s2. insert_tx ?i s1 = Inr (r, s2)"
    by (rule insert_tx_total)
      (use assms g1 insert_tx_Inr(2) [OF i1] in \<open>auto simp: tx_check_def tx_fk_def fk_ok_def new_row_def
        has_account_def get_account_def get_tx_def same_occurrence_def\<close>)
  then obtain b1 s2 where i2: "insert_tx ?i s1 = Inr (b1, s2)" by auto
  from link_back [OF assms(1) i1 i2 c] obtain s3 where
    sv: "save_tx (env_now e) (a1\<lparr>tx_linked_id := Some (tx_id b1)\<rparr>) s2 = Inr s3" by blast
  have "get_tx s2 (tx_id a1) = Some a1" "get_tx s2 (tx_id b1) = Some b1"
    using get_tx_kept [OF _ i2 g1] get_tx_inserted(1) [OF ok1 i2] ok1 by (auto simp: books_ok_def)
  then show ?thesis
    using i1 i2 sv get_tx_save [OF sv, of "tx_id a1"] get_tx_save [OF sv, of "tx_id b1"]
    by (auto simp: create_transfer_def)
qed

text \<open>
  C1. A transfer entered by hand books two legs that point at each other, takes the outgoing amount
  from the one account, puts the incoming amount on the other and touches no other balance; when both
  amounts are equal the total over any set of accounts that holds both is unchanged.
\<close>

theorem create_transfer_moves_money:
  assumes "books_ok s" and "cents (tc_amount outgoing)" and "cents (tc_amount incoming)"
    and "create_transfer e outgoing incoming s = Inr ((a, b), s')"
  shows "tx_linked_id a = Some (tx_id b) \<and> tx_linked_id b = Some (tx_id a) \<and> tx_id a \<noteq> tx_id b \<and>
    tx_direction a = Some DIR_OUT \<and> tx_direction b = Some DIR_IN \<and> books_ok s' \<and>
    (\<forall>x. has_account s x \<longrightarrow> balance s' x None = balance s x None
        - (if x = tc_account_id outgoing then tc_amount outgoing else 0)
        + (if x = tc_account_id incoming then tc_amount incoming else 0)) \<and>
    (\<forall>A. finite A \<and> (\<forall>x \<in> A. has_account s x) \<and> tc_account_id outgoing \<in> A \<and>
        tc_account_id incoming \<in> A \<and> tc_amount outgoing = tc_amount incoming \<longrightarrow>
        (\<Sum>x \<in> A. balance s' x None) = (\<Sum>x \<in> A. balance s x None))"
  using assms by (rule create_transfer_effect)

definition ex_env :: env where
  "ex_env = \<lparr>env_now = 100, env_member = None, env_last_changed = (\<lambda>_. None), env_names = (\<lambda>_. None),
     env_hmac = (\<lambda>x. x)\<rparr>"

definition ex_create :: "int \<Rightarrow> transaction_type \<Rightarrow> decimal \<Rightarrow> transfer_direction option \<Rightarrow> transaction_create" where
  "ex_create a ty amount dir = \<lparr>tc_account_id = a, tc_category_id = None, tc_payee_id = None,
     tc_amount = amount, tc_exchange_rate = None, tc_type = ty, tc_direction = dir,
     tc_date = Date 2026 2 1, tc_description = ''own'', tc_notes = None, tc_is_internal = (ty = TRANSFER),
     tc_is_split = False, tc_linked_id = None, tc_planned_id = None, tc_splits = [], tc_tag_ids = [],
     tc_payee_name = None\<rparr>"

theorem create_transfer_moves_money_witness:
  "\<exists>a b s'. create_transfer ex_env (ex_create 1 TRANSFER 30 (Some DIR_OUT))
       (ex_create 2 TRANSFER 30 (Some DIR_IN)) ex_db = Inr ((a, b), s') \<and>
     balance s' 1 None + balance s' 2 None = balance ex_db 1 None + balance ex_db 2 None \<and>
     balance s' 1 None = balance ex_db 1 None - 30"
proof -
  let ?o = "ex_create 1 TRANSFER 30 (Some DIR_OUT)" and ?i = "ex_create 2 TRANSFER 30 (Some DIR_IN)"
  have "succeeds (create_transfer ex_env ?o ?i ex_db)" by code_simp
  then obtain a b s' where r: "create_transfer ex_env ?o ?i ex_db = Inr ((a, b), s')"
    by (auto elim: succeedsE)
  have acc: "has_account ex_db 1" "has_account ex_db 2"
    by (simp_all add: has_account_def get_account_def ex_defs)
  note main = create_transfer_moves_money [OF ex_db_ok(3) _ _ r]
  have "(\<Sum>x \<in> {1, 2}. balance s' x None) = (\<Sum>x \<in> {1, 2}. balance ex_db x None)"
    using main acc by (auto simp: ex_create_def simp del: sum.insert)
  with main acc r show ?thesis by (auto simp: ex_create_def)
qed

subsection \<open>Pairing two existing rows\<close>

lemma pair_as_transfer_Inr:
  assumes "pair_as_transfer e x y tol s = Inr ((a, b), s')"
  obtains outgoing incoming s1 where "x \<noteq> y" "get_tx s x = Some outgoing" "get_tx s y = Some incoming"
    "validate_transfer_pair s outgoing incoming tol = Inr ()"
    "save_tx (env_now e) (as_leg DIR_OUT y outgoing) s = Inr s1"
    "save_tx (env_now e) (as_leg DIR_IN x incoming) s1 = Inr s'"
    "get_tx s' x = Some a" "get_tx s' y = Some b"
proof -
  have ne: "x \<noteq> y" using assms by (auto simp: pair_as_transfer_def)
  then obtain outgoing incoming where g: "get_tx s x = Some outgoing" "get_tx s y = Some incoming"
    using assms by (auto simp: pair_as_transfer_def split: option.splits)
  note ids = get_tx_Some [OF g(1)] get_tx_Some [OF g(2)]
  from assms ne g ids obtain s1 s2 where st:
    "validate_transfer_pair s outgoing incoming tol = Inr ()"
    "save_tx (env_now e) (as_leg DIR_OUT y outgoing) s = Inr s1"
    "save_tx (env_now e) (as_leg DIR_IN x incoming) s1 = Inr s2"
    and f: "(case (get_tx s2 x, get_tx s2 y) of
           (Some fetched_out, Some fetched_in) \<Rightarrow> Inr ((fetched_out, fetched_in), s2)
         | _ \<Rightarrow> Inl (KaletaError ''Transfer legs not found after commit'')) = Inr ((a, b), s')"
    unfolding pair_as_transfer_def by (auto simp: ebind_Inr_iff)
  from f have "s2 = s'" "get_tx s2 x = Some a" "get_tx s2 y = Some b"
    by (auto split: option.splits)
  with that [OF ne g st(1,2)] st(3) show thesis by simp
qed

lemma as_leg_simps [simp]:
  "tx_id (as_leg d i t) = tx_id t" "tx_amount (as_leg d i t) = tx_amount t"
  "tx_account_id (as_leg d i t) = tx_account_id t" "tx_type (as_leg d i t) = TRANSFER"
  "tx_direction (as_leg d i t) = Some d" "tx_linked_id (as_leg d i t) = Some i"
  "tx_category_id (as_leg d i t) = None" "tx_date (as_leg d i t) = tx_date t"
  "tx_is_internal (as_leg d i t) = True"
  by (simp_all add: as_leg_def)

text \<open>The way a row's money already went, when it has one.\<close>

definition went :: "transaction \<Rightarrow> transfer_direction option" where
  "went t = (case tx_type t of INCOME \<Rightarrow> Some DIR_IN | EXPENSE \<Rightarrow> Some DIR_OUT | TRANSFER \<Rightarrow> tx_direction t)"

lemma as_leg_delta: "went t = Some d \<Longrightarrow> tx_delta (as_leg d i t) = tx_delta t"
  by (auto simp: fun_eq_iff tx_delta_def signed_ledger_amount_def went_def
      split: transaction_type.splits)


definition ex_pair_db :: db where
  "ex_pair_db = ex_db\<lparr>transactions := [ex_tx 1 1 EXPENSE 12 (Date 2026 1 31),
     ex_tx 2 2 INCOME 12 (Date 2026 2 1)], seq_tx := 3\<rparr>"

lemma ex_pair_db_ok: "books_ok ex_pair_db"
  by (simp add: books_ok_def money_ok_def ledger_ok_def ids_ok_def tx_check_def
      same_occurrence_def ex_pair_db_def ex_defs cents_half)


text \<open>
  Two rows that are already transfer legs: \<open>orient_transfer_legs\<close> takes the lower id as the outgoing
  leg although the rows carry a direction. Pairing an incoming leg with a later outgoing one turns
  both around and moves both balances.
\<close>

definition ex_legs_db :: db where
  "ex_legs_db = ex_db\<lparr>transactions := [(ex_tx 1 1 TRANSFER 12 (Date 2026 1 31))\<lparr>tx_direction := Some DIR_IN\<rparr>,
     (ex_tx 2 2 TRANSFER 12 (Date 2026 1 31))\<lparr>tx_direction := Some DIR_OUT\<rparr>], seq_tx := 3\<rparr>"

lemma pair_selected_flips_directed_legs:
  "\<exists>s'. pair_selected_as_transfer ex_env 1 2 ex_legs_db = Inr s' \<and>
     balance ex_legs_db 1 None = 112 \<and> balance s' 1 None = 88"
proof -
  have "succeeds (pair_selected_as_transfer ex_env 1 2 ex_legs_db)" by code_simp
  then obtain s' where r: "pair_selected_as_transfer ex_env 1 2 ex_legs_db = Inr s'"
    by (auto elim: succeedsE)
  have "balance ex_legs_db 1 None = 112" by code_simp
  moreover have "(case pair_selected_as_transfer ex_env 1 2 ex_legs_db of
      Inl _ \<Rightarrow> False | Inr s' \<Rightarrow> balance s' 1 None = 88)" by code_simp
  ultimately show ?thesis using r by simp
qed

lemma orient_sym: "tx_id a \<noteq> tx_id b \<or> a = b \<Longrightarrow> orient_transfer_legs a b = orient_transfer_legs b a"
  by (cases "tx_type a"; cases "tx_type b") (auto simp: orient_transfer_legs_def)

text \<open>
  Marking two selected ledger rows as a transfer does not depend on the order in which they were
  picked; for an expense and an income the expense is the leg the money left.
\<close>

lemma pair_selected_order_irrelevant:
  "pair_selected_as_transfer e i j s = pair_selected_as_transfer e j i s \<and>
   (\<forall>a b. get_tx s i = Some a \<and> get_tx s j = Some b \<and> tx_type a = EXPENSE \<and> tx_type b = INCOME \<longrightarrow>
      pair_selected_as_transfer e i j s = ebind (pair_as_transfer e i j 0 s) (\<lambda>(legs, s'). Inr s'))"
proof -
  have "pair_selected_as_transfer e i j s = pair_selected_as_transfer e j i s"
  proof (cases "get_tx s i = None \<or> get_tx s j = None")
    case True
    then show ?thesis by (auto simp: pair_selected_as_transfer_def split: option.split)
  next
    case False
    then obtain a b where g: "get_tx s i = Some a" "get_tx s j = Some b" by auto
    have "orient_transfer_legs a b = orient_transfer_legs b a"
    proof (rule orient_sym, cases "i = j")
      case True
      with g show "tx_id a \<noteq> tx_id b \<or> a = b" by simp
    next
      case False
      then show "tx_id a \<noteq> tx_id b \<or> a = b"
        using get_tx_Some [OF g(1)] get_tx_Some [OF g(2)] by blast
    qed
    with g show ?thesis by (simp add: pair_selected_as_transfer_def)
  qed
  moreover have "pair_selected_as_transfer e i j s =
      ebind (pair_as_transfer e i j 0 s) (\<lambda>(legs, s'). Inr s')"
    if "get_tx s i = Some a" "get_tx s j = Some b" "tx_type a = EXPENSE" "tx_type b = INCOME" for a b
    using that get_tx_Some [OF that(1)] get_tx_Some [OF that(2)]
    by (simp add: pair_selected_as_transfer_def orient_transfer_legs_def)
  ultimately show ?thesis by blast
qed

lemma pair_selected_order_irrelevant_witness:
  "pair_selected_as_transfer ex_env 2 1 ex_pair_db =
    ebind (pair_as_transfer ex_env 1 2 0 ex_pair_db) (\<lambda>(legs, s'). Inr s')"
proof -
  have g: "get_tx ex_pair_db 1 = Some (ex_tx 1 1 EXPENSE 12 (Date 2026 1 31))"
    "get_tx ex_pair_db 2 = Some (ex_tx 2 2 INCOME 12 (Date 2026 2 1))"
    by (simp_all add: get_tx_def ex_pair_db_def ex_tx_def)
  note main = pair_selected_order_irrelevant [of ex_env 1 2 ex_pair_db]
  have "pair_selected_as_transfer ex_env 1 2 ex_pair_db =
      ebind (pair_as_transfer ex_env 1 2 0 ex_pair_db) (\<lambda>(legs, s'). Inr s')"
    by (rule conjunct2 [OF main, rule_format, of "ex_tx 1 1 EXPENSE 12 (Date 2026 1 31)"
          "ex_tx 2 2 INCOME 12 (Date 2026 2 1)"]) (simp only: g, simp add: ex_tx_def)
  with conjunct1 [OF main] show ?thesis by simp
qed

section \<open>Updates\<close>

lemma patch_keeps:
  "(\<And>x r. tx_id (upd x r) = tx_id r) \<Longrightarrow> tx_id (patch v upd t) = tx_id t"
  "(\<And>x r. tx_is_split (upd x r) = tx_is_split r) \<Longrightarrow> tx_is_split (patch v upd t) = tx_is_split t"
  "(\<And>x r. tx_splits (upd x r) = tx_splits r) \<Longrightarrow> tx_splits (patch v upd t) = tx_splits t"
  "(\<And>x r. tx_tags (upd x r) = tx_tags r) \<Longrightarrow> tx_tags (patch v upd t) = tx_tags t"
  "(\<And>x r. tx_updated_at (upd x r) = tx_updated_at r) \<Longrightarrow> tx_updated_at (patch v upd t) = tx_updated_at t"
  "(\<And>x r. tx_amount (upd x r) = tx_amount r) \<Longrightarrow> tx_amount (patch v upd t) = tx_amount t"
  "(\<And>x r. tx_type (upd x r) = tx_type r) \<Longrightarrow> tx_type (patch v upd t) = tx_type t"
  "(\<And>x r. tx_account_id (upd x r) = tx_account_id r) \<Longrightarrow> tx_account_id (patch v upd t) = tx_account_id t"
  "(\<And>x r. tx_direction (upd x r) = tx_direction r) \<Longrightarrow> tx_direction (patch v upd t) = tx_direction t"
  by (simp_all add: patch_def split: option.split)

lemma patch_sets:
  "tx_amount (patch va (\<lambda>x r. r\<lparr>tx_amount := x\<rparr>) t) = (case va of None \<Rightarrow> tx_amount t | Some x \<Rightarrow> x)"
  "tx_type (patch vt (\<lambda>x r. r\<lparr>tx_type := x\<rparr>) t) = (case vt of None \<Rightarrow> tx_type t | Some x \<Rightarrow> x)"
  "tx_account_id (patch vi (\<lambda>x r. r\<lparr>tx_account_id := x\<rparr>) t) = (case vi of None \<Rightarrow> tx_account_id t | Some x \<Rightarrow> x)"
  "tx_direction (patch vd (\<lambda>x r. r\<lparr>tx_direction := x\<rparr>) t) = (case vd of None \<Rightarrow> tx_direction t | Some x \<Rightarrow> x)"
  by (simp_all add: patch_def split: option.split)

lemma apply_fields_simps [simp]:
  "tx_id (apply_fields u t) = tx_id t"
  "tx_is_split (apply_fields u t) = tx_is_split t"
  "tx_splits (apply_fields u t) = tx_splits t"
  "tx_tags (apply_fields u t) = tx_tags t"
  "tx_updated_at (apply_fields u t) = tx_updated_at t"
  "tx_amount (apply_fields u t) = (case tu_amount u of None \<Rightarrow> tx_amount t | Some v \<Rightarrow> v)"
  "tx_type (apply_fields u t) = (case tu_type u of None \<Rightarrow> tx_type t | Some v \<Rightarrow> v)"
  "tx_account_id (apply_fields u t) = (case tu_account_id u of None \<Rightarrow> tx_account_id t | Some v \<Rightarrow> v)"
  "tx_direction (apply_fields u t) = (case tu_direction u of None \<Rightarrow> tx_direction t | Some v \<Rightarrow> v)"
  by (simp_all add: apply_fields_def patch_keeps patch_sets cong: option.case_cong)

lemma settle_Inr:
  assumes "settle_transfer_direction t ty = Inr t1"
  shows "t1 = t\<lparr>tx_direction := tx_direction t1\<rparr>" and "tx_check t1"
  using assms
  by (auto simp: settle_transfer_direction_def tx_check_def split: if_splits transaction_type.splits)

lemma apply_is_split_simps [simp]:
  "tx_id (apply_is_split v t) = tx_id t" "tx_amount (apply_is_split v t) = tx_amount t"
  "tx_type (apply_is_split v t) = tx_type t" "tx_direction (apply_is_split v t) = tx_direction t"
  "tx_account_id (apply_is_split v t) = tx_account_id t"
  by (simp_all add: apply_is_split_def split: option.split bool.split)

text \<open>What \<open>edited_row\<close> keeps of the row it edits.\<close>

lemma edited_row_Inr:
  assumes "edited_row u t = Inr t1"
  obtains t0 where "settle_transfer_direction (apply_fields u t) (tx_type t) = Inr t0"
    "apply_splits (tu_splits u) (apply_is_split (tu_is_split u) t0) = Inr t1"
    "tx_id t1 = tx_id t" "tx_amount t1 = tx_amount (apply_fields u t)"
    "tx_account_id t1 = tx_account_id (apply_fields u t)"
    "tx_type t1 = tx_type (apply_fields u t)" "tx_direction t1 = tx_direction t0" "tx_check t1"
    "\<not> (tx_is_split t \<and> tx_amount t1 \<noteq> tx_amount t \<and> tu_splits u = None)"
proof -
  from assms obtain t0 where t0: "settle_transfer_direction (apply_fields u t) (tx_type t) = Inr t0"
    and t1: "apply_splits (tu_splits u) (apply_is_split (tu_is_split u) t0) = Inr t1"
    and amt: "\<not> (tx_is_split t \<and> tu_amount u \<noteq> None \<and> tu_amount u \<noteq> Some (tx_amount t) \<and> tu_splits u = None)"
    by (auto simp: edited_row_def raise_if_Inr_iff ebind_Inr_iff)
  note st = settle_Inr [OF t0]
  have same: "tx_id t1 = tx_id t0" "tx_amount t1 = tx_amount t0" "tx_account_id t1 = tx_account_id t0"
    "tx_type t1 = tx_type t0" "tx_direction t1 = tx_direction t0"
    using t1 by (auto simp: apply_splits_def ebind_Inr_iff split: option.splits)
  have f: "tx_id t0 = tx_id t" "tx_amount t0 = tx_amount (apply_fields u t)"
    "tx_account_id t0 = tx_account_id (apply_fields u t)" "tx_type t0 = tx_type (apply_fields u t)"
    by (subst st(1), simp)+
  show thesis
    by (rule that [OF t0 t1])
      (use same f st(2) amt in \<open>auto simp: tx_check_def split: option.splits\<close>)
qed

lemma update_payee_field_Inr:
  assumes "update_payee_field e u s = Inr (u1, s1)"
  shows "\<exists>v. u1 = u\<lparr>tu_payee_id := v\<rparr>" and "payee_frame s s1"
proof -
  have "(\<exists>v. u1 = u\<lparr>tu_payee_id := v\<rparr>) \<and> payee_frame s s1"
  proof (cases "tu_payee_name u = None \<or> tu_payee_name u = Some []")
    case True
    with assms show ?thesis by (auto simp: update_payee_field_def intro!: exI [of _ "tu_payee_id u"])
  next
    case False
    with assms obtain pid where r: "resolve_payee_id e (Option.bind (tu_payee_id u) id) (tu_payee_name u) s = Inr (pid, s1)"
      and u1: "u1 = u\<lparr>tu_payee_id := Some pid\<rparr>"
      by (auto simp: update_payee_field_def ebind_Inr_iff)
    then show ?thesis
      by (auto simp: resolve_payee_id_def ebind_Inr_iff match_or_create_payee_frame split: if_splits)
  qed
  then show "\<exists>v. u1 = u\<lparr>tu_payee_id := v\<rparr>" and "payee_frame s s1" by auto
qed

lemma apply_fields_payee: "tx_type (apply_fields (u\<lparr>tu_payee_id := v\<rparr>) t) = tx_type (apply_fields u t)"
  "tx_amount (apply_fields (u\<lparr>tu_payee_id := v\<rparr>) t) = tx_amount (apply_fields u t)"
  by simp_all

text \<open>The steps of an update that found its row and went through.\<close>

lemma update_Inr:
  assumes "update e i u s = Inr (r, s')" and "get_tx s i = Some t"
  obtains v s1 t1 t2 where "refuse_stale_write e t (tu_expected u) s = Inr ()"
    "payee_frame s s1"
    "edited_row (u\<lparr>tu_payee_id := v\<rparr>) t = Inr t1"
    "t2 = (case tu_tag_ids u of None \<Rightarrow> t1 | Some ids \<Rightarrow> t1\<lparr>tx_tags := load_tags s1 ids\<rparr>)"
    "save_tx (env_now e) t2 s1 = Inr s'" "r = Some (touch (env_now e) t t2)"
proof -
  from assms obtain u1 s1 t1 where st: "refuse_stale_write e t (tu_expected u) s = Inr ()"
    "update_payee_field e u s = Inr (u1, s1)" "edited_row u1 t = Inr t1"
    "save_tx (env_now e) (case tu_tag_ids u of None \<Rightarrow> t1 | Some ids \<Rightarrow> t1\<lparr>tx_tags := load_tags s1 ids\<rparr>) s1 = Inr s'"
    "r = get_tx s' i"
    by (auto simp: update_def Let_def ebind_Inr_iff)
  define t2 where "t2 = (case tu_tag_ids u of None \<Rightarrow> t1 | Some ids \<Rightarrow> t1\<lparr>tx_tags := load_tags s1 ids\<rparr>)"
  note uf = update_payee_field_Inr [OF st(2)]
  from uf(1) obtain v where u1: "u1 = u\<lparr>tu_payee_id := v\<rparr>" by auto
  from st(3) have "tx_id t1 = tx_id t" by (rule edited_row_Inr)
  then have id: "tx_id t2 = i" using get_tx_Some [OF assms(2)] by (simp add: t2_def split: option.split)
  have "get_tx s1 i = Some t" using assms(2) payee_frameD(1) [OF uf(2)] by (simp add: get_tx_def)
  with get_tx_save [OF st(4) [folded t2_def], of i] id st(5)
  have "r = Some (touch (env_now e) t t2)" by simp
  with that [OF st(1) uf(2) _ t2_def st(4) [folded t2_def]] st(3) u1 show thesis by simp
qed

definition split_ok :: "transaction \<Rightarrow> bool" where
  "split_ok t \<longleftrightarrow> (tx_is_split t \<longrightarrow> tx_splits t \<noteq> [] \<and> split_total (tx_splits t) = tx_amount t)"

lemma edited_row_split_ok:
  assumes "edited_row u t = Inr t1" and "split_ok t"
    and "tu_is_split u = Some True \<longrightarrow> tu_splits u \<noteq> None \<or> tx_is_split t"
  shows "split_ok t1"
proof (cases "tu_splits u")
  case (Some ls)
  from assms(1) obtain t0 where
    "apply_splits (tu_splits u) (apply_is_split (tu_is_split u) t0) = Inr t1"
    by (rule edited_row_Inr)
  with Some show ?thesis
    by (auto simp: apply_splits_def validate_split_sum_def ebind_Inr_iff raise_if_Inr_iff split_ok_def)
next
  case None
  from assms(1) obtain t0 where t0: "settle_transfer_direction (apply_fields u t) (tx_type t) = Inr t0"
    and t1: "apply_splits (tu_splits u) (apply_is_split (tu_is_split u) t0) = Inr t1"
    and amt: "\<not> (tx_is_split t \<and> tx_amount t1 \<noteq> tx_amount t \<and> tu_splits u = None)"
    by (rule edited_row_Inr)
  have "tx_is_split t0 = tx_is_split t" "tx_splits t0 = tx_splits t"
    by (subst settle_Inr(1) [OF t0], simp)+
  with None t1 amt assms(2,3) show ?thesis
    by (auto simp: apply_splits_def apply_is_split_def split_ok_def split: option.splits bool.splits)
qed

text \<open>
  An update never breaks a row: whatever fields are sent, the row that comes back satisfies the
  database's check on the transfer direction, and a split row still has lines that sum to its amount,
  unless the payload turns an unsplit row into a split one without sending its lines.
\<close>

lemma update_keeps_split_sum:
  assumes "get_tx s i = Some t" and "split_ok t"
    and "tu_is_split u = Some True \<longrightarrow> tu_splits u \<noteq> None \<or> tx_is_split t"
    and "update e i u s = Inr (r, s')"
  shows "\<exists>t'. r = Some t' \<and> tx_id t' = i \<and> tx_check t' \<and> split_ok t'"
proof -
  from assms(4,1) obtain v s1 t1 t2 where er: "edited_row (u\<lparr>tu_payee_id := v\<rparr>) t = Inr t1"
    and t2: "t2 = (case tu_tag_ids u of None \<Rightarrow> t1 | Some ids \<Rightarrow> t1\<lparr>tx_tags := load_tags s1 ids\<rparr>)"
    and r: "r = Some (touch (env_now e) t t2)"
    by (rule update_Inr)
  have "split_ok t1" by (rule edited_row_split_ok [OF er assms(2)]) (use assms(3) in simp)
  moreover from er have "tx_check t1" "tx_id t1 = tx_id t" by (rule edited_row_Inr, simp)+
  ultimately show ?thesis
    using get_tx_Some [OF assms(1)]
    by (auto simp: r t2 split_ok_def tx_check_def split: option.splits)
qed

definition no_update :: transaction_update where
  "no_update = \<lparr>tu_account_id = None, tu_category_id = None, tu_payee_id = None, tu_amount = None,
     tu_type = None, tu_direction = None, tu_date = None, tu_description = None, tu_notes = None,
     tu_is_internal = None, tu_is_split = None, tu_linked_id = None, tu_planned_id = None,
     tu_tag_ids = None, tu_splits = None, tu_payee_name = None, tu_expected = None\<rparr>"

definition ex_lines :: "split_line list" where
  "ex_lines = [\<lparr>sp_category_id = None, sp_amount = 5, sp_note = []\<rparr>,
     \<lparr>sp_category_id = None, sp_amount = 7, sp_note = []\<rparr>]"

lemma update_keeps_split_sum_witness:
  "\<exists>t' s'. update ex_env 1 (no_update\<lparr>tu_splits := Some ex_lines\<rparr>) ex_db = Inr (Some t', s') \<and> split_ok t'"
proof -
  let ?u = "no_update\<lparr>tu_splits := Some ex_lines\<rparr>"
  have "succeeds (update ex_env 1 ?u ex_db)" by code_simp
  then obtain r s' where u: "update ex_env 1 ?u ex_db = Inr (r, s')" by (auto elim: succeedsE)
  have "get_tx ex_db 1 = Some (ex_tx 1 1 EXPENSE 12 (Date 2026 1 31))"
    by (simp add: get_tx_def ex_defs)
  from update_keeps_split_sum [OF this _ _ u] u show ?thesis
    by (auto simp: split_ok_def ex_tx_def no_update_def)
qed

text \<open>The exception is real: \<open>is_split\<close> alone leaves a split row without lines.\<close>

lemma update_is_split_without_lines:
  "\<exists>t' s'. update ex_env 1 (no_update\<lparr>tu_is_split := Some True\<rparr>) ex_db = Inr (Some t', s') \<and>
     tx_is_split t' \<and> tx_splits t' = [] \<and> tx_amount t' = 12"
proof -
  have "(case update ex_env 1 (no_update\<lparr>tu_is_split := Some True\<rparr>) ex_db of
      Inr (Some t', s') \<Rightarrow> tx_is_split t' \<and> tx_splits t' = [] \<and> tx_amount t' = 12 | _ \<Rightarrow> False)"
    by code_simp
  then show ?thesis by (auto split: sum.splits option.splits)
qed

lemma books_ok_payee_frame:
  assumes "books_ok s" and "payee_frame s s'"
  shows "books_ok s'"
  using assms(1) payee_frameD [OF assms(2)]
  by (simp add: books_ok_def ledger_ok_def money_ok_def)

lemma edited_row_frame:
  assumes "edited_row u t = Inr t1"
  shows "tx_id t1 = tx_id t" and "tx_check t1"
    and "tx_amount t1 = (case tu_amount u of None \<Rightarrow> tx_amount t | Some v \<Rightarrow> v)"
    and "tx_account_id t1 = (case tu_account_id u of None \<Rightarrow> tx_account_id t | Some v \<Rightarrow> v)"
    and "tx_type t1 = (case tu_type u of None \<Rightarrow> tx_type t | Some v \<Rightarrow> v)"
  using assms by (auto elim!: edited_row_Inr)

lemma edited_row_retyped:
  assumes "edited_row u t = Inr t1" and "tx_type t \<noteq> TRANSFER" and "tu_type u = Some TRANSFER"
    and "tu_direction u = None" and "tx_direction t = None"
  shows "tx_direction t1 = went t"
proof -
  from assms(1) obtain t0 where t0: "settle_transfer_direction (apply_fields u t) (tx_type t) = Inr t0"
    and d: "tx_direction t1 = tx_direction t0"
    by (rule edited_row_Inr)
  from t0 assms(2-5) have "tx_direction t0 = went t"
    by (auto simp: settle_transfer_direction_def went_def split: transaction_type.splits)
  with d show ?thesis by simp
qed

text \<open>
  Editing an income or an expense into a transfer without saying which way moves no balance: the
  leg gets the direction its money already went, "so the balance does not move just because the type
  changed". (The amount and the account are not edited in the same payload.)
\<close>

lemma retyping_keeps_balances:
  assumes "books_ok s" and "get_tx s i = Some t" and "tx_type t \<noteq> TRANSFER"
    and "tu_type u = Some TRANSFER" and "tu_direction u = None"
    and "tu_amount u = None" and "tu_account_id u = None"
    and "update e i u s = Inr (r, s')"
  shows "(\<forall>a. balance s' a None = balance s a None) \<and> books_ok s' \<and>
    (\<exists>t'. r = Some t' \<and> tx_type t' = TRANSFER \<and> tx_direction t' = went t)"
proof -
  from assms(8,2) obtain v s1 t1 t2 where fr: "payee_frame s s1"
    and er: "edited_row (u\<lparr>tu_payee_id := v\<rparr>) t = Inr t1"
    and t2: "t2 = (case tu_tag_ids u of None \<Rightarrow> t1 | Some ids \<Rightarrow> t1\<lparr>tx_tags := load_tags s1 ids\<rparr>)"
    and sv: "save_tx (env_now e) t2 s1 = Inr s'" and r: "r = Some (touch (env_now e) t t2)"
    by (rule update_Inr)
  have d: "tx_direction t = None"
    using assms(1-3) by (auto simp: books_ok_def ledger_ok_def tx_check_def dest: get_tx_Some)
  note ef = edited_row_frame [OF er]
  have dir: "tx_direction t1 = went t" by (rule edited_row_retyped [OF er]) (use assms d in simp_all)
  have f: "tx_id t2 = i" "tx_amount t2 = tx_amount t" "tx_account_id t2 = tx_account_id t"
      "tx_type t2 = TRANSFER" "tx_direction t2 = went t"
    using ef dir assms get_tx_Some [OF assms(2)] by (auto simp: t2 split: option.split)
  have delta: "tx_delta t2 = tx_delta t"
    using f assms(3) by (auto simp: fun_eq_iff tx_delta_def signed_ledger_amount_def went_def
        split: transaction_type.splits)
  have ok1: "books_ok s1" by (rule books_ok_payee_frame [OF assms(1) fr])
  have g1: "get_tx s1 (tx_id t2) = Some t"
    using assms(2) payee_frameD(1) [OF fr] f(1) by (simp add: get_tx_def)
  have c: "cents (tx_amount t2)" using books_ok_member [OF assms(1,2)] f(2) by simp
  have "balance s' a None = balance s a None" for a
    using balance_save_same [OF ok1 g1 c delta sv]
      balance_cong [OF payee_frameD(2) [OF fr] payee_frameD(1) [OF fr]] by simp
  then show ?thesis using books_ok_save [OF ok1 c sv] f r by simp
qed

definition ex_retype :: transaction_update where
  "ex_retype = no_update\<lparr>tu_type := Some TRANSFER, tu_payee_name := Some ''Savings''\<rparr>"

lemma retyping_keeps_balances_witness:
  "\<exists>t' s'. update ex_env 1 ex_retype ex_db = Inr (Some t', s') \<and>
     balance s' 1 None = balance ex_db 1 None \<and> tx_direction t' = Some DIR_OUT"
proof -
  have "succeeds (update ex_env 1 ex_retype ex_db)" by code_simp
  then obtain r s' where u: "update ex_env 1 ex_retype ex_db = Inr (r, s')" by (auto elim: succeedsE)
  have "get_tx ex_db 1 = Some (ex_tx 1 1 EXPENSE 12 (Date 2026 1 31))"
    by (simp add: get_tx_def ex_defs)
  from retyping_keeps_balances [OF ex_db_ok(3) this _ _ _ _ _ u] u show ?thesis
    by (auto simp: ex_tx_def ex_retype_def no_update_def went_def)
qed

subsection \<open>Stale writes\<close>

lemma update_expected:
  assumes "get_tx s i = Some t" and "refuse_stale_write e t v s = refuse_stale_write e t w s"
  shows "update e i (u\<lparr>tu_expected := v\<rparr>) s = update e i (u\<lparr>tu_expected := w\<rparr>) s"
proof -
  have f: "update_payee_field e (u\<lparr>tu_expected := v\<rparr>) s =
      ebind (update_payee_field e (u\<lparr>tu_expected := w\<rparr>) s) (\<lambda>(a, b). Inr (a\<lparr>tu_expected := v\<rparr>, b))"
    by (auto simp: update_payee_field_def ebind_def resolve_payee_id_def split: sum.split prod.split)
  have ed: "edited_row (a\<lparr>tu_expected := x\<rparr>) t = edited_row a t" for a x
    by (simp add: edited_row_def apply_fields_def)
  show ?thesis
  proof (cases "update_payee_field e (u\<lparr>tu_expected := w\<rparr>) s")
    case (Inl err)
    with f assms show ?thesis by (simp add: update_def)
  next
    case (Inr ab)
    then obtain a b where "update_payee_field e (u\<lparr>tu_expected := w\<rparr>) s = Inr (a, b)" by (cases ab) auto
    with f assms show ?thesis by (simp add: update_def ed)
  qed
qed

text \<open>
  C5. No silent overwrite: when a first edit changes a column of the row and is committed at a time
  other than the version both editors loaded, a second edit that carries the loaded version is
  refused with \<open>StaleWriteError\<close>, whatever it wants to change; and an edit that carries the current
  version behaves as one that carries none.
\<close>

theorem second_editor_is_refused:
  assumes "ledger_ok s" and "get_tx s i = Some t"
    and "update e1 i u1 s = Inr (Some t1, s1)"
    and "tx_columns t1 \<noteq> tx_columns t" and "env_now e1 \<noteq> tx_updated_at t"
  shows "update e2 i (u2\<lparr>tu_expected := Some (tx_updated_at t)\<rparr>) s1 = Inl (StaleWriteError (changed_by e2 i)) \<and>
    update e2 i (u2\<lparr>tu_expected := Some (tx_updated_at t1)\<rparr>) s1 =
      update e2 i (u2\<lparr>tu_expected := None\<rparr>) s1"
proof -
  from assms(3,2) obtain v s0 t0 t2 where sv: "save_tx (env_now e1) t2 s0 = Inr s1"
    and t1: "Some t1 = Some (touch (env_now e1) t t2)" and er: "edited_row (u1\<lparr>tu_payee_id := v\<rparr>) t = Inr t0"
    and t2: "t2 = (case tu_tag_ids u1 of None \<Rightarrow> t0 | Some ids \<Rightarrow> t0\<lparr>tx_tags := load_tags s0 ids\<rparr>)"
    and fr: "payee_frame s s0"
    by (rule update_Inr)
  have id: "tx_id t2 = i"
    using edited_row_frame(1) [OF er] get_tx_Some [OF assms(2)] by (simp add: t2 split: option.split)
  have "get_tx s0 i = Some t" using assms(2) payee_frameD(1) [OF fr] by (simp add: get_tx_def)
  then have g: "get_tx s1 i = Some t1" using get_tx_save [OF sv, of i] id t1 by simp
  have "tx_updated_at t1 = env_now e1"
    using assms(4) t1 by (auto simp: touch_def tx_columns_def)
  then have stale: "tx_updated_at t1 \<noteq> tx_updated_at t" using assms(5) by simp
  have tid: "tx_id t1 = i" using get_tx_Some [OF g] by simp
  have "refuse_stale_write e2 t1 (Some (tx_updated_at t)) s1 = Inl (StaleWriteError (changed_by e2 i))"
    using g tid stale by (simp add: refuse_stale_write_def)
  moreover have "refuse_stale_write e2 t1 (Some (tx_updated_at t1)) s1 = refuse_stale_write e2 t1 None s1"
    using g tid by (simp add: refuse_stale_write_def)
  ultimately show ?thesis
    using g update_expected [OF g] by (intro conjI) (simp add: update_def, blast)
qed

definition ex_rename :: "string \<Rightarrow> transaction_update" where
  "ex_rename d = no_update\<lparr>tu_description := Some d\<rparr>"

theorem second_editor_is_refused_witness:
  "\<exists>t1 s1. update ex_env 1 (ex_rename ''rent'') ex_db = Inr (Some t1, s1) \<and>
     update ex_env 1 ((ex_rename ''food'')\<lparr>tu_expected := Some 0\<rparr>) s1 = Inl (StaleWriteError None)"
proof -
  have "(case update ex_env 1 (ex_rename ''rent'') ex_db of
      Inr (Some t1, s1) \<Rightarrow> tx_description t1 = ''rent'' | _ \<Rightarrow> False)" by code_simp
  then obtain t1 s1 where u: "update ex_env 1 (ex_rename ''rent'') ex_db = Inr (Some t1, s1)"
    and d: "tx_description t1 = ''rent''"
    by (auto split: sum.splits option.splits)
  have g: "get_tx ex_db 1 = Some (ex_tx 1 1 EXPENSE 12 (Date 2026 1 31))"
    by (simp add: get_tx_def ex_defs)
  have "tx_description (tx_columns t1) \<noteq> tx_description (tx_columns (ex_tx 1 1 EXPENSE 12 (Date 2026 1 31)))"
    using d by (simp add: tx_columns_def ex_tx_def)
  then have "tx_columns t1 \<noteq> tx_columns (ex_tx 1 1 EXPENSE 12 (Date 2026 1 31))" by auto
  from second_editor_is_refused [OF ex_db_ok(2) g u this, of ex_env "ex_rename ''food''"] u
  show ?thesis by (auto simp: ex_env_def ex_tx_def changed_by_def)
qed

section \<open>Bulk recategorisation\<close>

lemma emap_check_Inr: "emap (check_bulk_row wanted) rows = Inr xs \<Longrightarrow>
    \<forall>t \<in> set rows. \<not> tx_is_split t \<and> tx_type t = wanted"
  by (induction rows arbitrary: xs)
    (auto simp: ebind_Inr_iff check_bulk_row_def raise_if_Inr_iff)

text \<open>The loop of UPDATEs, one per selected row.\<close>

lemma efold_save_Inr:
  assumes "efold (\<lambda>t. save_tx now (g t)) rows s = Inr s'" and "distinct (map tx_id rows)"
    and "\<forall>t. tx_id (g t) = tx_id t"
    and "\<forall>t \<in> set rows. get_tx s (tx_id t) = Some t"
  shows "(\<forall>i. get_tx s' i = (if i \<in> tx_id ` set rows
      then map_option (\<lambda>t. touch now t (g t)) (get_tx s i) else get_tx s i)) \<and>
    s' = s\<lparr>transactions := transactions s'\<rparr> \<and> map tx_id (transactions s') = map tx_id (transactions s)"
  using assms
proof (induction rows arbitrary: s)
  case (Cons t rows)
  from Cons.prems(1) obtain s1 where sv: "save_tx now (g t) s = Inr s1"
    and rest: "efold (\<lambda>t. save_tx now (g t)) rows s1 = Inr s'"
    by (auto simp: ebind_Inr_iff)
  note sv' = save_tx_Inr(1) [OF sv] and gs = get_tx_save [OF sv] and id = Cons.prems(3) [rule_format]
  have fresh: "tx_id t \<notin> tx_id ` set rows" using Cons.prems(2) by simp
  have "\<forall>u \<in> set rows. get_tx s1 (tx_id u) = Some u"
  proof
    fix u assume u: "u \<in> set rows"
    with fresh have "tx_id u \<noteq> tx_id t" by (metis imageI)
    with u Cons.prems(4) id show "get_tx s1 (tx_id u) = Some u" by (simp add: gs)
  qed
  then have ih: "(\<forall>i. get_tx s' i = (if i \<in> tx_id ` set rows
      then map_option (\<lambda>t. touch now t (g t)) (get_tx s1 i) else get_tx s1 i)) \<and>
    s' = s1\<lparr>transactions := transactions s'\<rparr> \<and> map tx_id (transactions s') = map tx_id (transactions s1)"
    by (intro Cons.IH [OF rest]) (use Cons.prems in auto)
  have "map tx_id (transactions s1) = map tx_id (transactions s)"
    using map_id_upd_row_const [of "g t" now "transactions s"] by (simp add: sv')
  moreover have "s' = s\<lparr>transactions := transactions s'\<rparr>" using ih sv' by simp
  moreover have "get_tx s' i = (if i \<in> tx_id ` set (t # rows)
      then map_option (\<lambda>t. touch now t (g t)) (get_tx s i) else get_tx s i)" for i
    using ih fresh id gs [of i] Cons.prems(4) by (cases "i = tx_id t") simp_all
  ultimately show ?case using ih by simp
qed simp

text \<open>
  Recategorising a selection is all or nothing. When it succeeds, the category exists, every
  selected row that exists is an unsplit row of the category's own type and now carries the category,
  the returned number counts these rows, and no other row, balance or table changed.
\<close>

lemma set_category_bulk_all_or_nothing:
  assumes "books_ok s" and "ids \<noteq> []" and "set_category_bulk e ids c s = Inr (n, s')"
  shows "(\<exists>cat. find_row cat_id c (categories s) = Some cat \<and>
      (\<forall>i \<in> set ids. \<forall>t. get_tx s i = Some t \<longrightarrow>
         \<not> tx_is_split t \<and> tx_type t = type_of_category (cat_type cat) \<and>
         get_tx s' i = Some (touch (env_now e) t (t\<lparr>tx_category_id := Some c\<rparr>)))) \<and>
    n = card {i \<in> set ids. get_tx s i \<noteq> None} \<and>
    (\<forall>i. i \<notin> set ids \<longrightarrow> get_tx s' i = get_tx s i) \<and>
    s' = s\<lparr>transactions := transactions s'\<rparr>"
proof -
  let ?rows = "filter (\<lambda>t. tx_id t \<in> set ids) (transactions s)"
  let ?g = "\<lambda>t. t\<lparr>tx_category_id := Some c\<rparr>"
  from assms(2,3) obtain cat xs where cat: "find_row cat_id c (categories s) = Some cat"
    and chk: "emap (check_bulk_row (type_of_category (cat_type cat))) ?rows = Inr xs"
    and loop: "efold (\<lambda>t. save_tx (env_now e) (?g t)) ?rows s = Inr s'"
    and n: "n = length ?rows"
    by (auto simp: set_category_bulk_def Let_def ebind_Inr_iff split: option.splits)
  have dist: "distinct (map tx_id (transactions s))"
    using assms(1) by (simp add: books_ok_def ledger_ok_def ids_ok_def)
  have get: "get_tx s (tx_id t) = Some t" if "t \<in> set (transactions s)" for t
    using find_row_member [OF dist that] by (simp add: get_tx_def)
  have rows: "distinct (map tx_id ?rows)" "\<forall>t \<in> set ?rows. get_tx s (tx_id t) = Some t"
    using dist get by (simp_all add: distinct_map_filter)
  note loop' = efold_save_Inr [OF loop rows(1) _ rows(2)]
  have sel: "i \<in> tx_id ` set ?rows \<longleftrightarrow> i \<in> set ids \<and> get_tx s i \<noteq> None" for i
    using get by (force dest: get_tx_Some)
  have "n = card (tx_id ` set ?rows)" using distinct_card [OF rows(1)] by (simp add: n)
  also have "tx_id ` set ?rows = {i \<in> set ids. get_tx s i \<noteq> None}" using sel by blast
  finally have "n = card {i \<in> set ids. get_tx s i \<noteq> None}" .
  moreover have "\<not> tx_is_split t \<and> tx_type t = type_of_category (cat_type cat) \<and>
      get_tx s' i = Some (touch (env_now e) t (?g t))" if "i \<in> set ids" "get_tx s i = Some t" for i t
  proof -
    have "t \<in> set ?rows" using that get_tx_Some [OF that(2)] by simp
    then show ?thesis using emap_check_Inr [OF chk] loop' that sel [of i] by auto
  qed
  ultimately show ?thesis using cat loop' sel by auto
qed

definition ex_cat_db :: db where
  "ex_cat_db = ex_db\<lparr>categories := [\<lparr>cat_id = 5, cat_name = ''Food'', cat_type = CAT_EXPENSE,
     cat_parent_id = None, cat_is_subscriptions_root = False\<rparr>]\<rparr>"

lemma set_category_bulk_all_or_nothing_witness:
  "\<exists>n s'. set_category_bulk ex_env [1, 9] 5 ex_cat_db = Inr (n, s') \<and>
     n = card {i \<in> set [1, 9]. get_tx ex_cat_db i \<noteq> None} \<and> get_tx s' 7 = get_tx ex_cat_db 7"
proof -
  have "succeeds (set_category_bulk ex_env [1, 9] 5 ex_cat_db)" by code_simp
  then obtain n s' where r: "set_category_bulk ex_env [1, 9] 5 ex_cat_db = Inr (n, s')"
    by (auto elim: succeedsE)
  have ok: "books_ok ex_cat_db"
    using ex_db_ok(3) by (simp add: books_ok_def ledger_ok_def money_ok_def ex_cat_db_def)
  from set_category_bulk_all_or_nothing [OF ok _ r] r show ?thesis by simp
qed

section \<open>Deleting\<close>

lemma sum_list_del_row:
  fixes f :: "'r \<Rightarrow> 'b::ab_group_add"
  assumes "distinct (map key rows)" and "find_row key i rows = Some r"
  shows "sum_list (map f (del_row key i rows)) = sum_list (map f rows) - f r"
  using assms
proof (induction rows)
  case (Cons x rows)
  show ?case
  proof (cases "key x = i")
    case True
    with Cons.prems have "x = r" "i \<notin> key ` set rows" by auto
    moreover from this(2) have "del_row key i rows = rows"
      by (induction rows) (auto simp: del_row_def)
    ultimately show ?thesis using True by (simp add: del_row_def)
  next
    case False
    with Cons show ?thesis by (simp add: del_row_def algebra_simps)
  qed
qed simp

lemma delete_cases:
  assumes "books_ok s" and "get_tx s i = Some t"
  shows "case delete i s of
      Inr (deleted, s') \<Rightarrow> deleted \<and> get_tx s' i = None \<and> books_ok s' \<and>
        (\<forall>j. j \<noteq> i \<longrightarrow> get_tx s' j = get_tx s j \<and> (\<forall>u. get_tx s j = Some u \<longrightarrow> tx_linked_id u \<noteq> Some i)) \<and>
        (\<forall>a. has_account s a \<longrightarrow> balance s' a None = balance s a None - tx_delta t a) \<and>
        (\<forall>l \<in> set (loans s'). pl_transaction_id l \<noteq> Some i) \<and>
        (\<forall>r \<in> set (repayments s'). rp_linked_id r \<noteq> Some i)
    | Inl err \<Rightarrow> err = IntegrityError ''transactions.linked_transaction_id'' \<and>
        (\<exists>u \<in> set (transactions s). tx_id u \<noteq> i \<and> tx_linked_id u = Some i)"
proof (cases "\<exists>u \<in> set (transactions s). tx_id u \<noteq> i \<and> tx_linked_id u = Some i")
  case True
  then show ?thesis using assms(2) by (auto simp: delete_def)
next
  case False
  define s' where "s' = s\<lparr>transactions := del_row tx_id i (transactions s),
    loans := map (\<lambda>l. l\<lparr>pl_transaction_id := unlinked i (pl_transaction_id l)\<rparr>) (loans s),
    repayments := map (\<lambda>r. r\<lparr>rp_linked_id := unlinked i (rp_linked_id r)\<rparr>) (repayments s),
    dismissed_pairs := filter (\<lambda>d. dtp_first d \<noteq> i \<and> dtp_second d \<noteq> i) (dismissed_pairs s)\<rparr>"
  have d: "delete i s = Inr (True, s')" using False assms(2) by (simp add: delete_def s'_def)
  have money: "money_ok s" "money_ok s'" and ids: "distinct (map tx_id (transactions s))"
    using assms(1) by (auto simp: books_ok_def ledger_ok_def ids_ok_def money_ok_def s'_def)
  have led: "ledger_ok s'"
    using assms(1) ids_ok_del_row [of tx_id "seq_tx s" "transactions s" i]
    by (auto simp: books_ok_def ledger_ok_def s'_def)
  have bal: "balance s' a None = balance s a None - tx_delta t a" if "has_account s a" for a
  proof -
    from that obtain acc where acc: "get_account s a = Some acc" by (auto simp: has_account_def)
    then have acc': "get_account s' a = Some acc" by (simp add: get_account_def s'_def)
    have t: "transactions s' = del_row tx_id i (transactions s)" by (simp add: s'_def)
    show ?thesis
      unfolding balance_eq [OF money(1) acc] balance_eq [OF money(2) acc'] sum_ledger_rows t
        sum_list_del_row [OF ids assms(2) [unfolded get_tx_def]] by simp
  qed
  have gone: "get_tx s' i = None"
    and others: "\<And>j. j \<noteq> i \<Longrightarrow> get_tx s' j = get_tx s j"
    by (simp_all add: get_tx_def s'_def find_row_del_row)
  have links: "tx_linked_id u \<noteq> Some i" if "j \<noteq> i" "get_tx s j = Some u" for j u
    using False that(1) get_tx_Some [OF that(2)] by auto
  have refs: "\<forall>l \<in> set (loans s'). pl_transaction_id l \<noteq> Some i"
    "\<forall>r \<in> set (repayments s'). rp_linked_id r \<noteq> Some i"
    by (auto simp: s'_def unlinked_def)
  have ok': "books_ok s'" using led money(2) by (simp add: books_ok_def)
  show ?thesis
    unfolding d using ok' bal gone others links refs by simp
qed

text \<open>
  C12. Deleting a transaction takes exactly its own effect out of the balances and leaves every other
  row, and no loan or repayment pointing at it; but a row that another row is linked to cannot be
  deleted, so neither leg of an internal transfer can: the foreign key of the other leg refuses it.
\<close>

theorem delete_effect:
  assumes "books_ok s" and "get_tx s i = Some t"
  shows "case delete i s of
      Inr (deleted, s') \<Rightarrow> deleted \<and> get_tx s' i = None \<and> books_ok s' \<and>
        (\<forall>j. j \<noteq> i \<longrightarrow> get_tx s' j = get_tx s j \<and> (\<forall>u. get_tx s j = Some u \<longrightarrow> tx_linked_id u \<noteq> Some i)) \<and>
        (\<forall>a. has_account s a \<longrightarrow> balance s' a None = balance s a None - tx_delta t a) \<and>
        (\<forall>l \<in> set (loans s'). pl_transaction_id l \<noteq> Some i) \<and>
        (\<forall>r \<in> set (repayments s'). rp_linked_id r \<noteq> Some i)
    | Inl err \<Rightarrow> err = IntegrityError ''transactions.linked_transaction_id'' \<and>
        (\<exists>u \<in> set (transactions s). tx_id u \<noteq> i \<and> tx_linked_id u = Some i)"
  by (rule delete_cases [OF assms])

theorem delete_effect_witness:
  "\<exists>s'. delete 1 ex_db = Inr (True, s') \<and> get_tx s' 1 = None \<and>
     balance s' 1 None = balance ex_db 1 None - tx_delta (ex_tx 1 1 EXPENSE 12 (Date 2026 1 31)) 1"
proof -
  have g: "get_tx ex_db 1 = Some (ex_tx 1 1 EXPENSE 12 (Date 2026 1 31))"
    by (simp add: get_tx_def ex_defs)
  obtain b s' where d: "delete 1 ex_db = Inr (b, s')"
    by (auto simp: delete_def g) (simp add: ex_defs)
  have "has_account ex_db 1" by (simp add: has_account_def get_account_def ex_defs)
  with delete_effect [OF ex_db_ok(3) g] d show ?thesis by auto
qed

text \<open>After \<open>create_transfer\<close>, deleting either leg fails.\<close>

lemma transfer_legs_cannot_be_deleted:
  assumes "get_tx s (tx_id a) = Some a" and "get_tx s (tx_id b) = Some b"
    and "tx_id a \<noteq> tx_id b" and "tx_linked_id a = Some (tx_id b)"
  shows "delete (tx_id b) s = Inl (IntegrityError ''transactions.linked_transaction_id'')"
  using assms by (auto simp: delete_def dest: get_tx_Some)

section \<open>Pages\<close>

lemma newest_first_set [simp]: "set (newest_first ts) = set ts"
  by (simp add: newest_first_def)

lemma newest_first_distinct: "distinct (map tx_id ts) \<Longrightarrow> distinct (map tx_id (newest_first ts))"
  by (simp add: newest_first_def rev_map distinct_map inj_on_def)

text \<open>Selecting by the ids of a page of the matching rows gives back that page, in order.\<close>

lemma filter_page_ids:
  assumes "distinct (map key xs)"
  shows "filter (\<lambda>t. key t \<in> key ` set (take k (drop j (filter P xs)))) xs = take k (drop j (filter P xs))"
proof -
  let ?zs = "filter P xs"
  let ?ys = "take k (drop j ?zs)"
  let ?Q = "\<lambda>t. key t \<in> key ` set ?ys"
  have inj: "inj_on key (set xs)" using assms by (simp add: distinct_map)
  have sub: "set ?ys \<subseteq> set ?zs" by (meson set_drop_subset set_take_subset subset_trans)
  have Q: "?Q t \<longleftrightarrow> t \<in> set ?ys" if "t \<in> set xs" for t
    using that inj sub by (auto dest: inj_onD)
  have "filter ?Q xs = filter ?Q ?zs"
    using Q sub by (auto simp: filter_filter intro!: filter_cong)
  also have "\<dots> = filter (\<lambda>t. t \<in> set ?ys) ?zs"
    using Q by (intro filter_cong) auto
  finally have eq: "filter ?Q xs = filter (\<lambda>t. t \<in> set ?ys) ?zs" .
  have parts: "take j ?zs @ ?ys @ drop k (drop j ?zs) = ?zs" by (simp only: append_take_drop_id)
  have "distinct (take j ?zs @ ?ys @ drop k (drop j ?zs))"
    unfolding parts using assms by (simp add: distinct_map)
  then have "filter (\<lambda>t. t \<in> set ?ys) (take j ?zs) = []"
      "filter (\<lambda>t. t \<in> set ?ys) (drop k (drop j ?zs)) = []"
    unfolding distinct_append by (auto simp: filter_empty_conv)
  then have "filter (\<lambda>t. t \<in> set ?ys) (take j ?zs @ ?ys @ drop k (drop j ?zs)) = ?ys" by simp
  with eq parts show ?thesis by simp
qed

definition matching :: "db \<Rightarrow> tx_filter \<Rightarrow> string \<Rightarrow> transaction list" where
  "matching s f search = filter
    (\<lambda>t. search = [] \<or> contains (casefold search) (casefold (tx_description t)))
    (newest_first (filter (base_stmt f) (transactions s)))"

lemma list_page_eq:
  assumes "ledger_ok s"
    and "search = [] \<or> length (filter (base_stmt f) (transactions s)) \<le> search_scan_limit"
  shows "list_page s f search limit offset = take limit (drop offset (matching s f search))"
    and "count_rows s f search = length (matching s f search)"
proof -
  let ?rows = "newest_first (filter (base_stmt f) (transactions s))"
  have len: "length ?rows = length (filter (base_stmt f) (transactions s))"
    by (simp add: newest_first_def)
  have dist: "distinct (map tx_id ?rows)"
    using assms(1) by (intro newest_first_distinct)
      (simp add: ledger_ok_def ids_ok_def distinct_map_filter)
  show "count_rows s f search = length (matching s f search)"
    using assms(2) len by (auto simp: count_rows_def search_ids_def matching_def)
  show "list_page s f search limit offset = take limit (drop offset (matching s f search))"
  proof (cases "search = []")
    case True
    then show ?thesis by (simp add: list_page_def matching_def Let_def)
  next
    case False
    then have "search_ids s f search = map tx_id (matching s f search)"
      using assms(2) len by (simp add: search_ids_def matching_def)
    with False filter_page_ids [OF dist, of limit offset
        "\<lambda>t. contains (casefold search) (casefold (tx_description t))"]
    show ?thesis
      by (simp add: list_page_def matching_def Let_def take_map drop_map)
  qed
qed

lemma concat_pages:
  "concat (map (\<lambda>k. take n (drop (k * n) xs)) [0..<m]) = take (m * n) xs"
proof (induction m)
  case (Suc m)
  have "take (Suc m * n) xs = take (m * n) xs @ take n (drop (m * n) xs)"
    by (metis add.commute mult_Suc take_add)
  with Suc show ?case by simp
qed simp

text \<open>
  Paging loses and repeats nothing: for every filter and search, the pages of \<open>limit\<close> rows one
  after the other are exactly the rows that pass the filter and contain the search text, newest
  first, and \<open>count\<close> is their number, so \<open>\<lceil>count / limit\<rceil>\<close> pages show all of them. (A search scans at
  most \<open>SEARCH_SCAN_LIMIT\<close> rows; the statement is for ledgers within it.)
\<close>

lemma pages_cover_the_ledger:
  assumes "ledger_ok s"
    and "search = [] \<or> length (filter (base_stmt f) (transactions s)) \<le> search_scan_limit"
    and "count_rows s f search \<le> m * limit"
  shows "concat (map (\<lambda>k. list_page s f search limit (k * limit)) [0..<m]) = matching s f search \<and>
    length (matching s f search) = count_rows s f search"
  using list_page_eq [OF assms(1,2)] concat_pages [of limit "matching s f search" m] assms(3)
  by simp

definition no_filter :: tx_filter where
  "no_filter = \<lparr>fl_account_ids = [], fl_category_ids = [], fl_date_from = None, fl_date_to = None,
     fl_types = [], fl_tag_ids = [], fl_user_ids = []\<rparr>"

lemma pages_cover_the_ledger_witness:
  "concat (map (\<lambda>k. list_page ex_pair_db no_filter [] 1 (k * 1)) [0..<2]) = matching ex_pair_db no_filter []"
proof -
  have "count_rows ex_pair_db no_filter [] \<le> 2 * 1"
    by (simp add: count_rows_def ex_pair_db_def ex_db_def)
  then show ?thesis
    using pages_cover_the_ledger [of ex_pair_db "[]" no_filter 2 1] ex_pair_db_ok
    by (simp add: books_ok_def)
qed

section \<open>Creating\<close>

lemma resolve_payee_id_ok:
  assumes "payees_ok (env_hmac e) s" and "fk_ok pay_id (payees s) pid"
  shows "\<exists>pid' s1. resolve_payee_id e pid name s = Inr (pid', s1) \<and> payee_frame s s1 \<and>
    payees_ok (env_hmac e) s1 \<and> fk_ok pay_id (payees s1) pid' \<and>
    (pid = None \<and> name \<noteq> None \<and> name \<noteq> Some [] \<longrightarrow> pid' \<noteq> None)"
proof (cases "pid \<noteq> None \<or> name = None \<or> name = Some []")
  case True
  with assms show ?thesis by (auto simp: resolve_payee_id_def)
next
  case False
  from kaleta_payees.resolve_spec [OF assms(1), of "the name"] obtain p s1 where
    m: "match_or_create_from_name (env_hmac e) (the name) s = Inr (p, s1)"
    and k: "get_payee s1 (pay_id p) = Some p" "payees_ok (env_hmac e) s1" by blast
  have "payee_frame s s1" by (rule match_or_create_payee_frame [OF m])
  with False m k show ?thesis
    by (auto simp: resolve_payee_id_def fk_ok_def get_payee_def)
qed

lemma load_tags_fk: "g \<in> set (load_tags s ids) \<Longrightarrow> fk_ok tag_id (tags s) (Some g)"
  by (auto simp: load_tags_def fk_ok_def find_row_None_iff split: if_splits)

lemma validate_rules_Inr:
  assumes "validate_rules p = Inr q"
  shows "(tc_type p = TRANSFER) = (tc_direction p \<noteq> None)"
    and "tc_type p \<noteq> TRANSFER \<Longrightarrow> tc_is_split p \<Longrightarrow>
      tc_splits p \<noteq> [] \<and> split_total (tc_splits p) = tc_amount p"
  using assms by (auto simp: validate_rules_def raise_if_Inr_iff split: if_splits)


definition ex_entry :: transaction_create where
  "ex_entry = (ex_create 1 EXPENSE 20 None)\<lparr>tc_category_id := Some 5, tc_payee_name := Some ''Lidl''\<rparr>"


section \<open>Signs\<close>

text \<open>
  The ledger's column sign and the balance agree on every row the database holds, as long as amounts
  are entered unsigned.
\<close>

lemma signed_amount_is_ledger_amount:
  assumes "tx_check t" and "0 \<le> tx_amount t"
  shows "signed_amount (tx_amount t) (tx_type t) (tx_direction t) = signed_ledger_amount t"
  using assms
  by (cases "tx_type t"; cases "tx_direction t")
    (auto simp: signed_amount_def signed_ledger_amount_def tx_check_def intro: transfer_direction.exhaust)

end
