(* ===== verification/Recurrence.thy ===== *)
theory Recurrence
  imports Models
begin

text \<open>
  The recurrence arithmetic of \<open>services/planned_transaction_service.py\<close>: \<open>_add_months\<close>,
  \<open>_advance\<close> and the loops over it. A loop may run forever (a plan with interval 0 never advances),
  so the loops are partial functions into \<open>'a run\<close>: \<open>None\<close> is a loop that does not return,
  \<open>Some (Inl e)\<close> an exception, \<open>Some (Inr x)\<close> the returned value.

  The locale \<open>date_steps\<close> states what the loops need of a step (valid dates go to later valid dates,
  and the step does not leave the calendar within its span of years); its lemmas show that the loops
  return, and exactly which dates they find. It is interpreted on \<open>advance\<close>.
\<close>

section \<open>Definitions\<close>

type_synonym 'a run = "'a result option"

definition rbind :: "'a run \<Rightarrow> ('a \<Rightarrow> 'b run) \<Rightarrow> 'b run" where
  "rbind m f = (case m of None \<Rightarrow> None | Some (Inl e) \<Rightarrow> Some (Inl e) | Some (Inr x) \<Rightarrow> f x)"

definition add_months :: "date \<Rightarrow> int \<Rightarrow> date result" where
  "add_months d months =
    (let total = d_month d + months;
         year = d_year d + (total - 1) div 12;
         month = (total - 1) mod 12 + 1;
         day = min (d_day d) (days_in_month year month)
     in mk_date year month day)"

text \<open>\<open>ONCE\<close> does not advance; \<open>YEARLY\<close> falls back to the 28th for a 29 February.\<close>

definition advance :: "date \<Rightarrow> recurrence_frequency \<Rightarrow> int \<Rightarrow> date result" where
  "advance d frequency interval =
    (case frequency of
       DAILY \<Rightarrow> add_days d interval
     | WEEKLY \<Rightarrow> add_days d (7 * interval)
     | BIWEEKLY \<Rightarrow> add_days d (7 * (2 * interval))
     | MONTHLY \<Rightarrow> add_months d interval
     | QUARTERLY \<Rightarrow> add_months d (3 * interval)
     | YEARLY \<Rightarrow>
         (case mk_date (d_year d + interval) (d_month d) (d_day d) of
            Inr d' \<Rightarrow> Inr d'
          | Inl _ \<Rightarrow> mk_date (d_year d + interval) (d_month d) 28)
     | ONCE \<Rightarrow> Inr d)"

text \<open>\<open>while current <= today: current = _advance(...)\<close>\<close>

partial_function (option) catch_up :: "(date \<Rightarrow> date result) \<Rightarrow> date \<Rightarrow> date \<Rightarrow> date run" where
  "catch_up step today current =
    (if current \<le> today then
       (case step current of Inl e \<Rightarrow> Some (Inl e) | Inr d \<Rightarrow> catch_up step today d)
     else Some (Inr current))"

definition past_end :: "date option \<Rightarrow> date \<Rightarrow> bool" where
  "past_end end_date d = (case end_date of None \<Rightarrow> False | Some e \<Rightarrow> e < d)"

text \<open>The fast-forward loop of \<open>get_occurrences\<close>, with its guard against a broken advance.\<close>

partial_function (option) fast_forward ::
  "(date \<Rightarrow> date result) \<Rightarrow> date option \<Rightarrow> date \<Rightarrow> date \<Rightarrow> date run" where
  "fast_forward step end_date start current =
    (if current < start then
       (case step current of
          Inl e \<Rightarrow> Some (Inl e)
        | Inr nxt \<Rightarrow>
            if nxt \<le> current then Some (Inr current)
            else if past_end end_date nxt then Some (Inr nxt)
            else fast_forward step end_date start nxt)
     else Some (Inr current))"

text \<open>The collecting loop; \<open>acc\<close> holds the dates found so far, newest first.\<close>

partial_function (option) collect ::
  "(date \<Rightarrow> date result) \<Rightarrow> date option \<Rightarrow> date \<Rightarrow> date \<Rightarrow> date \<Rightarrow> date list \<Rightarrow> date list run" where
  "collect step end_date start stop current acc =
    (if current \<le> stop then
       if past_end end_date current then Some (Inr (rev acc))
       else
         (case step current of
            Inl e \<Rightarrow> Some (Inl e)
          | Inr nxt \<Rightarrow> collect step end_date start stop nxt
              (if start \<le> current then current # acc else acc))
     else Some (Inr (rev acc)))"

definition plan_step :: "planned_transaction \<Rightarrow> date \<Rightarrow> date result" where
  "plan_step p d = advance d (pt_frequency p) (pt_interval p)"

definition next_occurrence :: "planned_transaction \<Rightarrow> date \<Rightarrow> date option run" where
  "next_occurrence p today =
    (if pt_frequency p = ONCE then
       Some (Inr (if today < pt_start_date p \<and> \<not> past_end (pt_end_date p) (pt_start_date p)
                  then Some (pt_start_date p) else None))
     else rbind (catch_up (plan_step p) today (pt_start_date p)) (\<lambda>current.
       Some (Inr (if past_end (pt_end_date p) current then None else Some current))))"

text \<open>The dates one plan contributes to \<open>get_occurrences\<close>.\<close>

definition plan_dates :: "planned_transaction \<Rightarrow> date \<Rightarrow> date \<Rightarrow> date list run" where
  "plan_dates p start stop =
    (if (case pt_end_date p of None \<Rightarrow> False | Some e \<Rightarrow> e < start) then Some (Inr [])
     else if pt_frequency p = ONCE then
       Some (Inr (if start \<le> pt_start_date p \<and> pt_start_date p \<le> stop then [pt_start_date p] else []))
     else rbind (fast_forward (plan_step p) (pt_end_date p) start (pt_start_date p)) (\<lambda>current.
       collect (plan_step p) (pt_end_date p) start stop current []))"

text \<open>The dates a recurrence reaches: \<open>k\<close> steps from the start.\<close>

primrec orbit :: "(date \<Rightarrow> date result) \<Rightarrow> date \<Rightarrow> nat \<Rightarrow> date result" where
  "orbit step d 0 = Inr d"
| "orbit step d (Suc k) = ebind (orbit step d k) step"

declare catch_up.simps [code] fast_forward.simps [code] collect.simps [code]

section \<open>Steps that move forward\<close>

lemma rbind_simps [simp]:
  "rbind None f = None" "rbind (Some (Inl e)) f = Some (Inl e)" "rbind (Some (Inr x)) f = f x"
  by (simp_all add: rbind_def)

lemma orbit_Suc_shift: "orbit step d (Suc k) = ebind (step d) (\<lambda>d'. orbit step d' k)"
proof (induction k)
  case 0
  show ?case by (cases "step d") simp_all
next
  case (Suc k)
  have "orbit step d (Suc (Suc k)) = ebind (ebind (step d) (\<lambda>d'. orbit step d' k)) step"
    using Suc by simp
  then show ?case by (cases "step d") simp_all
qed

definition reaches :: "(date \<Rightarrow> date result) \<Rightarrow> date \<Rightarrow> date \<Rightarrow> bool" where
  "reaches step d x \<longleftrightarrow> (\<exists>k. orbit step d k = Inr x)"

lemma reaches_refl [simp]: "reaches step d d"
  by (auto simp: reaches_def intro: exI [of _ 0])

lemma reaches_unfold:
  assumes "step d = Inr d'"
  shows "reaches step d x \<longleftrightarrow> x = d \<or> reaches step d' x"
proof
  assume "reaches step d x"
  then obtain k where "orbit step d k = Inr x" by (auto simp: reaches_def)
  then show "x = d \<or> reaches step d' x"
    using assms by (cases k) (auto simp: orbit_Suc_shift reaches_def simp del: orbit.simps(2))
next
  assume "x = d \<or> reaches step d' x"
  then show "reaches step d x"
  proof
    assume "reaches step d' x"
    then obtain k where "orbit step d' k = Inr x" by (auto simp: reaches_def)
    then have "orbit step d (Suc k) = Inr x"
      using assms by (simp add: orbit_Suc_shift del: orbit.simps(2))
    then show ?thesis unfolding reaches_def by blast
  qed simp
qed

locale date_steps =
  fixes step :: "'p \<Rightarrow> date \<Rightarrow> date result"
    and good :: "'p \<Rightarrow> bool"
    and span :: "'p \<Rightarrow> int"
  assumes step_forward: "good p \<Longrightarrow> valid_date d \<Longrightarrow> step p d = Inr d' \<Longrightarrow> valid_date d' \<and> d < d'"
    and step_total: "good p \<Longrightarrow> valid_date d \<Longrightarrow> d_year d + span p \<le> 9998 \<Longrightarrow> \<exists>d'. step p d = Inr d'"
begin

lemma year_mono: "d \<le> stop \<Longrightarrow> d_year stop + span p \<le> 9998 \<Longrightarrow> d_year d + span p \<le> 9998"
  by (cases d; cases stop) (auto simp: less_eq_date_def less_date_def)

lemma step_ok:
  assumes "good p" and "valid_date d" and "d \<le> stop" and "d_year stop + span p \<le> 9998"
  obtains d' where "step p d = Inr d'" "valid_date d'" "d < d'"
proof -
  have "d_year d + span p \<le> 9998" by (rule year_mono [OF assms(3,4)])
  from step_total [OF assms(1,2) this] obtain d' where d': "step p d = Inr d'" by auto
  with step_forward [OF assms(1,2) d'] that show thesis by blast
qed

lemma orbit_valid: "good p \<Longrightarrow> valid_date d \<Longrightarrow> orbit (step p) d k = Inr x \<Longrightarrow> valid_date x \<and> d \<le> x"
proof (induction k arbitrary: x)
  case (Suc k)
  from Suc.prems(3) obtain y where y: "orbit (step p) d k = Inr y" "step p y = Inr x"
    by (auto simp: ebind_Inr_iff)
  with Suc.IH [OF Suc.prems(1,2)] step_forward [OF Suc.prems(1)] show ?case
    by (meson less_imp_le order_trans)
qed simp

lemma reaches_later: "good p \<Longrightarrow> valid_date d \<Longrightarrow> reaches (step p) d x \<Longrightarrow> valid_date x \<and> d \<le> x"
  using orbit_valid by (auto simp: reaches_def)

text \<open>A loop over the ordinal distance to a bound.\<close>

lemma ordinal_induct [consumes 1, case_names step]:
  assumes "valid_date d"
    and "\<And>d. valid_date d \<Longrightarrow> (\<And>d'. valid_date d' \<Longrightarrow> d < d' \<Longrightarrow> P d') \<Longrightarrow> P d"
  shows "P d"
  using assms(1)
proof (induction "nat (max_ordinal - toordinal d)" arbitrary: d rule: less_induct)
  case less
  show ?case
  proof (rule assms(2) [OF less.prems])
    fix d' assume d': "valid_date d'" "d < d'"
    then have "toordinal d < toordinal d'" using less.prems by simp
    moreover have "toordinal d' \<le> max_ordinal" using toordinal_range [OF d'(1)] by simp
    ultimately have "nat (max_ordinal - toordinal d') < nat (max_ordinal - toordinal d)" by linarith
    from less.hyps [OF this d'(1)] show "P d'" .
  qed
qed

lemma catch_up_exact:
  assumes "good p" and "d_year today + span p \<le> 9998" and "valid_date d"
  shows "\<exists>x. catch_up (step p) today d = Some (Inr x) \<and> valid_date x \<and> today < x \<and>
    reaches (step p) d x \<and> (\<forall>y. reaches (step p) d y \<and> today < y \<longrightarrow> x \<le> y)"
  using assms(3)
proof (induction d rule: ordinal_induct)
  case (step d)
  show ?case
  proof (cases "d \<le> today")
    case True
    from step_ok [OF assms(1) step(1) True assms(2)] obtain d' where
      d': "step p d = Inr d'" "valid_date d'" "d < d'" .
    have unf: "catch_up (step p) today d = catch_up (step p) today d'"
      using True d'(1) by (subst catch_up.simps) simp
    show ?thesis
      unfolding unf using step(2) [OF d'(2,3)] True by (auto simp: reaches_unfold [of "step p", OF d'(1)])
  next
    case False
    then have "catch_up (step p) today d = Some (Inr d)" by (subst catch_up.simps) simp
    then show ?thesis using step(1) False reaches_later [OF assms(1) step(1)] by auto
  qed
qed

lemma fast_forward_exact:
  assumes "good p" and "d_year start + span p \<le> 9998" and "valid_date d"
  shows "\<exists>x. fast_forward (step p) e start d = Some (Inr x) \<and> valid_date x \<and>
    (\<forall>y. start \<le> y \<and> \<not> past_end e y \<longrightarrow> reaches (step p) d y = reaches (step p) x y)"
  using assms(3)
proof (induction d rule: ordinal_induct)
  case (step d)
  show ?case
  proof (cases "d < start")
    case True
    from step_ok [OF assms(1) step(1) less_imp_le [OF True] assms(2)] obtain d' where
      d': "step p d = Inr d'" "valid_date d'" "d < d'" .
    have unf: "fast_forward (step p) e start d =
        (if past_end e d' then Some (Inr d') else fast_forward (step p) e start d')"
      using True d' by (subst fast_forward.simps) (auto simp: not_le)
    have skip: "start \<le> y \<Longrightarrow> reaches (step p) d y = reaches (step p) d' y" for y
      using True by (auto simp: reaches_unfold [of "step p", OF d'(1)])
    show ?thesis
      unfolding unf using step(2) [OF d'(2,3)] skip d'(2) by auto
  next
    case False
    then have "fast_forward (step p) e start d = Some (Inr d)" by (subst fast_forward.simps) simp
    then show ?thesis using step(1) by auto
  qed
qed

lemma collect_exact:
  assumes "good p" and "d_year stop + span p \<le> 9998" and "valid_date d"
  shows "\<exists>ds. collect (step p) e start stop d acc = Some (Inr (rev acc @ ds)) \<and>
    sorted_wrt (<) ds \<and> set ds = {y. start \<le> y \<and> y \<le> stop \<and> \<not> past_end e y \<and> reaches (step p) d y}"
  using assms(3)
proof (induction d arbitrary: acc rule: ordinal_induct)
  case (step d)
  note later = reaches_later [OF assms(1) step(1)]
  show ?case
  proof (cases "d \<le> stop \<and> \<not> past_end e d")
    case True
    then have "d \<le> stop" by simp
    from step_ok [OF assms(1) step(1) this assms(2)] obtain d' where
      d': "step p d = Inr d'" "valid_date d'" "d < d'" .
    have unf: "collect (step p) e start stop d acc =
        collect (step p) e start stop d' (if start \<le> d then d # acc else acc)"
      using True d'(1) by (subst collect.simps) simp
    from step(2) [OF d'(2,3), of "if start \<le> d then d # acc else acc"] obtain ds where
      ds: "collect (step p) e start stop d' (if start \<le> d then d # acc else acc) =
          Some (Inr (rev (if start \<le> d then d # acc else acc) @ ds))" "sorted_wrt (<) ds"
        "set ds = {y. start \<le> y \<and> y \<le> stop \<and> \<not> past_end e y \<and> reaches (step p) d' y}" by blast
    have "\<forall>y \<in> set ds. d < y"
      using ds(3) d'(3) reaches_later [OF assms(1) d'(2)] by (auto dest: less_le_trans)
    then show ?thesis
      unfolding unf ds(1)
      by (intro exI [of _ "if start \<le> d then d # ds else ds"])
        (use ds(2,3) True in \<open>auto simp: reaches_unfold [of "step p", OF d'(1)]\<close>)
  next
    case False
    then have "collect (step p) e start stop d acc = Some (Inr (rev acc))"
      by (subst collect.simps) auto
    moreover have "{y. start \<le> y \<and> y \<le> stop \<and> \<not> past_end e y \<and> reaches (step p) d y} = {}"
      using False later by (fastforce simp: past_end_def split: option.splits)
    ultimately show ?thesis by simp
  qed
qed

end

section \<open>The step of the plans\<close>

lemma days_before_year_grow:
  assumes "1 \<le> y" shows "days_before_year y + 365 * int k \<le> days_before_year (y + int k)"
proof (induction k)
  case (Suc k)
  have "days_before_year (y + int k + 1) =
      days_before_year (y + int k) + (if is_leap (y + int k) then 366 else 365)"
    by (rule days_before_year_step)
  with Suc show ?case by (simp add: algebra_simps split: if_splits)
qed simp

lemma add_days_total:
  assumes "valid_date d" and "1 \<le> n" and "0 \<le> k" and "k \<le> 14 * n" and "d_year d + n \<le> 9998"
  shows "\<exists>d'. add_days d k = Inr d'"
proof -
  have y: "1 \<le> d_year d" using assms(1) by (simp add: valid_date_def)
  have "toordinal d \<le> days_before_year (d_year d + 1)" by (rule toordinal_bounds [OF assms(1)])
  moreover have "days_before_year (d_year d + 1) + 365 * n \<le> days_before_year (d_year d + 1 + n)"
    using days_before_year_grow [of "d_year d + 1" "nat n"] y assms(2) by simp
  moreover have "days_before_year (d_year d + 1 + n) \<le> max_ordinal"
    using days_before_year_less [of "d_year d + n" 10000] y assms(2,5) max_ordinal_eq
    by (simp add: algebra_simps)
  moreover have "1 \<le> toordinal d" by (rule toordinal_range(1) [OF assms(1)])
  ultimately have "1 \<le> toordinal d + k" "toordinal d + k \<le> max_ordinal"
    using assms(2-4) by linarith+
  then show ?thesis by (simp add: add_days_def Let_def)
qed

lemma add_days_forward:
  assumes "valid_date d" and "1 \<le> k" and "add_days d k = Inr d'"
  shows "valid_date d' \<and> d < d'"
proof -
  note a = add_days_Inr [OF assms(1,3)]
  with assms(2) have "toordinal d < toordinal d'" by simp
  with a(1) assms(1) show ?thesis by simp
qed

lemma month_index:
  assumes "1 \<le> m" and "m \<le> (12::int)" and "1 \<le> k"
  shows "(m + k - 1) div 12 > 0 \<or> ((m + k - 1) div 12 = 0 \<and> m < (m + k - 1) mod 12 + 1)"
proof (cases "m + k - 1 < 12")
  case True
  then have "(m + k - 1) div 12 = 0" "(m + k - 1) mod 12 = m + k - 1" using assms by auto
  with assms show ?thesis by simp
next
  case False
  then have "1 \<le> (m + k - 1) div 12" by linarith
  then show ?thesis by simp
qed

lemma add_months_forward:
  assumes "valid_date d" and "1 \<le> k" and "add_months d k = Inr d'"
  shows "valid_date d' \<and> d < d'"
  using assms month_index [of "d_month d" k]
  by (cases d) (auto simp: add_months_def Let_def mk_date_Inr_iff valid_date_def less_date_def)

lemma add_months_total:
  assumes "valid_date d" and "1 \<le> n" and "1 \<le> k" and "k \<le> 3 * n" and "d_year d + n \<le> 9998"
  shows "\<exists>d'. add_months d k = Inr d'"
proof -
  let ?t = "d_month d + k - 1"
  have m: "1 \<le> d_month d" "d_month d \<le> 12" "1 \<le> d_year d" "1 \<le> d_day d"
    using assms(1) by (auto simp: valid_date_def)
  have "?t < 12 * (n + 1)" using m assms(2,4) by simp
  then have "?t div 12 < n + 1" by (simp add: div_less_iff_less_mult)
  then have "?t div 12 \<le> n" by simp
  moreover have "0 \<le> ?t div 12" using m assms(3) by simp
  moreover have "0 \<le> ?t mod 12" "?t mod 12 < 12" by simp_all
  moreover have "1 \<le> days_in_month (d_year d + ?t div 12) (?t mod 12 + 1)"
    using days_in_month_bounds(1) by (rule order_trans [rotated]) simp
  ultimately show ?thesis
    using m assms(5) by (auto simp: add_months_def Let_def mk_date_def valid_date_def)
qed

lemma advance_forward:
  assumes "f \<noteq> ONCE" and "1 \<le> n" and "valid_date d" and "advance d f n = Inr d'"
  shows "valid_date d' \<and> d < d'"
proof (cases f)
  case YEARLY
  with assms(2-4) show ?thesis
    by (cases d) (auto simp: advance_def mk_date_Inr_iff less_date_def split: sum.splits)
qed (use assms add_days_forward [OF assms(3), of n d'] add_days_forward [OF assms(3), of "7 * n" d']
    add_days_forward [OF assms(3), of "7 * (2 * n)" d'] add_months_forward [OF assms(3), of n d']
    add_months_forward [OF assms(3), of "3 * n" d'] in \<open>auto simp: advance_def\<close>)

lemma advance_total:
  assumes "f \<noteq> ONCE" and "1 \<le> n" and "valid_date d" and "d_year d + n \<le> 9998"
  shows "\<exists>d'. advance d f n = Inr d'"
proof (cases f)
  case YEARLY
  have "valid_date (Date (d_year d + n) (d_month d) 28)"
    using assms(2-4) days_in_month_bounds(1) [of "d_year d + n" "d_month d"]
    by (auto simp: valid_date_def)
  then have "mk_date (d_year d + n) (d_month d) 28 = Inr (Date (d_year d + n) (d_month d) 28)"
    by (simp add: mk_date_Inr_iff)
  with YEARLY show ?thesis by (simp add: advance_def split: sum.split)
qed (use assms add_days_total [OF assms(3,2) _ _ assms(4)] add_months_total [OF assms(3,2) _ _ assms(4)]
    in \<open>auto simp: advance_def\<close>)

interpretation plan_steps: date_steps plan_step
  "\<lambda>p. pt_frequency p \<noteq> ONCE \<and> 1 \<le> pt_interval p" pt_interval
  by unfold_locales (auto simp: plan_step_def dest: advance_forward intro: advance_total)

section \<open>Properties\<close>

definition recurs :: "planned_transaction \<Rightarrow> date \<Rightarrow> bool" where
  "recurs p d \<longleftrightarrow> reaches (plan_step p) (pt_start_date p) d \<and> \<not> past_end (pt_end_date p) d"

text \<open>
  C6. The occurrences of a recurring plan in a window are found completely and once: for an interval of
  at least one, the search returns (no loop runs forever, nothing overflows while the window's year
  plus the interval stays within the calendar) and its result is the strictly increasing list of
  exactly those dates of the recurrence that lie in the window and not after the plan's end.
\<close>

theorem plan_dates_exact:
  assumes "pt_frequency p \<noteq> ONCE" and "1 \<le> pt_interval p" and "valid_date (pt_start_date p)"
    and "start \<le> stop" and "d_year stop + pt_interval p \<le> 9998"
  shows "\<exists>ds. plan_dates p start stop = Some (Inr ds) \<and> sorted_wrt (<) ds \<and>
    set ds = {d. start \<le> d \<and> d \<le> stop \<and> recurs p d}"
proof (cases "past_end (pt_end_date p) start")
  case True
  then have "{d. start \<le> d \<and> d \<le> stop \<and> recurs p d} = {}"
    by (fastforce simp: recurs_def past_end_def split: option.splits)
  moreover have "plan_dates p start stop = Some (Inr [])"
    using True by (simp add: plan_dates_def past_end_def split: option.splits)
  ultimately show ?thesis by simp
next
  case False
  have good: "pt_frequency p \<noteq> ONCE \<and> 1 \<le> pt_interval p" using assms by simp
  have y: "d_year start + pt_interval p \<le> 9998" by (rule plan_steps.year_mono [OF assms(4,5)])
  from plan_steps.fast_forward_exact [OF good y assms(3), of "pt_end_date p"] obtain x where
    x: "fast_forward (plan_step p) (pt_end_date p) start (pt_start_date p) = Some (Inr x)" "valid_date x"
      "\<forall>y. start \<le> y \<and> \<not> past_end (pt_end_date p) y \<longrightarrow>
        reaches (plan_step p) (pt_start_date p) y = reaches (plan_step p) x y" by blast
  from plan_steps.collect_exact [OF good assms(5) x(2), of "pt_end_date p" start "[]"] obtain ds where
    ds: "collect (plan_step p) (pt_end_date p) start stop x [] = Some (Inr ds)" "sorted_wrt (<) ds"
      "set ds = {y. start \<le> y \<and> y \<le> stop \<and> \<not> past_end (pt_end_date p) y \<and> reaches (plan_step p) x y}"
    by auto
  have "plan_dates p start stop = Some (Inr ds)"
    using False assms(1) x(1) ds(1) by (simp add: plan_dates_def past_end_def split: option.splits)
  with ds(2,3) x(3) show ?thesis by (intro exI [of _ ds]) (auto simp: recurs_def)
qed

definition ex_plan :: "recurrence_frequency \<Rightarrow> int \<Rightarrow> date \<Rightarrow> date option \<Rightarrow> planned_transaction" where
  "ex_plan f n d e = \<lparr>pt_id = 1, pt_name = ''Rent'', pt_amount = 12, pt_type = EXPENSE, pt_account_id = 1,
     pt_target_account_id = None, pt_category_id = None, pt_description = None, pt_payee_id = None,
     pt_frequency = f, pt_interval = n, pt_start_date = d, pt_end_date = e, pt_is_active = True\<rparr>"

theorem plan_dates_exact_witness:
  "\<exists>ds. plan_dates (ex_plan MONTHLY 1 (Date 2026 1 31) None) (Date 2026 2 1) (Date 2026 4 30) = Some (Inr ds) \<and>
     sorted_wrt (<) ds \<and> ds = [Date 2026 2 28, Date 2026 3 28, Date 2026 4 28]"
proof -
  let ?p = "ex_plan MONTHLY 1 (Date 2026 1 31) None"
  have "plan_dates ?p (Date 2026 2 1) (Date 2026 4 30) =
      Some (Inr [Date 2026 2 28, Date 2026 3 28, Date 2026 4 28])" by code_simp
  with plan_dates_exact [of ?p "Date 2026 2 1" "Date 2026 4 30"] show ?thesis
    by (auto simp: ex_plan_def days_in_month_def)
qed

text \<open>
  The next occurrence is the first date of the recurrence strictly after the given day, or none
  when that date lies after the plan's end.
\<close>

lemma next_occurrence_exact:
  assumes "pt_frequency p \<noteq> ONCE" and "1 \<le> pt_interval p" and "valid_date (pt_start_date p)"
    and "d_year today + pt_interval p \<le> 9998"
  shows "\<exists>x. today < x \<and> reaches (plan_step p) (pt_start_date p) x \<and>
    (\<forall>y. reaches (plan_step p) (pt_start_date p) y \<and> today < y \<longrightarrow> x \<le> y) \<and>
    next_occurrence p today =
      Some (Inr (if past_end (pt_end_date p) x then None else Some x))"
proof -
  have good: "pt_frequency p \<noteq> ONCE \<and> 1 \<le> pt_interval p" using assms by simp
  from plan_steps.catch_up_exact [OF good assms(4,3)] obtain x where
    "catch_up (plan_step p) today (pt_start_date p) = Some (Inr x)" "today < x"
    "reaches (plan_step p) (pt_start_date p) x"
    "\<forall>y. reaches (plan_step p) (pt_start_date p) y \<and> today < y \<longrightarrow> x \<le> y" by blast
  with assms(1) show ?thesis by (intro exI [of _ x]) (simp add: next_occurrence_def)
qed

lemma next_occurrence_exact_witness:
  "\<exists>x. next_occurrence (ex_plan YEARLY 1 (Date 2024 2 29) None) (Date 2026 5 1) = Some (Inr (Some x)) \<and>
     Date 2026 5 1 < x"
  using next_occurrence_exact [of "ex_plan YEARLY 1 (Date 2024 2 29) None" "Date 2026 5 1"]
  by (auto simp: ex_plan_def days_in_month_def is_leap_def past_end_def)

text \<open>
  The bound on the interval is needed: the schema puts no upper limit on it, and a large one lets the
  \<open>ValueError\<close> of the date constructor escape from the search.
\<close>

lemma large_interval_raises:
  "plan_dates (ex_plan YEARLY 9000 (Date 2026 1 1) None) (Date 2026 1 1) (Date 2026 12 31) =
    Some (Inl ValueError)"
  by code_simp

end
