(* ===== verification/Planned.thy ===== *)
theory Planned
  imports Transactions Recurrence
begin

text \<open>
  \<open>PlannedTransactionService\<close> (\<open>src/src/kaleta/services/planned_transaction_service.py\<close>) on top of
  the recurrence arithmetic: the plans, the occurrences of all plans in a window, the month grid, and
  the posting of occurrences into the ledger, where the unique constraint on
  \<open>(planned_transaction_id, date)\<close> makes posting idempotent.
\<close>

section \<open>Definitions\<close>

subsection \<open>Plans\<close>

definition get_plan :: "db \<Rightarrow> int \<Rightarrow> planned_transaction option" where
  "get_plan s i = find_row pt_id i (plans s)"

definition list_plans :: "db \<Rightarrow> planned_transaction list" where
  "list_plans s = sort_key (\<lambda>p. (pt_start_date p, text_key (Some (pt_name p)))) (plans s)"

definition plan_fk :: "db \<Rightarrow> planned_transaction \<Rightarrow> bool" where
  "plan_fk s p \<longleftrightarrow> fk_ok acc_id (accounts s) (Some (pt_account_id p)) \<and>
    fk_ok acc_id (accounts s) (pt_target_account_id p) \<and>
    fk_ok cat_id (categories s) (pt_category_id p) \<and> fk_ok pay_id (payees s) (pt_payee_id p)"

text \<open>The payload of \<open>create\<close> is a plan without its id.\<close>

definition create_plan :: "planned_transaction \<Rightarrow> db \<Rightarrow> (planned_transaction \<times> db) result" where
  "create_plan payload s =
    (let p = payload\<lparr>pt_id := seq_plan s\<rparr>
     in if plan_fk s p then Inr (p, s\<lparr>plans := plans s @ [p], seq_plan := seq_plan s + 1\<rparr>)
        else Inl (IntegrityError ''planned_transactions''))"

record planned_update =
  ptu_name :: "string option"
  ptu_amount :: "decimal option"
  ptu_type :: "transaction_type option"
  ptu_account_id :: "int option"
  ptu_category_id :: "int option option"
  ptu_description :: "string option option"
  ptu_frequency :: "recurrence_frequency option"
  ptu_interval :: "int option"
  ptu_start_date :: "date option"
  ptu_end_date :: "date option option"
  ptu_is_active :: "bool option"

definition apply_plan_update :: "planned_update \<Rightarrow> planned_transaction \<Rightarrow> planned_transaction" where
  "apply_plan_update u =
    patch (ptu_is_active u) (\<lambda>v p. p\<lparr>pt_is_active := v\<rparr>) \<circ>
    patch (ptu_end_date u) (\<lambda>v p. p\<lparr>pt_end_date := v\<rparr>) \<circ>
    patch (ptu_start_date u) (\<lambda>v p. p\<lparr>pt_start_date := v\<rparr>) \<circ>
    patch (ptu_interval u) (\<lambda>v p. p\<lparr>pt_interval := v\<rparr>) \<circ>
    patch (ptu_frequency u) (\<lambda>v p. p\<lparr>pt_frequency := v\<rparr>) \<circ>
    patch (ptu_description u) (\<lambda>v p. p\<lparr>pt_description := v\<rparr>) \<circ>
    patch (ptu_category_id u) (\<lambda>v p. p\<lparr>pt_category_id := v\<rparr>) \<circ>
    patch (ptu_account_id u) (\<lambda>v p. p\<lparr>pt_account_id := v\<rparr>) \<circ>
    patch (ptu_type u) (\<lambda>v p. p\<lparr>pt_type := v\<rparr>) \<circ>
    patch (ptu_amount u) (\<lambda>v p. p\<lparr>pt_amount := v\<rparr>) \<circ>
    patch (ptu_name u) (\<lambda>v p. p\<lparr>pt_name := v\<rparr>)"

definition save_plan :: "planned_transaction \<Rightarrow> db \<Rightarrow> db result" where
  "save_plan p s =
    (if plan_fk s p then Inr (s\<lparr>plans := upd_row pt_id (pt_id p) (\<lambda>_. p) (plans s)\<rparr>)
     else Inl (IntegrityError ''planned_transactions''))"

definition update_plan ::
  "int \<Rightarrow> planned_update \<Rightarrow> db \<Rightarrow> (planned_transaction option \<times> db) result" where
  "update_plan i u s =
    (case get_plan s i of
       None \<Rightarrow> Inr (None, s)
     | Some p \<Rightarrow> ebind (save_plan (apply_plan_update u p) s) (\<lambda>s'. Inr (get_plan s' i, s')))"

definition toggle_active :: "int \<Rightarrow> db \<Rightarrow> (planned_transaction option \<times> db) result" where
  "toggle_active i s =
    (case get_plan s i of
       None \<Rightarrow> Inr (None, s)
     | Some p \<Rightarrow> ebind (save_plan (p\<lparr>pt_is_active := \<not> pt_is_active p\<rparr>) s) (\<lambda>s'. Inr (get_plan s' i, s')))"

text \<open>The posted rows stay, unlinked by \<open>ON DELETE SET NULL\<close>.\<close>

definition delete_plan :: "int \<Rightarrow> db \<Rightarrow> bool \<times> db" where
  "delete_plan i s =
    (case get_plan s i of
       None \<Rightarrow> (False, s)
     | Some p \<Rightarrow> (True, s\<lparr>plans := del_row pt_id i (plans s),
         transactions := map (\<lambda>t. t\<lparr>tx_planned_id := unlinked i (tx_planned_id t)\<rparr>) (transactions s)\<rparr>))"

text \<open>The first row of each date, in date order.\<close>

fun first_per_date :: "date set \<Rightarrow> transaction list \<Rightarrow> transaction list" where
  "first_per_date seen [] = []"
| "first_per_date seen (t # ts) =
    (if tx_date t \<in> seen then first_per_date seen ts
     else t # first_per_date (insert (tx_date t) seen) ts)"

definition link_history :: "env \<Rightarrow> planned_transaction \<Rightarrow> int list \<Rightarrow> db \<Rightarrow> db result" where
  "link_history e p ids s =
    (let rows = sort_key tx_date (filter (\<lambda>t. tx_id t \<in> set ids \<and> tx_planned_id t = None \<and>
                  tx_date t < pt_start_date p) (transactions s))
     in efold (\<lambda>t. save_tx (env_now e) (t\<lparr>tx_planned_id := Some (pt_id p)\<rparr>)) (first_per_date {} rows) s)"

subsection \<open>Occurrences\<close>

record occurrence =
  occ_date :: date
  occ_planned_id :: int
  occ_name :: string
  occ_amount :: decimal
  occ_type :: transaction_type
  occ_account_id :: int
  occ_account_name :: "string option"
  occ_category_id :: "int option"
  occ_category_name :: "string option"

definition make_occurrence :: "db \<Rightarrow> planned_transaction \<Rightarrow> date \<Rightarrow> occurrence" where
  "make_occurrence s p d = \<lparr>occ_date = d, occ_planned_id = pt_id p, occ_name = pt_name p,
     occ_amount = pt_amount p, occ_type = pt_type p, occ_account_id = pt_account_id p,
     occ_account_name = map_option acc_name (get_account s (pt_account_id p)),
     occ_category_id = pt_category_id p,
     occ_category_name =
       Option.bind (pt_category_id p) (\<lambda>c. map_option cat_name (find_row cat_id c (categories s)))\<rparr>"

primrec gather :: "('p \<Rightarrow> 'a list run) \<Rightarrow> 'p list \<Rightarrow> 'a list run" where
  "gather f [] = Some (Inr [])"
| "gather f (p # ps) = rbind (f p) (\<lambda>xs. rbind (gather f ps) (\<lambda>ys. Some (Inr (xs @ ys))))"

definition posted :: "db \<Rightarrow> int \<Rightarrow> date \<Rightarrow> bool" where
  "posted s pid d \<longleftrightarrow> (\<exists>t \<in> set (transactions s). tx_planned_id t = Some pid \<and> tx_date t = d)"

definition posted_keys :: "db \<Rightarrow> (int \<times> date) list \<Rightarrow> (int \<times> date) list" where
  "posted_keys s candidates = filter (\<lambda>(pid, d). posted s pid d) candidates"

definition occ_key :: "occurrence \<Rightarrow> int \<times> date" where
  "occ_key oc = (occ_planned_id oc, occ_date oc)"

definition get_occurrences ::
  "db \<Rightarrow> date \<Rightarrow> date \<Rightarrow> int option \<Rightarrow> bool \<Rightarrow> bool \<Rightarrow> occurrence list run" where
  "get_occurrences s start stop account_id active_only exclude_posted =
    (let planned = filter (\<lambda>p. (active_only \<longrightarrow> pt_is_active p) \<and>
            (account_id = None \<or> account_id = Some (pt_account_id p))) (plans s)
     in rbind (gather (\<lambda>p. rbind (plan_dates p start stop) (\<lambda>ds.
            Some (Inr (map (make_occurrence s p) ds)))) planned) (\<lambda>occs.
          let kept = (if exclude_posted
                then filter (\<lambda>oc. occ_key oc \<notin> set (posted_keys s (map occ_key occs))) occs
                else occs)
          in Some (Inr (sort_key occ_date kept))))"

definition upcoming_window ::
  "int \<Rightarrow> date \<Rightarrow> date option \<Rightarrow> date option \<Rightarrow> (date \<times> date) option result" where
  "upcoming_window days today date_from date_to =
    (if days \<le> 0 then Inr None
     else
       let start = (case date_from of None \<Rightarrow> today | Some f \<Rightarrow> max today f)
       in ebind (add_days today days) (\<lambda>stop0.
            let stop = (case date_to of None \<Rightarrow> stop0 | Some t \<Rightarrow> min stop0 t)
            in Inr (if stop < start then None else Some (start, stop))))"

definition upcoming_for_ledger ::
  "db \<Rightarrow> date \<Rightarrow> date \<Rightarrow> int list \<Rightarrow> int list \<Rightarrow> transaction_type list \<Rightarrow> string \<Rightarrow> occurrence list run" where
  "upcoming_for_ledger s start stop account_ids category_ids types search =
    (if stop < start then Some (Inr [])
     else rbind (get_occurrences s start stop None True True) (\<lambda>occs.
       let needle = casefold (strip search)
       in Some (Inr (filter (\<lambda>oc.
            passes account_ids (occ_account_id oc \<in> set account_ids) \<and>
            passes category_ids (occ_category_id oc \<in> Some ` set category_ids) \<and>
            passes types (occ_type oc \<in> set types) \<and>
            passes needle (contains needle (casefold (occ_name oc)))) occs))))"

subsection \<open>The month grid\<close>

record day_aggregate =
  da_date :: date
  da_inflow :: decimal
  da_outflow :: decimal
  da_occurrences :: "occurrence list"

definition aggregate_occ :: "occurrence \<Rightarrow> day_aggregate \<Rightarrow> day_aggregate" where
  "aggregate_occ oc cell =
    (let amt = \<bar>occ_amount oc\<bar>
     in (if occ_type oc = INCOME then cell\<lparr>da_inflow := da_inflow cell + amt\<rparr>
         else if occ_type oc = EXPENSE then cell\<lparr>da_outflow := da_outflow cell + amt\<rparr>
         else cell)\<lparr>da_occurrences := da_occurrences cell @ [oc]\<rparr>)"

text \<open>The dict of cells in insertion order.\<close>

fun add_occ :: "occurrence \<Rightarrow> day_aggregate list \<Rightarrow> day_aggregate list" where
  "add_occ oc [] = [aggregate_occ oc \<lparr>da_date = occ_date oc, da_inflow = 0, da_outflow = 0, da_occurrences = []\<rparr>]"
| "add_occ oc (cell # cells) =
    (if da_date cell = occ_date oc then aggregate_occ oc cell # cells else cell # add_occ oc cells)"

record month_grid =
  mg_year :: int
  mg_month :: int
  mg_days :: "day_aggregate list"
  mg_overdue :: "occurrence list"

definition total_inflow :: "month_grid \<Rightarrow> decimal" where
  "total_inflow g = sum_list (map da_inflow (mg_days g))"

definition total_outflow :: "month_grid \<Rightarrow> decimal" where
  "total_outflow g = sum_list (map da_outflow (mg_days g))"

definition total_net :: "month_grid \<Rightarrow> decimal" where
  "total_net g = total_inflow g - total_outflow g"

definition grid_days :: "occurrence list \<Rightarrow> day_aggregate list" where
  "grid_days occs = fold add_occ occs []"

definition grid_for_month :: "db \<Rightarrow> int \<Rightarrow> int \<Rightarrow> int option \<Rightarrow> bool \<Rightarrow> int \<Rightarrow> month_grid run" where
  "grid_for_month s year month account_id active_only window =
    rbind (Some (mk_date year month 1)) (\<lambda>first.
    rbind (Some (mk_date year month (days_in_month year month))) (\<lambda>last.
    rbind (get_occurrences s first last account_id active_only True) (\<lambda>occs.
    rbind (Some (add_days first (- window))) (\<lambda>overdue_start.
    rbind (Some (add_days first (- 1))) (\<lambda>overdue_end.
    rbind (if overdue_start \<le> overdue_end
           then get_occurrences s overdue_start overdue_end account_id active_only True
           else Some (Inr [])) (\<lambda>overdue.
      Some (Inr \<lparr>mg_year = year, mg_month = month, mg_days = grid_days occs, mg_overdue = overdue\<rparr>)))))))"

subsection \<open>Posting\<close>

definition find_posted :: "db \<Rightarrow> int \<Rightarrow> date \<Rightarrow> transaction option result" where
  "find_posted s pid d =
    (case filter (\<lambda>t. tx_planned_id t = Some pid \<and> tx_date t = d) (transactions s) of
       [] \<Rightarrow> Inr None
     | [t] \<Rightarrow> Inr (Some t)
     | _ \<Rightarrow> Inl MultipleResultsFound)"

definition plan_description :: "planned_transaction \<Rightarrow> string" where
  "plan_description p =
    strip (case pt_description p of None \<Rightarrow> pt_name p | Some d \<Rightarrow> if d = [] then pt_name p else d)"

definition posting_row ::
  "env \<Rightarrow> planned_transaction \<Rightarrow> date \<Rightarrow> int \<Rightarrow> int option \<Rightarrow> transfer_direction option \<Rightarrow> bool \<Rightarrow> transaction" where
  "posting_row e p d account category dir internal = \<lparr>tx_id = 0, tx_account_id = account,
     tx_category_id = category, tx_payee_id = None, tx_linked_id = None, tx_planned_id = Some (pt_id p),
     tx_irregular_id = None, tx_gift_id = None, tx_amount = \<bar>pt_amount p\<bar>, tx_exchange_rate = None,
     tx_type = pt_type p, tx_date = d, tx_description = plan_description p, tx_notes = None,
     tx_direction = dir, tx_is_internal = internal, tx_is_split = False, tx_user_id = env_member e,
     tx_updated_at = env_now e, tx_splits = [], tx_tags = []\<rparr>"

definition post_transfer_legs ::
  "env \<Rightarrow> planned_transaction \<Rightarrow> int \<Rightarrow> date \<Rightarrow> db \<Rightarrow> (transaction \<times> db) result" where
  "post_transfer_legs e p target d s =
    ebind (insert_tx (posting_row e p d (pt_account_id p) None (Some DIR_OUT) True) s) (\<lambda>(out_leg, s1).
    ebind (insert_tx ((posting_row e p d target None (Some DIR_IN) True)
             \<lparr>tx_planned_id := None, tx_linked_id := Some (tx_id out_leg)\<rparr>) s1) (\<lambda>(in_leg, s2).
    let out = out_leg\<lparr>tx_linked_id := Some (tx_id in_leg)\<rparr>
    in ebind (save_tx (env_now e) out s2) (\<lambda>s3. Inr (out, s3))))"

text \<open>
  The INSERT runs in a savepoint. When it fails the rows are as before, so the second look-up finds
  what the first one found, nothing, and the \<open>IntegrityError\<close> is raised again.
\<close>

definition ensure_posted :: "env \<Rightarrow> int \<Rightarrow> date \<Rightarrow> db \<Rightarrow> (transaction \<times> db) result" where
  "ensure_posted e pid d s =
    ebind (find_posted s pid d) (\<lambda>existing.
    case existing of
      Some t \<Rightarrow> Inr (t, s)
    | None \<Rightarrow>
        (case get_plan s pid of
           None \<Rightarrow> Inl (NotFoundError ''errors.planned_transaction.not_found'')
         | Some p \<Rightarrow>
             let attempt =
               (if pt_type p = TRANSFER \<and> pt_target_account_id p \<noteq> None
                then post_transfer_legs e p (the (pt_target_account_id p)) d s
                else insert_tx (posting_row e p d (pt_account_id p) (pt_category_id p)
                       (if pt_type p = TRANSFER then Some DIR_OUT else None) False) s)
             in case attempt of
                  Inl (IntegrityError m) \<Rightarrow>
                    ebind (find_posted s pid d) (\<lambda>again.
                      case again of Some t \<Rightarrow> Inr (t, s) | None \<Rightarrow> Inl (IntegrityError m))
                | r \<Rightarrow> r))"

definition post_occurrence :: "env \<Rightarrow> int \<Rightarrow> date \<Rightarrow> db \<Rightarrow> (transaction \<times> db) result" where
  "post_occurrence e pid d s =
    ebind (ensure_posted e pid d s) (\<lambda>(t, s').
      case get_tx s' (tx_id t) of
        None \<Rightarrow> Inl (KaletaError ''missing right after posting'')
      | Some fetched \<Rightarrow> Inr (fetched, s'))"

text \<open>\<open>list(dict.fromkeys(xs))\<close>: the distinct elements in the order of their first occurrence.\<close>

fun fromkeys :: "'a list \<Rightarrow> 'a list" where
  "fromkeys [] = []"
| "fromkeys (x # xs) = x # filter (\<lambda>y. y \<noteq> x) (fromkeys xs)"

primrec post_keys :: "env \<Rightarrow> (int \<times> date) list \<Rightarrow> db \<Rightarrow> (transaction list \<times> db) result" where
  "post_keys e [] s = Inr ([], s)"
| "post_keys e (k # ks) s =
    ebind (ensure_posted e (fst k) (snd k) s) (\<lambda>(t, s1).
    ebind (post_keys e ks s1) (\<lambda>(ts, s2). Inr (t # ts, s2)))"

definition post_occurrences :: "env \<Rightarrow> occurrence list \<Rightarrow> db \<Rightarrow> (transaction list \<times> db) result" where
  "post_occurrences e occs s =
    (if occs = [] then Inr ([], s)
     else ebind (post_keys e (fromkeys (map occ_key occs)) s) (\<lambda>(posted, s').
       let ids = map tx_id posted
       in if \<exists>i \<in> set ids. get_tx s' i = None
          then Inl (ConflictError ''errors.planned_transaction.posted_rows_missing'')
          else Inr (map (\<lambda>i. the (get_tx s' i)) ids, s')))"

text \<open>Each occurrence is committed on its own: what was posted before an exception stays.\<close>

primrec post_each :: "env \<Rightarrow> (int \<times> date) list \<Rightarrow> db \<Rightarrow> transaction list result \<times> db" where
  "post_each e [] s = (Inr [], s)"
| "post_each e (k # ks) s =
    (case post_occurrence e (fst k) (snd k) s of
       Inl err \<Rightarrow> (Inl err, s)
     | Inr (t, s1) \<Rightarrow>
         (case post_each e ks s1 of
            (Inl err, s2) \<Rightarrow> (Inl err, s2)
          | (Inr ts, s2) \<Rightarrow> (Inr (t # ts), s2)))"

definition post_due ::
  "env \<Rightarrow> date \<Rightarrow> int \<Rightarrow> int option \<Rightarrow> db \<Rightarrow> (transaction list result \<times> db) option" where
  "post_due e as_of lookback plan s =
    (case rbind (Some (add_days as_of (- lookback))) (\<lambda>start.
            get_occurrences s start as_of None True True) of
       None \<Rightarrow> None
     | Some (Inl err) \<Rightarrow> Some (Inl err, s)
     | Some (Inr occs) \<Rightarrow>
         Some (post_each e (map occ_key
           (filter (\<lambda>oc. plan = None \<or> plan = Some (occ_planned_id oc)) occs)) s))"

section \<open>Changes of the ledger only\<close>

definition tx_frame :: "db \<Rightarrow> db \<Rightarrow> bool" where
  "tx_frame s s' \<longleftrightarrow> (\<exists>ts n. s' = s\<lparr>transactions := ts, seq_tx := n\<rparr>)"

lemma tx_frameI: "s' = s\<lparr>transactions := ts, seq_tx := n\<rparr> \<Longrightarrow> tx_frame s s'"
  unfolding tx_frame_def by blast

lemma tx_frame_refl [simp]: "tx_frame s s"
  by (rule tx_frameI [where ts = "transactions s" and n = "seq_tx s"]) simp

lemma tx_frame_trans: "tx_frame s t \<Longrightarrow> tx_frame t u \<Longrightarrow> tx_frame s u"
proof -
  assume "tx_frame s t" "tx_frame t u"
  then obtain ts n us m where "t = s\<lparr>transactions := ts, seq_tx := n\<rparr>"
    "u = t\<lparr>transactions := us, seq_tx := m\<rparr>" unfolding tx_frame_def by blast
  then show ?thesis by (intro tx_frameI [where ts = us and n = m]) simp
qed

lemma tx_frame_insert: "insert_tx t s = Inr (r, s') \<Longrightarrow> tx_frame s s'"
  by (drule insert_tx_Inr(2)) (erule tx_frameI)

lemma tx_frame_save:
  assumes "save_tx now t s = Inr s'" shows "tx_frame s s'"
  using save_tx_Inr(1) [OF assms] by (intro tx_frameI [where n = "seq_tx s"]) simp

lemma tx_frameD:
  assumes "tx_frame s s'"
  shows "plans s' = plans s" and "accounts s' = accounts s" and "categories s' = categories s"
    and "get_plan s' = get_plan s" and "get_account s' = get_account s"
  using assms by (auto simp: tx_frame_def fun_eq_iff get_plan_def get_account_def)

section \<open>Posted occurrences\<close>

lemma posted_insert:
  assumes "insert_tx t s = Inr (r, s')"
  shows "posted s' p d \<longleftrightarrow> posted s p d \<or> (tx_planned_id t = Some p \<and> tx_date t = d)"
  using insert_tx_Inr(1,2) [OF assms] by (auto simp: posted_def)

lemma posted_save:
  assumes "save_tx now t s = Inr s'" and "get_tx s (tx_id t) = Some old" and "ledger_ok s"
    and "tx_planned_id t = tx_planned_id old" and "tx_date t = tx_date old"
  shows "posted s' p d \<longleftrightarrow> posted s p d"
proof -
  have uniq: "r = old" if "r \<in> set (transactions s)" "tx_id r = tx_id t" for r
    using find_row_member [of tx_id "transactions s" r] that assms(2,3)
    by (auto simp: ledger_ok_def ids_ok_def get_tx_def)
  have old: "old \<in> set (transactions s)" "tx_id old = tx_id t" using get_tx_Some [OF assms(2)] by simp_all
  have tr: "transactions s' = map (\<lambda>r. if tx_id r = tx_id t then touch now r t else r) (transactions s)"
    using save_tx_Inr(1) [OF assms(1)] by (simp add: upd_row_def)
  let ?f = "\<lambda>r. if tx_id r = tx_id t then touch now r t else r"
  have "tx_planned_id (?f r) = tx_planned_id r" "tx_date (?f r) = tx_date r"
    if "r \<in> set (transactions s)" for r
    using uniq [OF that] assms(4,5) by auto
  then show ?thesis unfolding posted_def tr set_map bex_simps by (metis (no_types, lifting))
qed

lemma find_posted_Some:
  assumes "ledger_ok s" and "t \<in> set (transactions s)" and "tx_planned_id t = Some p" and "tx_date t = d"
  shows "find_posted s p d = Inr (Some t)"
proof -
  have ids: "distinct (map tx_id (transactions s))" using assms(1) by (simp add: ledger_ok_def ids_ok_def)
  have "y = t" if y: "y \<in> set (transactions s)" "tx_planned_id y = Some p" "tx_date y = d" for y
  proof -
    have "same_occurrence y t" using y assms by (simp add: same_occurrence_def)
    with assms(1) y(1) assms(2) have "tx_id y = tx_id t" by (auto simp: ledger_ok_def)
    with y(1) assms(2) ids show ?thesis by (auto simp: distinct_map dest: inj_onD)
  qed
  with assms(3,4) have iff: "tx_planned_id y = Some p \<and> tx_date y = d \<longleftrightarrow> y = t"
    if "y \<in> set (transactions s)" for y using that by blast
  have "filter (\<lambda>t. tx_planned_id t = Some p \<and> tx_date t = d) (transactions s) = [t]"
    by (rule filter_unique [OF _ assms(2) iff]) (use ids in \<open>simp_all add: distinct_map\<close>)
  then show ?thesis by (simp add: find_posted_def)
qed

lemma find_posted_None: "\<not> posted s p d \<Longrightarrow> find_posted s p d = Inr None"
proof -
  assume "\<not> posted s p d"
  then have "filter (\<lambda>t. tx_planned_id t = Some p \<and> tx_date t = d) (transactions s) = []"
    by (auto simp: posted_def filter_empty_conv)
  then show ?thesis by (simp add: find_posted_def)
qed

definition posting_attempt ::
  "env \<Rightarrow> planned_transaction \<Rightarrow> date \<Rightarrow> db \<Rightarrow> (transaction \<times> db) result" where
  "posting_attempt e p d s =
    (if pt_type p = TRANSFER \<and> pt_target_account_id p \<noteq> None
     then post_transfer_legs e p (the (pt_target_account_id p)) d s
     else insert_tx (posting_row e p d (pt_account_id p) (pt_category_id p)
            (if pt_type p = TRANSFER then Some DIR_OUT else None) False) s)"

lemma ensure_posted_new:
  assumes "\<not> posted s pid d"
  shows "ensure_posted e pid d s =
    (case get_plan s pid of
       None \<Rightarrow> Inl (NotFoundError ''errors.planned_transaction.not_found'')
     | Some p \<Rightarrow> posting_attempt e p d s)"
proof (cases "get_plan s pid")
  case None
  with find_posted_None [OF assms] show ?thesis by (simp add: ensure_posted_def)
next
  case (Some p)
  have "ensure_posted e pid d s = (case posting_attempt e p d s of
      Inl (IntegrityError m) \<Rightarrow> Inl (IntegrityError m) | r \<Rightarrow> r)"
    using find_posted_None [OF assms] Some
    by (simp add: ensure_posted_def posting_attempt_def Let_def)
  also have "\<dots> = posting_attempt e p d s" by (simp split: sum.split error.split)
  finally show ?thesis using Some by simp
qed

lemma ensure_posted_old:
  assumes "ledger_ok s" and "t \<in> set (transactions s)" and "tx_planned_id t = Some pid" and "tx_date t = d"
  shows "ensure_posted e pid d s = Inr (t, s)"
  using find_posted_Some [OF assms] by (simp add: ensure_posted_def)

lemma post_transfer_legs_Inr:
  assumes "post_transfer_legs e p target d s = Inr (out, s')"
  obtains out_leg in_leg s1 s2 where
    "insert_tx (posting_row e p d (pt_account_id p) None (Some DIR_OUT) True) s = Inr (out_leg, s1)"
    "insert_tx ((posting_row e p d target None (Some DIR_IN) True)
       \<lparr>tx_planned_id := None, tx_linked_id := Some (tx_id out_leg)\<rparr>) s1 = Inr (in_leg, s2)"
    "out = out_leg\<lparr>tx_linked_id := Some (tx_id in_leg)\<rparr>" "save_tx (env_now e) out s2 = Inr s'"
  using assms by (auto simp: post_transfer_legs_def ebind_Inr_iff Let_def)

lemma get_tx_new:
  assumes "ledger_ok s" and "insert_tx t s = Inr (r, s')"
  shows "get_tx s' (tx_id r) = Some r"
  using get_tx_insert [OF assms(2,1)] insert_tx_Inr(1) [OF assms(2)] by simp

text \<open>Every row is still there, for the same plan and day.\<close>

definition rows_kept :: "db \<Rightarrow> db \<Rightarrow> bool" where
  "rows_kept s s' \<longleftrightarrow> (\<forall>i u. get_tx s i = Some u \<longrightarrow>
    (\<exists>u'. get_tx s' i = Some u' \<and> tx_planned_id u' = tx_planned_id u \<and> tx_date u' = tx_date u))"

lemma rows_kept_refl [simp]: "rows_kept s s"
  by (simp add: rows_kept_def)

lemma rows_kept_trans: "rows_kept s t \<Longrightarrow> rows_kept t u \<Longrightarrow> rows_kept s u"
  unfolding rows_kept_def by metis

lemma rows_kept_insert: "ledger_ok s \<Longrightarrow> insert_tx t s = Inr (r, s') \<Longrightarrow> rows_kept s s'"
  by (simp add: rows_kept_def get_tx_kept)

lemma rows_kept_save:
  assumes "save_tx now t s = Inr s'" and "get_tx s (tx_id t) = Some old"
    and "tx_planned_id t = tx_planned_id old" and "tx_date t = tx_date old"
  shows "rows_kept s s'"
  using get_tx_save [OF assms(1)] assms(2-4) by (auto simp: rows_kept_def)

text \<open>What a successful posting attempt leaves behind.\<close>

definition posting_done :: "db \<Rightarrow> int \<Rightarrow> date \<Rightarrow> transaction \<Rightarrow> db \<Rightarrow> bool" where
  "posting_done s pid d t s' \<longleftrightarrow> ledger_ok s' \<and> tx_frame s s' \<and> rows_kept s s' \<and>
    (\<exists>t'. get_tx s' (tx_id t) = Some t' \<and> tx_planned_id t' = Some pid \<and> tx_date t' = d) \<and>
    (\<forall>q x. posted s' q x \<longleftrightarrow> posted s q x \<or> (q = pid \<and> x = d))"

lemma post_transfer_legs_done:
  assumes "ledger_ok s" and "post_transfer_legs e p target d s = Inr (t, s')"
  shows "posting_done s (pt_id p) d t s'"
proof -
  from assms(2) obtain out_leg in_leg s1 s2 where
    i1: "insert_tx (posting_row e p d (pt_account_id p) None (Some DIR_OUT) True) s = Inr (out_leg, s1)"
    and i2: "insert_tx ((posting_row e p d target None (Some DIR_IN) True)
       \<lparr>tx_planned_id := None, tx_linked_id := Some (tx_id out_leg)\<rparr>) s1 = Inr (in_leg, s2)"
    and out: "t = out_leg\<lparr>tx_linked_id := Some (tx_id in_leg)\<rparr>"
    and sv: "save_tx (env_now e) t s2 = Inr s'"
    by (rule post_transfer_legs_Inr)
  have ok1: "ledger_ok s1" by (rule ledger_ok_insert [OF assms(1) i1])
  have ok2: "ledger_ok s2" by (rule ledger_ok_insert [OF ok1 i2])
  have g: "get_tx s2 (tx_id t) = Some out_leg"
    using get_tx_kept [OF ok1 i2 get_tx_new [OF assms(1) i1]] by (simp add: out)
  have row: "tx_planned_id out_leg = Some (pt_id p)" "tx_date out_leg = d"
    using insert_tx_Inr(1) [OF i1] by (simp_all add: posting_row_def)
  have "get_tx s' (tx_id t) = Some (touch (env_now e) out_leg t)"
    using get_tx_save [OF sv, of "tx_id t"] g by simp
  moreover have "posted s' q x \<longleftrightarrow> posted s q x \<or> (q = pt_id p \<and> x = d)" for q x
    using posted_save [OF sv g ok2] posted_insert [OF i1] posted_insert [OF i2]
    by (auto simp: out posting_row_def)
  moreover have "rows_kept s s'"
    using rows_kept_trans [OF rows_kept_trans [OF rows_kept_insert [OF assms(1) i1]
        rows_kept_insert [OF ok1 i2]] rows_kept_save [OF sv g]] by (simp add: out)
  ultimately show ?thesis
    using ledger_ok_save [OF ok2 sv] row tx_frame_trans [OF tx_frame_trans [OF tx_frame_insert [OF i1]
        tx_frame_insert [OF i2]] tx_frame_save [OF sv]]
    by (simp add: posting_done_def out)
qed

lemma posting_attempt_done:
  assumes "ledger_ok s" and "posting_attempt e p d s = Inr (t, s')"
  shows "posting_done s (pt_id p) d t s'"
proof (cases "pt_type p = TRANSFER \<and> pt_target_account_id p \<noteq> None")
  case True
  with assms show ?thesis by (auto simp: posting_attempt_def intro: post_transfer_legs_done)
next
  case False
  with assms(2) have ins: "insert_tx (posting_row e p d (pt_account_id p) (pt_category_id p)
      (if pt_type p = TRANSFER then Some DIR_OUT else None) False) s = Inr (t, s')"
    by (auto simp: posting_attempt_def)
  have "tx_planned_id t = Some (pt_id p)" "tx_date t = d"
    using insert_tx_Inr(1) [OF ins] by (simp_all add: posting_row_def)
  then show ?thesis
    using ledger_ok_insert [OF assms(1) ins] tx_frame_insert [OF ins] get_tx_new [OF assms(1) ins]
      posted_insert [OF ins] rows_kept_insert [OF assms(1) ins]
    by (auto simp: posting_done_def posting_row_def)
qed

lemma get_plan_id: "get_plan s i = Some p \<Longrightarrow> pt_id p = i"
  by (auto simp: get_plan_def dest: find_row_Some_D)

lemma ensure_posted_done:
  assumes "ledger_ok s" and "ensure_posted e pid d s = Inr (t, s')"
  shows "posting_done s pid d t s'"
proof (cases "posted s pid d")
  case True
  then obtain u where u: "u \<in> set (transactions s)" "tx_planned_id u = Some pid" "tx_date u = d"
    by (auto simp: posted_def)
  then have "t = u" "s' = s" using ensure_posted_old [OF assms(1) u] assms(2) by simp_all
  moreover have "get_tx s (tx_id u) = Some u"
    using assms(1) u(1) by (auto simp: ledger_ok_def ids_ok_def get_tx_def intro: find_row_member)
  ultimately show ?thesis using assms(1) u True by (auto simp: posting_done_def)
next
  case False
  with ensure_posted_new [OF False, of e] assms(2) obtain p where
    p: "get_plan s pid = Some p" "posting_attempt e p d s = Inr (t, s')"
    by (auto split: option.splits)
  from posting_attempt_done [OF assms(1) p(2)] get_plan_id [OF p(1)] show ?thesis by simp
qed

lemma post_occurrence_done:
  assumes "ledger_ok s" and "post_occurrence e pid d s = Inr (t, s')"
  shows "posting_done s pid d t s'" and "get_tx s' (tx_id t) = Some t"
    and "tx_planned_id t = Some pid" and "tx_date t = d"
proof -
  from assms(2) obtain u where u: "ensure_posted e pid d s = Inr (u, s')" "get_tx s' (tx_id u) = Some t"
    by (auto simp: post_occurrence_def ebind_Inr_iff split: option.splits)
  note d = ensure_posted_done [OF assms(1) u(1)]
  have id: "tx_id t = tx_id u" using get_tx_Some [OF u(2)] by simp
  show "posting_done s pid d t s'" using d by (simp add: posting_done_def id)
  show "get_tx s' (tx_id t) = Some t" using u(2) id by simp
  show "tx_planned_id t = Some pid" "tx_date t = d" using d u(2) by (auto simp: posting_done_def)
qed

section \<open>Posting is idempotent\<close>

text \<open>
  C3. Posting an occurrence twice books it once: after the first post the ledger holds one row for the
  plan and the day, and posting again, by whomever, returns that same row and changes nothing. No
  other occurrence becomes posted.
\<close>

theorem post_occurrence_idempotent:
  assumes "ledger_ok s" and "post_occurrence e pid d s = Inr (t, s')"
  shows "tx_planned_id t = Some pid \<and> tx_date t = d \<and> get_tx s' (tx_id t) = Some t \<and>
    post_occurrence e' pid d s' = Inr (t, s') \<and> ledger_ok s' \<and>
    (\<forall>q x. posted s' q x \<longleftrightarrow> posted s q x \<or> (q = pid \<and> x = d))"
proof -
  note d = post_occurrence_done [OF assms]
  have ok: "ledger_ok s'" using d(1) by (simp add: posting_done_def)
  have "t \<in> set (transactions s')" using get_tx_Some [OF d(2)] by simp
  from ensure_posted_old [OF ok this d(3,4)] d(2)
  have "post_occurrence e' pid d s' = Inr (t, s')" by (simp add: post_occurrence_def)
  with d ok show ?thesis by (simp add: posting_done_def)
qed

definition ex_plan_db :: db where
  "ex_plan_db = ex_db\<lparr>plans := [ex_plan MONTHLY 1 (Date 2026 1 31) None], seq_plan := 2\<rparr>"

lemma ex_plan_db_ok: "books_ok ex_plan_db"
  using ex_db_ok(3) by (simp add: books_ok_def ledger_ok_def money_ok_def ex_plan_db_def)

theorem post_occurrence_idempotent_witness:
  "\<exists>t s'. post_occurrence ex_env 1 (Date 2026 2 28) ex_plan_db = Inr (t, s') \<and>
     post_occurrence ex_env 1 (Date 2026 2 28) s' = Inr (t, s')"
proof -
  have "succeeds (post_occurrence ex_env 1 (Date 2026 2 28) ex_plan_db)" by code_simp
  then obtain t s' where r: "post_occurrence ex_env 1 (Date 2026 2 28) ex_plan_db = Inr (t, s')"
    by (auto elim: succeedsE)
  from post_occurrence_idempotent [OF _ r, of ex_env] ex_plan_db_ok r show ?thesis
    by (auto simp: books_ok_def)
qed

section \<open>What posting does to the balances\<close>

definition plan_effect :: "planned_transaction \<Rightarrow> int \<Rightarrow> decimal" where
  "plan_effect p a =
    (if a = pt_account_id p then (if pt_type p = INCOME then \<bar>pt_amount p\<bar> else - \<bar>pt_amount p\<bar>) else 0) +
    (if pt_type p = TRANSFER \<and> pt_target_account_id p = Some a then \<bar>pt_amount p\<bar> else 0)"

lemma not_posted_occurrence:
  assumes "\<not> posted s (pt_id p) d"
  shows "\<forall>u \<in> set (transactions s). \<not> same_occurrence u (posting_row e p d a c dir i)"
  using assms by (auto simp: posted_def same_occurrence_def posting_row_def)

lemma post_transfer_legs_total:
  assumes "books_ok s" and "cents (pt_amount p)" and "\<not> posted s (pt_id p) d" and "pt_type p = TRANSFER"
    and "has_account s (pt_account_id p)" and "has_account s target" and "get_plan s (pt_id p) \<noteq> None"
  shows "\<exists>t s'. post_transfer_legs e p target d s = Inr (t, s') \<and> books_ok s' \<and>
    (\<forall>a. has_account s a \<longrightarrow> balance s' a None = balance s a None
      - (if a = pt_account_id p then \<bar>pt_amount p\<bar> else 0) + (if a = target then \<bar>pt_amount p\<bar> else 0))"
proof -
  let ?o = "posting_row e p d (pt_account_id p) None (Some DIR_OUT) True"
  have c: "cents \<bar>pt_amount p\<bar>" using assms(2) by simp
  have "\<exists>r s1. insert_tx ?o s = Inr (r, s1)"
    by (rule insert_tx_total [OF _ _ not_posted_occurrence [OF assms(3)]])
      (use assms(4,5,7) in \<open>auto simp: tx_check_def tx_fk_def fk_ok_def posting_row_def
        has_account_def get_account_def get_plan_def\<close>)
  then obtain o1 s1 where i1: "insert_tx ?o s = Inr (o1, s1)" by auto
  let ?i = "(posting_row e p d target None (Some DIR_IN) True)
       \<lparr>tx_planned_id := None, tx_linked_id := Some (tx_id o1)\<rparr>"
  have ok1: "books_ok s1" by (rule books_ok_insert [OF assms(1) _ i1]) (simp add: posting_row_def c)
  have g1: "get_tx s1 (tx_id o1) = Some o1" by (rule get_tx_inserted(1) [OF assms(1) i1])
  note fr1 = tx_frameD [OF tx_frame_insert [OF i1]]
  have "\<exists>r s2. insert_tx ?i s1 = Inr (r, s2)"
    by (rule insert_tx_total)
      (use assms(4,6) g1 fr1 in \<open>auto simp: tx_check_def tx_fk_def fk_ok_def posting_row_def
        has_account_def get_account_def get_tx_def same_occurrence_def\<close>)
  then obtain i1' s2 where i2: "insert_tx ?i s1 = Inr (i1', s2)" by auto
  from link_back [OF assms(1) i1 i2, of "env_now e"] c obtain s3 where
    sv: "save_tx (env_now e) (o1\<lparr>tx_linked_id := Some (tx_id i1')\<rparr>) s2 = Inr s3" "books_ok s3"
      "\<forall>a. balance s3 a None = balance s2 a None"
    by (auto simp: posting_row_def)
  have "balance s3 a None = balance s a None - (if a = pt_account_id p then \<bar>pt_amount p\<bar> else 0)
      + (if a = target then \<bar>pt_amount p\<bar> else 0)" if "has_account s a" for a
    using sv(3) kaleta_ledger.ins2_bal [OF assms(1) _ _ that i1 i2] c assms(4)
    by (auto simp: tx_delta_def signed_ledger_amount_def posting_row_def)
  with i1 i2 sv show ?thesis by (simp add: post_transfer_legs_def Let_def)
qed

text \<open>
  C10. An occurrence that is not posted yet can be posted whenever its plan's accounts and category
  exist, and it moves exactly the planned money: income onto the plan's account, an expense off it; a
  planned transfer with a target takes the amount from the source and puts it on the target.
\<close>

theorem post_occurrence_books_the_plan:
  assumes "books_ok s" and "get_plan s pid = Some p" and "cents (pt_amount p)" and "\<not> posted s pid d"
    and "has_account s (pt_account_id p)" and "\<forall>x. pt_target_account_id p = Some x \<longrightarrow> has_account s x"
    and "fk_ok cat_id (categories s) (pt_category_id p)"
  shows "\<exists>t s'. post_occurrence e pid d s = Inr (t, s') \<and> books_ok s' \<and>
    (\<forall>a. has_account s a \<longrightarrow> balance s' a None = balance s a None + plan_effect p a)"
proof -
  have pid: "pt_id p = pid" using get_plan_id [OF assms(2)] .
  have ep: "ensure_posted e pid d s = posting_attempt e p d s"
    using ensure_posted_new [OF assms(4), of e] assms(2) by simp
  have "\<exists>t s'. posting_attempt e p d s = Inr (t, s') \<and> books_ok s' \<and>
    (\<forall>a. has_account s a \<longrightarrow> balance s' a None = balance s a None + plan_effect p a)"
  proof (cases "pt_type p = TRANSFER \<and> pt_target_account_id p \<noteq> None")
    case True
    then obtain x where x: "pt_type p = TRANSFER" "pt_target_account_id p = Some x" by auto
    have "has_account s x" using assms(6) x(2) by simp
    from post_transfer_legs_total [OF assms(1,3) _ x(1) assms(5) this, of d e] assms(2,4) pid x
    show ?thesis by (fastforce simp: posting_attempt_def plan_effect_def)
  next
    case False
    let ?r = "posting_row e p d (pt_account_id p) (pt_category_id p)
        (if pt_type p = TRANSFER then Some DIR_OUT else None) False"
    have "\<exists>r s'. insert_tx ?r s = Inr (r, s')"
      by (rule insert_tx_total [OF _ _ not_posted_occurrence])
        (use assms(2,4,5,7) pid in \<open>auto simp: tx_check_def tx_fk_def fk_ok_def posting_row_def
          has_account_def get_account_def get_plan_def\<close>)
    then obtain t s' where ins: "insert_tx ?r s = Inr (t, s')" by auto
    have c: "cents (tx_amount ?r)" using assms(3) by (simp add: posting_row_def)
    have "balance s' a None = balance s a None + plan_effect p a" if "has_account s a" for a
      using kaleta_ledger.ins_bal [OF assms(1) c that ins] kaleta_ledger.ins_eff [OF ins, of a] False
      by (cases "pt_type p")
        (auto simp: plan_effect_def tx_delta_def signed_ledger_amount_def posting_row_def)
    with ins books_ok_insert [OF assms(1) c ins] False show ?thesis
      by (auto simp: posting_attempt_def)
  qed
  then obtain t s' where r: "ensure_posted e pid d s = Inr (t, s')" and rest: "books_ok s'"
    "\<forall>a. has_account s a \<longrightarrow> balance s' a None = balance s a None + plan_effect p a"
    by (auto simp: ep)
  have "ledger_ok s" using assms(1) by (simp add: books_ok_def)
  from ensure_posted_done [OF this r] obtain t' where "get_tx s' (tx_id t) = Some t'"
    by (auto simp: posting_done_def)
  with r rest show ?thesis by (auto simp: post_occurrence_def)
qed

theorem post_occurrence_books_the_plan_witness:
  "\<exists>t s'. post_occurrence ex_env 1 (Date 2026 2 28) ex_plan_db = Inr (t, s') \<and>
     balance s' 1 None = balance ex_plan_db 1 None - 12"
proof -
  let ?p = "ex_plan MONTHLY 1 (Date 2026 1 31) None"
  have p: "get_plan ex_plan_db 1 = Some ?p" by (simp add: get_plan_def ex_plan_db_def ex_plan_def)
  have a: "has_account ex_plan_db 1"
    by (simp add: has_account_def get_account_def ex_plan_db_def ex_defs)
  from post_occurrence_books_the_plan [OF ex_plan_db_ok p, of "Date 2026 2 28" ex_env] a show ?thesis
    by (auto simp: ex_plan_def posted_def ex_plan_db_def ex_defs fk_ok_def plan_effect_def)
qed

section \<open>Posting what is due\<close>

lemma post_each_done:
  assumes "ledger_ok s" and "post_each e ks s = (Inr ts, s')"
  shows "ledger_ok s' \<and> tx_frame s s' \<and> (\<forall>(q, x) \<in> set ks. posted s' q x) \<and>
    (\<forall>q x. posted s q x \<longrightarrow> posted s' q x) \<and>
    map (\<lambda>t. (tx_planned_id t, tx_date t)) ts = map (\<lambda>(q, x). (Some q, x)) ks"
  using assms
proof (induction ks arbitrary: s ts)
  case (Cons k ks)
  obtain q x where k: "k = (q, x)" by (cases k)
  from Cons.prems(2) k obtain t s1 us where
    t: "post_occurrence e q x s = Inr (t, s1)" and rest: "post_each e ks s1 = (Inr us, s')" "ts = t # us"
    by (auto split: sum.splits prod.splits)
  note d = post_occurrence_done [OF Cons.prems(1) t]
  have ok1: "ledger_ok s1" using d(1) by (simp add: posting_done_def)
  note ih = Cons.IH [OF ok1 rest(1)]
  show ?case
    using ih d rest(2) k tx_frame_trans [of s s1 s'] by (auto simp: posting_done_def)
qed simp

lemma gather_cong: "(\<And>p. p \<in> set ps \<Longrightarrow> f p = g p) \<Longrightarrow> gather f ps = gather g ps"
  by (induction ps) auto

text \<open>After posting, the unposted occurrences of a window are the old ones without the posted.\<close>

lemma get_occurrences_frame:
  assumes "tx_frame s s'" and "\<forall>q x. posted s q x \<longrightarrow> posted s' q x"
    and "get_occurrences s start stop acc act True = Some (Inr occs)"
  shows "get_occurrences s' start stop acc act True =
    Some (Inr (filter (\<lambda>oc. \<not> posted s' (occ_planned_id oc) (occ_date oc)) occs))"
proof -
  note fr = tx_frameD [OF assms(1)]
  have mk: "make_occurrence s' = make_occurrence s"
    by (simp add: fun_eq_iff make_occurrence_def fr)
  let ?all = "gather (\<lambda>p. rbind (plan_dates p start stop) (\<lambda>ds. Some (Inr (map (make_occurrence s p) ds))))
      (filter (\<lambda>p. (act \<longrightarrow> pt_is_active p) \<and> (acc = None \<or> acc = Some (pt_account_id p))) (plans s))"
  have key: "occ_key oc \<notin> set (posted_keys u (map occ_key xs)) \<longleftrightarrow> \<not> posted u (occ_planned_id oc) (occ_date oc)"
    if "oc \<in> set xs" for oc xs u
    using that by (auto simp: posted_keys_def occ_key_def)
  from assms(3) obtain xs where xs: "?all = Some (Inr xs)"
    and occs: "occs = sort_key occ_date (filter (\<lambda>oc. \<not> posted s (occ_planned_id oc) (occ_date oc)) xs)"
    by (auto simp: get_occurrences_def Let_def rbind_def key cong: filter_cong split: option.splits sum.splits)
  have "get_occurrences s' start stop acc act True =
      Some (Inr (sort_key occ_date (filter (\<lambda>oc. \<not> posted s' (occ_planned_id oc) (occ_date oc)) xs)))"
    using xs by (simp add: get_occurrences_def Let_def mk fr key cong: filter_cong)
  moreover have "filter (\<lambda>oc. \<not> posted s' (occ_planned_id oc) (occ_date oc)) occs =
      sort_key occ_date (filter (\<lambda>oc. \<not> posted s' (occ_planned_id oc) (occ_date oc)) xs)"
    unfolding occs filter_sort filter_filter using assms(2)
    by (intro arg_cong [where f = "sort_key occ_date"] filter_cong) auto
  ultimately show ?thesis by simp
qed

text \<open>
  Posting what is due is idempotent: once \<open>post_due\<close> has gone through, every row it reports is a
  ledger row of its plan and day, and running it again over the same window finds nothing to post and
  changes nothing, however often and by whomever.
\<close>

lemma post_due_idempotent:
  assumes "ledger_ok s" and "post_due e as_of lookback plan s = Some (Inr ts, s')"
  shows "post_due e' as_of lookback plan s' = Some (Inr [], s') \<and> ledger_ok s' \<and>
    (\<forall>t \<in> set ts. \<exists>q. tx_planned_id t = Some q \<and> posted s' q (tx_date t))"
proof -
  from assms(2) obtain start occs where
    start: "add_days as_of (- lookback) = Inr start"
    and occs: "get_occurrences s start as_of None True True = Some (Inr occs)"
    and each: "post_each e (map occ_key
      (filter (\<lambda>oc. plan = None \<or> plan = Some (occ_planned_id oc)) occs)) s = (Inr ts, s')"
    by (auto simp: post_due_def rbind_def split: option.splits sum.splits)
  note d = post_each_done [OF assms(1) each]
  let ?wanted = "\<lambda>oc. plan = None \<or> plan = Some (occ_planned_id oc)"
  have "get_occurrences s' start as_of None True True =
    Some (Inr (filter (\<lambda>oc. \<not> posted s' (occ_planned_id oc) (occ_date oc)) occs))"
    by (rule get_occurrences_frame [OF _ _ occs]) (use d in auto)
  moreover have "filter ?wanted (filter (\<lambda>oc. \<not> posted s' (occ_planned_id oc) (occ_date oc)) occs) = []"
    using d by (auto simp: filter_empty_conv occ_key_def)
  ultimately have again: "post_due e' as_of lookback plan s' = Some (Inr [], s')"
    using start by (simp add: post_due_def)
  have "\<exists>q. tx_planned_id t = Some q \<and> posted s' q (tx_date t)" if "t \<in> set ts" for t
  proof -
    have "(tx_planned_id t, tx_date t) \<in> set (map (\<lambda>t. (tx_planned_id t, tx_date t)) ts)" using that by auto
    with d show ?thesis by (auto simp: occ_key_def)
  qed
  with again d show ?thesis by blast
qed

lemma post_due_idempotent_witness:
  "\<exists>ts s'. post_due ex_env (Date 2026 2 28) 30 None ex_plan_db = Some (Inr ts, s') \<and> length ts = 2 \<and>
     post_due ex_env (Date 2026 2 28) 30 None s' = Some (Inr [], s')"
proof -
  have "(case post_due ex_env (Date 2026 2 28) 30 None ex_plan_db of
      Some (Inr ts, s') \<Rightarrow> length ts = 2 | _ \<Rightarrow> False)" by code_simp
  then obtain ts s' where r: "post_due ex_env (Date 2026 2 28) 30 None ex_plan_db = Some (Inr ts, s')"
    and n: "length ts = 2"
    by (auto split: option.splits sum.splits)
  from post_due_idempotent [OF _ r, of ex_env] ex_plan_db_ok r n show ?thesis
    by (auto simp: books_ok_def)
qed

section \<open>Posting a chosen set\<close>

lemma set_fromkeys [simp]: "set (fromkeys xs) = set xs"
  by (induction xs) auto

lemma distinct_fromkeys [simp]: "distinct (fromkeys xs)"
  by (induction xs) auto

lemma post_keys_done:
  assumes "ledger_ok s" and "post_keys e ks s = Inr (ts, s')"
  shows "ledger_ok s' \<and> rows_kept s s' \<and>
    (\<forall>q x. posted s' q x \<longleftrightarrow> posted s q x \<or> (q, x) \<in> set ks) \<and>
    list_all2 (\<lambda>t (q, x). \<exists>u. get_tx s' (tx_id t) = Some u \<and> tx_planned_id u = Some q \<and> tx_date u = x) ts ks"
  using assms
proof (induction ks arbitrary: s ts)
  case (Cons k ks)
  obtain q x where k: "k = (q, x)" by (cases k)
  from Cons.prems(2) k obtain t s1 us where
    t: "ensure_posted e q x s = Inr (t, s1)" and rest: "post_keys e ks s1 = Inr (us, s')" "ts = t # us"
    by (auto simp: ebind_Inr_iff)
  note d = ensure_posted_done [OF Cons.prems(1) t, unfolded posting_done_def]
  have ok1: "ledger_ok s1" using d by simp
  note ih = Cons.IH [OF ok1 rest(1)]
  have "\<exists>u. get_tx s' (tx_id t) = Some u \<and> tx_planned_id u = Some q \<and> tx_date u = x"
    using d ih unfolding rows_kept_def by metis
  then show ?case
    using ih d rest(2) k rows_kept_trans [of s s1 s'] by auto
qed simp

text \<open>
  Posting a chosen set posts that set and nothing else, one row per distinct plan and day: when it
  goes through, the returned rows are the ledger rows of the distinct occurrences handed in, in order
  of first mention (a duplicate is not counted twice), and exactly these occurrences became posted.
\<close>

lemma post_occurrences_exact:
  assumes "ledger_ok s" and "post_occurrences e occs s = Inr (ts, s')"
  shows "map (\<lambda>t. (tx_planned_id t, tx_date t)) ts =
      map (\<lambda>(q, x). (Some q, x)) (fromkeys (map occ_key occs)) \<and>
    (\<forall>t \<in> set ts. get_tx s' (tx_id t) = Some t) \<and> length ts = card (set (map occ_key occs)) \<and>
    (\<forall>q x. posted s' q x \<longleftrightarrow> posted s q x \<or> (q, x) \<in> set (map occ_key occs)) \<and> ledger_ok s'"
proof (cases "occs = []")
  case True
  with assms show ?thesis by (simp add: post_occurrences_def)
next
  case False
  let ?ks = "fromkeys (map occ_key occs)"
  from False assms(2) obtain us where
    us: "post_keys e ?ks s = Inr (us, s')" and ts: "ts = map (\<lambda>i. the (get_tx s' i)) (map tx_id us)"
    by (auto simp: post_occurrences_def Let_def ebind_Inr_iff split: if_splits)
  note d = post_keys_done [OF assms(1) us]
  have la: "list_all2 (\<lambda>t (q, x). \<exists>u. get_tx s' (tx_id t) = Some u \<and> tx_planned_id u = Some q \<and> tx_date u = x)
      us ?ks" using d by simp
  have "map (\<lambda>t. (tx_planned_id t, tx_date t)) (map (\<lambda>i. the (get_tx s' i)) (map tx_id vs)) =
      map (\<lambda>(q, x). (Some q, x)) ks \<and> (\<forall>t \<in> set vs. get_tx s' (tx_id t) \<noteq> None)"
    if "list_all2 (\<lambda>t (q, x). \<exists>u. get_tx s' (tx_id t) = Some u \<and> tx_planned_id u = Some q \<and> tx_date u = x) vs ks"
    for vs ks
    using that by (induction rule: list_all2_induct) auto
  from this [OF la] have keys: "map (\<lambda>t. (tx_planned_id t, tx_date t)) ts = map (\<lambda>(q, x). (Some q, x)) ?ks"
    and ex: "\<forall>t \<in> set us. get_tx s' (tx_id t) \<noteq> None" by (simp_all add: ts)
  have "length ts = length ?ks" using la by (simp add: ts list_all2_lengthD)
  also have "\<dots> = card (set (map occ_key occs))" using distinct_card [of ?ks] by simp
  finally have "length ts = card (set (map occ_key occs))" .
  moreover have "\<forall>t \<in> set ts. get_tx s' (tx_id t) = Some t"
  proof
    fix t assume "t \<in> set ts"
    then obtain v where "v \<in> set us" "t = the (get_tx s' (tx_id v))" by (auto simp: ts)
    with ex have "get_tx s' (tx_id v) = Some t" by auto
    with get_tx_Some [OF this] show "get_tx s' (tx_id t) = Some t" by simp
  qed
  ultimately show ?thesis using keys d by simp
qed

lemma post_occurrences_exact_witness:
  "\<exists>ts s'. post_occurrences ex_env (map (make_occurrence ex_plan_db (ex_plan MONTHLY 1 (Date 2026 1 31) None))
       [Date 2026 2 28, Date 2026 2 28, Date 2026 1 31]) ex_plan_db = Inr (ts, s') \<and>
     map (\<lambda>t. (tx_planned_id t, tx_date t)) ts = [(Some 1, Date 2026 2 28), (Some 1, Date 2026 1 31)]"
proof -
  let ?occs = "map (make_occurrence ex_plan_db (ex_plan MONTHLY 1 (Date 2026 1 31) None))
       [Date 2026 2 28, Date 2026 2 28, Date 2026 1 31]"
  have "succeeds (post_occurrences ex_env ?occs ex_plan_db)" by code_simp
  then obtain ts s' where r: "post_occurrences ex_env ?occs ex_plan_db = Inr (ts, s')"
    by (auto elim: succeedsE)
  from post_occurrences_exact [OF _ r] ex_plan_db_ok r show ?thesis
    by (auto simp: books_ok_def occ_key_def make_occurrence_def ex_plan_def)
qed

section \<open>The month grid\<close>

lemma add_occ_inflow:
  "sum_list (map da_inflow (add_occ oc cells)) =
    sum_list (map da_inflow cells) + (if occ_type oc = INCOME then \<bar>occ_amount oc\<bar> else 0)"
  "sum_list (map da_outflow (add_occ oc cells)) =
    sum_list (map da_outflow cells) + (if occ_type oc = EXPENSE then \<bar>occ_amount oc\<bar> else 0)"
  by (induction cells) (auto simp: aggregate_occ_def Let_def)

lemma fold_add_occ_totals:
  "sum_list (map da_inflow (fold add_occ occs cells)) = sum_list (map da_inflow cells) +
    sum_list (map (\<lambda>oc. \<bar>occ_amount oc\<bar>) (filter (\<lambda>oc. occ_type oc = INCOME) occs))"
  "sum_list (map da_outflow (fold add_occ occs cells)) = sum_list (map da_outflow cells) +
    sum_list (map (\<lambda>oc. \<bar>occ_amount oc\<bar>) (filter (\<lambda>oc. occ_type oc = EXPENSE) occs))"
  by (induction occs arbitrary: cells) (auto simp: add_occ_inflow)

lemma add_occ_dates:
  "set (map da_date (add_occ oc cells)) = insert (occ_date oc) (set (map da_date cells))"
  "distinct (map da_date cells) \<Longrightarrow> distinct (map da_date (add_occ oc cells))"
proof -
  show "set (map da_date (add_occ oc cells)) = insert (occ_date oc) (set (map da_date cells))" for cells
    by (induction cells) (auto simp: aggregate_occ_def Let_def)
  then show "distinct (map da_date cells) \<Longrightarrow> distinct (map da_date (add_occ oc cells))"
    by (induction cells) (auto simp: aggregate_occ_def Let_def)
qed

lemma grid_days_dates:
  "set (map da_date (grid_days occs)) = occ_date ` set occs \<and> distinct (map da_date (grid_days occs))"
proof -
  have "set (map da_date (fold add_occ occs cells)) = occ_date ` set occs \<union> set (map da_date cells) \<and>
    distinct (map da_date (fold add_occ occs cells))" if "distinct (map da_date cells)" for cells
    using that
  proof (induction occs arbitrary: cells)
    case (Cons oc occs)
    from Cons.IH [OF add_occ_dates(2) [OF Cons.prems]] show ?case
      by (auto simp: add_occ_dates(1) simp del: set_map)
  qed simp
  from this [of "[]"] show ?thesis by (simp add: grid_days_def)
qed

text \<open>
  The payment calendar's totals are right: a month's grid has one cell per day with an unposted
  occurrence, the inflows of its cells add up to the incomes planned in the month and the outflows to
  the expenses, transfers counting as neither.
\<close>

lemma grid_totals:
  assumes "grid_for_month s year month acc act window = Some (Inr g)"
    and "get_occurrences s (Date year month 1) (Date year month (days_in_month year month)) acc act True =
      Some (Inr occs)"
  shows "total_inflow g = sum_list (map (\<lambda>oc. \<bar>occ_amount oc\<bar>) (filter (\<lambda>oc. occ_type oc = INCOME) occs)) \<and>
    total_outflow g = sum_list (map (\<lambda>oc. \<bar>occ_amount oc\<bar>) (filter (\<lambda>oc. occ_type oc = EXPENSE) occs)) \<and>
    total_net g = total_inflow g - total_outflow g \<and>
    distinct (map da_date (mg_days g)) \<and> set (map da_date (mg_days g)) = occ_date ` set occs"
proof -
  from assms have "mg_days g = grid_days occs"
    by (auto simp: grid_for_month_def rbind_def mk_date_def split: option.splits sum.splits if_splits)
  then show ?thesis
    using grid_days_dates [of occs] fold_add_occ_totals [of occs "[]"]
    by (simp add: total_inflow_def total_outflow_def total_net_def grid_days_def)
qed

lemma grid_totals_witness:
  "\<exists>g. grid_for_month ex_plan_db 2026 2 None True 30 = Some (Inr g) \<and> total_outflow g = 12"
proof -
  have "(case grid_for_month ex_plan_db 2026 2 None True 30 of Some (Inr g) \<Rightarrow> True | _ \<Rightarrow> False)" by code_simp
  then obtain g where g: "grid_for_month ex_plan_db 2026 2 None True 30 = Some (Inr g)"
    by (auto split: option.splits sum.splits)
  have "get_occurrences ex_plan_db (Date 2026 2 1) (Date 2026 2 (days_in_month 2026 2)) None True True =
      Some (Inr [make_occurrence ex_plan_db (ex_plan MONTHLY 1 (Date 2026 1 31) None) (Date 2026 2 28)])"
    by code_simp
  from grid_totals [OF g this] g show ?thesis by (auto simp: make_occurrence_def ex_plan_def)
qed

end
