(* ===== verification/Credit.thy ===== *)
theory Credit
  imports Accounts
begin

text \<open>
  \<open>CreditService\<close> (\<open>src/src/kaleta/services/credit_service.py\<close>): credit-card profiles with
  utilisation, minimum payment and due date, and loans with their annuity payment and amortisation
  schedule. The arithmetic is that of \<open>decimal.Decimal\<close> with its 28-digit context
  (\<open>dec_mul\<close>, \<open>dec_div\<close>, \<open>dec_pow\<close>); sums of two-place amounts are exact.
\<close>

section \<open>Definitions\<close>

datatype credit_status = ON_TIME | GRACE | OVERDUE

subsection \<open>Dates\<close>

definition clamp_to_month_day :: "int \<Rightarrow> int \<Rightarrow> int \<Rightarrow> date result" where
  "clamp_to_month_day year month day = mk_date year month (min day (days_in_month year month))"

definition credit_add_months :: "date \<Rightarrow> int \<Rightarrow> date result" where
  "credit_add_months d months =
    (let total = d_month d - 1 + months
     in clamp_to_month_day (d_year d + total div 12) (total mod 12 + 1) (d_day d))"

definition next_due_date :: "int \<Rightarrow> date \<Rightarrow> date result" where
  "next_due_date due_day today =
    (if d_day today \<le> due_day then clamp_to_month_day (d_year today) (d_month today) due_day
     else clamp_to_month_day (d_year today + (if d_month today = 12 then 1 else 0))
            (if d_month today = 12 then 1 else d_month today + 1) due_day)"

definition months_between :: "date \<Rightarrow> date \<Rightarrow> int" where
  "months_between start stop = (d_year stop - d_year start) * 12 + (d_month stop - d_month start)"

subsection \<open>Amounts\<close>

definition compute_monthly_payment :: "decimal \<Rightarrow> decimal \<Rightarrow> int \<Rightarrow> decimal" where
  "compute_monthly_payment amount apr term_months =
    (if term_months \<le> 0 then 0
     else if apr \<le> 0 then quantize ROUND_HALF_UP 2 (dec_div amount (of_int term_months))
     else
       let monthly_rate = dec_div (dec_div apr 100) 12;
           factor = dec_pow (dec_add 1 monthly_rate) (nat term_months)
       in quantize ROUND_HALF_UP 2
            (dec_div (dec_mul (dec_mul amount monthly_rate) factor) (dec_add factor (- 1))))"

definition compute_min_payment :: "decimal \<Rightarrow> decimal \<Rightarrow> decimal \<Rightarrow> decimal" where
  "compute_min_payment bal pct least =
    (if bal \<le> 0 then 0
     else min bal (max (quantize ROUND_HALF_UP 2 (dec_mul bal pct)) least))"

definition compute_utilization :: "decimal \<Rightarrow> decimal \<Rightarrow> decimal" where
  "compute_utilization owed limit =
    (if limit \<le> 0 then 0 else quantize ROUND_HALF_EVEN 4 (dec_div owed limit))"

definition grace_days :: int where
  "grace_days = 0"

definition card_status :: "decimal \<Rightarrow> date \<Rightarrow> date \<Rightarrow> credit_status result" where
  "card_status owed due today =
    (if owed \<le> 0 then Inr ON_TIME
     else ebind (add_days due grace_days) (\<lambda>cutoff.
       Inr (if cutoff < today then OVERDUE
            else if days_between due today \<le> 5 then GRACE else ON_TIME)))"

subsection \<open>The amortisation schedule\<close>

record amortisation_row =
  am_month :: int
  am_date :: date
  am_payment :: decimal
  am_principal :: decimal
  am_interest :: decimal
  am_remaining :: decimal

text \<open>The loop: \<open>k\<close> months are left, the next one is \<open>term_months - k + 1\<close>.\<close>

primrec schedule_from ::
  "loan_profile \<Rightarrow> decimal \<Rightarrow> nat \<Rightarrow> decimal \<Rightarrow> amortisation_row list result" where
  "schedule_from p rate 0 remaining = Inr []"
| "schedule_from p rate (Suc k) remaining =
    (let month_idx = lp_term_months p - int k;
         payment = lp_monthly_payment p;
         last = (month_idx = lp_term_months p);
         interest0 = quantize ROUND_HALF_UP 2 (dec_mul remaining rate);
         principal_paid = (if last then remaining else payment - interest0);
         interest = (if last then quantize ROUND_HALF_UP 2 (payment - principal_paid) else interest0);
         remaining' = quantize ROUND_HALF_UP 2 (remaining - principal_paid)
     in ebind (credit_add_months (lp_start_date p) (month_idx - 1)) (\<lambda>d.
        ebind (schedule_from p rate k remaining') (\<lambda>rows.
          Inr (\<lparr>am_month = month_idx, am_date = d, am_payment = payment,
                am_principal = quantize ROUND_HALF_UP 2 principal_paid, am_interest = interest,
                am_remaining = max remaining' 0\<rparr> # rows))))"

definition amortisation_schedule :: "loan_profile \<Rightarrow> amortisation_row list result" where
  "amortisation_schedule p =
    schedule_from p (dec_div (dec_div (lp_apr p) 100) 12) (nat (lp_term_months p)) (lp_principal p)"

subsection \<open>Cards\<close>

definition get_card_by_account :: "db \<Rightarrow> int \<Rightarrow> card_profile option" where
  "get_card_by_account s a = find (\<lambda>c. cc_account_id c = a) (cards s)"

definition card_allowed :: "db \<Rightarrow> card_profile \<Rightarrow> bool" where
  "card_allowed s c \<longleftrightarrow> has_account s (cc_account_id c) \<and>
    (\<forall>x \<in> set (cards s). cc_id x \<noteq> cc_id c \<longrightarrow> cc_account_id x \<noteq> cc_account_id c)"

text \<open>The payload of \<open>create_card\<close> is a profile without its id.\<close>

definition create_card :: "card_profile \<Rightarrow> db \<Rightarrow> (card_profile \<times> db) result" where
  "create_card payload s =
    (let c = payload\<lparr>cc_id := seq_card s\<rparr>
     in if card_allowed s c then Inr (c, s\<lparr>cards := cards s @ [c], seq_card := seq_card s + 1\<rparr>)
        else Inl (IntegrityError ''credit_card_profiles''))"

record card_update =
  cu_credit_limit :: "decimal option"
  cu_statement_day :: "int option"
  cu_payment_due_day :: "int option"
  cu_min_payment_pct :: "decimal option"
  cu_min_payment_floor :: "decimal option"
  cu_apr :: "decimal option"

definition update_card :: "int \<Rightarrow> card_update \<Rightarrow> db \<Rightarrow> card_profile option \<times> db" where
  "update_card i u s =
    (case find_row cc_id i (cards s) of
       None \<Rightarrow> (None, s)
     | Some c \<Rightarrow>
         let c' = patch (cu_apr u) (\<lambda>v c. c\<lparr>cc_apr := v\<rparr>)
                 (patch (cu_min_payment_floor u) (\<lambda>v c. c\<lparr>cc_min_payment_floor := v\<rparr>)
                 (patch (cu_min_payment_pct u) (\<lambda>v c. c\<lparr>cc_min_payment_pct := v\<rparr>)
                 (patch (cu_payment_due_day u) (\<lambda>v c. c\<lparr>cc_payment_due_day := v\<rparr>)
                 (patch (cu_statement_day u) (\<lambda>v c. c\<lparr>cc_statement_day := v\<rparr>)
                 (patch (cu_credit_limit u) (\<lambda>v c. c\<lparr>cc_credit_limit := v\<rparr>) c)))))
         in (Some c', s\<lparr>cards := upd_row cc_id i (\<lambda>_. c') (cards s)\<rparr>))"

record card_view =
  cv_account_id :: int
  cv_account_name :: string
  cv_currency :: string
  cv_current_balance :: decimal
  cv_credit_limit :: decimal
  cv_utilization :: decimal
  cv_min_payment :: decimal
  cv_next_due :: date
  cv_status :: credit_status

text \<open>The rows of the join, ordered by the account's name.\<close>

definition card_rows :: "db \<Rightarrow> (account \<times> card_profile) list" where
  "card_rows s = sort_key (\<lambda>row. text_key (Some (acc_name (fst row))))
    [(a, c). a \<leftarrow> accounts s, c \<leftarrow> cards s, cc_account_id c = acc_id a \<and> acc_type a = CREDIT]"

definition card_view_of :: "db \<Rightarrow> date \<Rightarrow> int list \<Rightarrow> account \<times> card_profile \<Rightarrow> card_view result" where
  "card_view_of s today ids row =
    (case balances s (Some ids) None (acc_id (fst row)) of
       None \<Rightarrow> Inl KeyError
     | Some b \<Rightarrow>
         let (a, c) = row; owed = \<bar>min b 0\<bar>
         in ebind (next_due_date (cc_payment_due_day c) today) (\<lambda>due.
            ebind (card_status owed due today) (\<lambda>st.
            Inr \<lparr>cv_account_id = acc_id a, cv_account_name = acc_name a, cv_currency = acc_currency a,
                 cv_current_balance = owed, cv_credit_limit = cc_credit_limit c,
                 cv_utilization = compute_utilization owed (cc_credit_limit c),
                 cv_min_payment = compute_min_payment owed (cc_min_payment_pct c) (cc_min_payment_floor c),
                 cv_next_due = due, cv_status = st\<rparr>)))"

definition list_cards :: "db \<Rightarrow> date \<Rightarrow> card_view list result" where
  "list_cards s today =
    (let rows = card_rows s
     in emap (card_view_of s today (map (\<lambda>row. acc_id (fst row)) rows)) rows)"

subsection \<open>Loans\<close>

definition get_loan_by_account :: "db \<Rightarrow> int \<Rightarrow> loan_profile option" where
  "get_loan_by_account s a = find (\<lambda>p. lp_account_id p = a) (loan_profiles s)"

definition loan_allowed :: "db \<Rightarrow> loan_profile \<Rightarrow> bool" where
  "loan_allowed s p \<longleftrightarrow> has_account s (lp_account_id p) \<and>
    (\<forall>x \<in> set (loan_profiles s). lp_id x \<noteq> lp_id p \<longrightarrow> lp_account_id x \<noteq> lp_account_id p)"

text \<open>The payload is a profile without its id and its monthly payment.\<close>

definition create_loan :: "loan_profile \<Rightarrow> db \<Rightarrow> (loan_profile \<times> db) result" where
  "create_loan payload s =
    (let p = payload\<lparr>lp_id := seq_loan_profile s, lp_monthly_payment :=
           compute_monthly_payment (lp_principal payload) (lp_apr payload) (lp_term_months payload)\<rparr>
     in if loan_allowed s p
        then Inr (p, s\<lparr>loan_profiles := loan_profiles s @ [p], seq_loan_profile := seq_loan_profile s + 1\<rparr>)
        else Inl (IntegrityError ''loan_profiles''))"

record loan_update =
  lu_principal :: "decimal option"
  lu_apr :: "decimal option"
  lu_term_months :: "int option"
  lu_start_date :: "date option"

definition update_loan :: "int \<Rightarrow> loan_update \<Rightarrow> db \<Rightarrow> loan_profile option \<times> db" where
  "update_loan i u s =
    (case find_row lp_id i (loan_profiles s) of
       None \<Rightarrow> (None, s)
     | Some p \<Rightarrow>
         let p1 = patch (lu_start_date u) (\<lambda>v p. p\<lparr>lp_start_date := v\<rparr>)
                 (patch (lu_term_months u) (\<lambda>v p. p\<lparr>lp_term_months := v\<rparr>)
                 (patch (lu_apr u) (\<lambda>v p. p\<lparr>lp_apr := v\<rparr>)
                 (patch (lu_principal u) (\<lambda>v p. p\<lparr>lp_principal := v\<rparr>) p)));
             p2 = (if lu_principal u \<noteq> None \<or> lu_apr u \<noteq> None \<or> lu_term_months u \<noteq> None
                   then p1\<lparr>lp_monthly_payment :=
                     compute_monthly_payment (lp_principal p1) (lp_apr p1) (lp_term_months p1)\<rparr>
                   else p1)
         in (Some p2, s\<lparr>loan_profiles := upd_row lp_id i (\<lambda>_. p2) (loan_profiles s)\<rparr>))"

definition loan_next_due :: "loan_profile \<Rightarrow> date \<Rightarrow> date result" where
  "loan_next_due p today = next_due_date (d_day (lp_start_date p)) today"

definition loan_status_of :: "loan_profile \<Rightarrow> int \<Rightarrow> date \<Rightarrow> credit_status result" where
  "loan_status_of p months_elapsed today =
    (if lp_term_months p \<le> months_elapsed then Inr ON_TIME
     else ebind (loan_next_due p today) (\<lambda>due.
       Inr (if days_between due today \<le> 5 then GRACE else ON_TIME)))"

record loan_view =
  lv_account_id :: int
  lv_account_name :: string
  lv_currency :: string
  lv_profile :: loan_profile
  lv_months_elapsed :: int
  lv_remaining :: decimal
  lv_next_due :: date
  lv_status :: credit_status

definition loan_view_of :: "date \<Rightarrow> account \<times> loan_profile \<Rightarrow> loan_view result" where
  "loan_view_of today row =
    (let (a, p) = row;
         months_elapsed = max 0 (min (months_between (lp_start_date p) today) (lp_term_months p))
     in ebind (amortisation_schedule p) (\<lambda>schedule.
        ebind (if months_elapsed > 0
               then if nat (months_elapsed - 1) < length schedule
                    then Inr (am_remaining (schedule ! nat (months_elapsed - 1))) else Inl IndexError
               else Inr (lp_principal p)) (\<lambda>remaining.
        ebind (loan_next_due p today) (\<lambda>due.
        ebind (loan_status_of p months_elapsed today) (\<lambda>st.
        Inr \<lparr>lv_account_id = acc_id a, lv_account_name = acc_name a, lv_currency = acc_currency a,
             lv_profile = p, lv_months_elapsed = months_elapsed, lv_remaining = remaining,
             lv_next_due = due, lv_status = st\<rparr>)))))"

definition list_loans :: "db \<Rightarrow> date \<Rightarrow> loan_view list result" where
  "list_loans s today = emap (loan_view_of today)
    (sort_key (\<lambda>row. lp_start_date (snd row))
      [(a, p). a \<leftarrow> accounts s, p \<leftarrow> loan_profiles s, lp_account_id p = acc_id a])"

definition amortisation :: "db \<Rightarrow> int \<Rightarrow> amortisation_row list result" where
  "amortisation s a =
    (case get_loan_by_account s a of None \<Rightarrow> Inr [] | Some p \<Rightarrow> amortisation_schedule p)"

section \<open>Due dates\<close>

lemma clamp_Inr:
  assumes "1 \<le> y" and "y \<le> 9999" and "1 \<le> m" and "m \<le> 12" and "1 \<le> day"
  shows "clamp_to_month_day y m day = Inr (Date y m (min day (days_in_month y m)))"
    and "valid_date (Date y m (min day (days_in_month y m)))"
proof -
  show "valid_date (Date y m (min day (days_in_month y m)))"
    using assms days_in_month_bounds(1) [of y m] by auto
  then show "clamp_to_month_day y m day = Inr (Date y m (min day (days_in_month y m)))"
    by (simp add: clamp_to_month_day_def mk_date_Inr_iff)
qed

text \<open>A day on which a bill with the given due day falls.\<close>

definition due_on :: "int \<Rightarrow> date \<Rightarrow> bool" where
  "due_on due_day d \<longleftrightarrow> valid_date d \<and> d_day d = min due_day (days_in_month (d_year d) (d_month d))"

text \<open>The day of month \<open>(y, m)\<close> the bill falls on, and the month that decides which one is next.\<close>

definition bill_in :: "int \<Rightarrow> int \<times> int \<Rightarrow> date" where
  "bill_in due_day ym = Date (fst ym) (snd ym) (min due_day (days_in_month (fst ym) (snd ym)))"

definition due_month :: "int \<Rightarrow> date \<Rightarrow> int \<times> int" where
  "due_month due_day today =
    (if d_day today \<le> due_day then (d_year today, d_month today)
     else if d_month today = 12 then (d_year today + 1, 1) else (d_year today, d_month today + 1))"

lemma next_due_date_eq:
  assumes "valid_date today" and "1 \<le> due_day" and "d_year today \<le> 9998"
  shows "next_due_date due_day today = Inr (bill_in due_day (due_month due_day today))"
    and "due_on due_day (bill_in due_day (due_month due_day today))"
    and "today \<le> bill_in due_day (due_month due_day today)"
proof -
  obtain y m k where t: "today = Date y m k" by (cases today)
  with assms have v: "1 \<le> y" "y \<le> 9998" "1 \<le> m" "m \<le> 12" "1 \<le> k" "k \<le> days_in_month y m" by auto
  obtain y' m' where ym: "due_month due_day today = (y', m')" by fastforce
  with v have r: "1 \<le> y'" "y' \<le> 9999" "1 \<le> m'" "m' \<le> 12"
    by (auto simp: due_month_def t split: if_splits)
  have "next_due_date due_day today = clamp_to_month_day y' m' due_day"
    using ym by (auto simp: next_due_date_def due_month_def t split: if_splits)
  then show "next_due_date due_day today = Inr (bill_in due_day (due_month due_day today))"
    using clamp_Inr(1) [OF r assms(2)] by (simp add: ym bill_in_def)
  show "due_on due_day (bill_in due_day (due_month due_day today))"
    using clamp_Inr(2) [OF r assms(2)] by (simp add: ym bill_in_def due_on_def)
  show "today \<le> bill_in due_day (due_month due_day today)"
    using v by (auto simp: due_month_def t bill_in_def)
qed

lemma bill_in_first:
  assumes "due_on due_day x" and "today \<le> x"
  shows "bill_in due_day (due_month due_day today) \<le> x"
proof -
  obtain y m k where t: "today = Date y m k" by (cases today)
  obtain a b c where x: "x = Date a b c" by (cases x)
  have c: "c = min due_day (days_in_month a b)" "1 \<le> b" "b \<le> 12" using assms(1) by (auto simp: due_on_def x)
  show ?thesis
  proof (cases "k \<le> due_day")
    case True
    with assms(2) c show ?thesis by (auto simp: due_month_def bill_in_def t x)
  next
    case False
    with assms(2) c have "y < a \<or> (y = a \<and> m < b)" by (auto simp: t x)
    then have le: "y' < a \<or> (y' = a \<and> m' \<le> b)" if "due_month due_day today = (y', m')" for y' m'
      using that False c by (auto simp: due_month_def t split: if_splits)
    obtain y' m' where ym: "due_month due_day today = (y', m')" by fastforce
    from le [OF ym] c show ?thesis by (auto simp: bill_in_def x ym)
  qed
qed

text \<open>
  The next due date is the first day, today included, on which the bill falls: the due day of the
  month, or the month's last day when the month is shorter.
\<close>

lemma next_due_date_is_first:
  assumes "valid_date today" and "1 \<le> due_day" and "d_year today \<le> 9998"
  shows "\<exists>d. next_due_date due_day today = Inr d \<and> due_on due_day d \<and> today \<le> d \<and>
    (\<forall>x. due_on due_day x \<and> today \<le> x \<longrightarrow> d \<le> x)"
  using next_due_date_eq [OF assms] bill_in_first by blast

lemma next_due_date_is_first_witness:
  "\<exists>d. next_due_date 30 (Date 2026 2 10) = Inr d \<and> due_on 30 d \<and> Date 2026 2 10 \<le> d \<and> d \<le> Date 2026 2 28"
proof -
  have "valid_date (Date 2026 2 10)" "due_on 30 (Date 2026 2 28)" by code_simp+
  with next_due_date_is_first [of "Date 2026 2 10" 30] show ?thesis by auto
qed

text \<open>
  Because the due date is never before today, the branch that reports a card as overdue is never
  taken.
\<close>

lemma card_status_never_overdue:
  assumes "valid_date today" and "1 \<le> due_day" and "d_year today \<le> 9998"
    and "next_due_date due_day today = Inr due"
  shows "card_status owed due today \<noteq> Inr OVERDUE"
proof -
  from next_due_date_eq [OF assms(1-3)] assms(4) have "valid_date due" "today \<le> due"
    by (auto simp: due_on_def)
  then have "add_days due 0 = Inr due" by (simp add: add_days_eq_Inr_iff)
  with \<open>today \<le> due\<close> show ?thesis by (auto simp: card_status_def grace_days_def)
qed

section \<open>Amortisation\<close>

lemma credit_add_months_Inr:
  assumes "valid_date d" and "0 \<le> n" and "d_year d + n \<le> 9998"
  shows "\<exists>x. credit_add_months d n = Inr x"
proof -
  obtain y m k where d: "d = Date y m k" by (cases d)
  have "0 \<le> (m - 1 + n) div 12" "(m - 1 + n) div 12 \<le> n + 1"
    and "0 \<le> (m - 1 + n) mod 12" "(m - 1 + n) mod 12 \<le> 11"
    using assms by (auto simp: d)
  with assms have "clamp_to_month_day (y + (m - 1 + n) div 12) ((m - 1 + n) mod 12 + 1) k =
    Inr (Date (y + (m - 1 + n) div 12) ((m - 1 + n) mod 12 + 1)
      (min k (days_in_month (y + (m - 1 + n) div 12) ((m - 1 + n) mod 12 + 1))))"
    by (intro clamp_Inr(1)) (auto simp: d)
  then show ?thesis by (simp add: credit_add_months_def Let_def d)
qed

text \<open>What holds of the rows the loop appends from a given remaining principal on.\<close>

definition rows_pay_off :: "loan_profile \<Rightarrow> decimal \<Rightarrow> amortisation_row list \<Rightarrow> bool" where
  "rows_pay_off p remaining rows \<longleftrightarrow>
    (\<forall>r \<in> set rows. am_payment r = lp_monthly_payment p \<and> am_principal r + am_interest r = am_payment r) \<and>
    (\<forall>i < length rows. am_remaining (rows ! i) =
       max 0 (remaining - sum_list (map am_principal (take (Suc i) rows)))) \<and>
    sum_list (map am_principal rows) = remaining"

lemma rows_pay_off_Cons:
  assumes "rows_pay_off p (remaining - am_principal r) rows" and "am_payment r = lp_monthly_payment p"
    and "am_principal r + am_interest r = am_payment r" and "am_remaining r = max 0 (remaining - am_principal r)"
  shows "rows_pay_off p remaining (r # rows)"
  using assms by (auto simp: rows_pay_off_def nth_Cons less_Suc_eq_0_disj algebra_simps split: nat.splits)

lemma schedule_from_pays_off:
  assumes "valid_date (lp_start_date p)" and "d_year (lp_start_date p) + lp_term_months p \<le> 9998"
    and "cents (lp_monthly_payment p)"
  shows "cents remaining \<Longrightarrow> int (Suc k) \<le> lp_term_months p \<Longrightarrow>
    \<exists>rows. schedule_from p rate (Suc k) remaining = Inr rows \<and>
      map am_month rows = [lp_term_months p - int k .. lp_term_months p] \<and> rows_pay_off p remaining rows"
proof (induction k arbitrary: remaining)
  case 0
  with assms obtain d where "credit_add_months (lp_start_date p) (lp_term_months p - 1) = Inr d"
    using credit_add_months_Inr [of "lp_start_date p" "lp_term_months p - 1"] by auto
  with 0 assms(3) show ?case by (auto simp: Let_def rows_pay_off_def)
next
  case (Suc k)
  let ?i = "quantize ROUND_HALF_UP 2 (dec_mul remaining rate)"
  let ?pp = "lp_monthly_payment p - ?i"
  have c: "cents ?pp" "cents (remaining - ?pp)" using assms(3) Suc.prems(1) by simp_all
  have "int (Suc k) \<le> lp_term_months p" using Suc.prems(2) by simp
  from Suc.IH [OF c(2) this] obtain rows where rows: "schedule_from p rate (Suc k) (remaining - ?pp) = Inr rows"
    "map am_month rows = [lp_term_months p - int k .. lp_term_months p]"
    "rows_pay_off p (remaining - ?pp) rows" by blast
  from Suc.prems assms obtain d where
    d: "credit_add_months (lp_start_date p) (lp_term_months p - int k - 2) = Inr d"
    using credit_add_months_Inr [of "lp_start_date p" "lp_term_months p - int k - 2"] by auto
  define r where "r = \<lparr>am_month = lp_term_months p - int (Suc k), am_date = d,
    am_payment = lp_monthly_payment p, am_principal = ?pp, am_interest = ?i,
    am_remaining = max (remaining - ?pp) 0\<rparr>"
  have "schedule_from p rate (Suc (Suc k)) remaining = Inr (r # rows)"
    by (subst schedule_from.simps) (simp add: Let_def d rows(1) c r_def del: schedule_from.simps)
  moreover have "rows_pay_off p remaining (r # rows)"
    by (rule rows_pay_off_Cons) (use rows(3) in \<open>simp_all add: r_def max.commute\<close>)
  moreover have "map am_month (r # rows) = [lp_term_months p - int (Suc k) .. lp_term_months p]"
    using rows(2) upto_rec1 [of "lp_term_months p - int (Suc k)" "lp_term_months p"]
    by (simp add: r_def)
  ultimately show ?case by blast
qed


text \<open>A loan of 100.00 without interest over three months.\<close>

definition ex_loan :: loan_profile where
  "ex_loan = \<lparr>lp_id = 1, lp_account_id = 1, lp_principal = 100, lp_apr = 0, lp_term_months = 3,
    lp_start_date = Date 2026 1 31, lp_monthly_payment = compute_monthly_payment 100 0 3\<rparr>"

lemma ex_loan_schedule:
  "amortisation_schedule ex_loan = Inr
    [\<lparr>am_month = 1, am_date = Date 2026 1 31, am_payment = 3333 / 100, am_principal = 3333 / 100,
      am_interest = 0, am_remaining = 6667 / 100\<rparr>,
     \<lparr>am_month = 2, am_date = Date 2026 2 28, am_payment = 3333 / 100, am_principal = 3333 / 100,
      am_interest = 0, am_remaining = 3334 / 100\<rparr>,
     \<lparr>am_month = 3, am_date = Date 2026 3 31, am_payment = 3333 / 100, am_principal = 3334 / 100,
      am_interest = - 1 / 100, am_remaining = 0\<rparr>]"
  by code_simp


text \<open>
  The rounding the last row absorbs goes into its principal part, and the interest is what the fixed
  payment leaves: here it is negative.
\<close>

lemma last_interest_can_be_negative:
  "\<exists>rows. amortisation_schedule ex_loan = Inr rows \<and> am_interest (last rows) < 0"
  using ex_loan_schedule by simp

section \<open>Minimum payment\<close>

text \<open>
  The minimum payment of a card never exceeds what is owed, is never below the floor unless the
  whole balance is, and is within half a cent of the percentage of the balance or above it.
\<close>

lemma compute_min_payment_bounds:
  assumes "0 \<le> bal" and "0 \<le> least"
  shows "0 \<le> compute_min_payment bal pct least \<and> compute_min_payment bal pct least \<le> bal \<and>
    min bal least \<le> compute_min_payment bal pct least \<and>
    min bal (ctx (bal * pct) - 1 / 200) \<le> compute_min_payment bal pct least"
proof -
  define q where "q = quantize ROUND_HALF_UP 2 (ctx (bal * pct))"
  have "ctx (bal * pct) - 1 / 200 \<le> q"
    using quantize_half_up_error [of "ctx (bal * pct)"] unfolding q_def by linarith
  then have "min bal (ctx (bal * pct) - 1 / 200) \<le> min bal (max q least)" by linarith
  moreover have "compute_min_payment bal pct least = (if bal \<le> 0 then 0 else min bal (max q least))"
    by (simp add: compute_min_payment_def dec_mul_def q_def)
  ultimately show ?thesis using assms by (simp add: le_max_iff_disj)
qed

lemma compute_min_payment_bounds_witness:
  "30 \<le> compute_min_payment 1000 (2 / 100) 30 \<and> compute_min_payment 1000 (2 / 100) 30 \<le> 1000"
  using compute_min_payment_bounds [of 1000 30 "2 / 100"] by simp

end
