(* ===== verification/PersonalLoans.thy ===== *)
theory PersonalLoans
  imports Transactions
begin

text \<open>
  \<open>PersonalLoanService\<close> (\<open>src/src/kaleta/services/personal_loan_service.py\<close>) with
  \<open>services/loan_links.py\<close>: money lent to and borrowed from other people, repayments that may be
  mirrored as ledger rows or tied to existing ones, and the totals. Every operation runs in a session
  of its own, as the views and the API call it, so what it loads is what the tables hold. The parsing
  of the dialog's text fields is not modelled.
\<close>

section \<open>Definitions\<close>

subsection \<open>Counterparties\<close>

definition list_counterparties :: "db \<Rightarrow> counterparty list" where
  "list_counterparties s = by_name cp_name (counterparties s)"

definition get_counterparty :: "db \<Rightarrow> int \<Rightarrow> counterparty option" where
  "get_counterparty s i = find_row cp_id i (counterparties s)"

definition get_counterparty_by_name ::
  "(string \<Rightarrow> string) \<Rightarrow> db \<Rightarrow> string \<Rightarrow> counterparty option result" where
  "get_counterparty_by_name hmac s name =
    (case filter (\<lambda>c. exact_index hmac (cp_name c) = exact_index hmac name) (counterparties s) of
       [] \<Rightarrow> Inr None | [c] \<Rightarrow> Inr (Some c) | _ \<Rightarrow> Inl MultipleResultsFound)"

text \<open>\<open>uq_counterparty_name_bidx\<close>\<close>

definition cp_allowed :: "(string \<Rightarrow> string) \<Rightarrow> db \<Rightarrow> counterparty \<Rightarrow> bool" where
  "cp_allowed hmac s c \<longleftrightarrow> (\<forall>x \<in> set (counterparties s).
    cp_id x \<noteq> cp_id c \<longrightarrow> exact_index hmac (cp_name x) \<noteq> exact_index hmac (cp_name c))"

definition create_counterparty ::
  "(string \<Rightarrow> string) \<Rightarrow> string \<Rightarrow> string option \<Rightarrow> db \<Rightarrow> (counterparty \<times> db) result" where
  "create_counterparty hmac name notes s =
    (let c = \<lparr>cp_id = seq_counterparty s, cp_name = name, cp_notes = notes\<rparr>
     in if cp_allowed hmac s c
        then Inr (c, s\<lparr>counterparties := counterparties s @ [c], seq_counterparty := seq_counterparty s + 1\<rparr>)
        else Inl (IntegrityError ''counterparties''))"

definition upsert_counterparty :: "(string \<Rightarrow> string) \<Rightarrow> string \<Rightarrow> db \<Rightarrow> (counterparty \<times> db) result" where
  "upsert_counterparty hmac name s =
    ebind (get_counterparty_by_name hmac s name) (\<lambda>existing.
    case existing of Some c \<Rightarrow> Inr (c, s) | None \<Rightarrow> create_counterparty hmac name None s)"

definition update_counterparty ::
  "(string \<Rightarrow> string) \<Rightarrow> int \<Rightarrow> string option \<Rightarrow> string option option \<Rightarrow> db \<Rightarrow> (counterparty option \<times> db) result" where
  "update_counterparty hmac i name notes s =
    (case get_counterparty s i of
       None \<Rightarrow> Inr (None, s)
     | Some c \<Rightarrow>
         let c' = patch notes (\<lambda>v c. c\<lparr>cp_notes := v\<rparr>) (patch name (\<lambda>v c. c\<lparr>cp_name := v\<rparr>) c)
         in if cp_allowed hmac s c'
            then Inr (Some c', s\<lparr>counterparties := upd_row cp_id i (\<lambda>_. c') (counterparties s)\<rparr>)
            else Inl (IntegrityError ''counterparties''))"

subsection \<open>Links to the ledger\<close>

text \<open>Every transaction id a loan or a repayment points at (\<open>loan_links.py\<close>).\<close>

definition link_ids :: "db \<Rightarrow> int list" where
  "link_ids s = List.map_filter pl_transaction_id (loans s) @ List.map_filter rp_linked_id (repayments s)"

definition loan_linked_transaction_ids :: "db \<Rightarrow> int list" where
  "loan_linked_transaction_ids s = remdups (link_ids s)"

definition check_linkable :: "db \<Rightarrow> int \<Rightarrow> unit result" where
  "check_linkable s i =
    raise_if (get_tx s i = None) (NotFoundError ''errors.personal_loan.transaction_not_found'')
    (raise_if (i \<in> set (loan_linked_transaction_ids s))
      (ConflictError ''errors.personal_loan.transaction_taken'') (Inr ()))"

text \<open>The commit: a violated constraint is a conflict when a link was asked for.\<close>

definition commit_link :: "int option \<Rightarrow> bool \<Rightarrow> db \<Rightarrow> db result" where
  "commit_link tx ok s' =
    (if ok then Inr s'
     else Inl (case tx of None \<Rightarrow> IntegrityError ''personal_loans''
               | Some _ \<Rightarrow> ConflictError ''errors.personal_loan.transaction_taken''))"

record link_candidate =
  lc_id :: int
  lc_date :: date
  lc_amount :: decimal
  lc_description :: string
  lc_account_name :: string

definition to_candidate :: "db \<Rightarrow> transaction \<Rightarrow> link_candidate list" where
  "to_candidate s t =
    (case get_account s (tx_account_id t) of
       None \<Rightarrow> []
     | Some a \<Rightarrow> [\<lparr>lc_id = tx_id t, lc_date = tx_date t, lc_amount = tx_amount t,
                   lc_description = tx_description t, lc_account_name = acc_name a\<rparr>])"

definition list_link_candidates :: "db \<Rightarrow> nat \<Rightarrow> int list \<Rightarrow> link_candidate list" where
  "list_link_candidates s limit include_ids =
    (let joined = filter (\<lambda>t. get_account s (tx_account_id t) \<noteq> None) (transactions s);
         recent = take limit (newest_first (filter (\<lambda>t. \<not> tx_is_internal t \<and>
                    tx_id t \<notin> set (loan_linked_transaction_ids s)) joined));
         rows = (if include_ids = [] then recent
                 else let current = newest_first (filter (\<lambda>t. tx_id t \<in> set include_ids) joined)
                      in newest_first (recent @ filter (\<lambda>t. tx_id t \<notin> tx_id ` set recent) current))
     in concat (map (to_candidate s) rows))"

subsection \<open>Loans\<close>

definition get_personal_loan :: "db \<Rightarrow> int \<Rightarrow> personal_loan option" where
  "get_personal_loan s i = find_row pl_id i (loans s)"

definition repayments_of :: "db \<Rightarrow> int \<Rightarrow> repayment list" where
  "repayments_of s lid = sort_key rp_date (filter (\<lambda>r. rp_loan_id r = lid) (repayments s))"

definition list_personal_loans :: "db \<Rightarrow> loan_status option \<Rightarrow> personal_loan list" where
  "list_personal_loans s status =
    rev (sort_key pl_opened_at (filter (\<lambda>l. status = None \<or> status = Some (pl_status l)) (loans s)))"

text \<open>Foreign keys of a loan and \<open>uq_personal_loans_transaction_id\<close>.\<close>

definition personal_loan_allowed :: "db \<Rightarrow> personal_loan \<Rightarrow> bool" where
  "personal_loan_allowed s l \<longleftrightarrow>
    get_counterparty s (pl_counterparty_id l) \<noteq> None \<and>
    fk_ok tx_id (transactions s) (pl_transaction_id l) \<and>
    (\<forall>x \<in> set (loans s). pl_id x \<noteq> pl_id l \<and> pl_transaction_id l \<noteq> None \<longrightarrow>
       pl_transaction_id x \<noteq> pl_transaction_id l)"

record personal_loan_create =
  plc_counterparty_id :: int
  plc_direction :: loan_direction
  plc_principal :: decimal
  plc_currency :: string
  plc_opened_at :: date
  plc_due_at :: "date option"
  plc_notes :: "string option"
  plc_transaction_id :: "int option"

definition create_personal_loan ::
  "personal_loan_create \<Rightarrow> db \<Rightarrow> (personal_loan \<times> db) result" where
  "create_personal_loan p s =
    ebind (case plc_transaction_id p of None \<Rightarrow> Inr () | Some i \<Rightarrow> check_linkable s i) (\<lambda>_.
    let l = \<lparr>pl_id = seq_loan s, pl_counterparty_id = plc_counterparty_id p,
             pl_direction = plc_direction p, pl_principal = plc_principal p,
             pl_currency = plc_currency p, pl_opened_at = plc_opened_at p, pl_due_at = plc_due_at p,
             pl_notes = plc_notes p, pl_status = OUTSTANDING, pl_settled_at = None,
             pl_transaction_id = plc_transaction_id p\<rparr>
    in ebind (commit_link (plc_transaction_id p) (personal_loan_allowed s l)
                (s\<lparr>loans := loans s @ [l], seq_loan := seq_loan s + 1\<rparr>)) (\<lambda>s'. Inr (l, s')))"

record personal_loan_update =
  plu_counterparty_id :: "int option"
  plu_direction :: "loan_direction option"
  plu_principal :: "decimal option"
  plu_currency :: "string option"
  plu_opened_at :: "date option"
  plu_due_at :: "date option option"
  plu_notes :: "string option option"
  plu_status :: "loan_status option"
  plu_transaction_id :: "int option option"

definition apply_loan_update :: "personal_loan_update \<Rightarrow> personal_loan \<Rightarrow> personal_loan" where
  "apply_loan_update u l =
    patch (plu_transaction_id u) (\<lambda>v l. l\<lparr>pl_transaction_id := v\<rparr>)
   (patch (plu_status u) (\<lambda>v l. l\<lparr>pl_status := v\<rparr>)
   (patch (plu_notes u) (\<lambda>v l. l\<lparr>pl_notes := v\<rparr>)
   (patch (plu_due_at u) (\<lambda>v l. l\<lparr>pl_due_at := v\<rparr>)
   (patch (plu_opened_at u) (\<lambda>v l. l\<lparr>pl_opened_at := v\<rparr>)
   (patch (plu_currency u) (\<lambda>v l. l\<lparr>pl_currency := v\<rparr>)
   (patch (plu_principal u) (\<lambda>v l. l\<lparr>pl_principal := v\<rparr>)
   (patch (plu_direction u) (\<lambda>v l. l\<lparr>pl_direction := v\<rparr>)
   (patch (plu_counterparty_id u) (\<lambda>v l. l\<lparr>pl_counterparty_id := v\<rparr>) l))))))))"

definition update_personal_loan ::
  "int \<Rightarrow> personal_loan_update \<Rightarrow> db \<Rightarrow> (personal_loan option \<times> db) result" where
  "update_personal_loan i u s =
    (case get_personal_loan s i of
       None \<Rightarrow> Inr (None, s)
     | Some l \<Rightarrow>
         let link = (case plu_transaction_id u of None \<Rightarrow> None | Some v \<Rightarrow> v);
             l' = apply_loan_update u l
         in ebind (if link \<noteq> None \<and> link \<noteq> pl_transaction_id l then check_linkable s (the link)
                   else Inr ()) (\<lambda>_.
            ebind (commit_link link (personal_loan_allowed s l')
                    (s\<lparr>loans := upd_row pl_id i (\<lambda>_. l') (loans s)\<rparr>)) (\<lambda>s'. Inr (Some l', s'))))"

definition delete_personal_loan :: "int \<Rightarrow> db \<Rightarrow> bool \<times> db" where
  "delete_personal_loan i s =
    (case get_personal_loan s i of
       None \<Rightarrow> (False, s)
     | Some l \<Rightarrow> (True, s\<lparr>loans := del_row pl_id i (loans s),
         repayments := filter (\<lambda>r. rp_loan_id r \<noteq> i) (repayments s)\<rparr>))"

subsection \<open>Repayments\<close>

definition compute_remaining :: "decimal \<Rightarrow> decimal list \<Rightarrow> decimal" where
  "compute_remaining lent repaid = quantize ROUND_HALF_EVEN 2 (lent - sum_list repaid)"

record repayment_create =
  rc_amount :: decimal
  rc_date :: date
  rc_note :: "string option"
  rc_link_account_id :: "int option"
  rc_link_category_id :: "int option"
  rc_link_transaction_id :: "int option"

text \<open>The ledger row that mirrors a repayment.\<close>

definition mirror_row :: "env \<Rightarrow> personal_loan \<Rightarrow> string \<Rightarrow> int \<Rightarrow> repayment_create \<Rightarrow> transaction" where
  "mirror_row e l name account p = \<lparr>tx_id = 0, tx_account_id = account,
     tx_category_id = rc_link_category_id p, tx_payee_id = None, tx_linked_id = None,
     tx_planned_id = None, tx_irregular_id = None, tx_gift_id = None, tx_amount = rc_amount p,
     tx_exchange_rate = None, tx_type = (if pl_direction l = LOAN_OUTGOING then INCOME else EXPENSE),
     tx_date = rc_date p, tx_description = ''Personal loan repayment: '' @ name, tx_notes = None,
     tx_direction = None, tx_is_internal = False, tx_is_split = False, tx_user_id = env_member e,
     tx_updated_at = env_now e, tx_splits = [], tx_tags = []\<rparr>"

definition repayment_link ::
  "env \<Rightarrow> personal_loan \<Rightarrow> repayment_create \<Rightarrow> db \<Rightarrow> (int option \<times> db) result" where
  "repayment_link e l p s =
    (case rc_link_transaction_id p of
       Some i \<Rightarrow> ebind (check_linkable s i) (\<lambda>_. Inr (Some i, s))
     | None \<Rightarrow>
         (case rc_link_account_id p of
            None \<Rightarrow> Inr (None, s)
          | Some a \<Rightarrow>
              (case get_counterparty s (pl_counterparty_id l) of
                 None \<Rightarrow> Inl AttributeError
               | Some c \<Rightarrow> ebind (insert_tx (mirror_row e l (cp_name c) a p) s)
                             (\<lambda>(t, s1). Inr (Some (tx_id t), s1)))))"

text \<open>\<open>uq_personal_loan_repayments_linked_transaction_id\<close> and the foreign keys.\<close>

definition repayment_allowed :: "db \<Rightarrow> repayment \<Rightarrow> bool" where
  "repayment_allowed s r \<longleftrightarrow> get_personal_loan s (rp_loan_id r) \<noteq> None \<and>
    fk_ok tx_id (transactions s) (rp_linked_id r) \<and>
    (\<forall>x \<in> set (repayments s). rp_linked_id r \<noteq> None \<longrightarrow> rp_linked_id x \<noteq> rp_linked_id r)"

definition record_repayment ::
  "env \<Rightarrow> int \<Rightarrow> repayment_create \<Rightarrow> db \<Rightarrow> (repayment option \<times> db) result" where
  "record_repayment e lid p s =
    (case get_personal_loan s lid of
       None \<Rightarrow> Inr (None, s)
     | Some l \<Rightarrow>
         raise_if (rc_link_transaction_id p \<noteq> None \<and> rc_link_account_id p \<noteq> None)
           (ValidationError ''errors.personal_loan.link_ambiguous'')
         (ebind (repayment_link e l p s) (\<lambda>(link, s1).
          let r = \<lparr>rp_id = seq_repayment s1, rp_loan_id = lid, rp_amount = rc_amount p,
                   rp_date = rc_date p, rp_note = rc_note p, rp_linked_id = link\<rparr>;
              remaining = compute_remaining (pl_principal l)
                            (map rp_amount (repayments_of s lid) @ [rc_amount p]);
              l' = (if remaining \<le> 0
                    then l\<lparr>pl_status := SETTLED, pl_settled_at := Some (env_now e)\<rparr>
                    else l\<lparr>pl_status := OUTSTANDING, pl_settled_at := None\<rparr>)
          in ebind (commit_link (rc_link_transaction_id p) (repayment_allowed s1 r)
               (s1\<lparr>repayments := repayments s1 @ [r], seq_repayment := seq_repayment s1 + 1,
                   loans := upd_row pl_id lid (\<lambda>_. l') (loans s1)\<rparr>)) (\<lambda>s'. Inr (Some r, s')))))"

text \<open>The status a loan gets when a repayment was taken away.\<close>

definition reevaluated :: "personal_loan \<Rightarrow> repayment list \<Rightarrow> personal_loan" where
  "reevaluated l reps =
    (if compute_remaining (pl_principal l) (map rp_amount reps) \<le> 0 \<and> reps \<noteq> []
     then l\<lparr>pl_status := SETTLED\<rparr> else l\<lparr>pl_status := OUTSTANDING, pl_settled_at := None\<rparr>)"

definition delete_repayment :: "int \<Rightarrow> db \<Rightarrow> bool \<times> db" where
  "delete_repayment i s =
    (case find_row rp_id i (repayments s) of
       None \<Rightarrow> (False, s)
     | Some r \<Rightarrow>
         let s1 = s\<lparr>repayments := del_row rp_id i (repayments s)\<rparr>
         in (True, case get_personal_loan s1 (rp_loan_id r) of
               None \<Rightarrow> s1
             | Some l \<Rightarrow> s1\<lparr>loans := upd_row pl_id (pl_id l)
                 (\<lambda>_. reevaluated l (repayments_of s1 (pl_id l))) (loans s1)\<rparr>))"

subsection \<open>Totals\<close>

record loan_totals =
  lt_they_owe_you :: decimal
  lt_you_owe :: decimal
  lt_outstanding_count :: nat
  lt_settled_count :: nat

definition loan_remaining :: "db \<Rightarrow> personal_loan \<Rightarrow> decimal" where
  "loan_remaining s l = compute_remaining (pl_principal l) (map rp_amount (repayments_of s (pl_id l)))"

definition tally :: "db \<Rightarrow> personal_loan \<Rightarrow> loan_totals \<Rightarrow> loan_totals" where
  "tally s l t =
    (if pl_status l = SETTLED then t\<lparr>lt_settled_count := lt_settled_count t + 1\<rparr>
     else let t = t\<lparr>lt_outstanding_count := lt_outstanding_count t + 1\<rparr>; remaining = loan_remaining s l
          in if remaining \<le> 0 then t
             else if pl_direction l = LOAN_OUTGOING
             then t\<lparr>lt_they_owe_you := lt_they_owe_you t + remaining\<rparr>
             else t\<lparr>lt_you_owe := lt_you_owe t + remaining\<rparr>)"

definition totals :: "db \<Rightarrow> loan_totals" where
  "totals s =
    (let t = fold (tally s) (list_personal_loans s None)
           \<lparr>lt_they_owe_you = 0, lt_you_owe = 0, lt_outstanding_count = 0, lt_settled_count = 0\<rparr>
     in t\<lparr>lt_they_owe_you := quantize ROUND_HALF_EVEN 2 (lt_they_owe_you t),
          lt_you_owe := quantize ROUND_HALF_EVEN 2 (lt_you_owe t)\<rparr>)"

section \<open>Every transaction is linked at most once\<close>

definition loans_ok :: "db \<Rightarrow> bool" where
  "loans_ok s \<longleftrightarrow> ledger_ok s \<and>
    ids_ok pl_id (seq_loan s) (loans s) \<and> ids_ok rp_id (seq_repayment s) (repayments s) \<and>
    (\<forall>r \<in> set (repayments s). rp_loan_id r \<in> pl_id ` set (loans s)) \<and>
    distinct (link_ids s) \<and> (\<forall>i \<in> set (link_ids s). get_tx s i \<noteq> None)"

text \<open>The operations of the loan service and of the ledger, one at a time, in any order.\<close>

inductive loan_step :: "db \<Rightarrow> db \<Rightarrow> bool" where
  new_person: "create_counterparty hmac name notes s = Inr (c, s') \<Longrightarrow> loan_step s s'"
| edit_person: "update_counterparty hmac i name notes' s = Inr (r, s') \<Longrightarrow> loan_step s s'"
| lend: "create_personal_loan p s = Inr (l, s') \<Longrightarrow> loan_step s s'"
| edit: "update_personal_loan i u s = Inr (l', s') \<Longrightarrow> loan_step s s'"
| forget: "delete_personal_loan i s = (b, s') \<Longrightarrow> loan_step s s'"
| repay: "record_repayment e i rp s = Inr (rr, s') \<Longrightarrow> loan_step s s'"
| unrepay: "delete_repayment i s = (b, s') \<Longrightarrow> loan_step s s'"
| book: "insert_tx t s = Inr (row, s') \<Longrightarrow> loan_step s s'"
| rebook: "save_tx now t s = Inr s' \<Longrightarrow> loan_step s s'"
| unbook: "delete i s = Inr (b, s') \<Longrightarrow> loan_step s s'"

inductive loan_reachable :: "db \<Rightarrow> bool" where
  start: "ledger_ok s \<Longrightarrow> loans s = [] \<Longrightarrow> repayments s = [] \<Longrightarrow> loan_reachable s"
| step: "loan_reachable s \<Longrightarrow> loan_step s s' \<Longrightarrow> loan_reachable s'"

lemma map_filter_append [simp]: "List.map_filter f (xs @ ys) = List.map_filter f xs @ List.map_filter f ys"
  by (induction xs) (auto simp: map_filter_simps split: option.splits)

lemma set_map_filter: "set (List.map_filter f xs) = {y. \<exists>x \<in> set xs. f x = Some y}"
  by (induction xs) (auto simp: map_filter_simps split: option.splits)

lemma distinct_map_filter_subset:
  "distinct (List.map_filter f xs) \<Longrightarrow> distinct (List.map_filter f (filter P xs))"
  by (induction xs) (auto simp: map_filter_simps set_map_filter split: option.splits)

lemma map_filter_map: "List.map_filter f xs = List.map_filter id (map f xs)"
  by (induction xs) (auto simp: map_filter_simps split: option.splits)

lemma find_row_split:
  assumes "distinct (map key rows)" and "find_row key i rows = Some r"
  obtains A B where "rows = A @ r # B" and "\<forall>f. upd_row key i f rows = A @ f r # B"
  using assms
proof (induction rows arbitrary: thesis)
  case (Cons x rows)
  show ?case
  proof (cases "key x = i")
    case True
    with Cons.prems(2,3) have "x = r" "i \<notin> key ` set rows" by auto
    with True show ?thesis using Cons.prems(1) [of "[]" rows] by (simp add: upd_row_absent)
  next
    case False
    with Cons.prems(2,3) obtain A B where "rows = A @ r # B" "\<forall>f. upd_row key i f rows = A @ f r # B"
      using Cons.IH by auto
    with False show ?thesis using Cons.prems(1) [of "x # A" B] by simp
  qed
qed simp

lemma check_linkable_Inr:
  "check_linkable s i = Inr u \<longleftrightarrow> get_tx s i \<noteq> None \<and> i \<notin> set (link_ids s)"
  by (auto simp: check_linkable_def loan_linked_transaction_ids_def raise_if_def)

lemma commit_link_Inr [simp]: "commit_link tx ok s = Inr s' \<longleftrightarrow> ok \<and> s' = s"
  by (auto simp: commit_link_def)

text \<open>Whether a new value of a link column can be written.\<close>

definition link_free :: "db \<Rightarrow> int option \<Rightarrow> bool" where
  "link_free s v = (case v of None \<Rightarrow> True | Some i \<Rightarrow> get_tx s i \<noteq> None \<and> i \<notin> set (link_ids s))"

lemma loans_ok_insert:
  assumes "loans_ok s" and "pl_id l = seq_loan s" and "link_free s (pl_transaction_id l)"
  shows "loans_ok (s\<lparr>loans := loans s @ [l], seq_loan := seq_loan s + 1\<rparr>)"
proof -
  have "ids_ok pl_id (seq_loan s + 1) (loans s @ [l])"
    using assms by (intro ids_ok_insert) (auto simp: loans_ok_def)
  with assms show ?thesis
    by (cases "pl_transaction_id l")
      (auto simp: loans_ok_def link_ids_def link_free_def map_filter_simps get_tx_def ledger_ok_def)
qed

lemma loans_ok_save:
  assumes "loans_ok s" and "get_personal_loan s i = Some l" and "pl_id l' = i"
    and "pl_transaction_id l' = pl_transaction_id l \<or> link_free s (pl_transaction_id l')"
  shows "loans_ok (s\<lparr>loans := upd_row pl_id i (\<lambda>_. l') (loans s)\<rparr>)"
proof -
  have d: "distinct (map pl_id (loans s))" using assms(1) by (simp add: loans_ok_def ids_ok_def)
  obtain A B where A: "loans s = A @ l # B" "\<forall>f. upd_row pl_id i f (loans s) = A @ f l # B"
    using find_row_split [OF d assms(2) [unfolded get_personal_loan_def]] by blast
  have i: "pl_id l = i" using assms(2) by (auto simp: get_personal_loan_def dest: find_row_Some_D)
  have ids: "ids_ok pl_id (seq_loan s) (upd_row pl_id i (\<lambda>_. l') (loans s))"
    unfolding assms(3) [symmetric] ids_ok_cong [OF upd_row_const_key]
    using assms(1) by (simp add: loans_ok_def)
  have keys: "pl_id ` set (A @ l' # B) = pl_id ` set (loans s)" using A(1) i assms(3) by auto
  have links: "distinct (link_ids (s\<lparr>loans := A @ l' # B\<rparr>))"
    "\<forall>j \<in> set (link_ids (s\<lparr>loans := A @ l' # B\<rparr>)). get_tx s j \<noteq> None"
    using assms(1,4) A(1)
    by (auto simp: loans_ok_def link_ids_def link_free_def map_filter_simps split: option.splits)
  show ?thesis
    using assms(1) ids keys links by (simp add: loans_ok_def A(2) get_tx_def ledger_ok_def)
qed

lemma loans_ok_frame:
  assumes "loans_ok s" and "ledger_ok s'" and "loans s' = loans s" and "seq_loan s' = seq_loan s"
    and "repayments s' = repayments s" and "seq_repayment s' = seq_repayment s"
    and "\<And>i. get_tx s i \<noteq> None \<Longrightarrow> get_tx s' i \<noteq> None"
  shows "loans_ok s'"
  using assms by (auto simp: loans_ok_def link_ids_def)

lemma loans_ok_add_repayment:
  assumes "loans_ok s" and "rp_id r = seq_repayment s" and "get_personal_loan s (rp_loan_id r) \<noteq> None"
    and "link_free s (rp_linked_id r)"
  shows "loans_ok (s\<lparr>repayments := repayments s @ [r], seq_repayment := seq_repayment s + 1\<rparr>)"
proof -
  have "ids_ok rp_id (seq_repayment s + 1) (repayments s @ [r])"
    using assms by (intro ids_ok_insert) (auto simp: loans_ok_def)
  moreover have "rp_loan_id r \<in> pl_id ` set (loans s)"
    using assms(3) by (simp add: get_personal_loan_def find_row_None_iff)
  ultimately show ?thesis using assms(1,4)
    by (cases "rp_linked_id r")
      (auto simp: loans_ok_def link_ids_def link_free_def map_filter_simps get_tx_def ledger_ok_def)
qed

lemma loans_ok_drop:
  assumes "loans_ok s"
  shows "loans_ok (s\<lparr>loans := filter P (loans s),
    repayments := filter (\<lambda>r. Q r \<and> rp_loan_id r \<in> pl_id ` set (filter P (loans s))) (repayments s)\<rparr>)"
  using assms
  by (auto simp: loans_ok_def link_ids_def get_tx_def ledger_ok_def set_map_filter ids_ok_def
      distinct_map_filter distinct_map_filter_subset)

lemma repayment_link_ok:
  assumes "loans_ok s" and "repayment_link e l p s = Inr (link, s1)"
  shows "loans_ok s1 \<and> link_free s1 link \<and> loans s1 = loans s \<and> repayments s1 = repayments s \<and>
    seq_repayment s1 = seq_repayment s"
proof (cases "rc_link_transaction_id p")
  case (Some i)
  then show ?thesis using assms by (auto simp: repayment_link_def ebind_Inr_iff check_linkable_Inr link_free_def
      split: option.splits)
next
  case None
  show ?thesis
  proof (cases "rc_link_account_id p")
    case (Some a)
    with None assms(2) obtain c :: counterparty and t where
      ins: "insert_tx (mirror_row e l (cp_name c) a p) s = Inr (t, s1)" and link: "link = Some (tx_id t)"
      by (auto simp: repayment_link_def ebind_Inr_iff split: option.splits)
    note i = insert_tx_Inr [OF ins]
    have led: "ledger_ok s" using assms(1) by (simp add: loans_ok_def)
    note g = get_tx_insert [OF ins led]
    have "get_tx s (seq_tx s) = None"
      using led by (auto simp: ledger_ok_def get_tx_def intro: ids_ok_fresh)
    then have "seq_tx s \<notin> set (link_ids s)" using assms(1) by (auto simp: loans_ok_def)
    moreover have "loans_ok s1"
      by (rule loans_ok_frame [OF assms(1) ledger_ok_insert [OF led ins]]) (use i g in auto)
    ultimately show ?thesis using i link g by (auto simp: link_free_def link_ids_def)
  qed (use None assms in \<open>auto simp: repayment_link_def link_free_def\<close>)
qed

lemma record_repayment_Inr:
  assumes "record_repayment e i p s = Inr (r, s')" and "get_personal_loan s i = Some l"
  obtains link s1 row l' where "repayment_link e l p s = Inr (link, s1)" and "r = Some row"
    and "row = \<lparr>rp_id = seq_repayment s1, rp_loan_id = i, rp_amount = rc_amount p,
                rp_date = rc_date p, rp_note = rc_note p, rp_linked_id = link\<rparr>"
    and "l' = (if compute_remaining (pl_principal l) (map rp_amount (repayments_of s i) @ [rc_amount p]) \<le> 0
               then l\<lparr>pl_status := SETTLED, pl_settled_at := Some (env_now e)\<rparr>
               else l\<lparr>pl_status := OUTSTANDING, pl_settled_at := None\<rparr>)"
    and "s' = s1\<lparr>repayments := repayments s1 @ [row], seq_repayment := seq_repayment s1 + 1,
                 loans := upd_row pl_id i (\<lambda>_. l') (loans s1)\<rparr>"
    and "repayment_allowed s1 row"
  using assms by (auto simp: record_repayment_def raise_if_Inr_iff ebind_Inr_iff Let_def)

lemma loans_ok_record:
  assumes "loans_ok s" and "record_repayment e i p s = Inr (r, s')"
  shows "loans_ok s'"
proof (cases "get_personal_loan s i")
  case None
  then show ?thesis using assms by (simp add: record_repayment_def)
next
  case (Some l)
  show ?thesis
  proof (rule record_repayment_Inr [OF assms(2) Some])
    fix link s1 row l'
    assume link: "repayment_link e l p s = Inr (link, s1)"
      and row: "row = \<lparr>rp_id = seq_repayment s1, rp_loan_id = i, rp_amount = rc_amount p,
                rp_date = rc_date p, rp_note = rc_note p, rp_linked_id = link\<rparr>"
      and l': "l' = (if compute_remaining (pl_principal l) (map rp_amount (repayments_of s i) @ [rc_amount p]) \<le> 0
               then l\<lparr>pl_status := SETTLED, pl_settled_at := Some (env_now e)\<rparr>
               else l\<lparr>pl_status := OUTSTANDING, pl_settled_at := None\<rparr>)"
      and s': "s' = s1\<lparr>repayments := repayments s1 @ [row], seq_repayment := seq_repayment s1 + 1,
                 loans := upd_row pl_id i (\<lambda>_. l') (loans s1)\<rparr>"
    note ok = repayment_link_ok [OF assms(1) link]
    let ?s2 = "s1\<lparr>repayments := repayments s1 @ [row], seq_repayment := seq_repayment s1 + 1\<rparr>"
    have g: "get_personal_loan s1 i = Some l" using Some ok by (simp add: get_personal_loan_def)
    have "pl_id l = i" using Some by (auto simp: get_personal_loan_def dest: find_row_Some_D)
    then have f: "pl_id l' = i" "pl_transaction_id l' = pl_transaction_id l" using l' by simp_all
    have "loans_ok ?s2" by (rule loans_ok_add_repayment) (use ok row g in auto)
    from loans_ok_save [OF this, of i l l'] g f s' show ?thesis by (simp add: get_personal_loan_def)
  qed
qed

lemma loans_ok_update:
  assumes "loans_ok s" and "update_personal_loan i u s = Inr (r, s')"
  shows "loans_ok s'"
proof (cases "get_personal_loan s i")
  case None
  then show ?thesis using assms by (simp add: update_personal_loan_def)
next
  case (Some l)
  define l' where "l' = apply_loan_update u l"
  have i: "pl_id l = i" using Some by (auto simp: get_personal_loan_def dest: find_row_Some_D)
  have f: "pl_id l' = i" "pl_transaction_id l' = (case plu_transaction_id u of None \<Rightarrow> pl_transaction_id l | Some v \<Rightarrow> v)"
    using i by (simp_all add: l'_def apply_loan_update_def patch_def split: option.splits)
  from assms(2) Some have s': "s' = s\<lparr>loans := upd_row pl_id i (\<lambda>_. l') (loans s)\<rparr>"
    and "pl_transaction_id l' = pl_transaction_id l \<or> link_free s (pl_transaction_id l')"
    by (auto simp: update_personal_loan_def Let_def ebind_Inr_iff check_linkable_Inr f(2) link_free_def
        l'_def [symmetric] split: option.splits if_splits)
  with loans_ok_save [OF assms(1) Some f(1)] show ?thesis by simp
qed

lemma loans_ok_delete_loan:
  assumes "loans_ok s" and "delete_personal_loan i s = (b, s')"
  shows "loans_ok s'"
proof -
  have eq: "filter (\<lambda>r. rp_loan_id r \<noteq> i) (repayments s) =
    filter (\<lambda>r. True \<and> rp_loan_id r \<in> pl_id ` set (filter (\<lambda>l. pl_id l \<noteq> i) (loans s))) (repayments s)"
    using assms(1) by (intro filter_cong) (auto simp: loans_ok_def)
  show ?thesis using assms loans_ok_drop [OF assms(1), where P = "\<lambda>l. pl_id l \<noteq> i" and Q = "\<lambda>_. True"]
    unfolding eq [symmetric] by (auto simp: delete_personal_loan_def del_row_def split: option.splits)
qed

lemma loans_ok_delete_repayment:
  assumes "loans_ok s" and "delete_repayment i s = (b, s')"
  shows "loans_ok s'"
proof (cases "find_row rp_id i (repayments s)")
  case None
  then show ?thesis using assms by (simp add: delete_repayment_def)
next
  case (Some r)
  have eq: "filter (\<lambda>r. rp_id r \<noteq> i \<and> rp_loan_id r \<in> pl_id ` set (filter (\<lambda>l. True) (loans s))) (repayments s) =
    del_row rp_id i (repayments s)"
    unfolding del_row_def using assms(1) by (intro filter_cong) (auto simp: loans_ok_def)
  define s1 where "s1 = s\<lparr>repayments := del_row rp_id i (repayments s)\<rparr>"
  have ok1: "loans_ok s1"
    using loans_ok_drop [OF assms(1), where P = "\<lambda>_. True" and Q = "\<lambda>r. rp_id r \<noteq> i"] unfolding eq by (simp add: s1_def)
  show ?thesis
  proof (cases "get_personal_loan s1 (rp_loan_id r)")
    case None
    then show ?thesis using assms(2) Some ok1 by (simp add: delete_repayment_def s1_def [symmetric])
  next
    case (Some l)
    have i: "pl_id l = rp_loan_id r" using Some by (auto simp: get_personal_loan_def dest: find_row_Some_D)
    have "loans_ok (s1\<lparr>loans := upd_row pl_id (rp_loan_id r)
        (\<lambda>_. reevaluated l (repayments_of s1 (pl_id l))) (loans s1)\<rparr>)"
      by (rule loans_ok_save [OF ok1 Some]) (use i in \<open>simp_all add: reevaluated_def\<close>)
    then show ?thesis
      using assms(2) Some \<open>find_row rp_id i (repayments s) = Some r\<close> i
      by (simp add: delete_repayment_def s1_def [symmetric])
  qed
qed

lemma loans_ok_unbook:
  assumes "loans_ok s" and "delete i s = Inr (b, s')"
  shows "loans_ok s'"
proof (cases "get_tx s i")
  case None
  then show ?thesis using assms by (simp add: delete_def)
next
  case (Some t)
  define L R where "L = map (\<lambda>l. l\<lparr>pl_transaction_id := unlinked i (pl_transaction_id l)\<rparr>) (loans s)"
    and "R = map (\<lambda>r. r\<lparr>rp_linked_id := unlinked i (rp_linked_id r)\<rparr>) (repayments s)"
  have s': "s' = s\<lparr>transactions := del_row tx_id i (transactions s), loans := L, repayments := R,
      dismissed_pairs := filter (\<lambda>d. dtp_first d \<noteq> i \<and> dtp_second d \<noteq> i) (dismissed_pairs s)\<rparr>"
    using assms(2) Some by (auto simp: delete_def L_def R_def split: if_splits)
  have drop: "List.map_filter (\<lambda>x. unlinked i (f x)) xs = removeAll i (List.map_filter f xs)" for f :: "'b \<Rightarrow> int option" and xs
    by (induction xs) (auto simp: map_filter_simps unlinked_def split: option.splits)
  have "link_ids s' = removeAll i (link_ids s)"
    by (simp add: link_ids_def s' L_def R_def drop map_filter_map [of pl_transaction_id] 
        map_filter_map [of rp_linked_id] comp_def)
      (simp add: drop map_filter_map [symmetric] comp_def)
  moreover have "map pl_id L = map pl_id (loans s)" "map rp_id R = map rp_id (repayments s)"
    by (simp_all add: L_def R_def)
  moreover have "\<forall>r \<in> set R. rp_loan_id r \<in> pl_id ` set L" using assms(1)
    by (auto simp: L_def R_def loans_ok_def image_image)
  moreover have "get_tx s' j = (if j = i then None else get_tx s j)" for j
    by (simp add: get_tx_def s' find_row_del_row)
  moreover have "ledger_ok s'"
    using assms(1) by (auto simp: loans_ok_def ledger_ok_def s' intro: ids_ok_del_row)
  ultimately show ?thesis
    using assms(1) ids_ok_cong [of pl_id L "loans s"] ids_ok_cong [of rp_id R "repayments s"]
    by (simp add: loans_ok_def s' distinct_removeAll)
qed

lemma loan_step_ok: "loan_step s s' \<Longrightarrow> loans_ok s \<Longrightarrow> loans_ok s'"
proof (induction rule: loan_step.induct)
  case (lend p s l s')
  then show ?case
    by (auto simp: create_personal_loan_def ebind_Inr_iff Let_def check_linkable_Inr link_free_def
        split: option.splits intro!: loans_ok_insert)
next
  case (book t s row s')
  then have led: "ledger_ok s" by (simp add: loans_ok_def)
  show ?case
    by (rule loans_ok_frame [OF book(2) ledger_ok_insert [OF led book(1)]])
      (use insert_tx_Inr(2) [OF book(1)] get_tx_insert [OF book(1) led] in auto)
next
  case (rebook now t s s')
  then have led: "ledger_ok s" by (simp add: loans_ok_def)
  show ?case
    by (rule loans_ok_frame [OF rebook(2) ledger_ok_save [OF led rebook(1)]])
      (use save_tx_Inr(1) [OF rebook(1)] get_tx_save [OF rebook(1)] in auto)
next
  case new_person
  then show ?case
    by (auto simp: create_counterparty_def Let_def loans_ok_def link_ids_def get_tx_def ledger_ok_def
        split: if_splits)
next
  case edit_person
  then show ?case
    by (auto simp: update_counterparty_def Let_def loans_ok_def link_ids_def get_tx_def ledger_ok_def
        split: if_splits option.splits)
qed (blast intro: loans_ok_update loans_ok_delete_loan loans_ok_record loans_ok_delete_repayment
    loans_ok_unbook)+

text \<open>
  C14. However loans, repayments and ledger rows come and go, a ledger transaction is tied to at most
  one loan or repayment and every tie points at a row that exists, so no money is counted as loan
  money twice. (Operations run one after the other; two requests that race are left to the unique
  constraints.)
\<close>

theorem loan_links_are_unique:
  assumes "loan_reachable s"
  shows "distinct (link_ids s) \<and> (\<forall>i \<in> set (link_ids s). get_tx s i \<noteq> None) \<and>
    (\<forall>r \<in> set (repayments s). \<exists>l. get_personal_loan s (rp_loan_id r) = Some l)"
proof -
  from assms have "loans_ok s"
  proof (induction rule: loan_reachable.induct)
    case start
    then show ?case by (simp add: loans_ok_def link_ids_def map_filter_simps ids_ok_def)
  qed (rule loan_step_ok)
  then show ?thesis
    by (auto simp: loans_ok_def get_personal_loan_def find_row_None_iff
        simp flip: not_None_eq)
qed

text \<open>A friend is lent 12.00, an existing ledger row, and pays 5.00 back onto account 1.\<close>

definition ex_person_db :: db where
  "ex_person_db = ex_db\<lparr>counterparties := [\<lparr>cp_id = 1, cp_name = ''Ann'', cp_notes = None\<rparr>],
     seq_counterparty := 2\<rparr>"

definition ex_loan_create :: personal_loan_create where
  "ex_loan_create = \<lparr>plc_counterparty_id = 1, plc_direction = LOAN_OUTGOING, plc_principal = 12,
     plc_currency = ''PLN'', plc_opened_at = Date 2026 1 31, plc_due_at = None, plc_notes = None,
     plc_transaction_id = Some 1\<rparr>"

definition ex_repayment :: "decimal \<Rightarrow> repayment_create" where
  "ex_repayment amount = \<lparr>rc_amount = amount, rc_date = Date 2026 2 10, rc_note = None,
     rc_link_account_id = Some 1, rc_link_category_id = None, rc_link_transaction_id = None\<rparr>"

definition ex_lent_db :: db where
  "ex_lent_db = ex_person_db\<lparr>loans := [\<lparr>pl_id = 1, pl_counterparty_id = 1, pl_direction = LOAN_OUTGOING,
     pl_principal = 12, pl_currency = ''PLN'', pl_opened_at = Date 2026 1 31, pl_due_at = None,
     pl_notes = None, pl_status = OUTSTANDING, pl_settled_at = None, pl_transaction_id = Some 1\<rparr>],
     seq_loan := 2\<rparr>"

lemmas ex_loan_defs = ex_person_db_def ex_loan_create_def ex_repayment_def ex_lent_db_def ex_env_def ex_defs

lemma ex_lent: "\<exists>l. create_personal_loan ex_loan_create ex_person_db = Inr (l, ex_lent_db)"
  by (simp add: create_personal_loan_def check_linkable_def loan_linked_transaction_ids_def link_ids_def
      map_filter_simps get_tx_def personal_loan_allowed_def get_counterparty_def fk_ok_def commit_link_def
      Let_def ex_loan_defs)

lemma ex_repaid:
  "\<exists>r s'. record_repayment ex_env 1 (ex_repayment 5) ex_lent_db = Inr (Some r, s') \<and> link_ids s' = [1, 2]"
  by (simp add: record_repayment_def get_personal_loan_def repayment_link_def get_counterparty_def
      mirror_row_def insert_tx_def tx_allowed_def tx_check_def tx_fk_def fk_ok_def same_occurrence_def
      repayment_allowed_def commit_link_def link_ids_def map_filter_simps Let_def ex_loan_defs)

lemma ex_lent_reachable: "loan_reachable ex_person_db" "loan_reachable ex_lent_db"
proof -
  show "loan_reachable ex_person_db"
    by (rule loan_reachable.start)
      (use ex_db_ok(2) in \<open>simp_all add: ledger_ok_def ex_person_db_def ex_db_def empty_db_def\<close>)
  then show "loan_reachable ex_lent_db"
    using ex_lent loan_step.lend loan_reachable.step by blast
qed

theorem loan_links_are_unique_witness:
  "\<exists>s. loan_reachable s \<and> link_ids s = [1, 2] \<and> distinct (link_ids s) \<and> get_tx s 2 \<noteq> None"
proof -
  from ex_repaid obtain r s' where
    r: "record_repayment ex_env 1 (ex_repayment 5) ex_lent_db = Inr (Some r, s')" "link_ids s' = [1, 2]" by blast
  then have reach: "loan_reachable s'"
    using ex_lent_reachable(2) loan_step.repay loan_reachable.step by blast
  from loan_links_are_unique [OF this] r(2) reach show ?thesis by auto
qed

section \<open>What is left to pay\<close>

lemma sum_list_sort_key: "sum_list (map f (sort_key k xs)) = sum_list (map f xs)"
  for f :: "'a \<Rightarrow> 'b::comm_monoid_add"
proof -
  have "mset (map f (sort_key k xs)) = mset (map f xs)" by simp
  then show ?thesis by (metis sum_mset_sum_list)
qed

definition loan_money_ok :: "db \<Rightarrow> bool" where
  "loan_money_ok s \<longleftrightarrow> (\<forall>l \<in> set (loans s). cents (pl_principal l)) \<and>
    (\<forall>r \<in> set (repayments s). cents (rp_amount r))"

definition repaid_total :: "db \<Rightarrow> int \<Rightarrow> decimal" where
  "repaid_total s i = sum_list (map rp_amount (filter (\<lambda>r. rp_loan_id r = i) (repayments s)))"

lemma repaid_of: "sum_list (map rp_amount (repayments_of s i)) = repaid_total s i"
  by (simp add: repayments_of_def repaid_total_def sum_list_sort_key)

lemma cents_repaid: "loan_money_ok s \<Longrightarrow> cents (repaid_total s i)"
  by (auto simp: repaid_total_def loan_money_ok_def intro!: cents_sum_list)

lemma loan_remaining_eq:
  "loan_money_ok s \<Longrightarrow> cents (pl_principal l) \<Longrightarrow> loan_remaining s l = pl_principal l - repaid_total s (pl_id l)"
  by (simp add: loan_remaining_def compute_remaining_def repaid_of cents_repaid)

text \<open>What the mirror of a repayment does to the balance of an account.\<close>

definition mirror_effect :: "personal_loan \<Rightarrow> repayment_create \<Rightarrow> int \<Rightarrow> decimal" where
  "mirror_effect l p a =
    (if rc_link_transaction_id p = None \<and> rc_link_account_id p = Some a
     then if pl_direction l = LOAN_OUTGOING then rc_amount p else - rc_amount p
     else 0)"

lemma repayment_link_balance:
  assumes "books_ok s" and "cents (rc_amount p)" and "repayment_link e l p s = Inr (link, s1)"
    and "has_account s a"
  shows "balance s1 a None = balance s a None + mirror_effect l p a" and "books_ok s1"
proof -
  have "(s1 = s \<and> mirror_effect l p a = 0) \<or>
    (\<exists>c b t. rc_link_transaction_id p = None \<and> rc_link_account_id p = Some b \<and>
       insert_tx (mirror_row e l c b p) s = Inr (t, s1))"
    using assms(3) by (auto simp: repayment_link_def ebind_Inr_iff mirror_effect_def split: option.splits)
  then have "balance s1 a None = balance s a None + mirror_effect l p a \<and> books_ok s1"
  proof (elim disjE conjE exE)
    fix c b t
    assume b: "rc_link_transaction_id p = None" "rc_link_account_id p = Some b"
      and ins: "insert_tx (mirror_row e l c b p) s = Inr (t, s1)"
    have g: "cents (tx_amount (mirror_row e l c b p))" using assms(2) by (simp add: mirror_row_def)
    show ?thesis
      using kaleta_ledger.ins_bal [OF assms(1) g assms(4) ins] kaleta_ledger.ins_eff [OF ins, of a] b
        kaleta_ledger.ins_invar [OF assms(1) g ins]
      by (auto simp: mirror_effect_def tx_delta_def signed_ledger_amount_def mirror_row_def)
  qed (use assms(1) in simp)
  then show "balance s1 a None = balance s a None + mirror_effect l p a" "books_ok s1" by simp_all
qed

text \<open>
  Recording a repayment lowers what is left of its loan by exactly the amount and of no other loan;
  the loan is settled exactly when nothing is left, and open otherwise; and the money appears in the
  ledger exactly when a mirror was asked for: onto the account when the user had lent, off it when the
  user had borrowed. Tying the repayment to an existing row moves no balance.
\<close>

lemma record_repayment_effect:
  assumes "loans_ok s" and "books_ok s" and "loan_money_ok s" and "cents (rc_amount p)"
    and "get_personal_loan s i = Some l" and "record_repayment e i p s = Inr (r, s')"
  shows "(\<exists>l'. get_personal_loan s' i = Some l' \<and>
      loan_remaining s' l' = loan_remaining s l - rc_amount p \<and>
      (pl_status l' = SETTLED \<longleftrightarrow> loan_remaining s' l' \<le> 0)) \<and>
    (\<forall>j k. j \<noteq> i \<and> get_personal_loan s j = Some k \<longrightarrow>
       get_personal_loan s' j = Some k \<and> loan_remaining s' k = loan_remaining s k) \<and>
    (\<forall>a. has_account s a \<longrightarrow> balance s' a None = balance s a None + mirror_effect l p a)"
proof (rule record_repayment_Inr [OF assms(6,5)])
  fix link s1 row l'
  assume link: "repayment_link e l p s = Inr (link, s1)"
    and row: "row = \<lparr>rp_id = seq_repayment s1, rp_loan_id = i, rp_amount = rc_amount p,
                rp_date = rc_date p, rp_note = rc_note p, rp_linked_id = link\<rparr>"
    and l': "l' = (if compute_remaining (pl_principal l) (map rp_amount (repayments_of s i) @ [rc_amount p]) \<le> 0
               then l\<lparr>pl_status := SETTLED, pl_settled_at := Some (env_now e)\<rparr>
               else l\<lparr>pl_status := OUTSTANDING, pl_settled_at := None\<rparr>)"
    and s': "s' = s1\<lparr>repayments := repayments s1 @ [row], seq_repayment := seq_repayment s1 + 1,
                 loans := upd_row pl_id i (\<lambda>_. l') (loans s1)\<rparr>"
  note ok = repayment_link_ok [OF assms(1) link]
  have l: "l \<in> set (loans s)" "pl_id l = i"
    using assms(5) by (auto simp: get_personal_loan_def dest: find_row_Some_D)
  then have c: "cents (pl_principal l)" using assms(3) by (simp add: loan_money_ok_def)
  have f: "pl_id l' = i" "pl_principal l' = pl_principal l" using l' l by simp_all
  have m: "loan_money_ok s'" using assms(3,4) ok row c f
    by (auto simp: loan_money_ok_def s' dest!: set_upd_row_D)
  have tot: "repaid_total s' j = repaid_total s j + (if j = i then rc_amount p else 0)" for j
    using ok by (simp add: repaid_total_def s' row)
  have rem: "loan_remaining s l = pl_principal l - repaid_total s i"
    "loan_remaining s' l' = loan_remaining s l - rc_amount p"
    using loan_remaining_eq [OF assms(3) c] loan_remaining_eq [OF m, of l'] c f l tot [of i] by simp_all
  have "compute_remaining (pl_principal l) (map rp_amount (repayments_of s i) @ [rc_amount p]) = loan_remaining s' l'"
    using rem c assms(4) cents_repaid [OF assms(3)] by (simp add: compute_remaining_def repaid_of)
  then have st: "pl_status l' = SETTLED \<longleftrightarrow> loan_remaining s' l' \<le> 0" unfolding l' by simp
  have g: "find_row pl_id j (loans s') = (if j = i then Some l' else find_row pl_id j (loans s))" for j
    using ok assms(5) f find_row_upd_const_key [where key = pl_id and p = l' and j = j and rows = "loans s"]
    by (simp add: s' get_personal_loan_def)
  have oth: "loan_remaining s' k = loan_remaining s k" if "j \<noteq> i" "get_personal_loan s j = Some k" for j k
  proof -
    have "k \<in> set (loans s)" "pl_id k = j"
      using that by (auto simp: get_personal_loan_def dest: find_row_Some_D)
    with assms(3) that(1) tot [of j] show ?thesis
      by (simp add: loan_remaining_eq [OF assms(3)] loan_remaining_eq [OF m] loan_money_ok_def)
  qed
  have bal: "balance s' a None = balance s1 a None" for a
    using balance_cong [of s' s1] by (simp add: s')
  show ?thesis
    using g st rem oth repayment_link_balance(1) [OF assms(2,4) link]
    by (auto simp: get_personal_loan_def bal)
qed

lemma ex_lent_ok: "loans_ok ex_lent_db" "books_ok ex_lent_db" "loan_money_ok ex_lent_db"
proof -
  show "books_ok ex_lent_db" "loan_money_ok ex_lent_db"
    using ex_db_ok(3)
    by (simp_all add: books_ok_def ledger_ok_def money_ok_def loan_money_ok_def ex_lent_db_def
        ex_person_db_def) (simp add: ex_db_def empty_db_def)
  then show "loans_ok ex_lent_db"
    by (simp add: loans_ok_def books_ok_def link_ids_def map_filter_simps get_tx_def ids_ok_def ex_loan_defs)
qed

lemma record_repayment_effect_witness:
  "\<exists>r s' l'. record_repayment ex_env 1 (ex_repayment 12) ex_lent_db = Inr (r, s') \<and>
     get_personal_loan s' 1 = Some l' \<and> pl_status l' = SETTLED \<and>
     balance s' 1 None = balance ex_lent_db 1 None + 12"
proof -
  define l where "l = hd (loans ex_lent_db)"
  have l: "get_personal_loan ex_lent_db 1 = Some l" "pl_direction l = LOAN_OUTGOING" "loan_remaining ex_lent_db l = 12"
    by (simp_all add: l_def get_personal_loan_def loan_remaining_def compute_remaining_def repayments_of_def
        ex_loan_defs)
  obtain r s' where r: "record_repayment ex_env 1 (ex_repayment 12) ex_lent_db = Inr (r, s')"
    by (simp add: record_repayment_def get_personal_loan_def repayment_link_def get_counterparty_def
        mirror_row_def insert_tx_def tx_allowed_def tx_check_def tx_fk_def fk_ok_def same_occurrence_def
        repayment_allowed_def commit_link_def Let_def ex_loan_defs)
  have c: "cents (rc_amount (ex_repayment 12))" by (simp add: ex_repayment_def)
  have "has_account ex_lent_db 1" by (simp add: has_account_def get_account_def ex_loan_defs)
  with record_repayment_effect [OF ex_lent_ok c l(1) r] r l(2,3) show ?thesis
    by (fastforce simp: mirror_effect_def ex_repayment_def)
qed

section \<open>Totals\<close>

lemma fold_tally:
  "fold (tally s) ls t = t\<lparr>
     lt_they_owe_you := lt_they_owe_you t + (\<Sum>l \<leftarrow> ls. if pl_status l \<noteq> SETTLED \<and>
       pl_direction l = LOAN_OUTGOING then max 0 (loan_remaining s l) else 0),
     lt_you_owe := lt_you_owe t + (\<Sum>l \<leftarrow> ls. if pl_status l \<noteq> SETTLED \<and>
       pl_direction l \<noteq> LOAN_OUTGOING then max 0 (loan_remaining s l) else 0),
     lt_outstanding_count := lt_outstanding_count t + length (filter (\<lambda>l. pl_status l \<noteq> SETTLED) ls),
     lt_settled_count := lt_settled_count t + length (filter (\<lambda>l. pl_status l = SETTLED) ls)\<rparr>"
  by (induction ls arbitrary: t) (auto simp: tally_def Let_def max_def)

lemma sum_list_rev_sort: "sum_list (map f (rev (sort_key k xs))) = sum_list (map f xs)"
  for f :: "'a \<Rightarrow> 'b::comm_monoid_add"
  by (simp add: sum_list_sort_key flip: rev_map)

lemma length_filter_rev_sort: "length (filter P (rev (sort_key k xs))) = length (filter P xs)"
  by (simp add: filter_sort flip: rev_filter)

text \<open>
  The totals of the loan page are exact: what others owe the user is the sum of what is left of
  every open loan the user made, and what the user owes the sum over the open loans the user took, an
  overpaid loan counting as zero; and every loan is counted once, as open or as settled.
\<close>

lemma loan_totals_exact:
  assumes "loan_money_ok s"
  shows "lt_they_owe_you (totals s) = (\<Sum>l \<leftarrow> filter (\<lambda>l. pl_status l = OUTSTANDING \<and>
      pl_direction l = LOAN_OUTGOING) (loans s). max 0 (pl_principal l - repaid_total s (pl_id l))) \<and>
    lt_you_owe (totals s) = (\<Sum>l \<leftarrow> filter (\<lambda>l. pl_status l = OUTSTANDING \<and>
      pl_direction l = LOAN_INCOMING) (loans s). max 0 (pl_principal l - repaid_total s (pl_id l))) \<and>
    lt_outstanding_count (totals s) + lt_settled_count (totals s) = length (loans s)"
proof -
  let ?c = "\<lambda>d. \<Sum>l \<leftarrow> loans s. if pl_status l \<noteq> SETTLED \<and> d (pl_direction l) then max 0 (loan_remaining s l) else 0"
  have out: "(st \<noteq> SETTLED) = (st = OUTSTANDING)" "(d \<noteq> LOAN_OUTGOING) = (d = LOAN_INCOMING)" for st d
    by (cases st, simp_all) (cases d, simp_all)
  have cents: "cents (loan_remaining s l)" for l by (simp add: loan_remaining_def compute_remaining_def)
  have c: "cents (?c d)" for d by (rule cents_sum_list) (auto simp: cents)
  have conv: "?c d = (\<Sum>l \<leftarrow> filter (\<lambda>l. pl_status l = OUTSTANDING \<and> d (pl_direction l)) (loans s).
      max 0 (pl_principal l - repaid_total s (pl_id l)))" for d
    using assms unfolding sum_list_map_filter' out
    by (intro arg_cong [where f = sum_list] map_cong) (auto simp: loan_remaining_eq [OF assms] loan_money_ok_def)
  have "length (filter (\<lambda>l. pl_status l \<noteq> SETTLED) (loans s)) +
      length (filter (\<lambda>l. pl_status l = SETTLED) (loans s)) = length (loans s)"
    using sum_length_filter_compl [of "\<lambda>l. pl_status l = SETTLED" "loans s"] by simp
  with c [of "\<lambda>d. d = LOAN_OUTGOING"] c [of "\<lambda>d. d \<noteq> LOAN_OUTGOING"] show ?thesis
    using conv [of "\<lambda>d. d = LOAN_OUTGOING"] conv [of "\<lambda>d. d \<noteq> LOAN_OUTGOING"]
    by (simp add: totals_def Let_def fold_tally list_personal_loans_def sum_list_rev_sort
        length_filter_rev_sort out(2))
qed

lemma loan_totals_exact_witness:
  "lt_they_owe_you (totals ex_lent_db) = 12"
  using loan_totals_exact [OF ex_lent_ok(3)] by (simp add: repaid_total_def ex_loan_defs)

text \<open>
  An edit keeps the status as it is, also when it changes the principal: raising the principal of a
  settled loan leaves it settled although money is owed again.
\<close>

lemma update_keeps_status:
  assumes "get_personal_loan s i = Some l" and "plu_status u = None"
    and "update_personal_loan i u s = Inr (Some l', s')"
  shows "pl_status l' = pl_status l \<and> (\<forall>v. plu_principal u = Some v \<longrightarrow> pl_principal l' = v)"
proof -
  have "l' = apply_loan_update u l"
    using assms(1,3) by (auto simp: update_personal_loan_def Let_def ebind_Inr_iff split: if_splits)
  moreover have "pl_status (apply_loan_update u l) = pl_status l"
    "plu_principal u = Some v \<Longrightarrow> pl_principal (apply_loan_update u l) = v" for v
    using assms(2) by (simp_all add: apply_loan_update_def patch_def split: option.split)
  ultimately show ?thesis by simp
qed

end
