(* ===== verification/ReserveFunds.thy ===== *)
theory ReserveFunds
  imports PersonalLoans
begin

text \<open>
  \<open>ReserveFundService\<close> (\<open>src/src/kaleta/services/reserve_fund_service.py\<close>) with the payloads of
  \<open>schemas/reserve_fund.py\<close>: emergency, irregular and savings-goal funds backed by an account, the
  target derived from spending, the monthly pace of a goal, contributions and closing (which are
  transfers of \<open>TransactionService\<close>), and the progress figures. \<open>today\<close> is the argument the code
  takes, or the date it asks the clock for.
\<close>

section \<open>Definitions\<close>

definition GOAL_KIND :: reserve_fund_kind where
  "GOAL_KIND = VACATION"

definition TRAILING_WINDOW_DAYS :: int where
  "TRAILING_WINDOW_DAYS = 90"

definition TRAILING_WINDOW_MONTHS :: decimal where
  "TRAILING_WINDOW_MONTHS = 3"

definition TARGET_WINDOW_DAYS :: int where
  "TARGET_WINDOW_DAYS = 365"

definition TARGET_WINDOW_MONTHS :: decimal where
  "TARGET_WINDOW_MONTHS = 12"

subsection \<open>Payloads\<close>

record fund_base =
  fb_name :: string
  fb_kind :: reserve_fund_kind
  fb_target_amount :: decimal
  fb_backing_mode :: backing_mode
  fb_backing_account_id :: "int option"
  fb_backing_category_id :: "int option"
  fb_emergency_multiplier :: "int option"
  fb_target_from_spending :: bool
  fb_target_date :: "date option"

text \<open>The field constraints and the model validator of \<open>ReserveFundBase\<close>.\<close>

definition fund_fields_ok :: "fund_base \<Rightarrow> bool" where
  "fund_fields_ok f \<longleftrightarrow> 1 \<le> length (fb_name f) \<and> length (fb_name f) \<le> 100 \<and>
    0 \<le> fb_target_amount f \<and> cents (fb_target_amount f) \<and>
    (case fb_emergency_multiplier f of None \<Rightarrow> True | Some m \<Rightarrow> 1 \<le> m \<and> m \<le> 24)"

definition check_backing_ref :: "fund_base \<Rightarrow> fund_base result" where
  "check_backing_ref f =
    ebind (case fb_backing_mode f of
       BACKING_ACCOUNT \<Rightarrow>
         raise_if (fb_backing_account_id f = None) ValueError
           (raise_if (fb_backing_category_id f \<noteq> None) ValueError (Inr ()))
     | BACKING_ENVELOPE \<Rightarrow>
         raise_if (fb_backing_category_id f = None) ValueError
           (raise_if (fb_backing_account_id f \<noteq> None) ValueError (Inr ()))) (\<lambda>_.
       raise_if (fb_target_from_spending f \<and> fb_emergency_multiplier f = None) ValueError
       (raise_if (fb_target_date f \<noteq> None \<and> fb_kind f \<noteq> VACATION) ValueError (Inr f)))"

record fund_update =
  fu_name :: "string option"
  fu_kind :: "reserve_fund_kind option"
  fu_target_amount :: "decimal option"
  fu_backing_mode :: "backing_mode option"
  fu_backing_account_id :: "int option option"
  fu_backing_category_id :: "int option option"
  fu_emergency_multiplier :: "int option option"
  fu_target_from_spending :: "bool option"
  fu_target_date :: "date option option"

record goal_contribution =
  gc_amount :: decimal
  gc_from_account_id :: int
  gc_date :: date
  gc_description :: string

record goal_close =
  gcl_release_to_account_id :: "int option"
  gcl_date :: date
  gcl_description :: string

subsection \<open>Targets\<close>

definition trailing_monthly_expense :: "db \<Rightarrow> date \<Rightarrow> int \<Rightarrow> decimal \<Rightarrow> decimal result" where
  "trailing_monthly_expense s today window_days window_months =
    ebind (add_days today (- window_days)) (\<lambda>start.
      Inr (dec_div (sum_list (map tx_amount (filter (\<lambda>t. tx_type t = EXPENSE \<and> \<not> tx_is_internal t \<and>
             start \<le> tx_date t \<and> tx_date t \<le> today \<and>
             tx_id t \<notin> set (loan_linked_transaction_ids s)) (transactions s)))) window_months))"

definition target_monthly_expense :: "db \<Rightarrow> date \<Rightarrow> decimal result" where
  "target_monthly_expense s today =
    trailing_monthly_expense s today TARGET_WINDOW_DAYS TARGET_WINDOW_MONTHS"

definition target_from_monthly :: "decimal \<Rightarrow> int \<Rightarrow> decimal" where
  "target_from_monthly monthly multiplier =
    quantize ROUND_HALF_EVEN 2 (dec_mul monthly (of_int multiplier))"

definition derived_target :: "db \<Rightarrow> reserve_fund \<Rightarrow> date \<Rightarrow> decimal option result" where
  "derived_target s f today =
    (case rf_emergency_multiplier f of
       None \<Rightarrow> Inr None
     | Some m \<Rightarrow> ebind (target_monthly_expense s today) (\<lambda>monthly. Inr (Some (target_from_monthly monthly m))))"

definition effective_target :: "db \<Rightarrow> reserve_fund \<Rightarrow> date \<Rightarrow> decimal result" where
  "effective_target s f today =
    (if rf_target_from_spending f
     then ebind (derived_target s f today) (\<lambda>d.
       Inr (case d of Some x \<Rightarrow> x | None \<Rightarrow> rf_target_amount f))
     else Inr (rf_target_amount f))"

definition snapshot_derived_target :: "db \<Rightarrow> reserve_fund \<Rightarrow> date \<Rightarrow> reserve_fund result" where
  "snapshot_derived_target s f today =
    (if rf_target_from_spending f
     then ebind (effective_target s f today) (\<lambda>x. Inr (f\<lparr>rf_target_amount := x\<rparr>))
     else Inr f)"

definition months_left :: "date \<Rightarrow> date \<Rightarrow> int" where
  "months_left today target_date =
    (let months = (d_year target_date - d_year today) * 12 + d_month target_date - d_month today
     in max (if d_day target_date < d_day today then months - 1 else months) 0)"

definition monthly_pace :: "decimal \<Rightarrow> decimal \<Rightarrow> int \<Rightarrow> decimal" where
  "monthly_pace target saved left =
    (let remaining = target - saved
     in if remaining \<le> 0 then 0
        else quantize ROUND_UP 2 (dec_div remaining (of_int (max left 1))))"

subsection \<open>Funds\<close>

definition get_fund :: "db \<Rightarrow> int \<Rightarrow> reserve_fund option" where
  "get_fund s i = find_row rf_id i (funds s)"

definition list_funds :: "db \<Rightarrow> bool \<Rightarrow> reserve_fund list" where
  "list_funds s include_archived =
    sort_key rf_id (filter (\<lambda>f. include_archived \<or> \<not> rf_is_archived f) (funds s))"

definition fund_fk :: "db \<Rightarrow> reserve_fund \<Rightarrow> bool" where
  "fund_fk s f \<longleftrightarrow> fk_ok acc_id (accounts s) (rf_backing_account_id f) \<and>
    fk_ok cat_id (categories s) (rf_backing_category_id f)"

definition create_fund :: "fund_base \<Rightarrow> date \<Rightarrow> db \<Rightarrow> (reserve_fund \<times> db) result" where
  "create_fund p today s =
    (let f = \<lparr>rf_id = seq_fund s, rf_name = fb_name p, rf_kind = fb_kind p,
              rf_target_amount = fb_target_amount p, rf_backing_mode = fb_backing_mode p,
              rf_backing_account_id = fb_backing_account_id p,
              rf_backing_category_id = fb_backing_category_id p,
              rf_emergency_multiplier = fb_emergency_multiplier p,
              rf_target_from_spending = fb_target_from_spending p, rf_target_date = fb_target_date p,
              rf_is_archived = False, rf_archived_at = None\<rparr>
     in ebind (snapshot_derived_target s f today) (\<lambda>f'.
        if fund_fk s f' then Inr (f', s\<lparr>funds := funds s @ [f'], seq_fund := seq_fund s + 1\<rparr>)
        else Inl (IntegrityError ''reserve_funds'')))"

definition apply_fund_update :: "fund_update \<Rightarrow> reserve_fund \<Rightarrow> reserve_fund" where
  "apply_fund_update u f =
    patch (fu_target_date u) (\<lambda>v f. f\<lparr>rf_target_date := v\<rparr>)
   (patch (fu_target_from_spending u) (\<lambda>v f. f\<lparr>rf_target_from_spending := v\<rparr>)
   (patch (fu_emergency_multiplier u) (\<lambda>v f. f\<lparr>rf_emergency_multiplier := v\<rparr>)
   (patch (fu_backing_category_id u) (\<lambda>v f. f\<lparr>rf_backing_category_id := v\<rparr>)
   (patch (fu_backing_account_id u) (\<lambda>v f. f\<lparr>rf_backing_account_id := v\<rparr>)
   (patch (fu_backing_mode u) (\<lambda>v f. f\<lparr>rf_backing_mode := v\<rparr>)
   (patch (fu_target_amount u) (\<lambda>v f. f\<lparr>rf_target_amount := v\<rparr>)
   (patch (fu_kind u) (\<lambda>v f. f\<lparr>rf_kind := v\<rparr>)
   (patch (fu_name u) (\<lambda>v f. f\<lparr>rf_name := v\<rparr>) f))))))))"

definition update_fund :: "int \<Rightarrow> fund_update \<Rightarrow> date \<Rightarrow> db \<Rightarrow> (reserve_fund option \<times> db) result" where
  "update_fund i u today s =
    (case get_fund s i of
       None \<Rightarrow> Inr (None, s)
     | Some f \<Rightarrow>
         let from_spending = (case fu_target_from_spending u of Some b \<Rightarrow> b | None \<Rightarrow> rf_target_from_spending f);
             multiplier = (case fu_emergency_multiplier u of Some m \<Rightarrow> m | None \<Rightarrow> rf_emergency_multiplier f)
         in raise_if (from_spending \<and> multiplier = None)
              (ValidationError ''errors.reserve_fund.multiplier_required_for_spending_target'')
            (let f1 = apply_fund_update u f;
                 f2 = (if rf_kind f1 \<noteq> GOAL_KIND then f1\<lparr>rf_target_date := None\<rparr> else f1)
             in ebind (snapshot_derived_target s f2 today) (\<lambda>f3.
                if fund_fk s f3
                then Inr (Some f3, s\<lparr>funds := upd_row rf_id i (\<lambda>_. f3) (funds s)\<rparr>)
                else Inl (IntegrityError ''reserve_funds''))))"

definition archive :: "int \<Rightarrow> int \<Rightarrow> db \<Rightarrow> reserve_fund option \<times> db" where
  "archive now i s =
    (case get_fund s i of
       None \<Rightarrow> (None, s)
     | Some f \<Rightarrow>
         let f' = f\<lparr>rf_is_archived := True, rf_archived_at := Some now\<rparr>
         in (Some f', s\<lparr>funds := upd_row rf_id i (\<lambda>_. f') (funds s)\<rparr>))"

definition unarchive :: "int \<Rightarrow> db \<Rightarrow> reserve_fund option \<times> db" where
  "unarchive i s =
    (case get_fund s i of
       None \<Rightarrow> (None, s)
     | Some f \<Rightarrow>
         let f' = f\<lparr>rf_is_archived := False, rf_archived_at := None\<rparr>
         in (Some f', s\<lparr>funds := upd_row rf_id i (\<lambda>_. f') (funds s)\<rparr>))"

text \<open>The items of the fund go with it, and their payments lose the reference.\<close>

definition delete_fund :: "int \<Rightarrow> db \<Rightarrow> bool \<times> db" where
  "delete_fund i s =
    (case get_fund s i of
       None \<Rightarrow> (False, s)
     | Some f \<Rightarrow>
         let gone = map irr_id (filter (\<lambda>x. irr_fund_id x = i) (irregular_items s))
         in (True, s\<lparr>funds := del_row rf_id i (funds s),
               irregular_items := filter (\<lambda>x. irr_fund_id x \<noteq> i) (irregular_items s),
               transactions := map (\<lambda>t. t\<lparr>tx_irregular_id := fold unlinked gone (tx_irregular_id t)\<rparr>)
                 (transactions s)\<rparr>))"

subsection \<open>Savings goals\<close>

definition goal :: "db \<Rightarrow> int \<Rightarrow> (reserve_fund \<times> int) result" where
  "goal s i =
    (case get_fund s i of
       None \<Rightarrow> Inl (NotFoundError ''errors.reserve_fund.fund_not_found'')
     | Some f \<Rightarrow>
         raise_if (rf_kind f \<noteq> GOAL_KIND) (ValidationError ''errors.reserve_fund.only_goal_contributes'')
         (raise_if (rf_is_archived f) (ValidationError ''errors.reserve_fund.goal_already_closed'')
         (case rf_backing_account_id f of
            None \<Rightarrow> Inl (ValidationError ''errors.reserve_fund.goal_no_backing_account'')
          | Some a \<Rightarrow> Inr (f, a))))"

definition move_leg :: "int \<Rightarrow> transfer_direction \<Rightarrow> decimal \<Rightarrow> date \<Rightarrow> string \<Rightarrow> transaction_create" where
  "move_leg a dir amount d desc = \<lparr>tc_account_id = a, tc_category_id = None, tc_payee_id = None,
     tc_amount = amount, tc_exchange_rate = None, tc_type = TRANSFER, tc_direction = Some dir,
     tc_date = d, tc_description = desc, tc_notes = None, tc_is_internal = True, tc_is_split = False,
     tc_linked_id = None, tc_planned_id = None, tc_splits = [], tc_tag_ids = [], tc_payee_name = None\<rparr>"

definition move :: "env \<Rightarrow> int \<Rightarrow> int \<Rightarrow> decimal \<Rightarrow> date \<Rightarrow> string \<Rightarrow> db \<Rightarrow> db result" where
  "move e source target amount d desc s =
    raise_if (source = target) (ValidationError ''errors.reserve_fund.account_to_itself'')
    (case (get_account s source, get_account s target) of
       (Some a, Some b) \<Rightarrow>
         raise_if (acc_currency a \<noteq> acc_currency b)
           (ValidationError ''errors.reserve_fund.same_currency_required'')
         (ebind (validate_rules (move_leg source DIR_OUT amount d desc)) (\<lambda>out.
          ebind (validate_rules (move_leg target DIR_IN amount d desc)) (\<lambda>inc.
          ebind (create_transfer e out inc s) (\<lambda>(legs, s'). Inr s'))))
     | _ \<Rightarrow> Inl (NotFoundError ''errors.reserve_fund.account_not_found''))"

definition contribute :: "env \<Rightarrow> int \<Rightarrow> goal_contribution \<Rightarrow> db \<Rightarrow> db result" where
  "contribute e i p s =
    ebind (goal s i) (\<lambda>(_, backing).
      move e (gc_from_account_id p) backing (gc_amount p) (gc_date p) (gc_description p) s)"

definition last_contribution_source :: "db \<Rightarrow> int \<Rightarrow> int option" where
  "last_contribution_source s i =
    (case get_fund s i of
       None \<Rightarrow> None
     | Some f \<Rightarrow>
         (case rf_backing_account_id f of
            None \<Rightarrow> None
          | Some a \<Rightarrow>
              (case newest_first (filter (\<lambda>t. tx_account_id t = a \<and> tx_direction t = Some DIR_IN \<and>
                        tx_linked_id t \<noteq> None) (transactions s)) of
                 [] \<Rightarrow> None
               | t # _ \<Rightarrow> map_option tx_account_id (get_tx s (the (tx_linked_id t))))))"

definition close :: "env \<Rightarrow> int \<Rightarrow> goal_close \<Rightarrow> db \<Rightarrow> (reserve_fund \<times> db) result" where
  "close e i p s =
    ebind (goal s i) (\<lambda>(_, backing).
    ebind (case gcl_release_to_account_id p of
             None \<Rightarrow> Inr s
           | Some target \<Rightarrow>
               let b = balance s backing None
               in if b > 0 then move e backing target b (gcl_date p) (gcl_description p) s else Inr s)
      (\<lambda>s1. case archive (env_now e) i s1 of
         (None, _) \<Rightarrow> Inl (NotFoundError ''errors.reserve_fund.fund_not_found'')
       | (Some f, s2) \<Rightarrow> Inr (f, s2)))"

subsection \<open>Progress\<close>

record fund_progress =
  fp_id :: int
  fp_base :: fund_base
  fp_is_archived :: bool
  fp_archived_at :: "int option"
  fp_current_balance :: decimal
  fp_progress_pct :: decimal
  fp_months_of_coverage :: "decimal option"
  fp_months_left :: "int option"
  fp_monthly_pace :: "decimal option"

text \<open>The dictionary handed to \<open>model_validate\<close>, which checks the base fields again.\<close>

definition progress_base :: "reserve_fund \<Rightarrow> decimal \<Rightarrow> fund_base" where
  "progress_base f target = \<lparr>fb_name = rf_name f, fb_kind = rf_kind f, fb_target_amount = target,
     fb_backing_mode = rf_backing_mode f, fb_backing_account_id = rf_backing_account_id f,
     fb_backing_category_id = rf_backing_category_id f,
     fb_emergency_multiplier = rf_emergency_multiplier f,
     fb_target_from_spending = rf_target_from_spending f, fb_target_date = rf_target_date f\<rparr>"

definition fund_balance :: "db \<Rightarrow> reserve_fund \<Rightarrow> decimal" where
  "fund_balance s f =
    (case (rf_backing_mode f, rf_backing_account_id f) of
       (BACKING_ACCOUNT, Some a) \<Rightarrow> balance s a None | _ \<Rightarrow> 0)"

definition months_of_coverage :: "db \<Rightarrow> reserve_fund \<Rightarrow> date \<Rightarrow> decimal option result" where
  "months_of_coverage s f today =
    (if rf_kind f = EMERGENCY
     then ebind (trailing_monthly_expense s today TRAILING_WINDOW_DAYS TRAILING_WINDOW_MONTHS) (\<lambda>monthly.
       Inr (if monthly > 0 then Some (quantize ROUND_HALF_EVEN 1 (dec_div (fund_balance s f) monthly))
            else None))
     else Inr None)"

definition with_progress :: "db \<Rightarrow> date \<Rightarrow> reserve_fund \<Rightarrow> fund_progress result" where
  "with_progress s today f =
    (let bal = fund_balance s f
     in ebind (effective_target s f today) (\<lambda>target.
        let pct = (if target > 0 then quantize ROUND_HALF_EVEN 2 (dec_div bal target) else 0);
            left = (if rf_kind f = GOAL_KIND then map_option (months_left today) (rf_target_date f) else None)
        in ebind (months_of_coverage s f today) (\<lambda>cover.
           ebind (raise_if (\<not> fund_fields_ok (progress_base f target)) ValueError
                    (check_backing_ref (progress_base f target))) (\<lambda>b.
           Inr \<lparr>fp_id = rf_id f, fp_base = b, fp_is_archived = rf_is_archived f,
                fp_archived_at = rf_archived_at f, fp_current_balance = bal, fp_progress_pct = pct,
                fp_months_of_coverage = cover, fp_months_left = left,
                fp_monthly_pace = map_option (monthly_pace target bal) left\<rparr>))))"

definition list_with_progress :: "db \<Rightarrow> date \<Rightarrow> bool \<Rightarrow> fund_progress list result" where
  "list_with_progress s today include_archived = emap (with_progress s today) (list_funds s include_archived)"

definition emergency_cover :: "fund_progress list \<Rightarrow> decimal option" where
  "emergency_cover fs =
    (let covers = List.map_filter (\<lambda>f. if fb_kind (fp_base f) = EMERGENCY then fp_months_of_coverage f else None) fs
     in if covers = [] then None else Some (sum_list covers))"

definition emergency_progress :: "db \<Rightarrow> date \<Rightarrow> fund_progress list result" where
  "emergency_progress s today =
    emap (with_progress s today) (filter (\<lambda>f. rf_kind f = EMERGENCY) (list_funds s False))"

definition emergency_cover_months :: "db \<Rightarrow> date \<Rightarrow> decimal option result" where
  "emergency_cover_months s today = ebind (emergency_progress s today) (\<lambda>fs. Inr (emergency_cover fs))"

section \<open>The monthly pace\<close>

text \<open>Two different multiples of \<open>1 / (100 n)\<close> are at least that far apart.\<close>

lemma cents_quotient_gap:
  assumes "cents c" and "cents r" and "0 < n" and "c < r / of_int n"
  shows "1 / (100 * of_int n) \<le> r / of_int n - c"
proof -
  obtain k m where c: "c = of_int k / 100" and r: "r = of_int m / 100"
    using assms(1,2) by (auto elim!: centsE)
  have n: "(0::rat) < of_int n" using assms(3) by simp
  from assms(4) n have "(of_int (k * n) :: rat) < of_int m" by (simp add: c r field_simps)
  then have "(of_int (k * n + 1) :: rat) \<le> of_int m" by (simp only: of_int_less_iff of_int_le_iff)
  with n show ?thesis by (simp add: c r field_simps)
qed

lemma quantize_up_bounds:
  assumes "0 \<le> x"
  shows "x \<le> quantize ROUND_UP 2 x" and "quantize ROUND_UP 2 x < x + 1 / 100"
proof -
  have "x * 100 \<le> of_int \<lceil>x * 100\<rceil>" "of_int \<lceil>x * 100\<rceil> < x * 100 + 1" by linarith+
  then show "x \<le> quantize ROUND_UP 2 x" "quantize ROUND_UP 2 x < x + 1 / 100"
    using assms by (simp_all add: quantize_def field_simps)
qed

text \<open>
  Paying the monthly pace reaches the goal and no smaller amount would: over the months left (one,
  when none is left) the pace covers what is missing, and one grosz less per month does not; a goal
  already reached asks for nothing. The rounding of the division to 28 digits cannot spoil this for
  amounts below \<open>10 ^ 25\<close>.
\<close>

lemma monthly_pace_is_least:
  assumes "cents target" and "cents saved" and "target - saved < 10 ^ 25"
  shows "if target \<le> saved then monthly_pace target saved left = 0
    else target - saved \<le> monthly_pace target saved left * of_int (max left 1) \<and>
      (monthly_pace target saved left - 1 / 100) * of_int (max left 1) < target - saved"
proof (cases "target \<le> saved")
  case True
  then show ?thesis by (simp add: monthly_pace_def)
next
  case False
  define r where "r = target - saved"
  define n where "n = max left 1"
  define q where "q = r / of_int n"
  define c where "c = quantize ROUND_UP 2 (ctx q)"
  have r: "0 < r" "r < 10 ^ 25" "cents r" using False assms by (simp_all add: r_def)
  have n: "0 < n" "(0::rat) < of_int n" by (simp_all add: n_def)
  have pace: "monthly_pace target saved left = c"
    using False by (simp add: monthly_pace_def dec_div_def c_def q_def r_def n_def Let_def)
  have q: "0 \<le> q" using r n by (simp add: q_def)
  have small: "q / 10 ^ 27 < 1 / (100 * of_int n)"
    using r n by (simp add: q_def field_simps)
  have err: "\<bar>ctx q - q\<bar> < 1 / (100 * of_int n)"
    using ctx_error [of q] small q by (simp add: abs_of_nonneg)
  have cc: "cents c" "ctx q \<le> c" "c < ctx q + 1 / 100"
    using quantize_up_bounds [OF ctx_nonneg [OF q]] by (simp_all add: c_def)
  have "q \<le> c"
    using cents_quotient_gap [OF cc(1) r(3) n(1)] err cc(2) by (force simp: q_def)
  moreover have "c - 1 / 100 < q"
  proof (rule ccontr)
    assume *: "\<not> c - 1 / 100 < q"
    have "cents (c - 1 / 100)" using cc(1) cents_numeral(2) [of Num.One] by (intro cents_diff) simp_all
    from this * obtain k where k: "c - 1 / 100 = of_int k / 100" by (auto elim: centsE)
    obtain m where m: "r = of_int m / 100" using r(3) by (auto elim: centsE)
    have "of_int (m) \<le> (of_int (k * n) :: rat)" using * n by (simp add: k q_def m field_simps)
    then have le: "m \<le> k * n" by (simp only: of_int_le_iff)
    show False
    proof (cases "m = k * n")
      case True
      then have "q = of_int k / 100" using n by (simp add: q_def m)
      then have "ctx q = q"
        using r n by (intro ctx_cents) (auto intro: centsI simp: q_def field_simps
            intro!: order.strict_trans2 [OF r(2)] mult_mono)
      with cc(3) * show False by simp
    next
      case False
      with le have "m + 1 \<le> k * n" by simp
      then have "(of_int (m + 1) :: rat) \<le> of_int (k * n)" by (simp only: of_int_le_iff)
      then have "1 / (100 * of_int n) \<le> of_int k / 100 - q" using n by (simp add: q_def m field_simps)
      with err cc(3) k show False by linarith
    qed
  qed
  ultimately have "r \<le> c * of_int n" "(c - 1 / 100) * of_int n < r"
    using n by (simp_all add: q_def field_simps)
  with False show ?thesis by (simp add: pace r_def n_def)
qed

lemma monthly_pace_is_least_witness:
  "100 \<le> monthly_pace 100 0 7 * 7 \<and> (monthly_pace 100 0 7 - 1 / 100) * 7 < 100"
  using monthly_pace_is_least [of 100 0 7] by simp

section \<open>Contributions and closing\<close>

lemma create_transfer_frame:
  assumes "create_transfer e p q s = Inr ((a, b), s')"
  shows "funds s' = funds s" and "accounts s' = accounts s"
proof -
  from assms obtain t u s1 s2 where
    i1: "insert_tx ((new_row e p)\<lparr>tx_direction := Some DIR_OUT\<rparr>) s = Inr (t, s1)"
    and i2: "insert_tx ((new_row e q)\<lparr>tx_direction := Some DIR_IN, tx_linked_id := Some (tx_id t)\<rparr>) s1 = Inr (u, s2)"
    and sv: "save_tx (env_now e) (t\<lparr>tx_linked_id := Some (tx_id u)\<rparr>) s2 = Inr s'"
    by (rule create_transfer_Inr)
  show "funds s' = funds s" "accounts s' = accounts s"
    by (simp_all add: save_tx_Inr(1) [OF sv] insert_tx_Inr(2) [OF i1] insert_tx_Inr(2) [OF i2])
qed

text \<open>Moving money between two accounts of one currency always succeeds.\<close>

lemma move_effect:
  assumes "books_ok s" and "get_account s x = Some ax" and "get_account s y = Some ay" and "x \<noteq> y"
    and "acc_currency ax = acc_currency ay" and "cents amount"
  shows "\<exists>s'. move e x y amount d desc s = Inr s' \<and> books_ok s' \<and> funds s' = funds s \<and> accounts s' = accounts s \<and>
    (\<forall>a. has_account s a \<longrightarrow> balance s' a None = balance s a None
      - (if a = x then amount else 0) + (if a = y then amount else 0))"
proof -
  let ?o = "move_leg x DIR_OUT amount d desc" and ?i = "move_leg y DIR_IN amount d desc"
  have v: "validate_rules ?o = Inr ?o" "validate_rules ?i = Inr ?i"
    by (simp_all add: validate_rules_def move_leg_def)
  have "\<exists>a b s'. create_transfer e ?o ?i s = Inr ((a, b), s')"
    by (rule create_transfer_total) (use assms in \<open>simp_all add: move_leg_def has_account_def\<close>)
  then obtain a b s' where ct: "create_transfer e ?o ?i s = Inr ((a, b), s')" by blast
  have "cents (tc_amount ?o)" "cents (tc_amount ?i)" using assms(6) by (simp_all add: move_leg_def)
  note eff = create_transfer_effect [OF assms(1) this ct]
  have "move e x y amount d desc s = Inr s'" using ct v assms(2-5) by (simp add: move_def)
  moreover from eff have "\<forall>a. has_account s a \<longrightarrow> balance s' a None = balance s a None
      - (if a = tc_account_id ?o then tc_amount ?o else 0) + (if a = tc_account_id ?i then tc_amount ?i else 0)"
    by blast
  then have "\<forall>a. has_account s a \<longrightarrow> balance s' a None = balance s a None
      - (if a = x then amount else 0) + (if a = y then amount else 0)" by (simp add: move_leg_def)
  ultimately show ?thesis using create_transfer_frame [OF ct] eff by blast
qed

text \<open>
  A contribution puts exactly its amount into the goal: when the goal is open and the source is
  another known account of the same currency, the transfer goes through, the backing account gains
  the amount, the source loses it and no other balance moves; the fund rows stay as they are. A closed
  goal, another kind of fund, or the backing account itself as the source is refused.
\<close>

lemma contribute_effect:
  assumes "books_ok s" and "get_fund s i = Some f" and "rf_backing_account_id f = Some b"
    and "get_account s b = Some ab" and "get_account s (gc_from_account_id p) = Some af"
    and "acc_currency ab = acc_currency af" and "cents (gc_amount p)"
  shows "if rf_kind f \<noteq> VACATION \<or> rf_is_archived f \<or> gc_from_account_id p = b
    then \<exists>key. contribute e i p s = Inl (ValidationError key)
    else \<exists>s'. contribute e i p s = Inr s' \<and> books_ok s' \<and> funds s' = funds s \<and>
      (\<forall>a. has_account s a \<longrightarrow> balance s' a None = balance s a None
        - (if a = gc_from_account_id p then gc_amount p else 0) + (if a = b then gc_amount p else 0))"
proof (cases "rf_kind f \<noteq> VACATION \<or> rf_is_archived f \<or> gc_from_account_id p = b")
  case True
  then show ?thesis using assms(2,3) by (auto simp: contribute_def goal_def GOAL_KIND_def move_def raise_if_def)
next
  case False
  then have "goal s i = Inr (f, b)" using assms(2,3) by (simp add: goal_def GOAL_KIND_def)
  with False move_effect [OF assms(1,5,4) _ _ assms(7), of e "gc_date p" "gc_description p"] assms(6)
  show ?thesis by (auto simp: contribute_def)
qed

definition ex_goal :: reserve_fund where
  "ex_goal = \<lparr>rf_id = 1, rf_name = ''Trip'', rf_kind = VACATION, rf_target_amount = 1000,
     rf_backing_mode = BACKING_ACCOUNT, rf_backing_account_id = Some 2, rf_backing_category_id = None,
     rf_emergency_multiplier = None, rf_target_from_spending = False,
     rf_target_date = Some (Date 2026 12 31), rf_is_archived = False, rf_archived_at = None\<rparr>"

definition ex_goal_db :: db where
  "ex_goal_db = ex_db\<lparr>funds := [ex_goal], seq_fund := 2\<rparr>"

definition ex_contribution :: goal_contribution where
  "ex_contribution = \<lparr>gc_amount = 40, gc_from_account_id = 1, gc_date = Date 2026 3 1, gc_description = []\<rparr>"

lemma ex_goal_db_ok: "books_ok ex_goal_db" "get_fund ex_goal_db 1 = Some ex_goal"
  "get_account ex_goal_db 1 = Some (ex_account 1 100)" "get_account ex_goal_db 2 = Some (ex_account 2 (5 / 2))"
  using ex_db_ok(3)
  by (simp_all add: books_ok_def ledger_ok_def money_ok_def ex_goal_db_def get_fund_def ex_goal_def
      get_account_def ex_db_def ex_account_def)

lemma contribute_effect_witness:
  "\<exists>s'. contribute ex_env 1 ex_contribution ex_goal_db = Inr s' \<and>
     balance s' 2 None = balance ex_goal_db 2 None + 40 \<and> balance s' 1 None = balance ex_goal_db 1 None - 40"
proof -
  have *: "rf_backing_account_id ex_goal = Some 2" "rf_kind ex_goal = VACATION" "\<not> rf_is_archived ex_goal"
    "get_account ex_goal_db (gc_from_account_id ex_contribution) = Some (ex_account 1 100)"
    "acc_currency (ex_account 2 (5 / 2)) = acc_currency (ex_account 1 100)" "cents (gc_amount ex_contribution)"
    "gc_from_account_id ex_contribution = 1" "gc_amount ex_contribution = 40"
    "has_account ex_goal_db 1" "has_account ex_goal_db 2"
    by (simp_all add: ex_goal_def ex_contribution_def ex_goal_db_ok ex_account_def has_account_def)
  from contribute_effect [OF ex_goal_db_ok(1,2) *(1) ex_goal_db_ok(4) *(4-6), of ex_env] * show ?thesis
    by auto
qed

lemma archive_effect:
  assumes "get_fund s i = Some f"
  shows "archive now i s = (Some (f\<lparr>rf_is_archived := True, rf_archived_at := Some now\<rparr>),
      s\<lparr>funds := upd_row rf_id i (\<lambda>_. f\<lparr>rf_is_archived := True, rf_archived_at := Some now\<rparr>) (funds s)\<rparr>)"
    and "get_fund (snd (archive now i s)) j =
      (if j = i then Some (f\<lparr>rf_is_archived := True, rf_archived_at := Some now\<rparr>) else get_fund s j)"
proof -
  let ?f = "f\<lparr>rf_is_archived := True, rf_archived_at := Some now\<rparr>"
  have "rf_id ?f = i" using assms by (auto simp: get_fund_def dest: find_row_Some_D)
  show "archive now i s = (Some ?f, s\<lparr>funds := upd_row rf_id i (\<lambda>_. ?f) (funds s)\<rparr>)"
    using assms by (simp add: archive_def Let_def)
  then show "get_fund (snd (archive now i s)) j = (if j = i then Some ?f else get_fund s j)"
    using \<open>rf_id ?f = i\<close> assms find_row_upd_const_key [where key = rf_id and p = ?f and j = j and rows = "funds s"]
    by (simp add: get_fund_def)
qed

text \<open>
  C15. Closing a goal releases all of its money and ends it: the backing account keeps nothing (or what
  it was overdrawn by), the chosen account receives exactly what was there, no other balance moves, the
  fund is archived, the other funds stay as they are, and no later contribution to it is accepted.
\<close>

theorem close_releases_everything:
  assumes "books_ok s" and "goal s i = Inr (f, b)" and "gcl_release_to_account_id p = Some t" and "t \<noteq> b"
    and "get_account s b = Some ab" and "get_account s t = Some ar" and "acc_currency ab = acc_currency ar"
  shows "\<exists>f' s'. close e i p s = Inr (f', s') \<and> rf_is_archived f' \<and>
    (\<forall>a. has_account s a \<longrightarrow> balance s' a None =
       (if a = b then min (balance s b None) 0
        else if a = t then balance s t None + max (balance s b None) 0 else balance s a None)) \<and>
    (\<forall>j. get_fund s' j = (if j = i then Some f' else get_fund s j)) \<and>
    (\<forall>c. contribute e i c s' = Inl (ValidationError ''errors.reserve_fund.goal_already_closed''))"
proof -
  have f: "get_fund s i = Some f" "rf_kind f = GOAL_KIND"
    using assms(2) by (auto simp: goal_def raise_if_def split: option.splits if_splits)
  let ?bal = "balance s b None"
  define s1 where "s1 = (if ?bal > 0 then
      (case move e b t ?bal (gcl_date p) (gcl_description p) s of Inr u \<Rightarrow> u | Inl _ \<Rightarrow> s) else s)"
  have c: "cents ?bal" using assms(1) by (auto simp: books_ok_def intro: balance_cents)
  from move_effect [OF assms(1,5,6) _ assms(7) c, of e "gcl_date p" "gcl_description p"] assms(4)
  obtain u where u: "move e b t ?bal (gcl_date p) (gcl_description p) s = Inr u" "funds u = funds s"
    "accounts u = accounts s" "\<forall>a. has_account s a \<longrightarrow> balance u a None = balance s a None
      - (if a = b then ?bal else 0) + (if a = t then ?bal else 0)" by auto
  have s1: "funds s1 = funds s" "\<forall>a. has_account s a \<longrightarrow> balance s1 a None =
       (if a = b then min ?bal 0 else if a = t then balance s t None + max ?bal 0 else balance s a None)"
    using u assms(4) by (auto simp: s1_def)
  have g: "get_fund s1 i = Some f" using f s1 by (simp add: get_fund_def)
  let ?f = "f\<lparr>rf_is_archived := True, rf_archived_at := Some (env_now e)\<rparr>"
  define s2 where "s2 = snd (archive (env_now e) i s1)"
  have cl: "close e i p s = Inr (?f, s2)"
    using assms(2,3) u(1) archive_effect(1) [OF g, of "env_now e"]
    by (auto simp: close_def s1_def s2_def Let_def)
  have b2: "balance s2 = balance s1"
    by (rule balance_cong) (simp_all add: s2_def archive_effect(1) [OF g])
  have gf: "get_fund s2 j = (if j = i then Some ?f else get_fund s j)" for j
    using archive_effect(2) [OF g, of "env_now e" j] s1(1) by (simp add: s2_def get_fund_def)
  have "contribute e i c s2 = Inl (ValidationError ''errors.reserve_fund.goal_already_closed'')" for c
    using gf [of i] f(2) by (simp add: contribute_def goal_def)
  with cl b2 gf s1(2) show ?thesis by (intro exI [of _ ?f] exI [of _ s2]) simp
qed

theorem close_releases_everything_witness:
  "\<exists>f' s'. close ex_env 1 \<lparr>gcl_release_to_account_id = Some 1, gcl_date = Date 2026 5 1, gcl_description = []\<rparr>
      ex_goal_db = Inr (f', s') \<and> rf_is_archived f' \<and> balance s' 2 None = 0"
proof -
  let ?p = "\<lparr>gcl_release_to_account_id = Some 1, gcl_date = Date 2026 5 1, gcl_description = []\<rparr>"
  have g: "goal ex_goal_db 1 = Inr (ex_goal, 2)"
    using ex_goal_db_ok(2) by (simp add: goal_def GOAL_KIND_def ex_goal_def)
  have b: "balance ex_goal_db 2 None = 5 / 2"
    using ex_goal_db_ok(1) balance_eq [OF _ ex_goal_db_ok(4), of None]
    by (simp add: books_ok_def sum_ledger_rows) (simp add: ex_goal_db_def ex_db_def ex_account_def tx_delta_def ex_tx_def empty_db_def)
  have "acc_currency (ex_account 2 (5 / 2)) = acc_currency (ex_account 1 100)" "has_account ex_goal_db 2"
    by (simp_all add: ex_account_def has_account_def ex_goal_db_ok)
  with close_releases_everything [OF ex_goal_db_ok(1) g _ _ ex_goal_db_ok(4,3), of ?p ex_env] b show ?thesis
    by auto
qed

text \<open>
  \<open>update\<close> does not check the backing fields again, but \<open>with_progress\<close> validates every row it
  returns: a fund switched to the envelope mode without a category makes the whole list raise.
\<close>

definition ex_switch :: fund_update where
  "ex_switch = \<lparr>fu_name = None, fu_kind = None, fu_target_amount = None,
     fu_backing_mode = Some BACKING_ENVELOPE, fu_backing_account_id = None, fu_backing_category_id = None,
     fu_emergency_multiplier = None, fu_target_from_spending = None, fu_target_date = None\<rparr>"

lemma update_can_break_the_list:
  "\<exists>f s'. update_fund 1 ex_switch (Date 2026 3 1) ex_goal_db = Inr (Some f, s') \<and>
     list_with_progress s' (Date 2026 3 1) False = Inl ValueError"
  by (simp add: update_fund_def ex_goal_db_ok Let_def apply_fund_update_def ex_switch_def
      snapshot_derived_target_def fund_fk_def fk_ok_def list_with_progress_def list_funds_def)
    (simp add: ex_goal_db_def ex_goal_def ex_db_def ex_account_def empty_db_def GOAL_KIND_def with_progress_def
      effective_target_def months_of_coverage_def check_backing_ref_def progress_base_def fund_fields_ok_def Let_def)

end
