(* ===== verification/Categories.thy ===== *)
theory Categories
  imports Transactions
begin

text \<open>
  \<open>CategoryService\<close> (\<open>src/src/kaleta/services/category_service.py\<close>): the two-level tree of income
  and expense categories, its uniqueness and type checks, the cascade of a delete over the tables that
  refer to a category, the ordering used by the pickers, and the Subscriptions tree with its default
  children. \<open>now\<close> is the clock that \<open>updated_at\<close> is stamped with.
\<close>

section \<open>Definitions\<close>

subsection \<open>Reading\<close>

definition list_categories :: "db \<Rightarrow> category_type option \<Rightarrow> category list" where
  "list_categories s ty = by_name cat_name (filter (\<lambda>c. ty = None \<or> ty = Some (cat_type c)) (categories s))"

definition list_roots :: "db \<Rightarrow> category_type option \<Rightarrow> category list" where
  "list_roots s ty = by_name cat_name
    (filter (\<lambda>c. cat_parent_id c = None \<and> (ty = None \<or> ty = Some (cat_type c))) (categories s))"

definition get_category :: "db \<Rightarrow> int \<Rightarrow> category option" where
  "get_category s i = find_row cat_id i (categories s)"

definition children_of :: "db \<Rightarrow> int \<Rightarrow> category list" where
  "children_of s i = filter (\<lambda>c. cat_parent_id c = Some i) (categories s)"

subsection \<open>Checks\<close>

definition assert_type_matches_parent :: "db \<Rightarrow> int option \<Rightarrow> category_type \<Rightarrow> unit result" where
  "assert_type_matches_parent s parent ty =
    (case parent of
       None \<Rightarrow> Inr ()
     | Some i \<Rightarrow>
         (case get_category s i of
            None \<Rightarrow> Inl (NotFoundError ''errors.category.parent_not_found'')
          | Some p \<Rightarrow> raise_if (cat_type p \<noteq> ty) (ConflictError ''errors.category.type_must_match_parent'')
                        (Inr ())))"

definition same_place :: "(string \<Rightarrow> string) \<Rightarrow> string \<Rightarrow> int option \<Rightarrow> category_type \<Rightarrow> category \<Rightarrow> bool" where
  "same_place hmac name parent ty c \<longleftrightarrow>
    exact_index hmac (cat_name c) = exact_index hmac name \<and> cat_type c = ty \<and> cat_parent_id c = parent"

definition assert_unique_name ::
  "(string \<Rightarrow> string) \<Rightarrow> db \<Rightarrow> string \<Rightarrow> int option \<Rightarrow> category_type \<Rightarrow> int option \<Rightarrow> unit result" where
  "assert_unique_name hmac s name parent ty exclude =
    (case filter (\<lambda>c. same_place hmac name parent ty c \<and> exclude \<noteq> Some (cat_id c)) (categories s) of
       [] \<Rightarrow> Inr ()
     | [_] \<Rightarrow> Inl (ConflictError ''errors.category.name_exists'')
     | _ \<Rightarrow> Inl MultipleResultsFound)"

text \<open>\<open>uq_categories_parent_type_name_bidx\<close> (a NULL parent equals nothing) and the parent's key.\<close>

definition category_allowed :: "(string \<Rightarrow> string) \<Rightarrow> db \<Rightarrow> category \<Rightarrow> bool" where
  "category_allowed hmac s c \<longleftrightarrow> fk_ok cat_id (categories s) (cat_parent_id c) \<and>
    (\<forall>x \<in> set (categories s). cat_id x \<noteq> cat_id c \<and> cat_parent_id c \<noteq> None \<longrightarrow>
       \<not> same_place hmac (cat_name c) (cat_parent_id c) (cat_type c) x)"

subsection \<open>Writing\<close>

record category_create =
  ctc_name :: string
  ctc_type :: category_type
  ctc_parent_id :: "int option"

record category_update =
  ctu_name :: "string option"
  ctu_type :: "category_type option"
  ctu_parent_id :: "int option option"

definition insert_category :: "(string \<Rightarrow> string) \<Rightarrow> category \<Rightarrow> db \<Rightarrow> (category \<times> db) result" where
  "insert_category hmac c s =
    (let row = c\<lparr>cat_id := seq_category s\<rparr>
     in if category_allowed hmac s row
        then Inr (row, s\<lparr>categories := categories s @ [row], seq_category := seq_category s + 1\<rparr>)
        else Inl (IntegrityError ''categories''))"

definition create_category ::
  "(string \<Rightarrow> string) \<Rightarrow> category_create \<Rightarrow> db \<Rightarrow> (category \<times> db) result" where
  "create_category hmac p s =
    ebind (assert_type_matches_parent s (ctc_parent_id p) (ctc_type p)) (\<lambda>_.
    ebind (assert_unique_name hmac s (ctc_name p) (ctc_parent_id p) (ctc_type p) None) (\<lambda>_.
    ebind (insert_category hmac \<lparr>cat_id = 0, cat_name = ctc_name p, cat_type = ctc_type p,
             cat_parent_id = ctc_parent_id p, cat_is_subscriptions_root = False\<rparr> s) (\<lambda>(c, s').
    case get_category s' (cat_id c) of
      None \<Rightarrow> Inl (KaletaError ''Category not found after commit'')
    | Some fetched \<Rightarrow> Inr (fetched, s'))))"

definition apply_category_update :: "category_update \<Rightarrow> category \<Rightarrow> category" where
  "apply_category_update u c =
    patch (ctu_parent_id u) (\<lambda>v c. c\<lparr>cat_parent_id := v\<rparr>)
   (patch (ctu_type u) (\<lambda>v c. c\<lparr>cat_type := v\<rparr>)
   (patch (ctu_name u) (\<lambda>v c. c\<lparr>cat_name := v\<rparr>) c))"

definition update_category ::
  "(string \<Rightarrow> string) \<Rightarrow> int \<Rightarrow> category_update \<Rightarrow> db \<Rightarrow> (category option \<times> db) result" where
  "update_category hmac i u s =
    (case get_category s i of
       None \<Rightarrow> Inr (None, s)
     | Some c \<Rightarrow>
         let c' = apply_category_update u c
         in ebind (assert_type_matches_parent s (cat_parent_id c') (cat_type c')) (\<lambda>_.
            ebind (assert_unique_name hmac s (cat_name c') (cat_parent_id c') (cat_type c') (Some i)) (\<lambda>_.
            if category_allowed hmac s c'
            then Inr (Some c', s\<lparr>categories := upd_row cat_id i (\<lambda>_. c') (categories s)\<rparr>)
            else Inl (IntegrityError ''categories''))))"

text \<open>
  The ids a delete takes with it: the category and everything below it (the \<open>children\<close> relationship
  cascades). Every round adds the children of what is there; as many rounds as there are categories
  reach everything.
\<close>

definition with_children :: "category list \<Rightarrow> int list \<Rightarrow> int list" where
  "with_children cs ids =
    ids @ map cat_id (filter (\<lambda>c. cat_parent_id c \<in> Some ` set ids \<and> cat_id c \<notin> set ids) cs)"

primrec below :: "category list \<Rightarrow> nat \<Rightarrow> int list \<Rightarrow> int list" where
  "below cs 0 ids = ids"
| "below cs (Suc n) ids = below cs n (with_children cs ids)"

definition subtree :: "db \<Rightarrow> int \<Rightarrow> int list" where
  "subtree s i = below (categories s) (length (categories s)) [i]"

definition without_refs :: "int list \<Rightarrow> int option \<Rightarrow> int option" where
  "without_refs ids v = (case v of None \<Rightarrow> None | Some i \<Rightarrow> if i \<in> set ids then None else Some i)"

text \<open>
  What the rows that refer to the removed categories become: transactions are uncategorised by the
  ORM (an UPDATE of the row), split lines, plans, funds, subscriptions and irregular items by the
  foreign keys (SET NULL); budgets (delete-orphan) and rules (CASCADE) go.
\<close>

definition uncategorise :: "int \<Rightarrow> int list \<Rightarrow> transaction \<Rightarrow> transaction" where
  "uncategorise now ids t =
    (touch now t (t\<lparr>tx_category_id := without_refs ids (tx_category_id t)\<rparr>))
      \<lparr>tx_splits := map (\<lambda>l. l\<lparr>sp_category_id := without_refs ids (sp_category_id l)\<rparr>) (tx_splits t)\<rparr>"

definition remove_categories :: "int \<Rightarrow> int list \<Rightarrow> db \<Rightarrow> db" where
  "remove_categories now ids s = s\<lparr>
     categories := filter (\<lambda>c. cat_id c \<notin> set ids) (categories s),
     transactions := map (uncategorise now ids) (transactions s),
     budgets := filter (\<lambda>b. bud_category_id b \<notin> set ids) (budgets s),
     plans := map (\<lambda>p. p\<lparr>pt_category_id := without_refs ids (pt_category_id p)\<rparr>) (plans s),
     funds := map (\<lambda>f. f\<lparr>rf_backing_category_id := without_refs ids (rf_backing_category_id f)\<rparr>) (funds s),
     subscriptions := map (\<lambda>x. x\<lparr>sub_category_id := without_refs ids (sub_category_id x)\<rparr>) (subscriptions s),
     cat_rules := filter (\<lambda>r. rule_category_id r \<notin> set ids) (cat_rules s),
     irregular_items := map (\<lambda>x. x\<lparr>irr_category_id := without_refs ids (irr_category_id x)\<rparr>) (irregular_items s)\<rparr>"

definition delete_category :: "int \<Rightarrow> int \<Rightarrow> db \<Rightarrow> (bool \<times> db) result" where
  "delete_category now i s =
    (case get_category s i of
       None \<Rightarrow> Inr (False, s)
     | Some c \<Rightarrow>
         raise_if (cat_is_subscriptions_root c)
           (ConflictError ''errors.category.subscriptions_root_protected'')
         (Inr (True, remove_categories now (subtree s i) s)))"

subsection \<open>Ordering and labels\<close>

definition sort_with_children :: "category list \<Rightarrow> category list" where
  "sort_with_children cs =
    concat (map (\<lambda>p. p # sort_key cat_name
        (filter (\<lambda>c. cat_parent_id c = Some (cat_id p) \<and> cat_parent_id c \<noteq> Some 0) cs))
      (sort_key cat_name (filter (\<lambda>c. cat_parent_id c = None) cs)))"

text \<open>The arrow of a label is U+2192, here and below in its UTF-8 bytes.\<close>

definition option_label :: "category \<Rightarrow> category \<Rightarrow> string" where
  "option_label p c = cat_name p @ '' '' @ [CHR 0xE2, CHR 0x86, CHR 0x92] @ '' '' @ cat_name c"

text \<open>The dictionary as the list of its insertions, in order; a later one replaces an earlier.\<close>

definition build_option_labels :: "category list \<Rightarrow> (int \<times> string) list" where
  "build_option_labels cs =
    concat (map (\<lambda>r. (cat_id r, cat_name r) #
        map (\<lambda>c. (cat_id c, option_label r c))
          (sort_key cat_name (filter (\<lambda>c. cat_parent_id c = Some (cat_id r)) cs)))
      (sort_key cat_name (filter (\<lambda>c. case cat_parent_id c of None \<Rightarrow> True
         | Some p \<Rightarrow> p \<notin> cat_id ` set cs) cs)))"

subsection \<open>The Subscriptions tree\<close>

definition subscription_cadence_children :: "string list" where
  "subscription_cadence_children = [''Monthly'', ''Yearly'',
     ''Miesi'' @ [CHR 0xC4, CHR 0x99] @ ''czne'', ''Roczne'']"

definition subscription_purpose_children :: "string list" where
  "subscription_purpose_children = [''Streaming'', ''Music & audio'', ''Software & apps'',
     ''Phone & internet'', ''News & reading'', ''Fitness & health'', ''Cloud & backup'', ''Other'']"

text \<open>\<open>seeders.catalog.SUBSCRIPTION_CHILDREN\<close>\<close>

definition subscription_purpose_children_pl :: "string list" where
  "subscription_purpose_children_pl = [''Streaming wideo'', ''Muzyka i audio'',
     ''Oprogramowanie i aplikacje'', ''Telefon i internet'', ''Prasa i czytanie'', ''Sport i zdrowie'',
     ''Chmura i kopie'', ''Inne'']"

definition get_subscriptions_root :: "db \<Rightarrow> category option" where
  "get_subscriptions_root s = find cat_is_subscriptions_root (categories s)"

definition list_subscription_children :: "db \<Rightarrow> category list" where
  "list_subscription_children s =
    (case get_subscriptions_root s of None \<Rightarrow> [] | Some r \<Rightarrow> by_name cat_name (children_of s (cat_id r)))"

definition subscription_category_ids :: "db \<Rightarrow> int list" where
  "subscription_category_ids s =
    (case get_subscriptions_root s of None \<Rightarrow> [] | Some r \<Rightarrow> cat_id r # map cat_id (children_of s (cat_id r)))"

definition distinct_purpose_bidx :: "(string \<Rightarrow> string) \<Rightarrow> string list" where
  "distinct_purpose_bidx hmac =
    filter (\<lambda>x. x \<noteq> exact_index hmac ''Other'' \<and> x \<noteq> exact_index hmac ''Inne'')
      (map (exact_index hmac) (subscription_purpose_children @ subscription_purpose_children_pl))"

definition category_is_referenced :: "db \<Rightarrow> int \<Rightarrow> bool" where
  "category_is_referenced s i \<longleftrightarrow>
    (\<exists>c \<in> set (categories s). cat_parent_id c = Some i) \<or>
    (\<exists>t \<in> set (transactions s). tx_category_id t = Some i) \<or>
    (\<exists>t \<in> set (transactions s). \<exists>l \<in> set (tx_splits t). sp_category_id l = Some i) \<or>
    (\<exists>b \<in> set (budgets s). bud_category_id b = i) \<or>
    (\<exists>p \<in> set (plans s). pt_category_id p = Some i) \<or>
    (\<exists>x \<in> set (subscriptions s). sub_category_id x = Some i) \<or>
    (\<exists>r \<in> set (cat_rules s). rule_category_id r = i) \<or>
    (\<exists>f \<in> set (funds s). rf_backing_category_id f = Some i) \<or>
    (\<exists>x \<in> set (irregular_items s). irr_category_id x = Some i)"

definition prune_empty_cadence_children :: "(string \<Rightarrow> string) \<Rightarrow> int \<Rightarrow> int \<Rightarrow> db \<Rightarrow> db" where
  "prune_empty_cadence_children hmac now rid s =
    fold (\<lambda>c u. if exact_index hmac (cat_name c) \<in> exact_index hmac ` set subscription_cadence_children \<and>
                  \<not> category_is_referenced u (cat_id c)
                then remove_categories now [cat_id c] u else u) (children_of s rid) s"

definition ensure_root :: "(string \<Rightarrow> string) \<Rightarrow> db \<Rightarrow> (category \<times> db) result" where
  "ensure_root hmac s =
    (case get_subscriptions_root s of
       Some r \<Rightarrow> Inr (r, s)
     | None \<Rightarrow> insert_category hmac \<lparr>cat_id = 0, cat_name = ''Subscriptions'', cat_type = CAT_EXPENSE,
                 cat_parent_id = None, cat_is_subscriptions_root = True\<rparr> s)"

definition add_default_children ::
  "(string \<Rightarrow> string) \<Rightarrow> int \<Rightarrow> string list \<Rightarrow> string list \<Rightarrow> db \<Rightarrow> db result" where
  "add_default_children hmac rid names filed s =
    efold (\<lambda>n u. if exact_index hmac n \<in> set filed then Inr u
      else ebind (insert_category hmac \<lparr>cat_id = 0, cat_name = n, cat_type = CAT_EXPENSE,
                   cat_parent_id = Some rid, cat_is_subscriptions_root = False\<rparr> u) (\<lambda>(c, v). Inr v)) names s"

definition ensure_subscriptions_root_and_children ::
  "(string \<Rightarrow> string) \<Rightarrow> int \<Rightarrow> string list option \<Rightarrow> db \<Rightarrow> (category option \<times> db) result" where
  "ensure_subscriptions_root_and_children hmac now names s =
    ebind (ensure_root hmac s) (\<lambda>(r, s1).
    let defaults = (case names of Some ns \<Rightarrow> ns | None \<Rightarrow> subscription_purpose_children);
        filed = map (\<lambda>c. exact_index hmac (cat_name c)) (list_subscription_children s1)
    in ebind (if set filed \<inter> set (distinct_purpose_bidx hmac) = {}
              then add_default_children hmac (cat_id r) defaults filed s1 else Inr s1) (\<lambda>s2.
       let s3 = prune_empty_cadence_children hmac now (cat_id r) s2
       in Inr (get_category s3 (cat_id r), s3)))"

section \<open>What a delete takes with it\<close>

definition parent_rel :: "category list \<Rightarrow> (int \<times> int) set" where
  "parent_rel cs = {(p, cat_id c) | p c. c \<in> set cs \<and> cat_parent_id c = Some p}"

definition child_closed :: "category list \<Rightarrow> int set \<Rightarrow> bool" where
  "child_closed cs A \<longleftrightarrow> (\<forall>c \<in> set cs. cat_parent_id c \<in> Some ` A \<longrightarrow> cat_id c \<in> A)"

lemma set_with_children:
  "set (with_children cs ids) = set ids \<union> {cat_id c | c. c \<in> set cs \<and> cat_parent_id c \<in> Some ` set ids}"
  by (auto simp: with_children_def)

lemma below_closed_id: "child_closed cs (set ids) \<Longrightarrow> below cs n ids = ids"
proof (induction n)
  case (Suc n)
  then have "with_children cs ids = ids" by (auto simp: with_children_def child_closed_def)
  with Suc show ?case by simp
qed simp

lemma below_grows:
  "child_closed cs (set (below cs n ids)) \<or>
   card (set ids \<inter> cat_id ` set cs) + n \<le> card (set (below cs n ids) \<inter> cat_id ` set cs)"
proof (induction n arbitrary: ids)
  case (Suc n)
  show ?case
  proof (cases "child_closed cs (set ids)")
    case True
    then show ?thesis using below_closed_id [OF True, of "Suc n"] by simp
  next
    case False
    then obtain c where c: "c \<in> set cs" "cat_parent_id c \<in> Some ` set ids" "cat_id c \<notin> set ids"
      by (auto simp: child_closed_def)
    let ?U = "cat_id ` set cs"
    have "set ids \<inter> ?U \<subset> set (with_children cs ids) \<inter> ?U"
      using c by (auto simp: set_with_children)
    then have "card (set ids \<inter> ?U) < card (set (with_children cs ids) \<inter> ?U)"
      by (intro psubset_card_mono) auto
    with Suc [of "with_children cs ids"] show ?thesis by simp linarith
  qed
qed simp

lemma below_sound: "j \<in> set (below cs n ids) \<Longrightarrow> \<exists>i \<in> set ids. (i, j) \<in> (parent_rel cs)\<^sup>*"
proof (induction n arbitrary: ids)
  case (Suc n)
  from Suc.IH [of "with_children cs ids"] Suc.prems obtain k where
    k: "k \<in> set (with_children cs ids)" "(k, j) \<in> (parent_rel cs)\<^sup>*" by auto
  from k(1) consider "k \<in> set ids" | i where "i \<in> set ids" "(i, k) \<in> parent_rel cs"
    by (auto simp: set_with_children parent_rel_def)
  then show ?case using k(2) by cases (auto intro: converse_rtrancl_into_rtrancl)
qed auto

lemma below_start: "set ids \<subseteq> set (below cs n ids)"
proof (induction n arbitrary: ids)
  case (Suc n)
  then show ?case using Suc [of "with_children cs ids"] by (auto simp: set_with_children)
qed simp

text \<open>The rounds are enough: \<open>subtree\<close> is the reflexive-transitive closure of the parent relation.\<close>

lemma subtree_closed:
  assumes "i \<in> cat_id ` set (categories s)"
  shows "child_closed (categories s) (set (subtree s i))"
proof (rule ccontr)
  let ?cs = "categories s" and ?U = "cat_id ` set (categories s)"
  assume "\<not> child_closed ?cs (set (subtree s i))"
  with below_grows [of ?cs "length ?cs" "[i]"] have
    "card ({i} \<inter> ?U) + length ?cs \<le> card (set (subtree s i) \<inter> ?U)" by (simp add: subtree_def)
  moreover have "card (set (subtree s i) \<inter> ?U) \<le> card ?U" by (intro card_mono) auto
  moreover have "card ?U \<le> length ?cs" by (metis card_image_le card_length finite_set le_trans)
  ultimately show False using assms by simp
qed

lemma subtree_iff:
  assumes "i \<in> cat_id ` set (categories s)"
  shows "j \<in> set (subtree s i) \<longleftrightarrow> (i, j) \<in> (parent_rel (categories s))\<^sup>*"
proof
  assume "j \<in> set (subtree s i)"
  then show "(i, j) \<in> (parent_rel (categories s))\<^sup>*" using below_sound by (fastforce simp: subtree_def)
next
  assume "(i, j) \<in> (parent_rel (categories s))\<^sup>*"
  then show "j \<in> set (subtree s i)"
  proof (induction rule: rtrancl_induct)
    case base
    show ?case using below_start [of "[i]"] by (auto simp: subtree_def)
  next
    case (step a b)
    then show ?case using subtree_closed [OF assms] by (auto simp: child_closed_def parent_rel_def)
  qed
qed

lemma without_refs_Some [simp]: "without_refs ids v = Some j \<longleftrightarrow> v = Some j \<and> j \<notin> set ids"
  by (auto simp: without_refs_def split: option.splits)

lemma uncategorise_fields [simp]:
  "tx_category_id (uncategorise now ids t) = without_refs ids (tx_category_id t)"
  "tx_id (uncategorise now ids t) = tx_id t"
  "tx_account_id (uncategorise now ids t) = tx_account_id t"
  "tx_amount (uncategorise now ids t) = tx_amount t"
  "tx_type (uncategorise now ids t) = tx_type t"
  "tx_date (uncategorise now ids t) = tx_date t"
  "tx_direction (uncategorise now ids t) = tx_direction t"
  "tx_planned_id (uncategorise now ids t) = tx_planned_id t"
  "tx_splits (uncategorise now ids t) =
    map (\<lambda>l. l\<lparr>sp_category_id := without_refs ids (sp_category_id l)\<rparr>) (tx_splits t)"
  by (simp_all add: uncategorise_def)

lemma find_row_filter_key: "find_row key j (filter (\<lambda>r. P (key r)) rows) = (if P j then find_row key j rows else None)"
  by (induction rows) auto

lemma balance_map_tx:
  assumes "\<And>t. tx_account_id (f t) = tx_account_id t" "\<And>t. signed_ledger_amount (f t) = signed_ledger_amount t"
    "\<And>t. tx_date (f t) = tx_date t" and "transactions s' = map f (transactions s)" "accounts s' = accounts s"
  shows "balance s' a d = balance s a d"
proof -
  have "map signed_ledger_amount (ledger_rows s' d b) = map signed_ledger_amount (ledger_rows s d b)" for b
    using assms(1-3) by (simp add: ledger_rows_def assms(4) filter_map comp_def)
  moreover have "(ledger_rows s' d b = []) = (ledger_rows s d b = [])" for b
    using assms(1-3) by (simp add: ledger_rows_def assms(4) filter_map comp_def)
  ultimately show ?thesis
    by (simp add: balance_def balances_def get_account_def assms(5) ledger_sums_def split: option.split)
qed

lemma ledger_ok_map:
  assumes "ledger_ok s" and "\<And>t. tx_id (f t) = tx_id t" "\<And>t. tx_check (f t) = tx_check t"
    "\<And>t u. same_occurrence (f t) (f u) = same_occurrence t u"
    and "transactions s' = map f (transactions s)" and "seq_tx s' = seq_tx s"
  shows "ledger_ok s'"
  using assms by (auto simp: ledger_ok_def ids_ok_def comp_def)


definition ex_cat :: "int \<Rightarrow> string \<Rightarrow> category_type \<Rightarrow> int option \<Rightarrow> category" where
  "ex_cat i name ty parent = \<lparr>cat_id = i, cat_name = name, cat_type = ty, cat_parent_id = parent,
     cat_is_subscriptions_root = False\<rparr>"

definition ex_tree_db :: db where
  "ex_tree_db = ex_db\<lparr>categories := [ex_cat 1 ''Car'' CAT_EXPENSE None, ex_cat 2 ''Fuel'' CAT_EXPENSE (Some 1),
     ex_cat 3 ''Food'' CAT_EXPENSE None], seq_category := 4\<rparr>"


section \<open>The tree stays well formed\<close>

definition tree_ok :: "(string \<Rightarrow> string) \<Rightarrow> db \<Rightarrow> bool" where
  "tree_ok hmac s \<longleftrightarrow> ids_ok cat_id (seq_category s) (categories s) \<and>
    (\<forall>c \<in> set (categories s). fk_ok cat_id (categories s) (cat_parent_id c)) \<and>
    (\<forall>c \<in> set (categories s). \<forall>d \<in> set (categories s).
       same_place hmac (cat_name c) (cat_parent_id c) (cat_type c) d \<longrightarrow> c = d)"

inductive category_step :: "(string \<Rightarrow> string) \<Rightarrow> db \<Rightarrow> db \<Rightarrow> bool" for hmac where
  create: "create_category hmac p s = Inr (c, s') \<Longrightarrow> category_step hmac s s'"
| update: "update_category hmac i u s = Inr (r, s') \<Longrightarrow> category_step hmac s s'"
| delete: "delete_category now i s = Inr (b, s') \<Longrightarrow> category_step hmac s s'"

inductive category_reachable :: "(string \<Rightarrow> string) \<Rightarrow> db \<Rightarrow> bool" for hmac where
  start: "categories s = [] \<Longrightarrow> category_reachable hmac s"
| step: "category_reachable hmac s \<Longrightarrow> category_step hmac s s' \<Longrightarrow> category_reachable hmac s'"

lemma assert_unique_name_Inr:
  "assert_unique_name hmac s name parent ty ex = Inr u \<longleftrightarrow>
    (\<forall>c \<in> set (categories s). same_place hmac name parent ty c \<longrightarrow> ex = Some (cat_id c))"
proof -
  have "assert_unique_name hmac s name parent ty ex = Inr u \<longleftrightarrow>
    filter (\<lambda>c. same_place hmac name parent ty c \<and> ex \<noteq> Some (cat_id c)) (categories s) = []"
    by (auto simp: assert_unique_name_def split: list.splits)
  then show ?thesis by (auto simp: filter_empty_conv)
qed

lemma same_place_sym:
  "same_place hmac (cat_name c) (cat_parent_id c) (cat_type c) d =
   same_place hmac (cat_name d) (cat_parent_id d) (cat_type d) c"
  by (auto simp: same_place_def)

lemma create_category_Inr:
  assumes "create_category hmac p s = Inr (c, s')" and "ids_ok cat_id (seq_category s) (categories s)"
  shows "c = \<lparr>cat_id = seq_category s, cat_name = ctc_name p, cat_type = ctc_type p,
      cat_parent_id = ctc_parent_id p, cat_is_subscriptions_root = False\<rparr>"
    and "s' = s\<lparr>categories := categories s @ [c], seq_category := seq_category s + 1\<rparr>"
    and "fk_ok cat_id (categories s) (ctc_parent_id p)"
    and "\<forall>d \<in> set (categories s). \<not> same_place hmac (ctc_name p) (ctc_parent_id p) (ctc_type p) d"
    and "assert_type_matches_parent s (ctc_parent_id p) (ctc_type p) = Inr ()"
proof -
  let ?c = "\<lparr>cat_id = seq_category s, cat_name = ctc_name p, cat_type = ctc_type p,
      cat_parent_id = ctc_parent_id p, cat_is_subscriptions_root = False\<rparr>"
  from assms(1) have ty: "assert_type_matches_parent s (ctc_parent_id p) (ctc_type p) = Inr ()"
    and un: "assert_unique_name hmac s (ctc_name p) (ctc_parent_id p) (ctc_type p) None = Inr ()"
    and al: "category_allowed hmac s ?c"
    and s': "s' = s\<lparr>categories := categories s @ [?c], seq_category := seq_category s + 1\<rparr>"
    and g: "get_category s' (seq_category s) = Some c"
    by (auto simp: create_category_def ebind_Inr_iff insert_category_def Let_def split: if_splits option.splits)
  show "assert_type_matches_parent s (ctc_parent_id p) (ctc_type p) = Inr ()" by (rule ty)
  show c: "c = ?c"
    using g ids_ok_fresh [OF assms(2)] by (simp add: get_category_def s' find_row_append)
  show "s' = s\<lparr>categories := categories s @ [c], seq_category := seq_category s + 1\<rparr>" using s' c by simp
  show "fk_ok cat_id (categories s) (ctc_parent_id p)" using al by (simp add: category_allowed_def)
  show "\<forall>d \<in> set (categories s). \<not> same_place hmac (ctc_name p) (ctc_parent_id p) (ctc_type p) d"
    using un by (auto simp: assert_unique_name_Inr)
qed

lemma fk_ok_append: "fk_ok key rows ref \<Longrightarrow> fk_ok key (rows @ rest) ref"
  by (auto simp: fk_ok_def find_row_append split: option.splits)

lemma tree_ok_create:
  assumes "tree_ok hmac s" and "create_category hmac p s = Inr (c, s')"
  shows "tree_ok hmac s'"
proof -
  have ids: "ids_ok cat_id (seq_category s) (categories s)" using assms(1) by (simp add: tree_ok_def)
  note cr = create_category_Inr [OF assms(2) ids]
  have "ids_ok cat_id (seq_category s + 1) (categories s @ [c])"
    by (rule ids_ok_insert [OF ids]) (simp add: cr(1))
  moreover have "\<forall>d \<in> set (categories s). \<not> same_place hmac (cat_name c) (cat_parent_id c) (cat_type c) d"
    using cr(1,4) by simp
  ultimately show ?thesis
    using assms(1) cr(3) by (auto simp: tree_ok_def cr(2) fk_ok_append same_place_sym) (simp add: cr(1) fk_ok_append)
qed

lemma tree_ok_update:
  assumes "tree_ok hmac s" and "update_category hmac i u s = Inr (r, s')"
  shows "tree_ok hmac s'"
proof (cases "get_category s i")
  case None
  then show ?thesis using assms by (simp add: update_category_def)
next
  case (Some c)
  define c' where "c' = apply_category_update u c"
  have "cat_id c = i" using Some by (auto simp: get_category_def dest: find_row_Some_D)
  then have i: "cat_id c' = i" by (simp add: c'_def apply_category_update_def patch_def split: option.split)
  from assms(2) Some have al: "category_allowed hmac s c'"
    and un: "\<forall>d \<in> set (categories s). same_place hmac (cat_name c') (cat_parent_id c') (cat_type c') d \<longrightarrow> i = cat_id d"
    and s': "s' = s\<lparr>categories := upd_row cat_id i (\<lambda>_. c') (categories s)\<rparr>"
    by (auto simp: update_category_def Let_def ebind_Inr_iff assert_unique_name_Inr c'_def [symmetric]
        split: if_splits)
  let ?rows = "upd_row cat_id i (\<lambda>_. c') (categories s)"
  have ids: "ids_ok cat_id (seq_category s) ?rows"
    unfolding i [symmetric] ids_ok_cong [OF upd_row_const_key] using assms(1) by (simp add: tree_ok_def)
  have fk: "fk_ok cat_id (categories s) ref \<Longrightarrow> fk_ok cat_id ?rows ref" for ref
    using find_row_upd_const_key [where key = cat_id and p = c' and rows = "categories s"]
    by (auto simp: fk_ok_def i split: option.splits)
  have cases: "(d \<in> set (categories s) \<and> cat_id d \<noteq> i) \<or> d = c'" if "d \<in> set ?rows" for d
    using set_upd_row_D [OF that] by auto
  have "fk_ok cat_id ?rows (cat_parent_id d)" if "d \<in> set ?rows" for d
    using cases [OF that] assms(1) al by (auto simp: tree_ok_def category_allowed_def intro: fk)
  moreover have "a = b" if "a \<in> set ?rows" "b \<in> set ?rows"
    "same_place hmac (cat_name a) (cat_parent_id a) (cat_type a) b" for a b
    using cases [OF that(1)] cases [OF that(2)] that(3) assms(1) un same_place_sym [of hmac a b]
    by (auto simp: tree_ok_def)
  ultimately show ?thesis using ids by (simp add: tree_ok_def s')
qed

lemma tree_ok_delete:
  assumes "tree_ok hmac s" and "delete_category now i s = Inr (b, s')"
  shows "tree_ok hmac s'"
proof (cases "get_category s i")
  case None
  then show ?thesis using assms by (simp add: delete_category_def)
next
  case (Some c)
  then have i: "i \<in> cat_id ` set (categories s)" by (auto simp: get_category_def dest: find_row_Some_D)
  from assms(2) Some have s': "s' = remove_categories now (subtree s i) s"
    by (simp add: delete_category_def raise_if_Inr_iff)
  have closed: "child_closed (categories s) (set (subtree s i))" by (rule subtree_closed [OF i])
  have "fk_ok cat_id (filter (\<lambda>c. cat_id c \<notin> set (subtree s i)) (categories s)) (cat_parent_id d)"
    if "d \<in> set (categories s)" "cat_id d \<notin> set (subtree s i)" for d
    using that assms(1) closed
    by (auto simp: tree_ok_def fk_ok_def child_closed_def
        find_row_filter_key [where P = "\<lambda>k. k \<notin> set (subtree s i)"] split: option.splits)
  with assms(1) show ?thesis
    by (auto simp: tree_ok_def s' remove_categories_def ids_ok_def distinct_map_filter)
qed

text \<open>
  C19. The category tree stays well formed under every create, update and delete: ids are distinct,
  every parent exists, and no two categories of one type and parent (the top level included, which the
  unique constraint does not cover) have the same name.
\<close>

theorem category_tree_well_formed:
  assumes "category_reachable hmac s"
  shows "(\<forall>c \<in> set (categories s). \<forall>p. cat_parent_id c = Some p \<longrightarrow> get_category s p \<noteq> None) \<and>
    (\<forall>c \<in> set (categories s). \<forall>d \<in> set (categories s). cat_name c = cat_name d \<and> cat_type c = cat_type d \<and>
       cat_parent_id c = cat_parent_id d \<longrightarrow> c = d) \<and> distinct (map cat_id (categories s))"
proof -
  from assms have "tree_ok hmac s"
  proof (induction rule: category_reachable.induct)
    case (start s)
    then show ?case by (simp add: tree_ok_def ids_ok_def)
  next
    case (step s s')
    from step(2) step(3) show ?case
      by (cases rule: category_step.cases) (auto intro: tree_ok_create tree_ok_update tree_ok_delete)
  qed
  then show ?thesis by (auto simp: tree_ok_def ids_ok_def fk_ok_def get_category_def same_place_def)
qed

definition ex_new_category :: "string \<Rightarrow> int option \<Rightarrow> category_create" where
  "ex_new_category name parent = \<lparr>ctc_name = name, ctc_type = CAT_EXPENSE, ctc_parent_id = parent\<rparr>"

theorem category_tree_well_formed_witness:
  "\<exists>s. category_reachable (\<lambda>x. x) s \<and> length (categories s) = 2 \<and> distinct (map cat_id (categories s))"
proof -
  define s1 where "s1 = snd (projr (create_category (\<lambda>x. x) (ex_new_category ''Car'' None) empty_db))"
  define s2 where "s2 = snd (projr (create_category (\<lambda>x. x) (ex_new_category ''Fuel'' (Some 1)) s1))"
  have "succeeds (create_category (\<lambda>x. x) (ex_new_category ''Car'' None) empty_db)" by code_simp
  then obtain c1 where c1: "create_category (\<lambda>x. x) (ex_new_category ''Car'' None) empty_db = Inr (c1, s1)"
    by (auto elim!: succeedsE simp: s1_def)
  have "succeeds (create_category (\<lambda>x. x) (ex_new_category ''Fuel'' (Some 1)) s1)"
    unfolding s1_def by code_simp
  then obtain c2 where c2: "create_category (\<lambda>x. x) (ex_new_category ''Fuel'' (Some 1)) s1 = Inr (c2, s2)"
    by (auto elim!: succeedsE simp: s2_def)
  have "category_reachable (\<lambda>x. x) empty_db" by (rule category_reachable.start) (simp add: empty_db_def)
  with c1 c2 have r: "category_reachable (\<lambda>x. x) s2"
    by (blast intro: category_reachable.step category_step.create)
  moreover have "length (categories s2) = 2" unfolding s2_def s1_def by code_simp
  ultimately show ?thesis using category_tree_well_formed [OF r] by blast
qed

text \<open>
  Two gaps. Editing the type of a parent does not look at its children, so a subtree of mixed types can
  arise although creation rejects it; and a category can be made its own parent.
\<close>

definition ex_retype_root :: category_update where
  "ex_retype_root = \<lparr>ctu_name = None, ctu_type = Some CAT_INCOME, ctu_parent_id = None\<rparr>"

lemma update_can_mix_types:
  "\<exists>s'. (\<exists>c. update_category (\<lambda>x. x) 1 ex_retype_root ex_tree_db = Inr (Some c, s')) \<and>
    map cat_type (categories s') = [CAT_INCOME, CAT_EXPENSE, CAT_EXPENSE] \<and>
    map cat_parent_id (categories s') = [None, Some 1, None]"
  by (simp add: update_category_def get_category_def ex_tree_db_def ex_cat_def apply_category_update_def
      ex_retype_root_def assert_type_matches_parent_def assert_unique_name_def same_place_def
      category_allowed_def fk_ok_def exact_index_def Let_def)

lemma category_can_be_its_own_parent:
  "\<exists>s'. (\<exists>c. update_category (\<lambda>x. x) 3 \<lparr>ctu_name = None, ctu_type = None, ctu_parent_id = Some (Some 3)\<rparr>
      ex_tree_db = Inr (Some c, s') \<and> cat_parent_id c = Some 3)"
  by (simp add: update_category_def get_category_def ex_tree_db_def ex_cat_def apply_category_update_def
      assert_type_matches_parent_def assert_unique_name_def same_place_def category_allowed_def fk_ok_def
      exact_index_def Let_def)

text \<open>
  \<open>ensure_subscriptions_root_and_children\<close> adds the flagged root without asking for the name, so a
  household that already has a top-level category of that name ends up with two.
\<close>

lemma ensure_root_can_duplicate_the_name:
  "\<exists>c s'. ensure_root (\<lambda>x. x) (empty_db\<lparr>categories := [ex_cat 1 ''Subscriptions'' CAT_EXPENSE None],
      seq_category := 2\<rparr>) = Inr (c, s') \<and>
    map cat_name (categories s') = [''Subscriptions'', ''Subscriptions'']"
  by (simp add: ensure_root_def get_subscriptions_root_def insert_category_def category_allowed_def fk_ok_def
      ex_cat_def Let_def)

end
