(* ===== verification/Floats.thy ===== *)
theory Floats
  imports Decimals
begin

text \<open>
  Python's \<open>float\<close> where the code computes percentages: an IEEE 754 double is its rational value or
  positive infinity. \<open>to_float\<close> rounds a value to the 53 significant bits of the format, half to even;
  the values of the code are far from the overflow and underflow thresholds, which are not modelled.
\<close>

section \<open>Definitions\<close>

datatype xfloat = Fin rat | Inf

definition pow2 :: "int \<Rightarrow> rat" where
  "pow2 e = (if 0 \<le> e then 2 ^ nat e else 1 / 2 ^ nat (- e))"

fun nbits :: "nat \<Rightarrow> nat" where
  "nbits n = (if n < 2 then 1 else Suc (nbits (n div 2)))"

definition bin_exp :: "rat \<Rightarrow> int" where
  "bin_exp x = (if 1 \<le> x then int (nbits (nat \<lfloor>x\<rfloor>)) - 1 else - int (nbits (nat \<lfloor>1 / x\<rfloor>)))"

definition to_float :: "rat \<Rightarrow> rat" where
  "to_float x =
    (if x = 0 then 0
     else let e = 52 - bin_exp \<bar>x\<bar> in of_int (round_to_int ROUND_HALF_EVEN (x * pow2 e)) / pow2 e)"

fun xless :: "xfloat \<Rightarrow> xfloat \<Rightarrow> bool" where
  "xless (Fin a) (Fin b) = (a < b)"
| "xless (Fin a) Inf = True"
| "xless Inf b = False"

section \<open>Rounding error\<close>

declare nbits.simps [simp del]

lemma pow2_pos [simp]: "0 < pow2 e"
  by (simp add: pow2_def)

lemma pow2_nonzero [simp]: "pow2 e \<noteq> 0"
  using pow2_pos [of e] by linarith

lemma pow2_powi: "pow2 e = 2 powi e"
  by (simp add: pow2_def power_int_def field_simps)

lemma pow2_add: "pow2 (a + b) = pow2 a * pow2 b"
  by (simp add: pow2_powi power_int_add)

lemma pow2_mono: "a \<le> b \<Longrightarrow> pow2 a \<le> pow2 b"
  by (simp add: pow2_powi power_int_increasing)

lemma nbits_bounds: "1 \<le> n \<Longrightarrow> 2 ^ (nbits n - 1) \<le> n \<and> n < 2 ^ nbits n"
proof (induction n rule: nbits.induct)
  case (1 n)
  show ?case
  proof (cases "n < 2")
    case True
    with 1 show ?thesis by (simp add: nbits.simps [of n])
  next
    case False
    then have eq: "nbits n = Suc (nbits (n div 2))" and "1 \<le> n div 2" by (simp_all add: nbits.simps [of n])
    with 1 False have IH: "2 ^ (nbits (n div 2) - 1) \<le> n div 2" "n div 2 < 2 ^ nbits (n div 2)" by simp_all
    have "(2::nat) ^ nbits (n div 2) = 2 * 2 ^ (nbits (n div 2) - 1)"
      by (simp add: nbits.simps [of "n div 2"])
    with IH show ?thesis unfolding eq by simp linarith
  qed
qed

lemma nbits_rat_bounds:
  fixes x :: rat
  assumes "1 \<le> x"
  shows "pow2 (int (nbits (nat \<lfloor>x\<rfloor>)) - 1) \<le> x" and "x < pow2 (int (nbits (nat \<lfloor>x\<rfloor>)))"
proof -
  let ?n = "nat \<lfloor>x\<rfloor>"
  note f = of_nat_floor_bounds [OF assms]
  note b = nbits_bounds [OF f(1)]
  have "1 \<le> nbits ?n" by (simp add: nbits.simps [of ?n])
  then have e: "pow2 (int (nbits ?n) - 1) = of_nat (2 ^ (nbits ?n - 1))" "pow2 (int (nbits ?n)) = of_nat (2 ^ nbits ?n)"
    by (simp_all add: pow2_def nat_diff_distrib)
  have "(of_nat (2 ^ (nbits ?n - 1)) :: rat) \<le> of_nat ?n" using b by (simp only: of_nat_le_iff)
  with f(2) show "pow2 (int (nbits ?n) - 1) \<le> x" unfolding e(1) by (rule order_trans [rotated])
  have "?n + 1 \<le> 2 ^ nbits ?n" using b by linarith
  then have "(of_nat (?n + 1) :: rat) \<le> of_nat (2 ^ nbits ?n)" by (simp only: of_nat_le_iff)
  with f(3) show "x < pow2 (int (nbits ?n))" unfolding e(2) by simp
qed

lemma bin_exp_lower: "0 < x \<Longrightarrow> pow2 (bin_exp x) \<le> x"
proof (cases "1 \<le> x")
  case True
  then show ?thesis using nbits_rat_bounds(1) [of x] by (simp add: bin_exp_def)
next
  case False
  assume "0 < x"
  with False have "1 \<le> 1 / x" by simp
  from nbits_rat_bounds(2) [OF this] \<open>0 < x\<close> False show ?thesis
    by (simp add: bin_exp_def pow2_powi power_int_minus field_simps)
qed

text \<open>The relative error of a rounding is at most \<open>2 ^ (- 53)\<close>.\<close>

lemma to_float_error:
  assumes "0 \<le> x"
  shows "\<bar>to_float x - x\<bar> \<le> x / 2 ^ 53"
proof (cases "x = 0")
  case True
  then show ?thesis by (simp add: to_float_def)
next
  case False
  define e where "e = 52 - bin_exp x"
  define r where "r = (of_int (round_to_int ROUND_HALF_EVEN (x * pow2 e)) :: rat)"
  have f: "to_float x = r / pow2 e" using assms False by (simp add: to_float_def Let_def e_def r_def)
  have "\<bar>r - x * pow2 e\<bar> \<le> 1 / 2" unfolding r_def by (rule round_half_even_error)
  moreover have "r / pow2 e - x = (r - x * pow2 e) / pow2 e" by (simp add: field_simps)
  moreover have "\<bar>(r - x * pow2 e) / pow2 e\<bar> = \<bar>r - x * pow2 e\<bar> / pow2 e"
    by (simp add: abs_divide abs_of_pos)
  ultimately have "\<bar>to_float x - x\<bar> \<le> 1 / 2 / pow2 e"
    unfolding f by (metis divide_right_mono less_imp_le pow2_pos)
  also have "1 / 2 / pow2 e = pow2 (bin_exp x) / 2 ^ 53"
    using pow2_add [of "bin_exp x" e] by (simp add: e_def pow2_def [of 52] field_simps)
  also have "\<dots> \<le> x / 2 ^ 53" using bin_exp_lower [of x] assms False by (simp add: divide_right_mono)
  finally show ?thesis .
qed

text \<open>An integer of at most 53 bits is kept.\<close>

lemma to_float_int:
  assumes "1 \<le> n" and "n < 2 ^ 53"
  shows "to_float (of_int n) = of_int n"
proof -
  define e where "e = 52 - bin_exp (of_int n)"
  have "pow2 (bin_exp (of_int n)) \<le> of_int n" by (rule bin_exp_lower) (use assms in simp)
  also have "\<dots> < pow2 53" using assms(2) by (simp add: pow2_def flip: of_int_power)
  finally have "bin_exp (of_int n) < 53" using pow2_mono [of 53 "bin_exp (of_int n)"] by linarith
  then have e: "0 \<le> e" by (simp add: e_def)
  then have "of_int n * pow2 e = of_int (n * 2 ^ nat e)" by (simp add: pow2_def)
  then show ?thesis
    using assms(1) by (simp add: to_float_def Let_def e_def [symmetric] del: round_to_int.simps)
      (simp add: pow2_def e)
qed

section \<open>Percentages\<close>

text \<open>\<open>float(a / b * 100)\<close> for decimals: two context roundings and one to a double.\<close>

lemma percent_error:
  assumes "0 \<le> x"
  shows "\<bar>to_float (ctx (ctx x * 100)) - 100 * x\<bar> \<le> 100 * x * (2 / 10 ^ 16)"
proof -
  define y z w where "y = ctx x" and "z = ctx (y * 100)" and "w = to_float z"
  have y: "x * (1 - 1 / 10 ^ 27) \<le> y" "y \<le> x * (1 + 1 / 10 ^ 27)" "0 \<le> y"
    using ctx_bounds [OF assms] ctx_nonneg [OF assms] by (simp_all add: y_def algebra_simps)
  have "0 \<le> y * 100" using y by simp
  note cz = ctx_bounds [OF this] ctx_nonneg [OF this]
  have z: "y * 100 * (1 - 1 / 10 ^ 27) \<le> z" "z \<le> y * 100 * (1 + 1 / 10 ^ 27)" "0 \<le> z"
    using cz by (simp_all add: z_def algebra_simps)
  have w: "z * (1 - 1 / 2 ^ 53) \<le> w" "w \<le> z * (1 + 1 / 2 ^ 53)"
    using to_float_error [OF z(3)] unfolding w_def [symmetric] abs_le_iff by (simp_all add: algebra_simps)
  have "z \<le> x * (1 + 1 / 10 ^ 27) * 100 * (1 + 1 / 10 ^ 27)"
    using y(2) by (intro order_trans [OF z(2)] mult_right_mono) auto
  then have up: "w \<le> x * (1 + 1 / 10 ^ 27) * 100 * (1 + 1 / 10 ^ 27) * (1 + 1 / 2 ^ 53)"
    by (intro order_trans [OF w(2)] mult_right_mono) auto
  have "x * (1 - 1 / 10 ^ 27) * 100 * (1 - 1 / 10 ^ 27) \<le> z"
    using y(1) by (intro order_trans [OF _ z(1)] mult_right_mono) auto
  then have lo: "x * (1 - 1 / 10 ^ 27) * 100 * (1 - 1 / 10 ^ 27) * (1 - 1 / 2 ^ 53) \<le> w"
    by (intro order_trans [OF _ w(1)] mult_right_mono) auto
  have "w \<le> x * (100 * (1 + 2 / 10 ^ 16))"
    by (rule order_trans [OF up]) (simp only: mult.assoc, rule mult_left_mono [OF _ assms], simp)
  moreover have "x * (100 * (1 - 2 / 10 ^ 16)) \<le> w"
    by (rule order_trans [OF _ lo]) (simp only: mult.assoc, rule mult_left_mono [OF _ assms], simp)
  ultimately show ?thesis
    unfolding y_def [symmetric] z_def [symmetric] w_def [symmetric] abs_le_iff by (simp add: algebra_simps)
qed

lemma percent_one: "to_float (ctx (ctx 1 * 100)) = 100"
proof -
  have "ctx 1 = 1" "ctx 100 = (100 :: rat)" by (rule ctx_cents; simp add: cents_def)+
  then show ?thesis using to_float_int [of 100] by simp
qed

end
