(* ===== verification/Budgets.thy ===== *)
theory Budgets
  imports PersonalLoans Planned Categories Floats
begin

text \<open>
  \<open>BudgetService\<close> (\<open>src/src/kaleta/services/budget_service.py\<close>) with \<open>categorised_flows.py\<close>: the
  planned amount per category and month, its upserts, the comparison with what was spent, the pace of
  the running month with its explanation from the schedule, and the annual grid. The database is
  PostgreSQL, so sums of columns are exact; a dictionary keyed by category and month is a partial map.
\<close>

section \<open>Definitions\<close>

type_synonym month_map = "int \<times> int \<Rightarrow> decimal option"

definition realization_warning_threshold_pct :: rat where
  "realization_warning_threshold_pct = 5"

definition months :: "int list" where
  "months = [1..12]"

text \<open>Python's truth of an optional amount.\<close>

definition truthy :: "decimal option \<Rightarrow> bool" where
  "truthy v = (case v of None \<Rightarrow> False | Some x \<Rightarrow> x \<noteq> 0)"

subsection \<open>Date ranges\<close>

definition month_range :: "int \<Rightarrow> int \<Rightarrow> int \<Rightarrow> (date \<times> date) result" where
  "month_range y m n =
    ebind (mk_date y m 1) (\<lambda>a. ebind (mk_date y n (days_in_month y n)) (\<lambda>b. Inr (a, b)))"

definition back_days :: "date \<Rightarrow> int \<Rightarrow> (date \<times> date) result" where
  "back_days ref n = ebind (add_days ref (- n)) (\<lambda>a. Inr (a, ref))"

definition date_range_for_key :: "string \<Rightarrow> date \<Rightarrow> (date \<times> date) result" where
  "date_range_for_key key ref =
    (let y = d_year ref; m = d_month ref; q = ((m - 1) div 3) * 3 + 1
     in if key = ''this_month'' then month_range y m m
        else if key = ''last_month'' then
          ebind (mk_date y m 1) (\<lambda>first. ebind (add_days first (- 1)) (\<lambda>e.
            month_range (d_year e) (d_month e) (d_month e)))
        else if key = ''this_quarter'' then month_range y q (q + 2)
        else if key = ''last_quarter'' then
          (if q = 1 then month_range (y - 1) 10 12 else month_range y (q - 3) (q - 1))
        else if key = ''this_year'' then month_range y 1 12
        else if key = ''last_year'' then month_range (y - 1) 1 12
        else if key = ''last_30_days'' then back_days ref 30
        else if key = ''last_60_days'' then back_days ref 60
        else if key = ''last_90_days'' then back_days ref 90
        else if key = ''last_5_years'' then ebind (mk_date (y - 5) m (d_day ref)) (\<lambda>a. Inr (a, ref))
        else month_range y m m)"

subsection \<open>Maps of a year\<close>

text \<open>A dict comprehension: a later row replaces an earlier one with the same key.\<close>

definition budgets_to_map :: "budget list \<Rightarrow> month_map" where
  "budgets_to_map bs = map_of (rev (map (\<lambda>b. ((bud_category_id b, bud_month b), bud_amount b)) bs))"

definition uniform_monthly_amount :: "month_map \<Rightarrow> int \<Rightarrow> decimal option" where
  "uniform_monthly_amount bm c =
    (let amounts = map (\<lambda>m. bm (c, m)) months
     in if (\<forall>a \<in> set amounts. a \<noteq> None) \<and> length (remdups amounts) = 1 then hd amounts else None)"

definition category_yearly_total :: "month_map \<Rightarrow> int \<Rightarrow> decimal" where
  "category_yearly_total bm c = sum_list (map (\<lambda>m. get_or_0 (bm (c, m))) months)"

definition per_month_from_yearly_total :: "decimal \<Rightarrow> decimal" where
  "per_month_from_yearly_total amount = quantize ROUND_HALF_EVEN 2 (dec_div amount 12)"

definition add_month_row :: "month_map \<Rightarrow> int \<Rightarrow> decimal list \<Rightarrow> decimal list" where
  "add_month_row bm c tots =
    map (\<lambda>(m, t). if truthy (bm (c, m)) then t + the (bm (c, m)) else t) (zip months tots)"

definition month_planned_totals :: "month_map \<Rightarrow> int list \<Rightarrow> decimal list" where
  "month_planned_totals bm cs = fold (add_month_row bm) cs (replicate 12 0)"

subsection \<open>The annual grid\<close>

record plan_month_cell =
  pmc_month :: int
  pmc_planned :: "decimal option"
  pmc_actual :: "decimal option"
  pmc_is_override :: bool
  pmc_is_over_budget :: bool

record plan_reference_row =
  prr_year :: int
  prr_actuals :: "decimal option list"
  prr_total :: decimal

record plan_category_row =
  pcr_category_id :: int
  pcr_name :: string
  pcr_parent_id :: "int option"
  pcr_is_child :: bool
  pcr_uniform_monthly :: "decimal option"
  pcr_has_any_plan :: bool
  pcr_has_any_actual :: bool
  pcr_months :: "plan_month_cell list"
  pcr_total_planned :: decimal
  pcr_total_actual :: decimal
  pcr_prev_december_actual :: "decimal option"
  pcr_references :: "plan_reference_row list"

definition show_actual_row :: "plan_category_row \<Rightarrow> bool" where
  "show_actual_row r \<longleftrightarrow> pcr_has_any_actual r \<or> pcr_has_any_plan r \<or> pcr_uniform_monthly r \<noteq> None \<or>
    truthy (pcr_prev_december_actual r)"

record year_plan_slice =
  yps_year :: int
  yps_budget_map :: month_map
  yps_rows :: "plan_category_row list"
  yps_month_planned_totals :: "decimal list"
  yps_month_actual_totals :: "decimal list"
  yps_grand_planned :: decimal
  yps_grand_actual :: decimal
  yps_prev_december_actual_total :: decimal

record annual_plan_grid =
  apg_edit_year :: int
  apg_reference_years :: "int list"
  apg_year_slice :: year_plan_slice

definition build_reference_row :: "int \<Rightarrow> int \<Rightarrow> month_map \<Rightarrow> plan_reference_row option" where
  "build_reference_row c year am =
    (let actuals = map (\<lambda>m. am (c, m)) months
     in if \<not> (\<exists>a \<in> set actuals. truthy a) then None
        else Some \<lparr>prr_year = year, prr_actuals = actuals,
                   prr_total = sum_list (map get_or_0 (filter truthy actuals))\<rparr>)"

definition month_cell :: "month_map \<Rightarrow> month_map \<Rightarrow> int \<Rightarrow> int \<Rightarrow> plan_month_cell" where
  "month_cell bm am c m =
    (let planned = bm (c, m); actual = am (c, m); uniform = uniform_monthly_amount bm c
     in \<lparr>pmc_month = m, pmc_planned = planned, pmc_actual = actual,
         pmc_is_override = (planned \<noteq> None \<and> uniform \<noteq> None \<and> planned \<noteq> uniform),
         pmc_is_over_budget = (truthy actual \<and> truthy planned \<and> the planned < the actual)\<rparr>)"

text \<open>\<open>reference_actual_maps\<close> is given as its items, sorted by year.\<close>

definition build_category_plan_row ::
  "category \<Rightarrow> month_map \<Rightarrow> month_map \<Rightarrow> month_map \<Rightarrow> (int \<times> month_map) list \<Rightarrow> plan_category_row" where
  "build_category_plan_row cat bm am prev refs =
    (let c = cat_id cat;
         dec = prev (c, 12)
     in \<lparr>pcr_category_id = c, pcr_name = cat_name cat, pcr_parent_id = cat_parent_id cat,
         pcr_is_child = (cat_parent_id cat \<noteq> None),
         pcr_uniform_monthly = uniform_monthly_amount bm c,
         pcr_has_any_plan = (\<exists>m \<in> set months. truthy (bm (c, m))),
         pcr_has_any_actual = (\<exists>m \<in> set months. truthy (am (c, m))),
         pcr_months = map (month_cell bm am c) months,
         pcr_total_planned = fold (\<lambda>m t. if truthy (bm (c, m)) then t + the (bm (c, m)) else t) months 0,
         pcr_total_actual = fold (\<lambda>m t. if truthy (am (c, m)) then t + the (am (c, m)) else t) months 0,
         pcr_prev_december_actual = (if truthy dec then dec else None),
         pcr_references = List.map_filter (\<lambda>(y, rm). build_reference_row c y rm) refs\<rparr>)"

definition build_year_plan_slice ::
  "int \<Rightarrow> category list \<Rightarrow> month_map \<Rightarrow> month_map \<Rightarrow> month_map \<Rightarrow> (int \<times> month_map) list \<Rightarrow> year_plan_slice" where
  "build_year_plan_slice year cats bm am prev refs =
    (let rows = map (\<lambda>c. build_category_plan_row c bm am prev refs) cats;
         planned = month_planned_totals bm (map cat_id cats);
         actual = map (\<lambda>i. sum_list (map (\<lambda>r. get_or_0 (pmc_actual (pcr_months r ! i))) rows)) [0..<12]
     in \<lparr>yps_year = year, yps_budget_map = bm, yps_rows = rows, yps_month_planned_totals = planned,
         yps_month_actual_totals = actual, yps_grand_planned = sum_list planned,
         yps_grand_actual = sum_list actual,
         yps_prev_december_actual_total = sum_list (map (\<lambda>r. get_or_0 (pcr_prev_december_actual r)) rows)\<rparr>)"

definition split_plan_years :: "int list \<Rightarrow> (int \<times> int list) result" where
  "split_plan_years ys =
    (let ordered = sort (remdups ys)
     in raise_if (ordered = []) (ValidationError ''errors.budget.year_required'')
          (Inr (last ordered, butlast ordered)))"

subsection \<open>Rows\<close>

definition get_budget :: "db \<Rightarrow> int \<Rightarrow> budget option" where
  "get_budget s i = find_row bud_id i (budgets s)"

definition list_budgets :: "db \<Rightarrow> int \<Rightarrow> int option \<Rightarrow> int option \<Rightarrow> budget list" where
  "list_budgets s current_year month year =
    (let year = (if month \<noteq> None \<and> year = None then Some current_year else year)
     in rev (sort_key (\<lambda>b. (bud_year b, bud_month b)) (filter (\<lambda>b.
          (year = None \<or> year = Some (bud_year b)) \<and> (month = None \<or> month = Some (bud_month b))) (budgets s))))"

definition list_for_year :: "db \<Rightarrow> int \<Rightarrow> budget list" where
  "list_for_year s y = sort_key bud_month (filter (\<lambda>b. bud_year b = y) (budgets s))"

definition list_for_month :: "db \<Rightarrow> int \<Rightarrow> int \<Rightarrow> budget list" where
  "list_for_month s y m =
    sort_key bud_category_id (filter (\<lambda>b. bud_year b = y \<and> bud_month b = m) (budgets s))"

record budget_create =
  bc_category_id :: int
  bc_amount :: decimal
  bc_month :: int
  bc_year :: int

record budget_update =
  bu_amount :: "decimal option"
  bu_month :: "int option"
  bu_year :: "int option"

type_synonym budget_key = "int \<times> int \<times> int"

definition bud_key :: "budget \<Rightarrow> budget_key" where
  "bud_key b = (bud_category_id b, bud_month b, bud_year b)"

definition bc_key :: "budget_create \<Rightarrow> budget_key" where
  "bc_key d = (bc_category_id d, bc_month d, bc_year d)"

text \<open>The field constraints of \<open>BudgetCreate\<close>.\<close>

definition budget_payload :: "int \<Rightarrow> decimal \<Rightarrow> int \<Rightarrow> int \<Rightarrow> budget_create result" where
  "budget_payload c amount m y =
    raise_if (\<not> (0 < amount \<and> cents amount \<and> 1 \<le> m \<and> m \<le> 12 \<and> 2000 \<le> y \<and> y \<le> 2100)) ValueError
      (Inr \<lparr>bc_category_id = c, bc_amount = amount, bc_month = m, bc_year = y\<rparr>)"

definition month_and_year_together :: "budget_update \<Rightarrow> budget_update result" where
  "month_and_year_together u = raise_if ((bu_month u = None) \<noteq> (bu_year u = None)) ValueError (Inr u)"

definition get_by_category_period :: "db \<Rightarrow> int \<Rightarrow> int \<Rightarrow> int \<Rightarrow> budget option result" where
  "get_by_category_period s c m y =
    (case filter (\<lambda>b. bud_key b = (c, m, y)) (budgets s) of
       [] \<Rightarrow> Inr None | [b] \<Rightarrow> Inr (Some b) | _ \<Rightarrow> Inl MultipleResultsFound)"

text \<open>\<open>uq_budget_category_period\<close> and the category's key.\<close>

definition budget_allowed :: "db \<Rightarrow> budget \<Rightarrow> bool" where
  "budget_allowed s b \<longleftrightarrow> fk_ok cat_id (categories s) (Some (bud_category_id b)) \<and>
    (\<forall>x \<in> set (budgets s). bud_id x \<noteq> bud_id b \<longrightarrow> bud_key x \<noteq> bud_key b)"

definition create_budget :: "budget_create \<Rightarrow> db \<Rightarrow> (budget \<times> db) result" where
  "create_budget d s =
    (let b = \<lparr>bud_id = seq_budget s, bud_category_id = bc_category_id d, bud_amount = bc_amount d,
              bud_month = bc_month d, bud_year = bc_year d\<rparr>
     in if budget_allowed s b then Inr (b, s\<lparr>budgets := budgets s @ [b], seq_budget := seq_budget s + 1\<rparr>)
        else Inl (IntegrityError ''budgets''))"

definition upsert :: "budget_create \<Rightarrow> db \<Rightarrow> (budget \<times> db) result" where
  "upsert d s =
    ebind (get_by_category_period s (bc_category_id d) (bc_month d) (bc_year d)) (\<lambda>existing.
    case existing of
      Some b \<Rightarrow> let b' = b\<lparr>bud_amount := bc_amount d\<rparr>
                 in Inr (b', s\<lparr>budgets := upd_row bud_id (bud_id b) (\<lambda>_. b') (budgets s)\<rparr>)
    | None \<Rightarrow> create_budget d s)"

text \<open>\<open>merged\<close>: the amounts of equal keys added up; \<open>sorted(merged.items())\<close>.\<close>

definition entry_total :: "budget_create list \<Rightarrow> budget_key \<Rightarrow> decimal" where
  "entry_total es k = sum_list (map bc_amount (filter (\<lambda>e. bc_key e = k) es))"

definition merged_entries :: "budget_create list \<Rightarrow> (budget_key \<times> decimal) list" where
  "merged_entries es = map (\<lambda>k. (k, entry_total es k)) (sort (remdups (map bc_key es)))"

text \<open>
  One row of \<open>INSERT ... ON CONFLICT DO UPDATE\<close>: the id sequence advances in either case.
\<close>

definition insert_on_conflict :: "budget_key \<times> decimal \<Rightarrow> db \<Rightarrow> db result" where
  "insert_on_conflict row s =
    (case row of ((c, m, y), amount) \<Rightarrow>
       if \<not> fk_ok cat_id (categories s) (Some c) then Inl (IntegrityError ''budgets'')
       else Inr (s\<lparr>seq_budget := seq_budget s + 1,
         budgets := (if (c, m, y) \<in> set (map bud_key (budgets s))
           then map (\<lambda>b. if bud_key b = (c, m, y) then b\<lparr>bud_amount := amount\<rparr> else b) (budgets s)
           else budgets s @ [\<lparr>bud_id = seq_budget s, bud_category_id = c, bud_amount = amount,
                              bud_month = m, bud_year = y\<rparr>])\<rparr>))"

definition bulk_upsert :: "budget_create list \<Rightarrow> db \<Rightarrow> (nat \<times> db) result" where
  "bulk_upsert es s =
    (if es = [] then Inr (0, s)
     else ebind (efold insert_on_conflict (merged_entries es) s) (\<lambda>s'. Inr (length (merged_entries es), s')))"

text \<open>
  Every \<open>upsert\<close> of the loop commits, so an error in the middle leaves the rows before it; the state
  is returned beside the result.
\<close>

fun copy_rows :: "budget list \<Rightarrow> int \<Rightarrow> int \<Rightarrow> nat \<Rightarrow> db \<Rightarrow> nat result \<times> db" where
  "copy_rows [] y m n s = (Inr n, s)"
| "copy_rows (b # bs) y m n s =
    (case ebind (budget_payload (bud_category_id b) (bud_amount b) m y) (\<lambda>d. upsert d s) of
       Inl e \<Rightarrow> (Inl e, s)
     | Inr (_, s') \<Rightarrow> copy_rows bs y m (n + 1) s')"

definition copy_forward :: "int \<Rightarrow> int \<Rightarrow> int \<Rightarrow> int \<Rightarrow> bool \<Rightarrow> db \<Rightarrow> nat result \<times> db" where
  "copy_forward from_y from_m to_y to_m overwrite s =
    (let src = list_for_month s from_y from_m;
         existing = map bud_category_id (list_for_month s to_y to_m)
     in if src = [] then (Inr 0, s)
        else copy_rows (filter (\<lambda>b. overwrite \<or> bud_category_id b \<notin> set existing) src) to_y to_m 0 s)"

definition update_budget :: "int \<Rightarrow> budget_update \<Rightarrow> db \<Rightarrow> (budget option \<times> db) result" where
  "update_budget i u s =
    (case get_budget s i of
       None \<Rightarrow> Inr (None, s)
     | Some b \<Rightarrow>
         let b' = patch (bu_year u) (\<lambda>v b. b\<lparr>bud_year := v\<rparr>)
                 (patch (bu_month u) (\<lambda>v b. b\<lparr>bud_month := v\<rparr>)
                 (patch (bu_amount u) (\<lambda>v b. b\<lparr>bud_amount := v\<rparr>) b))
         in if budget_allowed s b'
            then Inr (Some b', s\<lparr>budgets := upd_row bud_id i (\<lambda>_. b') (budgets s)\<rparr>)
            else Inl (IntegrityError ''budgets''))"

definition delete_budget :: "int \<Rightarrow> db \<Rightarrow> bool \<times> db" where
  "delete_budget i s =
    (case get_budget s i of
       None \<Rightarrow> (False, s) | Some b \<Rightarrow> (True, s\<lparr>budgets := del_row bud_id i (budgets s)\<rparr>))"

definition delete_all_for_category_year :: "int \<Rightarrow> int \<Rightarrow> db \<Rightarrow> nat \<times> db" where
  "delete_all_for_category_year c y s =
    (length (filter (\<lambda>b. bud_category_id b = c \<and> bud_year b = y) (budgets s)),
     s\<lparr>budgets := filter (\<lambda>b. \<not> (bud_category_id b = c \<and> bud_year b = y)) (budgets s)\<rparr>)"

subsection \<open>What was spent\<close>

record flow =
  cf_transaction_id :: int
  cf_category_id :: "int option"
  cf_amount :: decimal
  cf_date :: date
  cf_type :: transaction_type
  cf_account_id :: int
  cf_user_id :: "int option"
  cf_is_internal :: bool

definition flow_of :: "transaction \<Rightarrow> int option \<Rightarrow> decimal \<Rightarrow> flow" where
  "flow_of t c amount = \<lparr>cf_transaction_id = tx_id t, cf_category_id = c, cf_amount = amount,
     cf_date = tx_date t, cf_type = tx_type t, cf_account_id = tx_account_id t,
     cf_user_id = tx_user_id t, cf_is_internal = tx_is_internal t\<rparr>"

definition categorised_flows :: "db \<Rightarrow> flow list" where
  "categorised_flows s =
    map (\<lambda>t. flow_of t (tx_category_id t) (tx_amount t)) (filter (\<lambda>t. \<not> tx_is_split t) (transactions s)) @
    concat (map (\<lambda>t. map (\<lambda>l. flow_of t (sp_category_id l) (sp_amount l)) (tx_splits t))
      (filter tx_is_split (transactions s)))"

text \<open>The rows every budget query selects; then grouped by category.\<close>

definition expense_flows :: "db \<Rightarrow> date \<Rightarrow> date \<Rightarrow> flow list" where
  "expense_flows s start stop = filter (\<lambda>f. cf_type f = EXPENSE \<and> start \<le> cf_date f \<and> cf_date f \<le> stop \<and>
     \<not> cf_is_internal f \<and> cf_category_id f \<noteq> None \<and>
     cf_transaction_id f \<notin> set (loan_linked_transaction_ids s)) (categorised_flows s)"

definition spent :: "flow list \<Rightarrow> int \<Rightarrow> decimal option" where
  "spent fs c =
    (if Some c \<in> cf_category_id ` set fs
     then Some (sum_list (map cf_amount (filter (\<lambda>f. cf_category_id f = Some c) fs))) else None)"

definition spent_categories :: "flow list \<Rightarrow> int list" where
  "spent_categories fs = remdups (List.map_filter cf_category_id fs)"

definition actuals_by_category_month :: "db \<Rightarrow> int \<Rightarrow> month_map result" where
  "actuals_by_category_month s y =
    ebind (mk_date y 1 1) (\<lambda>a. ebind (mk_date y 12 31) (\<lambda>b.
      Inr (\<lambda>(c, m). spent (filter (\<lambda>f. d_month (cf_date f) = m) (expense_flows s a b)) c)))"

subsection \<open>Summary of a range\<close>

record category_budget_summary =
  cbs_category_id :: int
  cbs_category_name :: string
  cbs_budget_amount :: decimal
  cbs_actual_amount :: decimal

definition cbs_remaining :: "category_budget_summary \<Rightarrow> decimal" where
  "cbs_remaining r = cbs_budget_amount r - cbs_actual_amount r"

definition cbs_percent_used :: "category_budget_summary \<Rightarrow> rat" where
  "cbs_percent_used r =
    (if cbs_budget_amount r = 0 then 0
     else to_float (dec_mul (dec_div (cbs_actual_amount r) (cbs_budget_amount r)) 100))"

definition cbs_over_budget :: "category_budget_summary \<Rightarrow> bool" where
  "cbs_over_budget r \<longleftrightarrow> cbs_budget_amount r < cbs_actual_amount r"

definition period_budgets :: "db \<Rightarrow> date \<Rightarrow> date \<Rightarrow> budget list" where
  "period_budgets s start stop = filter (\<lambda>b.
     d_year start * 12 + d_month start \<le> bud_year b * 12 + bud_month b \<and>
     bud_year b * 12 + bud_month b \<le> d_year stop * 12 + d_month stop) (budgets s)"

definition budget_total :: "budget list \<Rightarrow> int \<Rightarrow> decimal" where
  "budget_total bs c = sum_list (map bud_amount (filter (\<lambda>b. bud_category_id b = c) bs))"

definition summary_name :: "db \<Rightarrow> budget list \<Rightarrow> int \<Rightarrow> string" where
  "summary_name s bs c =
    (let name = (if c \<in> bud_category_id ` set bs
                 then map_option cat_name (get_category s c) else None);
         expense = map_option cat_name (find_row cat_id c (filter (\<lambda>x. cat_type x = CAT_EXPENSE) (categories s)))
     in case name of
          Some (x # xs) \<Rightarrow> x # xs
        | _ \<Rightarrow> (case expense of Some n \<Rightarrow> n | None \<Rightarrow> ''Unknown''))"

definition range_summary :: "db \<Rightarrow> date \<Rightarrow> date \<Rightarrow> category_budget_summary list" where
  "range_summary s start stop =
    (let bs = period_budgets s start stop;
         fs = expense_flows s start stop;
         expense_ids = map cat_id (filter (\<lambda>c. cat_type c = CAT_EXPENSE) (categories s));
         ids = remdups (map bud_category_id bs @ filter (\<lambda>c. c \<in> set expense_ids) (spent_categories fs))
     in sort_key cbs_category_name (map (\<lambda>c. \<lparr>cbs_category_id = c, cbs_category_name = summary_name s bs c,
          cbs_budget_amount = budget_total bs c, cbs_actual_amount = get_or_0 (spent fs c)\<rparr>) ids))"

definition monthly_summary :: "db \<Rightarrow> int \<Rightarrow> int \<Rightarrow> category_budget_summary list result" where
  "monthly_summary s m y = ebind (month_range y m m) (\<lambda>(a, b). Inr (range_summary s a b))"

subsection \<open>Realization of a month\<close>

datatype realization_status = ON_TRACK | WARNING | OVER

datatype realization_note_kind = PAID_IN_FULL | PLANNED_ON

record scheduled_expense =
  se_date :: date
  se_amount :: decimal
  se_posted :: bool

record realization_note_row =
  rn_kind :: realization_note_kind
  rn_date :: date
  rn_amount :: decimal

definition realization_note ::
  "decimal \<Rightarrow> decimal \<Rightarrow> xfloat \<Rightarrow> scheduled_expense list \<Rightarrow> date \<Rightarrow> realization_note_row option" where
  "realization_note planned actual used occs today =
    (if occs = [] then None
     else if planned > 0 \<and> actual = planned \<and> length occs = 1 \<and>
             se_amount (hd occs) = planned \<and> se_date (hd occs) \<le> today
     then Some \<lparr>rn_kind = PAID_IN_FULL, rn_date = se_date (hd occs), rn_amount = se_amount (hd occs)\<rparr>
     else if xless used (Fin 100) then
       (case sort_key se_date (filter (\<lambda>x. today \<le> se_date x \<and> \<not> se_posted x) occs) of
          [] \<Rightarrow> None
        | x # _ \<Rightarrow> Some \<lparr>rn_kind = PLANNED_ON, rn_date = se_date x, rn_amount = se_amount x\<rparr>)
     else None)"

record category_realization =
  cr_category_id :: int
  cr_category_name :: string
  cr_parent_id :: "int option"
  cr_parent_name :: "string option"
  cr_planned :: decimal
  cr_actual :: decimal
  cr_elapsed_pct :: rat
  cr_used_pct :: xfloat
  cr_note :: "realization_note_row option"

definition cr_remaining :: "category_realization \<Rightarrow> decimal" where
  "cr_remaining r = cr_planned r - cr_actual r"

definition cr_status :: "category_realization \<Rightarrow> realization_status" where
  "cr_status r =
    (if xless (Fin 100) (cr_used_pct r) then OVER
     else if xless (Fin (to_float (cr_elapsed_pct r + realization_warning_threshold_pct))) (cr_used_pct r)
     then WARNING else ON_TRACK)"

definition cr_pace_delta :: "category_realization \<Rightarrow> xfloat" where
  "cr_pace_delta r =
    (case cr_used_pct r of Inf \<Rightarrow> Inf | Fin u \<Rightarrow> Fin (to_float (u - cr_elapsed_pct r)))"

definition used_pct :: "decimal \<Rightarrow> decimal \<Rightarrow> xfloat" where
  "used_pct planned actual =
    (if planned > 0 then Fin (to_float (dec_mul (dec_div actual planned) 100))
     else if actual > 0 then Inf else Fin 0)"

definition elapsed_pct :: "date \<Rightarrow> date \<Rightarrow> date \<Rightarrow> rat" where
  "elapsed_pct today month_start month_end =
    (if today < month_start then 0 else if month_end < today then 100
     else to_float (to_float (of_int (d_day today) / of_int (d_day month_end)) * 100))"

record realization_totals =
  rt_planned :: decimal
  rt_actual :: decimal
  rt_over :: nat
  rt_rows :: nat

definition realization_totals_of :: "category_realization list \<Rightarrow> realization_totals" where
  "realization_totals_of rows = \<lparr>rt_planned = sum_list (map cr_planned rows),
     rt_actual = sum_list (map cr_actual rows), rt_over = length (filter (\<lambda>r. cr_status r = OVER) rows),
     rt_rows = length rows\<rparr>"

definition expense_schedule :: "db \<Rightarrow> date \<Rightarrow> date \<Rightarrow> (int \<Rightarrow> scheduled_expense list) run" where
  "expense_schedule s start stop =
    rbind (get_occurrences s start stop None True False) (\<lambda>occs.
    rbind (get_occurrences s start stop None True True) (\<lambda>open_occs.
    Some (Inr (\<lambda>c. map (\<lambda>oc. \<lparr>se_date = occ_date oc, se_amount = occ_amount oc,
        se_posted = (occ_key oc \<notin> occ_key ` set open_occs)\<rparr>)
      (filter (\<lambda>oc. occ_type oc = EXPENSE \<and> occ_category_id oc = Some c) occs)))))"

text \<open>
  \<open>parent_lookup\<close>: the budgeted categories, then the expense categories that were only spent on, as
  the insertion-ordered keys of the dictionary.
\<close>

definition realization_ids :: "db \<Rightarrow> budget list \<Rightarrow> flow list \<Rightarrow> int list" where
  "realization_ids s bs fs =
    (let budgeted = remdups (map bud_category_id bs);
         missing = filter (\<lambda>c. c \<notin> set budgeted) (spent_categories fs)
     in budgeted @ map cat_id (filter (\<lambda>c. cat_id c \<in> set missing \<and> cat_type c = CAT_EXPENSE) (categories s)))"

definition parent_name :: "db \<Rightarrow> int \<Rightarrow> string option" where
  "parent_name s c =
    Option.bind (get_category s c) (\<lambda>x. Option.bind (cat_parent_id x) (\<lambda>p. map_option cat_name (get_category s p)))"

definition planned_amount :: "budget list \<Rightarrow> int \<Rightarrow> decimal" where
  "planned_amount bs c = get_or_0 (map_of (rev (map (\<lambda>b. (bud_category_id b, bud_amount b)) bs)) c)"

definition realization_row ::
  "db \<Rightarrow> budget list \<Rightarrow> flow list \<Rightarrow> rat \<Rightarrow> date \<Rightarrow> (int \<Rightarrow> scheduled_expense list) option \<Rightarrow> int \<Rightarrow> category_realization" where
  "realization_row s bs fs elapsed today schedule c =
    (let planned = planned_amount bs c; actual = get_or_0 (spent fs c); used = used_pct planned actual
     in \<lparr>cr_category_id = c,
         cr_category_name = (case get_category s c of Some x \<Rightarrow> cat_name x | None \<Rightarrow> []),
         cr_parent_id = Option.bind (get_category s c) cat_parent_id, cr_parent_name = parent_name s c,
         cr_planned = planned, cr_actual = actual, cr_elapsed_pct = elapsed, cr_used_pct = used,
         cr_note = (case schedule of None \<Rightarrow> None
                    | Some f \<Rightarrow> realization_note planned actual used (f c) today)\<rparr>)"

text \<open>The sort key: worst status first, then the larger pace difference, then the name.\<close>

definition status_order :: "realization_status \<Rightarrow> nat" where
  "status_order st = (case st of OVER \<Rightarrow> 0 | WARNING \<Rightarrow> 1 | ON_TRACK \<Rightarrow> 2)"

definition realization_key :: "category_realization \<Rightarrow> nat \<times> (nat \<times> rat) \<times> string" where
  "realization_key r =
    (status_order (cr_status r),
     (case cr_pace_delta r of Inf \<Rightarrow> (0, 0) | Fin d \<Rightarrow> (1, - d)), cr_category_name r)"

definition realization_for_month :: "db \<Rightarrow> int \<Rightarrow> int \<Rightarrow> date \<Rightarrow> category_realization list run" where
  "realization_for_month s y m today =
    (case month_range y m m of
       Inl e \<Rightarrow> Some (Inl e)
     | Inr (month_start, month_end) \<Rightarrow>
         let elapsed = elapsed_pct today month_start month_end;
             bs = filter (\<lambda>b. bud_month b = m \<and> bud_year b = y) (budgets s);
             fs = expense_flows s month_start month_end;
             explain = (month_start \<le> today \<and> today \<le> month_end)
         in rbind (if explain then rbind (expense_schedule s month_start month_end) (\<lambda>f. Some (Inr (Some f)))
                   else Some (Inr None)) (\<lambda>schedule.
            Some (Inr (sort_key realization_key
              (map (realization_row s bs fs elapsed today schedule) (realization_ids s bs fs))))))"

subsection \<open>Loading the grid\<close>

definition load_annual_plan_grid :: "db \<Rightarrow> int list \<Rightarrow> annual_plan_grid result" where
  "load_annual_plan_grid s years =
    ebind (split_plan_years years) (\<lambda>(edit, refs).
    ebind (actuals_by_category_month s edit) (\<lambda>am.
    ebind (actuals_by_category_month s (edit - 1)) (\<lambda>prev.
    ebind (emap (actuals_by_category_month s) refs) (\<lambda>rms.
    Inr \<lparr>apg_edit_year = edit, apg_reference_years = refs, apg_year_slice =
      build_year_plan_slice edit (sort_with_children (list_categories s (Some CAT_EXPENSE)))
        (budgets_to_map (list_for_year s edit)) am prev (zip refs rms)\<rparr>))))"

section \<open>Over budget means over budget\<close>

lemma cents_ratio_gap:
  assumes "cents a" and "cents b" and "0 < b" and "b < 10 ^ 13"
  shows "a < b \<Longrightarrow> a / b \<le> 1 - 1 / 10 ^ 15" and "b < a \<Longrightarrow> 1 + 1 / 10 ^ 15 \<le> a / b"
proof -
  obtain i j where a: "a = of_int i / 100" and b: "b = of_int j / 100"
    using assms(1,2) by (auto elim!: centsE)
  have small: "b / 10 ^ 15 \<le> 1 / 100" using assms(4) by simp
  show "a / b \<le> 1 - 1 / 10 ^ 15" if "a < b"
  proof -
    have "(of_int i :: rat) < of_int j" using that by (simp add: a b)
    then have "(of_int (i + 1) :: rat) \<le> of_int j" by (simp only: of_int_less_iff of_int_le_iff)
    then have "a + 1 / 100 \<le> b" by (simp add: a b)
    with small have "a \<le> b * (1 - 1 / 10 ^ 15)" by (simp add: algebra_simps)
    with assms(3) show ?thesis by (simp add: divide_le_eq mult.commute)
  qed
  show "1 + 1 / 10 ^ 15 \<le> a / b" if "b < a"
  proof -
    have "(of_int j :: rat) < of_int i" using that by (simp add: a b)
    then have "(of_int (j + 1) :: rat) \<le> of_int i" by (simp only: of_int_less_iff of_int_le_iff)
    then have "b + 1 / 100 \<le> a" by (simp add: a b)
    with small have "b * (1 + 1 / 10 ^ 15) \<le> a" by (simp add: algebra_simps)
    with assms(3) show ?thesis by (simp add: le_divide_eq mult.commute)
  qed
qed

lemma used_pct_over:
  assumes "cents planned" and "cents actual" and "0 \<le> planned" and "0 \<le> actual" and "planned < 10 ^ 13"
  shows "xless (Fin 100) (used_pct planned actual) \<longleftrightarrow> planned < actual"
proof (cases "planned = 0")
  case True
  then show ?thesis using assms(4) by (auto simp: used_pct_def)
next
  case False
  define x where "x = actual / planned"
  have p: "0 < planned" using False assms(3) by simp
  then have x: "0 \<le> x" using assms(4) by (simp add: x_def)
  let ?w = "to_float (ctx (ctx x * 100))"
  note err = percent_error [OF x, unfolded abs_le_iff]
  note gap = cents_ratio_gap [OF assms(2,1) p assms(5), folded x_def]
  have "?w = 100" if "actual = planned" using that p percent_one by (simp add: x_def)
  moreover have "?w < 100" if "actual < planned"
  proof -
    have "?w \<le> 100 * x * (1 + 2 / 10 ^ 16)" using err by (simp add: algebra_simps)
    also have "\<dots> \<le> 100 * (1 - 1 / 10 ^ 15) * (1 + 2 / 10 ^ 16)"
      using gap(1) [OF that] by (intro mult_right_mono mult_left_mono) auto
    finally show ?thesis by simp
  qed
  moreover have "100 < ?w" if "planned < actual"
  proof -
    have "100 < 100 * (1 + 1 / 10 ^ 15) * (1 - 2 / 10 ^ 16 :: rat)" by simp
    also have "\<dots> \<le> 100 * x * (1 - 2 / 10 ^ 16)"
      using gap(2) [OF that] by (intro mult_right_mono mult_left_mono) auto
    also have "\<dots> \<le> ?w" using err by (simp add: algebra_simps)
    finally show ?thesis .
  qed
  ultimately show ?thesis
    using p by (cases actual planned rule: linorder_cases) (auto simp: used_pct_def dec_div_def dec_mul_def x_def)
qed

text \<open>
  A category is reported as over its plan exactly when more was spent than planned: the percentage
  goes through two decimal roundings and one to a binary double, and for any amounts a column can hold
  (below \<open>10 ^ 13\<close>) not one grosz is misjudged; without a plan any spending is over. The count in the
  totals is therefore the number of categories whose spending exceeds their plan.
\<close>

lemma over_budget_exact:
  assumes "\<forall>r \<in> set rows. cr_used_pct r = used_pct (cr_planned r) (cr_actual r) \<and> cents (cr_planned r) \<and>
      cents (cr_actual r) \<and> 0 \<le> cr_planned r \<and> 0 \<le> cr_actual r \<and> cr_planned r < 10 ^ 13"
  shows "(\<forall>r \<in> set rows. cr_status r = OVER \<longleftrightarrow> cr_planned r < cr_actual r) \<and>
    rt_over (realization_totals_of rows) = length (filter (\<lambda>r. cr_remaining r < 0) rows)"
proof -
  have st: "cr_status r = OVER \<longleftrightarrow> cr_planned r < cr_actual r" if "r \<in> set rows" for r
    using that assms used_pct_over [of "cr_planned r" "cr_actual r"] by (auto simp: cr_status_def)
  then have "filter (\<lambda>r. cr_status r = OVER) rows = filter (\<lambda>r. cr_remaining r < 0) rows"
    by (intro filter_cong) (auto simp: cr_remaining_def)
  with st show ?thesis by (simp add: realization_totals_of_def)
qed

definition ex_realization :: "decimal \<Rightarrow> decimal \<Rightarrow> category_realization" where
  "ex_realization planned actual = \<lparr>cr_category_id = 1, cr_category_name = ''Food'', cr_parent_id = None,
     cr_parent_name = None, cr_planned = planned, cr_actual = actual, cr_elapsed_pct = 50,
     cr_used_pct = used_pct planned actual, cr_note = None\<rparr>"

lemma over_budget_exact_witness:
  "rt_over (realization_totals_of [ex_realization 100 100, ex_realization 100 (10001 / 100)]) = 1"
  using over_budget_exact [of "[ex_realization 100 100, ex_realization 100 (10001 / 100)]"]
  by (simp add: ex_realization_def cr_remaining_def)

section \<open>The plan as a map\<close>

text \<open>The abstract state: one amount per category, month and year.\<close>

definition plan_of :: "db \<Rightarrow> budget_key \<Rightarrow> decimal option" where
  "plan_of s = map_of (map (\<lambda>b. (bud_key b, bud_amount b)) (budgets s))"

definition budgets_ok :: "db \<Rightarrow> bool" where
  "budgets_ok s \<longleftrightarrow> ids_ok bud_id (seq_budget s) (budgets s) \<and> distinct (map bud_key (budgets s))"

definition category_known :: "db \<Rightarrow> budget_key \<Rightarrow> bool" where
  "category_known s k \<longleftrightarrow> fk_ok cat_id (categories s) (Some (fst k))"

text \<open>What a writer of plans relies on: a put that always succeeds for a known key and overwrites.\<close>

locale plan_store =
  fixes look :: "'s \<Rightarrow> 'k \<Rightarrow> 'v option"
    and put :: "'k \<times> 'v \<Rightarrow> 's \<Rightarrow> 's result"
    and invar :: "'s \<Rightarrow> bool"
    and known :: "'s \<Rightarrow> 'k \<Rightarrow> bool"
  assumes put_ok: "invar s \<Longrightarrow> known s k \<Longrightarrow>
      \<exists>s'. put (k, v) s = Inr s' \<and> invar s' \<and> look s' = (look s)(k \<mapsto> v) \<and> known s' = known s"
begin

lemma puts:
  "invar s \<Longrightarrow> \<forall>kv \<in> set kvs. known s (fst kv) \<Longrightarrow>
    \<exists>s'. efold put kvs s = Inr s' \<and> invar s' \<and> look s' = look s ++ map_of (rev kvs) \<and> known s' = known s"
proof (induction kvs arbitrary: s)
  case (Cons kv kvs)
  obtain k v where kv: "kv = (k, v)" by (cases kv)
  from put_ok [OF Cons.prems(1), of k v] Cons.prems(2) kv obtain s1 where
    s1: "put kv s = Inr s1" "invar s1" "look s1 = (look s)(k \<mapsto> v)" "known s1 = known s" by auto
  have "\<forall>kv \<in> set kvs. known s1 (fst kv)" using Cons.prems(2) s1(4) by simp
  from Cons.IH [OF s1(2) this] obtain s' where
    s': "efold put kvs s1 = Inr s'" "invar s'" "look s' = look s1 ++ map_of (rev kvs)" "known s' = known s1" by blast
  have "look s' = look s ++ map_of (rev (kv # kvs))"
    unfolding s'(3) s1(3) by (simp add: kv map_add_def fun_eq_iff split: option.splits)
  with s1 s' show ?case by simp
qed simp

end

lemma map_of_amounts:
  "map_of (map (\<lambda>b. (bud_key b, bud_amount b))
      (map (\<lambda>b. if bud_key b = k then b\<lparr>bud_amount := a\<rparr> else b) bs)) =
    (if k \<in> bud_key ` set bs then (map_of (map (\<lambda>b. (bud_key b, bud_amount b)) bs))(k \<mapsto> a)
     else map_of (map (\<lambda>b. (bud_key b, bud_amount b)) bs))"
proof (induction bs)
  case (Cons b bs)
  have "bud_key (b\<lparr>bud_amount := a\<rparr>) = bud_key b" by (simp add: bud_key_def)
  with Cons show ?case by (auto simp: fun_upd_twist)
qed simp

lemma map_of_new_key:
  "k \<notin> fst ` set xs \<Longrightarrow> map_of (xs @ [(k, a)]) = (map_of xs)(k \<mapsto> a)"
  by (induction xs) (auto simp: fun_upd_twist)

lemma keys_amount_update:
  "map bud_key (map (\<lambda>b. if bud_key b = k then b\<lparr>bud_amount := a\<rparr> else b) bs) = map bud_key bs"
  "map bud_id (map (\<lambda>b. if bud_key b = k then b\<lparr>bud_amount := a\<rparr> else b) bs) = map bud_id bs"
  by (auto simp: bud_key_def)

lemma plan_change:
  assumes "budgets_ok s" and "q \<ge> seq_budget s"
    and "budgets s' = map (\<lambda>b. if bud_key b = k then b\<lparr>bud_amount := a\<rparr> else b) (budgets s)"
    and "seq_budget s' = q" and "k \<in> bud_key ` set (budgets s)"
  shows "budgets_ok s' \<and> plan_of s' = (plan_of s)(k \<mapsto> a)"
proof -
  have "ids_ok bud_id (seq_budget s) (budgets s')"
    unfolding assms(3) ids_ok_cong [OF keys_amount_update(2)] using assms(1) by (simp add: budgets_ok_def)
  then have "ids_ok bud_id q (budgets s')" using assms(2) by (auto simp: ids_ok_def)
  then show ?thesis
    using assms(1,4,5) keys_amount_update(1) [of k a "budgets s"]
    by (simp add: budgets_ok_def plan_of_def assms(3) map_of_amounts del: map_map)
qed

lemma plan_add:
  assumes "budgets_ok s" and "bud_id b = seq_budget s" and "bud_key b \<notin> bud_key ` set (budgets s)"
    and "budgets s' = budgets s @ [b]" and "seq_budget s' = seq_budget s + 1"
  shows "budgets_ok s' \<and> plan_of s' = (plan_of s)(bud_key b \<mapsto> bud_amount b)"
proof -
  have "ids_ok bud_id (seq_budget s + 1) (budgets s @ [b])"
    by (rule ids_ok_insert) (use assms in \<open>simp_all add: budgets_ok_def\<close>)
  then show ?thesis
    using assms map_of_new_key [of "bud_key b" "map (\<lambda>b. (bud_key b, bud_amount b)) (budgets s)" "bud_amount b"]
    by (auto simp: budgets_ok_def plan_of_def image_image)
qed

interpretation conflict_store: plan_store plan_of insert_on_conflict budgets_ok category_known
proof unfold_locales
  fix s k v
  assume ok: "budgets_ok s" and kn: "category_known s k"
  obtain c m y where k: "k = (c, m, y)" by (cases k)
  show "\<exists>s'. insert_on_conflict (k, v) s = Inr s' \<and> budgets_ok s' \<and> plan_of s' = (plan_of s)(k \<mapsto> v) \<and>
      category_known s' = category_known s"
  proof (cases "k \<in> bud_key ` set (budgets s)")
    case True
    let ?s = "s\<lparr>seq_budget := seq_budget s + 1,
        budgets := map (\<lambda>b. if bud_key b = k then b\<lparr>bud_amount := v\<rparr> else b) (budgets s)\<rparr>"
    have "insert_on_conflict (k, v) s = Inr ?s" using True kn by (auto simp: insert_on_conflict_def k category_known_def)
    with plan_change [OF ok, of "seq_budget s + 1" ?s k v] True show ?thesis
      by (simp add: category_known_def fun_eq_iff)
  next
    case False
    let ?b = "\<lparr>bud_id = seq_budget s, bud_category_id = c, bud_amount = v, bud_month = m, bud_year = y\<rparr>"
    let ?s = "s\<lparr>seq_budget := seq_budget s + 1, budgets := budgets s @ [?b]\<rparr>"
    have "insert_on_conflict (k, v) s = Inr ?s" using False kn by (auto simp: insert_on_conflict_def k category_known_def)
    with plan_add [OF ok, of ?b ?s] False show ?thesis
      by (simp add: category_known_def fun_eq_iff bud_key_def k)
  qed
qed

lemma filter_key_unique:
  "distinct (map f xs) \<Longrightarrow> x \<in> set xs \<Longrightarrow> filter (\<lambda>y. f y = f x) xs = [x]"
proof (induction xs)
  case (Cons a xs)
  show ?case
  proof (cases "a = x")
    case True
    with Cons.prems(1) have "filter (\<lambda>y. f y = f x) xs = []" by (auto simp: filter_empty_conv image_iff)
    with True show ?thesis by simp
  next
    case False
    with Cons have "f a \<noteq> f x" by (auto simp: image_iff)
    with False Cons show ?thesis by simp
  qed
qed simp

lemma get_by_category_period_cases:
  assumes "budgets_ok s"
  shows "(c, m, y) \<notin> bud_key ` set (budgets s) \<Longrightarrow> get_by_category_period s c m y = Inr None"
    and "b \<in> set (budgets s) \<Longrightarrow> bud_key b = (c, m, y) \<Longrightarrow> get_by_category_period s c m y = Inr (Some b)"
proof -
  show "get_by_category_period s c m y = Inr None" if "(c, m, y) \<notin> bud_key ` set (budgets s)"
  proof -
    have "filter (\<lambda>b. bud_key b = (c, m, y)) (budgets s) = []" using that by (auto simp: filter_empty_conv image_iff)
    then show ?thesis by (simp add: get_by_category_period_def)
  qed
  show "get_by_category_period s c m y = Inr (Some b)" if "b \<in> set (budgets s)" "bud_key b = (c, m, y)"
    using filter_key_unique [of bud_key "budgets s" b] that assms by (simp add: budgets_ok_def get_by_category_period_def)
qed

lemma upd_row_by_key:
  assumes "budgets_ok s" and "b \<in> set (budgets s)"
  shows "upd_row bud_id (bud_id b) (\<lambda>_. b\<lparr>bud_amount := a\<rparr>) (budgets s) =
    map (\<lambda>x. if bud_key x = bud_key b then x\<lparr>bud_amount := a\<rparr> else x) (budgets s)"
  unfolding upd_row_def
proof (intro map_cong refl)
  fix x assume x: "x \<in> set (budgets s)"
  have "inj_on bud_id (set (budgets s))" "inj_on bud_key (set (budgets s))"
    using assms(1) by (simp_all add: budgets_ok_def ids_ok_def distinct_map)
  with x assms(2) have "bud_id x = bud_id b \<longleftrightarrow> x = b" "bud_key x = bud_key b \<longleftrightarrow> x = b"
    by (auto simp: inj_on_def)
  then show "(if bud_id x = bud_id b then b\<lparr>bud_amount := a\<rparr> else x) =
      (if bud_key x = bud_key b then x\<lparr>bud_amount := a\<rparr> else x)" by simp
qed

definition upsert_put :: "budget_key \<times> decimal \<Rightarrow> db \<Rightarrow> db result" where
  "upsert_put kv s = ebind (upsert \<lparr>bc_category_id = fst (fst kv), bc_amount = snd kv,
     bc_month = fst (snd (fst kv)), bc_year = snd (snd (fst kv))\<rparr> s) (\<lambda>(b, s'). Inr s')"

interpretation upsert_store: plan_store plan_of upsert_put budgets_ok category_known
proof unfold_locales
  fix s k v
  assume ok: "budgets_ok s" and kn: "category_known s k"
  obtain c m y where k: "k = (c, m, y)" by (cases k)
  show "\<exists>s'. upsert_put (k, v) s = Inr s' \<and> budgets_ok s' \<and> plan_of s' = (plan_of s)(k \<mapsto> v) \<and>
      category_known s' = category_known s"
  proof (cases "k \<in> bud_key ` set (budgets s)")
    case True
    then obtain b where b: "b \<in> set (budgets s)" "bud_key b = (c, m, y)" by (auto simp: k)
    let ?s = "s\<lparr>budgets := upd_row bud_id (bud_id b) (\<lambda>_. b\<lparr>bud_amount := v\<rparr>) (budgets s)\<rparr>"
    have "upsert_put (k, v) s = Inr ?s"
      using get_by_category_period_cases(2) [OF ok b] by (simp add: upsert_put_def upsert_def k Let_def)
    with plan_change [OF ok, of "seq_budget s" ?s k v] True upd_row_by_key [OF ok b(1)] b(2) show ?thesis
      by (simp add: category_known_def fun_eq_iff k)
  next
    case False
    let ?b = "\<lparr>bud_id = seq_budget s, bud_category_id = c, bud_amount = v, bud_month = m, bud_year = y\<rparr>"
    let ?s = "s\<lparr>budgets := budgets s @ [?b], seq_budget := seq_budget s + 1\<rparr>"
    have "budget_allowed s ?b" using False kn by (auto simp: budget_allowed_def category_known_def k bud_key_def image_iff)
    then have "upsert_put (k, v) s = Inr ?s"
      using get_by_category_period_cases(1) [OF ok, of c m y] False
      by (simp add: upsert_put_def upsert_def create_budget_def k Let_def)
    with plan_add [OF ok, of ?b ?s] False show ?thesis
      by (simp add: category_known_def fun_eq_iff bud_key_def k)
  qed
qed


definition ex_entry_of :: "int \<Rightarrow> decimal \<Rightarrow> int \<Rightarrow> budget_create" where
  "ex_entry_of c amount m = \<lparr>bc_category_id = c, bc_amount = amount, bc_month = m, bc_year = 2026\<rparr>"

definition ex_budget_db :: db where
  "ex_budget_db = ex_tree_db\<lparr>budgets := [\<lparr>bud_id = 1, bud_category_id = 3, bud_amount = 400, bud_month = 1,
     bud_year = 2026\<rparr>], seq_budget := 2\<rparr>"

lemma ex_budget_db_ok: "budgets_ok ex_budget_db"
  by (simp add: budgets_ok_def ids_ok_def ex_budget_db_def)


lemma copy_rows_puts:
  assumes "\<forall>b \<in> set bs. 0 < bud_amount b \<and> cents (bud_amount b)" and "1 \<le> m" "m \<le> 12" "2000 \<le> y" "y \<le> 2100"
    and "efold upsert_put (map (\<lambda>b. ((bud_category_id b, m, y), bud_amount b)) bs) s = Inr s'"
  shows "copy_rows bs y m n s = (Inr (n + length bs), s')"
  using assms
proof (induction bs arbitrary: n s)
  case (Cons b bs)
  then obtain s1 where "upsert_put ((bud_category_id b, m, y), bud_amount b) s = Inr s1"
    and rest: "efold upsert_put (map (\<lambda>b. ((bud_category_id b, m, y), bud_amount b)) bs) s1 = Inr s'"
    by (auto simp: ebind_Inr_iff)
  then obtain x where "upsert \<lparr>bc_category_id = bud_category_id b, bc_amount = bud_amount b, bc_month = m,
      bc_year = y\<rparr> s = Inr (x, s1)" by (auto simp: upsert_put_def ebind_Inr_iff)
  with Cons rest show ?case by (simp add: budget_payload_def)
qed simp

lemma plan_of_Some:
  "budgets_ok s \<Longrightarrow> plan_of s k = Some a \<longleftrightarrow> (\<exists>b \<in> set (budgets s). bud_key b = k \<and> bud_amount b = a)"
  by (subst plan_of_def, subst map_of_eq_Some_iff) (auto simp: budgets_ok_def comp_def)

lemma option_eqI: "(\<And>a. x = Some a \<longleftrightarrow> y = Some a) \<Longrightarrow> x = y"
  by (metis not_Some_eq)

lemma plan_of_None: "plan_of s k = None \<longleftrightarrow> (\<forall>b \<in> set (budgets s). bud_key b \<noteq> k)"
  by (auto simp: plan_of_def map_of_eq_None_iff image_image)

text \<open>
  Copying a month's plan forward refines a map operation: with valid amounts and a valid target month
  it writes into the target, for every category planned in the source month, the source amount, except
  that without \<open>overwrite\<close> a category already planned there keeps its amount; nothing else changes.
\<close>

lemma copy_forward_refines:
  assumes "budgets_ok s" and "\<forall>b \<in> set (budgets s). category_known s (bud_key b)"
    and "\<forall>b \<in> set (budgets s). 0 < bud_amount b \<and> cents (bud_amount b)"
    and "1 \<le> tm" "tm \<le> 12" "2000 \<le> ty" "ty \<le> 2100"
  shows "\<exists>n s'. copy_forward fy fm ty tm overwrite s = (Inr n, s') \<and> budgets_ok s' \<and>
    (\<forall>c m y. plan_of s' (c, m, y) =
      (if (m, y) = (tm, ty) \<and> plan_of s (c, fm, fy) \<noteq> None \<and> (overwrite \<or> plan_of s (c, tm, ty) = None)
       then plan_of s (c, fm, fy) else plan_of s (c, m, y)))"
proof -
  define src where "src = filter (\<lambda>b. overwrite \<or>
    bud_category_id b \<notin> set (map bud_category_id (list_for_month s ty tm))) (list_for_month s fy fm)"
  define kvs where "kvs = map (\<lambda>b. ((bud_category_id b, tm, ty), bud_amount b)) src"
  have src: "b \<in> set src \<longleftrightarrow> b \<in> set (budgets s) \<and> bud_year b = fy \<and> bud_month b = fm \<and>
      (overwrite \<or> plan_of s (bud_category_id b, tm, ty) = None)" for b
    unfolding plan_of_None by (fastforce simp: src_def list_for_month_def bud_key_def image_iff)
  have kn: "\<forall>kv \<in> set kvs. category_known s (fst kv)"
    using assms(2) src by (auto simp: kvs_def category_known_def bud_key_def)
  from upsert_store.puts [OF assms(1) kn] obtain s' where
    s': "efold upsert_put kvs s = Inr s'" "budgets_ok s'" "plan_of s' = plan_of s ++ map_of (rev kvs)" by blast
  have "copy_rows src ty tm 0 s = (Inr (0 + length src), s')"
    by (rule copy_rows_puts) (use assms(3-7) src s'(1) in \<open>auto simp: kvs_def\<close>)
  then have run: "copy_forward fy fm ty tm overwrite s = (Inr (length src), s')"
    by (auto simp: copy_forward_def src_def Let_def)
  have inj: "inj_on bud_category_id (set src)"
  proof (rule inj_onI)
    fix a b assume "a \<in> set src" "b \<in> set src" "bud_category_id a = bud_category_id b"
    then have "bud_key a = bud_key b" "a \<in> set (budgets s)" "b \<in> set (budgets s)"
      using src by (auto simp: bud_key_def)
    then show "a = b" using assms(1) by (auto simp: budgets_ok_def distinct_map inj_on_def)
  qed
  have "distinct (budgets s)" using assms(1) by (auto simp: budgets_ok_def distinct_map)
  then have "distinct src" by (simp add: src_def list_for_month_def)
  with inj have "distinct (map bud_category_id src)" by (simp add: distinct_map)
  then have dist: "distinct (map fst (rev kvs))"
    by (simp add: kvs_def rev_map [symmetric] comp_def distinct_map inj_on_def)
  have look: "map_of (rev kvs) (c, m, y) = Some a \<longleftrightarrow> (m, y) = (tm, ty) \<and> plan_of s (c, fm, fy) = Some a \<and>
      (overwrite \<or> plan_of s (c, tm, ty) = None)" for c m y a
    using map_of_eq_Some_iff [OF dist, of "(c, m, y)" a]
    by (auto simp: kvs_def src plan_of_Some [OF assms(1), of "(c, fm, fy)"] bud_key_def)
  have "plan_of s' (c, m, y) = (if (m, y) = (tm, ty) \<and> plan_of s (c, fm, fy) \<noteq> None \<and>
       (overwrite \<or> plan_of s (c, tm, ty) = None) then plan_of s (c, fm, fy) else plan_of s (c, m, y))" for c m y
  proof -
    have "map_of (rev kvs) (c, m, y) = (if (m, y) = (tm, ty) \<and> (overwrite \<or> plan_of s (c, tm, ty) = None)
        then plan_of s (c, fm, fy) else None)"
      by (rule option_eqI) (simp add: look conj_commute)
    then show ?thesis by (auto simp: s'(3) map_add_def split: option.split)
  qed
  with run s'(2) show ?thesis by blast
qed

lemma copy_forward_refines_witness:
  "\<exists>n s'. copy_forward 2026 1 2026 2 False ex_budget_db = (Inr n, s') \<and> plan_of s' (3, 2, 2026) = Some 400"
proof -
  have "\<forall>b \<in> set (budgets ex_budget_db). category_known ex_budget_db (bud_key b)"
    "\<forall>b \<in> set (budgets ex_budget_db). 0 < bud_amount b \<and> cents (bud_amount b)"
    by (simp_all add: category_known_def bud_key_def ex_budget_db_def ex_tree_db_def ex_cat_def fk_ok_def)
  moreover have "plan_of ex_budget_db (3, 1, 2026) = Some 400" "plan_of ex_budget_db (3, 2, 2026) = None"
    by (simp_all add: plan_of_def bud_key_def ex_budget_db_def)
  ultimately show ?thesis
    using copy_forward_refines [OF ex_budget_db_ok, of 2 2026 2026 1 False] by fastforce
qed

section \<open>The annual grid adds up\<close>

lemma fold_truthy:
  "fold (\<lambda>m t. if truthy (f m) then t + the (f m) else t) ms t = t + sum_list (map (\<lambda>m. get_or_0 (f m)) ms)"
  by (induction ms arbitrary: t) (auto simp: truthy_def get_or_0_def split: option.splits)

lemma add_month_row_map:
  "add_month_row bm c (map g months) = map (\<lambda>m. g m + get_or_0 (bm (c, m))) months"
  by (auto simp: add_month_row_def zip_map2 comp_def zip_same_conv_map truthy_def get_or_0_def split: option.splits)

lemma month_planned_totals_eq:
  "month_planned_totals bm cs = map (\<lambda>m. sum_list (map (\<lambda>c. get_or_0 (bm (c, m))) cs)) months"
proof -
  have "fold (add_month_row bm) cs (map g months) =
      map (\<lambda>m. g m + sum_list (map (\<lambda>c. get_or_0 (bm (c, m))) cs)) months" for g
    by (induction cs arbitrary: g) (simp_all add: add_month_row_map add.assoc)
  moreover have "replicate 12 (0 :: decimal) = map (\<lambda>m. 0) months" by (simp add: months_def map_replicate_const)
  ultimately show ?thesis by (simp add: month_planned_totals_def)
qed

lemma sum_list_swap:
  "sum_list (map (\<lambda>x. sum_list (map (f x) ys)) xs) = sum_list (map (\<lambda>y. sum_list (map (\<lambda>x. f x y) xs)) ys)"
  for f :: "'a \<Rightarrow> 'b \<Rightarrow> 'c::comm_monoid_add"
  by (induction xs) (simp_all add: sum_list_addf)

lemma sum_list_single:
  "distinct ms \<Longrightarrow> k \<in> set ms \<Longrightarrow> sum_list (map (\<lambda>m. if k = m then x else 0) ms) = (x :: 'a::comm_monoid_add)"
proof (induction ms)
  case (Cons m ms)
  have "sum_list (map (\<lambda>m. if k = m then x else 0) ms) = 0" if "k \<notin> set ms"
    using that by (induction ms) auto
  with Cons show ?case by auto
qed simp

text \<open>Grouping the rows by a key that takes each of the listed values once loses nothing.\<close>

lemma sum_list_partition:
  fixes f :: "'b \<Rightarrow> 'a::comm_monoid_add"
  assumes "distinct ms" and "\<forall>b \<in> set bs. g b \<in> set ms"
  shows "sum_list (map (\<lambda>m. sum_list (map f (filter (\<lambda>b. g b = m) bs))) ms) = sum_list (map f bs)"
  using assms(2)
proof (induction bs)
  case (Cons b bs)
  have "sum_list (map (\<lambda>m. sum_list (map f (filter (\<lambda>b. g b = m) (b # bs)))) ms) =
      sum_list (map (\<lambda>m. (if g b = m then f b else 0) + sum_list (map f (filter (\<lambda>b. g b = m) bs))) ms)"
    by (rule arg_cong [where f = sum_list]) auto
  also have "\<dots> = f b + sum_list (map f bs)"
    using Cons sum_list_single [OF assms(1), of "g b" "f b"] by (simp add: sum_list_addf)
  finally show ?case by simp
qed simp

definition two_levels :: "category list \<Rightarrow> bool" where
  "two_levels cs \<longleftrightarrow> distinct (map cat_id cs) \<and> (\<forall>c \<in> set cs. cat_id c \<noteq> 0 \<and>
    (case cat_parent_id c of None \<Rightarrow> True | Some p \<Rightarrow> \<exists>r \<in> set cs. cat_id r = p \<and> cat_parent_id r = None))"

lemma sort_with_children_sum:
  fixes h :: "category \<Rightarrow> 'a::comm_monoid_add"
  assumes "two_levels cs"
  shows "sum_list (map h (sort_with_children cs)) = sum_list (map h cs)"
proof -
  let ?roots = "filter (\<lambda>c. cat_parent_id c = None) cs"
  let ?kids = "filter (\<lambda>c. cat_parent_id c \<noteq> None) cs"
  let ?of = "\<lambda>p. filter (\<lambda>c. cat_parent_id c = Some (cat_id p)) ?kids"
  have nz: "filter (\<lambda>c. cat_parent_id c = Some (cat_id p) \<and> cat_parent_id c \<noteq> Some 0) cs = ?of p"
    if "p \<in> set cs" for p
    using that assms by (auto simp: two_levels_def intro!: filter_cong)
  have "sum_list (map h (sort_with_children cs)) =
      sum_list (map (\<lambda>p. h p + sum_list (map h (?of p))) (sort_key cat_name ?roots))"
    unfolding sort_with_children_def map_concat map_map comp_def
    by (subst sum_list_concat_map) (auto simp: comp_def nz sum_list_sort_key intro!: arg_cong [where f = sum_list])
  also have "\<dots> = sum_list (map h ?roots) + sum_list (map (\<lambda>p. sum_list (map h (?of p))) ?roots)"
    by (simp add: sum_list_sort_key sum_list_addf)
  also have "sum_list (map (\<lambda>p. sum_list (map h (?of p))) ?roots) =
      sum_list (map (\<lambda>k. sum_list (map h (filter (\<lambda>c. cat_parent_id c = k) ?kids))) (map (\<lambda>p. Some (cat_id p)) ?roots))"
    by (simp add: comp_def)
  also have "\<dots> = sum_list (map h ?kids)"
  proof (rule sum_list_partition)
    show "distinct (map (\<lambda>p. Some (cat_id p)) ?roots)"
      using assms by (auto simp: two_levels_def distinct_map inj_on_def)
    show "\<forall>y \<in> set ?kids. cat_parent_id y \<in> set (map (\<lambda>p. Some (cat_id p)) ?roots)"
      using assms by (fastforce simp: two_levels_def split: option.splits)
  qed
  also have "sum_list (map h ?roots) + sum_list (map h ?kids) = sum_list (map h cs)"
    by (induction cs) (auto simp: add.assoc add.left_commute)
  finally show ?thesis .
qed

lemma last_sort_Max: "(xs :: 'a::linorder list) \<noteq> [] \<Longrightarrow> last (sort (remdups xs)) = Max (set xs)"
proof -
  assume "xs \<noteq> []"
  then have ne: "sort (remdups xs) \<noteq> []" by (metis set_empty set_remdups set_sort)
  have "x \<le> last l" if "sorted l" "x \<in> set l" for l and x :: 'a
    using that by (induction l) auto
  then have "x \<le> last (sort (remdups xs))" if "x \<in> set xs" for x
    using that by simp
  moreover have "last (sort (remdups xs)) \<in> set xs" using last_in_set [OF ne] by simp
  ultimately show ?thesis by (intro Max_eqI [symmetric]) auto
qed

lemma get_or_0_budgets:
  assumes "budgets_ok s"
  shows "get_or_0 (budgets_to_map (list_for_year s y) (c, m)) =
    sum_list (map bud_amount (filter (\<lambda>b. bud_month b = m) (filter (\<lambda>b. bud_category_id b = c)
      (filter (\<lambda>b. bud_year b = y) (budgets s)))))"
proof -
  let ?bs = "filter (\<lambda>b. bud_year b = y) (budgets s)"
  let ?k = "\<lambda>b. (bud_category_id b, bud_month b)"
  have dist: "distinct (map bud_key (budgets s))" using assms by (simp add: budgets_ok_def)
  then have d: "distinct (map ?k ?bs)"
    by (auto simp: distinct_map bud_key_def inj_on_def)
  have d': "distinct (map ?k (rev (list_for_year s y)))"
    using d by (simp add: list_for_year_def distinct_map rev_map)
  have look: "budgets_to_map (list_for_year s y) k = Some a \<longleftrightarrow> (\<exists>b \<in> set ?bs. ?k b = k \<and> bud_amount b = a)" for k a
    using d' unfolding budgets_to_map_def rev_map
    by (subst map_of_eq_Some_iff) (auto simp: comp_def list_for_year_def)
  have fl: "filter (\<lambda>b. bud_month b = m) (filter (\<lambda>b. bud_category_id b = c) ?bs) = filter (\<lambda>b. ?k b = (c, m)) ?bs"
    unfolding filter_filter by (rule filter_cong) auto
  show ?thesis
  proof (cases "budgets_to_map (list_for_year s y) (c, m)")
    case None
    then have "filter (\<lambda>b. ?k b = (c, m)) ?bs = []"
      using look [of "(c, m)"] unfolding filter_empty_conv by (metis option.distinct(1))
    then show ?thesis using None fl by (simp add: get_or_0_def)
  next
    case (Some a)
    then obtain b where b: "b \<in> set ?bs" "?k b = (c, m)" "bud_amount b = a" using look by blast
    then show ?thesis using Some fl filter_key_unique [OF d b(1)] by (simp add: get_or_0_def)
  qed
qed

lemma get_or_0_spent:
  "get_or_0 (spent fs c) = sum_list (map cf_amount (filter (\<lambda>f. cf_category_id f = Some c) fs))"
proof (cases "Some c \<in> cf_category_id ` set fs")
  case False
  then have "filter (\<lambda>f. cf_category_id f = Some c) fs = []" by (force simp: filter_empty_conv)
  with False show ?thesis by (simp add: spent_def get_or_0_def)
qed (simp add: spent_def get_or_0_def)

text \<open>Summing cell by cell over a table of groups is summing over the rows that fall into it.\<close>

lemma table_sum:
  fixes f :: "'b \<Rightarrow> 'a::comm_monoid_add"
  assumes "distinct cs" and "distinct ms" and "\<forall>b \<in> set bs. h b \<in> set ms"
  shows "sum_list (map (\<lambda>c. sum_list (map (\<lambda>m. sum_list (map f (filter (\<lambda>b. h b = m) (filter (\<lambda>b. g b = c) bs)))) ms)) cs) =
    sum_list (map f (filter (\<lambda>b. g b \<in> set cs) bs))"
proof -
  have "sum_list (map (\<lambda>m. sum_list (map f (filter (\<lambda>b. h b = m) (filter (\<lambda>b. g b = c) bs)))) ms) =
      sum_list (map f (filter (\<lambda>b. g b = c) (filter (\<lambda>b. g b \<in> set cs) bs)))" if "c \<in> set cs" for c
  proof -
    have "filter (\<lambda>b. g b = c) (filter (\<lambda>b. g b \<in> set cs) bs) = filter (\<lambda>b. g b = c) bs"
      using that unfolding filter_filter by (intro filter_cong) auto
    then show ?thesis using assms(2,3) by (simp add: sum_list_partition del: filter_filter)
  qed
  then have "sum_list (map (\<lambda>c. sum_list (map (\<lambda>m. sum_list (map f (filter (\<lambda>b. h b = m) (filter (\<lambda>b. g b = c) bs)))) ms)) cs) =
      sum_list (map (\<lambda>c. sum_list (map f (filter (\<lambda>b. g b = c) (filter (\<lambda>b. g b \<in> set cs) bs)))) cs)"
    by (rule arg_cong [where f = sum_list, OF map_cong, OF refl])
  also have "\<dots> = sum_list (map f (filter (\<lambda>b. g b \<in> set cs) bs))"
    using assms(1) by (intro sum_list_partition) auto
  finally show ?thesis .
qed

definition grid_amount :: "month_map \<Rightarrow> category list \<Rightarrow> decimal" where
  "grid_amount mm cs = sum_list (map (\<lambda>c. sum_list (map (\<lambda>m. get_or_0 (mm (cat_id c, m))) months)) cs)"

lemma slice_totals:
  "yps_grand_planned (build_year_plan_slice y cs bm am prev refs) = grid_amount bm cs"
  "yps_grand_actual (build_year_plan_slice y cs bm am prev refs) = grid_amount am cs"
  "sum_list (map pcr_total_planned (yps_rows (build_year_plan_slice y cs bm am prev refs))) = grid_amount bm cs"
  "sum_list (map pcr_total_actual (yps_rows (build_year_plan_slice y cs bm am prev refs))) = grid_amount am cs"
proof -
  show "yps_grand_planned (build_year_plan_slice y cs bm am prev refs) = grid_amount bm cs"
    by (simp add: build_year_plan_slice_def Let_def month_planned_totals_eq grid_amount_def comp_def sum_list_swap [of _ months])
  have m: "map (\<lambda>i. g (months ! i)) [0..<12] = map g months" for g :: "int \<Rightarrow> decimal"
    by (rule nth_equalityI) (auto simp: months_def)
  have "map (\<lambda>i. sum_list (map (\<lambda>c. get_or_0 (am (cat_id c, months ! i))) cs)) [0..<12] =
      map (\<lambda>i. sum_list (map (\<lambda>c. get_or_0 (pmc_actual (map (month_cell bm am (cat_id c)) months ! i))) cs)) [0..<12]"
    by (intro map_cong arg_cong [where f = sum_list]) (auto simp: months_def month_cell_def Let_def)
  then show "yps_grand_actual (build_year_plan_slice y cs bm am prev refs) = grid_amount am cs"
    using m [of "\<lambda>m. sum_list (map (\<lambda>c. get_or_0 (am (cat_id c, m))) cs)"]
    by (simp add: build_year_plan_slice_def Let_def comp_def build_category_plan_row_def grid_amount_def
        sum_list_swap [of _ months])
qed (simp_all add: build_year_plan_slice_def Let_def comp_def build_category_plan_row_def fold_truthy grid_amount_def)

lemma two_levels_sorted:
  "two_levels cs \<Longrightarrow> grid_amount mm (sort_with_children cs) = grid_amount mm cs"
  unfolding grid_amount_def by (rule sort_with_children_sum)

lemma year_window: "Date y 1 1 \<le> d \<Longrightarrow> d \<le> Date y 12 31 \<Longrightarrow> d_month d \<in> set months"
  by (cases d) (auto simp: less_eq_date_def less_date_def months_def)

definition plan_months_ok :: "db \<Rightarrow> bool" where
  "plan_months_ok s \<longleftrightarrow> (\<forall>b \<in> set (budgets s). 1 \<le> bud_month b \<and> bud_month b \<le> 12)"

definition expense_ids :: "db \<Rightarrow> int list" where
  "expense_ids s = map cat_id (list_categories s (Some CAT_EXPENSE))"

lemma plan_grid_sums:
  assumes "load_annual_plan_grid s years = Inr g" and "budgets_ok s" and "plan_months_ok s"
    and "two_levels (list_categories s (Some CAT_EXPENSE))"
  shows "yps_grand_planned (apg_year_slice g) = sum_list (map pcr_total_planned (yps_rows (apg_year_slice g)))"
    and "yps_grand_planned (apg_year_slice g) =
      sum_list (map bud_amount (filter (\<lambda>b. bud_year b = Max (set years) \<and> bud_category_id b \<in> set (expense_ids s)) (budgets s)))"
    and "yps_grand_actual (apg_year_slice g) = sum_list (map pcr_total_actual (yps_rows (apg_year_slice g)))"
    and "yps_grand_actual (apg_year_slice g) =
      sum_list (map cf_amount (filter (\<lambda>f. \<exists>c \<in> set (expense_ids s). cf_category_id f = Some c)
        (expense_flows s (Date (Max (set years)) 1 1) (Date (Max (set years)) 12 31))))"
proof -
  let ?cs = "list_categories s (Some CAT_EXPENSE)"
  let ?y = "Max (set years)"
  let ?fs = "expense_flows s (Date ?y 1 1) (Date ?y 12 31)"
  from assms(1) have ne: "sort (remdups years) \<noteq> []"
    by (auto simp: load_annual_plan_grid_def split_plan_years_def Let_def raise_if_def)
  then have "years \<noteq> []" by auto
  note y = last_sort_Max [OF this]
  from assms(1) ne obtain am prev refs where am: "actuals_by_category_month s ?y = Inr am"
    and g: "apg_year_slice g = build_year_plan_slice ?y (sort_with_children ?cs)
      (budgets_to_map (list_for_year s ?y)) am prev refs"
    by (auto simp: load_annual_plan_grid_def split_plan_years_def Let_def ebind_Inr_iff raise_if_def y)
  have am: "am (c, m) = spent (filter (\<lambda>f. d_month (cf_date f) = m) ?fs) c" for c m
    using am by (auto simp: actuals_by_category_month_def ebind_Inr_iff mk_date_def split: if_splits)
  have ids: "distinct (map cat_id ?cs)" using assms(4) by (simp add: two_levels_def)
  have dm: "distinct months" by (simp add: months_def)
  show "yps_grand_planned (apg_year_slice g) = sum_list (map pcr_total_planned (yps_rows (apg_year_slice g)))"
    and "yps_grand_actual (apg_year_slice g) = sum_list (map pcr_total_actual (yps_rows (apg_year_slice g)))"
    by (simp_all add: g slice_totals)
  have "yps_grand_planned (apg_year_slice g) = grid_amount (budgets_to_map (list_for_year s ?y)) ?cs"
    by (simp add: g slice_totals two_levels_sorted assms(4))
  also have "\<dots> = sum_list (map bud_amount (filter (\<lambda>b. bud_category_id b \<in> set (map cat_id ?cs))
      (filter (\<lambda>b. bud_year b = ?y) (budgets s))))"
    using table_sum [OF ids dm, of "filter (\<lambda>b. bud_year b = ?y) (budgets s)" bud_month bud_amount bud_category_id] assms(3)
    by (simp add: grid_amount_def get_or_0_budgets [OF assms(2)] comp_def plan_months_ok_def months_def)
  finally show "yps_grand_planned (apg_year_slice g) =
      sum_list (map bud_amount (filter (\<lambda>b. bud_year b = ?y \<and> bud_category_id b \<in> set (expense_ids s)) (budgets s)))"
    by (simp add: expense_ids_def conj_commute)
  have "yps_grand_actual (apg_year_slice g) = grid_amount am ?cs"
    by (simp add: g slice_totals two_levels_sorted assms(4))
  also have "\<dots> = sum_list (map cf_amount (filter (\<lambda>f. cf_category_id f \<in> set (map (Some \<circ> cat_id) ?cs)) ?fs))"
  proof -
    have "distinct (map (Some \<circ> cat_id) ?cs)" using ids by (simp add: distinct_map inj_on_def)
    moreover have "\<forall>f \<in> set ?fs. d_month (cf_date f) \<in> set months"
      by (auto simp: expense_flows_def intro: year_window)
    moreover have "filter (\<lambda>f. cf_category_id f = Some c) (filter (\<lambda>f. d_month (cf_date f) = m) ?fs) =
        filter (\<lambda>f. d_month (cf_date f) = m) (filter (\<lambda>f. cf_category_id f = Some c) ?fs)" for c m
      by (simp add: conj_commute)
    ultimately show ?thesis
      using table_sum [of "map (Some \<circ> cat_id) ?cs" months ?fs "\<lambda>f. d_month (cf_date f)" cf_amount cf_category_id] dm
      by (simp add: grid_amount_def am get_or_0_spent comp_def del: filter_filter)
  qed
  finally show "yps_grand_actual (apg_year_slice g) =
      sum_list (map cf_amount (filter (\<lambda>f. \<exists>c \<in> set (expense_ids s). cf_category_id f = Some c) ?fs))"
    by (simp add: expense_ids_def comp_def image_iff)
qed



section \<open>Two corners\<close>

text \<open>The override mark of a cell asks for a uniform amount and a cell that differs from it.\<close>

lemma override_never_shown: "m \<in> set months \<Longrightarrow> \<not> pmc_is_override (month_cell bm am c m)"
proof
  let ?as = "map (\<lambda>m. bm (c, m)) months"
  assume m: "m \<in> set months" and "pmc_is_override (month_cell bm am c m)"
  then have one: "length (remdups ?as) = 1" and ne: "bm (c, m) \<noteq> hd ?as"
    by (auto simp: month_cell_def uniform_monthly_amount_def Let_def split: if_splits)
  from one obtain x where "remdups ?as = [x]" by (metis One_nat_def length_0_conv length_Suc_conv)
  then have "set ?as = {x}" by (metis empty_set list.simps(15) set_remdups)
  moreover have "bm (c, m) \<in> set ?as" using m by simp
  moreover have "hd ?as \<in> set ?as" using m by (intro hd_in_set) auto
  ultimately show False using ne by auto
qed

text \<open>The range of the last five years has no start on a 29 February.\<close>

lemma last_5_years_raises: "date_range_for_key ''last_5_years'' (Date 2028 2 29) = Inl ValueError"
  by code_simp

end
