(* ===== verification/Rules.thy ===== *)
theory Rules
  imports Categories
begin

text \<open>
  \<open>src/src/kaleta/services/rule_service.py\<close>: the rules that give an imported or typed transaction its
  category, and the offer to make one after repeated corrections.

  A rule is a row of \<open>cat_rules\<close>. \<open>RuleMatchMode\<close> has the single member \<open>CONTAINS\<close>, so the raises for
  other modes cannot be reached and the mode is not kept. The lemmas show which rule wins, what the
  writing operations keep of the table, and that an accepted offer does what it promised.
\<close>

section \<open>Definitions\<close>

definition suggestion_threshold :: nat where
  "suggestion_threshold = 4"

record rule_create =
  rlc_pattern :: string
  rlc_category_id :: int
  rlc_is_active :: bool
  rlc_priority :: int

text \<open>A field that was not sent is \<open>None\<close>, an explicit null \<open>Some None\<close>.\<close>

record rule_update =
  rlu_pattern :: "string option option"
  rlu_category_id :: "int option option"
  rlu_match_mode :: "unit option option"
  rlu_is_active :: "bool option option"
  rlu_priority :: "int option option"

record rule_suggestion =
  sg_pattern :: string
  sg_category_id :: int
  sg_category_name :: string
  sg_match_count :: nat

definition pattern_field_ok :: "string \<Rightarrow> bool" where
  "pattern_field_ok p \<longleftrightarrow> 1 \<le> length p \<and> length p \<le> 200"

definition rule_payload :: "string \<Rightarrow> int \<Rightarrow> bool \<Rightarrow> int \<Rightarrow> rule_create result" where
  "rule_payload p c active prio =
    raise_if (\<not> pattern_field_ok p) ValueError
      (Inr \<lparr>rlc_pattern = p, rlc_category_id = c, rlc_is_active = active, rlc_priority = prio\<rparr>)"

definition list_rules :: "bool \<Rightarrow> db \<Rightarrow> categorisation_rule list" where
  "list_rules active_only s =
    sort_key (\<lambda>r. (- rule_priority r, rule_id r)) (filter (\<lambda>r. active_only \<longrightarrow> rule_is_active r) (cat_rules s))"

definition get_rule :: "db \<Rightarrow> int \<Rightarrow> categorisation_rule option" where
  "get_rule s i = find_row rule_id i (cat_rules s)"

definition require_category :: "db \<Rightarrow> int \<Rightarrow> category result" where
  "require_category s c =
    (case get_category s c of
       None \<Rightarrow> Inl (NotFoundError ''errors.rule.category_not_found'') | Some x \<Rightarrow> Inr x)"

definition create_rule :: "rule_create \<Rightarrow> db \<Rightarrow> (categorisation_rule \<times> db) result" where
  "create_rule d s =
    (let p = strip (rlc_pattern d)
     in raise_if (p = []) (ValidationError ''errors.rule.pattern_empty'')
       (ebind (require_category s (rlc_category_id d)) (\<lambda>_.
        let r = \<lparr>rule_id = seq_rule s, rule_pattern = p, rule_category_id = rlc_category_id d,
                 rule_is_active = rlc_is_active d, rule_priority = rlc_priority d\<rparr>;
            s' = s\<lparr>cat_rules := cat_rules s @ [r], seq_rule := seq_rule s + 1\<rparr>
        in case get_rule s' (rule_id r) of
             None \<Rightarrow> Inl (KaletaError ''missing right after commit'') | Some loaded \<Rightarrow> Inr (loaded, s'))))"

definition checked_pattern :: "string option option \<Rightarrow> string option result" where
  "checked_pattern u =
    (case u of
       None \<Rightarrow> Inr None
     | Some v \<Rightarrow>
         let p = strip (case v of None \<Rightarrow> [] | Some x \<Rightarrow> x)
         in raise_if (p = []) (ValidationError ''errors.rule.pattern_empty'') (Inr (Some p)))"

definition checked_category :: "db \<Rightarrow> int option option \<Rightarrow> unit result" where
  "checked_category s u =
    (case u of Some (Some c) \<Rightarrow> ebind (require_category s c) (\<lambda>_. Inr ()) | _ \<Rightarrow> Inr ())"

text \<open>A null in a column that is not nullable is refused by the database.\<close>

definition update_rule :: "int \<Rightarrow> rule_update \<Rightarrow> db \<Rightarrow> (categorisation_rule \<times> db) result" where
  "update_rule i u s =
    (case get_rule s i of
       None \<Rightarrow> Inl (NotFoundError ''errors.rule.rule_not_found'')
     | Some r \<Rightarrow>
         ebind (checked_pattern (rlu_pattern u)) (\<lambda>p.
         ebind (checked_category s (rlu_category_id u)) (\<lambda>_.
         raise_if (rlu_category_id u = Some None \<or> rlu_match_mode u = Some None \<or> rlu_is_active u = Some None \<or>
             rlu_priority u = Some None) (IntegrityError ''categorisation_rules'')
         (let r' = patch (rlu_priority u) (\<lambda>v r. r\<lparr>rule_priority := the v\<rparr>)
                  (patch (rlu_is_active u) (\<lambda>v r. r\<lparr>rule_is_active := the v\<rparr>)
                  (patch (rlu_category_id u) (\<lambda>v r. r\<lparr>rule_category_id := the v\<rparr>)
                  (patch p (\<lambda>v r. r\<lparr>rule_pattern := v\<rparr>) r)));
              s' = s\<lparr>cat_rules := upd_row rule_id i (\<lambda>_. r') (cat_rules s)\<rparr>
          in case get_rule s' i of
               None \<Rightarrow> Inl (KaletaError ''missing right after update'') | Some loaded \<Rightarrow> Inr (loaded, s')))))"

definition delete_rule :: "int \<Rightarrow> db \<Rightarrow> bool \<times> db" where
  "delete_rule i s =
    (case get_rule s i of
       None \<Rightarrow> (False, s) | Some r \<Rightarrow> (True, s\<lparr>cat_rules := del_row rule_id i (cat_rules s)\<rparr>))"

definition rule_matches :: "string \<Rightarrow> string option \<Rightarrow> string \<Rightarrow> bool" where
  "rule_matches pattern payee_name description =
    (let needle = casefold pattern
     in if needle = [] then False
        else if (case payee_name of None \<Rightarrow> False | Some n \<Rightarrow> n \<noteq> [] \<and> contains needle (casefold n)) then True
        else description \<noteq> [] \<and> contains needle (casefold description))"

fun first_match :: "string option \<Rightarrow> string \<Rightarrow> categorisation_rule list \<Rightarrow> int option" where
  "first_match payee_name description [] = None"
| "first_match payee_name description (r # rs) =
    (if rule_matches (rule_pattern r) payee_name description then Some (rule_category_id r)
     else first_match payee_name description rs)"

definition match_category_id :: "string option \<Rightarrow> string \<Rightarrow> db \<Rightarrow> int option" where
  "match_category_id payee_name description s = first_match payee_name description (list_rules True s)"

definition candidate_pattern :: "string option \<Rightarrow> string \<Rightarrow> string option" where
  "candidate_pattern payee_name description =
    (case payee_name of
       Some n \<Rightarrow> if strip n \<noteq> [] then Some (strip n)
                 else if strip description = [] then None else Some (strip description)
     | None \<Rightarrow> if strip description = [] then None else Some (strip description))"

definition find_rule_by_pattern :: "string \<Rightarrow> db \<Rightarrow> categorisation_rule option" where
  "find_rule_by_pattern pattern s =
    find (\<lambda>r. casefold (rule_pattern r) = casefold pattern) (sort_key rule_id (cat_rules s))"

definition payee_name_of :: "db \<Rightarrow> transaction \<Rightarrow> string" where
  "payee_name_of s t =
    (case tx_payee_id t of
       None \<Rightarrow> [] | Some i \<Rightarrow> (case find_row pay_id i (payees s) of None \<Rightarrow> [] | Some p \<Rightarrow> pay_name p))"

definition count_matching_categorisations :: "string \<Rightarrow> int \<Rightarrow> db \<Rightarrow> nat" where
  "count_matching_categorisations pattern c s =
    length (filter (\<lambda>t. contains (casefold pattern) (casefold (payee_name_of s t)) \<or>
        contains (casefold pattern) (casefold (tx_description t)))
      (filter (\<lambda>t. tx_category_id t = Some c) (transactions s)))"

definition suggest_from_corrections :: "string option \<Rightarrow> string \<Rightarrow> int \<Rightarrow> db \<Rightarrow> rule_suggestion option" where
  "suggest_from_corrections payee_name description c s =
    (case candidate_pattern payee_name description of
       None \<Rightarrow> None
     | Some pattern \<Rightarrow>
         if find_rule_by_pattern pattern s \<noteq> None then None
         else let match_count = count_matching_categorisations pattern c s
              in if match_count < suggestion_threshold then None
                 else case get_category s c of
                        None \<Rightarrow> None
                      | Some x \<Rightarrow> Some \<lparr>sg_pattern = pattern, sg_category_id = c, sg_category_name = cat_name x,
                                        sg_match_count = match_count\<rparr>)"

section \<open>Which rule wins\<close>

definition beats :: "categorisation_rule \<Rightarrow> categorisation_rule \<Rightarrow> bool" where
  "beats r q \<longleftrightarrow> rule_priority q < rule_priority r \<or> (rule_priority q = rule_priority r \<and> rule_id r \<le> rule_id q)"

definition applicable :: "string option \<Rightarrow> string \<Rightarrow> db \<Rightarrow> categorisation_rule set" where
  "applicable payee_name description s =
    {r \<in> set (cat_rules s). rule_is_active r \<and> rule_matches (rule_pattern r) payee_name description}"

lemma first_match_None:
  "first_match p d rs = None \<longleftrightarrow> (\<forall>r \<in> set rs. \<not> rule_matches (rule_pattern r) p d)"
  by (induction rs) auto

lemma first_match_sorted:
  assumes "sorted (map f rs)" and "first_match p d rs = Some c"
  shows "\<exists>r \<in> set rs. rule_matches (rule_pattern r) p d \<and> rule_category_id r = c \<and>
    (\<forall>q \<in> set rs. rule_matches (rule_pattern q) p d \<longrightarrow> f r \<le> f q)"
  using assms by (induction rs) (auto split: if_splits)

lemma beats_key: "(- rule_priority r, rule_id r) \<le> (- rule_priority q, rule_id q) \<longleftrightarrow> beats r q"
  by (auto simp: beats_def less_eq_prod_def)

lemma beats_unique: "ids_ok rule_id nxt rs \<Longrightarrow> r \<in> set rs \<Longrightarrow> q \<in> set rs \<Longrightarrow> beats r q \<Longrightarrow> beats q r \<Longrightarrow> r = q"
  by (auto simp: beats_def ids_ok_def distinct_map inj_on_def)

lemma match_category_id_wins:
  assumes "ids_ok rule_id (seq_rule s) (cat_rules s)"
  shows "match_category_id p d s = Some c \<longleftrightarrow>
      (\<exists>r \<in> applicable p d s. rule_category_id r = c \<and> (\<forall>q \<in> applicable p d s. beats r q))"
    (is "?l = Some c \<longleftrightarrow> ?win c")
proof
  let ?rs = "list_rules True s"
  have set: "q \<in> applicable p d s \<longleftrightarrow> q \<in> set ?rs \<and> rule_matches (rule_pattern q) p d" for q
    by (auto simp: applicable_def list_rules_def)
  have srt: "sorted (map (\<lambda>r. (- rule_priority r, rule_id r)) ?rs)" by (simp add: list_rules_def)
  have win: "?win c" if "?l = Some c" for c
    using first_match_sorted [OF srt that [unfolded match_category_id_def], unfolded beats_key] set by blast
  show "?l = Some c \<Longrightarrow> ?win c" by (rule win)
  assume w: "?win c"
  then obtain r where r: "r \<in> applicable p d s" "rule_category_id r = c" "\<forall>q \<in> applicable p d s. beats r q" by blast
  have "?l \<noteq> None" using r(1) set by (auto simp: match_category_id_def first_match_None)
  then obtain c' where c': "?l = Some c'" by blast
  from win [OF this] obtain q where q: "q \<in> applicable p d s" "rule_category_id q = c'" "\<forall>x \<in> applicable p d s. beats q x"
    by blast
  have "r = q" using beats_unique [OF assms, of r q] r q by (auto simp: applicable_def)
  with c' r q show "?l = Some c" by simp
qed

lemma match_category_id_None: "match_category_id p d s = None \<longleftrightarrow> applicable p d s = {}"
  by (auto simp: match_category_id_def first_match_None applicable_def list_rules_def)

text \<open>
  C26. A text gets the category of the winning rule. \<open>match_category_id\<close> returns a category exactly when
  that category belongs to an active rule whose pattern occurs in the payee's name or the description
  and that beats every other such rule: a higher priority, or the same priority and the smaller id.
  It returns nothing exactly when no active rule matches.
\<close>

theorem match_category_id_exact:
  assumes "ids_ok rule_id (seq_rule s) (cat_rules s)"
  shows "(match_category_id p d s = Some c \<longleftrightarrow>
      (\<exists>r \<in> applicable p d s. rule_category_id r = c \<and> (\<forall>q \<in> applicable p d s. beats r q))) \<and>
    (match_category_id p d s = None \<longleftrightarrow> applicable p d s = {})"
  using match_category_id_wins [OF assms] match_category_id_None by blast

definition ex_rule :: "int \<Rightarrow> string \<Rightarrow> int \<Rightarrow> int \<Rightarrow> categorisation_rule" where
  "ex_rule i p c prio = \<lparr>rule_id = i, rule_pattern = p, rule_category_id = c, rule_is_active = True, rule_priority = prio\<rparr>"

definition ex_rule_db :: db where
  "ex_rule_db = ex_tree_db\<lparr>cat_rules := [ex_rule 1 ''shop'' 3 0, ex_rule 2 ''Fuel'' 2 5], seq_rule := 3\<rparr>"

theorem match_category_id_exact_witness:
  "match_category_id None ''FUEL SHOP'' ex_rule_db = Some 2 \<and>
   (\<exists>r \<in> applicable None ''FUEL SHOP'' ex_rule_db. rule_category_id r = 2 \<and>
     (\<forall>q \<in> applicable None ''FUEL SHOP'' ex_rule_db. beats r q))"
proof -
  have "match_category_id None ''FUEL SHOP'' ex_rule_db = Some 2" by code_simp
  moreover have "ids_ok rule_id (seq_rule ex_rule_db) (cat_rules ex_rule_db)"
    by (simp add: ids_ok_def ex_rule_db_def ex_rule_def)
  ultimately show ?thesis using match_category_id_exact [of ex_rule_db None "''FUEL SHOP''" 2] by blast
qed

section \<open>An accepted offer\<close>

lemma contains_iff: "contains n h \<longleftrightarrow> (\<exists>a b. h = a @ n @ b)"
proof (induction h)
  case (Cons c cs)
  have "take (length n) (c # cs) = n \<longleftrightarrow> (\<exists>b. c # cs = n @ b)" by (metis append_eq_conv_conj append_take_drop_id)
  with Cons show ?case by (auto simp: Cons_eq_append_conv)
qed simp

lemma strip_inside: "\<exists>a b. s = a @ strip s @ b"
proof -
  let ?r = "rev (dropWhile is_space s)"
  have "s = takeWhile is_space s @ dropWhile is_space s" by simp
  also have "dropWhile is_space s = strip s @ rev (takeWhile is_space ?r)"
    by (metis rev_append rev_rev_ident strip_def takeWhile_dropWhile_id)
  finally show ?thesis by metis
qed

lemma contains_strip: "contains (casefold (strip s)) (casefold s)"
proof -
  obtain a b where "s = a @ strip s @ b" using strip_inside by blast
  then have "casefold s = casefold a @ casefold (strip s) @ casefold b" by (metis casefold_def map_append)
  then show ?thesis unfolding contains_iff by blast
qed

lemma text_empty [simp]: "strip [] = []" "casefold s = [] \<longleftrightarrow> s = []"
  by (simp_all add: strip_def casefold_def)

lemma strip_strip: "strip (strip s) = strip s"
proof (cases "strip s = []")
  let ?r = "dropWhile is_space s"
  case ne: False
  then have r: "?r \<noteq> []" "dropWhile is_space (rev ?r) \<noteq> []" by (auto simp: strip_def dest: set_dropWhileD)
  have "?r = strip s @ rev (takeWhile is_space (rev ?r))"
    by (metis rev_append rev_rev_ident strip_def takeWhile_dropWhile_id)
  then have "hd (strip s) = hd ?r" using ne by (metis hd_append2)
  then have "\<not> is_space (hd (strip s))" using hd_dropWhile [OF r(1)] by simp
  moreover have "last (strip s) = hd (dropWhile is_space (rev ?r))" using r(2) by (simp add: strip_def last_rev)
  ultimately show ?thesis using hd_dropWhile [OF r(2)] by (intro strip_id) simp
qed (simp only: text_empty)


lemma candidate_matches: "candidate_pattern p d = Some x \<Longrightarrow> strip x = x \<and> x \<noteq> [] \<and> rule_matches x p d"
  by (auto simp: candidate_pattern_def rule_matches_def Let_def contains_strip strip_strip
      split: option.splits if_splits)

lemma create_rule_appends:
  assumes "strip (rlc_pattern d) \<noteq> []" and "get_category s (rlc_category_id d) \<noteq> None"
    and "ids_ok rule_id (seq_rule s) (cat_rules s)"
  shows "create_rule d s =
    (let r = \<lparr>rule_id = seq_rule s, rule_pattern = strip (rlc_pattern d), rule_category_id = rlc_category_id d,
              rule_is_active = rlc_is_active d, rule_priority = rlc_priority d\<rparr>
     in Inr (r, s\<lparr>cat_rules := cat_rules s @ [r], seq_rule := seq_rule s + 1\<rparr>))"
proof -
  have "find_row rule_id (seq_rule s) (cat_rules s) = None"
    using assms(3) by (auto simp: ids_ok_def find_row_None_iff)
  with assms(1,2) show ?thesis
    by (auto simp: create_rule_def Let_def require_category_def get_rule_def find_row_append)
qed

text \<open>
  An accepted offer does what it promised. When \<open>suggest_from_corrections\<close> offers a rule for a
  payee and a description, creating the offered rule succeeds and leaves the other rules as they are;
  the new rule applies to that payee and description, so that from then on they get a category, the
  offered one when no applicable rule has the priority of the new one or a higher one; and the offer
  is not made again, for any category.
\<close>

lemma accepted_suggestion_takes_effect:
  assumes "ids_ok rule_id (seq_rule s) (cat_rules s)"
    and "suggest_from_corrections p d c s = Some sg"
    and "rule_payload (sg_pattern sg) (sg_category_id sg) True prio = Inr payload"
  shows "\<exists>r s'. create_rule payload s = Inr (r, s') \<and> cat_rules s' = cat_rules s @ [r] \<and>
    applicable p d s' = insert r (applicable p d s) \<and> match_category_id p d s' \<noteq> None \<and>
    ((\<forall>q \<in> applicable p d s. rule_priority q < prio) \<longrightarrow> match_category_id p d s' = Some c) \<and>
    suggest_from_corrections p d c' s' = None"
proof -
  let ?x = "sg_pattern sg"
  define r where "r = \<lparr>rule_id = seq_rule s, rule_pattern = ?x, rule_category_id = c, rule_is_active = True, rule_priority = prio\<rparr>"
  define s' where "s' = s\<lparr>cat_rules := cat_rules s @ [r], seq_rule := seq_rule s + 1\<rparr>"
  from assms(2) have sg: "candidate_pattern p d = Some ?x" "sg_category_id sg = c" "get_category s c \<noteq> None"
    by (auto simp: suggest_from_corrections_def Let_def split: option.splits if_splits)
  note x = candidate_matches [OF sg(1)]
  have cr: "create_rule payload s = Inr (r, s')"
    using create_rule_appends [of payload s] assms(1,3) sg x
    by (auto simp: rule_payload_def raise_if_Inr_iff Let_def r_def s'_def)
  have rules: "cat_rules s' = cat_rules s @ [r]" "seq_rule s' = seq_rule s + 1" by (simp_all add: s'_def)
  have app: "applicable p d s' = insert r (applicable p d s)" using x by (auto simp: applicable_def rules r_def)
  have some: "match_category_id p d s' \<noteq> None" using app match_category_id_None [of p d s'] by simp
  have ids: "ids_ok rule_id (seq_rule s') (cat_rules s')" using assms(1) by (auto simp: ids_ok_def rules r_def)
  have win: "match_category_id p d s' = Some c" if "\<forall>q \<in> applicable p d s. rule_priority q < prio"
    unfolding match_category_id_wins [OF ids] app using that by (auto simp: beats_def r_def)
  have "r \<in> set (sort_key rule_id (cat_rules s'))" "casefold (rule_pattern r) = casefold ?x"
    by (simp_all add: rules r_def)
  then have "find_rule_by_pattern ?x s' \<noteq> None"
    unfolding find_rule_by_pattern_def find_None_iff by blast
  then have "suggest_from_corrections p d c' s' = None" using sg(1) by (simp add: suggest_from_corrections_def)
  with cr rules(1) app some win show ?thesis by blast
qed

definition ex_coffee_db :: db where
  "ex_coffee_db = ex_rule_db\<lparr>transactions := map (\<lambda>i. (ex_tx i 1 EXPENSE 12 (Date 2026 1 5))\<lparr>
     tx_description := ''Coffee bar'', tx_category_id := Some 3\<rparr>) [1, 2, 3, 4], seq_tx := 5\<rparr>"

lemma accepted_suggestion_takes_effect_witness:
  "\<exists>sg payload r s'. suggest_from_corrections None '' Coffee bar'' 3 ex_coffee_db = Some sg \<and>
     rule_payload (sg_pattern sg) (sg_category_id sg) True 0 = Inr payload \<and>
     create_rule payload ex_coffee_db = Inr (r, s') \<and>
     match_category_id None '' Coffee bar'' ex_coffee_db = None \<and>
     match_category_id None '' Coffee bar'' s' = Some 3 \<and>
     suggest_from_corrections None '' Coffee bar'' 3 s' = None"
proof -
  let ?sg = "\<lparr>sg_pattern = ''Coffee bar'', sg_category_id = 3, sg_category_name = ''Food'', sg_match_count = 4\<rparr>"
  let ?p = "\<lparr>rlc_pattern = ''Coffee bar'', rlc_category_id = 3, rlc_is_active = True, rlc_priority = 0\<rparr>"
  have ids: "ids_ok rule_id (seq_rule ex_coffee_db) (cat_rules ex_coffee_db)"
    by (simp add: ids_ok_def ex_coffee_db_def ex_rule_db_def ex_rule_def)
  have sg: "suggest_from_corrections None '' Coffee bar'' 3 ex_coffee_db = Some ?sg" by code_simp
  have none: "match_category_id None '' Coffee bar'' ex_coffee_db = None" by code_simp
  have p: "rule_payload (sg_pattern ?sg) (sg_category_id ?sg) True 0 = Inr ?p"
    by (simp add: rule_payload_def pattern_field_ok_def)
  from accepted_suggestion_takes_effect [OF ids sg p, of 3] obtain r s' where
    w: "create_rule ?p ex_coffee_db = Inr (r, s')" "suggest_from_corrections None '' Coffee bar'' 3 s' = None"
      "(\<forall>q \<in> applicable None '' Coffee bar'' ex_coffee_db. rule_priority q < 0) \<longrightarrow>
        match_category_id None '' Coffee bar'' s' = Some 3" by blast
  have "match_category_id None '' Coffee bar'' s' = Some 3" using w(3) none by (simp add: match_category_id_None)
  with sg p none w(1,2) show ?thesis by blast
qed

section \<open>An offer that cannot be accepted\<close>

lemma long_offer_is_refused:
  "\<exists>x. candidate_pattern None (replicate 201 CHR ''x'') = Some x \<and> rule_payload x c active prio = Inl ValueError"
proof -
  have "dropWhile is_space (replicate 201 CHR ''x'') = replicate 201 CHR ''x''" by code_simp
  then have "strip (replicate 201 CHR ''x'') = replicate 201 CHR ''x''" by (simp add: strip_def)
  then show ?thesis by (simp add: candidate_pattern_def rule_payload_def pattern_field_ok_def raise_if_def)
qed

end
