(* ===== verification/RateLimit.thy ===== *)
theory RateLimit
  imports Prelude
begin

text \<open>
  \<open>src/src/kaleta/auth/login_rate_limit.py\<close>: the counters of failed logins and second factors.

  \<open>LoginRateLimiter\<close> and \<open>SendThrottle\<close> work on an \<open>AttemptStore\<close>, a protocol with two
  implementations. The protocol is a record of operations, so that the limiter is written once as in
  the source; \<open>MemoryStore\<close> is one such record, \<open>RedisStore\<close> another, over the commands of a Redis
  server that are a parameter with their documented behaviour as the predicate \<open>redis_contract\<close>. What
  both stores promise is the locale \<open>store_contract\<close>, in terms of one cell per key: the live count with
  the end of its window and the lock still in force. The limiter's lemmas are proved once inside it.

  Times are wall-clock seconds. They are floats in the source; \<open>now + window\<close> and \<open>until - now\<close> are
  exact there for clock readings below \<open>2 ^ 31\<close> and the windows of the program, so that rationals model them.
\<close>

section \<open>Definitions\<close>

subsection \<open>The protocol and the store in memory\<close>

record 'st attempt_store =
  as_add_failure :: "string \<Rightarrow> rat \<Rightarrow> rat \<Rightarrow> 'st \<Rightarrow> int \<times> 'st"
  as_reset_failures :: "string \<Rightarrow> 'st \<Rightarrow> 'st"
  as_lock :: "string \<Rightarrow> rat \<Rightarrow> rat \<Rightarrow> 'st \<Rightarrow> 'st"
  as_locked_until :: "string \<Rightarrow> rat \<Rightarrow> 'st \<Rightarrow> rat"
  as_clear :: "string \<Rightarrow> 'st \<Rightarrow> 'st"

record attempt_counter =
  ct_failures :: int
  ct_expires_at :: rat

record memory_store =
  ms_counters :: "string \<rightharpoonup> attempt_counter"
  ms_locks :: "string \<rightharpoonup> rat"

definition mem_add_failure :: "string \<Rightarrow> rat \<Rightarrow> rat \<Rightarrow> memory_store \<Rightarrow> int \<times> memory_store" where
  "mem_add_failure key window now st =
    (let counter = (case ms_counters st key of
             None \<Rightarrow> \<lparr>ct_failures = 0, ct_expires_at = now + window\<rparr>
           | Some c \<Rightarrow> if now \<ge> ct_expires_at c then \<lparr>ct_failures = 0, ct_expires_at = now + window\<rparr> else c);
         counter' = counter\<lparr>ct_failures := ct_failures counter + 1\<rparr>
     in (ct_failures counter', st\<lparr>ms_counters := (ms_counters st)(key \<mapsto> counter')\<rparr>))"

definition mem_reset_failures :: "string \<Rightarrow> memory_store \<Rightarrow> memory_store" where
  "mem_reset_failures key st = st\<lparr>ms_counters := (ms_counters st)(key := None)\<rparr>"

definition mem_lock :: "string \<Rightarrow> rat \<Rightarrow> rat \<Rightarrow> memory_store \<Rightarrow> memory_store" where
  "mem_lock key until now st = st\<lparr>ms_locks := (ms_locks st)(key \<mapsto> until)\<rparr>"

definition mem_locked_until :: "string \<Rightarrow> rat \<Rightarrow> memory_store \<Rightarrow> rat" where
  "mem_locked_until key clock st = (case ms_locks st key of None \<Rightarrow> 0 | Some u \<Rightarrow> u)"

definition mem_clear :: "string \<Rightarrow> memory_store \<Rightarrow> memory_store" where
  "mem_clear key st =
    st\<lparr>ms_counters := (ms_counters st)(key := None), ms_locks := (ms_locks st)(key := None)\<rparr>"

definition memory_ops :: "memory_store attempt_store" where
  "memory_ops = \<lparr>as_add_failure = mem_add_failure, as_reset_failures = mem_reset_failures,
     as_lock = mem_lock, as_locked_until = mem_locked_until, as_clear = mem_clear\<rparr>"

definition empty_memory :: memory_store where
  "empty_memory = \<lparr>ms_counters = (\<lambda>_. None), ms_locks = (\<lambda>_. None)\<rparr>"

subsection \<open>The store in Redis\<close>

text \<open>
  The commands the store sends. Every command is given the server's clock; \<open>TTL\<close> answers \<open>-1\<close> for a key
  without expiry. The lock's value is \<open>repr(until)\<close>, read back by \<open>float\<close>, which is the identity.
\<close>

record 'r redis =
  r_incr :: "string \<Rightarrow> rat \<Rightarrow> 'r \<Rightarrow> int \<times> 'r"
  r_ttl :: "string \<Rightarrow> rat \<Rightarrow> 'r \<Rightarrow> int"
  r_expire :: "string \<Rightarrow> int \<Rightarrow> rat \<Rightarrow> 'r \<Rightarrow> 'r"
  r_set :: "string \<Rightarrow> rat \<Rightarrow> int \<Rightarrow> rat \<Rightarrow> 'r \<Rightarrow> 'r"
  r_get :: "string \<Rightarrow> rat \<Rightarrow> 'r \<Rightarrow> rat option"
  r_delete :: "string list \<Rightarrow> 'r \<Rightarrow> 'r"

text \<open>Python's \<open>int\<close> of a float.\<close>

definition py_int :: "rat \<Rightarrow> int" where
  "py_int x = (if 0 \<le> x then \<lfloor>x\<rfloor> else \<lceil>x\<rceil>)"

definition redis_prefix :: "string \<Rightarrow> string" where
  "redis_prefix namespace = ''kaleta:'' @ namespace @ '':''"

definition count_key :: "string \<Rightarrow> string \<Rightarrow> string" where
  "count_key ns key = redis_prefix ns @ key"

definition lock_key :: "string \<Rightarrow> string \<Rightarrow> string" where
  "lock_key ns key = redis_prefix ns @ key @ '':lock''"

definition redis_add_failure :: "'r redis \<Rightarrow> string \<Rightarrow> string \<Rightarrow> rat \<Rightarrow> rat \<Rightarrow> 'r \<Rightarrow> int \<times> 'r" where
  "redis_add_failure r ns key window now st =
    (let name = count_key ns key;
         (count, st1) = r_incr r name now st;
         ttl = r_ttl r name now st1
     in (count, if ttl = - 1 then r_expire r name (max 1 (py_int window)) now st1 else st1))"

definition redis_lock :: "'r redis \<Rightarrow> string \<Rightarrow> string \<Rightarrow> rat \<Rightarrow> rat \<Rightarrow> 'r \<Rightarrow> 'r" where
  "redis_lock r ns key until now st =
    r_set r (lock_key ns key) until (max 1 (py_int (until - now) + 1)) now st"

definition redis_locked_until :: "'r redis \<Rightarrow> string \<Rightarrow> string \<Rightarrow> rat \<Rightarrow> 'r \<Rightarrow> rat" where
  "redis_locked_until r ns key clock st =
    (case r_get r (lock_key ns key) clock st of None \<Rightarrow> 0 | Some raw \<Rightarrow> raw)"

definition redis_ops :: "'r redis \<Rightarrow> string \<Rightarrow> 'r attempt_store" where
  "redis_ops r ns = \<lparr>as_add_failure = redis_add_failure r ns,
     as_reset_failures = (\<lambda>key. r_delete r [count_key ns key]),
     as_lock = redis_lock r ns, as_locked_until = redis_locked_until r ns,
     as_clear = (\<lambda>key. r_delete r [count_key ns key, lock_key ns key])\<rparr>"

subsection \<open>The limiter\<close>

record limiter =
  lim_max_failures :: int
  lim_window :: rat

definition login_rate_limiter :: limiter where
  "login_rate_limiter = \<lparr>lim_max_failures = 5, lim_window = 15 * 60\<rparr>"

definition is_locked :: "'st attempt_store \<Rightarrow> string \<Rightarrow> rat \<Rightarrow> 'st \<Rightarrow> bool" where
  "is_locked ops key now st \<longleftrightarrow> now < as_locked_until ops key now st"

definition remaining_lock_seconds :: "'st attempt_store \<Rightarrow> string \<Rightarrow> rat \<Rightarrow> 'st \<Rightarrow> int" where
  "remaining_lock_seconds ops key now st = max 0 (py_int (as_locked_until ops key now st - now))"

definition record_failure :: "limiter \<Rightarrow> 'st attempt_store \<Rightarrow> string \<Rightarrow> rat \<Rightarrow> 'st \<Rightarrow> bool \<times> 'st" where
  "record_failure cfg ops key now st =
    (if is_locked ops key now st then (True, st)
     else let (failures, st1) = as_add_failure ops key (lim_window cfg) now st
          in if failures \<ge> lim_max_failures cfg
             then (True, as_reset_failures ops key (as_lock ops key (now + lim_window cfg) now st1))
             else (False, st1))"

definition clear_limiter :: "'st attempt_store \<Rightarrow> string \<Rightarrow> 'st \<Rightarrow> 'st" where
  "clear_limiter ops key st = as_clear ops key st"

subsection \<open>The throttle\<close>

definition allow :: "rat \<Rightarrow> 'st attempt_store \<Rightarrow> string \<Rightarrow> rat \<Rightarrow> 'st \<Rightarrow> bool \<times> 'st" where
  "allow interval ops key now st =
    (if now < as_locked_until ops key now st then (False, st)
     else (True, as_lock ops key (now + interval) now st))"

definition retry_after_seconds :: "'st attempt_store \<Rightarrow> string \<Rightarrow> rat \<Rightarrow> 'st \<Rightarrow> int" where
  "retry_after_seconds ops key now st = max 0 (py_int (as_locked_until ops key now st - now))"

definition mark :: "rat \<Rightarrow> 'st attempt_store \<Rightarrow> string \<Rightarrow> rat \<Rightarrow> 'st \<Rightarrow> 'st" where
  "mark interval ops key now st = as_lock ops key (now + interval) now st"

subsection \<open>Sequences of calls\<close>

datatype limiter_call = Is_locked | Remaining | Failure | Clear

datatype answer = Flag bool | Seconds int | Done

definition limiter_step ::
  "limiter \<Rightarrow> 'st attempt_store \<Rightarrow> limiter_call \<Rightarrow> string \<Rightarrow> rat \<Rightarrow> 'st \<Rightarrow> answer \<times> 'st" where
  "limiter_step cfg ops c key now st =
    (case c of
       Is_locked \<Rightarrow> (Flag (is_locked ops key now st), st)
     | Remaining \<Rightarrow> (Seconds (remaining_lock_seconds ops key now st), st)
     | Failure \<Rightarrow> (case record_failure cfg ops key now st of (b, st') \<Rightarrow> (Flag b, st'))
     | Clear \<Rightarrow> (Done, clear_limiter ops key st))"

fun answers :: "limiter \<Rightarrow> 'st attempt_store \<Rightarrow> (rat \<times> string \<times> limiter_call) list \<Rightarrow> 'st \<Rightarrow> answer list" where
  "answers cfg ops [] st = []"
| "answers cfg ops ((now, key, c) # es) st =
    (case limiter_step cfg ops c key now st of (a, st') \<Rightarrow> a # answers cfg ops es st')"

text \<open>
  Wrong passwords at the given times: the login page asks \<open>is_locked\<close> first and checks the password only
  when the key is free. \<open>admitted\<close> are the attempts at which a password was tried.
\<close>

fun admitted :: "limiter \<Rightarrow> 'st attempt_store \<Rightarrow> (rat \<times> string) list \<Rightarrow> 'st \<Rightarrow> (rat \<times> string) list" where
  "admitted cfg ops [] st = []"
| "admitted cfg ops ((now, key) # es) st =
    (if is_locked ops key now st then admitted cfg ops es st
     else (now, key) # admitted cfg ops es (snd (record_failure cfg ops key now st)))"

fun sent :: "rat \<Rightarrow> 'st attempt_store \<Rightarrow> (rat \<times> string) list \<Rightarrow> 'st \<Rightarrow> (rat \<times> string) list" where
  "sent interval ops [] st = []"
| "sent interval ops ((now, key) # es) st =
    (case allow interval ops key now st of
       (ok, st') \<Rightarrow> (if ok then [(now, key)] else []) @ sent interval ops es st')"

definition in_order :: "rat \<Rightarrow> (rat \<times> 'a) list \<Rightarrow> bool" where
  "in_order start es \<longleftrightarrow> sorted (start # map fst es)"

section \<open>The contract of a store\<close>

text \<open>
  A cell is what a store knows of a key at a time: the failures of the running window with its end, and
  the end of the lock in force. Both run out with time.
\<close>

type_synonym cell = "(int \<times> rat) option \<times> rat option"

definition alive :: "('a \<Rightarrow> rat) \<Rightarrow> rat \<Rightarrow> 'a option \<Rightarrow> 'a option" where
  "alive f t x = (case x of None \<Rightarrow> None | Some y \<Rightarrow> if t < f y then Some y else None)"

definition age :: "rat \<Rightarrow> cell \<Rightarrow> cell" where
  "age t c = (alive snd t (fst c), alive (\<lambda>u. u) t (snd c))"

definition bump :: "rat \<Rightarrow> rat \<Rightarrow> (int \<times> rat) option \<Rightarrow> int \<times> rat" where
  "bump w t c = (case c of None \<Rightarrow> (1, t + w) | Some (n, e) \<Rightarrow> (n + 1, e))"

lemma alive_simps [simp]:
  "alive f t None = None"
  "alive f t (Some y) = (if t < f y then Some y else None)"
  by (simp_all add: alive_def)

lemma alive_later: "s \<le> t \<Longrightarrow> alive f t (alive f s x) = alive f t x"
  by (cases x) auto

lemma age_later: "s \<le> t \<Longrightarrow> age t (age s c) = age t c"
  by (simp add: age_def alive_later)

locale store_contract =
  fixes ops :: "'st attempt_store"
    and obs :: "'st \<Rightarrow> rat \<Rightarrow> string \<Rightarrow> cell"
    and fine :: "rat \<Rightarrow> 'st \<Rightarrow> bool"
    and ks :: "string set"
    and w :: rat
  assumes window: "0 < w"
    and fine_later: "fine a st \<Longrightarrow> a \<le> b \<Longrightarrow> fine b st"
    and obs_later: "fine a st \<Longrightarrow> a \<le> b \<Longrightarrow> k \<in> ks \<Longrightarrow> obs st b k = age b (obs st a k)"
    and locked_until: "fine a st \<Longrightarrow> k \<in> ks \<Longrightarrow>
      (case snd (obs st a k) of None \<Rightarrow> as_locked_until ops k a st \<le> a
       | Some u \<Rightarrow> a < u \<and> as_locked_until ops k a st = u)"
    and add_failure: "fine a st \<Longrightarrow> k \<in> ks \<Longrightarrow> as_add_failure ops k w a st = (n, st') \<Longrightarrow>
      n = fst (bump w a (fst (obs st a k))) \<and> fine a st' \<and>
      (\<forall>j \<in> ks. obs st' a j = (if j = k then (Some (bump w a (fst (obs st a k))), snd (obs st a k)) else obs st a j))"
    and reset_failures: "fine a st \<Longrightarrow> k \<in> ks \<Longrightarrow> fine a (as_reset_failures ops k st) \<and>
      (\<forall>j \<in> ks. obs (as_reset_failures ops k st) a j = (if j = k then (None, snd (obs st a k)) else obs st a j))"
    and lock: "fine a st \<Longrightarrow> k \<in> ks \<Longrightarrow> a < u \<Longrightarrow> fine a (as_lock ops k u a st) \<and>
      (\<forall>j \<in> ks. obs (as_lock ops k u a st) a j = (if j = k then (fst (obs st a k), Some u) else obs st a j))"
    and clear: "fine a st \<Longrightarrow> k \<in> ks \<Longrightarrow> fine a (as_clear ops k st) \<and>
      (\<forall>j \<in> ks. obs (as_clear ops k st) a j = (if j = k then (None, None) else obs st a j))"

text \<open>What the limiter answers and leaves, in terms of the cell of its key.\<close>

definition cell_failure :: "int \<Rightarrow> rat \<Rightarrow> rat \<Rightarrow> cell \<Rightarrow> bool \<times> cell" where
  "cell_failure m w t c =
    (if snd c \<noteq> None then (True, c)
     else let b = bump w t (fst c)
          in if m \<le> fst b then (True, (None, Some (t + w))) else (False, (Some b, None)))"

definition cell_step :: "int \<Rightarrow> rat \<Rightarrow> limiter_call \<Rightarrow> rat \<Rightarrow> cell \<Rightarrow> answer \<times> cell" where
  "cell_step m w c t x =
    (case c of
       Is_locked \<Rightarrow> (Flag (snd x \<noteq> None), x)
     | Remaining \<Rightarrow> (Seconds (case snd x of None \<Rightarrow> 0 | Some u \<Rightarrow> \<lfloor>u - t\<rfloor>), x)
     | Failure \<Rightarrow> (Flag (fst (cell_failure m w t x)), snd (cell_failure m w t x))
     | Clear \<Rightarrow> (Done, (None, None)))"

fun cell_answers ::
  "int \<Rightarrow> rat \<Rightarrow> (rat \<times> string \<times> limiter_call) list \<Rightarrow> (string \<Rightarrow> cell) \<Rightarrow> answer list" where
  "cell_answers m w [] s = []"
| "cell_answers m w ((t, k, c) # es) s =
    fst (cell_step m w c t (age t (s k))) # cell_answers m w es (s(k := snd (cell_step m w c t (age t (s k)))))"

fun cell_admitted :: "int \<Rightarrow> rat \<Rightarrow> rat list \<Rightarrow> cell \<Rightarrow> rat list" where
  "cell_admitted m w [] x = []"
| "cell_admitted m w (t # ts) x =
    (if snd (age t x) \<noteq> None then cell_admitted m w ts x
     else t # cell_admitted m w ts (snd (cell_failure m w t (age t x))))"

fun cell_sent :: "rat \<Rightarrow> rat list \<Rightarrow> rat option \<Rightarrow> rat list" where
  "cell_sent i [] h = []"
| "cell_sent i (t # ts) h =
    (if alive (\<lambda>u. u) t h \<noteq> None then cell_sent i ts h else t # cell_sent i ts (Some (t + i)))"

lemma in_order_Cons [simp]: "in_order a ((t, x) # es) \<longleftrightarrow> a \<le> t \<and> in_order t es"
  by (auto simp: in_order_def)

lemma in_order_later: "in_order b es \<Longrightarrow> a \<le> b \<Longrightarrow> in_order a es"
  by (auto simp: in_order_def intro: order_trans)

lemma py_int_nonpos: "x \<le> 0 \<Longrightarrow> py_int x \<le> 0"
  by (auto simp: py_int_def ceiling_le_iff)

context store_contract
begin

lemma is_locked_iff: "fine a st \<Longrightarrow> k \<in> ks \<Longrightarrow> is_locked ops k a st \<longleftrightarrow> snd (obs st a k) \<noteq> None"
  using locked_until [of a st k] by (auto simp: is_locked_def split: option.splits)

lemma remaining_eq:
  assumes "fine a st" and "k \<in> ks"
  shows "remaining_lock_seconds ops k a st = (case snd (obs st a k) of None \<Rightarrow> 0 | Some u \<Rightarrow> \<lfloor>u - a\<rfloor>)"
  using locked_until [OF assms] py_int_nonpos [of "as_locked_until ops k a st - a"]
  by (auto simp: remaining_lock_seconds_def py_int_def split: option.splits)

lemma record_failure_effect:
  assumes "fine a st" and "k \<in> ks" and "lim_window cfg = w" and "record_failure cfg ops k a st = (b, st')"
  shows "b = fst (cell_failure (lim_max_failures cfg) w a (obs st a k)) \<and> fine a st' \<and>
    (\<forall>j \<in> ks. obs st' a j = (if j = k then snd (cell_failure (lim_max_failures cfg) w a (obs st a k)) else obs st a j))"
proof (cases "is_locked ops k a st")
  case True
  with assms is_locked_iff [of a st k] show ?thesis by (auto simp: record_failure_def cell_failure_def)
next
  case False
  with assms is_locked_iff [of a st k] have free: "snd (obs st a k) = None" by simp
  obtain n st1 where add: "as_add_failure ops k w a st = (n, st1)" by fastforce
  note st1 = add_failure [OF assms(1,2) add]
  show ?thesis
  proof (cases "lim_max_failures cfg \<le> n")
    case le: True
    let ?l = "as_lock ops k (a + w) a st1"
    have l: "fine a ?l" "\<forall>j \<in> ks. obs ?l a j = (if j = k then (fst (obs st1 a k), Some (a + w)) else obs st1 a j)"
      using lock [of a st1 k "a + w"] st1 assms(2) window by auto
    have "(b, st') = (True, as_reset_failures ops k ?l)"
      using assms(3,4) False add le by (simp add: record_failure_def)
    then show ?thesis
      using reset_failures [OF l(1) assms(2)] l(2) st1 assms(2) le free
      by (auto simp: cell_failure_def Let_def)
  next
    case gt: False
    have "(b, st') = (False, st1)" using assms(3,4) False add gt by (simp add: record_failure_def)
    then show ?thesis using st1 gt free assms(2) by (auto simp: cell_failure_def Let_def)
  qed
qed

lemma limiter_step_effect:
  assumes "fine a st" and "k \<in> ks" and "lim_window cfg = w" and "limiter_step cfg ops c k a st = (r, st')"
  shows "r = fst (cell_step (lim_max_failures cfg) w c a (obs st a k)) \<and> fine a st' \<and>
    (\<forall>j \<in> ks. obs st' a j = (if j = k then snd (cell_step (lim_max_failures cfg) w c a (obs st a k)) else obs st a j))"
proof (cases c)
  case Failure
  obtain b st1 where "record_failure cfg ops k a st = (b, st1)" by fastforce
  with record_failure_effect [OF assms(1-3) this] assms(4) Failure show ?thesis
    by (simp add: limiter_step_def cell_step_def)
qed (use assms in \<open>auto simp: limiter_step_def cell_step_def is_locked_iff remaining_eq clear_limiter_def clear\<close>)

lemma answers_eq:
  assumes "fine a st" and "in_order a es" and "\<forall>k \<in> ks. obs st a k = age a (s k)"
    and "\<forall>(t, k, c) \<in> set es. k \<in> ks" and "lim_window cfg = w"
  shows "answers cfg ops es st = cell_answers (lim_max_failures cfg) w es s"
  using assms
proof (induction es arbitrary: a st s)
  case (Cons e es)
  obtain t k c where e: "e = (t, k, c)" by (cases e)
  have t: "a \<le> t" "in_order t es" "k \<in> ks" using Cons.prems e by auto
  have ft: "fine t st" using fine_later Cons.prems(1) t(1) .
  have ob: "obs st t j = age t (s j)" if "j \<in> ks" for j
    using obs_later [OF Cons.prems(1) t(1) that] Cons.prems(3) that t(1) by (simp add: age_later)
  obtain r st' where r: "limiter_step cfg ops c k t st = (r, st')" by fastforce
  note eff = limiter_step_effect [OF ft t(3) Cons.prems(5) r]
  let ?s = "s(k := snd (cell_step (lim_max_failures cfg) w c t (age t (s k))))"
  have "obs st' t j = age t (?s j)" if "j \<in> ks" for j
  proof -
    have "fine t st'" using eff by blast
    from obs_later [OF this order_refl that] have "obs st' t j = age t (obs st' t j)" .
    then show ?thesis using eff ob t(3) that by (auto simp: age_later)
  qed
  with Cons.IH [of t st' ?s] eff t Cons.prems(4,5) ob show ?case by (simp add: e r fun_upd_def)
qed simp

lemma admitted_eq:
  assumes "fine a st" and "in_order a es" and "obs st a k = age a x"
    and "\<forall>(t, j) \<in> set es. j \<in> ks" and "lim_window cfg = w" and "k \<in> ks"
  shows "map fst (filter (\<lambda>e. snd e = k) (admitted cfg ops es st)) =
    cell_admitted (lim_max_failures cfg) w (map fst (filter (\<lambda>e. snd e = k) es)) x"
  using assms
proof (induction es arbitrary: a st x)
  case (Cons e es)
  obtain t j where e: "e = (t, j)" by (cases e)
  have t: "a \<le> t" "in_order t es" "j \<in> ks" using Cons.prems e by auto
  have ft: "fine t st" using fine_later Cons.prems(1) t(1) .
  have ob: "obs st t k = age t x"
    using obs_later [OF Cons.prems(1) t(1) Cons.prems(6)] Cons.prems(3) t(1) by (simp add: age_later)
  obtain b st' where r: "record_failure cfg ops j t st = (b, st')" by fastforce
  note eff = record_failure_effect [OF ft t(3) Cons.prems(5) r]
  have same: "obs st' t k = age t (obs st' t k)" using obs_later [of t st' t k] eff Cons.prems(6) by simp
  let ?x = "if j = k then snd (cell_failure (lim_max_failures cfg) w t (age t x)) else x"
  have "obs st' t k = age t ?x" using same eff ob Cons.prems(6) by (auto simp: age_later split: if_splits)
  note step = this
  have adm: "admitted cfg ops (e # es) st =
      (if snd (obs st t j) \<noteq> None then admitted cfg ops es st else e # admitted cfg ops es st')"
    using is_locked_iff [OF ft t(3)] by (simp add: e r)
  from Cons.IH [OF _ t(2) step] Cons.IH [OF ft t(2) ob] eff Cons.prems(4-6) ob show ?case
    unfolding adm by (cases "j = k") (auto simp: e)
qed simp

lemma sent_eq:
  assumes "fine a st" and "in_order a es" and "snd (obs st a k) = alive (\<lambda>u. u) a h"
    and "\<forall>(t, j) \<in> set es. j \<in> ks" and "0 < i" and "k \<in> ks"
  shows "map fst (filter (\<lambda>e. snd e = k) (sent i ops es st)) =
    cell_sent i (map fst (filter (\<lambda>e. snd e = k) es)) h"
  using assms
proof (induction es arbitrary: a st h)
  case (Cons e es)
  obtain t j where e: "e = (t, j)" by (cases e)
  have t: "a \<le> t" "in_order t es" "j \<in> ks" using Cons.prems e by auto
  have ft: "fine t st" using fine_later Cons.prems(1) t(1) .
  have ob: "snd (obs st t k) = alive (\<lambda>u. u) t h"
    using obs_later [OF Cons.prems(1) t(1) Cons.prems(6)] Cons.prems(3) t(1) by (simp add: age_def alive_later)
  have free: "t < as_locked_until ops j t st \<longleftrightarrow> snd (obs st t j) \<noteq> None"
    using is_locked_iff [OF ft t(3)] by (simp add: is_locked_def)
  let ?l = "as_lock ops j (t + i) t st"
  have l: "fine t ?l" "\<forall>m \<in> ks. obs ?l t m = (if m = j then (fst (obs st t j), Some (t + i)) else obs st t m)"
    using lock [OF ft t(3), of "t + i"] Cons.prems(5) by auto
  have "snd (obs ?l t k) = alive (\<lambda>u. u) t (if j = k then Some (t + i) else h)"
    using l(2) Cons.prems(5,6) ob by auto
  with Cons.IH [OF l(1) t(2)] Cons.IH [OF ft t(2) ob] Cons.prems(4-6) ob free show ?case
    by (auto simp: e allow_def)
qed simp

end

section \<open>How many passwords can be tried\<close>

definition cell_ok :: "int \<Rightarrow> cell \<Rightarrow> bool" where
  "cell_ok m x \<longleftrightarrow> (case fst x of None \<Rightarrow> True | Some (n, e) \<Rightarrow> 1 \<le> n \<and> n < m \<and> snd x = None)"

text \<open>The attempts a cell leaves open before a time \<open>b\<close> at most one window away.\<close>

definition room :: "int \<Rightarrow> rat \<Rightarrow> cell \<Rightarrow> int" where
  "room m b x =
    (case snd x of
       Some u \<Rightarrow> if b \<le> u then 0 else m
     | None \<Rightarrow> (case fst x of None \<Rightarrow> m | Some (n, e) \<Rightarrow> if b \<le> e then m - n else (m - n - 1) + m))"

lemma cell_ok_age: "cell_ok m x \<Longrightarrow> cell_ok m (age t x)"
  by (cases x) (auto simp: cell_ok_def age_def split: option.splits)

lemma cell_ok_failure: "cell_ok m x \<Longrightarrow> cell_ok m (snd (cell_failure m w t x))"
  by (cases x) (auto simp: cell_ok_def cell_failure_def bump_def Let_def split: option.splits)

lemma room_nonneg: "1 \<le> m \<Longrightarrow> cell_ok m x \<Longrightarrow> 0 \<le> room m b x"
  by (cases x) (auto simp: cell_ok_def room_def split: option.splits)

lemma room_most: "1 \<le> m \<Longrightarrow> cell_ok m x \<Longrightarrow> room m b x \<le> max m (2 * m - 2)"
  by (cases x) (auto simp: cell_ok_def room_def split: option.splits)

lemma room_age: "cell_ok m x \<Longrightarrow> t < b \<Longrightarrow> room m b (age t x) \<le> room m b x"
  by (cases x) (auto simp: cell_ok_def room_def age_def split: option.splits)

lemma room_failure:
  "1 \<le> m \<Longrightarrow> cell_ok m x \<Longrightarrow> snd x = None \<Longrightarrow> b \<le> t + w \<Longrightarrow>
    1 + room m b (snd (cell_failure m w t x)) \<le> room m b x"
  by (cases x) (auto simp: cell_ok_def room_def cell_failure_def bump_def Let_def split: option.splits)

lemma cell_admitted_subset: "set (cell_admitted m w ts x) \<subseteq> set ts"
  by (induction m w ts x rule: cell_admitted.induct) auto

lemma admitted_room:
  assumes "1 \<le> m" and "cell_ok m x" and "sorted ts" and "\<forall>t \<in> set ts. a \<le> t"
  shows "int (length (filter (\<lambda>t. t < a + w) (cell_admitted m w ts x))) \<le> room m (a + w) x"
  using assms(2-4)
proof (induction ts arbitrary: x)
  case Nil
  then show ?case using room_nonneg assms(1) by simp
next
  case (Cons t ts)
  show ?case
  proof (cases "t < a + w")
    case False
    then have "filter (\<lambda>t. t < a + w) (cell_admitted m w (t # ts) x) = []"
      using cell_admitted_subset [of m w "t # ts" x] Cons.prems(2) by (fastforce simp: filter_empty_conv)
    then show ?thesis using room_nonneg [OF assms(1) Cons.prems(1)] by simp
  next
    case True
    note ok = cell_ok_age [OF Cons.prems(1), of t]
    have "1 + room m (a + w) (snd (cell_failure m w t (age t x))) \<le> room m (a + w) x"
      if "snd (age t x) = None"
      using room_failure [OF assms(1) ok that, of "a + w" t w] room_age [OF Cons.prems(1) True] Cons.prems(3) by simp
    then show ?thesis
      using Cons.IH [OF Cons.prems(1)] Cons.IH [OF cell_ok_failure [OF ok, of w t]] Cons.prems(2,3) True
      by fastforce
  qed
qed

lemma admitted_in_window:
  assumes "1 \<le> m" and "cell_ok m x" and "sorted ts"
  shows "int (length (filter (\<lambda>t. a \<le> t \<and> t < a + w) (cell_admitted m w ts x))) \<le> max m (2 * m - 2)"
  using assms(2,3)
proof (induction ts arbitrary: x)
  case (Cons t ts)
  show ?case
  proof (cases "a \<le> t")
    case True
    then have all: "\<forall>t \<in> set (t # ts). a \<le> t" using Cons.prems(2) by auto
    then have "filter (\<lambda>t. a \<le> t \<and> t < a + w) (cell_admitted m w (t # ts) x) =
        filter (\<lambda>t. t < a + w) (cell_admitted m w (t # ts) x)"
      using cell_admitted_subset [of m w "t # ts" x] by (intro filter_cong) auto
    then show ?thesis
      using admitted_room [OF assms(1) Cons.prems all, of w] room_most [OF assms(1) Cons.prems(1), of "a + w"] by simp
  next
    case False
    then show ?thesis
      using Cons.IH [OF Cons.prems(1)] Cons.IH [OF cell_ok_failure [OF cell_ok_age [OF Cons.prems(1)]]] Cons.prems(2)
      by simp
  qed
qed (use assms(1) in simp)

section \<open>The store in memory keeps the contract\<close>

definition mem_obs :: "memory_store \<Rightarrow> rat \<Rightarrow> string \<Rightarrow> cell" where
  "mem_obs st t k = age t (map_option (\<lambda>c. (ct_failures c, ct_expires_at c)) (ms_counters st k), ms_locks st k)"

interpretation mem: store_contract memory_ops mem_obs "\<lambda>a st. 0 \<le> a" UNIV "lim_window login_rate_limiter"
proof unfold_locales
  show "mem_obs st b k = age b (mem_obs st a k)" if "a \<le> b" for st a b k
    using that by (simp add: mem_obs_def age_later)
qed (auto simp: mem_obs_def age_def memory_ops_def mem_add_failure_def mem_reset_failures_def mem_lock_def
    mem_locked_until_def mem_clear_def bump_def Let_def login_rate_limiter_def split: option.splits)


text \<open>The bound is met: one early failure, three at the end of its window, then five more.\<close>

definition ex_guesses :: "(rat \<times> string) list" where
  "ex_guesses = map (\<lambda>t. (t, ''ip'')) [100, 997, 998, 999, 1000, 1001, 1002, 1003, 1004, 1005, 1500]"


section \<open>One mail per interval\<close>

lemma cell_sent_spacing:
  assumes "0 < i" and "sorted ts" and "\<forall>u. h = Some u \<longrightarrow> l + i \<le> u"
  shows "sorted_wrt (\<lambda>s t. s + i \<le> t) (cell_sent i ts h) \<and> set (cell_sent i ts h) \<subseteq> set ts \<and>
    (h \<noteq> None \<longrightarrow> (\<forall>t \<in> set (cell_sent i ts h). l + i \<le> t))"
  using assms(2,3)
proof (induction ts arbitrary: h l)
  case (Cons t ts)
  show ?case
  proof (cases "alive (\<lambda>u. u) t h = None")
    case True
    then have free: "h \<noteq> None \<Longrightarrow> l + i \<le> t" using Cons.prems(2) by (cases h) (auto split: if_splits)
    have "sorted_wrt (\<lambda>s t. s + i \<le> t) (cell_sent i ts (Some (t + i))) \<and> set (cell_sent i ts (Some (t + i))) \<subseteq> set ts \<and>
        (\<forall>x \<in> set (cell_sent i ts (Some (t + i))). t + i \<le> x)"
      using Cons.IH [of "Some (t + i)" t] Cons.prems(1) by simp
    then show ?thesis using True free assms(1) by force
  next
    case False
    then show ?thesis using Cons.IH [of h l] Cons.prems by auto
  qed
qed simp

text \<open>
  The resend button sends at most one mail a minute for an address: two mails that \<open>allow\<close> lets
  through for the same key, whatever the requests for it and for others, are at least the interval apart.
\<close>

lemma throttle_spaces_mails:
  assumes "in_order 0 es" and "0 < interval"
  shows "sorted_wrt (\<lambda>s t. s + interval \<le> t)
    (map fst (filter (\<lambda>e. snd e = key) (sent interval memory_ops es empty_memory)))"
proof -
  let ?ts = "map fst (filter (\<lambda>e. snd e = key) es)"
  have "map fst (filter (\<lambda>e. snd e = key) (sent interval memory_ops es empty_memory)) = cell_sent interval ?ts None"
    using mem.sent_eq [where a = 0 and st = empty_memory and es = es and k = key and h = None and i = interval] assms
    by (simp add: mem_obs_def empty_memory_def age_def)
  moreover have "sorted ?ts" using assms(1) by (simp add: in_order_def sorted_filter)
  ultimately show ?thesis using cell_sent_spacing [OF assms(2), of ?ts None] by simp
qed

lemma throttle_spaces_mails_witness:
  "sorted_wrt (\<lambda>s t. s + 60 \<le> t)
    (map fst (filter (\<lambda>e. snd e = ''a'') (sent 60 memory_ops [(0, ''a''), (30, ''a''), (45, ''b''), (60, ''a'')] empty_memory))) \<and>
   sent 60 memory_ops [(0, ''a''), (30, ''a''), (45, ''b''), (60, ''a'')] empty_memory = [(0, ''a''), (45, ''b''), (60, ''a'')]"
proof -
  have "in_order 0 [(0, ''a''), (30, ''a''), (45, ''b''), (60, ''a'')]"
    "sent 60 memory_ops [(0, ''a''), (30, ''a''), (45, ''b''), (60, ''a'')] empty_memory = [(0, ''a''), (45, ''b''), (60, ''a'')]"
    by code_simp+
  with throttle_spaces_mails [of "[(0, ''a''), (30, ''a''), (45, ''b''), (60, ''a'')]" 60 "''a''"] show ?thesis by simp
qed

section \<open>Redis keeps the same contract\<close>

text \<open>
  The documented behaviour of the commands, in terms of \<open>rv st t name\<close>: the value of a key at a clock
  reading with its expiry. A key is gone once its time to live has run out.
\<close>

type_synonym 'r redis_view = "'r \<Rightarrow> rat \<Rightarrow> string \<Rightarrow> (rat \<times> rat option) option"

definition expires :: "'r redis_view \<Rightarrow> bool" where
  "expires rv \<longleftrightarrow> (\<forall>st a b n. a \<le> b \<longrightarrow> rv st b n =
    (case rv st a n of Some (v, Some e) \<Rightarrow> if b < e then Some (v, Some e) else None | x \<Rightarrow> x))"

definition incr_counts :: "'r redis \<Rightarrow> 'r redis_view \<Rightarrow> bool" where
  "incr_counts r rv \<longleftrightarrow> (\<forall>st a n i e m. rv st a n \<in> {None, Some (of_int i, e)} \<longrightarrow>
    fst (r_incr r n a st) = (if rv st a n = None then 1 else i + 1) \<and>
    rv (snd (r_incr r n a st)) a m = (if m = n
      then (if rv st a n = None then Some (1, None) else Some (of_int (i + 1), e)) else rv st a m))"

definition ttl_tells :: "'r redis \<Rightarrow> 'r redis_view \<Rightarrow> bool" where
  "ttl_tells r rv \<longleftrightarrow> (\<forall>st a n v e. rv st a n = Some (v, e) \<longrightarrow> (r_ttl r n a st = - 1 \<longleftrightarrow> e = None))"

definition expire_sets :: "'r redis \<Rightarrow> 'r redis_view \<Rightarrow> bool" where
  "expire_sets r rv \<longleftrightarrow> (\<forall>st a n v e secs m. rv st a n = Some (v, e) \<and> 0 < secs \<longrightarrow>
    rv (r_expire r n secs a st) a m = (if m = n then Some (v, Some (a + of_int secs)) else rv st a m))"

definition set_stores :: "'r redis \<Rightarrow> 'r redis_view \<Rightarrow> bool" where
  "set_stores r rv \<longleftrightarrow> (\<forall>st a n v secs m. 0 < secs \<longrightarrow>
    rv (r_set r n v secs a st) a m = (if m = n then Some (v, Some (a + of_int secs)) else rv st a m))"

definition get_reads :: "'r redis \<Rightarrow> 'r redis_view \<Rightarrow> bool" where
  "get_reads r rv \<longleftrightarrow> (\<forall>st a n. r_get r n a st = map_option fst (rv st a n))"

definition delete_removes :: "'r redis \<Rightarrow> 'r redis_view \<Rightarrow> bool" where
  "delete_removes r rv \<longleftrightarrow>
    (\<forall>st a ns m. rv (r_delete r ns st) a m = (if m \<in> set ns then None else rv st a m))"

definition redis_contract :: "'r redis \<Rightarrow> 'r redis_view \<Rightarrow> bool" where
  "redis_contract r rv \<longleftrightarrow> expires rv \<and> incr_counts r rv \<and> ttl_tells r rv \<and> expire_sets r rv \<and>
    set_stores r rv \<and> get_reads r rv \<and> delete_removes r rv"

lemma redis_later:
  "redis_contract r rv \<Longrightarrow> a \<le> b \<Longrightarrow> rv st b n =
    (case rv st a n of Some (v, Some e) \<Rightarrow> if b < e then Some (v, Some e) else None | x \<Rightarrow> x)"
  unfolding redis_contract_def expires_def by blast

lemma redis_incr:
  assumes "redis_contract r rv" and "rv st a n \<in> {None, Some (of_int i, e)}" and "r_incr r n a st = (c, st')"
  shows "c = (if rv st a n = None then 1 else i + 1)"
    and "rv st' a m = (if m = n
      then (if rv st a n = None then Some (1, None) else Some (of_int (i + 1), e)) else rv st a m)"
proof -
  have "incr_counts r rv" using assms(1) by (simp add: redis_contract_def)
  from this [unfolded incr_counts_def, rule_format, OF assms(2), of m] assms(3)
  show "c = (if rv st a n = None then 1 else i + 1)"
    and "rv st' a m = (if m = n
      then (if rv st a n = None then Some (1, None) else Some (of_int (i + 1), e)) else rv st a m)" by simp_all
qed

lemma redis_ttl: "redis_contract r rv \<Longrightarrow> rv st a n = Some (v, e) \<Longrightarrow> r_ttl r n a st = - 1 \<longleftrightarrow> e = None"
  unfolding redis_contract_def ttl_tells_def by blast

lemma redis_expire:
  "redis_contract r rv \<Longrightarrow> rv st a n = Some (v, e) \<Longrightarrow> 0 < secs \<Longrightarrow>
    rv (r_expire r n secs a st) a m = (if m = n then Some (v, Some (a + of_int secs)) else rv st a m)"
  unfolding redis_contract_def expire_sets_def by blast

lemma redis_set:
  "redis_contract r rv \<Longrightarrow> 0 < secs \<Longrightarrow>
    rv (r_set r n u secs a st) a m = (if m = n then Some (u, Some (a + of_int secs)) else rv st a m)"
  unfolding redis_contract_def set_stores_def by blast

lemma redis_get: "redis_contract r rv \<Longrightarrow> r_get r n a st = map_option fst (rv st a n)"
  unfolding redis_contract_def get_reads_def by blast

lemma redis_delete: "redis_contract r rv \<Longrightarrow> rv (r_delete r ns st) a m = (if m \<in> set ns then None else rv st a m)"
  unfolding redis_contract_def delete_removes_def by blast

text \<open>What the store reads off the server, and the shape its own keys have.\<close>

definition redis_obs :: "'r redis_view \<Rightarrow> string \<Rightarrow> 'r \<Rightarrow> rat \<Rightarrow> string \<Rightarrow> cell" where
  "redis_obs rv ns st a k =
    (case rv st a (count_key ns k) of Some (v, Some e) \<Rightarrow> Some (\<lfloor>v\<rfloor>, e) | _ \<Rightarrow> None,
     alive (\<lambda>u. u) a (map_option fst (rv st a (lock_key ns k))))"

definition count_shape :: "(rat \<times> rat option) option \<Rightarrow> bool" where
  "count_shape x \<longleftrightarrow> x = None \<or> (\<exists>i e. x = Some (of_int i, Some e))"

definition lock_shape :: "(rat \<times> rat option) option \<Rightarrow> bool" where
  "lock_shape x \<longleftrightarrow> x = None \<or> (\<exists>u e. x = Some (u, Some e) \<and> u \<le> e)"

definition redis_fine :: "'r redis_view \<Rightarrow> string \<Rightarrow> string set \<Rightarrow> rat \<Rightarrow> 'r \<Rightarrow> bool" where
  "redis_fine rv ns ks a st \<longleftrightarrow> 0 \<le> a \<and>
    (\<forall>k \<in> ks. count_shape (rv st a (count_key ns k)) \<and> lock_shape (rv st a (lock_key ns k)))"

text \<open>The count of a key \<open>k:lock\<close> and the lock of \<open>k\<close> would share a name.\<close>

definition no_lock_suffix :: "string set \<Rightarrow> bool" where
  "no_lock_suffix ks \<longleftrightarrow> (\<forall>k \<in> ks. k @ '':lock'' \<notin> ks)"

lemma key_names [simp]:
  "count_key ns j = count_key ns k \<longleftrightarrow> j = k"
  "lock_key ns j = lock_key ns k \<longleftrightarrow> j = k"
  "no_lock_suffix ks \<Longrightarrow> j \<in> ks \<Longrightarrow> k \<in> ks \<Longrightarrow> count_key ns j \<noteq> lock_key ns k"
  "no_lock_suffix ks \<Longrightarrow> j \<in> ks \<Longrightarrow> k \<in> ks \<Longrightarrow> lock_key ns k \<noteq> count_key ns j"
  by (auto simp: count_key_def lock_key_def no_lock_suffix_def)

lemma py_int_bounds: "0 < x \<Longrightarrow> x < of_int (py_int x) + 1"
  by (simp add: py_int_def) linarith

lemma shapes_later:
  assumes "redis_contract r rv" and "a \<le> b"
  shows "count_shape (rv st a n) \<Longrightarrow> count_shape (rv st b n)" and "lock_shape (rv st a n) \<Longrightarrow> lock_shape (rv st b n)"
  using redis_later [OF assms, of st n] by (auto simp: count_shape_def lock_shape_def)

lemma redis_obs_later:
  assumes "redis_contract r rv" and "a \<le> b" and "redis_fine rv ns ks a st" and "k \<in> ks"
  shows "redis_obs rv ns st b k = age b (redis_obs rv ns st a k)"
proof -
  have "count_shape (rv st a (count_key ns k))" "lock_shape (rv st a (lock_key ns k))"
    using assms(3,4) by (simp_all add: redis_fine_def)
  then show ?thesis
    using redis_later [OF assms(1,2), of st "count_key ns k"] redis_later [OF assms(1,2), of st "lock_key ns k"] assms(2)
    by (auto simp: redis_obs_def age_def count_shape_def lock_shape_def)
qed

lemma redis_add:
  assumes "redis_contract r rv" and "no_lock_suffix ks" and "0 < secs" and "redis_fine rv ns ks a st" and "k \<in> ks"
    and "redis_add_failure r ns k (of_int secs) a st = (n, st')"
  shows "n = fst (bump (of_int secs) a (fst (redis_obs rv ns st a k))) \<and>
    rv st' a m = (if m = count_key ns k
      then Some (of_int n, Some (snd (bump (of_int secs) a (fst (redis_obs rv ns st a k))))) else rv st a m)"
proof -
  let ?c = "count_key ns k"
  obtain st1 where inc: "r_incr r ?c a st = (n, st1)"
    using assms(6) by (auto simp: redis_add_failure_def Let_def split: prod.splits)
  have "count_shape (rv st a ?c)" using assms(4,5) by (simp add: redis_fine_def)
  then consider "rv st a ?c = None" | i e where "rv st a ?c = Some (of_int i, Some e)" by (auto simp: count_shape_def)
  then show ?thesis
  proof cases
    case 1
    have n: "n = 1" and st1: "rv st1 a j = (if j = ?c then Some (1, None) else rv st a j)" for j
      using redis_incr [OF assms(1) _ inc, of 0 None] 1 by simp_all
    have "st' = r_expire r ?c secs a st1"
      using assms(3,6) inc redis_ttl [OF assms(1), of st1 a ?c 1 None] st1
      by (auto simp: redis_add_failure_def Let_def py_int_def max_def)
    then show ?thesis
      using redis_expire [OF assms(1), of st1 a ?c 1 None secs m] assms(3) st1 n 1 by (simp add: redis_obs_def bump_def)
  next
    case 2
    have n: "n = i + 1" and st1: "rv st1 a j = (if j = ?c then Some (of_int (i + 1), Some e) else rv st a j)" for j
      using redis_incr [OF assms(1) _ inc, of i "Some e"] 2 by simp_all
    have "st' = st1"
      using assms(6) inc redis_ttl [OF assms(1), of st1 a ?c "of_int (i + 1)" "Some e"] st1
      by (auto simp: redis_add_failure_def Let_def)
    then show ?thesis using st1 n 2 by (simp add: redis_obs_def bump_def)
  qed
qed

lemma redis_is_store:
  assumes "redis_contract r rv" and "no_lock_suffix ks" and "0 < secs"
  shows "store_contract (redis_ops r ns) (redis_obs rv ns) (redis_fine rv ns ks) ks (of_int secs)"
proof
  show "0 < rat_of_int secs" using assms(3) by simp
  show "redis_fine rv ns ks b st" if "redis_fine rv ns ks a st" "a \<le> b" for a b st
    using that shapes_later [OF assms(1) that(2)] by (simp add: redis_fine_def)
  show "redis_obs rv ns st b k = age b (redis_obs rv ns st a k)" if "redis_fine rv ns ks a st" "a \<le> b" "k \<in> ks" for a b st k
    using redis_obs_later [OF assms(1) that(2,1,3)] .
  show "case snd (redis_obs rv ns st a k) of None \<Rightarrow> as_locked_until (redis_ops r ns) k a st \<le> a
      | Some u \<Rightarrow> a < u \<and> as_locked_until (redis_ops r ns) k a st = u"
    if "redis_fine rv ns ks a st" "k \<in> ks" for a st k
    using that by (auto simp: redis_obs_def redis_fine_def redis_ops_def redis_locked_until_def redis_get [OF assms(1)]
        split: option.splits if_splits)
  show "redis_fine rv ns ks a (as_reset_failures (redis_ops r ns) k st) \<and>
      (\<forall>j \<in> ks. redis_obs rv ns (as_reset_failures (redis_ops r ns) k st) a j =
        (if j = k then (None, snd (redis_obs rv ns st a k)) else redis_obs rv ns st a j))"
    if "redis_fine rv ns ks a st" "k \<in> ks" for a st k
    using that assms(2) by (auto simp: redis_obs_def redis_fine_def redis_ops_def redis_delete [OF assms(1)] count_shape_def)
  show "redis_fine rv ns ks a (as_clear (redis_ops r ns) k st) \<and>
      (\<forall>j \<in> ks. redis_obs rv ns (as_clear (redis_ops r ns) k st) a j =
        (if j = k then (None, None) else redis_obs rv ns st a j))"
    if "redis_fine rv ns ks a st" "k \<in> ks" for a st k
    using that assms(2)
    by (auto simp: redis_obs_def redis_fine_def redis_ops_def redis_delete [OF assms(1)] count_shape_def lock_shape_def)
  show "redis_fine rv ns ks a (as_lock (redis_ops r ns) k u a st) \<and>
      (\<forall>j \<in> ks. redis_obs rv ns (as_lock (redis_ops r ns) k u a st) a j =
        (if j = k then (fst (redis_obs rv ns st a k), Some u) else redis_obs rv ns st a j))"
    if "redis_fine rv ns ks a st" "k \<in> ks" "a < u" for a st k u
  proof -
    let ?secs = "max 1 (py_int (u - a) + 1)"
    have "u \<le> a + of_int ?secs" using py_int_bounds [of "u - a"] that(3) by (auto simp: max_def)
    then show ?thesis
      using that assms(2) redis_set [OF assms(1), of ?secs]
      by (auto simp: redis_obs_def redis_fine_def redis_ops_def redis_lock_def lock_shape_def)
  qed
  show "n = fst (bump (of_int secs) a (fst (redis_obs rv ns st a k))) \<and> redis_fine rv ns ks a st' \<and>
      (\<forall>j \<in> ks. redis_obs rv ns st' a j = (if j = k
        then (Some (bump (of_int secs) a (fst (redis_obs rv ns st a k))), snd (redis_obs rv ns st a k))
        else redis_obs rv ns st a j))"
    if "redis_fine rv ns ks a st" "k \<in> ks" "as_add_failure (redis_ops r ns) k (of_int secs) a st = (n, st')" for a st k n st'
  proof -
    let ?b = "bump (of_int secs) a (fst (redis_obs rv ns st a k))"
    have "redis_add_failure r ns k (of_int secs) a st = (n, st')" using that(3) by (simp add: redis_ops_def)
    note new = redis_add [OF assms that(1,2) this]
    then have eq: "(n, snd ?b) = ?b" by simp
    have "redis_fine rv ns ks a st'"
      using new that(1,2) assms(2) by (auto simp: redis_fine_def count_shape_def)
    moreover have "redis_obs rv ns st' a j = (if j = k then (Some (n, snd ?b), snd (redis_obs rv ns st a k))
        else redis_obs rv ns st a j)" if "j \<in> ks" for j
      using new that \<open>k \<in> ks\<close> assms(2) by (simp add: redis_obs_def)
    ultimately show ?thesis using new unfolding eq by blast
  qed
qed

definition fresh_server :: "'r redis_view \<Rightarrow> string \<Rightarrow> string set \<Rightarrow> 'r \<Rightarrow> bool" where
  "fresh_server rv ns ks st \<longleftrightarrow> (\<forall>k \<in> ks. rv st 0 (count_key ns k) = None \<and> rv st 0 (lock_key ns k) = None)"

text \<open>
  C23. Where the counts are kept does not change what a limiter answers. Over a Redis server that behaves
  as documented, the login limiter on \<open>RedisStore\<close> gives the same answer as the one on \<open>MemoryStore\<close> to
  every call of every sequence of calls in the order of time: the same locks, the same remaining
  seconds and the same failures counted, though the one drops a count by \<open>EXPIRE\<close> and the other by
  comparing times. No key may be another key followed by \<open>:lock\<close>, since their names would collide.
\<close>

theorem stores_agree:
  assumes "redis_contract r rv" and "fresh_server rv ns ks st" and "no_lock_suffix ks"
    and "in_order 0 es" and "\<forall>(t, k, c) \<in> set es. k \<in> ks"
  shows "answers login_rate_limiter (redis_ops r ns) es st = answers login_rate_limiter memory_ops es empty_memory"
proof -
  let ?w = "lim_window login_rate_limiter"
  have w: "?w = of_int 900" by (simp add: login_rate_limiter_def)
  have store: "store_contract (redis_ops r ns) (redis_obs rv ns) (redis_fine rv ns ks) ks ?w"
    unfolding w by (rule redis_is_store) (use assms in simp_all)
  have "redis_fine rv ns ks 0 st" "\<forall>k \<in> ks. redis_obs rv ns st 0 k = age 0 (None, None)"
    using assms(2) by (simp_all add: fresh_server_def redis_fine_def redis_obs_def age_def count_shape_def lock_shape_def)
  then have "answers login_rate_limiter (redis_ops r ns) es st =
      cell_answers (lim_max_failures login_rate_limiter) ?w es (\<lambda>_. (None, None))"
    using store_contract.answers_eq [OF store, where a = 0 and st = st and es = es and s = "\<lambda>_. (None, None)" and
        cfg = login_rate_limiter] assms(4,5) by simp
  also have "\<dots> = answers login_rate_limiter memory_ops es empty_memory"
    using mem.answers_eq [where a = 0 and st = empty_memory and es = es and s = "\<lambda>_. (None, None)" and
        cfg = login_rate_limiter] assms(4) by (simp add: mem_obs_def empty_memory_def)
  finally show ?thesis .
qed

text \<open>A server that keeps every key with its value and absolute expiry.\<close>

definition table_view :: "(string \<rightharpoonup> rat \<times> rat option) redis_view" where
  "table_view st a n = (case st n of Some (v, Some e) \<Rightarrow> if a < e then Some (v, Some e) else None | x \<Rightarrow> x)"

definition table_incr :: "string \<Rightarrow> rat \<Rightarrow> (string \<rightharpoonup> rat \<times> rat option) \<Rightarrow> int \<times> (string \<rightharpoonup> rat \<times> rat option)" where
  "table_incr n a st =
    (case table_view st a n of None \<Rightarrow> (1, st(n \<mapsto> (1, None))) | Some (v, e) \<Rightarrow> (\<lfloor>v\<rfloor> + 1, st(n \<mapsto> (v + 1, e))))"

definition table_redis :: "(string \<rightharpoonup> rat \<times> rat option) redis" where
  "table_redis = \<lparr>r_incr = table_incr,
     r_ttl = (\<lambda>n a st. case table_view st a n of None \<Rightarrow> - 2 | Some (v, None) \<Rightarrow> - 1 | Some (v, Some e) \<Rightarrow> \<lfloor>e - a\<rfloor>),
     r_expire = (\<lambda>n secs a st. case table_view st a n of None \<Rightarrow> st | Some (v, e) \<Rightarrow> st(n \<mapsto> (v, Some (a + of_int secs)))),
     r_set = (\<lambda>n v secs a st. st(n \<mapsto> (v, Some (a + of_int secs)))),
     r_get = (\<lambda>n a st. map_option fst (table_view st a n)),
     r_delete = (\<lambda>ns st n. if n \<in> set ns then None else st n)\<rparr>"

lemma table_redis_ok: "redis_contract table_redis table_view"
  unfolding redis_contract_def
proof (intro conjI)
  show "expires table_view" by (auto simp: expires_def table_view_def split: option.splits)
  show "incr_counts table_redis table_view"
    by (auto simp: incr_counts_def table_redis_def table_incr_def table_view_def split: option.splits if_splits)
  have "\<not> \<lfloor>e - a\<rfloor> = - 1" if "a < e" for a e :: rat using that by (simp add: floor_eq_iff)
  then show "ttl_tells table_redis table_view"
    by (auto simp: ttl_tells_def table_redis_def table_view_def split: option.splits if_splits)
  show "expire_sets table_redis table_view"
    by (auto simp: expire_sets_def table_redis_def table_view_def split: option.splits if_splits)
  show "set_stores table_redis table_view" by (simp add: set_stores_def table_redis_def table_view_def)
  show "get_reads table_redis table_view" by (simp add: get_reads_def table_redis_def)
  show "delete_removes table_redis table_view" by (simp add: delete_removes_def table_redis_def table_view_def)
qed

definition ex_calls :: "(rat \<times> string \<times> limiter_call) list" where
  "ex_calls = map (\<lambda>t. (t, ''ip'', Failure)) [1, 2, 3, 4, 5] @ [(6, ''ip'', Is_locked), (6, ''ip'', Remaining), (906, ''ip'', Is_locked)]"

theorem stores_agree_witness:
  "answers login_rate_limiter (redis_ops table_redis ''login'') ex_calls (\<lambda>_. None) =
     answers login_rate_limiter memory_ops ex_calls empty_memory \<and>
   answers login_rate_limiter memory_ops ex_calls empty_memory =
     map Flag [False, False, False, False, True] @ [Flag True, Seconds 899, Flag False]"
proof -
  have "fresh_server table_view ''login'' {''ip''} (\<lambda>_. None)" "no_lock_suffix {''ip''}"
    by (simp_all add: fresh_server_def table_view_def no_lock_suffix_def)
  moreover have "in_order 0 ex_calls" by code_simp
  moreover have "\<forall>(t, k, c) \<in> set ex_calls. k \<in> {''ip''}" by (simp add: ex_calls_def)
  moreover have "answers login_rate_limiter memory_ops ex_calls empty_memory =
     map Flag [False, False, False, False, True] @ [Flag True, Seconds 899, Flag False]" by code_simp
  ultimately show ?thesis using stores_agree [OF table_redis_ok] by blast
qed

section \<open>A collision of names\<close>

text \<open>The failure count of one key and the lock of another share a name in Redis.\<close>

lemma lock_name_collides: "count_key ns (k @ '':lock'') = lock_key ns k"
  by (simp add: count_key_def lock_key_def)

end
