(* ===== verification/Weeks.thy ===== *)
theory Weeks
  imports Dates "HOL-Library.Product_Lexorder"
begin

text \<open>
  \<open>src/src/kaleta/core/weeks.py\<close>: how a run of days is cut into weeks, Monday to Sunday or in sevens from
  the first of the month, for every screen that shows a weekly subtotal.

  The lemmas show that a bucket is the bucket of each of its days, also where an ISO week crosses a
  year, which needs the week number of the library's \<open>isocalendar\<close> to agree on both sides of the year's
  end.
\<close>

section \<open>Definitions\<close>

datatype week_start_mode = ISO_MONDAY | MONTH_DAY_1

record week =
  wk_start :: date
  wk_end :: date
  wk_index :: int

definition week_days :: "week \<Rightarrow> int" where
  "week_days b = days_between (wk_end b) (wk_start b) + 1"

definition week_contains :: "week \<Rightarrow> date \<Rightarrow> bool" where
  "week_contains b d \<longleftrightarrow> wk_start b \<le> d \<and> d \<le> wk_end b"

definition coerce_mode :: "string \<Rightarrow> week_start_mode" where
  "coerce_mode raw =
    (if raw = ''iso_monday'' then ISO_MONDAY else if raw = ''month_day_1'' then MONTH_DAY_1 else ISO_MONDAY)"

definition replace_day :: "date \<Rightarrow> int \<Rightarrow> date result" where
  "replace_day d k = mk_date (d_year d) (d_month d) k"

definition week_bucket :: "week_start_mode \<Rightarrow> date \<Rightarrow> week result" where
  "week_bucket mode d =
    (case mode of
       MONTH_DAY_1 \<Rightarrow>
         (let ordinal = (d_day d - 1) div 7
          in ebind (replace_day d (ordinal * 7 + 1)) (\<lambda>start.
             ebind (replace_day d (days_in_month (d_year d) (d_month d))) (\<lambda>last_of_month.
             ebind (add_days start 6) (\<lambda>e.
               Inr \<lparr>wk_start = start, wk_end = min e last_of_month, wk_index = ordinal + 1\<rparr>))))
     | ISO_MONDAY \<Rightarrow>
         ebind (add_days d (- weekday d)) (\<lambda>start.
         ebind (add_days start 6) (\<lambda>e.
           Inr \<lparr>wk_start = start, wk_end = e, wk_index = iso_week d\<rparr>)))"

definition week_buckets :: "week_start_mode \<Rightarrow> date list \<Rightarrow> week list result" where
  "week_buckets mode ds =
    ebind (emap (week_bucket mode) ds) (\<lambda>bs.
      Inr (sort_key (\<lambda>b. (wk_start b, wk_end b, wk_index b)) (remdups bs)))"

section \<open>Week numbers across the year's end\<close>

definition monday :: "date \<Rightarrow> int" where
  "monday d = toordinal d - weekday d"

lemma monday_mod: "monday d mod 7 = 1"
proof -
  have "(toordinal d - (toordinal d + 6) mod 7) mod 7 = 1" by presburger
  then show ?thesis by (simp add: monday_def weekday_def)
qed

lemma monday_unique:
  assumes "m mod 7 = 1" and "m \<le> toordinal d" and "toordinal d \<le> m + 6"
  shows "monday d = m"
proof -
  let ?t = "toordinal d"
  have "(m + 6) mod 7 = 0" using assms(1) by presburger
  then have "(?t - m + (m + 6)) mod 7 = (?t - m) mod 7" by (metis add.right_neutral mod_add_right_eq)
  then have "(?t + 6) mod 7 = ?t - m" using assms(2,3) by simp
  then show ?thesis by (simp add: monday_def weekday_def)
qed

lemma isoweek1monday_mod: "isoweek1monday y mod 7 = 1"
proof -
  have "(f - (f + 6) mod 7) mod 7 = 1" "(f - (f + 6) mod 7 + 7) mod 7 = 1" for f :: int by presburger+
  from this [of "days_before_year y + 1"] show ?thesis unfolding isoweek1monday_def Let_def by presburger
qed

lemma isoweek1monday_near: "\<bar>isoweek1monday y - (days_before_year y + 1)\<bar> \<le> 3"
proof -
  have "0 \<le> (f + 6) mod 7 \<and> (f + 6) mod 7 < 7" for f :: int by simp
  from this [of "days_before_year y + 1"] show ?thesis by (simp add: isoweek1monday_def Let_def)
qed

lemma isoweek1monday_step: "isoweek1monday y + 364 \<le> isoweek1monday (y + 1)"
proof -
  have "isoweek1monday y + 359 \<le> isoweek1monday (y + 1)"
    using isoweek1monday_near [of y] isoweek1monday_near [of "y + 1"] days_before_year_step [of y]
    by (auto split: if_splits)
  moreover have "a + 364 \<le> b" if "a mod 7 = 1" "b mod 7 = 1" "a + 359 \<le> b" for a b :: int using that by presburger
  ultimately show ?thesis using isoweek1monday_mod by blast
qed

lemma div_monday:
  fixes t m v :: int
  assumes "m mod 7 = 1" and "v mod 7 = 1" and "m \<le> t" and "t \<le> m + 6"
  shows "(t - v) div 7 = (m - v) div 7"
proof -
  have "m = 7 * (m div 7) + 1" "v = 7 * (v div 7) + 1" using assms(1,2) by (metis mult_div_mod_eq)+
  then have mv: "m - v = 7 * (m div 7 - v div 7)" by (simp add: algebra_simps)
  then have "t - v = (t - m) + 7 * (m div 7 - v div 7)" by simp
  then have "(t - v) div 7 = (m div 7 - v div 7) + (t - m) div 7" by (metis div_mult_self2 zero_neq_numeral)
  moreover have "(t - m) div 7 = 0" using assms(3,4) by (intro div_pos_pos_trivial) auto
  ultimately show ?thesis using mv by simp
qed

lemma iso_week_monday:
  "iso_week d =
    (let y = d_year d; week = (monday d - isoweek1monday y) div 7
     in if week < 0 then (monday d - isoweek1monday (y - 1)) div 7 + 1
        else if week \<ge> 52 \<and> monday d \<ge> isoweek1monday (y + 1) then 1
        else week + 1)"
proof -
  have r: "monday d \<le> toordinal d" "toordinal d \<le> monday d + 6"
    using weekday_range [of d] by (auto simp: monday_def)
  note eq = div_monday [OF monday_mod isoweek1monday_mod r]
  have "v \<le> t \<longleftrightarrow> v \<le> m" if "m mod 7 = 1" "v mod 7 = 1" "m \<le> t" "t \<le> m + 6" for t m v :: int
  proof -
    from that(1,2) have "7 dvd v - m" by (simp add: mod_eq_dvd_iff [symmetric])
    then obtain k where k: "v - m = 7 * k" by (elim dvdE)
    have "k \<le> 0" if "v \<le> t" using k \<open>t \<le> m + 6\<close> that by linarith
    then show ?thesis using k that(3) by auto
  qed
  from this [OF monday_mod isoweek1monday_mod r] show ?thesis by (simp add: iso_week_def Let_def eq)
qed

lemma iso_week_next_year:
  assumes "valid_date d" and "valid_date e" and "monday d = monday e" and "d_year d < d_year e"
  shows "iso_week d = iso_week e"
proof -
  let ?m = "monday d" and ?y = "d_year d"
  have r: "?m \<le> toordinal d" "toordinal e \<le> ?m + 6"
    using weekday_range [of d] weekday_range [of e] assms(3) by (auto simp: monday_def)
  have jan: "toordinal d \<le> days_before_year (?y + 1)" "days_before_year (?y + 1) < toordinal e"
    using toordinal_bounds [OF assms(1)] toordinal_bounds [OF assms(2)] days_before_year_less [OF assms(4)] by auto
  have ye: "d_year e = ?y + 1"
  proof (rule ccontr)
    assume "d_year e \<noteq> ?y + 1"
    with assms(4) have "days_before_year (?y + 2) \<le> days_before_year (d_year e)"
      using days_before_year_less [of "?y + 1" "d_year e"] by (simp add: add.commute)
    then have "days_before_year (?y + 1 + 1) \<le> days_before_year (d_year e)" by (simp add: add.commute)
    then show False using toordinal_bounds(1) [OF assms(2)] days_before_year_step [of "?y + 1"] r jan
      by (auto split: if_splits)
  qed
  have w: "isoweek1monday (?y + 1) = ?m \<or> isoweek1monday (?y + 1) = ?m + 7"
  proof -
    have "v = m \<or> v = m + 7" if "m mod 7 = 1" "v mod 7 = 1" "m \<le> j - 1" "j \<le> m + 6" "\<bar>v - j\<bar> \<le> 3" for v m j :: int
    proof -
      from that(1,2) have "7 dvd v - m" by (simp add: mod_eq_dvd_iff [symmetric])
      then obtain k where k: "v - m = 7 * k" by (elim dvdE)
      with that(3-5) have "- 2 \<le> 7 * k" "7 * k \<le> 9" by linarith+
      then have "k = 0 \<or> k = 1" by linarith
      with k show ?thesis by auto
    qed
    moreover have "?m \<le> days_before_year (?y + 1) + 1 - 1" "days_before_year (?y + 1) + 1 \<le> ?m + 6" using r jan by auto
    ultimately show ?thesis using monday_mod isoweek1monday_mod isoweek1monday_near by blast
  qed
  have s: "isoweek1monday ?y + 364 \<le> isoweek1monday (?y + 1)" by (rule isoweek1monday_step)
  show ?thesis
  proof (cases "isoweek1monday (?y + 1) = ?m")
    case True
    with s have "52 \<le> (?m - isoweek1monday ?y) div 7" by simp
    then show ?thesis using True assms(3) ye by (simp add: iso_week_monday [of d] iso_week_monday [of e] Let_def)
  next
    case False
    with w have f: "isoweek1monday (?y + 1) = ?m + 7" by blast
    with s have "0 \<le> (?m - isoweek1monday ?y) div 7" by simp
    then show ?thesis using f assms(3) ye by (simp add: iso_week_monday [of d] iso_week_monday [of e] Let_def)
  qed
qed

lemma iso_week_same:
  assumes "valid_date d" and "valid_date e" and "monday d = monday e"
  shows "iso_week d = iso_week e"
proof (cases "d_year d" "d_year e" rule: linorder_cases)
  case equal
  with assms(3) show ?thesis by (simp add: iso_week_monday [of d] iso_week_monday [of e] Let_def)
qed (use assms iso_week_next_year in \<open>metis+\<close>)

section \<open>A bucket is the bucket of each of its days\<close>

lemma iso_bucket_iff:
  assumes "valid_date d"
  shows "week_bucket ISO_MONDAY d = Inr b \<longleftrightarrow> valid_date (wk_start b) \<and> valid_date (wk_end b) \<and>
    toordinal (wk_start b) = monday d \<and> toordinal (wk_end b) = monday d + 6 \<and> wk_index b = iso_week d"
proof -
  have "week_bucket ISO_MONDAY d = Inr b \<longleftrightarrow> (\<exists>s e. add_days d (- weekday d) = Inr s \<and> add_days s 6 = Inr e \<and>
      b = \<lparr>wk_start = s, wk_end = e, wk_index = iso_week d\<rparr>)"
    by (auto simp: week_bucket_def ebind_Inr_iff)
  also have "\<dots> \<longleftrightarrow> (\<exists>s e. valid_date s \<and> toordinal s = monday d \<and> valid_date e \<and> toordinal e = monday d + 6 \<and>
      b = \<lparr>wk_start = s, wk_end = e, wk_index = iso_week d\<rparr>)"
    using assms by (intro ex_cong1) (auto simp: add_days_eq_Inr_iff monday_def)
  also have "\<dots> \<longleftrightarrow> valid_date (wk_start b) \<and> valid_date (wk_end b) \<and>
      toordinal (wk_start b) = monday d \<and> toordinal (wk_end b) = monday d + 6 \<and> wk_index b = iso_week d"
    by (cases b) auto
  finally show ?thesis .
qed

lemma month_bucket_iff:
  assumes "valid_date (Date y m k)"
  shows "week_bucket MONTH_DAY_1 (Date y m k) = Inr b \<longleftrightarrow>
    (\<exists>e. valid_date e \<and> toordinal e = toordinal (Date y m ((k - 1) div 7 * 7 + 1)) + 6 \<and>
      b = \<lparr>wk_start = Date y m ((k - 1) div 7 * 7 + 1), wk_end = min e (Date y m (days_in_month y m)),
           wk_index = (k - 1) div 7 + 1\<rparr>)"
proof -
  have k: "1 \<le> (k - 1) div 7 * 7 + 1" "(k - 1) div 7 * 7 + 1 \<le> k" using assms by auto
  then have "valid_date (Date y m ((k - 1) div 7 * 7 + 1))" using assms by auto
  moreover have "1 \<le> days_in_month y m" using days_in_month_bounds(1) [of y m] by simp
  ultimately show ?thesis
    using assms by (auto simp: week_bucket_def replace_day_def mk_date_def Let_def ebind_Inr_iff add_days_eq_Inr_iff)
qed

lemma month_bucket_days:
  assumes "valid_date (Date y m k)" and "week_bucket MONTH_DAY_1 (Date y m k) = Inr b" and "valid_date d"
  shows "week_contains b d \<longleftrightarrow> (\<exists>j. d = Date y m j \<and> (j - 1) div 7 = (k - 1) div 7)"
proof -
  let ?o = "(k - 1) div 7"
  let ?s = "Date y m (?o * 7 + 1)"
  from assms(2) obtain e where e: "valid_date e" "toordinal e = toordinal ?s + 6"
    and b: "wk_start b = ?s" "wk_end b = min e (Date y m (days_in_month y m))"
    unfolding month_bucket_iff [OF assms(1)] by auto
  have in_month: "?s \<le> d \<and> d \<le> Date y m (days_in_month y m) \<longleftrightarrow> (\<exists>j. d = Date y m j \<and> ?o * 7 + 1 \<le> j)"
    using assms(3) by (cases d) auto
  have up_to: "Date y m j \<le> e \<longleftrightarrow> j \<le> ?o * 7 + 7" if "d = Date y m j" for j
    using toordinal_le_iff [OF assms(3) e(1)] e(2) that by (simp add: toordinal_def add.commute)
  have "week_contains b d \<longleftrightarrow> (\<exists>j. d = Date y m j \<and> ?o * 7 + 1 \<le> j) \<and> d \<le> e"
    using in_month by (auto simp: week_contains_def b)
  also have "\<dots> \<longleftrightarrow> (\<exists>j. d = Date y m j \<and> ?o * 7 + 1 \<le> j \<and> j \<le> ?o * 7 + 7)"
    using up_to by auto
  also have "\<dots> \<longleftrightarrow> (\<exists>j. d = Date y m j \<and> (j - 1) div 7 = ?o)"
  proof -
    have "?o * 7 + 1 \<le> j \<and> j \<le> ?o * 7 + 7 \<longleftrightarrow> (j - 1) div 7 = ?o" for j by linarith
    then show ?thesis by blast
  qed
  finally show ?thesis .
qed

lemma month_bucket_cong:
  assumes "(j - 1) div 7 = (k - 1) div 7"
  shows "week_bucket MONTH_DAY_1 (Date y m j) = week_bucket MONTH_DAY_1 (Date y m k)"
  using assms by (simp add: week_bucket_def replace_day_def Let_def)

lemma bucket_of_day:
  assumes "valid_date d" and "week_bucket mode d = Inr b" and "valid_date e"
  shows "week_contains b e \<longleftrightarrow> week_bucket mode e = Inr b"
proof (cases mode)
  case ISO_MONDAY
  note b = assms(2) [unfolded ISO_MONDAY iso_bucket_iff [OF assms(1)]]
  have "week_contains b e \<longleftrightarrow> monday d \<le> toordinal e \<and> toordinal e \<le> monday d + 6"
    unfolding week_contains_def
    using toordinal_le_iff [of "wk_start b" e] toordinal_le_iff [of e "wk_end b"] b assms(3) by auto
  also have "\<dots> \<longleftrightarrow> monday e = monday d"
    using monday_unique [OF monday_mod, of d e] weekday_range [of e] by (auto simp: monday_def)
  also have "\<dots> \<longleftrightarrow> week_bucket mode e = Inr b"
    unfolding ISO_MONDAY iso_bucket_iff [OF assms(3)] using b iso_week_same [OF assms(3,1)] by metis
  finally show ?thesis .
next
  case MONTH_DAY_1
  obtain y m k where d: "d = Date y m k" by (cases d)
  obtain y' m' j where e: "e = Date y' m' j" by (cases e)
  have v: "valid_date (Date y m k)" "valid_date (Date y' m' j)" using assms d e by simp_all
  have days: "week_contains b e \<longleftrightarrow> y' = y \<and> m' = m \<and> (j - 1) div 7 = (k - 1) div 7"
    using month_bucket_days [OF v(1) _ v(2)] assms(2) d e MONTH_DAY_1 by simp
  have "week_bucket mode e = Inr b" if "week_contains b e"
  proof -
    from that days have same: "y' = y" "m' = m" "(j - 1) div 7 = (k - 1) div 7" by blast+
    show ?thesis using month_bucket_cong [OF same(3), of y m] assms(2) same(1,2) d e MONTH_DAY_1 by simp
  qed
  moreover have "week_contains b e" if "week_bucket mode e = Inr b"
    using month_bucket_days [OF v(2) _ v(2)] that e MONTH_DAY_1 by simp
  ultimately show ?thesis by blast
qed

lemma bucket_start_valid:
  assumes "valid_date d" and "week_bucket mode d = Inr b"
  shows "valid_date (wk_start b)" and "week_contains b (wk_start b)"
proof -
  show v: "valid_date (wk_start b)"
  proof (cases mode)
    case ISO_MONDAY
    then show ?thesis using assms iso_bucket_iff by simp
  next
    case MONTH_DAY_1
    obtain y m k where d: "d = Date y m k" by (cases d)
    then show ?thesis using assms MONTH_DAY_1
      by (auto simp: week_bucket_def replace_day_def Let_def ebind_Inr_iff mk_date_Inr_iff)
  qed
  have "week_contains b d" using bucket_of_day [OF assms assms(1)] assms(2) by simp
  then show "week_contains b (wk_start b)" by (auto simp: week_contains_def)
qed

lemma bucket_length:
  assumes "valid_date d" and "week_bucket mode d = Inr b"
  shows "1 \<le> week_days b \<and> week_days b \<le> 7 \<and> (mode = ISO_MONDAY \<longrightarrow> week_days b = 7)"
proof (cases mode)
  case ISO_MONDAY
  then show ?thesis using assms iso_bucket_iff by (simp add: week_days_def days_between_def)
next
  case MONTH_DAY_1
  obtain y m k where d: "d = Date y m k" by (cases d)
  let ?s = "Date y m ((k - 1) div 7 * 7 + 1)" and ?l = "Date y m (days_in_month y m)"
  have vd: "valid_date (Date y m k)" using assms(1) d by simp
  from assms(2) obtain e where e: "valid_date e" "toordinal e = toordinal ?s + 6"
    and b: "wk_start b = ?s" "wk_end b = min e ?l"
    unfolding d MONTH_DAY_1 month_bucket_iff [OF vd] by auto
  have s: "valid_date ?s" "week_contains b ?s" using bucket_start_valid [OF assms] b(1) by simp_all
  have l: "valid_date ?l" using vd days_in_month_bounds(1) [of y m] by simp
  have "valid_date (min e ?l)" using e(1) l by (auto simp: min_def)
  then have "toordinal ?s \<le> toordinal (min e ?l)" "toordinal (min e ?l) \<le> toordinal e"
    using s e(1) b by (auto simp: week_contains_def)
  then show ?thesis using e(2) b MONTH_DAY_1 by (simp add: week_days_def days_between_def)
qed

lemma bucket_exists:
  assumes "valid_date d" and "d_year d \<le> 9998"
  shows "\<exists>b. week_bucket mode d = Inr b"
proof -
  have t: "1 \<le> toordinal d" "toordinal d + 6 \<le> max_ordinal"
  proof -
    show "1 \<le> toordinal d" using toordinal_range assms(1) by blast
    have "days_before_year (d_year d + 1) \<le> days_before_year 9999"
      using days_before_year_less [of "d_year d" 9999] assms(2) by simp
    moreover have "days_before_year 9999 + 365 \<le> max_ordinal" using max_ordinal_eq days_before_year_step [of 9999] by (simp split: if_splits)
    ultimately show "toordinal d + 6 \<le> max_ordinal" using toordinal_bounds(2) [OF assms(1)] by simp
  qed
  have add: "\<exists>e. add_days x n = Inr e" if "1 \<le> toordinal x + n" "toordinal x + n \<le> max_ordinal" for x n
    using that by (simp add: add_days_def Let_def)
  show ?thesis
  proof (cases mode)
    case ISO_MONDAY
    have m: "1 \<le> monday d"
    proof -
      have "1 \<le> t - (t + 6) mod 7" if "1 \<le> t" for t :: int using that by presburger
      then show ?thesis using t(1) by (simp add: monday_def weekday_def)
    qed
    obtain s where s: "add_days d (- weekday d) = Inr s"
      using add [of d "- weekday d"] m t weekday_range [of d] by (auto simp: monday_def)
    then have "toordinal s = monday d" using add_days_Inr [OF assms(1) s] by (simp add: monday_def)
    then obtain e where "add_days s 6 = Inr e" using add [of s 6] m t weekday_range [of d] by (auto simp: monday_def)
    with s ISO_MONDAY show ?thesis by (simp add: week_bucket_def)
  next
    case MONTH_DAY_1
    obtain y m k where d: "d = Date y m k" by (cases d)
    let ?s = "Date y m ((k - 1) div 7 * 7 + 1)"
    have k: "1 \<le> (k - 1) div 7 * 7 + 1" "(k - 1) div 7 * 7 + 1 \<le> k" using assms(1) d by auto
    then have "valid_date ?s" using assms(1) d by auto
    moreover have "toordinal ?s \<le> toordinal d" using k d by (simp add: toordinal_def)
    ultimately obtain e where "add_days ?s 6 = Inr e"
      using add [of ?s 6] t toordinal_range [of ?s] by auto
    then show ?thesis
      using MONTH_DAY_1 d \<open>valid_date ?s\<close> assms(1) days_in_month_bounds(1) [of y m]
      by (simp add: week_bucket_def replace_day_def mk_date_def Let_def)
  qed
qed

section \<open>The weeks of a list of days\<close>

lemma buckets_disjoint:
  assumes "valid_date d" "week_bucket mode d = Inr a" and "valid_date e" "week_bucket mode e = Inr b"
    and "a \<noteq> b" and "wk_start a \<le> wk_start b"
  shows "wk_end a < wk_start b"
proof (rule ccontr)
  assume "\<not> wk_end a < wk_start b"
  with assms(6) have "week_contains a (wk_start b)" by (simp add: week_contains_def)
  moreover note sb = bucket_start_valid [OF assms(3,4)]
  ultimately have "week_bucket mode (wk_start b) = Inr a" "week_bucket mode (wk_start b) = Inr b"
    using bucket_of_day [OF assms(1,2) sb(1)] bucket_of_day [OF assms(3,4) sb(1)] by blast+
  with assms(5) show False by simp
qed

text \<open>
  Weeks cut a list of days. For days up to the year 9998, \<open>week_buckets\<close> returns weeks of one to
  seven days (always seven from Monday to Sunday), in order and without overlap, so that every given
  day lies in exactly one of them and none is empty; and any day at all that lies in one of them, also
  one across the end of a year, gets that same week, with the same number, from \<open>week_bucket\<close>.
\<close>

lemma week_buckets_partition:
  assumes "\<forall>d \<in> set ds. valid_date d \<and> d_year d \<le> 9998"
  shows "\<exists>bs. week_buckets mode ds = Inr bs \<and> sorted_wrt (\<lambda>a b. wk_end a < wk_start b) bs \<and>
    (\<forall>b \<in> set bs. 1 \<le> week_days b \<and> week_days b \<le> 7 \<and> (mode = ISO_MONDAY \<longrightarrow> week_days b = 7)) \<and>
    (\<forall>d \<in> set ds. \<exists>!b. b \<in> set bs \<and> week_contains b d) \<and>
    (\<forall>b \<in> set bs. \<exists>d \<in> set ds. week_contains b d) \<and>
    (\<forall>b \<in> set bs. \<forall>e. valid_date e \<longrightarrow> (week_contains b e \<longleftrightarrow> week_bucket mode e = Inr b))"
proof -
  let ?key = "\<lambda>b. (wk_start b, wk_end b, wk_index b)"
  obtain xs where xs: "emap (week_bucket mode) ds = Inr xs"
    using emap_succeeds [of ds "week_bucket mode"] bucket_exists assms by blast
  define bs where "bs = sort_key ?key (remdups xs)"
  have wb: "week_buckets mode ds = Inr bs" by (simp add: week_buckets_def xs bs_def)
  have set_bs: "set bs = set xs" by (simp add: bs_def)
  have la: "list_all2 (\<lambda>d b. week_bucket mode d = Inr b) ds xs" using xs by (simp add: emap_Inr_iff)
  have from_day: "\<exists>d \<in> set ds. valid_date d \<and> week_bucket mode d = Inr b" if "b \<in> set bs" for b
    using la that assms unfolding set_bs by (induction rule: list_all2_induct) auto
  have to_week: "\<exists>b \<in> set bs. week_bucket mode d = Inr b" if "d \<in> set ds" for d
    using la that unfolding set_bs by (induction rule: list_all2_induct) auto
  have day: "week_contains b e \<longleftrightarrow> week_bucket mode e = Inr b" if "b \<in> set bs" "valid_date e" for b e
    using from_day [OF that(1)] bucket_of_day that(2) by blast
  have "sorted (map ?key bs)" "distinct bs" by (simp_all add: bs_def)
  then have "sorted_wrt (\<lambda>a b. ?key a \<le> ?key b \<and> a \<noteq> b) bs"
    by (induction bs) auto
  then have sorted: "sorted_wrt (\<lambda>a b. wk_end a < wk_start b) bs"
  proof (rule sorted_wrt_mono_rel [rotated])
    fix a b assume ab: "a \<in> set bs" "b \<in> set bs" "?key a \<le> ?key b \<and> a \<noteq> b"
    then have "wk_start a \<le> wk_start b" by (auto simp: less_eq_prod_def)
    then show "wk_end a < wk_start b" using from_day [OF ab(1)] from_day [OF ab(2)] ab(3) buckets_disjoint by blast
  qed
  have u: "\<exists>!b. b \<in> set bs \<and> week_contains b d" if d: "d \<in> set ds" for d
  proof -
    obtain b where "b \<in> set bs" "week_bucket mode d = Inr b" using to_week [OF d] by blast
    moreover have "valid_date d" using assms d by blast
    ultimately show ?thesis using day by (metis sum.inject(2))
  qed
  have ne: "\<exists>d \<in> set ds. week_contains b d" if "b \<in> set bs" for b
    using from_day [OF that] day [OF that] by blast
  have len: "1 \<le> week_days b \<and> week_days b \<le> 7 \<and> (mode = ISO_MONDAY \<longrightarrow> week_days b = 7)" if "b \<in> set bs" for b
    using from_day [OF that] bucket_length by blast
  show ?thesis
    by (intro exI [of _ bs] conjI ballI allI impI) (simp_all add: wb sorted u ne len day)
qed

lemma week_buckets_partition_witness:
  "\<exists>b c. week_buckets ISO_MONDAY [Date 2026 12 31, Date 2027 1 5, Date 2027 1 3] = Inr [b, c] \<and>
     wk_end b < wk_start c \<and> wk_index b = 53 \<and> week_bucket ISO_MONDAY (Date 2027 1 1) = Inr b"
proof -
  let ?ds = "[Date 2026 12 31, Date 2027 1 5, Date 2027 1 3]"
  let ?b = "\<lparr>wk_start = Date 2026 12 28, wk_end = Date 2027 1 3, wk_index = 53\<rparr>"
  let ?c = "\<lparr>wk_start = Date 2027 1 4, wk_end = Date 2027 1 10, wk_index = 1\<rparr>"
  have v: "\<forall>d \<in> set ?ds. valid_date d \<and> d_year d \<le> 9998" "valid_date (Date 2027 1 1)" "week_contains ?b (Date 2027 1 1)"
    by code_simp+
  have w: "week_buckets ISO_MONDAY ?ds = Inr [?b, ?c]" by code_simp
  from week_buckets_partition [OF v(1), of ISO_MONDAY] w v(2,3) show ?thesis by auto
qed

section \<open>The last week of the calendar\<close>

text \<open>The last days of the year 9999 have no week: its end cannot be computed.\<close>

lemma last_week_raises: "week_bucket ISO_MONDAY (Date 9999 12 31) = Inl OverflowError"
  by code_simp

end
