(* ===== verification/Gifts.thy ===== *)
theory Gifts
  imports Transactions
begin

text \<open>
  \<open>src/src/kaleta/services/gift_service.py\<close>: gifts planned for a person and an occasion, the yearly total
  they ask for, and the ledger expenses that paid for them. A gift is bought when a transaction points
  to it; the column is \<open>tx_gift_id\<close>.
\<close>

section \<open>Definitions\<close>

record gift_create =
  gfc_person :: string
  gfc_occasion :: string
  gfc_amount :: decimal

record gift_update =
  gfu_person :: "string option option"
  gfu_occasion :: "string option option"
  gfu_amount :: "decimal option option"

record gift_response =
  gr_id :: int
  gr_person :: string
  gr_occasion :: string
  gr_amount :: decimal
  gr_bought :: bool
  gr_actual_cost :: "decimal option"

record gift_person_group =
  gg_person :: string
  gg_gifts :: "gift_response list"
  gg_subtotal :: decimal

record gifts_summary =
  gs_groups :: "gift_person_group list"
  gs_yearly_total :: decimal

definition gift_payload :: "string \<Rightarrow> string \<Rightarrow> decimal \<Rightarrow> gift_create result" where
  "gift_payload person occasion amount =
    raise_if (\<not> (1 \<le> length person \<and> length person \<le> 100 \<and> 1 \<le> length occasion \<and> length occasion \<le> 100 \<and>
        0 \<le> amount \<and> cents amount)) ValueError
      (Inr \<lparr>gfc_person = person, gfc_occasion = occasion, gfc_amount = amount\<rparr>)"

definition get_gift :: "db \<Rightarrow> int \<Rightarrow> gift option" where
  "get_gift s i = find_row gf_id i (gifts s)"

definition require_gift :: "db \<Rightarrow> int \<Rightarrow> gift result" where
  "require_gift s i =
    (case get_gift s i of None \<Rightarrow> Inl (NotFoundError ''errors.gift.not_found'') | Some g \<Rightarrow> Inr g)"

definition list_gifts :: "db \<Rightarrow> gift list" where
  "list_gifts s = sort_key gf_id (gifts s)"

definition create_gift :: "gift_create \<Rightarrow> db \<Rightarrow> gift \<times> db" where
  "create_gift p s =
    (let g = \<lparr>gf_id = seq_gift s, gf_person = gfc_person p, gf_occasion = gfc_occasion p, gf_amount = gfc_amount p\<rparr>
     in (g, s\<lparr>gifts := gifts s @ [g], seq_gift := seq_gift s + 1\<rparr>))"

text \<open>An explicit null is written and refused by the column.\<close>

definition update_gift :: "int \<Rightarrow> gift_update \<Rightarrow> db \<Rightarrow> (gift \<times> db) result" where
  "update_gift i u s =
    ebind (require_gift s i) (\<lambda>g.
    raise_if (gfu_person u = Some None \<or> gfu_occasion u = Some None \<or> gfu_amount u = Some None)
      (IntegrityError ''gifts'')
    (let g' = patch (gfu_amount u) (\<lambda>v g. g\<lparr>gf_amount := the v\<rparr>)
             (patch (gfu_occasion u) (\<lambda>v g. g\<lparr>gf_occasion := the v\<rparr>)
             (patch (gfu_person u) (\<lambda>v g. g\<lparr>gf_person := the v\<rparr>) g))
     in Inr (g', s\<lparr>gifts := upd_row gf_id i (\<lambda>_. g') (gifts s)\<rparr>)))"

definition delete_gift :: "int \<Rightarrow> db \<Rightarrow> db result" where
  "delete_gift i s =
    ebind (require_gift s i) (\<lambda>g.
      Inr (s\<lparr>gifts := del_row gf_id i (gifts s),
             transactions := map (\<lambda>t. t\<lparr>tx_gift_id := unlinked i (tx_gift_id t)\<rparr>) (transactions s)\<rparr>))"

definition gift_actuals :: "db \<Rightarrow> int list \<Rightarrow> int \<rightharpoonup> decimal" where
  "gift_actuals s ids i =
    (if i \<in> set ids \<and> (\<exists>t \<in> set (transactions s). tx_gift_id t = Some i)
     then Some (sum_list (map tx_amount (filter (\<lambda>t. tx_gift_id t = Some i) (transactions s)))) else None)"

definition gift_to_response :: "(int \<rightharpoonup> decimal) \<Rightarrow> gift \<Rightarrow> gift_response" where
  "gift_to_response actuals g =
    (let cost = actuals (gf_id g)
     in \<lparr>gr_id = gf_id g, gr_person = gf_person g, gr_occasion = gf_occasion g, gr_amount = gf_amount g,
         gr_bought = (cost \<noteq> None), gr_actual_cost = cost\<rparr>)"

definition get_gift_response :: "db \<Rightarrow> int \<Rightarrow> gift_response option" where
  "get_gift_response s i = map_option (gift_to_response (gift_actuals s [i])) (get_gift s i)"

definition link_transaction :: "env \<Rightarrow> int \<Rightarrow> int \<Rightarrow> db \<Rightarrow> db result" where
  "link_transaction e i tid s =
    ebind (require_gift s i) (\<lambda>g.
    case get_tx s tid of
      None \<Rightarrow> Inl (NotFoundError ''errors.gift.transaction_not_found'')
    | Some t \<Rightarrow>
        raise_if (tx_type t \<noteq> EXPENSE) (ValidationError ''errors.gift.only_expense_pays'')
        (raise_if (tx_gift_id t \<noteq> None \<and> tx_gift_id t \<noteq> Some i)
          (ConflictError ''errors.gift.transaction_pays_another'')
        (save_tx (env_now e) (t\<lparr>tx_gift_id := Some i\<rparr>) s)))"

text \<open>The bulk \<open>UPDATE\<close> stamps the rows it touches.\<close>

definition mark_not_bought :: "env \<Rightarrow> int \<Rightarrow> db \<Rightarrow> db result" where
  "mark_not_bought e i s =
    ebind (require_gift s i) (\<lambda>g.
      Inr (s\<lparr>transactions := map (\<lambda>t. if tx_gift_id t = Some i
        then t\<lparr>tx_gift_id := None, tx_updated_at := env_now e\<rparr> else t) (transactions s)\<rparr>))"

definition buyable_transactions :: "nat \<Rightarrow> db \<Rightarrow> transaction list" where
  "buyable_transactions limit s =
    take limit (newest_first (filter (\<lambda>t. tx_type t = EXPENSE \<and> tx_gift_id t = None) (transactions s)))"

text \<open>
  \<open>by_person\<close> keeps the persons in the order of their first gift; \<open>sorted\<close> is stable on the folded names.
\<close>

definition by_person :: "gift_response list \<Rightarrow> (string \<times> gift_response list) list" where
  "by_person rs = map (\<lambda>p. (p, filter (\<lambda>r. gr_person r = p) rs)) (rev (remdups (rev (map gr_person rs))))"

definition gift_summary :: "db \<Rightarrow> gifts_summary" where
  "gift_summary s =
    (let gs = list_gifts s;
         actuals = gift_actuals s (map gf_id gs);
         groups = map (\<lambda>(p, es). \<lparr>gg_person = p, gg_gifts = es, gg_subtotal = sum_list (map gr_amount es)\<rparr>)
           (sort_key (\<lambda>kv. casefold (fst kv)) (by_person (map (gift_to_response actuals) gs)))
     in \<lparr>gs_groups = groups, gs_yearly_total = sum_list (map gg_subtotal groups)\<rparr>)"

section \<open>The summary\<close>

lemma mset_concat_filters:
  assumes "distinct ps" and "\<forall>x \<in> set xs. f x \<in> set ps"
  shows "mset (concat (map (\<lambda>p. filter (\<lambda>x. f x = p) xs) ps)) = mset xs"
  using assms
proof (induction ps arbitrary: xs)
  case (Cons p ps)
  have "mset (concat (map (\<lambda>q. filter (\<lambda>x. f x = q) (filter (\<lambda>x. f x \<noteq> p) xs)) ps)) = mset (filter (\<lambda>x. f x \<noteq> p) xs)"
    using Cons by (intro Cons.IH) auto
  moreover have "map (\<lambda>q. filter (\<lambda>x. f x = q) (filter (\<lambda>x. f x \<noteq> p) xs)) ps = map (\<lambda>q. filter (\<lambda>x. f x = q) xs) ps"
    using Cons.prems(1) by (intro map_cong refl) (auto simp: filter_filter intro!: filter_cong)
  ultimately have "mset (concat (map (\<lambda>q. filter (\<lambda>x. f x = q) xs) ps)) = mset (filter (\<lambda>x. f x \<noteq> p) xs)" by metis
  then show ?case using multiset_partition [of "mset xs" "\<lambda>x. f x = p"] by simp
qed auto

text \<open>
  The gift list loses nothing. The groups of the summary hold every gift once, each under its own
  person, no person has two groups, and the yearly total is the sum of all planned amounts.
\<close>

lemma gift_summary_adds_up:
  "gs_yearly_total (gift_summary s) = sum_list (map gf_amount (gifts s)) \<and>
   mset (concat (map gg_gifts (gs_groups (gift_summary s)))) =
     mset (map (gift_to_response (gift_actuals s (map gf_id (list_gifts s)))) (gifts s)) \<and>
   distinct (map gg_person (gs_groups (gift_summary s))) \<and>
   (\<forall>g \<in> set (gs_groups (gift_summary s)). \<forall>r \<in> set (gg_gifts g). gr_person r = gg_person g)"
proof -
  let ?resp = "gift_to_response (gift_actuals s (map gf_id (list_gifts s)))"
  let ?rs = "map ?resp (list_gifts s)"
  let ?kv = "sort_key (\<lambda>kv. casefold (fst kv)) (by_person ?rs)"
  let ?grp = "\<lambda>(p, es). \<lparr>gg_person = p, gg_gifts = es, gg_subtotal = sum_list (map gr_amount es)\<rparr>"
  have groups: "gs_groups (gift_summary s) = map ?grp ?kv" by (simp add: gift_summary_def Let_def)
  have tot: "gs_yearly_total (gift_summary s) = sum_list (map gr_amount (concat (map snd ?kv)))"
    by (simp add: gift_summary_def Let_def comp_def case_prod_beta map_concat sum_list_concat_map)
  have m: "mset (concat (map snd ?kv)) = mset ?rs"
  proof -
    have "mset (concat (map snd ?kv)) = mset (concat (map snd (by_person ?rs)))"
      unfolding mset_concat by (intro sum_list_mset_eq) simp
    also have "\<dots> = mset ?rs"
      using mset_concat_filters [of "rev (remdups (rev (map gr_person ?rs)))" ?rs gr_person]
      by (simp add: by_person_def comp_def)
    finally show ?thesis .
  qed
  have lst: "mset ?rs = mset (map ?resp (gifts s))" by (simp add: list_gifts_def)
  have "sum_list (map gr_amount (concat (map snd ?kv))) = sum_list (map gr_amount (map ?resp (gifts s)))"
    by (rule sum_list_mset_eq) (metis m lst mset_map)
  then have "gs_yearly_total (gift_summary s) = sum_list (map gf_amount (gifts s))"
    by (simp add: tot gift_to_response_def Let_def comp_def)
  moreover have "mset (concat (map gg_gifts (gs_groups (gift_summary s)))) = mset (map ?resp (gifts s))"
    using m lst by (simp add: groups comp_def case_prod_beta)
  moreover have "distinct (map gg_person (gs_groups (gift_summary s)))"
  proof -
    have "distinct (map fst (by_person ?rs))" by (simp add: by_person_def comp_def)
    then have "distinct (map fst ?kv)" by (simp add: distinct_map)
    then show ?thesis by (simp add: groups comp_def case_prod_beta)
  qed
  moreover have "\<forall>g \<in> set (gs_groups (gift_summary s)). \<forall>r \<in> set (gg_gifts g). gr_person r = gg_person g"
    by (auto simp: groups by_person_def)
  ultimately show ?thesis by blast
qed

end
