(* ===== verification/IrregularItems.thy ===== *)
theory IrregularItems
  imports Gifts ReserveFunds Planned
begin

text \<open>
  \<open>src/src/kaleta/services/irregular_item_service.py\<close> with \<open>core/irregular.py\<close>: the yearly costs an
  irregular-expenses fund saves for, the monthly transfer that feeds it, the payments out of it and the
  history of its account. The component sits on four others: the fund is a reserve fund, the gifts add
  a derived line, the transfer is a plan, the payments are ledger rows.
\<close>

section \<open>Definitions\<close>

subsection \<open>The saving rule\<close>

definition IRREGULAR_DIVISOR :: decimal where
  "IRREGULAR_DIVISOR = 10"

definition monthly_contribution :: "decimal \<Rightarrow> decimal" where
  "monthly_contribution yearly = quantize ROUND_HALF_UP 2 (dec_div yearly IRREGULAR_DIVISOR)"

definition GIFTS_SOURCE :: string where
  "GIFTS_SOURCE = ''gifts''"

definition HISTORY_LIMIT :: nat where
  "HISTORY_LIMIT = 100"

subsection \<open>Payloads and views\<close>

record irregular_create =
  irc_name :: string
  irc_yearly_amount :: decimal
  irc_due_month :: "int option"
  irc_category_id :: "int option"

text \<open>A null name or amount is skipped by \<open>update\<close>, so that both are plain options.\<close>

record irregular_update =
  iru_name :: "string option"
  iru_yearly_amount :: "decimal option"
  iru_due_month :: "int option option"
  iru_category_id :: "int option option"

record derived_fund_item =
  dfi_source :: string
  dfi_yearly_amount :: decimal

record irregular_fund_plan =
  ifp_fund_id :: int
  ifp_fund_name :: string
  ifp_backing_account_id :: "int option"
  ifp_items :: "irregular_item list"
  ifp_derived_items :: "derived_fund_item list"
  ifp_yearly_total :: decimal
  ifp_monthly_total :: decimal
  ifp_balance :: decimal

record irregular_funding =
  ifc_from_account_id :: int
  ifc_start_date :: date

record irregular_payment =
  ipc_item_id :: "int option"
  ipc_amount :: decimal
  ipc_date :: date
  ipc_description :: string
  ipc_category_id :: "int option"

datatype irregular_entry_kind = CONTRIBUTION | PAYMENT | UNPLANNED | WITHDRAWAL

record irregular_fund_entry =
  ife_transaction_id :: int
  ife_date :: date
  ife_description :: string
  ife_amount :: decimal
  ife_kind :: irregular_entry_kind
  ife_item_id :: "int option"
  ife_item_name :: "string option"

definition irregular_payload :: "irregular_create \<Rightarrow> irregular_create result" where
  "irregular_payload d =
    raise_if (\<not> (1 \<le> length (irc_name d) \<and> length (irc_name d) \<le> 100 \<and> 0 < irc_yearly_amount d \<and>
        cents (irc_yearly_amount d) \<and>
        (case irc_due_month d of None \<Rightarrow> True | Some m \<Rightarrow> 1 \<le> m \<and> m \<le> 12))) ValueError (Inr d)"

subsection \<open>The fund and its plan\<close>

definition irregular_fund :: "db \<Rightarrow> int \<Rightarrow> reserve_fund result" where
  "irregular_fund s i =
    (case get_fund s i of
       None \<Rightarrow> Inl (NotFoundError ''errors.irregular_item.fund_not_found'')
     | Some f \<Rightarrow>
         raise_if (rf_kind f \<noteq> IRREGULAR) (ValidationError ''errors.irregular_item.not_irregular_fund'') (Inr f))"

definition item_order :: "irregular_item \<Rightarrow> bool \<times> int \<times> string" where
  "item_order x = (irr_due_month x = None, (case irr_due_month x of None \<Rightarrow> 0 | Some m \<Rightarrow> m), text_key (Some (irr_name x)))"

definition fund_items :: "db \<Rightarrow> int \<Rightarrow> irregular_item list result" where
  "fund_items s i =
    ebind (irregular_fund s i) (\<lambda>_.
      Inr (sort_key item_order (filter (\<lambda>x. irr_fund_id x = i) (irregular_items s))))"

definition primary_irregular_id :: "db \<Rightarrow> int option" where
  "primary_irregular_id s =
    (let ids = map rf_id (filter (\<lambda>f. rf_kind f = IRREGULAR \<and> \<not> rf_is_archived f) (funds s))
     in if ids = [] then None else Some (Min (set ids)))"

definition derived_items :: "db \<Rightarrow> reserve_fund \<Rightarrow> derived_fund_item list" where
  "derived_items s f =
    (let gifts_total = gs_yearly_total (gift_summary s)
     in if Some (rf_id f) \<noteq> primary_irregular_id s then []
        else if gifts_total \<le> 0 then []
        else [\<lparr>dfi_source = GIFTS_SOURCE, dfi_yearly_amount = gifts_total\<rparr>])"

definition fund_plan :: "db \<Rightarrow> int \<Rightarrow> irregular_fund_plan result" where
  "fund_plan s i =
    ebind (irregular_fund s i) (\<lambda>f.
    ebind (fund_items s i) (\<lambda>items.
    let derived = derived_items s f
    in Inr \<lparr>ifp_fund_id = rf_id f, ifp_fund_name = rf_name f, ifp_backing_account_id = rf_backing_account_id f,
         ifp_items = items, ifp_derived_items = derived,
         ifp_yearly_total = sum_list (map irr_yearly_amount items) + sum_list (map dfi_yearly_amount derived),
         ifp_monthly_total =
           sum_list (map (\<lambda>x. monthly_contribution (irr_yearly_amount x)) items) +
           sum_list (map (\<lambda>x. monthly_contribution (dfi_yearly_amount x)) derived),
         ifp_balance = (case rf_backing_account_id f of None \<Rightarrow> 0 | Some a \<Rightarrow> balance s a None)\<rparr>))"

subsection \<open>Items\<close>

definition create_item :: "int \<Rightarrow> irregular_create \<Rightarrow> db \<Rightarrow> (irregular_item \<times> db) result" where
  "create_item i d s =
    ebind (irregular_fund s i) (\<lambda>_.
    let x = \<lparr>irr_id = seq_irregular s, irr_fund_id = i, irr_name = irc_name d,
             irr_yearly_amount = irc_yearly_amount d, irr_due_month = irc_due_month d,
             irr_category_id = irc_category_id d\<rparr>
    in if fk_ok cat_id (categories s) (irr_category_id x)
       then Inr (x, s\<lparr>irregular_items := irregular_items s @ [x], seq_irregular := seq_irregular s + 1\<rparr>)
       else Inl (IntegrityError ''irregular_items''))"

definition require_item :: "db \<Rightarrow> int \<Rightarrow> irregular_item result" where
  "require_item s i =
    (case find_row irr_id i (irregular_items s) of
       None \<Rightarrow> Inl (NotFoundError ''errors.irregular_item.item_not_found'') | Some x \<Rightarrow> Inr x)"

definition update_item :: "int \<Rightarrow> irregular_update \<Rightarrow> db \<Rightarrow> (irregular_item \<times> db) result" where
  "update_item i u s =
    ebind (require_item s i) (\<lambda>x.
    let x' = patch (iru_category_id u) (\<lambda>v x. x\<lparr>irr_category_id := v\<rparr>)
            (patch (iru_due_month u) (\<lambda>v x. x\<lparr>irr_due_month := v\<rparr>)
            (patch (iru_yearly_amount u) (\<lambda>v x. x\<lparr>irr_yearly_amount := v\<rparr>)
            (patch (iru_name u) (\<lambda>v x. x\<lparr>irr_name := v\<rparr>) x)))
    in if fk_ok cat_id (categories s) (irr_category_id x')
       then Inr (x', s\<lparr>irregular_items := upd_row irr_id i (\<lambda>_. x') (irregular_items s)\<rparr>)
       else Inl (IntegrityError ''irregular_items''))"

text \<open>The payments of a deleted item stay, unlinked.\<close>

definition delete_item :: "int \<Rightarrow> db \<Rightarrow> db result" where
  "delete_item i s =
    ebind (require_item s i) (\<lambda>_.
      Inr (s\<lparr>irregular_items := del_row irr_id i (irregular_items s),
             transactions := map (\<lambda>t. t\<lparr>tx_irregular_id := unlinked i (tx_irregular_id t)\<rparr>) (transactions s)\<rparr>))"

subsection \<open>The monthly transfer\<close>

text \<open>The arrow between the account names, in UTF-8.\<close>

definition route_description :: "account \<Rightarrow> account \<Rightarrow> string" where
  "route_description source target =
    acc_name source @ '' '' @ map char_of [226, 134, 146 :: nat] @ '' '' @ acc_name target"

definition on_route :: "int \<Rightarrow> string \<Rightarrow> planned_transaction \<Rightarrow> bool" where
  "on_route source desc p \<longleftrightarrow>
    pt_is_active p \<and> pt_type p = TRANSFER \<and> pt_account_id p = source \<and> pt_description p = Some desc"

definition amount_update :: "decimal \<Rightarrow> planned_update" where
  "amount_update v = \<lparr>ptu_name = None, ptu_amount = Some v, ptu_type = None, ptu_account_id = None,
     ptu_category_id = None, ptu_description = None, ptu_frequency = None, ptu_interval = None,
     ptu_start_date = None, ptu_end_date = None, ptu_is_active = None\<rparr>"

definition funding_transfer :: "string \<Rightarrow> decimal \<Rightarrow> int \<Rightarrow> string \<Rightarrow> date \<Rightarrow> planned_transaction" where
  "funding_transfer name amount source desc start = \<lparr>pt_id = 0, pt_name = name, pt_amount = amount,
     pt_type = TRANSFER, pt_account_id = source, pt_target_account_id = None, pt_category_id = None,
     pt_description = Some desc, pt_payee_id = None, pt_frequency = MONTHLY, pt_interval = 1,
     pt_start_date = start, pt_end_date = None, pt_is_active = True\<rparr>"

definition create_funding_plan ::
  "int \<Rightarrow> irregular_funding \<Rightarrow> db \<Rightarrow> (planned_transaction \<times> db) result" where
  "create_funding_plan i payload s =
    ebind (fund_plan s i) (\<lambda>plan.
    case ifp_backing_account_id plan of
      None \<Rightarrow> Inl (ValidationError ''errors.irregular_item.fund_needs_account'')
    | Some backing \<Rightarrow>
        raise_if (ifp_monthly_total plan \<le> 0) (ValidationError ''errors.irregular_item.add_item_before_planning'')
        (raise_if (ifc_from_account_id payload = backing) (ValidationError ''errors.irregular_item.source_must_differ'')
        (case (get_account s (ifc_from_account_id payload), get_account s backing) of
           (Some source, Some target) \<Rightarrow>
             let desc = route_description source target
             in (case find (on_route (acc_id source) desc) (list_plans s) of
                   Some existing \<Rightarrow>
                     if pt_amount existing = ifp_monthly_total plan
                     then Inl (ConflictError ''errors.irregular_item.transfer_already_planned'')
                     else ebind (update_plan (pt_id existing) (amount_update (ifp_monthly_total plan)) s) (\<lambda>(refreshed, s').
                       case refreshed of
                         None \<Rightarrow> Inl (NotFoundError ''errors.irregular_item.planned_transfer_not_found'')
                       | Some p \<Rightarrow> Inr (p, s'))
                 | None \<Rightarrow> create_plan (funding_transfer (ifp_fund_name plan) (ifp_monthly_total plan)
                     (acc_id source) desc (ifc_start_date payload)) s)
         | _ \<Rightarrow> Inl (NotFoundError ''errors.irregular_item.account_not_found''))))"

subsection \<open>Payments and history\<close>

definition fund_account :: "db \<Rightarrow> int \<Rightarrow> int result" where
  "fund_account s i =
    ebind (irregular_fund s i) (\<lambda>f.
      case rf_backing_account_id f of
        None \<Rightarrow> Inl (ValidationError ''errors.irregular_item.fund_no_account'') | Some a \<Rightarrow> Inr a)"

definition fund_item :: "db \<Rightarrow> int \<Rightarrow> int \<Rightarrow> irregular_item result" where
  "fund_item s i x =
    ebind (require_item s x) (\<lambda>item.
      raise_if (irr_fund_id item \<noteq> i) (ValidationError ''errors.irregular_item.item_other_fund'') (Inr item))"

text \<open>Python's \<open>a or b\<close> on an id: zero is false.\<close>

definition id_or :: "int option \<Rightarrow> int option \<Rightarrow> int option" where
  "id_or a b = (if a = None \<or> a = Some 0 then b else a)"

definition payment_payload :: "int \<Rightarrow> int \<Rightarrow> irregular_payment \<Rightarrow> string \<Rightarrow> transaction_create" where
  "payment_payload account category d desc = \<lparr>tc_account_id = account, tc_category_id = Some category,
     tc_payee_id = None, tc_amount = ipc_amount d, tc_exchange_rate = None, tc_type = EXPENSE,
     tc_direction = None, tc_date = ipc_date d, tc_description = desc, tc_notes = None,
     tc_is_internal = False, tc_is_split = False, tc_linked_id = None, tc_planned_id = None,
     tc_splits = [], tc_tag_ids = [], tc_payee_name = None\<rparr>"

definition record_payment :: "env \<Rightarrow> int \<Rightarrow> irregular_payment \<Rightarrow> db \<Rightarrow> (transaction \<times> db) result" where
  "record_payment e i d s =
    ebind (fund_account s i) (\<lambda>account.
    ebind (case ipc_item_id d of
             None \<Rightarrow> Inr None | Some x \<Rightarrow> ebind (fund_item s i x) (\<lambda>item. Inr (Some item))) (\<lambda>item.
    case id_or (ipc_category_id d) (case item of None \<Rightarrow> None | Some x \<Rightarrow> irr_category_id x) of
      None \<Rightarrow> Inl (ValidationError ''errors.irregular_item.payment_needs_category'')
    | Some category \<Rightarrow>
        let desc = (if strip (ipc_description d) \<noteq> [] then strip (ipc_description d)
                    else case item of None \<Rightarrow> [] | Some x \<Rightarrow> irr_name x)
        in ebind (validate_rules (payment_payload account category d desc)) (\<lambda>p.
           ebind (create e p s) (\<lambda>(t, s1).
           case item of
             None \<Rightarrow> Inr (t, s1)
           | Some x \<Rightarrow>
               let t' = t\<lparr>tx_irregular_id := Some (irr_id x)\<rparr>
               in ebind (save_tx (env_now e) t' s1) (\<lambda>s2. Inr (t', s2))))))"

definition link_payment :: "env \<Rightarrow> int \<Rightarrow> int \<Rightarrow> int option \<Rightarrow> db \<Rightarrow> db result" where
  "link_payment e i tid item s =
    ebind (fund_account s i) (\<lambda>account.
    case get_tx s tid of
      None \<Rightarrow> Inl (NotFoundError ''errors.irregular_item.transaction_not_found'')
    | Some t \<Rightarrow>
        raise_if (tx_account_id t \<noteq> account \<or> tx_type t \<noteq> EXPENSE)
          (ValidationError ''errors.irregular_item.only_expense_is_payment'')
        (ebind (case item of None \<Rightarrow> Inr () | Some x \<Rightarrow> ebind (fund_item s i x) (\<lambda>_. Inr ())) (\<lambda>_.
          save_tx (env_now e) (t\<lparr>tx_irregular_id := item\<rparr>) s)))"

definition history_entry :: "(int \<rightharpoonup> string) \<Rightarrow> transaction \<Rightarrow> irregular_fund_entry" where
  "history_entry names t =
    (let incoming = (tx_type t = INCOME \<or> (tx_type t = TRANSFER \<and> tx_direction t = Some DIR_IN));
         item = (case tx_irregular_id t of None \<Rightarrow> None | Some x \<Rightarrow> if names x \<noteq> None then Some x else None);
         kind = (if incoming then CONTRIBUTION
                 else if tx_type t = EXPENSE then (if item \<noteq> None then PAYMENT else UNPLANNED)
                 else WITHDRAWAL)
     in \<lparr>ife_transaction_id = tx_id t, ife_date = tx_date t, ife_description = tx_description t,
         ife_amount = (if incoming then tx_amount t else - tx_amount t), ife_kind = kind,
         ife_item_id = item, ife_item_name = (case item of None \<Rightarrow> None | Some x \<Rightarrow> names x)\<rparr>)"

definition fund_history :: "db \<Rightarrow> int \<Rightarrow> irregular_fund_entry list result" where
  "fund_history s i =
    ebind (fund_account s i) (\<lambda>account.
    ebind (fund_items s i) (\<lambda>items.
      let names = map_of (map (\<lambda>x. (irr_id x, irr_name x)) items)
      in Inr (map (history_entry names)
        (take HISTORY_LIMIT (newest_first (filter (\<lambda>t. tx_account_id t = account) (transactions s)))))))"

section \<open>Ten months save the year\<close>

definition fund_lines :: "irregular_fund_plan \<Rightarrow> decimal list" where
  "fund_lines p = map irr_yearly_amount (ifp_items p) @ map dfi_yearly_amount (ifp_derived_items p)"

lemma contribution_error:
  assumes "cents y" and "0 \<le> y" and "y < 10 ^ 20"
  shows "\<bar>10 * monthly_contribution y - y\<bar> \<le> 1 / 20"
proof -
  from assms(1) obtain n where n: "y = of_int n / 100" by (rule centsE)
  have "\<bar>y / 10\<bar> < pow10 (28 - int 3)" using assms(2,3) by (simp add: pow10_def)
  moreover have "y / 10 * 10 ^ 3 = of_int n" by (simp add: n)
  ultimately have "dec_div y IRREGULAR_DIVISOR = y / 10"
    unfolding dec_div_def IRREGULAR_DIVISOR_def by (rule ctx_exact)
  then have "monthly_contribution y = quantize ROUND_HALF_UP 2 (y / 10)" by (simp only: monthly_contribution_def)
  then have "\<bar>monthly_contribution y - y / 10\<bar> \<le> 1 / 200" by (simp only: quantize_half_up_error)
  then show ?thesis by linarith
qed

lemma error_step:
  "\<bar>10 * a - b\<bar> \<le> 1 / 20 \<Longrightarrow> \<bar>10 * c - d\<bar> \<le> n / 20 \<Longrightarrow> \<bar>10 * (a + c) - (b + d)\<bar> \<le> (n + 1) / 20" for n :: decimal
  by (auto simp: abs_if field_simps split: if_splits)

lemma contributions_error:
  assumes "\<forall>y \<in> set ys. cents y \<and> 0 \<le> y \<and> y < 10 ^ 20"
  shows "\<bar>10 * sum_list (map monthly_contribution ys) - sum_list ys\<bar> \<le> of_nat (length ys) / 20"
  using assms
proof (induction ys)
  case (Cons y ys)
  then have "\<bar>10 * monthly_contribution y - y\<bar> \<le> 1 / 20"
    "\<bar>10 * sum_list (map monthly_contribution ys) - sum_list ys\<bar> \<le> of_nat (length ys) / 20"
    using contribution_error [of y] by auto
  from error_step [OF this] show ?case by (simp add: add.commute)
qed simp

lemma lines_bound: "\<forall>y \<in> set ys. 3 / 10 \<le> y \<Longrightarrow> of_nat (length ys) * (3 / 10) \<le> sum_list ys" for ys :: "decimal list"
  by (induction ys) (auto simp: algebra_simps)

lemma fund_plan_totals:
  assumes "fund_plan s i = Inr p"
  shows "ifp_yearly_total p = sum_list (fund_lines p)"
    and "ifp_monthly_total p = sum_list (map monthly_contribution (fund_lines p))"
  using assms by (auto simp: fund_plan_def ebind_Inr_iff Let_def fund_lines_def comp_def)

text \<open>
  A tenth a month saves the year. For a fund whose lines, the gifts line included, are all at
  least thirty groszy, ten monthly transfers come to the yearly total up to five groszy a line, and
  twelve always cover it.
\<close>

lemma saving_rule_covers_the_year:
  assumes "fund_plan s i = Inr p" and "\<forall>y \<in> set (fund_lines p). cents y \<and> 3 / 10 \<le> y \<and> y < 10 ^ 20"
  shows "\<bar>10 * ifp_monthly_total p - ifp_yearly_total p\<bar> \<le> of_nat (length (fund_lines p)) / 20 \<and>
    ifp_yearly_total p \<le> 12 * ifp_monthly_total p"
proof -
  have "\<bar>10 * ifp_monthly_total p - ifp_yearly_total p\<bar> \<le> of_nat (length (fund_lines p)) / 20"
    unfolding fund_plan_totals [OF assms(1)] by (rule contributions_error) (use assms(2) in force)
  moreover have "of_nat (length (fund_lines p)) * (3 / 10) \<le> ifp_yearly_total p"
    unfolding fund_plan_totals [OF assms(1)] by (rule lines_bound) (use assms(2) in blast)
  ultimately show ?thesis by (intro conjI) linarith+
qed

definition ex_irregular_fund :: reserve_fund where
  "ex_irregular_fund = ex_goal\<lparr>rf_kind := IRREGULAR, rf_backing_account_id := Some 1\<rparr>"

definition ex_item :: "int \<Rightarrow> decimal \<Rightarrow> int option \<Rightarrow> irregular_item" where
  "ex_item i y m = \<lparr>irr_id = i, irr_fund_id = 1, irr_name = ''Insurance'', irr_yearly_amount = y,
     irr_due_month = m, irr_category_id = None\<rparr>"

definition ex_irregular_db :: db where
  "ex_irregular_db = ex_goal_db\<lparr>funds := [ex_irregular_fund], irregular_items := [ex_item 1 100 None, ex_item 2 (33 / 100) (Some 5)],
     seq_irregular := 3, gifts := [\<lparr>gf_id = 1, gf_person = ''Ala'', gf_occasion = ''Birthday'', gf_amount = 50\<rparr>], seq_gift := 2\<rparr>"

lemma saving_rule_covers_the_year_witness:
  "\<exists>p. fund_plan ex_irregular_db 1 = Inr p \<and> ifp_yearly_total p \<le> 12 * ifp_monthly_total p \<and> length (fund_lines p) = 3"
proof -
  have "succeeds (fund_plan ex_irregular_db 1)" by code_simp
  then obtain p where p: "fund_plan ex_irregular_db 1 = Inr p" by (auto elim: succeedsE)
  have "(case fund_plan ex_irregular_db 1 of Inl e \<Rightarrow> [] | Inr p \<Rightarrow> fund_lines p) = [33 / 100, 100, 50]" by code_simp
  then have l: "fund_lines p = [33 / 100, 100, 50]" by (simp add: p)
  have "cents (33 / 100)" by (rule centsI [of _ 33]) simp
  moreover have "cents 100" "cents 50" by (simp_all add: cents_numeral)
  ultimately have "\<forall>y \<in> set (fund_lines p). cents y \<and> 3 / 10 \<le> y \<and> y < 10 ^ 20" by (simp add: l)
  from saving_rule_covers_the_year [OF p this] p l show ?thesis by simp
qed

section \<open>The history explains the balance\<close>

lemma history_entry_amount: "tx_check t \<Longrightarrow> ife_amount (history_entry names t) = signed_ledger_amount t"
  by (cases "tx_type t"; cases "tx_direction t"; cases "the (tx_direction t)")
    (auto simp: history_entry_def signed_ledger_amount_def tx_check_def Let_def)

lemma history_entry_id: "ife_transaction_id (history_entry names t) = tx_id t"
  by (simp add: history_entry_def Let_def)

lemma history_entry_payment:
  assumes "set items = {x \<in> set (irregular_items s). irr_fund_id x = i}"
  shows "ife_kind (history_entry (map_of (map (\<lambda>x. (irr_id x, irr_name x)) items)) t) = PAYMENT \<longleftrightarrow>
    tx_type t = EXPENSE \<and> (\<exists>x \<in> set (irregular_items s). irr_fund_id x = i \<and> tx_irregular_id t = Some (irr_id x))"
  using assms by (cases "tx_irregular_id t") (auto simp: history_entry_def Let_def map_of_eq_None_iff image_iff)

text \<open>
  The history explains the balance. While a fund's account has no more movements than the page
  shows, the opening balance and the signed amounts of the history add up to the account's balance,
  every movement is listed once, and an entry is a payment of an item exactly when its row is an
  expense linked to one of the fund's items.
\<close>

lemma history_explains_balance:
  assumes "books_ok s" and "fund_account s i = Inr a" and "get_account s a = Some acc"
    and "length (ledger_rows s None a) \<le> HISTORY_LIMIT"
  shows "\<exists>es. fund_history s i = Inr es \<and> acc_opening acc + sum_list (map ife_amount es) = balance s a None \<and>
    mset (map ife_transaction_id es) = mset (map tx_id (ledger_rows s None a)) \<and>
    (\<forall>en \<in> set es. ife_kind en = PAYMENT \<longleftrightarrow> (\<exists>t \<in> set (ledger_rows s None a). tx_id t = ife_transaction_id en \<and>
      tx_type t = EXPENSE \<and> (\<exists>x \<in> set (irregular_items s). irr_fund_id x = i \<and> tx_irregular_id t = Some (irr_id x))))"
proof -
  let ?rows = "ledger_rows s None a"
  let ?new = "newest_first ?rows"
  have rows: "filter (\<lambda>t. tx_account_id t = a) (transactions s) = ?rows" by (simp add: ledger_rows_def until_def)
  obtain f where "irregular_fund s i = Inr f" using assms(2) by (auto simp: fund_account_def ebind_Inr_iff)
  then obtain items where items: "fund_items s i = Inr items" "set items = {x \<in> set (irregular_items s). irr_fund_id x = i}"
    by (auto simp: fund_items_def)
  let ?names = "map_of (map (\<lambda>x. (irr_id x, irr_name x)) items)"
  have m: "mset ?new = mset ?rows" by (simp add: newest_first_def)
  then have len: "length ?new = length ?rows" and st: "set ?new = set ?rows"
    by (metis size_mset) (metis m set_mset_mset)
  have h: "fund_history s i = Inr (map (history_entry ?names) ?new)"
    using assms(2,4) items(1) len by (simp add: fund_history_def rows Let_def)
  have ok: "\<forall>t \<in> set ?rows. tx_check t" using assms(1) by (auto simp: books_ok_def ledger_ok_def ledger_rows_def)
  have "sum_list (map ife_amount (map (history_entry ?names) ?new)) = sum_list (map signed_ledger_amount ?new)"
    using ok st by (auto simp: history_entry_amount intro!: arg_cong [where f = sum_list])
  also have "\<dots> = sum_list (map signed_ledger_amount ?rows)"
    by (rule sum_list_mset_eq) (metis m mset_map)
  finally have "acc_opening acc + sum_list (map ife_amount (map (history_entry ?names) ?new)) = balance s a None"
    using balance_eq [OF _ assms(3)] assms(1) by (simp add: books_ok_def)
  moreover have "mset (map ife_transaction_id (map (history_entry ?names) ?new)) = mset (map tx_id ?rows)"
    unfolding mset_map m by (simp add: multiset.map_comp comp_def history_entry_def Let_def)
  moreover have "\<forall>en \<in> set (map (history_entry ?names) ?new). ife_kind en = PAYMENT \<longleftrightarrow>
      (\<exists>t \<in> set ?rows. tx_id t = ife_transaction_id en \<and> tx_type t = EXPENSE \<and>
        (\<exists>x \<in> set (irregular_items s). irr_fund_id x = i \<and> tx_irregular_id t = Some (irr_id x)))"
  proof
    fix en assume "en \<in> set (map (history_entry ?names) ?new)"
    then obtain t where t: "t \<in> set ?rows" "en = history_entry ?names t" using st by auto
    have "u = t" if "u \<in> set ?rows" "tx_id u = ife_transaction_id en" for u
      using that t assms(1)
      by (auto simp: books_ok_def ledger_ok_def ids_ok_def distinct_map inj_on_def ledger_rows_def history_entry_id)
    moreover have "tx_id t = ife_transaction_id en" by (simp add: t(2) history_entry_id)
    ultimately show "ife_kind en = PAYMENT \<longleftrightarrow>
      (\<exists>t \<in> set ?rows. tx_id t = ife_transaction_id en \<and> tx_type t = EXPENSE \<and>
        (\<exists>x \<in> set (irregular_items s). irr_fund_id x = i \<and> tx_irregular_id t = Some (irr_id x)))"
      using t(1) history_entry_payment [OF items(2), of t] t(2) by metis
  qed
  ultimately show ?thesis using h by blast
qed


lemma history_explains_balance_witness:
  "\<exists>es. fund_history ex_irregular_db 1 = Inr es \<and> 100 + sum_list (map ife_amount es) = balance ex_irregular_db 1 None \<and>
     mset (map ife_transaction_id es) = mset (map tx_id (ledger_rows ex_irregular_db None 1))"
proof -
  have ok: "books_ok ex_irregular_db" and g: "get_account ex_irregular_db 1 = Some (ex_account 1 100)"
    using ex_goal_db_ok(1,3)
    by (simp_all add: books_ok_def ledger_ok_def money_ok_def ex_irregular_db_def get_account_def)
  have a: "fund_account ex_irregular_db 1 = Inr 1" by code_simp
  have "length (ledger_rows ex_irregular_db None 1) \<le> HISTORY_LIMIT" by code_simp
  from history_explains_balance [OF ok a g this] show ?thesis by (auto simp: ex_account_def)
qed


section \<open>One transfer feeds the fund\<close>

lemma find_filter_single: "filter P xs = [x] \<Longrightarrow> find P xs = Some x"
  by (induction xs) (auto split: if_splits)

lemma filter_sort_single:
  assumes "length (filter P xs) \<le> 1"
  shows "filter P (sort_key k xs) = filter P xs"
proof -
  have "mset (filter P (sort_key k xs)) = mset (filter P xs)" by simp
  moreover from this have "length (filter P (sort_key k xs)) = length (filter P xs)" by (metis size_mset)
  ultimately show ?thesis using assms by (cases "filter P xs"; cases "filter P (sort_key k xs)") auto
qed

lemma filter_single_D:
  assumes "filter P xs = [x]" shows "x \<in> set xs" and "P x"
proof -
  have "x \<in> set (filter P xs)" by (simp add: assms)
  then show "x \<in> set xs" and "P x" by simp_all
qed

lemma filter_upd_row_single:
  assumes "filter P xs = [x]" and "distinct (map key xs)" and "P y" and "key y = key x"
  shows "filter P (upd_row key (key x) (\<lambda>_. y) xs) = [y]"
  using assms(1,2)
proof (induction xs)
  case (Cons z xs)
  show ?case
  proof (cases "P z")
    case True
    with Cons.prems have z: "z = x" "filter P xs = []" "key x \<notin> key ` set xs" by auto
    then show ?thesis using assms(3) by (simp add: upd_row_absent)
  next
    case False
    with Cons.prems have "filter P xs = [x]" by simp
    then have "x \<in> set xs" by (rule filter_single_D)
    with Cons.prems have "key z \<noteq> key x" by auto
    with False Cons show ?thesis by simp
  qed
qed simp

lemma gift_summary_cong:
  assumes "gifts s' = gifts s" and "transactions s' = transactions s"
  shows "gift_summary s' = gift_summary s"
proof -
  have "gift_actuals s' = gift_actuals s" by (intro ext) (simp add: gift_actuals_def assms)
  then show ?thesis by (simp add: gift_summary_def list_gifts_def assms)
qed

lemma fund_plan_cong:
  assumes "funds s' = funds s" and "irregular_items s' = irregular_items s" and "gifts s' = gifts s"
    and "accounts s' = accounts s" and "transactions s' = transactions s"
  shows "fund_plan s' i = fund_plan s i"
proof -
  have "irregular_fund s' = irregular_fund s" by (intro ext) (simp add: irregular_fund_def get_fund_def assms)
  moreover from this have "fund_items s' = fund_items s" by (intro ext) (simp add: fund_items_def assms)
  moreover have "derived_items s' = derived_items s"
    by (intro ext) (simp add: derived_items_def primary_irregular_id_def assms(1) gift_summary_cong [OF assms(3,5)])
  moreover have "balance s' = balance s" by (rule balance_cong) (simp_all add: assms)
  ultimately show ?thesis by (simp add: fund_plan_def cong: option.case_cong)
qed

lemma fund_plan_plans [simp]: "fund_plan (s\<lparr>plans := ps\<rparr>) i = fund_plan s i"
  "fund_plan (s\<lparr>plans := ps, seq_plan := n\<rparr>) i = fund_plan s i"
  by (rule fund_plan_cong; simp)+

lemma amount_update_fields: "apply_plan_update (amount_update v) p = p\<lparr>pt_amount := v\<rparr>"
  by (simp add: apply_plan_update_def amount_update_def)

lemma route_refresh:
  assumes "update_plan (pt_id q) (amount_update v) s = Inr (Some p, s')" and "distinct (map pt_id (plans s))"
    and "filter (on_route a d) (plans s) = [q]"
  shows "filter (on_route a d) (plans s') = [p]" and "pt_amount p = v" and "s' = s\<lparr>plans := plans s'\<rparr>"
proof -
  have q: "q \<in> set (plans s)" "on_route a d q" using filter_single_D [OF assms(3)] by simp_all
  have g: "get_plan s (pt_id q) = Some q" unfolding get_plan_def by (rule find_row_member [OF assms(2) q(1)])
  let ?p = "q\<lparr>pt_amount := v\<rparr>"
  have s': "s' = s\<lparr>plans := upd_row pt_id (pt_id q) (\<lambda>_. ?p) (plans s)\<rparr>" "get_plan s' (pt_id q) = Some p"
    using assms(1) g by (auto simp: update_plan_def amount_update_fields save_plan_def ebind_Inr_iff split: if_splits)
  then have p: "p = ?p" using g find_row_upd_const_key [of pt_id "pt_id q" ?p "plans s"] by (simp add: get_plan_def)
  show "pt_amount p = v" by (simp add: p)
  show "filter (on_route a d) (plans s') = [p]"
    using filter_upd_row_single [OF assms(3,2), of ?p] q(2) by (simp add: s'(1) p on_route_def)
  show "s' = s\<lparr>plans := plans s'\<rparr>" by (simp add: s'(1))
qed

definition funding_route :: "db \<Rightarrow> irregular_fund_plan \<Rightarrow> irregular_funding \<Rightarrow> string" where
  "funding_route s plan payload =
    route_description (the (get_account s (ifc_from_account_id payload))) (the (get_account s (the (ifp_backing_account_id plan))))"

definition fundable :: "db \<Rightarrow> irregular_fund_plan \<Rightarrow> irregular_funding \<Rightarrow> bool" where
  "fundable s plan payload \<longleftrightarrow> 0 < ifp_monthly_total plan \<and>
    (\<exists>b. ifp_backing_account_id plan = Some b \<and> ifc_from_account_id payload \<noteq> b \<and>
      get_account s (ifc_from_account_id payload) \<noteq> None \<and> get_account s b \<noteq> None)"

lemma create_funding_plan_eq:
  assumes "fund_plan s i = Inr plan" and "fundable s plan payload"
  shows "create_funding_plan i payload s =
    (case find (on_route (ifc_from_account_id payload) (funding_route s plan payload)) (list_plans s) of
       Some existing \<Rightarrow>
         if pt_amount existing = ifp_monthly_total plan
         then Inl (ConflictError ''errors.irregular_item.transfer_already_planned'')
         else ebind (update_plan (pt_id existing) (amount_update (ifp_monthly_total plan)) s) (\<lambda>(refreshed, s').
           case refreshed of
             None \<Rightarrow> Inl (NotFoundError ''errors.irregular_item.planned_transfer_not_found'')
           | Some p \<Rightarrow> Inr (p, s'))
     | None \<Rightarrow> create_plan (funding_transfer (ifp_fund_name plan) (ifp_monthly_total plan)
         (ifc_from_account_id payload) (funding_route s plan payload) (ifc_start_date payload)) s)"
proof -
  from assms(2) obtain b source target where
    b: "ifp_backing_account_id plan = Some b" "get_account s (ifc_from_account_id payload) = Some source"
      "get_account s b = Some target" "ifc_from_account_id payload \<noteq> b" "\<not> ifp_monthly_total plan \<le> 0"
    by (auto simp: fundable_def)
  moreover have "acc_id source = ifc_from_account_id payload"
    using b(2) by (auto simp: get_account_def dest: find_row_Some_D)
  ultimately show ?thesis by (simp add: create_funding_plan_def assms(1) funding_route_def split: option.split)
qed

lemma create_funding_plan_fundable:
  "create_funding_plan i payload s = Inr r \<Longrightarrow> fund_plan s i = Inr plan \<Longrightarrow> fundable s plan payload"
  by (auto simp: create_funding_plan_def fundable_def raise_if_Inr_iff split: option.splits)

lemma funding_plan_effect:
  assumes "create_funding_plan i payload s = Inr (p, s')" and "fund_plan s i = Inr plan"
    and "length (filter (on_route (ifc_from_account_id payload) (funding_route s plan payload)) (plans s)) \<le> 1"
    and "distinct (map pt_id (plans s))"
  shows "filter (on_route (ifc_from_account_id payload) (funding_route s plan payload)) (plans s') = [p]"
    and "pt_amount p = ifp_monthly_total plan"
    and "\<exists>ps. s' = s\<lparr>plans := ps\<rparr> \<or> s' = s\<lparr>plans := ps, seq_plan := seq_plan s + 1\<rparr>"
proof -
  let ?P = "on_route (ifc_from_account_id payload) (funding_route s plan payload)"
  note eq = create_funding_plan_eq [OF assms(2) create_funding_plan_fundable [OF assms(1,2)]]
  have "filter ?P (plans s') = [p] \<and> pt_amount p = ifp_monthly_total plan \<and>
    (\<exists>ps. s' = s\<lparr>plans := ps\<rparr> \<or> s' = s\<lparr>plans := ps, seq_plan := seq_plan s + 1\<rparr>)"
  proof (cases "filter ?P (plans s)")
    case Nil
    then have "find ?P (list_plans s) = None" by (auto simp: find_None_iff list_plans_def filter_empty_conv)
    with assms(1) have "create_plan (funding_transfer (ifp_fund_name plan) (ifp_monthly_total plan)
        (ifc_from_account_id payload) (funding_route s plan payload) (ifc_start_date payload)) s = Inr (p, s')"
      by (simp add: eq)
    with Nil show ?thesis
      by (auto simp: create_plan_def Let_def funding_transfer_def on_route_def split: if_splits)
  next
    case (Cons q qs)
    with assms(3) have q: "filter ?P (plans s) = [q]" by simp
    with filter_sort_single [OF assms(3)] have "find ?P (list_plans s) = Some q"
      unfolding list_plans_def by (intro find_filter_single) simp
    with assms(1) have "update_plan (pt_id q) (amount_update (ifp_monthly_total plan)) s = Inr (Some p, s')"
      by (auto simp: eq ebind_Inr_iff split: if_splits option.splits)
    from route_refresh [OF this assms(4) q] show ?thesis by blast
  qed
  then show "filter ?P (plans s') = [p]" "pt_amount p = ifp_monthly_total plan"
    "\<exists>ps. s' = s\<lparr>plans := ps\<rparr> \<or> s' = s\<lparr>plans := ps, seq_plan := seq_plan s + 1\<rparr>" by blast+
qed

text \<open>
  The fund is fed by one transfer. Where at most one active transfer runs on the route from the
  chosen account to the fund's, \<open>create_funding_plan\<close> leaves exactly one there, the one it returns,
  whose amount is the monthly total of the plan: a changed total refreshes it in place. Asking again
  for the same route is refused as a conflict.
\<close>

lemma funding_plan_is_single:
  assumes "create_funding_plan i payload s = Inr (p, s')" and "fund_plan s i = Inr plan"
    and "length (filter (on_route (ifc_from_account_id payload) (funding_route s plan payload)) (plans s)) \<le> 1"
    and "distinct (map pt_id (plans s))"
  shows "filter (on_route (ifc_from_account_id payload) (funding_route s plan payload)) (plans s') = [p] \<and>
    pt_amount p = ifp_monthly_total plan \<and>
    create_funding_plan i payload s' = Inl (ConflictError ''errors.irregular_item.transfer_already_planned'')"
proof -
  let ?P = "on_route (ifc_from_account_id payload) (funding_route s plan payload)"
  note eff = funding_plan_effect [OF assms]
  from eff(3) have f: "fund_plan s' i = Inr plan" "get_account s' = get_account s"
    using assms(2) by (auto simp: get_account_def [abs_def])
  have "length (filter ?P (plans s')) \<le> 1" by (simp add: eff(1))
  from filter_sort_single [OF this] have "find ?P (list_plans s') = Some p"
    unfolding list_plans_def by (intro find_filter_single) (simp add: eff(1))
  moreover have "fundable s' plan payload" "funding_route s' plan payload = funding_route s plan payload"
    using create_funding_plan_fundable [OF assms(1,2)] by (simp_all add: fundable_def funding_route_def f(2))
  ultimately show ?thesis using create_funding_plan_eq [OF f(1), of payload] eff(1,2) by simp
qed

definition ex_funding :: irregular_funding where
  "ex_funding = \<lparr>ifc_from_account_id = 2, ifc_start_date = Date 2026 4 1\<rparr>"

lemma funding_plan_is_single_witness:
  "\<exists>plan p s'. fund_plan ex_irregular_db 1 = Inr plan \<and> create_funding_plan 1 ex_funding ex_irregular_db = Inr (p, s') \<and>
     plans s' = [p] \<and> pt_amount p = ifp_monthly_total plan \<and>
     create_funding_plan 1 ex_funding s' = Inl (ConflictError ''errors.irregular_item.transfer_already_planned'')"
proof -
  have "succeeds (fund_plan ex_irregular_db 1)" by code_simp
  then obtain plan where plan: "fund_plan ex_irregular_db 1 = Inr plan" by (auto elim: succeedsE)
  have "succeeds (create_funding_plan 1 ex_funding ex_irregular_db)" by code_simp
  then obtain p s' where r: "create_funding_plan 1 ex_funding ex_irregular_db = Inr (p, s')" by (auto elim: succeedsE)
  have e: "plans ex_irregular_db = []" by code_simp
  have "plans (snd (case create_funding_plan 1 ex_funding ex_irregular_db of Inr x \<Rightarrow> x | Inl _ \<Rightarrow> (funding_transfer [] 0 0 [] (Date 1 1 1), empty_db))) =
     [fst (case create_funding_plan 1 ex_funding ex_irregular_db of Inr x \<Rightarrow> x | Inl _ \<Rightarrow> (funding_transfer [] 0 0 [] (Date 1 1 1), empty_db))]"
    by code_simp
  then have "plans s' = [p]" by (simp add: r)
  with funding_plan_is_single [OF r plan] r plan e show ?thesis by simp
qed

text \<open>The transfer names no target account, so that posting it never credits the fund.\<close>

lemma funding_plan_never_credits_the_fund:
  assumes "create_plan (funding_transfer name amount source desc start) s = Inr (p, s')" and "a \<noteq> source"
  shows "plan_effect p a = 0"
  using assms by (auto simp: create_plan_def Let_def funding_transfer_def plan_effect_def split: if_splits)

end
