(* ===== verification/Merchants.thy ===== *)
theory Merchants
  imports Categories Floats Transactions
begin

text \<open>
  What the detectors of recurring charges share: the merchant key of a description
  (\<open>src/src/kaleta/services/merchant_key.py\<close>), the amount bucket, the median of a group of charges and
  the most common category. The central fact is that the median of charges that fall into one bucket
  falls into that bucket too, although the bucket goes through a binary float and the median through
  the decimal context.
\<close>

section \<open>Definitions\<close>

definition upper_char :: "char \<Rightarrow> char" where
  "upper_char c =
    (let n = of_char c :: nat in if 97 \<le> n \<and> n \<le> 122 then char_of (n - 32) else c)"

definition MERCHANT_KEY_MAX_LEN :: nat where
  "MERCHANT_KEY_MAX_LEN = 40"

definition merchant_key_from_description :: "string option \<Rightarrow> string" where
  "merchant_key_from_description desc =
    (case desc of
       None \<Rightarrow> []
     | Some d \<Rightarrow>
         if d = [] then []
         else let first = takeWhile (\<lambda>c. c \<noteq> CHR ''/'') d;
                  first = map upper_char (strip (collapse_in False first))
              in take MERCHANT_KEY_MAX_LEN first)"

definition merchant_key_index :: "(string \<Rightarrow> string) \<Rightarrow> string option \<Rightarrow> string option" where
  "merchant_key_index hmac key =
    (case key of None \<Rightarrow> None | Some k \<Rightarrow> if k = [] then None else Some (blind_index hmac k))"

text \<open>\<open>str\<close> of an integer\<close>

definition digit_char :: "nat \<Rightarrow> char" where
  "digit_char d = char_of (48 + d)"

fun str_nat :: "nat \<Rightarrow> string" where
  "str_nat n = (if n < 10 then [digit_char n] else str_nat (n div 10) @ [digit_char (n mod 10)])"

definition str_int :: "int \<Rightarrow> string" where
  "str_int i = (if i < 0 then CHR ''-'' # str_nat (nat (- i)) else str_nat (nat i))"

text \<open>\<open>str(round(float(amount)))\<close>\<close>

definition amount_bucket :: "decimal \<Rightarrow> string" where
  "amount_bucket amount = str_int (round_to_int ROUND_HALF_EVEN (to_float amount))"

definition median :: "decimal list \<Rightarrow> decimal" where
  "median values =
    (let s = sort values; n = length s; mid = n div 2
     in if n = 0 then 0
        else if n mod 2 = 1 then s ! mid
        else quantize ROUND_HALF_EVEN 2 (dec_div (s ! (mid - 1) + s ! mid) 2))"

text \<open>The keys of a dict in the order of their first insertion.\<close>

definition firsts :: "'a list \<Rightarrow> 'a list" where
  "firsts xs = rev (remdups (rev xs))"

text \<open>\<open>dict.setdefault\<close> or \<open>defaultdict(list)\<close> filled from a list: the groups in the order of their keys.\<close>

definition group_rows :: "('a \<Rightarrow> 'k) \<Rightarrow> 'a list \<Rightarrow> ('k \<times> 'a list) list" where
  "group_rows key xs = map (\<lambda>k. (k, filter (\<lambda>x. key x = k) xs)) (firsts (map key xs))"

text \<open>\<open>Counter(xs).most_common(1)[0][0]\<close>: the first key with the highest count.\<close>

fun first_max :: "('a \<Rightarrow> nat) \<Rightarrow> 'a list \<Rightarrow> 'a option" where
  "first_max f [] = None"
| "first_max f (x # xs) =
    (case first_max f xs of None \<Rightarrow> Some x | Some y \<Rightarrow> if f x < f y then Some y else Some x)"

definition most_common :: "'a list \<Rightarrow> 'a option" where
  "most_common xs = first_max (count_list xs) (firsts xs)"

lemma in_map_filter [simp]: "y \<in> set (List.map_filter f xs) \<longleftrightarrow> (\<exists>x \<in> set xs. f x = Some y)"
  by (induction xs) (auto simp: map_filter_simps split: option.splits)

section \<open>Groups\<close>

lemma firsts_filter: "firsts (filter P xs) = filter P (firsts xs)"
  by (simp add: firsts_def rev_filter remdups_filter)

lemma set_firsts [simp]: "set (firsts xs) = set xs"
  by (simp add: firsts_def)

lemma distinct_firsts [simp]: "distinct (firsts xs)"
  by (simp add: firsts_def)

lemma group_rows_filter:
  "group_rows key (filter (\<lambda>x. P (key x)) xs) = filter (\<lambda>g. P (fst g)) (group_rows key xs)"
proof -
  have "map key (filter (\<lambda>x. P (key x)) xs) = filter P (map key xs)" by (simp add: filter_map comp_def)
  then have "firsts (map key (filter (\<lambda>x. P (key x)) xs)) = filter P (firsts (map key xs))"
    by (simp only: firsts_filter)
  moreover have "filter (\<lambda>x. key x = k) (filter (\<lambda>x. P (key x)) xs) = filter (\<lambda>x. key x = k) xs" if "P k" for k
    using that by (auto intro: filter_cong)
  ultimately show ?thesis by (simp add: group_rows_def filter_map comp_def)
qed

lemma group_rows_member:
  assumes "(k, us) \<in> set (group_rows key xs)"
  shows "us \<noteq> []" and "\<forall>x \<in> set us. key x = k" and "set us \<subseteq> set xs"
  using assms by (auto simp: group_rows_def filter_empty_conv)

section \<open>Integers as text\<close>

declare str_nat.simps [simp del]

definition digits_value :: "string \<Rightarrow> nat" where
  "digits_value = foldl (\<lambda>a c. 10 * a + (of_char c - 48)) 0"

lemma digits_value_str_nat: "digits_value (str_nat n) = n"
proof (induction n rule: str_nat.induct)
  case (1 n)
  then show ?case by (simp add: str_nat.simps [of n] digits_value_def digit_char_def)
qed

lemma str_int_inj: "0 \<le> i \<Longrightarrow> 0 \<le> j \<Longrightarrow> str_int i = str_int j \<longleftrightarrow> i = j"
  by (metis digits_value_str_nat eq_nat_nat_iff not_less str_int_def)

section \<open>Rounding is monotone\<close>

lemma round_half_even_mono:
  assumes "x \<le> y" shows "round_to_int ROUND_HALF_EVEN x \<le> round_to_int ROUND_HALF_EVEN y"
proof (rule ccontr)
  define n m where "n = round_to_int ROUND_HALF_EVEN x" and "m = round_to_int ROUND_HALF_EVEN y"
  assume neg: "\<not> ?thesis"
  then have "m + 1 \<le> n" by (simp add: n_def m_def del: round_to_int.simps)
  then have "(of_int m :: rat) + 1 \<le> of_int n" by linarith
  moreover have "\<bar>of_int n - x\<bar> \<le> 1 / 2" "\<bar>of_int m - y\<bar> \<le> 1 / 2"
    unfolding n_def m_def by (rule round_half_even_error)+
  ultimately have "x = y" using assms by linarith
  then show False using neg by simp
qed

lemma quantize_mono: "x \<le> y \<Longrightarrow> quantize ROUND_HALF_EVEN n x \<le> quantize ROUND_HALF_EVEN n y"
  unfolding quantize_def
  by (intro divide_right_mono of_int_le_iff [THEN iffD2] round_half_even_mono mult_right_mono) auto

lemma round_half_even_near: "\<bar>y - of_int n\<bar> < 1 / 2 \<Longrightarrow> round_to_int ROUND_HALF_EVEN y = n"
proof -
  assume a: "\<bar>y - of_int n\<bar> < 1 / 2"
  have "\<bar>of_int (round_to_int ROUND_HALF_EVEN y) - y\<bar> \<le> 1 / 2" by (rule round_half_even_error)
  with a have "\<bar>of_int (round_to_int ROUND_HALF_EVEN y) - of_int n :: rat\<bar> < 1" by linarith
  then show ?thesis by linarith
qed

section \<open>Buckets\<close>

text \<open>A value of at most 53 bits after the binary point is moved \<open>k\<close> places is kept.\<close>

lemma to_float_exact:
  assumes "x * 2 ^ k = of_int n" and "0 < n" and "n < 2 ^ 53"
  shows "to_float x = x"
proof -
  have x: "0 < x" using assms(1,2)
    by (metis of_int_0_less_iff zero_less_mult_pos2 zero_less_numeral zero_less_power)
  define e where "e = 52 - bin_exp x"
  have "pow2 (bin_exp x) * 2 ^ k \<le> of_int n"
    unfolding assms(1) [symmetric] by (rule mult_right_mono [OF bin_exp_lower [OF x]]) simp
  then have "pow2 (bin_exp x + int k) \<le> of_int n" by (simp add: pow2_add pow2_def [of "int k"])
  also have "\<dots> < pow2 53" using assms(3) by (simp add: pow2_def flip: of_int_power)
  finally have "bin_exp x + int k < 53" using pow2_mono [of 53 "bin_exp x + int k"] by linarith
  then have e: "int k \<le> e" by (simp add: e_def)
  have "x * pow2 e = x * 2 ^ k * pow2 (e - int k)"
    using pow2_add [of "int k" "e - int k"] by (simp add: pow2_def [of "int k"])
  also have "\<dots> = of_int (n * 2 ^ nat (e - int k))" using e by (simp add: assms(1) pow2_def)
  finally have i: "x * pow2 e = of_int (n * 2 ^ nat (e - int k))" .
  then have "of_int (round_to_int ROUND_HALF_EVEN (x * pow2 e)) = x * pow2 e"
    by (simp only: round_to_int_of_int)
  then show ?thesis using x by (simp add: to_float_def Let_def e_def [symmetric] del: round_to_int.simps)
qed

definition money_range :: "decimal \<Rightarrow> bool" where
  "money_range x \<longleftrightarrow> cents x \<and> 0 \<le> x \<and> x < 10 ^ 13"

lemma bucket_number:
  assumes "money_range x"
  shows "round_to_int ROUND_HALF_EVEN (to_float x) = round_to_int ROUND_HALF_EVEN x"
proof (cases "x * 2 = of_int (2 * \<lfloor>x\<rfloor> + 1)")
  case True
  have "0 \<le> \<lfloor>x\<rfloor>" "\<lfloor>x\<rfloor> < 10 ^ 13" using assms by (auto simp: money_range_def floor_less_iff)
  then have "to_float x = x" using True by (intro to_float_exact [of _ 1 "2 * \<lfloor>x\<rfloor> + 1"]) auto
  then show ?thesis by simp
next
  case False
  define f where "f = \<lfloor>x\<rfloor>"
  obtain n where n: "x = of_int n / 100" using assms by (auto simp: money_range_def elim: centsE)
  have fx: "of_int f \<le> x" "x < of_int f + 1" unfolding f_def by linarith+
  have "\<bar>to_float x - x\<bar> \<le> x / 2 ^ 53" using assms by (intro to_float_error) (simp add: money_range_def)
  also have "\<dots> < 10 ^ 13 / 2 ^ 53" using assms by (intro divide_strict_right_mono) (auto simp: money_range_def)
  also have "(10 ^ 13 :: rat) / 2 ^ 53 < 1 / 200" by simp
  finally have near: "\<bar>to_float x - x\<bar> < 1 / 200" .
  have "2 * n \<noteq> 100 * (2 * f + 1)" using False by (auto simp: n f_def field_simps)
  then have "n < 100 * f + 50 \<or> 100 * f + 50 < n" by presburger
  then consider "n + 1 \<le> 100 * f + 50" | "100 * f + 51 \<le> n" by linarith
  then show ?thesis
  proof cases
    case 1
    then have "x \<le> of_int f + 49 / 100" unfolding n by (simp add: field_simps)
    with fx near have "\<bar>to_float x - of_int f\<bar> < 1 / 2" "\<bar>x - of_int f\<bar> < 1 / 2" by linarith+
    then show ?thesis by (simp only: round_half_even_near)
  next
    case 2
    then have "of_int f + 51 / 100 \<le> x" unfolding n by (simp add: field_simps)
    with fx near have "\<bar>to_float x - of_int (f + 1)\<bar> < 1 / 2" "\<bar>x - of_int (f + 1)\<bar> < 1 / 2"
      unfolding of_int_add of_int_1 by linarith+
    then show ?thesis by (simp only: round_half_even_near)
  qed
qed

lemma same_bucket_iff:
  assumes "money_range x" and "money_range y"
  shows "amount_bucket x = amount_bucket y \<longleftrightarrow> round_to_int ROUND_HALF_EVEN x = round_to_int ROUND_HALF_EVEN y"
  using assms by (simp add: amount_bucket_def bucket_number str_int_inj money_range_def round_to_int_nonneg del: round_to_int.simps)

lemma bucket_between:
  assumes "money_range x" "money_range y" "money_range z" and "x \<le> y" "y \<le> z"
    and "amount_bucket x = amount_bucket z"
  shows "amount_bucket y = amount_bucket x"
  using assms round_half_even_mono [OF assms(4)] round_half_even_mono [OF assms(5)]
  by (simp add: same_bucket_iff del: round_to_int.simps)

section \<open>The median\<close>

lemma half_sum_exact:
  assumes "money_range x" and "money_range y"
  shows "dec_div (x + y) 2 = (x + y) / 2"
proof -
  have "cents (x + y)" using assms by (simp add: money_range_def)
  then obtain n where "x + y = of_int n / 100" by (rule centsE)
  then have "(x + y) / 2 * 10 ^ 3 = of_int (5 * n)" by simp
  moreover have "\<bar>(x + y) / 2\<bar> < pow10 (28 - int 3)" using assms by (simp add: money_range_def pow10_def)
  ultimately show ?thesis unfolding dec_div_def by (intro ctx_exact)
qed

lemma median_between:
  assumes "vs \<noteq> []" and "\<forall>v \<in> set vs. money_range v"
  shows "\<exists>a \<in> set vs. \<exists>b \<in> set vs. a \<le> median vs \<and> median vs \<le> b \<and> money_range (median vs)"
proof -
  define s n where "s = sort vs" and "n = length vs"
  have n: "length s = n" "0 < n" and st: "set s = set vs" using assms(1) by (simp_all add: s_def n_def)
  show ?thesis
  proof (cases "n mod 2 = 1")
    case True
    then have m: "median vs = s ! (n div 2)" using n by (auto simp: median_def s_def [symmetric] Let_def)
    have "n div 2 < n" using n by simp
    then have "median vs \<in> set vs" using n(1) st m by (metis nth_mem)
    with assms(2) show ?thesis by blast
  next
    case False
    define a b where "a = s ! (n div 2 - 1)" and "b = s ! (n div 2)"
    have i: "n div 2 < length s" "n div 2 - 1 < length s" using n by auto
    have mem: "a \<in> set vs" "b \<in> set vs" using i st by (metis a_def b_def nth_mem)+
    then have r: "money_range a" "money_range b" using assms(2) by auto
    have "a \<le> b" unfolding a_def b_def by (rule sorted_nth_mono) (use i in \<open>auto simp: s_def\<close>)
    have "median vs = quantize ROUND_HALF_EVEN 2 (dec_div (a + b) 2)"
      using False n by (auto simp: median_def s_def [symmetric] a_def b_def Let_def)
    then have "median vs = quantize ROUND_HALF_EVEN 2 ((a + b) / 2)" by (simp only: half_sum_exact [OF r])
    moreover have "a \<le> (a + b) / 2" "(a + b) / 2 \<le> b" using \<open>a \<le> b\<close> by (simp_all add: field_simps)
    moreover have "quantize ROUND_HALF_EVEN 2 a = a" "quantize ROUND_HALF_EVEN 2 b = b" using r by (simp_all add: money_range_def)
    ultimately have m: "a \<le> median vs" "median vs \<le> b" "cents (median vs)"
      using quantize_mono [of a "(a + b) / 2" 2] quantize_mono [of "(a + b) / 2" b 2] by simp_all
    then have "money_range (median vs)" using r by (auto simp: money_range_def)
    with m mem show ?thesis by blast
  qed
qed

text \<open>The median of charges of one bucket is in that bucket.\<close>

lemma median_bucket:
  assumes "vs \<noteq> []" and "\<forall>v \<in> set vs. money_range v \<and> amount_bucket v = b"
  shows "amount_bucket (median vs) = b" and "money_range (median vs)"
proof -
  have "\<forall>v \<in> set vs. money_range v" using assms(2) by blast
  from median_between [OF assms(1) this] obtain x y where
    xy: "x \<in> set vs" "y \<in> set vs" "x \<le> median vs" "median vs \<le> y" and r: "money_range (median vs)" by blast
  with assms(2) have "money_range x" "money_range y" "amount_bucket x = b" "amount_bucket y = b" by blast+
  with bucket_between [of x "median vs" y] xy(3,4) r show "amount_bucket (median vs) = b" by simp
  show "money_range (median vs)" by (rule r)
qed

text \<open>A keyed hash for the examples.\<close>

definition ex_hash :: "string \<Rightarrow> string" where
  "ex_hash x = x"

end
