(* ===== verification/Subscriptions.thy ===== *)
theory Subscriptions
  imports Merchants Planned Recurrence
begin

text \<open>
  \<open>src/src/kaleta/services/subscription_service.py\<close>: tracked subscriptions and their cancellation,
  the detector that proposes recurring charges from the ledger, its dismissals, and the filing of past
  charges under a purpose category. \<open>clock\<close> stands for \<open>datetime.date.today()\<close> where the code reads it
  although a reference day was passed; \<open>ref\<close> is \<open>today or datetime.date.today()\<close>.
\<close>

section \<open>Definitions\<close>

subsection \<open>Constants and payloads\<close>

definition DETECTOR_WINDOW_DAYS :: int where "DETECTOR_WINDOW_DAYS = 730"
definition CADENCE_MONTHLY_DAYS :: int where "CADENCE_MONTHLY_DAYS = 30"
definition CADENCE_YEARLY_DAYS :: int where "CADENCE_YEARLY_DAYS = 365"
definition CADENCE_MONTHLY_TOLERANCE :: rat where "CADENCE_MONTHLY_TOLERANCE = 5"
definition CADENCE_YEARLY_TOLERANCE :: rat where "CADENCE_YEARLY_TOLERANCE = 21"
definition MIN_OCCURRENCES :: nat where "MIN_OCCURRENCES = 2"
definition NOTE_PREVIEW_CHARS :: nat where "NOTE_PREVIEW_CHARS = 80"

record subscription_merchant_row =
  mr_label :: string
  mr_total_spent :: decimal
  mr_charges :: nat

record subscription_category_group =
  cg_category_id :: int
  cg_category_name :: string
  cg_merchants :: "subscription_merchant_row list"

record notes_preview =
  np_preview_text :: string
  np_full_text :: string
  np_can_toggle :: bool

record subscription_create =
  sbc_name :: string
  sbc_amount :: decimal
  sbc_cadence_days :: int
  sbc_payee_id :: "int option"
  sbc_category_id :: "int option"
  sbc_first_seen_at :: "date option"
  sbc_next_expected_at :: "date option"
  sbc_url :: "string option"
  sbc_auto_renew :: bool
  sbc_notes :: "string option"

text \<open>A field that was not sent is \<open>None\<close>, an explicit null \<open>Some None\<close>.\<close>

record subscription_update =
  sbu_name :: "string option option"
  sbu_amount :: "decimal option option"
  sbu_cadence_days :: "int option option"
  sbu_payee_id :: "int option option"
  sbu_category_id :: "int option option"
  sbu_first_seen_at :: "date option option"
  sbu_next_expected_at :: "date option option"
  sbu_url :: "string option option"
  sbu_auto_renew :: "bool option option"
  sbu_notes :: "string option option"
  sbu_status :: "subscription_status option option"
  sbu_muted_until :: "date option option"
  sbu_cancelled_at :: "date option option"

record detector_candidate =
  dc_payee_id :: "int option"
  dc_payee_name :: string
  dc_amount :: decimal
  dc_cadence_days :: int
  dc_occurrences :: nat
  dc_first_seen_at :: date
  dc_last_seen_at :: date
  dc_next_expected_at :: date
  dc_account_id :: "int option"
  dc_category_id :: "int option"
  dc_transaction_ids :: "int list"

record renewal_row =
  rr_subscription_id :: int
  rr_name :: string
  rr_amount :: decimal
  rr_expected_at :: date
  rr_days_away :: int

record subscription_totals =
  st_active_count :: nat
  st_monthly_total :: decimal
  st_yearly_total :: decimal

definition opt_len :: "nat \<Rightarrow> string option \<Rightarrow> bool" where
  "opt_len n v = (case v of None \<Rightarrow> True | Some x \<Rightarrow> length x \<le> n)"

definition subscription_payload :: "subscription_create \<Rightarrow> subscription_create result" where
  "subscription_payload p =
    raise_if (\<not> (1 \<le> length (sbc_name p) \<and> length (sbc_name p) \<le> 200 \<and> 0 < sbc_amount p \<and> cents (sbc_amount p) \<and>
        1 \<le> sbc_cadence_days p \<and> sbc_cadence_days p \<le> 400 \<and> opt_len 500 (sbc_url p) \<and> opt_len 4000 (sbc_notes p)))
      ValueError (Inr p)"

text \<open>The ellipsis and the dash, in UTF-8.\<close>

definition ellipsis :: string where "ellipsis = map char_of [226, 128, 166 :: nat]"
definition em_dash :: string where "em_dash = map char_of [226, 128, 148 :: nat]"

definition rstrip :: "string \<Rightarrow> string" where
  "rstrip s = rev (dropWhile is_space (rev s))"

definition newline :: char where "newline = char_of (10 :: nat)"

definition build_notes_preview :: "string \<Rightarrow> nat \<Rightarrow> notes_preview" where
  "build_notes_preview notes max_chars =
    (let source = strip (map (\<lambda>c. if c = newline then CHR '' '' else c) notes);
         is_truncated = max_chars < length source
     in \<lparr>np_preview_text = (if is_truncated then rstrip (take max_chars source) @ ellipsis else source),
         np_full_text = notes, np_can_toggle = (is_truncated \<or> newline \<in> set notes)\<rparr>)"

definition category_group_monthly_total :: "subscription_category_group \<Rightarrow> decimal" where
  "category_group_monthly_total g = sum_list (map mr_total_spent (cg_merchants g))"

subsection \<open>Dates of the next charge\<close>

definition cadence_step :: "int \<Rightarrow> date \<Rightarrow> date result" where
  "cadence_step cadence d = add_days d cadence"

definition project_next_expected :: "date \<Rightarrow> date option \<Rightarrow> int \<Rightarrow> date option run" where
  "project_next_expected clock first_seen_at cadence =
    (case first_seen_at of
       None \<Rightarrow> Some (Inr None)
     | Some d \<Rightarrow> rbind (catch_up (cadence_step cadence) clock d) (\<lambda>x. Some (Inr (Some x))))"

definition next_expected_after :: "detector_candidate \<Rightarrow> date \<Rightarrow> date run" where
  "next_expected_after c today = catch_up (cadence_step (dc_cadence_days c)) today (dc_next_expected_at c)"

subsection \<open>Subscriptions\<close>

definition get_subscription :: "db \<Rightarrow> int \<Rightarrow> subscription option" where
  "get_subscription s i = find_row sub_id i (subscriptions s)"

definition list_subscriptions :: "subscription_status option \<Rightarrow> db \<Rightarrow> subscription list" where
  "list_subscriptions status s =
    by_name sub_name (filter (\<lambda>x. case status of None \<Rightarrow> True | Some st \<Rightarrow> sub_status x = st) (subscriptions s))"

definition sub_fk :: "db \<Rightarrow> subscription \<Rightarrow> bool" where
  "sub_fk s x \<longleftrightarrow> fk_ok pay_id (payees s) (sub_payee_id x) \<and> fk_ok cat_id (categories s) (sub_category_id x)"

text \<open>\<open>payload.notes\<close> is not passed on.\<close>

definition new_subscription :: "subscription_create \<Rightarrow> date option \<Rightarrow> int \<Rightarrow> subscription" where
  "new_subscription p next_expected i = \<lparr>sub_id = i, sub_payee_id = sbc_payee_id p, sub_category_id = sbc_category_id p,
     sub_name = sbc_name p, sub_amount = sbc_amount p, sub_cadence_days = sbc_cadence_days p,
     sub_first_seen_at = sbc_first_seen_at p, sub_next_expected_at = next_expected, sub_status = SUB_ACTIVE,
     sub_muted_until = None, sub_cancelled_at = None, sub_url = sbc_url p, sub_auto_renew = sbc_auto_renew p,
     sub_notes = None\<rparr>"

definition create_subscription :: "date \<Rightarrow> subscription_create \<Rightarrow> db \<Rightarrow> (subscription \<times> db) run" where
  "create_subscription clock p s =
    rbind (case sbc_next_expected_at p of
             Some d \<Rightarrow> Some (Inr (Some d))
           | None \<Rightarrow> project_next_expected clock (sbc_first_seen_at p) (sbc_cadence_days p)) (\<lambda>next_expected.
      let x = new_subscription p next_expected (seq_subscription s)
      in Some (if sub_fk s x
               then Inr (x, s\<lparr>subscriptions := subscriptions s @ [x], seq_subscription := seq_subscription s + 1\<rparr>)
               else Inl (IntegrityError ''subscriptions'')))"

definition not_null :: "'a option option \<Rightarrow> bool" where
  "not_null v \<longleftrightarrow> v \<noteq> Some None"

definition apply_subscription_update :: "subscription_update \<Rightarrow> subscription \<Rightarrow> subscription" where
  "apply_subscription_update u =
    patch (sbu_cancelled_at u) (\<lambda>v x. x\<lparr>sub_cancelled_at := v\<rparr>) \<circ>
    patch (sbu_muted_until u) (\<lambda>v x. x\<lparr>sub_muted_until := v\<rparr>) \<circ>
    patch (Option.bind (sbu_status u) id) (\<lambda>v x. x\<lparr>sub_status := v\<rparr>) \<circ>
    patch (sbu_notes u) (\<lambda>v x. x\<lparr>sub_notes := v\<rparr>) \<circ>
    patch (Option.bind (sbu_auto_renew u) id) (\<lambda>v x. x\<lparr>sub_auto_renew := v\<rparr>) \<circ>
    patch (sbu_url u) (\<lambda>v x. x\<lparr>sub_url := v\<rparr>) \<circ>
    patch (sbu_next_expected_at u) (\<lambda>v x. x\<lparr>sub_next_expected_at := v\<rparr>) \<circ>
    patch (sbu_first_seen_at u) (\<lambda>v x. x\<lparr>sub_first_seen_at := v\<rparr>) \<circ>
    patch (sbu_category_id u) (\<lambda>v x. x\<lparr>sub_category_id := v\<rparr>) \<circ>
    patch (sbu_payee_id u) (\<lambda>v x. x\<lparr>sub_payee_id := v\<rparr>) \<circ>
    patch (Option.bind (sbu_cadence_days u) id) (\<lambda>v x. x\<lparr>sub_cadence_days := v\<rparr>) \<circ>
    patch (Option.bind (sbu_amount u) id) (\<lambda>v x. x\<lparr>sub_amount := v\<rparr>) \<circ>
    patch (Option.bind (sbu_name u) id) (\<lambda>v x. x\<lparr>sub_name := v\<rparr>)"

definition update_subscription :: "int \<Rightarrow> subscription_update \<Rightarrow> db \<Rightarrow> (subscription option \<times> db) result" where
  "update_subscription i u s =
    (case get_subscription s i of
       None \<Rightarrow> Inr (None, s)
     | Some x \<Rightarrow>
         let x' = apply_subscription_update u x
         in if not_null (sbu_name u) \<and> not_null (sbu_amount u) \<and> not_null (sbu_cadence_days u) \<and>
               not_null (sbu_auto_renew u) \<and> not_null (sbu_status u) \<and> sub_fk s x'
            then Inr (Some x', s\<lparr>subscriptions := upd_row sub_id i (\<lambda>_. x') (subscriptions s)\<rparr>)
            else Inl (IntegrityError ''subscriptions''))"

definition delete_subscription :: "int \<Rightarrow> db \<Rightarrow> bool \<times> db" where
  "delete_subscription i s =
    (case get_subscription s i of
       None \<Rightarrow> (False, s)
     | Some _ \<Rightarrow> (True, s\<lparr>subscriptions := del_row sub_id i (subscriptions s)\<rparr>))"

definition mute_one_cycle :: "date \<Rightarrow> int \<Rightarrow> db \<Rightarrow> (subscription option \<times> db) result" where
  "mute_one_cycle ref i s =
    (case get_subscription s i of
       None \<Rightarrow> Inr (None, s)
     | Some x \<Rightarrow>
         ebind (add_days ref (sub_cadence_days x)) (\<lambda>muted_until.
         let x' = x\<lparr>sub_status := SUB_MUTED, sub_muted_until := Some muted_until\<rparr>
         in Inr (Some x', s\<lparr>subscriptions := upd_row sub_id i (\<lambda>_. x') (subscriptions s)\<rparr>)))"

definition mark_cancelled :: "subscription \<Rightarrow> subscription" where
  "mark_cancelled x = x\<lparr>sub_status := SUB_CANCELLED, sub_next_expected_at := None\<rparr>"

definition cancel :: "date \<Rightarrow> int \<Rightarrow> date option \<Rightarrow> db \<Rightarrow> subscription option \<times> db" where
  "cancel ref i effective_on s =
    (case get_subscription s i of
       None \<Rightarrow> (None, s)
     | Some x \<Rightarrow>
         let effective = (case effective_on of None \<Rightarrow> ref | Some d \<Rightarrow> d);
             x1 = x\<lparr>sub_cancelled_at := Some effective\<rparr>;
             x' = (if effective \<le> ref then mark_cancelled x1 else x1)
         in (Some x', s\<lparr>subscriptions := upd_row sub_id i (\<lambda>_. x') (subscriptions s)\<rparr>))"

definition cancellation_due :: "date \<Rightarrow> subscription \<Rightarrow> bool" where
  "cancellation_due ref x \<longleftrightarrow> sub_status x \<noteq> SUB_CANCELLED \<and>
    (case sub_cancelled_at x of None \<Rightarrow> False | Some d \<Rightarrow> d \<le> ref)"

definition settle_due_cancellations :: "date \<Rightarrow> db \<Rightarrow> nat \<times> db" where
  "settle_due_cancellations ref s =
    (length (filter (cancellation_due ref) (subscriptions s)),
     s\<lparr>subscriptions := map (\<lambda>x. if cancellation_due ref x then mark_cancelled x else x) (subscriptions s)\<rparr>)"

definition reactivate :: "date \<Rightarrow> int \<Rightarrow> db \<Rightarrow> (subscription option \<times> db) run" where
  "reactivate clock i s =
    (case get_subscription s i of
       None \<Rightarrow> Some (Inr (None, s))
     | Some x \<Rightarrow>
         rbind (if sub_first_seen_at x \<noteq> None
                then project_next_expected clock (sub_first_seen_at x) (sub_cadence_days x)
                else Some (Inr (sub_next_expected_at x))) (\<lambda>next_expected.
         let x' = x\<lparr>sub_status := SUB_ACTIVE, sub_muted_until := None, sub_cancelled_at := None,
                    sub_next_expected_at := next_expected\<rparr>
         in Some (Inr (Some x', s\<lparr>subscriptions := upd_row sub_id i (\<lambda>_. x') (subscriptions s)\<rparr>))))"


subsection \<open>The detector\<close>

fun gaps_of :: "date list \<Rightarrow> int list" where
  "gaps_of (a # b # ds) = days_between b a # gaps_of (b # ds)"
| "gaps_of ds = []"

text \<open>The average gap is a float; so is its distance from the cadence.\<close>

definition infer_cadence :: "date list \<Rightarrow> int option" where
  "infer_cadence dates =
    (if length dates < 2 then None
     else let gaps = gaps_of dates;
              avg = to_float (of_int (sum_list gaps) / of_nat (length gaps))
          in if \<bar>to_float (avg - of_int CADENCE_MONTHLY_DAYS)\<bar> \<le> CADENCE_MONTHLY_TOLERANCE
             then Some CADENCE_MONTHLY_DAYS
             else if \<bar>to_float (avg - of_int CADENCE_YEARLY_DAYS)\<bar> \<le> CADENCE_YEARLY_TOLERANCE
             then Some CADENCE_YEARLY_DAYS
             else None)"

definition candidate_from_group ::
  "transaction list \<Rightarrow> string \<Rightarrow> int option \<Rightarrow> detector_candidate option result" where
  "candidate_from_group txs name payee =
    (if length txs < MIN_OCCURRENCES then Inr None
     else let dates = sort (map tx_date txs)
          in case infer_cadence dates of
               None \<Rightarrow> Inr None
             | Some cadence \<Rightarrow>
                 let ordered = sort_key (\<lambda>t. (tx_date t, tx_id t)) txs
                 in ebind (add_days (last dates) cadence) (\<lambda>next_expected.
                    Inr (Some \<lparr>dc_payee_id = payee, dc_payee_name = name,
                      dc_amount = median (map (\<lambda>t. \<bar>tx_amount t\<bar>) txs), dc_cadence_days = cadence,
                      dc_occurrences = length txs, dc_first_seen_at = hd dates, dc_last_seen_at = last dates,
                      dc_next_expected_at = next_expected, dc_account_id = Some (tx_account_id (last ordered)),
                      dc_category_id = most_common (List.map_filter tx_category_id txs),
                      dc_transaction_ids = map tx_id ordered\<rparr>)))"

definition tracked_payee_ids :: "db \<Rightarrow> int list" where
  "tracked_payee_ids s =
    List.map_filter sub_payee_id (filter (\<lambda>x. sub_status x \<noteq> SUB_CANCELLED) (subscriptions s)) @
    List.map_filter pt_payee_id (filter (\<lambda>p. pt_is_active p \<and> pt_type p = EXPENSE) (plans s))"

text \<open>A subscription blocks its name beside its payee, a plan only when it has no payee.\<close>

definition tracked_merchant_keys :: "db \<Rightarrow> string list" where
  "tracked_merchant_keys s =
    filter (\<lambda>k. k \<noteq> [])
      (map (\<lambda>x. merchant_key_from_description (Some (sub_name x)))
         (filter (\<lambda>x. sub_status x \<noteq> SUB_CANCELLED) (subscriptions s)) @
       map (\<lambda>p. merchant_key_from_description (Some (pt_name p)))
         (filter (\<lambda>p. pt_is_active p \<and> pt_type p = EXPENSE \<and> pt_payee_id p = None) (plans s)))"

definition dismissed_by_payee :: "db \<Rightarrow> (int \<times> string) list" where
  "dismissed_by_payee s =
    List.map_filter (\<lambda>d. map_option (\<lambda>p. (p, dis_amount_bucket d)) (dis_payee_id d))
      (filter (\<lambda>d. dis_kind d = KIND_SUBSCRIPTION) (dismissed s))"

definition dismissed_by_key :: "db \<Rightarrow> (string \<times> string) list" where
  "dismissed_by_key s =
    List.map_filter (\<lambda>d. map_option (\<lambda>k. (k, dis_amount_bucket d)) (dis_merchant_key d))
      (filter (\<lambda>d. dis_kind d = KIND_SUBSCRIPTION \<and> dis_payee_id d = None) (dismissed s))"

text \<open>The expenses of the window that are not filed under the subscriptions tree, by date.\<close>

definition charge_rows :: "date \<Rightarrow> date \<Rightarrow> db \<Rightarrow> transaction list" where
  "charge_rows start ref s =
    (let ids = subscription_category_ids s
     in sort_key tx_date (filter (\<lambda>t. tx_type t = EXPENSE \<and> \<not> tx_is_internal t \<and> start \<le> tx_date t \<and> tx_date t \<le> ref \<and>
          (ids \<noteq> [] \<longrightarrow> (case tx_category_id t of None \<Rightarrow> True | Some c \<Rightarrow> c \<notin> set ids))) (transactions s)))"

definition charge_bucket :: "transaction \<Rightarrow> string" where
  "charge_bucket t = amount_bucket \<bar>tx_amount t\<bar>"

definition charge_key :: "transaction \<Rightarrow> string" where
  "charge_key t = merchant_key_from_description (Some (tx_description t))"

text \<open>The join of the first pass; an orphaned payee id cannot occur.\<close>

definition payee_rows :: "date \<Rightarrow> date \<Rightarrow> db \<Rightarrow> transaction list" where
  "payee_rows start ref s =
    filter (\<lambda>t. case tx_payee_id t of
        None \<Rightarrow> False
      | Some p \<Rightarrow> get_payee s p \<noteq> None \<and> p \<notin> set (tracked_payee_ids s) \<and>
          (p, charge_bucket t) \<notin> set (dismissed_by_payee s)) (charge_rows start ref s)"

definition orphan_rows :: "(string \<Rightarrow> string) \<Rightarrow> date \<Rightarrow> date \<Rightarrow> db \<Rightarrow> transaction list" where
  "orphan_rows hmac start ref s =
    filter (\<lambda>t. tx_payee_id t = None \<and> charge_key t \<noteq> [] \<and> charge_key t \<notin> set (tracked_merchant_keys s) \<and>
        (case merchant_key_index hmac (Some (charge_key t)) of
           None \<Rightarrow> True | Some k \<Rightarrow> (k, charge_bucket t) \<notin> set (dismissed_by_key s))) (charge_rows start ref s)"

definition payee_group_key :: "transaction \<Rightarrow> int \<times> string" where
  "payee_group_key t = (the (tx_payee_id t), charge_bucket t)"

definition orphan_group_key :: "transaction \<Rightarrow> string \<times> string" where
  "orphan_group_key t = (charge_key t, charge_bucket t)"

definition payee_candidate :: "db \<Rightarrow> (int \<times> string) \<times> transaction list \<Rightarrow> detector_candidate option result" where
  "payee_candidate s g =
    candidate_from_group (snd g) (pay_name (the (get_payee s (fst (fst g))))) (Some (fst (fst g)))"

definition orphan_candidate :: "(string \<times> string) \<times> transaction list \<Rightarrow> detector_candidate option result" where
  "orphan_candidate g = candidate_from_group (snd g) (fst (fst g)) None"

definition window_length :: "int option \<Rightarrow> int" where
  "window_length window_days = (case window_days of None \<Rightarrow> DETECTOR_WINDOW_DAYS
     | Some n \<Rightarrow> if 0 < n then n else DETECTOR_WINDOW_DAYS)"

text \<open>\<open>if candidate is not None: candidates.append(candidate)\<close>\<close>

fun somes :: "'a option list \<Rightarrow> 'a list" where
  "somes [] = []"
| "somes (None # xs) = somes xs"
| "somes (Some x # xs) = x # somes xs"

definition detect_candidates ::
  "(string \<Rightarrow> string) \<Rightarrow> date \<Rightarrow> int option \<Rightarrow> db \<Rightarrow> detector_candidate list result" where
  "detect_candidates hmac ref window_days s =
    ebind (add_days ref (- window_length window_days)) (\<lambda>start.
    ebind (emap (payee_candidate s) (group_rows payee_group_key (payee_rows start ref s))) (\<lambda>first.
    ebind (emap orphan_candidate (group_rows orphan_group_key (orphan_rows hmac start ref s))) (\<lambda>second.
      Inr (sort_key (\<lambda>c. - dc_amount c) (somes (first @ second))))))"

subsection \<open>Dismissals\<close>

definition same_pattern :: "dismissed_candidate_kind \<Rightarrow> int option \<Rightarrow> string option \<Rightarrow> string \<Rightarrow> dismissed_candidate \<Rightarrow> bool" where
  "same_pattern kind payee key bucket d \<longleftrightarrow>
    dis_payee_id d = payee \<and> dis_merchant_key d = key \<and> dis_amount_bucket d = bucket \<and> dis_kind d = kind"

definition dismiss_candidate :: "(string \<Rightarrow> string) \<Rightarrow> detector_candidate \<Rightarrow> db \<Rightarrow> db result" where
  "dismiss_candidate hmac c s =
    (let bucket = amount_bucket (dc_amount c);
         key = (if dc_payee_id c \<noteq> None then None else merchant_key_index hmac (Some (dc_payee_name c)));
         existing = filter (same_pattern KIND_SUBSCRIPTION (dc_payee_id c) key bucket) (dismissed s)
     in if 2 \<le> length existing then Inl MultipleResultsFound
        else if existing \<noteq> [] then Inr s
        else if fk_ok pay_id (payees s) (dc_payee_id c)
        then Inr (s\<lparr>dismissed := dismissed s @ [\<lparr>dis_id = seq_dismissed s, dis_payee_id = dc_payee_id c,
               dis_merchant_key = key, dis_amount_bucket = bucket, dis_kind = KIND_SUBSCRIPTION\<rparr>],
             seq_dismissed := seq_dismissed s + 1\<rparr>)
        else Inl (IntegrityError ''dismissed_candidate_patterns''))"

definition list_dismissed :: "db \<Rightarrow> dismissed_candidate list" where
  "list_dismissed s = sort_key dis_id (filter (\<lambda>d. dis_kind d = KIND_SUBSCRIPTION) (dismissed s))"

definition undismiss :: "int \<Rightarrow> db \<Rightarrow> bool \<times> db" where
  "undismiss i s =
    (if \<exists>d \<in> set (dismissed s). dis_id d = i \<and> dis_kind d = KIND_SUBSCRIPTION
     then (True, s\<lparr>dismissed := del_row dis_id i (dismissed s)\<rparr>) else (False, s))"

subsection \<open>Filing past charges\<close>

definition charge_matches :: "int option \<Rightarrow> string \<Rightarrow> decimal \<Rightarrow> date \<Rightarrow> date \<Rightarrow> transaction \<Rightarrow> bool" where
  "charge_matches payee merchant_name amount start today t \<longleftrightarrow>
    tx_type t = EXPENSE \<and> \<not> tx_is_internal t \<and> start \<le> tx_date t \<and> tx_date t \<le> today \<and> tx_payee_id t = payee \<and>
    charge_bucket t = amount_bucket amount \<and>
    (payee = None \<longrightarrow> charge_key t = merchant_key_from_description (Some merchant_name))"

definition recategorise ::
  "int \<Rightarrow> int option \<Rightarrow> string \<Rightarrow> decimal \<Rightarrow> int \<Rightarrow> int option \<Rightarrow> date \<Rightarrow> bool \<Rightarrow> db \<Rightarrow> (nat \<times> db) result" where
  "recategorise now payee merchant_name amount category window_days today dry_run s =
    ebind (add_days today (- window_length window_days)) (\<lambda>start.
    let hit = charge_matches payee merchant_name amount start today;
        moves = (\<lambda>t. hit t \<and> tx_category_id t \<noteq> Some category)
    in if dry_run then Inr (length (filter moves (transactions s)), s)
       else if (\<exists>t \<in> set (transactions s). moves t) \<and> find_row cat_id category (categories s) = None
       then Inl (IntegrityError ''transactions'')
       else Inr (length (filter hit (transactions s)),
         s\<lparr>transactions := map (\<lambda>t. if hit t then touch now t (t\<lparr>tx_category_id := Some category\<rparr>) else t)
             (transactions s)\<rparr>))"

definition refile :: "int \<Rightarrow> int \<Rightarrow> int option \<Rightarrow> int option \<Rightarrow> date \<Rightarrow> db \<Rightarrow> (nat \<times> db) result" where
  "refile now i category window_days today s =
    (case get_subscription s i of
       None \<Rightarrow> Inl (NotFoundError ''errors.subscription.not_found'')
     | Some x \<Rightarrow>
         let s1 = s\<lparr>subscriptions := upd_row sub_id i (\<lambda>x. x\<lparr>sub_category_id := category\<rparr>) (subscriptions s)\<rparr>
         in (case category of
               None \<Rightarrow> Inr (0, s1)
             | Some c \<Rightarrow>
                 ebind (add_days today (- window_length window_days)) (\<lambda>_.
                 if find_row cat_id c (categories s) = None then Inl (IntegrityError ''subscriptions'')
                 else recategorise now (sub_payee_id x) (sub_name x) (sub_amount x) c window_days today False s1)))"

definition count_refilable :: "int \<Rightarrow> int \<Rightarrow> int \<Rightarrow> int option \<Rightarrow> date \<Rightarrow> db \<Rightarrow> nat result" where
  "count_refilable now i category window_days today s =
    (case get_subscription s i of
       None \<Rightarrow> Inl (NotFoundError ''errors.subscription.not_found'')
     | Some x \<Rightarrow>
         ebind (recategorise now (sub_payee_id x) (sub_name x) (sub_amount x) category window_days today True s)
           (\<lambda>(n, _). Inr n))"

subsection \<open>Accepting a candidate\<close>

text \<open>
  \<open>create\<close> commits before the charges are filed, so an exception of the second step leaves the
  subscription behind: the state comes beside the result.
\<close>

definition candidate_payload :: "detector_candidate \<Rightarrow> int option \<Rightarrow> date \<Rightarrow> subscription_create" where
  "candidate_payload c category next_expected = \<lparr>sbc_name = dc_payee_name c, sbc_amount = dc_amount c,
     sbc_cadence_days = dc_cadence_days c, sbc_payee_id = dc_payee_id c, sbc_category_id = category,
     sbc_first_seen_at = Some (dc_first_seen_at c), sbc_next_expected_at = Some next_expected,
     sbc_url = None, sbc_auto_renew = True, sbc_notes = None\<rparr>"

definition create_from_candidate ::
  "int \<Rightarrow> date \<Rightarrow> detector_candidate \<Rightarrow> int option \<Rightarrow> int option \<Rightarrow> date \<Rightarrow> db \<Rightarrow> (subscription result \<times> db) option" where
  "create_from_candidate now clock c category window_days today s =
    (case rbind (next_expected_after c today) (\<lambda>d.
          rbind (Some (subscription_payload (candidate_payload c category d))) (\<lambda>p. create_subscription clock p s)) of
       None \<Rightarrow> None
     | Some (Inl e) \<Rightarrow> Some (Inl e, s)
     | Some (Inr (x, s1)) \<Rightarrow>
         (case category of
            None \<Rightarrow> Some (Inr x, s1)
          | Some cat \<Rightarrow>
              (case recategorise now (dc_payee_id c) (dc_payee_name c) (dc_amount c) cat window_days today False s1 of
                 Inl e \<Rightarrow> Some (Inl e, s1)
               | Inr (_, s2) \<Rightarrow> Some (Inr x, s2))))"

definition planned_from_candidate :: "detector_candidate \<Rightarrow> int \<Rightarrow> string \<Rightarrow> date \<Rightarrow> planned_transaction" where
  "planned_from_candidate c account name start = \<lparr>pt_id = 0, pt_name = name,
     pt_amount = quantize ROUND_HALF_UP 2 (dc_amount c), pt_type = EXPENSE, pt_account_id = account,
     pt_target_account_id = None, pt_category_id = dc_category_id c, pt_description = None,
     pt_payee_id = dc_payee_id c,
     pt_frequency = (if dc_cadence_days c = CADENCE_YEARLY_DAYS then YEARLY else MONTHLY), pt_interval = 1,
     pt_start_date = start, pt_end_date = None, pt_is_active = True\<rparr>"

definition create_planned_from_candidate ::
  "env \<Rightarrow> detector_candidate \<Rightarrow> date \<Rightarrow> db \<Rightarrow> (planned_transaction result \<times> db) option" where
  "create_planned_from_candidate e c today s =
    (case dc_account_id c of
       None \<Rightarrow> Some (Inl (ValidationError ''errors.subscription.candidate_needs_account''), s)
     | Some account \<Rightarrow>
         let name = take 100 (strip (dc_payee_name c))
         in if name = [] then Some (Inl (ValidationError ''errors.subscription.planned_needs_name''), s)
            else if dc_amount c \<le> 0
            then Some (Inl (ValidationError ''errors.subscription.planned_needs_positive_amount''), s)
            else (case rbind (next_expected_after c today) (\<lambda>d. Some (create_plan (planned_from_candidate c account name d) s)) of
                    None \<Rightarrow> None
                  | Some (Inl err) \<Rightarrow> Some (Inl err, s)
                  | Some (Inr (p, s1)) \<Rightarrow>
                      (case link_history e p (dc_transaction_ids c) s1 of
                         Inl err \<Rightarrow> Some (Inl err, s1)
                       | Inr s2 \<Rightarrow> Some (Inr p, s2))))"

subsection \<open>Views\<close>

definition purpose_child_index_map :: "category list \<Rightarrow> nat \<rightharpoonup> int" where
  "purpose_child_index_map children =
    map_of (rev (List.map_filter (\<lambda>c.
      map_option (\<lambda>i. (i, cat_id c))
        (find (\<lambda>i. cat_name c \<in> {subscription_purpose_children ! i, subscription_purpose_children_pl ! i})
          [0..<length subscription_purpose_children])) children))"

definition merchant_label :: "db \<Rightarrow> transaction \<Rightarrow> string" where
  "merchant_label s t =
    (case Option.bind (tx_payee_id t) (get_payee s) of
       Some p \<Rightarrow> pay_name p
     | None \<Rightarrow> let k = charge_key t in if k \<noteq> [] then k else em_dash)"

definition merchant_rows :: "db \<Rightarrow> transaction list \<Rightarrow> subscription_merchant_row list" where
  "merchant_rows s ts =
    map (\<lambda>(l, us). \<lparr>mr_label = l, mr_total_spent = sum_list (map (\<lambda>t. \<bar>tx_amount t\<bar>) us), mr_charges = length us\<rparr>)
      (group_rows (merchant_label s) ts)"

definition category_group :: "db \<Rightarrow> transaction list \<Rightarrow> int \<Rightarrow> string \<Rightarrow> subscription_category_group list" where
  "category_group s ts c name =
    (let rows = merchant_rows s (filter (\<lambda>t. tx_category_id t = Some c) ts)
     in if rows = [] then []
        else [\<lparr>cg_category_id = c, cg_category_name = name,
               cg_merchants = sort_key (\<lambda>r. - mr_total_spent r) rows\<rparr>])"

definition subscription_transactions_grouped ::
  "date \<Rightarrow> int \<Rightarrow> db \<Rightarrow> subscription_category_group list result" where
  "subscription_transactions_grouped ref window_days s =
    ebind (add_days ref (- window_days)) (\<lambda>start.
      case get_subscriptions_root s of
        None \<Rightarrow> Inr []
      | Some r \<Rightarrow>
          let ids = subscription_category_ids s;
              ts = sort_key tx_date (filter (\<lambda>t. (case tx_category_id t of None \<Rightarrow> False | Some c \<Rightarrow> c \<in> set ids) \<and>
                     start \<le> tx_date t \<and> tx_date t \<le> ref) (transactions s))
          in Inr (concat (map (\<lambda>c. category_group s ts (cat_id c) (cat_name c)) (by_name cat_name (children_of s (cat_id r))))
               @ category_group s ts (cat_id r) ''Subscriptions''))"

definition upcoming_renewals :: "int \<Rightarrow> date \<Rightarrow> db \<Rightarrow> renewal_row list result" where
  "upcoming_renewals days ref s =
    ebind (add_days ref days) (\<lambda>deadline.
      Inr (map (\<lambda>x. \<lparr>rr_subscription_id = sub_id x, rr_name = sub_name x, rr_amount = sub_amount x,
               rr_expected_at = the (sub_next_expected_at x), rr_days_away = days_between (the (sub_next_expected_at x)) ref\<rparr>)
        (sort_key (\<lambda>x. the (sub_next_expected_at x)) (filter (\<lambda>x. sub_status x = SUB_ACTIVE \<and>
           (case sub_next_expected_at x of None \<Rightarrow> False | Some d \<Rightarrow> ref \<le> d \<and> d \<le> deadline)) (subscriptions s)))))"

definition to_monthly :: "decimal \<Rightarrow> int \<Rightarrow> decimal" where
  "to_monthly amount cadence =
    (if cadence \<le> 0 then 0
     else if 27 \<le> cadence \<and> cadence < 34 then amount
     else if 350 \<le> cadence \<and> cadence < 381 then dec_div amount 12
     else dec_div (dec_mul amount 30) (of_int cadence))"

definition counted :: "date \<Rightarrow> subscription \<Rightarrow> bool" where
  "counted ref x \<longleftrightarrow> (case sub_cancelled_at x of None \<Rightarrow> True | Some d \<Rightarrow> ref < d)"

definition sub_totals :: "date \<Rightarrow> db \<Rightarrow> subscription_totals" where
  "sub_totals ref s =
    (let active = filter (counted ref) (list_subscriptions (Some SUB_ACTIVE) s);
         monthly = fold (\<lambda>x m. dec_add m (to_monthly (sub_amount x) (sub_cadence_days x))) active 0
     in \<lparr>st_active_count = length active, st_monthly_total = quantize ROUND_HALF_EVEN 2 monthly,
         st_yearly_total = quantize ROUND_HALF_EVEN 2 (dec_mul monthly 12)\<rparr>)"

definition merchant_purpose_hints :: "(string list \<times> nat) list" where
  "merchant_purpose_hints = [
    ([''YOUTUBE MUSIC'', ''SPOTIFY'', ''TIDAL'', ''DEEZER'', ''APPLE MUSIC''], 1),
    ([''NETFLIX'', ''HBO'', ''DISNEY'', ''CANAL+'', ''VIAPLAY'', ''SKYSHOWTIME'', ''YOUTUBE PREMIUM''], 0),
    ([''MICROSOFT'', ''OFFICE365'', ''ADOBE'', ''JETBRAINS'', ''GITHUB'', ''OPENAI'', ''CHATGPT'', ''NOTION'',
      ''CANVA'', ''1PASSWORD''], 2),
    ([''ORANGE'', ''T-MOBILE'', ''TMOBILE'', ''NETIA'', ''VECTRA'', ''PLAY '', ''PLUS '', ''UPC''], 3),
    ([''STORYTEL'', ''LEGIMI'', ''AUDIBLE'', ''EMPIK'', ''KINDLE'', ''NYTIMES'', ''ONET PREMIUM''], 4),
    ([''MULTISPORT'', ''MEDICOVER'', ''ZDROFIT'', ''FITATU'', ''HEADSPACE'', ''STRAVA''], 5),
    ([''GOOGLE ONE'', ''ICLOUD'', ''DROPBOX'', ''BACKBLAZE'', ''ONEDRIVE'', ''MEGA.NZ''], 6)]"

definition suggest_purpose_index :: "string option \<Rightarrow> nat option" where
  "suggest_purpose_index merchant_name =
    (let key = merchant_key_from_description merchant_name
     in if key = [] then None
        else map_option snd (find (\<lambda>(needles, _). \<exists>n \<in> set needles. contains n key) merchant_purpose_hints))"

section \<open>The next charge\<close>

text \<open>Up to 400 days fit into the 29 years that the step may need.\<close>

interpretation cadence_steps: date_steps cadence_step "\<lambda>c. 1 \<le> c \<and> c \<le> 400" "\<lambda>_. 29"
proof unfold_locales
  fix c d d' assume "1 \<le> c \<and> c \<le> 400" "valid_date d" "cadence_step c d = Inr d'"
  then show "valid_date d' \<and> d < d'" by (auto simp: cadence_step_def dest: add_days_forward)
next
  fix c :: int and d assume "1 \<le> c \<and> c \<le> 400" "valid_date d" "d_year d + 29 \<le> 9998"
  then show "\<exists>d'. cadence_step c d = Inr d'"
    unfolding cadence_step_def by (intro add_days_total [of _ 29]) auto
qed

lemma cadence_orbit:
  assumes "valid_date d" and "orbit (cadence_step c) d k = Inr x"
  shows "valid_date x \<and> toordinal x = toordinal d + int k * c"
  using assms(2)
proof (induction k arbitrary: x)
  case (Suc k)
  then obtain y where y: "orbit (cadence_step c) d k = Inr y" "add_days y c = Inr x"
    by (auto simp: ebind_Inr_iff cadence_step_def [symmetric])
  with Suc.IH have "valid_date y" "toordinal y = toordinal d + int k * c" by simp_all
  with add_days_Inr [OF _ y(2)] show ?case by (simp add: algebra_simps)
qed (simp add: assms(1))

lemma catch_up_cadence:
  assumes "1 \<le> c" and "c \<le> 400" and "d_year today \<le> 9969" and "valid_date today" and "valid_date d"
  shows "\<exists>x. catch_up (cadence_step c) today d = Some (Inr x) \<and> valid_date x \<and> today < x \<and>
    (if today < d then x = d else days_between x today \<le> c) \<and> c dvd days_between x d"
proof -
  from cadence_steps.catch_up_exact [of c today d] assms obtain x where
    x: "catch_up (cadence_step c) today d = Some (Inr x)" "valid_date x" "today < x" "reaches (cadence_step c) d x"
    and least: "\<And>y. reaches (cadence_step c) d y \<Longrightarrow> today < y \<Longrightarrow> x \<le> y" by auto
  from x(4) obtain k where k: "orbit (cadence_step c) d k = Inr x" by (auto simp: reaches_def)
  note ox = cadence_orbit [OF assms(5) k]
  have "days_between x today \<le> c" if "\<not> today < d"
  proof (cases k)
    case 0
    with k x(3) that show ?thesis by simp
  next
    case (Suc j)
    with k obtain y where y: "orbit (cadence_step c) d j = Inr y" by (auto simp: ebind_Inr_iff)
    note oy = cadence_orbit [OF assms(5) y]
    have "toordinal y < toordinal x" using oy ox Suc assms(1) by (simp add: algebra_simps)
    then have "y < x" using oy x(2) toordinal_less_iff [of y x] by blast
    with least [of y] y have "y \<le> today" by (force simp: reaches_def not_less)
    then have "toordinal y \<le> toordinal today" using oy assms(4) toordinal_le_iff [of y today] by blast
    then show ?thesis using ox oy Suc by (simp add: days_between_def algebra_simps)
  qed
  moreover have "x = d" if "today < d" using least [of d] that ox assms(1,5) x(2)
    by (metis antisym_conv cadence_steps.reaches_later assms(2) reaches_refl x(4))
  moreover have "c dvd days_between x d" using ox by (simp add: days_between_def)
  ultimately show ?thesis using x by auto
qed

text \<open>
  The next charge of a subscription. For every cadence the form accepts the loop returns, and the
  date it returns is the first one after today on the cadence: the first charge itself when that is
  still to come, otherwise a date a whole number of cadences later and at most one cadence ahead.
\<close>

lemma next_charge_is_the_first:
  assumes "subscription_payload p = Inr p" and "valid_date clock" and "d_year clock \<le> 9969"
    and "sbc_first_seen_at p = Some d" and "valid_date d"
  shows "\<exists>x. project_next_expected clock (sbc_first_seen_at p) (sbc_cadence_days p) = Some (Inr (Some x)) \<and>
    valid_date x \<and> clock < x \<and>
    (if clock < d then x = d else days_between x clock \<le> sbc_cadence_days p) \<and> sbc_cadence_days p dvd days_between x d"
proof -
  have "1 \<le> sbc_cadence_days p" "sbc_cadence_days p \<le> 400"
    using assms(1) by (auto simp: subscription_payload_def raise_if_Inr_iff)
  from catch_up_cadence [OF this assms(3,2,5)] show ?thesis
    by (auto simp: project_next_expected_def assms(4))
qed

definition ex_subscription_create :: subscription_create where
  "ex_subscription_create = \<lparr>sbc_name = ''NETFLIX'', sbc_amount = 43, sbc_cadence_days = 30, sbc_payee_id = None,
     sbc_category_id = None, sbc_first_seen_at = Some (Date 2026 1 5), sbc_next_expected_at = None, sbc_url = None,
     sbc_auto_renew = True, sbc_notes = Some ''family plan''\<rparr>"

lemma next_charge_is_the_first_witness:
  "\<exists>x. project_next_expected (Date 2026 3 1) (Some (Date 2026 1 5)) 30 = Some (Inr (Some x)) \<and>
     Date 2026 3 1 < x \<and> days_between x (Date 2026 3 1) \<le> 30"
proof -
  have p: "subscription_payload ex_subscription_create = Inr ex_subscription_create"
    by (simp add: subscription_payload_def ex_subscription_create_def opt_len_def)
  have d: "sbc_first_seen_at ex_subscription_create = Some (Date 2026 1 5)" by (simp add: ex_subscription_create_def)
  have v: "valid_date (Date 2026 3 1)" "valid_date (Date 2026 1 5)" by code_simp+
  have "d_year (Date 2026 3 1) \<le> 9969" by simp
  from next_charge_is_the_first [OF p v(1) this d v(2)] show ?thesis
    by (auto simp: ex_subscription_create_def split: if_splits)
qed

section \<open>Cancellations\<close>

lemma mark_cancelled_done: "\<not> cancellation_due ref (mark_cancelled x)"
  by (simp add: cancellation_due_def mark_cancelled_def)

lemma settle_rows:
  "subscriptions (snd (settle_due_cancellations ref s)) =
    map (\<lambda>x. if cancellation_due ref x then mark_cancelled x else x) (subscriptions s)"
  by (simp add: settle_due_cancellations_def)

lemma filter_sort_key_map:
  assumes "\<And>x. x \<in> set xs \<Longrightarrow> P (g x) \<Longrightarrow> g x = x" and "\<And>x. x \<in> set xs \<Longrightarrow> P x \<Longrightarrow> g x = x"
  shows "filter P (map g xs) = filter P xs"
  using assms by (induction xs) (simp_all, metis)

text \<open>
  Settling. \<open>settle_due_cancellations\<close> reports how many scheduled cancellations have come due,
  leaves none behind (a second run finds nothing and changes nothing), expects no further charge of
  the settled rows, and never changes the totals: a due cancellation has stopped counting on its day,
  whether or not the settlement has run.
\<close>

lemma settlement_changes_no_total:
  "sub_totals ref (snd (settle_due_cancellations ref s)) = sub_totals ref s \<and>
   settle_due_cancellations ref (snd (settle_due_cancellations ref s)) = (0, snd (settle_due_cancellations ref s)) \<and>
   fst (settle_due_cancellations ref s) + length (filter (\<lambda>x. sub_status x = SUB_CANCELLED) (subscriptions s)) =
     length (filter (\<lambda>x. sub_status x = SUB_CANCELLED) (subscriptions (snd (settle_due_cancellations ref s))))"
proof -
  let ?g = "\<lambda>x. if cancellation_due ref x then mark_cancelled x else x"
  let ?P = "\<lambda>x. counted ref x \<and> sub_status x = SUB_ACTIVE"
  have "filter ?P (map ?g (subscriptions s)) = filter ?P (subscriptions s)"
    by (rule filter_sort_key_map)
      (auto simp: mark_cancelled_def counted_def cancellation_due_def split: option.splits if_splits)
  then have "filter (counted ref) (list_subscriptions (Some SUB_ACTIVE) (snd (settle_due_cancellations ref s))) =
      filter (counted ref) (list_subscriptions (Some SUB_ACTIVE) s)"
    unfolding list_subscriptions_def by_name_def option.case settle_rows filter_sort filter_filter by (simp add: conj_commute)
  then have t: "sub_totals ref (snd (settle_due_cancellations ref s)) = sub_totals ref s" by (simp add: sub_totals_def)
  have none: "filter (cancellation_due ref) (map ?g (subscriptions s)) = []"
    by (auto simp: filter_empty_conv mark_cancelled_done)
  have "map ?g (map ?g (subscriptions s)) = map ?g (subscriptions s)" by (auto simp: mark_cancelled_done)
  with none have i: "settle_due_cancellations ref (snd (settle_due_cancellations ref s)) = (0, snd (settle_due_cancellations ref s))"
    by (simp add: settle_due_cancellations_def)
  have "length (filter (cancellation_due ref) xs) + length (filter (\<lambda>x. sub_status x = SUB_CANCELLED) xs) =
      length (filter (\<lambda>x. sub_status x = SUB_CANCELLED) (map ?g xs))" for xs
    by (induction xs) (auto simp: mark_cancelled_def cancellation_due_def)
  then have third: "fst (settle_due_cancellations ref s) + length (filter (\<lambda>x. sub_status x = SUB_CANCELLED) (subscriptions s)) =
      length (filter (\<lambda>x. sub_status x = SUB_CANCELLED) (subscriptions (snd (settle_due_cancellations ref s))))"
    unfolding settle_rows by (simp add: settle_due_cancellations_def)
  show ?thesis by (rule conjI [OF t conjI [OF i third]])
qed

section \<open>Filing past charges\<close>

lemma recategorised_row:
  "touch now t (t\<lparr>tx_category_id := Some c\<rparr>) =
    (if tx_category_id t = Some c then t else t\<lparr>tx_category_id := Some c, tx_updated_at := now\<rparr>)"
proof (cases "tx_category_id t = Some c")
  case True
  then have same: "t\<lparr>tx_category_id := Some c\<rparr> = t" by (intro transaction.equality) simp_all
  show ?thesis unfolding touch_def same by (simp only: True simp_thms if_True)
next
  case False
  then have "tx_category_id (tx_columns (t\<lparr>tx_category_id := Some c\<rparr>)) \<noteq> tx_category_id (tx_columns t)"
    by (simp add: tx_columns_def)
  then show ?thesis using False by (auto simp: touch_def)
qed

definition refiled :: "int \<Rightarrow> int \<Rightarrow> (transaction \<Rightarrow> bool) \<Rightarrow> transaction \<Rightarrow> transaction" where
  "refiled now c hit t =
    (if hit t \<and> tx_category_id t \<noteq> Some c then t\<lparr>tx_category_id := Some c, tx_updated_at := now\<rparr> else t)"

lemma charge_matches_refiled [simp]:
  "charge_matches p n a start today (refiled now c hit t) = charge_matches p n a start today t"
  by (simp add: refiled_def charge_matches_def charge_bucket_def charge_key_def)

lemma refile_rows:
  assumes "get_subscription s i = Some x" and "add_days today (- window_length w) = Inr start"
    and "find_row cat_id c (categories s) \<noteq> None"
  defines "hit \<equiv> charge_matches (sub_payee_id x) (sub_name x) (sub_amount x) start today"
  shows "refile now i (Some c) w today s = Inr (length (filter hit (transactions s)),
    s\<lparr>subscriptions := upd_row sub_id i (\<lambda>x. x\<lparr>sub_category_id := Some c\<rparr>) (subscriptions s),
      transactions := map (refiled now c hit) (transactions s)\<rparr>)"
proof -
  have "(\<lambda>t. if hit t then touch now t (t\<lparr>tx_category_id := Some c\<rparr>) else t) = refiled now c hit"
    by (auto simp: fun_eq_iff refiled_def recategorised_row)
  then show ?thesis using assms(1-3) by (simp add: refile_def recategorise_def Let_def hit_def)
qed

lemma count_refilable_rows:
  assumes "get_subscription s i = Some x" and "add_days today (- window_length w) = Inr start"
  shows "count_refilable now i c w today s = Inr (length (filter (\<lambda>t.
    charge_matches (sub_payee_id x) (sub_name x) (sub_amount x) start today t \<and> tx_category_id t \<noteq> Some c) (transactions s)))"
  using assms by (simp add: count_refilable_def recategorise_def Let_def)

text \<open>
  Filing a subscription moves what was announced. Whenever \<open>count_refilable\<close> returns \<open>n\<close> for an
  existing category, \<open>refile\<close> succeeds, changes the category of exactly \<open>n\<close> rows and nothing else of
  any row but its edit time, moves no balance, and afterwards there is nothing left to move.
\<close>

lemma refile_moves_what_was_counted:
  assumes "count_refilable now i c w today s = Inr n" and "find_row cat_id c (categories s) \<noteq> None"
  shows "\<exists>m s'. refile now i (Some c) w today s = Inr (m, s') \<and>
    length (filter (\<lambda>(a, b). tx_category_id a \<noteq> tx_category_id b) (zip (transactions s) (transactions s'))) = n \<and>
    list_all2 (\<lambda>a b. b = a \<or> b = a\<lparr>tx_category_id := Some c, tx_updated_at := now\<rparr>) (transactions s) (transactions s') \<and>
    (\<forall>a d. balance s' a d = balance s a d) \<and> count_refilable now i c w today s' = Inr 0"
proof -
  from assms(1) obtain x start where x: "get_subscription s i = Some x" "add_days today (- window_length w) = Inr start"
    by (auto simp: count_refilable_def recategorise_def ebind_Inr_iff split: option.splits)
  define hit where "hit = charge_matches (sub_payee_id x) (sub_name x) (sub_amount x) start today"
  define s' where "s' = s\<lparr>subscriptions := upd_row sub_id i (\<lambda>x. x\<lparr>sub_category_id := Some c\<rparr>) (subscriptions s),
      transactions := map (refiled now c hit) (transactions s)\<rparr>"
  have r: "refile now i (Some c) w today s = Inr (length (filter hit (transactions s)), s')"
    using refile_rows [OF x assms(2), of now] by (simp add: s'_def hit_def)
  have n: "n = length (filter (\<lambda>t. hit t \<and> tx_category_id t \<noteq> Some c) (transactions s))"
    using count_refilable_rows [OF x, of now c] assms(1) by (simp add: hit_def)
  have moved: "length (filter (\<lambda>(a, b). tx_category_id a \<noteq> tx_category_id b) (zip ts (map (refiled now c hit) ts))) =
      length (filter (\<lambda>t. hit t \<and> tx_category_id t \<noteq> Some c) ts)" for ts
    by (induction ts) (auto simp: refiled_def)
  have rows: "list_all2 (\<lambda>a b. b = a \<or> b = a\<lparr>tx_category_id := Some c, tx_updated_at := now\<rparr>) ts (map (refiled now c hit) ts)" for ts
    by (simp add: list_all2_conv_all_nth refiled_def)
  have bal: "balance s' a d = balance s a d" for a d
    by (rule balance_map_tx [where f = "refiled now c hit"])
      (simp_all add: refiled_def s'_def signed_ledger_amount_def)
  have "get_subscription s' i = Some (x\<lparr>sub_category_id := Some c\<rparr>)"
    using x(1) by (simp add: get_subscription_def s'_def find_row_upd_row)
  from count_refilable_rows [OF this x(2), of now c] have again: "count_refilable now i c w today s' =
      Inr (length (filter (\<lambda>t. hit t \<and> tx_category_id t \<noteq> Some c) (transactions s')))" by (simp add: hit_def)
  have "filter (\<lambda>t. hit t \<and> tx_category_id t \<noteq> Some c) (transactions s') = []"
  proof -
    have "hit (refiled now c hit t) = hit t" for t by (simp only: hit_def charge_matches_refiled)
    then show ?thesis by (auto simp: s'_def filter_empty_conv refiled_def split: if_splits)
  qed
  then have zero: "count_refilable now i c w today s' = Inr 0" unfolding again by simp
  have "transactions s' = map (refiled now c hit) (transactions s)" by (simp add: s'_def)
  then show ?thesis using r n moved rows bal zero by (intro exI [of _ s'] exI conjI) auto
qed

section \<open>What the detector proposes\<close>

lemma emap_filter_some:
  assumes "emap f gs = Inr ys" and "\<And>g d. g \<in> set gs \<Longrightarrow> f g = Inr (Some d) \<Longrightarrow> P g \<longleftrightarrow> Q d"
  shows "\<exists>zs. emap f (filter P gs) = Inr zs \<and> somes zs = filter Q (somes ys)"
  using assms
proof (induction gs arbitrary: ys)
  case (Cons g gs)
  from Cons.prems(1) obtain y ys' where y: "f g = Inr y" "emap f gs = Inr ys'" "ys = y # ys'"
    by (auto simp: ebind_Inr_iff)
  from Cons.IH [OF y(2)] Cons.prems(2) obtain zs where
    zs: "emap f (filter P gs) = Inr zs" "somes zs = filter Q (somes ys')" by auto
  show ?case using y zs Cons.prems(2) [of g] by (cases y) auto
qed simp

lemma emap_some_source:
  assumes "emap f gs = Inr ys" and "d \<in> set (somes ys)"
  shows "\<exists>g \<in> set gs. f g = Inr (Some d)"
  using assms
proof (induction gs arbitrary: ys)
  case (Cons g gs)
  from Cons.prems(1) obtain y ys' where "f g = Inr y" "emap f gs = Inr ys'" "ys = y # ys'"
    by (auto simp: ebind_Inr_iff)
  with Cons show ?case by (cases y) auto
qed simp

definition charges_in_range :: "db \<Rightarrow> bool" where
  "charges_in_range s \<longleftrightarrow> (\<forall>t \<in> set (transactions s). money_range \<bar>tx_amount t\<bar>)"

lemma candidate_from_group_fields:
  assumes "candidate_from_group txs name p = Inr (Some d)"
  shows "dc_payee_id d = p" and "dc_payee_name d = name" and "dc_amount d = median (map (\<lambda>t. \<bar>tx_amount t\<bar>) txs)"
    and "dc_occurrences d = length txs" and "2 \<le> length txs" and "infer_cadence (sort (map tx_date txs)) = Some (dc_cadence_days d)"
    and "set (dc_transaction_ids d) = tx_id ` set txs"
  using assms by (auto simp: candidate_from_group_def ebind_Inr_iff Let_def MIN_OCCURRENCES_def split: if_splits option.splits)

lemma group_bucket:
  assumes "charges_in_range s" and "set us \<subseteq> set (transactions s)" and "us \<noteq> []"
    and "\<forall>t \<in> set us. charge_bucket t = b"
  shows "amount_bucket (median (map (\<lambda>t. \<bar>tx_amount t\<bar>) us)) = b"
  by (rule median_bucket) (use assms in \<open>auto simp: charges_in_range_def charge_bucket_def subset_iff\<close>)

lemma charge_rows_subset: "set (charge_rows start ref s) \<subseteq> set (transactions s)"
  by (auto simp: charge_rows_def Let_def)

lemma payee_rows_subset: "set (payee_rows start ref s) \<subseteq> set (charge_rows start ref s)"
  by (auto simp: payee_rows_def)

lemma orphan_rows_subset: "set (orphan_rows hmac start ref s) \<subseteq> set (charge_rows start ref s)"
  by (auto simp: orphan_rows_def)

lemma payee_candidate_key:
  assumes "charges_in_range s" and "g \<in> set (group_rows payee_group_key (payee_rows start ref s))"
    and "payee_candidate s g = Inr (Some d)"
  shows "dc_payee_id d = Some (fst (fst g))" and "amount_bucket (dc_amount d) = snd (fst g)"
proof -
  obtain k us where g: "g = (k, us)" by (cases g)
  note us = group_rows_member [OF assms(2) [unfolded g]]
  note f = candidate_from_group_fields [OF assms(3) [unfolded payee_candidate_def g]]
  show "dc_payee_id d = Some (fst (fst g))" using f(1) by (simp add: g)
  have "set us \<subseteq> set (transactions s)"
    using us(3) payee_rows_subset charge_rows_subset by (metis subset_trans)
  moreover have "\<forall>t \<in> set us. charge_bucket t = snd k" using us(2) by (auto simp: payee_group_key_def)
  ultimately show "amount_bucket (dc_amount d) = snd (fst g)"
    using group_bucket [OF assms(1) _ us(1)] f(3) by (simp add: g)
qed

lemma orphan_candidate_key:
  assumes "charges_in_range s" and "g \<in> set (group_rows orphan_group_key (orphan_rows hmac start ref s))"
    and "orphan_candidate g = Inr (Some d)"
  shows "dc_payee_id d = None" and "dc_payee_name d = fst (fst g)" and "amount_bucket (dc_amount d) = snd (fst g)"
    and "fst (fst g) \<noteq> []"
proof -
  obtain k us where g: "g = (k, us)" by (cases g)
  note us = group_rows_member [OF assms(2) [unfolded g]]
  note f = candidate_from_group_fields [OF assms(3) [unfolded orphan_candidate_def g]]
  show "dc_payee_id d = None" "dc_payee_name d = fst (fst g)" using f(1,2) by (simp_all add: g)
  have "set us \<subseteq> set (transactions s)"
    using us(3) orphan_rows_subset charge_rows_subset by (metis subset_trans)
  moreover have "\<forall>t \<in> set us. charge_bucket t = snd k" using us(2) by (auto simp: orphan_group_key_def)
  ultimately show "amount_bucket (dc_amount d) = snd (fst g)"
    using group_bucket [OF assms(1) _ us(1)] f(3) by (simp add: g)
  from us obtain t where "t \<in> set (orphan_rows hmac start ref s)" "orphan_group_key t = k"
    by (metis list.set_intros(1) neq_Nil_conv subsetD)
  then show "fst (fst g) \<noteq> []" by (auto simp: g orphan_rows_def orphan_group_key_def)
qed

section \<open>A dismissed candidate stays away\<close>

definition same_source :: "(string \<Rightarrow> string) \<Rightarrow> detector_candidate \<Rightarrow> detector_candidate \<Rightarrow> bool" where
  "same_source hmac c d \<longleftrightarrow> dc_payee_id d = dc_payee_id c \<and>
    (dc_payee_id c = None \<longrightarrow>
      merchant_key_index hmac (Some (dc_payee_name d)) = merchant_key_index hmac (Some (dc_payee_name c))) \<and>
    amount_bucket (dc_amount d) = amount_bucket (dc_amount c)"

lemma in_dismissed_by_payee:
  "(p, b) \<in> set (dismissed_by_payee s) \<longleftrightarrow>
    (\<exists>d \<in> set (dismissed s). dis_kind d = KIND_SUBSCRIPTION \<and> dis_payee_id d = Some p \<and> dis_amount_bucket d = b)"
  by (force simp: dismissed_by_payee_def)

lemma in_dismissed_by_key:
  "(k, b) \<in> set (dismissed_by_key s) \<longleftrightarrow>
    (\<exists>d \<in> set (dismissed s). dis_kind d = KIND_SUBSCRIPTION \<and> dis_payee_id d = None \<and> dis_merchant_key d = Some k \<and>
      dis_amount_bucket d = b)"
  by (force simp: dismissed_by_key_def)

lemma dismiss_candidate_frame:
  assumes "dismiss_candidate hmac c s = Inr s'"
  shows "charge_rows start ref s' = charge_rows start ref s" and "get_payee s' = get_payee s"
    and "tracked_payee_ids s' = tracked_payee_ids s" and "tracked_merchant_keys s' = tracked_merchant_keys s"
proof -
  obtain ds n where "s' = s\<lparr>dismissed := ds, seq_dismissed := n\<rparr> \<or> s' = s"
    using assms by (auto simp: dismiss_candidate_def Let_def split: if_splits)
  moreover from this have "subscription_category_ids s' = subscription_category_ids s"
    by (auto simp: subscription_category_ids_def get_subscriptions_root_def children_of_def split: option.split)
  ultimately show "charge_rows start ref s' = charge_rows start ref s" "get_payee s' = get_payee s"
    "tracked_payee_ids s' = tracked_payee_ids s" "tracked_merchant_keys s' = tracked_merchant_keys s"
    by (auto simp: charge_rows_def get_payee_def [abs_def] tracked_payee_ids_def tracked_merchant_keys_def)
qed

lemma dismiss_candidate_patterns:
  assumes "dismiss_candidate hmac c s = Inr s'" and "dc_payee_id c = None \<longrightarrow> dc_payee_name c \<noteq> []"
  shows "(p, b) \<in> set (dismissed_by_payee s') \<longleftrightarrow> (p, b) \<in> set (dismissed_by_payee s) \<or>
      dc_payee_id c = Some p \<and> b = amount_bucket (dc_amount c)"
    and "(k, b) \<in> set (dismissed_by_key s') \<longleftrightarrow> (k, b) \<in> set (dismissed_by_key s) \<or>
      dc_payee_id c = None \<and> merchant_key_index hmac (Some (dc_payee_name c)) = Some k \<and> b = amount_bucket (dc_amount c)"
proof -
  let ?key = "if dc_payee_id c \<noteq> None then None else merchant_key_index hmac (Some (dc_payee_name c))"
  let ?same = "same_pattern KIND_SUBSCRIPTION (dc_payee_id c) ?key (amount_bucket (dc_amount c))"
  have "(\<exists>d \<in> set (dismissed s). ?same d) \<and> s' = s \<or> (\<exists>d. ?same d \<and> dismissed s' = dismissed s @ [d])"
    using assms(1) by (auto simp: dismiss_candidate_def Let_def same_pattern_def filter_empty_conv split: if_splits)
  then have mem: "d \<in> set (dismissed s') \<Longrightarrow> d \<in> set (dismissed s) \<or> ?same d"
    "d \<in> set (dismissed s) \<Longrightarrow> d \<in> set (dismissed s')" "\<exists>d \<in> set (dismissed s'). ?same d" for d
    by auto
  show "(p, b) \<in> set (dismissed_by_payee s') \<longleftrightarrow> (p, b) \<in> set (dismissed_by_payee s) \<or>
      dc_payee_id c = Some p \<and> b = amount_bucket (dc_amount c)"
    unfolding in_dismissed_by_payee using mem by (fastforce simp: same_pattern_def)
  show "(k, b) \<in> set (dismissed_by_key s') \<longleftrightarrow> (k, b) \<in> set (dismissed_by_key s) \<or>
      dc_payee_id c = None \<and> merchant_key_index hmac (Some (dc_payee_name c)) = Some k \<and> b = amount_bucket (dc_amount c)"
    unfolding in_dismissed_by_key using mem assms(2) by (fastforce simp: same_pattern_def)
qed

definition keeps_payee :: "detector_candidate \<Rightarrow> int \<times> string \<Rightarrow> bool" where
  "keeps_payee c k \<longleftrightarrow> \<not> (dc_payee_id c = Some (fst k) \<and> snd k = amount_bucket (dc_amount c))"

definition keeps_key :: "(string \<Rightarrow> string) \<Rightarrow> detector_candidate \<Rightarrow> string \<times> string \<Rightarrow> bool" where
  "keeps_key hmac c k \<longleftrightarrow> \<not> (dc_payee_id c = None \<and>
    merchant_key_index hmac (Some (fst k)) = merchant_key_index hmac (Some (dc_payee_name c)) \<and>
    snd k = amount_bucket (dc_amount c))"

lemma dismissed_rows:
  assumes "dismiss_candidate hmac c s = Inr s'" and "dc_payee_id c = None \<longrightarrow> dc_payee_name c \<noteq> []"
  shows "payee_rows start ref s' = filter (\<lambda>t. keeps_payee c (payee_group_key t)) (payee_rows start ref s)"
    and "orphan_rows hmac start ref s' = filter (\<lambda>t. keeps_key hmac c (orphan_group_key t)) (orphan_rows hmac start ref s)"
  unfolding payee_rows_def orphan_rows_def filter_filter
  by (intro filter_cong;
      auto simp: dismiss_candidate_frame [OF assms(1)] dismiss_candidate_patterns [OF assms] keeps_payee_def keeps_key_def
        payee_group_key_def orphan_group_key_def merchant_key_index_def split: option.splits)+

lemma somes_append: "somes (xs @ ys) = somes xs @ somes ys"
  by (induction xs rule: somes.induct) auto

lemma detect_candidates_parts:
  assumes "detect_candidates hmac ref w s = Inr cs"
  obtains start first second where "add_days ref (- window_length w) = Inr start"
    "emap (payee_candidate s) (group_rows payee_group_key (payee_rows start ref s)) = Inr first"
    "emap orphan_candidate (group_rows orphan_group_key (orphan_rows hmac start ref s)) = Inr second"
    "cs = sort_key (\<lambda>c. - dc_amount c) (somes (first @ second))"
  using assms by (auto simp: detect_candidates_def ebind_Inr_iff)

text \<open>Every candidate stands for one of the groups.\<close>

lemma detected_candidate:
  assumes "detect_candidates hmac ref w s = Inr cs" and "d \<in> set cs"
  shows "\<exists>start. add_days ref (- window_length w) = Inr start \<and>
    ((\<exists>g \<in> set (group_rows payee_group_key (payee_rows start ref s)). payee_candidate s g = Inr (Some d)) \<or>
     (\<exists>g \<in> set (group_rows orphan_group_key (orphan_rows hmac start ref s)). orphan_candidate g = Inr (Some d)))"
proof -
  from detect_candidates_parts [OF assms(1)] obtain start first second where
    p: "add_days ref (- window_length w) = Inr start"
      "emap (payee_candidate s) (group_rows payee_group_key (payee_rows start ref s)) = Inr first"
      "emap orphan_candidate (group_rows orphan_group_key (orphan_rows hmac start ref s)) = Inr second"
    and "cs = sort_key (\<lambda>c. - dc_amount c) (somes (first @ second))" .
  with assms(2) have "d \<in> set (somes first) \<or> d \<in> set (somes second)" by (simp add: somes_append)
  with emap_some_source [OF p(2)] emap_some_source [OF p(3)] p(1) show ?thesis by blast
qed

lemma detected_named:
  assumes "detect_candidates hmac ref w s = Inr cs" and "d \<in> set cs" and "charges_in_range s"
  shows "dc_payee_id d = None \<longrightarrow> dc_payee_name d \<noteq> []"
proof -
  from detected_candidate [OF assms(1,2)] obtain start g where
    "(\<exists>g \<in> set (group_rows payee_group_key (payee_rows start ref s)). payee_candidate s g = Inr (Some d)) \<or>
     (\<exists>g \<in> set (group_rows orphan_group_key (orphan_rows hmac start ref s)). orphan_candidate g = Inr (Some d))" by blast
  then show ?thesis
  proof (elim disjE bexE)
    fix g assume "g \<in> set (group_rows payee_group_key (payee_rows start ref s))" "payee_candidate s g = Inr (Some d)"
    from payee_candidate_key(1) [OF assms(3) this] show ?thesis by simp
  next
    fix g assume "g \<in> set (group_rows orphan_group_key (orphan_rows hmac start ref s))" "orphan_candidate g = Inr (Some d)"
    from orphan_candidate_key(2,4) [OF assms(3) this] show ?thesis by simp
  qed
qed

lemma payee_kept:
  assumes "charges_in_range s" and "g \<in> set (group_rows payee_group_key (payee_rows start ref s))"
    and "payee_candidate s g = Inr (Some d)"
  shows "keeps_payee c (fst g) \<longleftrightarrow> \<not> same_source hmac c d"
  using payee_candidate_key [OF assms] by (auto simp: keeps_payee_def same_source_def)

lemma orphan_kept:
  assumes "charges_in_range s" and "g \<in> set (group_rows orphan_group_key (orphan_rows hmac start ref s))"
    and "orphan_candidate g = Inr (Some d)"
  shows "keeps_key hmac c (fst g) \<longleftrightarrow> \<not> same_source hmac c d"
  using orphan_candidate_key(1-3) [OF assms] by (auto simp: keeps_key_def same_source_def)

text \<open>
  A dismissed candidate stays away, and only it. After \<open>dismiss_candidate\<close> the detector returns the
  same list without the candidates of the same payee (or merchant key) and amount bucket: the bucket of
  the stored median is the bucket of the charges it was taken from.
\<close>

lemma dismissed_candidate_stays_away:
  assumes "detect_candidates hmac ref w s = Inr cs" and "c \<in> set cs" and "dismiss_candidate hmac c s = Inr s'"
    and "charges_in_range s"
  shows "detect_candidates hmac ref w s' = Inr (filter (\<lambda>d. \<not> same_source hmac c d) cs)"
proof -
  let ?Q = "\<lambda>d. \<not> same_source hmac c d"
  from detect_candidates_parts [OF assms(1)] obtain start first second where
    p: "add_days ref (- window_length w) = Inr start"
      "emap (payee_candidate s) (group_rows payee_group_key (payee_rows start ref s)) = Inr first"
      "emap orphan_candidate (group_rows orphan_group_key (orphan_rows hmac start ref s)) = Inr second"
    and cs: "cs = sort_key (\<lambda>c. - dc_amount c) (somes (first @ second))" .
  note named = detected_named [OF assms(1,2,4)]
  note rows = dismissed_rows [OF assms(3) named, of start ref]
  have "\<exists>zs. emap (payee_candidate s) (filter (\<lambda>g. keeps_payee c (fst g)) (group_rows payee_group_key (payee_rows start ref s))) = Inr zs \<and>
      somes zs = filter ?Q (somes first)"
    by (rule emap_filter_some [OF p(2) payee_kept [OF assms(4)]])
  then obtain zs where zs: "emap (payee_candidate s) (group_rows payee_group_key (payee_rows start ref s')) = Inr zs"
    "somes zs = filter ?Q (somes first)"
    unfolding rows(1) group_rows_filter by auto
  have "\<exists>us. emap orphan_candidate (filter (\<lambda>g. keeps_key hmac c (fst g)) (group_rows orphan_group_key (orphan_rows hmac start ref s))) = Inr us \<and>
      somes us = filter ?Q (somes second)"
    by (rule emap_filter_some [OF p(3) orphan_kept [OF assms(4)]])
  then obtain us where us: "emap orphan_candidate (group_rows orphan_group_key (orphan_rows hmac start ref s')) = Inr us"
    "somes us = filter ?Q (somes second)"
    unfolding rows(2) group_rows_filter by auto
  have "payee_candidate s' = payee_candidate s"
    by (simp add: fun_eq_iff payee_candidate_def dismiss_candidate_frame(2) [OF assms(3)])
  then show ?thesis
    by (simp add: detect_candidates_def p(1) zs us somes_append cs filter_sort)
qed

definition ex_charge :: "int \<Rightarrow> date \<Rightarrow> decimal \<Rightarrow> string \<Rightarrow> transaction" where
  "ex_charge i d amount desc = (ex_tx i 1 EXPENSE amount d)\<lparr>tx_description := desc\<rparr>"

definition ex_charges_db :: db where
  "ex_charges_db = ex_db\<lparr>transactions := [ex_charge 1 (Date 2026 1 5) 43 ''Netflix /Amsterdam'',
     ex_charge 2 (Date 2026 2 4) (215 / 5) ''NETFLIX  /Paris'', ex_charge 3 (Date 2026 1 7) 10 ''Tidal'',
     ex_charge 4 (Date 2026 2 6) 10 ''TIDAL''], seq_tx := 5\<rparr>"

lemma dismissed_candidate_stays_away_witness:
  "\<exists>cs s'. detect_candidates ex_hash (Date 2026 3 1) None ex_charges_db = Inr cs \<and> length cs = 2 \<and>
     dismiss_candidate ex_hash (hd cs) ex_charges_db = Inr s' \<and>
     detect_candidates ex_hash (Date 2026 3 1) None s' = Inr (filter (\<lambda>d. \<not> same_source ex_hash (hd cs) d) cs)"
proof -
  let ?d = "detect_candidates ex_hash (Date 2026 3 1) None ex_charges_db"
  have ok: "(case ?d of Inl e \<Rightarrow> False
      | Inr cs \<Rightarrow> length cs = 2 \<and> succeeds (dismiss_candidate ex_hash (hd cs) ex_charges_db))" by code_simp
  then obtain cs where cs: "?d = Inr cs" "length cs = 2" "succeeds (dismiss_candidate ex_hash (hd cs) ex_charges_db)"
    by (auto split: sum.splits)
  then obtain s' where s': "dismiss_candidate ex_hash (hd cs) ex_charges_db = Inr s'" by (auto elim: succeedsE)
  have "hd cs \<in> set cs" using cs(2) by (cases cs) auto
  moreover have "charges_in_range ex_charges_db"
    by (simp add: charges_in_range_def ex_charges_db_def ex_charge_def ex_tx_def money_range_def)
  ultimately show ?thesis using dismissed_candidate_stays_away [OF cs(1) _ s'] cs s' by blast
qed

definition ex_refile_db :: db where
  "ex_refile_db = ex_charges_db\<lparr>categories := [ex_cat 7 ''Streaming'' CAT_EXPENSE None], seq_category := 8,
     subscriptions := [new_subscription ex_subscription_create None 1], seq_subscription := 2\<rparr>"

lemma refile_moves_what_was_counted_witness:
  "\<exists>m s'. refile 9 1 (Some 7) None (Date 2026 3 1) ex_refile_db = Inr (m, s') \<and>
     count_refilable 9 1 7 None (Date 2026 3 1) ex_refile_db = Inr 2 \<and>
     count_refilable 9 1 7 None (Date 2026 3 1) s' = Inr 0 \<and> balance s' 1 None = balance ex_refile_db 1 None"
proof -
  have n: "count_refilable 9 1 7 None (Date 2026 3 1) ex_refile_db = Inr 2" by code_simp
  have "find_row cat_id 7 (categories ex_refile_db) \<noteq> None" by (simp add: ex_refile_db_def ex_cat_def)
  from refile_moves_what_was_counted [OF n this] n show ?thesis by auto
qed

section \<open>An accepted candidate is retired\<close>

lemma recategorise_frame:
  assumes "recategorise now p n a c w today b s = Inr (m, s')"
  shows "subscriptions s' = subscriptions s" and "plans s' = plans s"
  using assms by (auto simp: recategorise_def ebind_Inr_iff Let_def split: if_splits)

lemma create_subscription_row:
  assumes "create_subscription clock p s = Some (Inr (x, s'))"
  shows "x \<in> set (subscriptions s')" and "sub_status x = SUB_ACTIVE" and "sub_payee_id x = sbc_payee_id p"
    and "sub_name x = sbc_name p"
  using assms by (auto simp: create_subscription_def rbind_def Let_def new_subscription_def split: option.splits sum.splits if_splits)

lemma create_from_candidate_row:
  assumes "create_from_candidate now clock c cat w today s = Some (Inr x, s')"
  shows "x \<in> set (subscriptions s')" and "sub_status x = SUB_ACTIVE" and "sub_payee_id x = dc_payee_id c"
    and "sub_name x = dc_payee_name c"
proof -
  from assms obtain p s1 where "create_subscription clock p s = Some (Inr (x, s1))" and "sbc_payee_id p = dc_payee_id c"
    and "sbc_name p = dc_payee_name c" and "subscriptions s' = subscriptions s1"
    by (auto simp: create_from_candidate_def rbind_def subscription_payload_def raise_if_def candidate_payload_def recategorise_frame
        split: option.splits sum.splits if_splits prod.splits)
  with create_subscription_row show "x \<in> set (subscriptions s')" "sub_status x = SUB_ACTIVE"
    "sub_payee_id x = dc_payee_id c" "sub_name x = dc_payee_name c" by metis+
qed

lemma tracked_subscription:
  assumes "x \<in> set (subscriptions s)" and "sub_status x \<noteq> SUB_CANCELLED"
  shows "sub_payee_id x = Some p \<Longrightarrow> p \<in> set (tracked_payee_ids s)"
    and "k = merchant_key_from_description (Some (sub_name x)) \<Longrightarrow> k \<noteq> [] \<Longrightarrow> k \<in> set (tracked_merchant_keys s)"
  using assms by (auto simp: tracked_payee_ids_def tracked_merchant_keys_def)

lemma detected_untracked:
  assumes "detect_candidates hmac ref w s = Inr cs" and "d \<in> set cs"
  shows "case dc_payee_id d of
      Some p \<Rightarrow> p \<notin> set (tracked_payee_ids s)
    | None \<Rightarrow> dc_payee_name d \<notin> set (tracked_merchant_keys s)"
proof -
  from detected_candidate [OF assms] obtain start where
    "(\<exists>g \<in> set (group_rows payee_group_key (payee_rows start ref s)). payee_candidate s g = Inr (Some d)) \<or>
     (\<exists>g \<in> set (group_rows orphan_group_key (orphan_rows hmac start ref s)). orphan_candidate g = Inr (Some d))" by blast
  then show ?thesis
  proof (elim disjE bexE)
    fix g assume g: "g \<in> set (group_rows payee_group_key (payee_rows start ref s))" "payee_candidate s g = Inr (Some d)"
    obtain k us where k: "g = (k, us)" by (cases g)
    note us = group_rows_member [OF g(1) [unfolded k]]
    then obtain t where t: "t \<in> set (payee_rows start ref s)" "payee_group_key t = k" by (metis list.set_intros(1) neq_Nil_conv subsetD)
    have "dc_payee_id d = Some (fst k)" using candidate_from_group_fields(1) [OF g(2) [unfolded payee_candidate_def]] by (simp add: k)
    with t show ?thesis by (auto simp: payee_rows_def payee_group_key_def split: option.splits)
  next
    fix g assume g: "g \<in> set (group_rows orphan_group_key (orphan_rows hmac start ref s))" "orphan_candidate g = Inr (Some d)"
    obtain k us where k: "g = (k, us)" by (cases g)
    note us = group_rows_member [OF g(1) [unfolded k]]
    then obtain t where t: "t \<in> set (orphan_rows hmac start ref s)" "orphan_group_key t = k" by (metis list.set_intros(1) neq_Nil_conv subsetD)
    have "dc_payee_id d = None" "dc_payee_name d = fst k"
      using candidate_from_group_fields(1,2) [OF g(2) [unfolded orphan_candidate_def]] by (simp_all add: k)
    with t show ?thesis by (auto simp: orphan_rows_def orphan_group_key_def)
  qed
qed


text \<open>
  A description whose fortieth character is a blank gives a key that ends in the blank, and the key of
  that key is one shorter: the subscription made of it does not retire the detection.
\<close>

definition ex_long_description :: string where
  "ex_long_description = ''ACME HOME INSURANCE COMPANY LIMITED LTD Warsaw''"

lemma truncated_key_is_not_its_own_key:
  "length (merchant_key_from_description (Some ex_long_description)) = 40 \<and>
   merchant_key_from_description (Some (merchant_key_from_description (Some ex_long_description))) \<noteq>
     merchant_key_from_description (Some ex_long_description)"
  by code_simp

definition ex_candidate :: detector_candidate where
  "ex_candidate = \<lparr>dc_payee_id = None, dc_payee_name = ''NETFLIX'', dc_amount = 43, dc_cadence_days = 30,
     dc_occurrences = 2, dc_first_seen_at = Date 2026 1 5, dc_last_seen_at = Date 2026 2 4,
     dc_next_expected_at = Date 2026 3 6, dc_account_id = Some 1, dc_category_id = None, dc_transaction_ids = [1, 2]\<rparr>"

lemma ex_candidate_accepted: "\<exists>x s'. create_from_candidate 9 (Date 2026 3 1) ex_candidate None None (Date 2026 3 1) ex_charges_db = Some (Inr x, s') \<and>
    s' = ex_charges_db\<lparr>subscriptions := [x], seq_subscription := 2\<rparr> \<and>
    x = new_subscription (candidate_payload ex_candidate None (Date 2026 3 6)) (Some (Date 2026 3 6)) 1"
proof -
  have n: "next_expected_after ex_candidate (Date 2026 3 1) = Some (Inr (Date 2026 3 6))"
    unfolding next_expected_after_def by (subst catch_up.simps) (simp add: ex_candidate_def less_eq_date_def less_date_def)
  show ?thesis unfolding create_from_candidate_def n
    by (simp add: rbind_def subscription_payload_def raise_if_def candidate_payload_def ex_candidate_def opt_len_def
        create_subscription_def Let_def sub_fk_def fk_ok_def new_subscription_def ex_charges_db_def ex_db_def empty_db_def)
qed


section \<open>Where the code departs from its intention\<close>

lemma create_drops_the_notes:
  "create_subscription clock p s = Some (Inr (x, s')) \<Longrightarrow> sub_notes x = None"
  by (auto simp: create_subscription_def rbind_def Let_def new_subscription_def split: option.splits sum.splits if_splits)

text \<open>A muted subscription stays muted: \<open>muted_until\<close> is written and never read again.\<close>

lemma settlement_keeps_muted:
  "x \<in> set (subscriptions s) \<Longrightarrow> sub_status x = SUB_MUTED \<Longrightarrow> sub_cancelled_at x = None \<Longrightarrow>
    x \<in> set (subscriptions (snd (settle_due_cancellations ref s)))"
  by (force simp: settle_rows cancellation_due_def)

text \<open>A renewal after the day of a scheduled cancellation is still announced.\<close>

lemma renewal_after_cancellation:
  assumes "x \<in> set (subscriptions s)" and "sub_status x = SUB_ACTIVE" and "sub_cancelled_at x = Some stop"
    and "sub_next_expected_at x = Some d" and "ref \<le> stop" and "stop < d" and "d \<le> deadline" and "add_days ref days = Inr deadline"
  shows "\<exists>rows. upcoming_renewals days ref s = Inr rows \<and> (\<exists>r \<in> set rows. rr_subscription_id r = sub_id x \<and> stop < rr_expected_at r)"
proof -
  have "ref \<le> d" using assms(5,6) by (meson less_imp_le order_trans)
  with assms show ?thesis by (fastforce simp: upcoming_renewals_def)
qed

end
