(* ===== verification/EditDistance.thy ===== *)
theory EditDistance
  imports Prelude
begin

text \<open>
  \<open>levenshtein\<close> of \<open>src/src/kaleta/services/dedupe_service.py\<close>, which keeps one row of the distance table,
  against what the distance is: the least number of insertions, deletions and replacements of single
  characters that turn one text into the other. Between the two stand the alignments of two texts
  (\<open>aligned\<close>) and the recursive distance \<open>lev\<close>.
\<close>

section \<open>Definitions\<close>

text \<open>The inner loop: \<open>left\<close> is \<open>cur[-1]\<close>, the row above begins at \<open>prev[j]\<close>.\<close>

fun lev_cells :: "'c \<Rightarrow> 'c list \<Rightarrow> nat list \<Rightarrow> nat \<Rightarrow> nat list" where
  "lev_cells ca (cb # b) (p # q # ps) left =
    (let x = min (left + 1) (min (q + 1) (p + (if ca = cb then 0 else 1))) in x # lev_cells ca b (q # ps) x)"
| "lev_cells ca b ps left = []"

fun lev_rows :: "nat \<Rightarrow> 'c list \<Rightarrow> 'c list \<Rightarrow> nat list \<Rightarrow> nat list" where
  "lev_rows i [] b prev = prev"
| "lev_rows i (ca # a) b prev = lev_rows (i + 1) a b ((i + 1) # lev_cells ca b prev (i + 1))"

definition levenshtein :: "'c list \<Rightarrow> 'c list \<Rightarrow> nat" where
  "levenshtein a b =
    (let (a, b) = (if length a < length b then (b, a) else (a, b))
     in if b = [] then length a else last (lev_rows 0 a b [0..<length b + 1]))"

section \<open>Single edits and alignments\<close>

definition one_edit :: "('c list \<times> 'c list) set" where
  "one_edit = {(a, b). \<exists>u v x y. a = u @ x # v \<and> b = u @ v \<or> a = u @ v \<and> b = u @ y # v \<or> a = u @ x # v \<and> b = u @ y # v}"

definition edit_distance :: "'c list \<Rightarrow> 'c list \<Rightarrow> nat" where
  "edit_distance a b = (LEAST n. (a, b) \<in> one_edit ^^ n)"

inductive aligned :: "nat \<Rightarrow> 'c list \<Rightarrow> 'c list \<Rightarrow> bool" where
  none: "aligned 0 [] []"
| keep: "aligned n a b \<Longrightarrow> aligned n (x # a) (x # b)"
| replace: "aligned n a b \<Longrightarrow> aligned (Suc n) (x # a) (y # b)"
| add: "aligned n a b \<Longrightarrow> aligned (Suc n) a (y # b)"
| drop: "aligned n a b \<Longrightarrow> aligned (Suc n) (x # a) b"

declare aligned.intros [intro]

fun lev :: "'c list \<Rightarrow> 'c list \<Rightarrow> nat" where
  "lev [] b = length b"
| "lev a [] = length a"
| "lev (x # a) (y # b) = min (lev (x # a) b + 1) (min (lev a (y # b) + 1) (lev a b + (if x = y then 0 else 1)))"

lemma lev_Nil2 [simp]: "lev a [] = length a"
  by (cases a) simp_all

lemma lev_add: "lev a (y # b) \<le> lev a b + 1"
  by (cases a) simp_all

lemma lev_drop: "lev (x # a) b \<le> lev a b + 1"
  by (cases b) simp_all

lemma aligned_adds: "aligned (length b) [] b"
  by (induction b) auto

lemma aligned_drops: "aligned (length a) a []"
  by (induction a) auto

lemma aligned_lev: "aligned (lev a b) a b"
proof (induction a b rule: lev.induct)
  case (3 x a y b)
  then show ?case by (auto simp: min_def)
qed (auto simp: aligned_adds aligned_drops)

lemma lev_least: "aligned n a b \<Longrightarrow> lev a b \<le> n"
proof (induction rule: aligned.induct)
  case (add n a b y)
  with lev_add [of a y b] show ?case by simp
next
  case (drop n a b x)
  with lev_drop [of x a b] show ?case by simp
qed auto

lemma aligned_append: "aligned m a b \<Longrightarrow> aligned n c d \<Longrightarrow> aligned (m + n) (a @ c) (b @ d)"
  by (induction rule: aligned.induct) auto

lemma aligned_rev: "aligned n a b \<Longrightarrow> aligned n (rev a) (rev b)"
proof (induction rule: aligned.induct)
  case (keep n a b x)
  from aligned_append [OF keep.IH, of 0 "[x]" "[x]"] show ?case by auto
next
  case (replace n a b x y)
  from aligned_append [OF replace.IH, of 1 "[x]" "[y]"] show ?case by auto
next
  case (add n a b y)
  from aligned_append [OF add.IH, of 1 "[]" "[y]"] show ?case by auto
next
  case (drop n a b x)
  from aligned_append [OF drop.IH, of 1 "[x]" "[]"] show ?case by auto
qed auto

lemma aligned_sym: "aligned n a b \<Longrightarrow> aligned n b a"
  by (induction rule: aligned.induct) auto

lemma lev_rev: "lev (rev a) (rev b) = lev a b"
proof (rule antisym)
  show "lev (rev a) (rev b) \<le> lev a b" by (rule lev_least [OF aligned_rev [OF aligned_lev]])
  have "aligned (lev (rev a) (rev b)) (rev (rev a)) (rev (rev b))" by (rule aligned_rev [OF aligned_lev])
  then show "lev a b \<le> lev (rev a) (rev b)" by (intro lev_least) simp
qed

lemma lev_sym: "lev a b = lev b a"
  by (rule antisym; rule lev_least [OF aligned_sym [OF aligned_lev]])

section \<open>The table\<close>

definition prefix_lev :: "'c list \<Rightarrow> 'c list \<Rightarrow> nat" where
  "prefix_lev u v = lev (rev u) (rev v)"

lemma prefix_lev_simps [simp]:
  "prefix_lev [] v = length v"
  "prefix_lev u [] = length u"
  "prefix_lev (u @ [x]) (v @ [y]) =
    min (prefix_lev (u @ [x]) v + 1) (min (prefix_lev u (v @ [y]) + 1) (prefix_lev u v + (if x = y then 0 else 1)))"
  by (simp_all add: prefix_lev_def)

lemma map_upt_shift: "map f [0..<Suc n] = f 0 # map (\<lambda>j. f (Suc j)) [0..<n]"
  by (rule map_upt_Suc)

lemma lev_cells_table:
  "lev_cells ca w (map (\<lambda>j. prefix_lev u (v @ take j w)) [0..<Suc (length w)]) (prefix_lev (u @ [ca]) v) =
    map (\<lambda>j. prefix_lev (u @ [ca]) (v @ take (Suc j) w)) [0..<length w]"
proof (induction w arbitrary: v)
  case (Cons cb w)
  let ?row = "\<lambda>v. map (\<lambda>j. prefix_lev u (v @ take j w)) [0..<Suc (length w)]"
  have above: "map (\<lambda>j. prefix_lev u (v @ take j (cb # w))) [0..<Suc (length (cb # w))] =
      prefix_lev u v # ?row (v @ [cb])"
    unfolding map_upt_shift [of _ "length (cb # w)"] by simp
  have hd: "?row (v @ [cb]) = prefix_lev u (v @ [cb]) # map (\<lambda>j. prefix_lev u ((v @ [cb]) @ take (Suc j) w)) [0..<length w]"
    unfolding map_upt_shift by simp
  have "lev_cells ca (cb # w) (prefix_lev u v # ?row (v @ [cb])) (prefix_lev (u @ [ca]) v) =
      prefix_lev (u @ [ca]) (v @ [cb]) # lev_cells ca w (?row (v @ [cb])) (prefix_lev (u @ [ca]) (v @ [cb]))"
    unfolding hd by (simp add: Let_def)
  also have "\<dots> = prefix_lev (u @ [ca]) (v @ [cb]) # map (\<lambda>j. prefix_lev (u @ [ca]) ((v @ [cb]) @ take (Suc j) w)) [0..<length w]"
    by (simp only: Cons.IH)
  also have "\<dots> = map (\<lambda>j. prefix_lev (u @ [ca]) (v @ take (Suc j) (cb # w))) [0..<length (cb # w)]"
    unfolding list.size map_upt_shift add_0_right add_Suc_right by simp
  finally show ?case unfolding above .
qed simp

definition table_row :: "'c list \<Rightarrow> 'c list \<Rightarrow> nat list" where
  "table_row u b = map (\<lambda>j. prefix_lev u (take j b)) [0..<Suc (length b)]"

lemma table_row_step: "(length u + 1) # lev_cells ca b (table_row u b) (length u + 1) = table_row (u @ [ca]) b"
proof -
  have "table_row (u @ [ca]) b = prefix_lev (u @ [ca]) [] # map (\<lambda>j. prefix_lev (u @ [ca]) (take (Suc j) b)) [0..<length b]"
    unfolding table_row_def map_upt_shift by simp
  then show ?thesis using lev_cells_table [of ca b u "[]"] by (simp add: table_row_def)
qed

lemma lev_rows_table: "lev_rows (length u) a b (table_row u b) = table_row (u @ a) b"
proof (induction a arbitrary: u)
  case (Cons ca a)
  have "lev_rows (length u) (ca # a) b (table_row u b) = lev_rows (length (u @ [ca])) a b (table_row (u @ [ca]) b)"
    using table_row_step [of u ca b] by simp
  then show ?case using Cons.IH [of "u @ [ca]"] by simp
qed simp

lemma levenshtein_lev: "levenshtein a b = lev a b"
proof -
  have main: "last (lev_rows 0 a b [0..<length b + 1]) = lev a b" for a b :: "'a list"
  proof -
    have "[0..<length b + 1] = table_row [] b"
      unfolding table_row_def by (rule nth_equalityI) (auto simp del: upt_Suc)
    then have "lev_rows 0 a b [0..<length b + 1] = table_row a b" using lev_rows_table [of "[]" a b] by simp
    moreover have "last (table_row a b) = prefix_lev a b" by (simp add: table_row_def)
    ultimately show ?thesis by (simp add: prefix_lev_def lev_rev)
  qed
  show ?thesis
  proof (cases "length a < length b")
    case True
    then show ?thesis using main [of b a] lev_sym [of a b] by (auto simp: levenshtein_def)
  next
    case False
    then show ?thesis using main [of a b] by (auto simp: levenshtein_def)
  qed
qed

section \<open>The least number of edits\<close>

lemma one_edit_Cons: "(a, b) \<in> one_edit \<Longrightarrow> (x # a, x # b) \<in> one_edit"
  unfolding one_edit_def by simp (metis append_Cons)

lemma edits_Cons: "(a, b) \<in> one_edit ^^ n \<Longrightarrow> (x # a, x # b) \<in> one_edit ^^ n"
proof (induction n arbitrary: b)
  case (Suc n)
  then obtain c where "(a, c) \<in> one_edit ^^ n" "(c, b) \<in> one_edit" by auto
  with Suc.IH one_edit_Cons show ?case by (metis relpow_Suc_I)
qed simp

lemma aligned_edits: "aligned n a b \<Longrightarrow> (a, b) \<in> one_edit ^^ n"
proof (induction rule: aligned.induct)
  case (keep n a b x)
  then show ?case by (intro edits_Cons)
next
  case (replace n a b x y)
  have "(x # b, y # b) \<in> one_edit" unfolding one_edit_def by simp (metis append_Nil)
  with edits_Cons [OF replace.IH, of x] show ?case by (metis relpow_Suc_I)
next
  case (add n a b y)
  have "(b, y # b) \<in> one_edit" unfolding one_edit_def by simp (metis append_Nil)
  with add.IH show ?case by (metis relpow_Suc_I)
next
  case (drop n a b x)
  have "(x # a, a) \<in> one_edit" unfolding one_edit_def by simp (metis append_Nil)
  with drop.IH show ?case by (metis relpow_Suc_I2)
qed simp

lemma lev_tail: "lev a b \<le> lev a (y # b) + 1"
proof (induction a)
  case (Cons x a)
  have "lev (x # a) b \<le> lev a b + 1" by (rule lev_drop)
  with Cons show ?case by (simp add: min_def split: if_splits)
qed simp

lemma lev_change: "lev a (z # b) \<le> lev a (y # b) + 1"
proof (induction a)
  case (Cons x a)
  have "lev (x # a) (z # b) \<le> lev (x # a) b + 1" "lev (x # a) (z # b) \<le> lev a (z # b) + 1" "lev (x # a) (z # b) \<le> lev a b + 1"
    by auto
  with Cons show ?case by (simp add: min_def split: if_splits)
qed simp

lemma aligned_split:
  "aligned n a (u @ w) \<Longrightarrow> \<exists>a1 a2 m k. a = a1 @ a2 \<and> n = m + k \<and> aligned m a1 u \<and> aligned k a2 w"
proof (induction n a "u @ w" arbitrary: u rule: aligned.induct)
  case none
  then show ?case by (auto intro: exI [of _ "[]"])
next
  case (keep n a b x)
  show ?case
  proof (cases u)
    case Nil
    with keep show ?thesis by (metis aligned.keep aligned.none append_Nil add_0)
  next
    case (Cons c u')
    with keep(3) keep(2) [of u'] obtain a1 a2 m k where "a = a1 @ a2" "n = m + k" "aligned m a1 u'" "aligned k a2 w" "c = x"
      by auto
    then show ?thesis using Cons by (intro exI [of _ "x # a1"] exI [of _ a2] exI [of _ m] exI [of _ k]) auto
  qed
next
  case (replace n a b x y)
  show ?case
  proof (cases u)
    case Nil
    with replace show ?thesis by (metis aligned.replace aligned.none append_Nil add_0)
  next
    case (Cons c u')
    with replace(3) replace(2) [of u'] obtain a1 a2 m k where "a = a1 @ a2" "n = m + k" "aligned m a1 u'" "aligned k a2 w"
      by auto
    then show ?thesis using Cons by (intro exI [of _ "x # a1"] exI [of _ a2] exI [of _ "Suc m"] exI [of _ k]) auto
  qed
next
  case (add n a b y)
  show ?case
  proof (cases u)
    case Nil
    with add show ?thesis by (metis aligned.add aligned.none append_Nil add_0)
  next
    case (Cons c u')
    with add(3) add(2) [of u'] obtain a1 a2 m k where "a = a1 @ a2" "n = m + k" "aligned m a1 u'" "aligned k a2 w"
      by auto
    then show ?thesis using Cons by (intro exI [of _ a1] exI [of _ a2] exI [of _ "Suc m"] exI [of _ k]) auto
  qed
next
  case (drop n a x)
  from drop(2) obtain a1 a2 m k where "a = a1 @ a2" "n = m + k" "aligned m a1 u" "aligned k a2 w" by auto
  then show ?case by (intro exI [of _ "x # a1"] exI [of _ a2] exI [of _ "Suc m"] exI [of _ k]) auto
qed

lemma lev_one_edit: "(b, c) \<in> one_edit \<Longrightarrow> lev a c \<le> lev a b + 1"
proof -
  assume "(b, c) \<in> one_edit"
  then consider (del) u v x where "b = u @ x # v" "c = u @ v" | (ins) u v y where "b = u @ v" "c = u @ y # v"
    | (rep) u v x y where "b = u @ x # v" "c = u @ y # v" unfolding one_edit_def by blast
  then obtain u v v' where b: "b = u @ v" and c: "c = u @ v'" and step: "\<And>d. lev d v' \<le> lev d v + 1"
  proof cases
    case del
    show thesis by (rule that [OF del]) (rule lev_tail)
  next
    case ins
    show thesis by (rule that [OF ins]) (rule lev_add)
  next
    case rep
    show thesis by (rule that [OF rep]) (rule lev_change)
  qed
  from aligned_split [OF aligned_lev [of a b, unfolded b]] obtain a1 a2 m k where
    s: "a = a1 @ a2" "lev a b = m + k" "aligned m a1 u" "aligned k a2 v" unfolding b by auto
  have "aligned (m + lev a2 v') (a1 @ a2) (u @ v')" by (rule aligned_append [OF s(3) aligned_lev])
  then have "lev a c \<le> m + lev a2 v'" unfolding s(1) c by (rule lev_least)
  also have "\<dots> \<le> m + (lev a2 v + 1)" using step by simp
  also have "\<dots> \<le> lev a b + 1" using lev_least [OF s(4)] s(2) by simp
  finally show ?thesis .
qed

lemma lev_edits: "(a, b) \<in> one_edit ^^ n \<Longrightarrow> lev a b \<le> n"
proof (induction n arbitrary: b)
  case 0
  have "aligned 0 a a" by (induction a) auto
  with 0 lev_least show ?case by auto
next
  case (Suc n)
  then obtain c where "(a, c) \<in> one_edit ^^ n" "(c, b) \<in> one_edit" by auto
  with Suc.IH [of c] lev_one_edit [of c b a] show ?case by simp
qed

text \<open>
  C28. The name distance is the edit distance: \<open>levenshtein\<close> returns the least number of single
  insertions, deletions and replacements that lead from one text to the other.
\<close>

theorem levenshtein_is_edit_distance: "levenshtein a b = edit_distance a b"
  unfolding edit_distance_def levenshtein_lev
  by (rule Least_equality [symmetric]) (auto intro: aligned_edits aligned_lev lev_edits)

end
