(* ===== verification/Dedupe.thy ===== *)
theory Dedupe
  imports EditDistance Merchants Budgets
begin

text \<open>
  \<open>src/src/kaleta/services/dedupe_service.py\<close>: the detectors of duplicate transactions, similar payees and
  redundant categories, and the merges that move every reference to the kept row. Texts are ASCII, on
  which the Unicode decomposition of \<open>normalise_name\<close> is the identity.
\<close>

section \<open>Definitions\<close>

subsection \<open>Names\<close>

definition PAYEE_LEVENSHTEIN_SHORT_NAME_MAX :: nat where "PAYEE_LEVENSHTEIN_SHORT_NAME_MAX = 10"
definition PAYEE_LEVENSHTEIN_SHORT_THRESHOLD :: int where "PAYEE_LEVENSHTEIN_SHORT_THRESHOLD = 2"
definition PAYEE_LEVENSHTEIN_LONG_THRESHOLD :: int where "PAYEE_LEVENSHTEIN_LONG_THRESHOLD = 3"
definition PAYEE_CORE_MIN_LENGTH :: nat where "PAYEE_CORE_MIN_LENGTH = 3"
definition PAYEE_CORE_PREFIX_MIN_LENGTH :: nat where "PAYEE_CORE_PREFIX_MIN_LENGTH = 4"
definition DUPLICATE_TX_DATE_WINDOW :: int where "DUPLICATE_TX_DATE_WINDOW = 1"
definition DUPLICATE_TX_SCAN_DAYS :: int where "DUPLICATE_TX_SCAN_DAYS = 365"

text \<open>\<open>re.sub(r"[^a-z0-9 ]+", " ", s)\<close>: a run becomes one blank.\<close>

definition name_char :: "char \<Rightarrow> bool" where
  "name_char c = (let n = of_char c :: nat in 97 \<le> n \<and> n \<le> 122 \<or> 48 \<le> n \<and> n \<le> 57 \<or> n = 32)"

fun blank_runs :: "bool \<Rightarrow> string \<Rightarrow> string" where
  "blank_runs inside [] = []"
| "blank_runs inside (c # cs) =
    (if name_char c then c # blank_runs False cs
     else if inside then blank_runs True cs else CHR '' '' # blank_runs True cs)"

definition normalise_name :: "string \<Rightarrow> string" where
  "normalise_name name =
    (if name = [] then [] else strip (collapse_in False (blank_runs False (casefold name))))"

definition legal_form_runs :: "string list list" where
  "legal_form_runs = sort_key (\<lambda>r. - int (length r))
    [[''spolka'', ''z'', ''ograniczona'', ''odpowiedzialnoscia''], [''spolka'', ''akcyjna''],
     [''spolka'', ''komandytowa''], [''spolka'', ''jawna''], [''spolka'', ''cywilna''], [''sp'', ''z'', ''o'', ''o''],
     [''sp'', ''z'', ''oo''], [''sp'', ''zoo''], [''sp'', ''k''], [''sp'', ''j''], [''sp'', ''p''], [''s'', ''a''], [''s'', ''c''],
     [''spzoo''], [''gmbh''], [''ltd''], [''llc''], [''inc''], [''plc''], [''bv'']]"

definition location_tokens :: "string list" where
  "location_tokens = [''pl'', ''pol'', ''polska'', ''poland'', ''warszawa'', ''warsaw'', ''krakow'', ''lodz'',
     ''wroclaw'', ''poznan'', ''gdansk'', ''szczecin'', ''bydgoszcz'', ''lublin'', ''bialystok'', ''katowice'',
     ''gdynia'', ''czestochowa'', ''radom'', ''torun'', ''sosnowiec'', ''kielce'', ''rzeszow'', ''gliwice'',
     ''zabrze'', ''olsztyn'', ''opole'', ''sopot'']"

lemma legal_form_runs_nonempty: "r \<in> set legal_form_runs \<Longrightarrow> r \<noteq> []"
  by (auto simp: legal_form_runs_def)

lemma find_Some_mem: "find P xs = Some x \<Longrightarrow> x \<in> set xs \<and> P x"
  by (induction xs) (auto split: if_splits)

function core_of :: "string list \<Rightarrow> string list" where
  "core_of [] = []"
| "core_of (t # ts) =
    (case find (\<lambda>r. take (length r) (t # ts) = r) legal_form_runs of
       Some r \<Rightarrow> core_of (drop (length r) (t # ts))
     | None \<Rightarrow> if (\<exists>c \<in> set t. is_digit c) \<or> t \<in> set location_tokens then core_of ts else t # core_of ts)"
  by pat_completeness auto
termination
  by (relation "measure length")
    (auto dest!: find_Some_mem legal_form_runs_nonempty simp: neq_Nil_conv)

definition core_tokens :: "string \<Rightarrow> string list" where
  "core_tokens name = core_of (words_of (normalise_name name))"

definition descriptions_look_alike :: "string \<Rightarrow> string \<Rightarrow> bool" where
  "descriptions_look_alike a b =
    (let na = normalise_name a; nb = normalise_name b
     in if na = [] \<or> nb = [] then True
        else if na = nb then True
        else \<exists>t \<in> set (words_of na). 4 \<le> length t \<and> t \<in> set (words_of nb))"

definition norm_levenshtein_close :: "int option \<Rightarrow> string \<Rightarrow> string \<Rightarrow> bool" where
  "norm_levenshtein_close max_distance na nb =
    (if na = [] \<or> nb = [] \<or> na = nb then False
     else let short_len = min (length na) (length nb);
              threshold = (case max_distance of
                  Some d \<Rightarrow> d
                | None \<Rightarrow> if short_len \<le> PAYEE_LEVENSHTEIN_SHORT_NAME_MAX
                           then PAYEE_LEVENSHTEIN_SHORT_THRESHOLD else PAYEE_LEVENSHTEIN_LONG_THRESHOLD)
          in if threshold < \<bar>int (length na) - int (length nb)\<bar> then False
             else if short_len < 3 then False
             else int (levenshtein na nb) \<le> threshold)"

definition levenshtein_close :: "string \<Rightarrow> string \<Rightarrow> bool" where
  "levenshtein_close a b = norm_levenshtein_close None (normalise_name a) (normalise_name b)"

subsection \<open>Clusters\<close>

text \<open>
  The greedy loop the detectors share: each row that is not used yet opens a cluster of the later
  unused rows related to it; clusters of two or more are kept and their rows used.
\<close>

fun greedy :: "('a \<Rightarrow> 'a \<Rightarrow> bool) \<Rightarrow> ('a \<Rightarrow> int) \<Rightarrow> int set \<Rightarrow> 'a list \<Rightarrow> 'a list list" where
  "greedy related key used [] = []"
| "greedy related key used (a # xs) =
    (if key a \<in> used then greedy related key used xs
     else let cluster = a # filter (\<lambda>b. key b \<notin> used \<and> related a b) xs
          in if 2 \<le> length cluster
             then cluster # greedy related key (used \<union> key ` set cluster) xs
             else greedy related key used xs)"

record tx_group_item =
  tgi_id :: int
  tgi_date :: date
  tgi_amount :: decimal
  tgi_description :: string
  tgi_account_id :: int
  tgi_payee_id :: "int option"
  tgi_category_id :: "int option"

definition tx_item :: "transaction \<Rightarrow> tx_group_item" where
  "tx_item t = \<lparr>tgi_id = tx_id t, tgi_date = tx_date t, tgi_amount = tx_amount t, tgi_description = tx_description t,
     tgi_account_id = tx_account_id t, tgi_payee_id = tx_payee_id t, tgi_category_id = tx_category_id t\<rparr>"

definition looks_duplicate :: "tx_group_item \<Rightarrow> tx_group_item \<Rightarrow> bool" where
  "looks_duplicate r other \<longleftrightarrow>
    \<bar>days_between (tgi_date other) (tgi_date r)\<bar> \<le> DUPLICATE_TX_DATE_WINDOW \<and>
    descriptions_look_alike (tgi_description r) (tgi_description other)"

definition duplicate_transactions :: "date \<Rightarrow> int option \<Rightarrow> db \<Rightarrow> tx_group_item list list result" where
  "duplicate_transactions ref window_days s =
    ebind (add_days ref (- (case window_days of None \<Rightarrow> DUPLICATE_TX_SCAN_DAYS
             | Some n \<Rightarrow> if 0 < n then n else DUPLICATE_TX_SCAN_DAYS))) (\<lambda>start.
      let rows = map tx_item (filter (\<lambda>t. \<not> tx_is_internal t \<and> start \<le> tx_date t) (transactions s))
      in Inr (concat (map (\<lambda>(k, bucket). if length bucket < 2 then []
            else greedy looks_duplicate tgi_id {} (sort_key tgi_date bucket))
          (group_rows (\<lambda>r. (tgi_account_id r, tgi_amount r)) rows))))"

record payee_group_item =
  pgi_id :: int
  pgi_name :: string
  pgi_transaction_count :: nat

definition payee_item :: "db \<Rightarrow> payee \<Rightarrow> payee_group_item" where
  "payee_item s p = \<lparr>pgi_id = pay_id p, pgi_name = pay_name p,
     pgi_transaction_count = length (filter (\<lambda>t. tx_payee_id t = Some (pay_id p)) (transactions s))\<rparr>"

definition core_related :: "payee \<times> string list \<Rightarrow> payee \<times> string list \<Rightarrow> bool" where
  "core_related a b \<longleftrightarrow> snd b = snd a \<or>
    PAYEE_CORE_PREFIX_MIN_LENGTH \<le> length (join_words (snd a)) \<and> take (length (snd a)) (snd b) = snd a"

definition same_name_groups :: "payee list \<Rightarrow> payee list list" where
  "same_name_groups ps =
    filter (\<lambda>g. 2 \<le> length g) (map snd (group_rows (\<lambda>p. normalise_name (pay_name p))
      (filter (\<lambda>p. normalise_name (pay_name p) \<noteq> []) ps)))"

definition unused :: "payee list list \<Rightarrow> payee list \<Rightarrow> payee list" where
  "unused groups ps = filter (\<lambda>p. pay_id p \<notin> (\<Union>g \<in> set groups. pay_id ` set g)) ps"

definition core_groups :: "payee list \<Rightarrow> payee list list" where
  "core_groups ps =
    map (map fst) (greedy core_related (\<lambda>a. pay_id (fst a)) {}
      (sort_key (\<lambda>pc. (length (snd pc), pay_name (fst pc)))
        (filter (\<lambda>pc. PAYEE_CORE_MIN_LENGTH \<le> length (join_words (snd pc))) (map (\<lambda>p. (p, core_tokens (pay_name p))) ps))))"

definition close_groups :: "int option \<Rightarrow> payee list \<Rightarrow> payee list list" where
  "close_groups max_distance ps =
    map (map fst) (greedy (\<lambda>a b. norm_levenshtein_close max_distance (snd a) (snd b)) (\<lambda>a. pay_id (fst a)) {}
      (filter (\<lambda>pn. 3 \<le> length (snd pn)) (map (\<lambda>p. (p, normalise_name (pay_name p))) ps)))"

definition payee_groups :: "int option \<Rightarrow> payee list \<Rightarrow> payee list list" where
  "payee_groups max_distance ps =
    (let first = same_name_groups ps;
         second = core_groups (unused first ps)
     in first @ second @ close_groups max_distance (unused (first @ second) ps))"

definition similar_payees :: "int option \<Rightarrow> db \<Rightarrow> payee_group_item list list" where
  "similar_payees max_distance s =
    (let ps = by_name pay_name (payees s)
     in if length ps < 2 then [] else map (map (payee_item s)) (payee_groups max_distance ps))"

record category_group_item =
  cgi_id :: int
  cgi_name :: string
  cgi_parent_id :: "int option"
  cgi_transaction_count :: nat

definition redundant_categories :: "db \<Rightarrow> category_group_item list list" where
  "redundant_categories s =
    (let cs = by_name cat_name (categories s)
     in if length cs < 2 then []
        else map (map (\<lambda>c. \<lparr>cgi_id = cat_id c, cgi_name = cat_name c, cgi_parent_id = cat_parent_id c,
               cgi_transaction_count = length (filter (\<lambda>t. tx_category_id t = Some (cat_id c)) (transactions s))\<rparr>))
          (filter (\<lambda>g. 2 \<le> length g) (map snd (group_rows (\<lambda>c. (normalise_name (cat_name c), cat_type c))
             (filter (\<lambda>c. normalise_name (cat_name c) \<noteq> []) cs)))))"

subsection \<open>Merging transactions\<close>

definition first_link :: "(transaction \<Rightarrow> int option) \<Rightarrow> transaction list \<Rightarrow> int option" where
  "first_link f ts = Option.bind (find (\<lambda>t. f t \<noteq> None) ts) f"

definition carried :: "(transaction \<Rightarrow> int option) \<Rightarrow> transaction \<Rightarrow> transaction list \<Rightarrow> int option" where
  "carried f k ts = (if f k = None then first_link f ts else None)"

definition or_own :: "int option \<Rightarrow> int option \<Rightarrow> int option" where
  "or_own v own = (if v \<noteq> None then v else own)"

definition carry_links :: "transaction list \<Rightarrow> transaction \<Rightarrow> transaction" where
  "carry_links ts k = k\<lparr>tx_irregular_id := or_own (carried tx_irregular_id k ts) (tx_irregular_id k),
     tx_planned_id := or_own (carried tx_planned_id k ts) (tx_planned_id k),
     tx_gift_id := or_own (carried tx_gift_id k ts) (tx_gift_id k)\<rparr>"

text \<open>
  The deletes are flushed row by row in the order of the ids; a row that another one is linked to
  refuses its own.
\<close>

definition delete_rows :: "transaction list \<Rightarrow> db \<Rightarrow> db result" where
  "delete_rows ts = efold (\<lambda>t s. ebind (delete (tx_id t) s) (\<lambda>(_, s'). Inr s')) ts"

definition merge_transactions :: "int \<Rightarrow> int \<Rightarrow> int list \<Rightarrow> db \<Rightarrow> (nat \<times> db) result" where
  "merge_transactions now keeper_id other_ids s =
    (let deletable = filter (\<lambda>i. i \<noteq> keeper_id) other_ids
     in if deletable = [] then Inr (0, s)
        else let txs = sort_key tx_id (filter (\<lambda>t. tx_id t \<in> set deletable) (transactions s))
             in ebind (delete_rows txs s) (\<lambda>s1.
                ebind (case get_tx s keeper_id of
                         None \<Rightarrow> Inr s1
                       | Some k \<Rightarrow>
                           if carried tx_irregular_id k txs \<noteq> None \<or> carried tx_planned_id k txs \<noteq> None \<or>
                              carried tx_gift_id k txs \<noteq> None
                           then save_tx now (carry_links txs k) s1 else Inr s1) (\<lambda>s2.
                  Inr (length txs, s2))))"

subsection \<open>Merging payees\<close>

definition dedupe_merge_payees ::
  "(string \<Rightarrow> string) \<Rightarrow> int \<Rightarrow> int \<Rightarrow> int list \<Rightarrow> string option \<Rightarrow> db \<Rightarrow> (nat \<times> db) result" where
  "dedupe_merge_payees hmac now keeper_id other_ids new_name s =
    (let victims = filter (\<lambda>i. i \<noteq> keeper_id) other_ids
     in if victims = [] then Inr (0, s)
        else let name = strip (case new_name of None \<Rightarrow> [] | Some n \<Rightarrow> n)
             in ebind (if name = [] then Inr None
                       else ebind (check_merge_name hmac name keeper_id victims s) (\<lambda>k. Inr (Some k))) (\<lambda>keeper.
                ebind (reassign_payees now keeper_id victims s) (\<lambda>s1.
                ebind (absorb_identities hmac keeper_id victims s1) (\<lambda>(moved, s2).
                  let s3 = fold (remove_payee now) (map pay_id (filter (\<lambda>p. pay_id p \<in> set victims) (payees s2))) s2
                  in ebind (case keeper of
                              None \<Rightarrow> Inr s3
                            | Some k \<Rightarrow> if pay_name k = name then Inr s3 else rename_keeper hmac k name s3)
                       (\<lambda>s4. Inr (length victims, s4))))))"

subsection \<open>Merging categories\<close>

text \<open>A budget of a merged category goes when the kept one has the period already.\<close>

fun merge_budgets :: "int \<Rightarrow> int list \<Rightarrow> (int \<times> int) set \<Rightarrow> budget list \<Rightarrow> budget list" where
  "merge_budgets keeper victims periods [] = []"
| "merge_budgets keeper victims periods (b # bs) =
    (if bud_category_id b \<notin> set victims then b # merge_budgets keeper victims periods bs
     else if (bud_month b, bud_year b) \<in> periods then merge_budgets keeper victims periods bs
     else b\<lparr>bud_category_id := keeper\<rparr> # merge_budgets keeper victims (insert (bud_month b, bud_year b) periods) bs)"

definition keeper_periods :: "int \<Rightarrow> budget list \<Rightarrow> (int \<times> int) set" where
  "keeper_periods keeper bs = (\<lambda>b. (bud_month b, bud_year b)) ` set (filter (\<lambda>b. bud_category_id b = keeper) bs)"

definition move_category :: "int \<Rightarrow> int \<Rightarrow> int list \<Rightarrow> transaction \<Rightarrow> transaction" where
  "move_category now keeper victims t =
    (let u = t\<lparr>tx_splits := map (\<lambda>l. l\<lparr>sp_category_id := moved_ref keeper victims (sp_category_id l)\<rparr>) (tx_splits t)\<rparr>
     in if tx_category_id t \<in> Some ` set victims then u\<lparr>tx_category_id := Some keeper, tx_updated_at := now\<rparr> else u)"

definition refers_to_category :: "int list \<Rightarrow> db \<Rightarrow> bool" where
  "refers_to_category victims s \<longleftrightarrow>
    (\<exists>b \<in> set (budgets s). bud_category_id b \<in> set victims) \<or>
    (\<exists>t \<in> set (transactions s). tx_category_id t \<in> Some ` set victims \<or>
       (\<exists>l \<in> set (tx_splits t). sp_category_id l \<in> Some ` set victims)) \<or>
    (\<exists>p \<in> set (plans s). pt_category_id p \<in> Some ` set victims) \<or>
    (\<exists>f \<in> set (funds s). rf_backing_category_id f \<in> Some ` set victims) \<or>
    (\<exists>x \<in> set (irregular_items s). irr_category_id x \<in> Some ` set victims) \<or>
    (\<exists>x \<in> set (subscriptions s). sub_category_id x \<in> Some ` set victims) \<or>
    (\<exists>c \<in> set (categories s). cat_parent_id c \<in> Some ` set victims)"

definition reparent :: "int \<Rightarrow> int list \<Rightarrow> category \<Rightarrow> category" where
  "reparent keeper victims c = c\<lparr>cat_parent_id := moved_ref keeper victims (cat_parent_id c)\<rparr>"

text \<open>\<open>uq_categories_parent_type_name_bidx\<close> on the whole table\<close>

definition sibling_names_ok :: "(string \<Rightarrow> string) \<Rightarrow> category list \<Rightarrow> bool" where
  "sibling_names_ok hmac cs \<longleftrightarrow>
    (\<forall>c \<in> set cs. \<forall>d \<in> set cs. cat_id c \<noteq> cat_id d \<and> cat_parent_id c \<noteq> None \<longrightarrow>
       \<not> same_place hmac (cat_name c) (cat_parent_id c) (cat_type c) d)"

text \<open>
  A keeper that does not exist violates the first foreign key that is moved to it; a child moved
  beside a child of the same name violates the unique index. The rules of the merged categories
  are not moved and go with them (CASCADE).
\<close>

definition merge_categories ::
  "(string \<Rightarrow> string) \<Rightarrow> int \<Rightarrow> int \<Rightarrow> int list \<Rightarrow> db \<Rightarrow> (nat \<times> db) result" where
  "merge_categories hmac now keeper_id other_ids s =
    (let victims = filter (\<lambda>i. i \<noteq> keeper_id) other_ids
     in if victims = [] then Inr (0, s)
        else if get_category s keeper_id = None \<and> refers_to_category victims s then Inl (IntegrityError ''categories'')
        else if \<not> sibling_names_ok hmac (map (reparent keeper_id victims) (categories s))
        then Inl (IntegrityError ''uq_categories_parent_type_name_bidx'')
        else Inr (length victims, s\<lparr>
          budgets := merge_budgets keeper_id victims (keeper_periods keeper_id (budgets s)) (budgets s),
          transactions := map (move_category now keeper_id victims) (transactions s),
          plans := map (\<lambda>p. p\<lparr>pt_category_id := moved_ref keeper_id victims (pt_category_id p)\<rparr>) (plans s),
          funds := map (\<lambda>f. f\<lparr>rf_backing_category_id := moved_ref keeper_id victims (rf_backing_category_id f)\<rparr>) (funds s),
          irregular_items := map (\<lambda>x. x\<lparr>irr_category_id := moved_ref keeper_id victims (irr_category_id x)\<rparr>) (irregular_items s),
          subscriptions := map (\<lambda>x. x\<lparr>sub_category_id := moved_ref keeper_id victims (sub_category_id x)\<rparr>) (subscriptions s),
          cat_rules := filter (\<lambda>r. rule_category_id r \<notin> set victims) (cat_rules s),
          categories := filter (\<lambda>c. cat_id c \<notin> set victims) (map (reparent keeper_id victims) (categories s))\<rparr>))"

section \<open>Merging duplicates\<close>

lemma delete_has_account: "delete i s = Inr (b, s') \<Longrightarrow> has_account s' = has_account s"
  by (auto simp: delete_def has_account_def get_account_def fun_eq_iff split: option.splits if_splits)

lemma delete_rows_effect:
  assumes "books_ok s" and "delete_rows ts s = Inr s'" and "\<forall>t \<in> set ts. get_tx s (tx_id t) = Some t"
    and "distinct (map tx_id ts)"
  shows "books_ok s' \<and> has_account s' = has_account s \<and>
    (\<forall>i. get_tx s' i = (if i \<in> tx_id ` set ts then None else get_tx s i)) \<and>
    (\<forall>a. has_account s a \<longrightarrow> balance s' a None = balance s a None - sum_list (map (\<lambda>t. tx_delta t a) ts))"
  using assms
proof (induction ts arbitrary: s)
  case Nil
  then show ?case by (simp add: delete_rows_def)
next
  case (Cons t ts)
  from Cons.prems(2) obtain b s1 where d: "delete (tx_id t) s = Inr (b, s1)" and rest: "delete_rows ts s1 = Inr s'"
    by (auto simp: delete_rows_def ebind_Inr_iff)
  from delete_cases [OF Cons.prems(1), of "tx_id t" t] Cons.prems(3) d have
    gone: "get_tx s1 (tx_id t) = None" and ok: "books_ok s1"
    and other: "\<And>j. j \<noteq> tx_id t \<Longrightarrow> get_tx s1 j = get_tx s j"
    and bal: "\<And>a. has_account s a \<Longrightarrow> balance s1 a None = balance s a None - tx_delta t a"
    by (simp_all del: split_paired_All)
  have "\<forall>u \<in> set ts. get_tx s1 (tx_id u) = Some u"
  proof
    fix u assume u: "u \<in> set ts"
    then have "tx_id u \<noteq> tx_id t" using Cons.prems(4) by (metis distinct.simps(2) image_eqI list.set_map list.simps(9))
    with other u Cons.prems(3) show "get_tx s1 (tx_id u) = Some u" by simp
  qed
  from Cons.IH [OF ok rest this] Cons.prems(4) have IH: "books_ok s'" "has_account s' = has_account s1"
    "\<And>i. get_tx s' i = (if i \<in> tx_id ` set ts then None else get_tx s1 i)"
    "\<And>a. has_account s1 a \<Longrightarrow> balance s' a None = balance s1 a None - sum_list (map (\<lambda>t. tx_delta t a) ts)" by auto
  note acc = delete_has_account [OF d]
  have "get_tx s' i = (if i \<in> tx_id ` set (t # ts) then None else get_tx s i)" for i
    using IH(3) gone other by (cases "i = tx_id t") auto
  moreover have "balance s' a None = balance s a None - sum_list (map (\<lambda>t. tx_delta t a) (t # ts))" if "has_account s a" for a
    using IH(4) [of a] bal [OF that] that acc by (simp add: algebra_simps)
  ultimately show ?case using IH(1,2) acc by (intro conjI allI impI) simp_all
qed

definition duplicates_of :: "int \<Rightarrow> int list \<Rightarrow> db \<Rightarrow> transaction list" where
  "duplicates_of keeper others s =
    sort_key tx_id (filter (\<lambda>t. tx_id t \<in> set others \<and> tx_id t \<noteq> keeper) (transactions s))"

lemma carried_link: "or_own (carried f k ts) (f k) = (if f k \<noteq> None then f k else first_link f ts)"
  by (simp add: or_own_def carried_def)

lemma carry_links_frame [simp]:
  "tx_id (carry_links ts k) = tx_id k" "tx_amount (carry_links ts k) = tx_amount k" "tx_delta (carry_links ts k) = tx_delta k"
  by (auto simp: carry_links_def intro: tx_delta_cong)

lemma touch_links [simp]:
  "tx_irregular_id (touch now old t) = tx_irregular_id t" "tx_planned_id (touch now old t) = tx_planned_id t"
  "tx_gift_id (touch now old t) = tx_gift_id t"
  by (simp_all add: touch_def)

lemma no_links_carried:
  assumes "\<not> (carried tx_irregular_id k ts \<noteq> None \<or> carried tx_planned_id k ts \<noteq> None \<or> carried tx_gift_id k ts \<noteq> None)"
  shows "carry_links ts k = k"
  using assms by (intro transaction.equality) (simp_all add: carry_links_def or_own_def)

lemma duplicates_of_rows:
  assumes "ledger_ok s"
  shows "\<forall>t \<in> set (duplicates_of k others s). get_tx s (tx_id t) = Some t" and "distinct (map tx_id (duplicates_of k others s))"
    and "i \<in> tx_id ` set (duplicates_of k others s) \<longleftrightarrow> i \<in> set others \<and> i \<noteq> k \<and> get_tx s i \<noteq> None"
proof -
  have d: "distinct (map tx_id (transactions s))" using assms by (simp add: ledger_ok_def ids_ok_def)
  then have g: "get_tx s (tx_id t) = Some t" if "t \<in> set (transactions s)" for t
    unfolding get_tx_def using that by (rule find_row_member)
  then show "\<forall>t \<in> set (duplicates_of k others s). get_tx s (tx_id t) = Some t" by (simp add: duplicates_of_def)
  show "distinct (map tx_id (duplicates_of k others s))" using d by (simp add: duplicates_of_def distinct_map inj_on_def)
  show "i \<in> tx_id ` set (duplicates_of k others s) \<longleftrightarrow> i \<in> set others \<and> i \<noteq> k \<and> get_tx s i \<noteq> None"
    using g by (auto simp: duplicates_of_def dest!: get_tx_Some)
qed

lemma merge_transactions_steps:
  assumes "merge_transactions now k others s = Inr (n, s')" and "get_tx s k = Some kt"
  shows "\<exists>s1. delete_rows (duplicates_of k others s) s = Inr s1 \<and> n = length (duplicates_of k others s) \<and>
    (s' = s1 \<and> carry_links (duplicates_of k others s) kt = kt \<or> save_tx now (carry_links (duplicates_of k others s) kt) s1 = Inr s')"
proof (cases "filter (\<lambda>i. i \<noteq> k) others = []")
  case True
  then have "duplicates_of k others s = []" by (auto simp: duplicates_of_def filter_empty_conv)
  moreover have "carry_links [] kt = kt" by (rule no_links_carried) (simp add: carried_def first_link_def)
  ultimately show ?thesis using assms(1) True by (simp add: merge_transactions_def delete_rows_def)
next
  case False
  have eq: "filter (\<lambda>t. tx_id t \<in> set (filter (\<lambda>i. i \<noteq> k) others)) (transactions s) =
      filter (\<lambda>t. tx_id t \<in> set others \<and> tx_id t \<noteq> k) (transactions s)" by (rule filter_cong) auto
  let ?c = "carried tx_irregular_id kt (duplicates_of k others s) \<noteq> None \<or>
    carried tx_planned_id kt (duplicates_of k others s) \<noteq> None \<or> carried tx_gift_id kt (duplicates_of k others s) \<noteq> None"
  from assms False obtain s1 where "delete_rows (duplicates_of k others s) s = Inr s1"
    "n = length (duplicates_of k others s)"
    "(if ?c then save_tx now (carry_links (duplicates_of k others s) kt) s1 else Inr s1) = Inr s'"
    unfolding merge_transactions_def Let_def eq duplicates_of_def [symmetric] by (auto simp: ebind_Inr_iff)
  then show ?thesis using no_links_carried [of kt "duplicates_of k others s"] by (cases ?c) simp_all
qed

text \<open>
  C29. Merging duplicates. A successful merge removes exactly the named rows beside the keeper and
  reports how many, takes their effect out of every balance, leaves every other row as it was, and
  the keeper keeps its fund item, plan and gift or takes over that of the lowest duplicate that has one.
\<close>

theorem merge_transactions_effect:
  assumes "books_ok s" and "merge_transactions now k others s = Inr (n, s')" and "get_tx s k = Some kt"
  shows "n = length (duplicates_of k others s) \<and>
    (\<forall>i. i \<noteq> k \<longrightarrow> get_tx s' i = (if i \<in> set others then None else get_tx s i)) \<and>
    (\<forall>a. has_account s a \<longrightarrow> balance s' a None = balance s a None - sum_list (map (\<lambda>t. tx_delta t a) (duplicates_of k others s))) \<and>
    (\<exists>kt'. get_tx s' k = Some kt' \<and> tx_delta kt' = tx_delta kt \<and>
      tx_irregular_id kt' = (if tx_irregular_id kt \<noteq> None then tx_irregular_id kt else first_link tx_irregular_id (duplicates_of k others s)) \<and>
      tx_planned_id kt' = (if tx_planned_id kt \<noteq> None then tx_planned_id kt else first_link tx_planned_id (duplicates_of k others s)) \<and>
      tx_gift_id kt' = (if tx_gift_id kt \<noteq> None then tx_gift_id kt else first_link tx_gift_id (duplicates_of k others s)))"
proof -
  define dups where "dups = duplicates_of k others s"
  define kt1 where "kt1 = carry_links dups kt"
  have led: "ledger_ok s" using assms(1) by (simp add: books_ok_def)
  note rows = duplicates_of_rows [OF led, where k = k and others = others, folded dups_def]
  from merge_transactions_steps [OF assms(2,3)] obtain s1 where d: "delete_rows dups s = Inr s1" and n: "n = length dups"
    and last: "s' = s1 \<and> kt1 = kt \<or> save_tx now kt1 s1 = Inr s'" by (auto simp: dups_def kt1_def)
  from delete_rows_effect [OF assms(1) d rows(1,2)] have ok: "books_ok s1" and acc: "has_account s1 = has_account s"
    and get1: "\<And>i. get_tx s1 i = (if i \<in> tx_id ` set dups then None else get_tx s i)"
    and bal1: "\<And>a. has_account s a \<Longrightarrow> balance s1 a None = balance s a None - sum_list (map (\<lambda>t. tx_delta t a) dups)" by auto
  have k1: "get_tx s1 k = Some kt" using get1 [of k] rows(3) [of k] assms(3) by simp
  have id: "tx_id kt1 = k" using get_tx_Some [OF assms(3)] by (simp add: kt1_def)
  have cen: "cents (tx_amount kt1)" using books_ok_member [OF assms(1,3)] by (simp add: kt1_def)
  have "get_tx s' k = Some kt1 \<or> get_tx s' k = Some (touch now kt kt1)"
    using last k1 get_tx_save [of now kt1 s1 s' k] id by auto
  then obtain kt' where kt': "get_tx s' k = Some kt'" "kt' = kt1 \<or> kt' = touch now kt kt1" by blast
  have "tx_delta kt' = tx_delta kt" using kt'(2) by (auto simp: kt1_def tx_delta_def fun_eq_iff signed_ledger_amount_def carry_links_def)
  moreover have "tx_irregular_id kt' = tx_irregular_id kt1" "tx_planned_id kt' = tx_planned_id kt1" "tx_gift_id kt' = tx_gift_id kt1"
    using kt'(2) by auto
  moreover have "get_tx s' i = (if i \<in> set others then None else get_tx s i)" if "i \<noteq> k" for i
  proof -
    have "get_tx s' i = get_tx s1 i" using last get_tx_save [of now kt1 s1 s' i] id that by auto
    then show ?thesis using get1 [of i] rows(3) [of i] that by auto
  qed
  moreover have "balance s' a None = balance s a None - sum_list (map (\<lambda>t. tx_delta t a) dups)" if "has_account s a" for a
  proof -
    have "balance s' a None = balance s1 a None"
      using last balance_save_same [OF ok, of kt1 kt now s' a] k1 id cen by (auto simp: kt1_def)
    then show ?thesis using bal1 [OF that] by simp
  qed
  ultimately show ?thesis unfolding dups_def [symmetric] n using kt'(1)
    by (simp add: kt1_def carry_links_def carried_link)
qed

definition ex_dup_db :: db where
  "ex_dup_db = ex_db\<lparr>transactions := [(ex_tx 1 1 EXPENSE 12 (Date 2026 1 31)), (ex_tx 2 1 EXPENSE 12 (Date 2026 1 31))\<lparr>tx_gift_id := Some 4\<rparr>], seq_tx := 3\<rparr>"

theorem merge_transactions_effect_witness:
  "\<exists>s'. merge_transactions 9 1 [1, 2] ex_dup_db = Inr (1, s') \<and> get_tx s' 2 = None \<and>
     (\<exists>kt'. get_tx s' 1 = Some kt' \<and> tx_gift_id kt' = Some 4)"
proof -
  have ok: "books_ok ex_dup_db"
    by (simp add: books_ok_def money_ok_def ledger_ok_def ids_ok_def tx_check_def same_occurrence_def ex_dup_db_def ex_defs cents_half)
  have k: "get_tx ex_dup_db 1 = Some (ex_tx 1 1 EXPENSE 12 (Date 2026 1 31))" by (simp add: get_tx_def ex_dup_db_def ex_tx_def)
  have "succeeds (merge_transactions 9 1 [1, 2] ex_dup_db)" by code_simp
  then obtain n s' where m: "merge_transactions 9 1 [1, 2] ex_dup_db = Inr (n, s')" by (auto elim: succeedsE)
  have "duplicates_of 1 [1, 2] ex_dup_db = [(ex_tx 2 1 EXPENSE 12 (Date 2026 1 31))\<lparr>tx_gift_id := Some 4\<rparr>]"
    by (simp add: duplicates_of_def ex_dup_db_def ex_tx_def)
  with merge_transactions_effect [OF ok m k] m show ?thesis
    by (auto simp: first_link_def ex_tx_def)
qed

section \<open>Merging categories\<close>

lemma merge_budgets_member:
  "x \<in> set (merge_budgets k vs ps bs) \<Longrightarrow>
    x \<in> set bs \<and> bud_category_id x \<notin> set vs \<or>
    bud_category_id x = k \<and> (bud_month x, bud_year x) \<notin> ps"
  by (induction k vs ps bs rule: merge_budgets.induct) (auto split: if_splits)

lemma merge_budgets_keeps: "b \<in> set bs \<Longrightarrow> bud_category_id b \<notin> set vs \<Longrightarrow> b \<in> set (merge_budgets k vs ps bs)"
  by (induction k vs ps bs rule: merge_budgets.induct) auto

lemma merge_budgets_id_set: "bud_id ` set (merge_budgets k vs ps bs) \<subseteq> bud_id ` set bs"
  by (induction k vs ps bs rule: merge_budgets.induct) auto

lemma merge_budgets_ids: "ids_ok bud_id nxt bs \<Longrightarrow> ids_ok bud_id nxt (merge_budgets k vs ps bs)"
proof -
  assume ok: "ids_ok bud_id nxt bs"
  have "distinct (map bud_id bs) \<Longrightarrow> distinct (map bud_id (merge_budgets k vs ps bs))"
  proof (induction k vs ps bs rule: merge_budgets.induct)
    case (2 k vs ps b bs)
    have "bud_id b \<notin> bud_id ` set (merge_budgets k vs qs bs)" for qs
      using merge_budgets_id_set 2(4) by fastforce
    with 2 show ?case by simp
  qed simp
  then show ?thesis using ok merge_budgets_id_set [of k vs ps bs] by (auto simp: ids_ok_def image_subset_iff)
qed

lemma merge_budgets_distinct:
  assumes "distinct (map bud_key bs)" and "keeper_periods k bs \<subseteq> ps" and "k \<notin> set vs"
  shows "distinct (map bud_key (merge_budgets k vs ps bs))"
  using assms
proof (induction k vs ps bs rule: merge_budgets.induct)
  case (2 k vs ps b bs)
  have sub: "keeper_periods k bs \<subseteq> ps" using 2(5) by (auto simp: keeper_periods_def)
  have d: "distinct (map bud_key bs)" "bud_key b \<notin> bud_key ` set bs" using 2(4) by auto
  show ?case
  proof (cases "bud_category_id b \<in> set vs")
    case False
    have "bud_key b \<notin> bud_key ` set (merge_budgets k vs ps bs)"
    proof
      assume "bud_key b \<in> bud_key ` set (merge_budgets k vs ps bs)"
      then obtain x where x: "x \<in> set (merge_budgets k vs ps bs)" "bud_key x = bud_key b" by force
      from merge_budgets_member [OF x(1)] d(2) x(2) have "bud_category_id b = k" "(bud_month b, bud_year b) \<notin> ps"
        by (auto simp: bud_key_def image_iff)
      with 2(5) show False by (auto simp: keeper_periods_def)
    qed
    with False 2(1) [OF False d(1) sub 2(6)] show ?thesis by simp
  next
    case True
    show ?thesis
    proof (cases "(bud_month b, bud_year b) \<in> ps")
      case True
      with 2(2) [OF _ True d(1) sub 2(6)] \<open>bud_category_id b \<in> set vs\<close> show ?thesis by simp
    next
      case new: False
      let ?ps = "insert (bud_month b, bud_year b) ps"
      have "(k, bud_month b, bud_year b) \<notin> bud_key ` set (merge_budgets k vs ?ps bs)"
      proof
        assume "(k, bud_month b, bud_year b) \<in> bud_key ` set (merge_budgets k vs ?ps bs)"
        then obtain x where x: "x \<in> set (merge_budgets k vs ?ps bs)" "bud_key x = (k, bud_month b, bud_year b)" by force
        from merge_budgets_member [OF x(1)] x(2) have "x \<in> set bs" by (auto simp: bud_key_def)
        with x(2) sub new show False by (auto simp: bud_key_def keeper_periods_def)
      qed
      moreover have "distinct (map bud_key (merge_budgets k vs ?ps bs))"
        using 2(3) [OF _ new d(1) _ 2(6)] True sub by auto
      moreover have "bud_key (b\<lparr>bud_category_id := k\<rparr>) = (k, bud_month b, bud_year b)" by (simp add: bud_key_def)
      ultimately show ?thesis using True new by simp
    qed
  qed
qed simp

lemma moved_ref_not_victim: "k \<notin> set vs \<Longrightarrow> moved_ref k vs v \<notin> Some ` set vs"
  by (auto simp: moved_ref_def)

lemma moved_not_refers:
  assumes "k \<notin> set vs" and "merge_categories hmac now k vs s = Inr (n, s')" and "vs \<noteq> []"
  shows "\<not> refers_to_category vs s'"
proof -
  have f: "filter (\<lambda>i. i \<noteq> k) vs = vs" using assms(1) by (auto simp: filter_id_conv)
  note nv = moved_ref_not_victim [OF assms(1)]
  from assms(2,3) have s': "budgets s' = merge_budgets k vs (keeper_periods k (budgets s)) (budgets s)"
    "transactions s' = map (move_category now k vs) (transactions s)"
    "plans s' = map (\<lambda>p. p\<lparr>pt_category_id := moved_ref k vs (pt_category_id p)\<rparr>) (plans s)"
    "funds s' = map (\<lambda>f. f\<lparr>rf_backing_category_id := moved_ref k vs (rf_backing_category_id f)\<rparr>) (funds s)"
    "irregular_items s' = map (\<lambda>x. x\<lparr>irr_category_id := moved_ref k vs (irr_category_id x)\<rparr>) (irregular_items s)"
    "subscriptions s' = map (\<lambda>x. x\<lparr>sub_category_id := moved_ref k vs (sub_category_id x)\<rparr>) (subscriptions s)"
    "categories s' = filter (\<lambda>c. cat_id c \<notin> set vs) (map (reparent k vs) (categories s))"
    unfolding merge_categories_def f by (auto simp: Let_def split: if_splits)
  have "\<forall>b \<in> set (budgets s'). bud_category_id b \<notin> set vs"
    unfolding s' using merge_budgets_member assms(1) by metis
  moreover have "\<forall>t \<in> set (transactions s'). tx_category_id t \<notin> Some ` set vs \<and>
      (\<forall>l \<in> set (tx_splits t). sp_category_id l \<notin> Some ` set vs)"
    unfolding s' using nv assms(1) by (auto simp: move_category_def Let_def image_iff)
  moreover have "\<forall>c \<in> set (categories s'). cat_parent_id c \<notin> Some ` set vs"
    unfolding s' using nv by (auto simp: reparent_def image_iff)
  moreover have "\<forall>p \<in> set (plans s'). pt_category_id p \<notin> Some ` set vs" "\<forall>f \<in> set (funds s'). rf_backing_category_id f \<notin> Some ` set vs"
    "\<forall>x \<in> set (irregular_items s'). irr_category_id x \<notin> Some ` set vs" "\<forall>x \<in> set (subscriptions s'). sub_category_id x \<notin> Some ` set vs"
    unfolding s' using nv by auto
  ultimately show ?thesis unfolding refers_to_category_def by blast
qed

lemma merged_spending:
  "sum_list (map tx_amount (filter (\<lambda>t. tx_category_id t = Some k) (map (move_category now k vs) ts))) =
   sum_list (map tx_amount (filter (\<lambda>t. tx_category_id t \<in> Some ` set (k # vs)) ts))"
  by (induction ts) (auto simp: move_category_def Let_def)

lemma move_category_frame [simp]:
  "tx_account_id (move_category now k vs t) = tx_account_id t" "tx_date (move_category now k vs t) = tx_date t"
  "signed_ledger_amount (move_category now k vs t) = signed_ledger_amount t"
  by (auto simp: move_category_def Let_def signed_ledger_amount_def)

lemma merge_categories_Inr:
  assumes "merge_categories hmac now k others s = Inr (n, s')" and "filter (\<lambda>i. i \<noteq> k) others = vs" and "vs \<noteq> []"
  shows "merge_categories hmac now k vs s = Inr (n, s')"
proof -
  have "filter (\<lambda>i. i \<noteq> k) vs = vs" using assms(2) by auto
  then show ?thesis using assms by (simp add: merge_categories_def Let_def)
qed

text \<open>
  Merging categories. A successful merge into an existing category leaves no budget, transaction,
  split line, plan, fund, irregular item, subscription or child pointing at a merged category and none of
  these categories; the kept one has the spending of all of them, no balance moves, the budgets stay
  unique per category and period, and the kept category's own budget wins wherever it has one.
\<close>

lemma merge_categories_moves_everything:
  assumes "merge_categories hmac now k others s = Inr (n, s')" and "filter (\<lambda>i. i \<noteq> k) others = vs" and "vs \<noteq> []"
    and "get_category s k \<noteq> None" and "budgets_ok s"
  shows "\<not> refers_to_category vs s' \<and> (\<forall>c \<in> set (categories s'). cat_id c \<notin> set vs) \<and> get_category s' k \<noteq> None \<and>
    sum_list (map tx_amount (filter (\<lambda>t. tx_category_id t = Some k) (transactions s'))) =
      sum_list (map tx_amount (filter (\<lambda>t. tx_category_id t \<in> Some ` set (k # vs)) (transactions s))) \<and>
    (\<forall>a d. balance s' a d = balance s a d) \<and> budgets_ok s' \<and>
    (\<forall>m y v. plan_of s (k, m, y) = Some v \<longrightarrow> plan_of s' (k, m, y) = Some v)"
proof -
  have k: "k \<notin> set vs" using assms(2) by auto
  note m = merge_categories_Inr [OF assms(1-3)]
  have f: "filter (\<lambda>i. i \<noteq> k) vs = vs" using k by (auto simp: filter_id_conv)
  from m assms(3) have s': "budgets s' = merge_budgets k vs (keeper_periods k (budgets s)) (budgets s)"
    "transactions s' = map (move_category now k vs) (transactions s)" "accounts s' = accounts s" "seq_budget s' = seq_budget s"
    "categories s' = filter (\<lambda>c. cat_id c \<notin> set vs) (map (reparent k vs) (categories s))"
    unfolding merge_categories_def f by (auto simp: Let_def split: if_splits)
  have cat: "find_row cat_id k (filter (\<lambda>c. cat_id c \<notin> set vs) (map (reparent k vs) cs)) \<noteq> None"
    if "find_row cat_id k cs \<noteq> None" for cs
    using that k by (induction cs) (auto simp: reparent_def)
  have bal: "balance s' a d = balance s a d" for a d
    by (rule balance_map_tx [where f = "move_category now k vs"]) (simp_all add: s')
  have dist: "distinct (map bud_key (budgets s'))"
    unfolding s' by (rule merge_budgets_distinct) (use assms(5) k in \<open>auto simp: budgets_ok_def\<close>)
  have ok: "budgets_ok s'"
    using dist merge_budgets_ids [of "seq_budget s" "budgets s"] assms(5) by (simp add: budgets_ok_def s')
  have wins: "plan_of s' (k, m, y) = Some v" if "plan_of s (k, m, y) = Some v" for m y v
  proof -
    from map_of_SomeD [OF that [unfolded plan_of_def]] obtain b where
      b: "b \<in> set (budgets s)" "bud_key b = (k, m, y)" "bud_amount b = v" by auto
    then have "bud_category_id b \<notin> set vs" using k by (auto simp: bud_key_def)
    from merge_budgets_keeps [OF b(1) this] have "b \<in> set (budgets s')" by (simp add: s')
    then have "((k, m, y), v) \<in> set (map (\<lambda>b. (bud_key b, bud_amount b)) (budgets s'))" using b(2,3) by force
    moreover have "distinct (map fst (map (\<lambda>b. (bud_key b, bud_amount b)) (budgets s')))" using dist by (simp add: comp_def)
    ultimately show ?thesis unfolding plan_of_def by (rule map_of_is_SomeI [rotated])
  qed
  show ?thesis
    using moved_not_refers [OF k m assms(3)] cat [of "categories s"] assms(4) merged_spending [of k now vs "transactions s"] bal ok wins
    by (simp add: s'(2,5) get_category_def)
qed

definition ex_merge_db :: db where
  "ex_merge_db = ex_tree_db\<lparr>budgets := [\<lparr>bud_id = 1, bud_category_id = 1, bud_amount = 50, bud_month = 3, bud_year = 2026\<rparr>,
     \<lparr>bud_id = 2, bud_category_id = 3, bud_amount = 70, bud_month = 3, bud_year = 2026\<rparr>], seq_budget := 3\<rparr>"

lemma merge_categories_moves_everything_witness:
  "\<exists>s'. merge_categories ex_hash 9 3 [1] ex_merge_db = Inr (1, s') \<and> \<not> refers_to_category [1] s' \<and>
     plan_of s' (3, 3, 2026) = Some 70"
proof -
  have "(case merge_categories ex_hash 9 3 [1] ex_merge_db of Inl e \<Rightarrow> False | Inr (n, s') \<Rightarrow> n = 1)" by code_simp
  then obtain s' where m: "merge_categories ex_hash 9 3 [1] ex_merge_db = Inr (1, s')" by (auto split: sum.splits)
  have c: "get_category ex_merge_db 3 \<noteq> None" by (simp add: get_category_def ex_merge_db_def ex_tree_db_def ex_cat_def)
  have b: "budgets_ok ex_merge_db" "plan_of ex_merge_db (3, 3, 2026) = Some 70"
    by (simp_all add: budgets_ok_def ids_ok_def ex_merge_db_def bud_key_def plan_of_def)
  from merge_categories_moves_everything [OF m _ _ c b(1), of "[1]"] b(2) m show ?thesis by simp
qed

section \<open>Groups of payees\<close>

lemma greedy_keys:
  "set (concat (greedy r key used xs)) \<subseteq> set xs" "key ` set (concat (greedy r key used xs)) \<inter> used = {}"
  by (induction xs arbitrary: used) (auto simp: Let_def, blast+)

lemma greedy_distinct:
  "distinct (map key xs) \<Longrightarrow> distinct (map key (concat (greedy r key used xs)))"
proof (induction xs arbitrary: used)
  case (Cons a xs)
  let ?c = "a # filter (\<lambda>b. key b \<notin> used \<and> r a b) xs"
  have "distinct (map key ?c)" using Cons.prems by (auto simp: distinct_map_filter)
  moreover have "key ` set ?c \<inter> key ` set (concat (greedy r key (used \<union> key ` set ?c) xs)) = {}"
    using greedy_keys(2) [of key r "used \<union> key ` set ?c" xs] by blast
  ultimately show ?case using Cons by (auto simp: Let_def)
qed simp

lemma greedy_pairs:
  assumes "g \<in> set (greedy r key used xs)"
  shows "2 \<le> length g" and "\<forall>b \<in> set (tl g). r (hd g) b"
  using assms by (induction xs arbitrary: used) (auto simp: Let_def split: if_splits)

lemma concat_filter_subset: "set (concat (filter P xss)) \<subseteq> set (concat xss)"
  by auto

lemma distinct_concat_filter: "distinct (map f (concat xss)) \<Longrightarrow> distinct (map f (concat (filter P xss)))"
  by (induction xss) auto

lemma group_rows_concat:
  assumes "distinct (map f xs)"
  shows "distinct (map f (concat (map snd (group_rows key xs))))" and "set (concat (map snd (group_rows key xs))) = set xs"
proof -
  have "distinct (map f (concat (map (\<lambda>k. filter (\<lambda>x. key x = k) xs) ks)))" if "distinct ks" for ks
    using that
  proof (induction ks)
    case (Cons k ks)
    have "f ` set (filter (\<lambda>x. key x = k) xs) \<inter> f ` set (concat (map (\<lambda>k. filter (\<lambda>x. key x = k) xs) ks)) = {}"
      using Cons.prems assms by (auto simp: distinct_map dest: inj_onD)
    with Cons assms show ?case by (simp add: distinct_map_filter)
  qed simp
  then show "distinct (map f (concat (map snd (group_rows key xs))))" by (simp add: group_rows_def comp_def)
  show "set (concat (map snd (group_rows key xs))) = set xs" by (auto simp: group_rows_def)
qed

lemma same_name_groups_distinct:
  assumes "distinct (map pay_id ps)"
  shows "distinct (map pay_id (concat (same_name_groups ps)))" and "set (concat (same_name_groups ps)) \<subseteq> set ps"
proof -
  let ?qs = "filter (\<lambda>p. normalise_name (pay_name p) \<noteq> []) ps"
  have "distinct (map pay_id ?qs)" using assms by (simp add: distinct_map_filter)
  note g = group_rows_concat [OF this, of "\<lambda>p. normalise_name (pay_name p)"]
  show "distinct (map pay_id (concat (same_name_groups ps)))"
    unfolding same_name_groups_def by (rule distinct_concat_filter [OF g(1)])
  show "set (concat (same_name_groups ps)) \<subseteq> set ps"
    unfolding same_name_groups_def using concat_filter_subset g(2) by (metis filter_is_subset subset_trans)
qed

lemma greedy_payees:
  assumes "distinct (map pay_id ps)" and "distinct (map (\<lambda>a. pay_id (fst a)) xs)" and "fst ` set xs \<subseteq> set ps"
  shows "distinct (map pay_id (concat (map (map fst) (greedy r (\<lambda>a. pay_id (fst a)) {} xs))))"
    and "set (concat (map (map fst) (greedy r (\<lambda>a. pay_id (fst a)) {} xs))) \<subseteq> set ps"
proof -
  let ?g = "greedy r (\<lambda>a. pay_id (fst a)) {} xs"
  have eq: "concat (map (map fst) ?g) = map fst (concat ?g)" by (simp add: map_concat)
  show "distinct (map pay_id (concat (map (map fst) ?g)))"
    unfolding eq using greedy_distinct [OF assms(2), of r "{}"] by (simp add: comp_def)
  show "set (concat (map (map fst) ?g)) \<subseteq> set ps"
    unfolding eq using greedy_keys(1) [of r "\<lambda>a. pay_id (fst a)" "{}" xs] assms(3) by auto
qed

lemma core_groups_distinct:
  assumes "distinct (map pay_id ps)"
  shows "distinct (map pay_id (concat (core_groups ps)))" and "set (concat (core_groups ps)) \<subseteq> set ps"
  unfolding core_groups_def
  by (rule greedy_payees [OF assms]; (use assms in \<open>auto simp: distinct_map inj_on_def\<close>))+

lemma close_groups_distinct:
  assumes "distinct (map pay_id ps)"
  shows "distinct (map pay_id (concat (close_groups d ps)))" and "set (concat (close_groups d ps)) \<subseteq> set ps"
  unfolding close_groups_def
  by (rule greedy_payees [OF assms]; (use assms in \<open>auto simp: distinct_map inj_on_def intro: distinct_filter\<close>))+

lemma unused_payees:
  assumes "distinct (map pay_id ps)"
  shows "distinct (map pay_id (unused gs ps))" and "set (unused gs ps) \<subseteq> set ps"
    and "pay_id ` set (unused gs ps) \<inter> pay_id ` set (concat gs) = {}"
  using assms by (auto simp: unused_def distinct_map_filter)

lemma groups_of_two:
  "g \<in> set (same_name_groups ps) \<Longrightarrow> 2 \<le> length g" "g \<in> set (core_groups ps) \<Longrightarrow> 2 \<le> length g"
  "g \<in> set (close_groups d ps) \<Longrightarrow> 2 \<le> length g"
  by (simp add: same_name_groups_def) (auto simp: core_groups_def close_groups_def dest: greedy_pairs(1))

lemma payee_groups_disjoint:
  assumes "distinct (map pay_id ps)"
  shows "distinct (map pay_id (concat (payee_groups d ps))) \<and> set (concat (payee_groups d ps)) \<subseteq> set ps \<and>
    (\<forall>g \<in> set (payee_groups d ps). 2 \<le> length g)"
proof -
  define g1 where "g1 = same_name_groups ps"
  define g2 where "g2 = core_groups (unused g1 ps)"
  define g3 where "g3 = close_groups d (unused (g1 @ g2) ps)"
  have eq: "payee_groups d ps = g1 @ g2 @ g3" by (simp add: payee_groups_def g1_def g2_def g3_def Let_def)
  note d1 = same_name_groups_distinct [OF assms, folded g1_def]
  note u1 = unused_payees [OF assms, of g1]
  note d2 = core_groups_distinct [OF u1(1), folded g2_def]
  note u2 = unused_payees [OF assms, of "g1 @ g2"]
  note d3 = close_groups_distinct [OF u2(1), of d, folded g3_def]
  have "pay_id ` set (concat g1) \<inter> pay_id ` set (concat g2) = {}" using d2(2) u1(3) by blast
  moreover have "pay_id ` set (concat (g1 @ g2)) \<inter> pay_id ` set (concat g3) = {}" using d3(2) u2(3) by blast
  ultimately have dist: "distinct (map pay_id (concat (payee_groups d ps)))"
    using d1(1) d2(1) d3(1) by (simp add: eq image_Un Int_Un_distrib2 Int_Un_distrib)
  have "set (concat g2) \<subseteq> set ps" by (rule subset_trans [OF d2(2) u1(2)])
  moreover have "set (concat g3) \<subseteq> set ps" by (rule subset_trans [OF d3(2) u2(2)])
  ultimately have sub: "set (concat (payee_groups d ps)) \<subseteq> set ps"
    using d1(2) unfolding eq concat_append set_append by (intro Un_least)
  have "2 \<le> length g" if "g \<in> set (payee_groups d ps)" for g
    using that groups_of_two unfolding eq g1_def g2_def g3_def by (metis Un_iff set_append)
  with dist sub show ?thesis by blast
qed

text \<open>
  Nobody is offered twice. The groups of \<open>similar_payees\<close> are disjoint, every group has at least two
  payees of the household, and so every proposed merge can be carried out after any other.
\<close>

lemma similar_payees_disjoint:
  assumes "ids_ok pay_id (seq_payee s) (payees s)"
  shows "distinct (map pgi_id (concat (similar_payees d s))) \<and>
    pgi_id ` set (concat (similar_payees d s)) \<subseteq> pay_id ` set (payees s) \<and>
    (\<forall>g \<in> set (similar_payees d s). 2 \<le> length g)"
proof (cases "length (payees s) < 2")
  case True
  then show ?thesis by (simp add: similar_payees_def by_name_def)
next
  case False
  let ?ps = "by_name pay_name (payees s)"
  have "distinct (map pay_id ?ps)" using assms by (simp add: ids_ok_def by_name_def distinct_map)
  note g = payee_groups_disjoint [OF this, of d]
  have eq: "similar_payees d s = map (map (payee_item s)) (payee_groups d ?ps)"
    using False by (simp add: similar_payees_def by_name_def)
  have ids: "map pgi_id (concat (similar_payees d s)) = map pay_id (concat (payee_groups d ?ps))"
    by (simp add: eq map_concat comp_def payee_item_def)
  then have "pgi_id ` set (concat (similar_payees d s)) = pay_id ` set (concat (payee_groups d ?ps))"
    by (metis list.set_map)
  with g ids show ?thesis by (auto simp: eq by_name_def)
qed

definition ex_lidl_db :: db where
  "ex_lidl_db = empty_db\<lparr>payees := [(new_payee ''LIDL'')\<lparr>pay_id := 1\<rparr>, (new_payee ''Zabka'')\<lparr>pay_id := 2\<rparr>,
     (new_payee ''Lidl!'')\<lparr>pay_id := 3\<rparr>], seq_payee := 4\<rparr>"

lemma similar_payees_disjoint_witness:
  "map (map pgi_id) (similar_payees None ex_lidl_db) = [[1, 3]] \<and>
   distinct (map pgi_id (concat (similar_payees None ex_lidl_db)))"
proof
  show "map (map pgi_id) (similar_payees None ex_lidl_db) = [[1, 3]]" by code_simp
  have "ids_ok pay_id (seq_payee ex_lidl_db) (payees ex_lidl_db)" by (simp add: ids_ok_def ex_lidl_db_def)
  then show "distinct (map pgi_id (concat (similar_payees None ex_lidl_db)))" using similar_payees_disjoint by blast
qed

section \<open>Where the code departs from its intention\<close>

text \<open>The rules of a merged category are not moved: they disappear.\<close>

lemma merge_categories_drops_rules:
  assumes "merge_categories hmac now k others s = Inr (n, s')" and "filter (\<lambda>i. i \<noteq> k) others \<noteq> []" and "r \<in> set (cat_rules s)"
    and "rule_category_id r \<in> set others" and "rule_category_id r \<noteq> k"
  shows "r \<notin> set (cat_rules s') \<and> length (cat_rules s') < length (cat_rules s)"
proof -
  have eq: "cat_rules s' = filter (\<lambda>r. rule_category_id r \<notin> set (filter (\<lambda>i. i \<noteq> k) others)) (cat_rules s)"
    using assms(1,2) by (auto simp: merge_categories_def Let_def split: if_splits)
  have "length (filter (\<lambda>r. rule_category_id r \<notin> set (filter (\<lambda>i. i \<noteq> k) others)) (cat_rules s)) < length (cat_rules s)"
    by (rule length_filter_less [OF assms(3)]) (use assms(4,5) in simp)
  then show ?thesis using assms(4,5) by (simp add: eq)
qed

text \<open>Keeping a child of a merged category makes it its own parent.\<close>

lemma kept_child_becomes_its_own_parent:
  "\<exists>s'. merge_categories ex_hash 9 2 [1] ex_tree_db = Inr (1, s') \<and> map_option cat_parent_id (get_category s' 2) = Some (Some 2)"
proof -
  have "(case merge_categories ex_hash 9 2 [1] ex_tree_db of Inl e \<Rightarrow> False
      | Inr (n, s') \<Rightarrow> n = 1 \<and> map_option cat_parent_id (get_category s' 2) = Some (Some 2))" by code_simp
  then show ?thesis by (auto split: sum.splits)
qed

text \<open>Two categories with a child of the same name cannot be merged.\<close>

definition ex_twins_db :: db where
  "ex_twins_db = ex_db\<lparr>categories := [ex_cat 1 ''Car'' CAT_EXPENSE None, ex_cat 2 ''Other'' CAT_EXPENSE (Some 1),
     ex_cat 3 ''CAR'' CAT_EXPENSE None, ex_cat 4 ''Other'' CAT_EXPENSE (Some 3)], seq_category := 5\<rparr>"

lemma same_named_children_refuse_the_merge:
  "map (map cgi_id) (redundant_categories ex_twins_db) = [[1, 3], [2, 4]] \<and>
   merge_categories ex_hash 9 1 [3] ex_twins_db = Inl (IntegrityError ''uq_categories_parent_type_name_bidx'')"
  by code_simp

text \<open>An expense and its refund on the same day are offered as duplicates.\<close>

definition ex_refund_db :: db where
  "ex_refund_db = ex_db\<lparr>transactions := [(ex_tx 1 1 EXPENSE 12 (Date 2026 1 31))\<lparr>tx_description := ''Zalando''\<rparr>,
     (ex_tx 2 1 INCOME 12 (Date 2026 1 31))\<lparr>tx_description := ''Zalando refund''\<rparr>], seq_tx := 3\<rparr>"

lemma refund_looks_like_a_duplicate:
  "map_sum id (map (map tgi_id)) (duplicate_transactions (Date 2026 2 1) None ex_refund_db) = Inr [[1, 2]]"
  by code_simp

end
