(* ===== verification/TransferReview.thy ===== *)
theory TransferReview
  imports Transactions
begin

text \<open>
  The transfer review of \<open>ImportService\<close> (\<open>src/src/kaleta/services/import_service.py\<close>): the rows that look like
  the two legs of one transfer between own accounts are suggested as pairs, and each pair is accepted or
  dismissed. The main result is that the suggestions are a stable matching of the rows.
\<close>

section \<open>Definitions\<close>

text \<open>\<open>_pair_key\<close>: lowest id first.\<close>

definition pair_key :: "int \<Rightarrow> int \<Rightarrow> int \<times> int" where
  "pair_key id_a id_b = (if id_a < id_b then (id_a, id_b) else (id_b, id_a))"

text \<open>\<open>ImportService._orient_transfer_legs\<close>\<close>

definition orient_own_legs :: "db \<Rightarrow> transaction \<Rightarrow> transaction \<Rightarrow> (transaction \<times> transaction) option" where
  "orient_own_legs s a b =
    (if tx_account_id a = tx_account_id b then None
     else if account_currency s a \<noteq> account_currency s b then None
     else orient_transfer_legs a b)"

definition dismissed_transfer_pairs :: "db \<Rightarrow> (int \<times> int) set" where
  "dismissed_transfer_pairs s = set (map (\<lambda>d. (dtp_first d, dtp_second d)) (dismissed_pairs s))"

record transfer_candidate =
  tcd_day_gap :: int
  tcd_amount_gap :: decimal
  tcd_outgoing :: transaction
  tcd_incoming :: transaction

record transfer_pair_suggestion =
  tps_outgoing_id :: int
  tps_incoming_id :: int
  tps_amount :: decimal
  tps_currency :: string
  tps_outgoing_account :: string
  tps_incoming_account :: string
  tps_outgoing_date :: date
  tps_incoming_date :: date
  tps_outgoing_description :: string
  tps_incoming_description :: string

text \<open>The account of a row is never missing: \<open>account_id\<close> is a foreign key that is not null.\<close>

definition account_of :: "db \<Rightarrow> (account \<Rightarrow> string) \<Rightarrow> transaction \<Rightarrow> string" where
  "account_of s col t = (case get_account s (tx_account_id t) of None \<Rightarrow> [] | Some a \<Rightarrow> col a)"

definition from_legs :: "db \<Rightarrow> transaction \<Rightarrow> transaction \<Rightarrow> transfer_pair_suggestion" where
  "from_legs s outgoing incoming = \<lparr>tps_outgoing_id = tx_id outgoing, tps_incoming_id = tx_id incoming,
     tps_amount = \<bar>tx_amount outgoing\<bar>, tps_currency = account_of s acc_currency outgoing,
     tps_outgoing_account = account_of s acc_name outgoing,
     tps_incoming_account = account_of s acc_name incoming,
     tps_outgoing_date = tx_date outgoing, tps_incoming_date = tx_date incoming,
     tps_outgoing_description = tx_description outgoing,
     tps_incoming_description = tx_description incoming\<rparr>"

definition in_window :: "date option \<Rightarrow> date option \<Rightarrow> date \<Rightarrow> bool" where
  "in_window date_from date_to d \<longleftrightarrow>
    (case date_from of None \<Rightarrow> True | Some f \<Rightarrow> f \<le> d) \<and>
    (case date_to of None \<Rightarrow> True | Some t \<Rightarrow> d \<le> t)"

definition review_rows :: "date option \<Rightarrow> date option \<Rightarrow> db \<Rightarrow> transaction list" where
  "review_rows date_from date_to s =
    sort_key (\<lambda>t. (tx_amount t, tx_date t, tx_id t))
      (filter (\<lambda>t. tx_linked_id t = None \<and> \<not> tx_is_split t \<and> in_window date_from date_to (tx_date t))
        (transactions s))"

text \<open>The body of the inner loop after the amount test.\<close>

definition pair_candidate :: "db \<Rightarrow> int \<Rightarrow> transaction \<Rightarrow> transaction \<Rightarrow> transfer_candidate option" where
  "pair_candidate s max_days a b =
    (let day_gap = \<bar>days_between (tx_date a) (tx_date b)\<bar>
     in if max_days < day_gap then None
        else case orient_own_legs s a b of
               None \<Rightarrow> None
             | Some (outgoing, incoming) \<Rightarrow>
                 if pair_key (tx_id outgoing) (tx_id incoming) \<in> dismissed_transfer_pairs s then None
                 else Some \<lparr>tcd_day_gap = day_gap, tcd_amount_gap = \<bar>tx_amount b - tx_amount a\<bar>,
                            tcd_outgoing = outgoing, tcd_incoming = incoming\<rparr>)"

text \<open>The inner loop, which stops at the first amount out of tolerance, and the outer one.\<close>

primrec partners :: "db \<Rightarrow> int \<Rightarrow> decimal \<Rightarrow> transaction \<Rightarrow> transaction list \<Rightarrow> transfer_candidate list" where
  "partners s max_days tolerance a [] = []"
| "partners s max_days tolerance a (b # bs) =
    (if tolerance < \<bar>tx_amount b - tx_amount a\<bar> then []
     else case pair_candidate s max_days a b of
            None \<Rightarrow> partners s max_days tolerance a bs
          | Some c \<Rightarrow> c # partners s max_days tolerance a bs)"

primrec candidates :: "db \<Rightarrow> int \<Rightarrow> decimal \<Rightarrow> transaction list \<Rightarrow> transfer_candidate list" where
  "candidates s max_days tolerance [] = []"
| "candidates s max_days tolerance (a # rows) =
    partners s max_days tolerance a rows @ candidates s max_days tolerance rows"

definition candidate_order :: "transfer_candidate \<Rightarrow> int \<times> decimal \<times> int \<times> int" where
  "candidate_order c =
    (tcd_day_gap c, tcd_amount_gap c, tx_id (tcd_outgoing c), tx_id (tcd_incoming c))"

primrec take_free :: "int set \<Rightarrow> transfer_candidate list \<Rightarrow> transfer_candidate list" where
  "take_free taken [] = []"
| "take_free taken (c # cs) =
    (let out_id = tx_id (tcd_outgoing c); in_id = tx_id (tcd_incoming c)
     in if out_id \<in> taken \<or> in_id \<in> taken then take_free taken cs
        else c # take_free (taken \<union> {out_id, in_id}) cs)"

definition suggest_transfer_pairs ::
  "int \<Rightarrow> decimal \<Rightarrow> date option \<Rightarrow> date option \<Rightarrow> db \<Rightarrow> transfer_pair_suggestion list" where
  "suggest_transfer_pairs max_days tolerance date_from date_to s =
    sort_key (\<lambda>p. (tps_outgoing_date p, tps_outgoing_id p))
      (map (\<lambda>c. from_legs s (tcd_outgoing c) (tcd_incoming c))
        (take_free {} (sort_key candidate_order
          (candidates s max_days tolerance (review_rows date_from date_to s)))))"

definition accept_transfer_pair :: "env \<Rightarrow> int \<Rightarrow> int \<Rightarrow> decimal \<Rightarrow> db \<Rightarrow> db result" where
  "accept_transfer_pair e outgoing_id incoming_id tolerance s =
    ebind (pair_as_transfer e outgoing_id incoming_id tolerance s) (\<lambda>(legs, s'). Inr s')"

text \<open>
  \<open>scalar_one_or_none\<close> raises when the select finds two rows. The two columns are foreign keys of
  \<open>transactions\<close>.
\<close>

definition dismiss_transfer_pair :: "int \<Rightarrow> int \<Rightarrow> db \<Rightarrow> db result" where
  "dismiss_transfer_pair outgoing_id incoming_id s =
    (let (first, second) = pair_key outgoing_id incoming_id
     in case filter (\<lambda>d. dtp_first d = first \<and> dtp_second d = second) (dismissed_pairs s) of
          [] \<Rightarrow> if get_tx s first = None \<or> get_tx s second = None
                then Inl (IntegrityError ''dismissed_transfer_pairs'')
                else Inr (s\<lparr>dismissed_pairs := dismissed_pairs s @
                  [\<lparr>dtp_id = seq_dismissed_pair s, dtp_first = first, dtp_second = second\<rparr>],
                  seq_dismissed_pair := seq_dismissed_pair s + 1\<rparr>)
        | [d] \<Rightarrow> Inr s
        | _ \<Rightarrow> Inl MultipleResultsFound)"

definition transfer_review_window :: "date list \<Rightarrow> int \<Rightarrow> (date \<times> date) option result" where
  "transfer_review_window days max_days =
    (if days = [] then Inr None
     else ebind (add_days (Min (set days)) (- max_days)) (\<lambda>f.
          ebind (add_days (Max (set days)) max_days) (\<lambda>t. Inr (Some (f, t)))))"

text \<open>
  Every pair commits on its own, so the state stands beside the outcome: an error leaves the pairs before
  it linked.
\<close>

primrec accept_all ::
  "env \<Rightarrow> decimal \<Rightarrow> transfer_pair_suggestion list \<Rightarrow> db \<Rightarrow> unit result \<times> db" where
  "accept_all e tolerance [] s = (Inr (), s)"
| "accept_all e tolerance (p # ps) s =
    (case accept_transfer_pair e (tps_outgoing_id p) (tps_incoming_id p) tolerance s of
       Inl err \<Rightarrow> (Inl err, s)
     | Inr s' \<Rightarrow> accept_all e tolerance ps s')"

definition detect_and_link_transfers ::
  "env \<Rightarrow> int \<Rightarrow> decimal \<Rightarrow> date option \<Rightarrow> date option \<Rightarrow> db \<Rightarrow> nat result \<times> db" where
  "detect_and_link_transfers e max_days tolerance date_from date_to s =
    (let suggestions = suggest_transfer_pairs max_days tolerance date_from date_to s;
         (r, s') = accept_all e tolerance suggestions s
     in (ebind r (\<lambda>_. Inr (length suggestions)), s'))"


section \<open>What a suggestion is\<close>

text \<open>
  The specification of a pair, without the loops: two rows that are free, in the window, on different
  accounts of one currency, in opposite directions, close enough in amount and date, and not dismissed.
\<close>

definition free_row :: "date option \<Rightarrow> date option \<Rightarrow> db \<Rightarrow> transaction \<Rightarrow> bool" where
  "free_row date_from date_to s t \<longleftrightarrow>
    t \<in> set (transactions s) \<and> tx_linked_id t = None \<and> \<not> tx_is_split t \<and>
    in_window date_from date_to (tx_date t)"

definition opposite :: "transaction \<Rightarrow> transaction \<Rightarrow> bool" where
  "opposite outgoing incoming \<longleftrightarrow> tx_type outgoing \<noteq> INCOME \<and> tx_type incoming \<noteq> EXPENSE \<and>
    (tx_type outgoing = TRANSFER \<and> tx_type incoming = TRANSFER \<longrightarrow> tx_id outgoing < tx_id incoming)"

definition pairable :: "int \<Rightarrow> decimal \<Rightarrow> db \<Rightarrow> transaction \<Rightarrow> transaction \<Rightarrow> bool" where
  "pairable max_days tolerance s outgoing incoming \<longleftrightarrow>
    tx_account_id outgoing \<noteq> tx_account_id incoming \<and>
    account_currency s outgoing = account_currency s incoming \<and>
    opposite outgoing incoming \<and>
    \<bar>tx_amount outgoing - tx_amount incoming\<bar> \<le> tolerance \<and>
    \<bar>days_between (tx_date outgoing) (tx_date incoming)\<bar> \<le> max_days \<and>
    pair_key (tx_id outgoing) (tx_id incoming) \<notin> dismissed_transfer_pairs s"

definition candidate_of :: "transaction \<Rightarrow> transaction \<Rightarrow> transfer_candidate" where
  "candidate_of outgoing incoming =
    \<lparr>tcd_day_gap = \<bar>days_between (tx_date outgoing) (tx_date incoming)\<bar>,
     tcd_amount_gap = \<bar>tx_amount outgoing - tx_amount incoming\<bar>,
     tcd_outgoing = outgoing, tcd_incoming = incoming\<rparr>"

lemma candidate_of_simps [simp]:
  "tcd_outgoing (candidate_of x y) = x" "tcd_incoming (candidate_of x y) = y"
  "tcd_day_gap (candidate_of x y) = \<bar>days_between (tx_date x) (tx_date y)\<bar>"
  by (simp_all add: candidate_of_def)

lemma pair_key_commute: "pair_key i j = pair_key j i"
  by (auto simp: pair_key_def)

lemma abs_days_commute: "\<bar>days_between a b\<bar> = \<bar>days_between b a\<bar>"
  by (simp add: days_between_def abs_minus_commute)

lemma orient_iff_opposite:
  assumes "tx_id a \<noteq> tx_id b"
  shows "orient_transfer_legs a b = Some (x, y) \<longleftrightarrow> (x, y) \<in> {(a, b), (b, a)} \<and> opposite x y"
  using assms
  by (cases "tx_type a"; cases "tx_type b") (auto simp: orient_transfer_legs_def opposite_def)

text \<open>The inner loop's body, in either order of its two rows, finds exactly the admissible pairs.\<close>

lemma pair_candidate_iff:
  assumes "tx_id a \<noteq> tx_id b"
  shows "pair_candidate s max_days a b = Some c \<and> \<bar>tx_amount b - tx_amount a\<bar> \<le> tol \<longleftrightarrow>
    (\<exists>x y. c = candidate_of x y \<and> (x, y) \<in> {(a, b), (b, a)} \<and> pairable max_days tol s x y)"
    (is "?l = ?r")
proof
  assume l: ?l
  then obtain x y where o: "orient_own_legs s a b = Some (x, y)"
    and c: "pair_key (tx_id x) (tx_id y) \<notin> dismissed_transfer_pairs s"
      "\<bar>days_between (tx_date a) (tx_date b)\<bar> \<le> max_days"
      "c = \<lparr>tcd_day_gap = \<bar>days_between (tx_date a) (tx_date b)\<bar>, tcd_amount_gap = \<bar>tx_amount b - tx_amount a\<bar>,
            tcd_outgoing = x, tcd_incoming = y\<rparr>"
    unfolding pair_candidate_def Let_def by (auto split: if_splits option.splits prod.splits)
  from o have acc: "tx_account_id a \<noteq> tx_account_id b" "account_currency s a = account_currency s b"
    and "orient_transfer_legs a b = Some (x, y)"
    by (auto simp: orient_own_legs_def split: if_splits)
  then have xy: "(x, y) = (a, b) \<or> (x, y) = (b, a)" "opposite x y"
    using orient_iff_opposite [OF assms] by simp_all
  have "c = candidate_of x y \<and> pairable max_days tol s x y"
    using xy c l acc
    by (elim disjE) (simp_all add: candidate_of_def pairable_def abs_minus_commute abs_days_commute [of "tx_date b"])
  with xy show ?r by blast
next
  assume ?r
  then obtain x y where c: "c = candidate_of x y" and xy: "(x, y) \<in> {(a, b), (b, a)}"
    and p: "pairable max_days tol s x y" by blast
  have "orient_transfer_legs a b = Some (x, y)"
    using orient_iff_opposite [OF assms] xy p by (simp add: pairable_def)
  then have "orient_own_legs s a b = Some (x, y)" using xy p by (auto simp: orient_own_legs_def pairable_def)
  moreover have "\<bar>days_between (tx_date a) (tx_date b)\<bar> = \<bar>days_between (tx_date x) (tx_date y)\<bar>"
    "\<bar>tx_amount b - tx_amount a\<bar> = \<bar>tx_amount x - tx_amount y\<bar>"
    using xy by (auto simp: abs_minus_commute abs_days_commute)
  ultimately show ?l using p c by (simp add: pair_candidate_def candidate_of_def pairable_def)
qed

section \<open>The loops\<close>

text \<open>On rows sorted by amount the early \<open>break\<close> of the inner loop loses nothing.\<close>

lemma partners_eq:
  assumes "sorted_wrt (\<lambda>x y. tx_amount x \<le> tx_amount y) (a # bs)"
  shows "partners s max_days tol a bs =
    List.map_filter (pair_candidate s max_days a) (filter (\<lambda>b. \<bar>tx_amount b - tx_amount a\<bar> \<le> tol) bs)"
  using assms
proof (induction bs)
  case Nil
  then show ?case by (simp add: map_filter_simps)
next
  case (Cons b bs)
  show ?case
  proof (cases "tol < \<bar>tx_amount b - tx_amount a\<bar>")
    case True
    have "tol < \<bar>tx_amount x - tx_amount a\<bar>" if "x \<in> set (b # bs)" for x
    proof -
      have "tx_amount a \<le> tx_amount b" "tx_amount b \<le> tx_amount x" using Cons.prems that by auto
      with True show ?thesis by linarith
    qed
    then have "filter (\<lambda>x. \<bar>tx_amount x - tx_amount a\<bar> \<le> tol) (b # bs) = []"
      by (auto simp: filter_empty_conv not_le)
    with True show ?thesis by (simp add: map_filter_simps)
  next
    case False
    with Cons show ?thesis by (auto simp: map_filter_simps split: option.splits)
  qed
qed

lemma map_filter_members: "set (List.map_filter f xs) = {y. \<exists>x \<in> set xs. f x = Some y}"
  by (induction xs) (auto simp: map_filter_simps split: option.splits)

lemma candidates_set:
  assumes "sorted_wrt (\<lambda>x y. tx_amount x \<le> tx_amount y) rows" and "distinct (map tx_id rows)"
  shows "c \<in> set (candidates s max_days tol rows) \<longleftrightarrow>
    (\<exists>x \<in> set rows. \<exists>y \<in> set rows. c = candidate_of x y \<and> pairable max_days tol s x y)"
  using assms
proof (induction rows)
  case Nil
  then show ?case by simp
next
  case (Cons a rows)
  have irr: "\<not> pairable max_days tol s a a" by (simp add: pairable_def)
  have "c \<in> set (partners s max_days tol a rows) \<longleftrightarrow>
    (\<exists>b \<in> set rows. pair_candidate s max_days a b = Some c \<and> \<bar>tx_amount b - tx_amount a\<bar> \<le> tol)"
    using partners_eq [OF Cons.prems(1)] by (auto simp: map_filter_members)
  also have "\<dots> \<longleftrightarrow> (\<exists>b \<in> set rows. \<exists>x y. c = candidate_of x y \<and> (x, y) \<in> {(a, b), (b, a)} \<and>
      pairable max_days tol s x y)"
  proof (rule bex_cong [OF refl])
    fix b assume "b \<in> set rows"
    then have "tx_id a \<noteq> tx_id b" using Cons.prems(2) by auto
    then show "(pair_candidate s max_days a b = Some c \<and> \<bar>tx_amount b - tx_amount a\<bar> \<le> tol) =
      (\<exists>x y. c = candidate_of x y \<and> (x, y) \<in> {(a, b), (b, a)} \<and> pairable max_days tol s x y)"
      by (rule pair_candidate_iff)
  qed
  finally have p: "c \<in> set (partners s max_days tol a rows) \<longleftrightarrow> (\<exists>b \<in> set rows.
      c = candidate_of a b \<and> pairable max_days tol s a b \<or> c = candidate_of b a \<and> pairable max_days tol s b a)"
    by auto
  have q: "c \<in> set (candidates s max_days tol rows) \<longleftrightarrow>
    (\<exists>x \<in> set rows. \<exists>y \<in> set rows. c = candidate_of x y \<and> pairable max_days tol s x y)"
    using Cons by auto
  show ?case unfolding candidates.simps set_append Un_iff p q using irr by auto
qed

text \<open>Taking the first candidate whose two rows are free: no row twice, and nothing is passed over for worse.\<close>

definition legs :: "transfer_candidate \<Rightarrow> int list" where
  "legs c = [tx_id (tcd_outgoing c), tx_id (tcd_incoming c)]"

lemma take_free_subset: "set (take_free taken cs) \<subseteq> set cs"
  by (induction cs arbitrary: taken) (auto simp: Let_def)

lemma take_free_disjoint: "c \<in> set (take_free taken cs) \<Longrightarrow> set (legs c) \<inter> taken = {}"
  by (induction cs arbitrary: taken) (fastforce simp: Let_def legs_def split: if_splits)+

lemma take_free_distinct:
  assumes "\<forall>c \<in> set cs. distinct (legs c)"
  shows "distinct (concat (map legs (take_free taken cs)))"
  using assms
proof (induction cs arbitrary: taken)
  case Nil
  then show ?case by simp
next
  case (Cons c cs)
  let ?rest = "take_free (taken \<union> set (legs c)) cs"
  have "set (legs c) \<inter> set (concat (map legs ?rest)) = {}"
    using take_free_disjoint [of _ "taken \<union> set (legs c)" cs] by auto
  moreover have "distinct (concat (map legs ?rest))" using Cons by simp
  moreover have "distinct (legs c)" using Cons.prems by simp
  moreover have "legs c = [tx_id (tcd_outgoing c), tx_id (tcd_incoming c)]" by (simp add: legs_def)
  ultimately show ?case using Cons by (auto simp: Let_def)
qed

lemma take_free_stable:
  fixes k :: "transfer_candidate \<Rightarrow> 'k::linorder"
  assumes "sorted_wrt (\<lambda>x y. k x \<le> k y) cs" and "c \<in> set cs"
  shows "set (legs c) \<inter> taken \<noteq> {} \<or>
    (\<exists>p \<in> set (take_free taken cs). k p \<le> k c \<and> set (legs p) \<inter> set (legs c) \<noteq> {})"
  using assms
proof (induction cs arbitrary: taken)
  case Nil
  then show ?case by simp
next
  case (Cons d cs)
  show ?case
  proof (cases "set (legs d) \<inter> taken = {}")
    case False
    then have t: "take_free taken (d # cs) = take_free taken cs" by (auto simp: Let_def legs_def)
    show ?thesis
      using False Cons.IH [of taken] Cons.prems unfolding t by auto
  next
    case True
    then have t: "take_free taken (d # cs) = d # take_free (taken \<union> set (legs d)) cs"
      by (auto simp: Let_def legs_def)
    consider "c = d" | "c \<in> set cs" using Cons.prems by auto
    then show ?thesis
    proof cases
      case 1
      then show ?thesis unfolding t by (auto simp: legs_def)
    next
      case 2
      then have "k d \<le> k c" using Cons.prems by auto
      then show ?thesis using Cons.IH [of "taken \<union> set (legs d)"] 2 Cons.prems unfolding t by auto
    qed
  qed
qed

section \<open>The suggestions\<close>

lemma set_review_rows: "t \<in> set (review_rows date_from date_to s) \<longleftrightarrow> free_row date_from date_to s t"
  by (auto simp: review_rows_def free_row_def)

lemma review_rows_sorted:
  "sorted_wrt (\<lambda>x y. tx_amount x \<le> tx_amount y) (review_rows date_from date_to s)"
proof -
  have "sorted_wrt (\<lambda>x y. (tx_amount x, tx_date x, tx_id x) \<le> (tx_amount y, tx_date y, tx_id y))
      (review_rows date_from date_to s)"
    using sorted_sort_key [of "\<lambda>t. (tx_amount t, tx_date t, tx_id t)"]
    unfolding review_rows_def sorted_map .
  then show ?thesis
    by (rule sorted_wrt_mono_rel [rotated]) (metis less_eq_prod_simp order_less_imp_le)
qed

lemma review_rows_distinct:
  assumes "ledger_ok s"
  shows "distinct (map tx_id (review_rows date_from date_to s))"
proof -
  have "distinct (map tx_id (transactions s))" using assms by (simp add: ledger_ok_def ids_ok_def)
  then have "distinct (transactions s)" "inj_on tx_id (set (transactions s))" by (simp_all add: distinct_map)
  then show ?thesis unfolding distinct_map review_rows_def by (auto intro: inj_on_subset)
qed

definition could_be_transfer ::
  "int \<Rightarrow> decimal \<Rightarrow> date option \<Rightarrow> date option \<Rightarrow> db \<Rightarrow> transaction \<Rightarrow> transaction \<Rightarrow> bool" where
  "could_be_transfer max_days tolerance date_from date_to s outgoing incoming \<longleftrightarrow>
    free_row date_from date_to s outgoing \<and> free_row date_from date_to s incoming \<and>
    pairable max_days tolerance s outgoing incoming"

definition chosen ::
  "int \<Rightarrow> decimal \<Rightarrow> date option \<Rightarrow> date option \<Rightarrow> db \<Rightarrow> transfer_candidate list" where
  "chosen max_days tol date_from date_to s = take_free {} (sort_key candidate_order
     (candidates s max_days tol (review_rows date_from date_to s)))"

lemma candidates_exact:
  assumes "ledger_ok s"
  shows "c \<in> set (candidates s max_days tol (review_rows date_from date_to s)) \<longleftrightarrow>
    (\<exists>x y. c = candidate_of x y \<and> could_be_transfer max_days tol date_from date_to s x y)"
  unfolding candidates_set [OF review_rows_sorted review_rows_distinct [OF assms]]
  by (auto simp: set_review_rows could_be_transfer_def Bex_def)

lemma chosen_sound:
  assumes "ledger_ok s" and "c \<in> set (chosen max_days tol date_from date_to s)"
  shows "could_be_transfer max_days tol date_from date_to s (tcd_outgoing c) (tcd_incoming c)"
proof -
  have "c \<in> set (candidates s max_days tol (review_rows date_from date_to s))"
    using assms(2) take_free_subset unfolding chosen_def by fastforce
  then show ?thesis using candidates_exact [OF assms(1)] by force
qed

lemma could_be_transfer_ids:
  assumes "ledger_ok s" and "could_be_transfer max_days tol date_from date_to s x y"
  shows "tx_id x \<noteq> tx_id y" "get_tx s (tx_id x) = Some x" "get_tx s (tx_id y) = Some y"
proof -
  have m: "x \<in> set (transactions s)" "y \<in> set (transactions s)"
    and "tx_account_id x \<noteq> tx_account_id y"
    using assms(2) by (auto simp: could_be_transfer_def free_row_def pairable_def)
  have d: "distinct (map tx_id (transactions s))" using assms(1) by (simp add: ledger_ok_def ids_ok_def)
  show "get_tx s (tx_id x) = Some x" "get_tx s (tx_id y) = Some y"
    unfolding get_tx_def by (rule find_row_member [OF d m(1)], rule find_row_member [OF d m(2)])
  then show "tx_id x \<noteq> tx_id y" using \<open>tx_account_id x \<noteq> tx_account_id y\<close> by (metis option.inject)
qed

lemma chosen_distinct:
  assumes "ledger_ok s"
  shows "distinct (concat (map legs (chosen max_days tol date_from date_to s)))"
  unfolding chosen_def
proof (rule take_free_distinct, rule ballI)
  fix c assume "c \<in> set (sort_key candidate_order (candidates s max_days tol (review_rows date_from date_to s)))"
  then have "c \<in> set (candidates s max_days tol (review_rows date_from date_to s))" by simp
  then obtain x y where "c = candidate_of x y" "could_be_transfer max_days tol date_from date_to s x y"
    using candidates_exact [OF assms] by blast
  then show "distinct (legs c)" using could_be_transfer_ids [OF assms] by (simp add: legs_def)
qed

lemma chosen_stable:
  assumes "ledger_ok s" and "could_be_transfer max_days tol date_from date_to s x y"
  obtains p where "p \<in> set (chosen max_days tol date_from date_to s)"
    "tcd_day_gap p \<le> \<bar>days_between (tx_date x) (tx_date y)\<bar>"
    "set (legs p) \<inter> {tx_id x, tx_id y} \<noteq> {}"
proof -
  let ?cs = "sort_key candidate_order (candidates s max_days tol (review_rows date_from date_to s))"
  have "candidate_of x y \<in> set ?cs" using candidates_exact [OF assms(1)] assms(2) by auto
  moreover have "sorted_wrt (\<lambda>x y. candidate_order x \<le> candidate_order y) ?cs"
    using sorted_sort_key [of candidate_order] unfolding sorted_map .
  ultimately obtain p where "p \<in> set (take_free {} ?cs)"
    "candidate_order p \<le> candidate_order (candidate_of x y)"
    "set (legs p) \<inter> set (legs (candidate_of x y)) \<noteq> {}"
    using take_free_stable [of candidate_order ?cs "candidate_of x y" "{}"] by auto
  then show thesis using that by (auto simp: chosen_def candidate_order_def legs_def)
qed

lemma chosen_day_gap:
  assumes "ledger_ok s" and "c \<in> set (chosen max_days tol date_from date_to s)"
  shows "tcd_day_gap c = \<bar>days_between (tx_date (tcd_outgoing c)) (tx_date (tcd_incoming c))\<bar>"
proof -
  have "c \<in> set (candidates s max_days tol (review_rows date_from date_to s))"
    using assms(2) take_free_subset unfolding chosen_def by fastforce
  then show ?thesis using candidates_exact [OF assms(1)] by force
qed

lemma set_suggestions:
  "set (suggest_transfer_pairs max_days tol date_from date_to s) =
    (\<lambda>c. from_legs s (tcd_outgoing c) (tcd_incoming c)) ` set (chosen max_days tol date_from date_to s)"
  by (simp add: suggest_transfer_pairs_def chosen_def)

definition suggested_ids :: "transfer_pair_suggestion \<Rightarrow> int list" where
  "suggested_ids p = [tps_outgoing_id p, tps_incoming_id p]"

lemma distinct_mset: "mset xs = mset ys \<Longrightarrow> distinct xs = distinct ys"
  by (metis mset_eq_imp_distinct_iff)

lemma suggestions_distinct:
  assumes "ledger_ok s"
  shows "distinct (concat (map suggested_ids (suggest_transfer_pairs max_days tol date_from date_to s)))"
proof -
  let ?ps = "map (\<lambda>c. from_legs s (tcd_outgoing c) (tcd_incoming c)) (chosen max_days tol date_from date_to s)"
  have "mset (concat (map suggested_ids (suggest_transfer_pairs max_days tol date_from date_to s))) =
    mset (concat (map suggested_ids ?ps))"
    unfolding suggest_transfer_pairs_def chosen_def [symmetric] mset_concat
    by (rule sum_list_mset_eq) (simp only: mset_map mset_sort map_map [symmetric])
  moreover have "map suggested_ids ?ps = map legs (chosen max_days tol date_from date_to s)"
    by (simp add: suggested_ids_def legs_def from_legs_def)
  ultimately show ?thesis using chosen_distinct [OF assms] distinct_mset by metis
qed

text \<open>
  C30. The transfer suggestions are a stable matching. Every suggestion is an admissible pair (two free
  rows of the window on different accounts of one currency, in opposite directions, within both
  tolerances, not dismissed), no row is in two suggestions, and an admissible pair that is not suggested
  is passed over only for a suggestion that shares a row with it and is at least as close in days: the
  early exit of the inner loop hides no pair, and the closest date wins.
\<close>

theorem suggestions_are_stable:
  assumes "ledger_ok s"
  shows "let ps = suggest_transfer_pairs max_days tol date_from date_to s in
    (\<forall>p \<in> set ps. \<exists>x y. p = from_legs s x y \<and>
      could_be_transfer max_days tol date_from date_to s x y) \<and>
    distinct (concat (map suggested_ids ps)) \<and>
    (\<forall>x y. could_be_transfer max_days tol date_from date_to s x y \<longrightarrow>
      (\<exists>p \<in> set ps. set (suggested_ids p) \<inter> {tx_id x, tx_id y} \<noteq> {} \<and>
        \<bar>days_between (tps_outgoing_date p) (tps_incoming_date p)\<bar> \<le> \<bar>days_between (tx_date x) (tx_date y)\<bar>))"
proof (unfold Let_def, intro conjI ballI allI impI)
  fix p assume "p \<in> set (suggest_transfer_pairs max_days tol date_from date_to s)"
  then show "\<exists>x y. p = from_legs s x y \<and> could_be_transfer max_days tol date_from date_to s x y"
    unfolding set_suggestions using chosen_sound [OF assms(1)] by blast
next
  show "distinct (concat (map suggested_ids (suggest_transfer_pairs max_days tol date_from date_to s)))"
    by (rule suggestions_distinct [OF assms(1)])
next
  fix x y assume "could_be_transfer max_days tol date_from date_to s x y"
  then obtain c where c: "c \<in> set (chosen max_days tol date_from date_to s)"
    "tcd_day_gap c \<le> \<bar>days_between (tx_date x) (tx_date y)\<bar>" "set (legs c) \<inter> {tx_id x, tx_id y} \<noteq> {}"
    by (rule chosen_stable [OF assms(1)])
  let ?p = "from_legs s (tcd_outgoing c) (tcd_incoming c)"
  have "?p \<in> set (suggest_transfer_pairs max_days tol date_from date_to s)" using c(1) by (auto simp: set_suggestions)
  moreover have "suggested_ids ?p = legs c" by (simp add: suggested_ids_def from_legs_def legs_def)
  moreover have "\<bar>days_between (tps_outgoing_date ?p) (tps_incoming_date ?p)\<bar> = tcd_day_gap c"
    using chosen_day_gap [OF assms(1) c(1)] by (simp add: from_legs_def)
  ultimately show "\<exists>p \<in> set (suggest_transfer_pairs max_days tol date_from date_to s). set (suggested_ids p) \<inter> {tx_id x, tx_id y} \<noteq> {} \<and>
      \<bar>days_between (tps_outgoing_date p) (tps_incoming_date p)\<bar> \<le> \<bar>days_between (tx_date x) (tx_date y)\<bar>"
    using c by (intro bexI [of _ ?p]) simp_all
qed

lemma ex_pair_ledger_ok: "ledger_ok ex_pair_db"
  using ex_pair_db_ok by (simp add: books_ok_def)

theorem suggestions_are_stable_witness:
  "\<exists>p \<in> set (suggest_transfer_pairs 3 (1 / 100) None None ex_pair_db). suggested_ids p = [1, 2]"
proof -
  have "could_be_transfer 3 (1 / 100) None None ex_pair_db
      (ex_tx 1 1 EXPENSE 12 (Date 2026 1 31)) (ex_tx 2 2 INCOME 12 (Date 2026 2 1))"
    by (auto simp: could_be_transfer_def free_row_def pairable_def opposite_def in_window_def ex_pair_db_def ex_tx_def
        account_currency_def get_account_def ex_defs dismissed_transfer_pairs_def days_between_def
        toordinal_def days_before_year_def days_before_month_def days_in_month_def is_leap_def)
  then obtain p where p: "p \<in> set (suggest_transfer_pairs 3 (1 / 100) None None ex_pair_db)"
    using suggestions_are_stable [OF ex_pair_ledger_ok, of 3 "1 / 100" None None] unfolding Let_def by metis
  moreover have "map suggested_ids (suggest_transfer_pairs 3 (1 / 100) None None ex_pair_db) = [[1, 2]]"
    by code_simp
  ultimately show ?thesis by (cases "suggest_transfer_pairs 3 (1 / 100) None None ex_pair_db") auto
qed

section \<open>Accepting every suggestion\<close>

text \<open>Every row's references resolve, as the foreign keys promise of a committed state.\<close>

definition refs_ok :: "db \<Rightarrow> bool" where
  "refs_ok s \<longleftrightarrow> (\<forall>t \<in> set (transactions s). tx_fk s t)"

lemma find_row_upd_None [simp]: "find_row tx_id i (upd_row tx_id (tx_id t) (\<lambda>old. touch now old t) rows) = None
    \<longleftrightarrow> find_row tx_id i rows = None"
  by (induction rows) auto

lemma tx_fk_save: "save_tx now t s = Inr s' \<Longrightarrow> tx_fk s' u = tx_fk s u"
  using save_tx_Inr(1) [of now t s s'] by (simp add: tx_fk_def fk_ok_def split: option.splits)

lemma tx_fk_touch [simp]: "tx_fk s (touch now old t) = tx_fk s t"
  by (simp add: tx_fk_def)

lemma refs_ok_save:
  assumes "refs_ok s" and "save_tx now t s = Inr s'"
  shows "refs_ok s'"
proof (unfold refs_ok_def, rule ballI)
  fix u assume "u \<in> set (transactions s')"
  then consider "u \<in> set (transactions s)" | old where "u = touch now old t"
    using save_tx_Inr(1) [OF assms(2)] by (auto dest!: set_upd_row_D)
  then have "tx_fk s u"
  proof cases
    case 1
    then show ?thesis using assms(1) by (simp add: refs_ok_def)
  next
    case 2
    then show ?thesis using save_tx_Inr(2) [OF assms(2)] by (simp add: tx_allowed_def)
  qed
  then show "tx_fk s' u" by (simp add: tx_fk_save [OF assms(2)])
qed

lemma as_leg_planned [simp]: "tx_planned_id (as_leg d i t) = tx_planned_id t"
  by (simp add: as_leg_def)

lemma as_leg_saves:
  assumes "ledger_ok s" and "refs_ok s" and "get_tx s i = Some t" and "get_tx s j \<noteq> None"
  shows "\<exists>s'. save_tx now (as_leg dir j t) s = Inr s'"
proof -
  have t: "t \<in> set (transactions s)" "tx_id t = i" using get_tx_Some [OF assms(3)] by auto
  have "tx_fk s (as_leg dir j t)"
    using assms(2,4) t by (auto simp: refs_ok_def tx_fk_def fk_ok_def as_leg_def get_tx_def)
  moreover have "\<not> same_occurrence u (as_leg dir j t)"
    if "u \<in> set (transactions s)" "tx_id u \<noteq> tx_id (as_leg dir j t)" for u
    using assms(1) t that unfolding ledger_ok_def same_occurrence_def
    by (metis as_leg_simps(1,8) as_leg_planned)
  ultimately show ?thesis by (simp add: save_tx_def tx_allowed_def tx_check_def)
qed

definition linked_pair :: "db \<Rightarrow> transfer_pair_suggestion \<Rightarrow> bool" where
  "linked_pair s p \<longleftrightarrow> (\<exists>a b. get_tx s (tps_outgoing_id p) = Some a \<and> get_tx s (tps_incoming_id p) = Some b \<and>
     tx_type a = TRANSFER \<and> tx_type b = TRANSFER \<and>
     tx_linked_id a = Some (tps_incoming_id p) \<and> tx_linked_id b = Some (tps_outgoing_id p))"

text \<open>What an admissible pair needs to be accepted in a later state: its two rows as they were.\<close>

lemma accept_effect:
  assumes ok: "ledger_ok u" "refs_ok u" and acc: "accounts u = accounts s"
    and xy: "could_be_transfer max_days tol date_from date_to s x y" "tx_id x \<noteq> tx_id y"
    and g: "get_tx u (tx_id x) = Some x" "get_tx u (tx_id y) = Some y"
  obtains u' where "accept_transfer_pair e (tx_id x) (tx_id y) tol u = Inr u'"
    "ledger_ok u'" "refs_ok u'" "accounts u' = accounts u" "dismissed_pairs u' = dismissed_pairs u"
    "\<And>i. i \<noteq> tx_id x \<Longrightarrow> i \<noteq> tx_id y \<Longrightarrow> get_tx u' i = get_tx u i"
    "linked_pair u' (from_legs s x y)"
proof -
  obtain u1 where s1: "save_tx (env_now e) (as_leg DIR_OUT (tx_id y) x) u = Inr u1"
    using as_leg_saves [OF ok g(1)] g(2) by fastforce
  have ok1: "ledger_ok u1" "refs_ok u1" using ledger_ok_save refs_ok_save ok s1 by blast+
  have g1: "get_tx u1 (tx_id x) \<noteq> None" "get_tx u1 (tx_id y) = Some y"
    using get_tx_save [OF s1] g xy(2) by simp_all
  obtain u2 where s2: "save_tx (env_now e) (as_leg DIR_IN (tx_id x) y) u1 = Inr u2"
    using as_leg_saves [OF ok1 g1(2,1)] by blast
  have g2: "get_tx u2 (tx_id x) = Some (touch (env_now e) x (as_leg DIR_OUT (tx_id y) x))"
    "get_tx u2 (tx_id y) = Some (touch (env_now e) y (as_leg DIR_IN (tx_id x) y))"
    using get_tx_save [OF s2] get_tx_save [OF s1] g xy(2) g1 by simp_all
  have "account_currency u z = account_currency s z" for z
    by (simp add: account_currency_def get_account_def acc)
  moreover have "\<bar>\<bar>tx_amount x\<bar> - \<bar>tx_amount y\<bar>\<bar> \<le> \<bar>tx_amount x - tx_amount y\<bar>" by (rule abs_triangle_ineq3)
  ultimately have "validate_transfer_pair u x y tol = Inr ()"
    using xy(1) by (simp add: validate_transfer_pair_def leg_free_def could_be_transfer_def pairable_def
        opposite_def free_row_def raise_if_def)
  then have "accept_transfer_pair e (tx_id x) (tx_id y) tol u = Inr u2"
    using g xy(2) s1 s2 g2 by (simp add: accept_transfer_pair_def pair_as_transfer_def)
  moreover have "ledger_ok u2" "refs_ok u2" using ledger_ok_save refs_ok_save ok1 s2 by blast+
  moreover have "accounts u2 = accounts u" "dismissed_pairs u2 = dismissed_pairs u"
    using save_tx_Inr(1) [OF s1] save_tx_Inr(1) [OF s2] by simp_all
  moreover have "get_tx u2 i = get_tx u i" if "i \<noteq> tx_id x" "i \<noteq> tx_id y" for i
    using that get_tx_save [OF s1, of i] get_tx_save [OF s2, of i] by simp
  moreover have "linked_pair u2 (from_legs s x y)"
    using g2 by (simp add: linked_pair_def from_legs_def)
  ultimately show thesis by (rule that)
qed

lemma accept_all_effect:
  assumes "ledger_ok u" and "refs_ok u" and "accounts u = accounts s"
    and "distinct (concat (map suggested_ids ps))"
    and "\<And>p. p \<in> set ps \<Longrightarrow> \<exists>x y. p = from_legs s x y \<and> could_be_transfer max_days tol date_from date_to s x y \<and>
      get_tx u (tx_id x) = Some x \<and> get_tx u (tx_id y) = Some y"
  shows "\<exists>u'. accept_all e tol ps u = (Inr (), u') \<and> ledger_ok u' \<and> accounts u' = accounts u \<and>
    dismissed_pairs u' = dismissed_pairs u \<and>
    (\<forall>i. i \<notin> set (concat (map suggested_ids ps)) \<longrightarrow> get_tx u' i = get_tx u i) \<and>
    (\<forall>p \<in> set ps. linked_pair u' p)"
  using assms
proof (induction ps arbitrary: u)
  case Nil
  then show ?case by simp
next
  case (Cons p ps)
  obtain x y where p: "p = from_legs s x y" and c: "could_be_transfer max_days tol date_from date_to s x y"
    and g: "get_tx u (tx_id x) = Some x" "get_tx u (tx_id y) = Some y"
    using Cons.prems(5) [of p] by auto
  have ids: "suggested_ids p = [tx_id x, tx_id y]" by (simp add: p suggested_ids_def from_legs_def)
  have ne: "tx_id x \<noteq> tx_id y" and fresh: "tx_id x \<notin> set (concat (map suggested_ids ps))"
      "tx_id y \<notin> set (concat (map suggested_ids ps))"
    and dist: "distinct (concat (map suggested_ids ps))"
    using Cons.prems(4) unfolding list.map concat.simps ids by simp_all
  obtain v where v: "accept_transfer_pair e (tx_id x) (tx_id y) tol u = Inr v"
    "ledger_ok v" "refs_ok v" "accounts v = accounts u" "dismissed_pairs v = dismissed_pairs u"
    "\<And>i. i \<noteq> tx_id x \<Longrightarrow> i \<noteq> tx_id y \<Longrightarrow> get_tx v i = get_tx u i" "linked_pair v p"
    using accept_effect [OF Cons.prems(1-3) c ne g, of e] unfolding p by blast
  have "\<exists>a b. q = from_legs s a b \<and> could_be_transfer max_days tol date_from date_to s a b \<and>
      get_tx v (tx_id a) = Some a \<and> get_tx v (tx_id b) = Some b" if q: "q \<in> set ps" for q
  proof -
    obtain a b where ab: "q = from_legs s a b" "could_be_transfer max_days tol date_from date_to s a b"
      "get_tx u (tx_id a) = Some a" "get_tx u (tx_id b) = Some b"
      using Cons.prems(5) [of q] q by auto
    have "set (suggested_ids q) \<subseteq> set (concat (map suggested_ids ps))" using q by auto
    then have "tx_id a \<notin> {tx_id x, tx_id y}" "tx_id b \<notin> {tx_id x, tx_id y}"
      using fresh ab(1) by (auto simp: suggested_ids_def from_legs_def)
    then have "get_tx v (tx_id a) = Some a" "get_tx v (tx_id b) = Some b" using ab(3,4) v(6) by simp_all
    with ab(1,2) show ?thesis by blast
  qed
  then obtain u' where u': "accept_all e tol ps v = (Inr (), u')" "ledger_ok u'" "accounts u' = accounts v"
    "dismissed_pairs u' = dismissed_pairs v"
    "\<forall>i. i \<notin> set (concat (map suggested_ids ps)) \<longrightarrow> get_tx u' i = get_tx v i" "\<forall>p \<in> set ps. linked_pair u' p"
    using Cons.IH [OF v(2,3) _ dist] v(4) Cons.prems(3) by metis
  have "linked_pair u' p"
    using v(7) u'(5) fresh by (simp add: linked_pair_def p from_legs_def)
  moreover have "accept_all e tol (p # ps) u = (Inr (), u')"
    using v(1) u'(1) by (simp add: p from_legs_def)
  moreover have "get_tx u' i = get_tx u i" if "i \<notin> set (concat (map suggested_ids (p # ps)))" for i
    using that u'(5) v(6) [of i] by (simp add: ids)
  ultimately show ?case using u' v(4,5) by (intro exI [of _ u']) simp
qed

text \<open>
  C31. "Accept all" works and finishes the review: on a ledger whose references resolve, every suggested
  pair is linked (none is refused), the rows of no pair are untouched, and asking again with the same
  window and tolerances suggests nothing.
\<close>

theorem accept_all_finishes_the_review:
  assumes "ledger_ok s" and "refs_ok s"
  shows "\<exists>s'. detect_and_link_transfers e max_days tol date_from date_to s =
      (Inr (length (suggest_transfer_pairs max_days tol date_from date_to s)), s') \<and>
    (\<forall>p \<in> set (suggest_transfer_pairs max_days tol date_from date_to s). linked_pair s' p) \<and>
    (\<forall>i. i \<notin> set (concat (map suggested_ids (suggest_transfer_pairs max_days tol date_from date_to s))) \<longrightarrow>
      get_tx s' i = get_tx s i) \<and>
    suggest_transfer_pairs max_days tol date_from date_to s' = []"
proof -
  let ?ps = "suggest_transfer_pairs max_days tol date_from date_to s"
  have "\<exists>x y. p = from_legs s x y \<and> could_be_transfer max_days tol date_from date_to s x y \<and>
      get_tx s (tx_id x) = Some x \<and> get_tx s (tx_id y) = Some y" if p: "p \<in> set ?ps" for p
  proof -
    obtain c where "c \<in> set (chosen max_days tol date_from date_to s)"
      "p = from_legs s (tcd_outgoing c) (tcd_incoming c)"
      using p unfolding set_suggestions by blast
    then show ?thesis using chosen_sound [OF assms(1)] could_be_transfer_ids(2,3) [OF assms(1)] by metis
  qed
  then obtain s' where s': "accept_all e tol ?ps s = (Inr (), s')" "ledger_ok s'" "accounts s' = accounts s"
    "dismissed_pairs s' = dismissed_pairs s"
    "\<forall>i. i \<notin> set (concat (map suggested_ids ?ps)) \<longrightarrow> get_tx s' i = get_tx s i" "\<forall>p \<in> set ?ps. linked_pair s' p"
    using accept_all_effect [OF assms refl suggestions_distinct [OF assms(1)]] by blast
  have kept: "z \<in> set (transactions s) \<and> tx_id z \<notin> set (concat (map suggested_ids ?ps))"
    if z: "free_row date_from date_to s' z" for z
  proof -
    have gz: "get_tx s' (tx_id z) = Some z"
      using z s'(2) find_row_member by (auto simp: free_row_def ledger_ok_def ids_ok_def get_tx_def)
    have "tx_id z \<notin> set (suggested_ids p)" if "p \<in> set ?ps" for p
      using s'(6) that gz z by (auto simp: linked_pair_def suggested_ids_def free_row_def)
    then have out: "tx_id z \<notin> set (concat (map suggested_ids ?ps))" by auto
    then have "get_tx s (tx_id z) = Some z" using s'(5) gz by simp
    with out show ?thesis by (auto dest: get_tx_Some)
  qed
  have "\<not> could_be_transfer max_days tol date_from date_to s' x y" for x y
  proof
    assume c': "could_be_transfer max_days tol date_from date_to s' x y"
    then have f: "free_row date_from date_to s' x" "free_row date_from date_to s' y"
      by (simp_all add: could_be_transfer_def)
    have "could_be_transfer max_days tol date_from date_to s x y"
      using c' kept [OF f(1)] kept [OF f(2)] s'(3,4)
      by (simp add: could_be_transfer_def free_row_def pairable_def account_currency_def get_account_def
          dismissed_transfer_pairs_def)
    then obtain c where "c \<in> set (chosen max_days tol date_from date_to s)"
      "set (legs c) \<inter> {tx_id x, tx_id y} \<noteq> {}"
      by (rule chosen_stable [OF assms(1)])
    then show False using kept [OF f(1)] kept [OF f(2)]
      by (auto simp: set_suggestions suggested_ids_def from_legs_def legs_def)
  qed
  then have "set (suggest_transfer_pairs max_days tol date_from date_to s') = {}"
    using chosen_sound [OF s'(2)] unfolding set_suggestions by (metis equals0I image_is_empty)
  with s' show ?thesis by (simp add: detect_and_link_transfers_def)
qed

lemma ex_pair_refs_ok: "refs_ok ex_pair_db"
  by (simp add: refs_ok_def tx_fk_def fk_ok_def ex_pair_db_def ex_defs)

theorem accept_all_finishes_the_review_witness:
  "\<exists>s'. detect_and_link_transfers ex_env 3 (1 / 100) None None ex_pair_db = (Inr 1, s') \<and>
    suggest_transfer_pairs 3 (1 / 100) None None s' = []"
proof -
  have "length (suggest_transfer_pairs 3 (1 / 100) None None ex_pair_db) = 1" by code_simp
  then show ?thesis
    using accept_all_finishes_the_review [OF ex_pair_ledger_ok ex_pair_refs_ok, of ex_env 3 "1 / 100" None None]
    by auto
qed

text \<open>A dismissed pair is not suggested again, whichever way round it was offered.\<close>

lemma dismissed_pair_stays_away:
  assumes "ledger_ok s" and "dismiss_transfer_pair i j s = Inr s'"
  shows "p \<in> set (suggest_transfer_pairs max_days tol date_from date_to s') \<Longrightarrow> set (suggested_ids p) \<noteq> {i, j}"
proof
  assume p: "p \<in> set (suggest_transfer_pairs max_days tol date_from date_to s')" and eq: "set (suggested_ids p) = {i, j}"
  have "pair_key i j \<in> dismissed_transfer_pairs s'" and tx: "transactions s' = transactions s" "seq_tx s' = seq_tx s"
    using assms(2) by (auto simp: dismiss_transfer_pair_def dismissed_transfer_pairs_def filter_eq_Cons_iff
        split: prod.splits list.splits if_splits)
  moreover have ok: "ledger_ok s'" using assms(1) tx by (simp add: ledger_ok_def)
  ultimately obtain x y where "p = from_legs s' x y" "could_be_transfer max_days tol date_from date_to s' x y"
    using p chosen_sound [OF ok] unfolding set_suggestions by blast
  moreover from this eq have "pair_key (tx_id x) (tx_id y) = pair_key i j"
    by (auto simp: suggested_ids_def from_legs_def pair_key_def doubleton_eq_iff)
  ultimately show False using \<open>pair_key i j \<in> dismissed_transfer_pairs s'\<close>
    by (simp add: could_be_transfer_def pairable_def)
qed

end
