(* ===== verification/ImportLedger.thy ===== *)
theory ImportLedger
  imports Transactions Rules
begin

text \<open>
  From the parsed rows of a bank statement to the ledger (\<open>src/src/kaleta/services/import_service.py\<close> and the
  import of one queued file in \<open>src/src/kaleta/views/import_view/page.py\<close>): the rows are turned into payloads,
  the ones already in the ledger are set aside, categorisation rules are applied and the rest is inserted
  in bulk. A cell of a row is \<open>None\<close> where the file's line was too short. Texts are ASCII; the non-ASCII
  literals of the code are written as their UTF-8 bytes.
\<close>

section \<open>Definitions\<close>

subsection \<open>Rows\<close>

text \<open>What \<open>Decimal(text)\<close> can return.\<close>

datatype number = Finite decimal | Infinite bool | Quiet_nan | Signaling_nan

fun number_ge_0 :: "number \<Rightarrow> bool result" where
  "number_ge_0 (Finite x) = Inr (0 \<le> x)"
| "number_ge_0 (Infinite positive) = Inr positive"
| "number_ge_0 _ = Inl InvalidOperation"

type_synonym raw_row = "string \<rightharpoonup> string option"

record parsed_row =
  pr_date :: date
  pr_amount :: number
  pr_description :: string
  pr_raw :: raw_row
  pr_notes :: string

text \<open>\<open>raw.get(key, "").strip()\<close>, and \<open>(raw.get(key) or "").strip()\<close>\<close>

definition cell :: "raw_row \<Rightarrow> string \<Rightarrow> string result" where
  "cell raw key =
    (case raw key of None \<Rightarrow> Inr [] | Some None \<Rightarrow> Inl AttributeError | Some (Some v) \<Rightarrow> Inr (strip v))"

definition soft_cell :: "raw_row \<Rightarrow> string \<Rightarrow> string" where
  "soft_cell raw key = (case raw key of Some (Some v) \<Rightarrow> strip v | _ \<Rightarrow> [])"

definition counterparty_account_raw :: "raw_row \<Rightarrow> string result" where
  "counterparty_account_raw raw =
    ebind (cell raw ''Numer rachunku'') (\<lambda>a.
    if a \<noteq> [] then Inr a
    else ebind (cell raw ''Numer konta'') (\<lambda>b.
    if b \<noteq> [] then Inr b else cell raw ''counterparty_account''))"

definition build_known_account_digits :: "string option list \<Rightarrow> string set" where
  "build_known_account_digits numbers =
    set (concat (map (\<lambda>n. case n of None \<Rightarrow> [] | Some x \<Rightarrow> if x = [] then [] else [digits_only x]) numbers))"

definition is_counterparty_transfer :: "parsed_row \<Rightarrow> string set \<Rightarrow> bool result" where
  "is_counterparty_transfer row known =
    ebind (counterparty_account_raw (pr_raw row)) (\<lambda>raw.
      let counterparty = digits_only raw in Inr (counterparty \<noteq> [] \<and> counterparty \<in> known))"

definition classify_row_preview_type :: "parsed_row \<Rightarrow> string set \<Rightarrow> transaction_type result" where
  "classify_row_preview_type row known =
    ebind (is_counterparty_transfer row known) (\<lambda>own.
    if own then Inr TRANSFER
    else ebind (number_ge_0 (pr_amount row)) (\<lambda>pos. Inr (if pos then INCOME else EXPENSE)))"

record row_type_counts =
  rtc_expense :: nat
  rtc_income :: nat
  rtc_transfer :: nat

fun count_one :: "transaction_type \<Rightarrow> row_type_counts \<Rightarrow> row_type_counts" where
  "count_one TRANSFER c = c\<lparr>rtc_transfer := rtc_transfer c + 1\<rparr>"
| "count_one INCOME c = c\<lparr>rtc_income := rtc_income c + 1\<rparr>"
| "count_one EXPENSE c = c\<lparr>rtc_expense := rtc_expense c + 1\<rparr>"

definition count_row_types :: "parsed_row list \<Rightarrow> string set \<Rightarrow> row_type_counts result" where
  "count_row_types rows known =
    efold (\<lambda>row c. ebind (classify_row_preview_type row known) (\<lambda>ty. Inr (count_one ty c))) rows
      \<lparr>rtc_expense = 0, rtc_income = 0, rtc_transfer = 0\<rparr>"

subsection \<open>Payloads\<close>

text \<open>
  The field constraints of \<open>TransactionCreate\<close> on an amount and a description, then its model validator. A
  value that is not finite is no decimal to pydantic.
\<close>

fun checked_payload :: "number \<Rightarrow> (decimal \<Rightarrow> transaction_create) \<Rightarrow> transaction_create result" where
  "checked_payload (Finite x) payload =
    raise_if (\<not> cents x \<or> 500 < length (tc_description (payload \<bar>x\<bar>))) ValueError
      (validate_rules (payload \<bar>x\<bar>))"
| "checked_payload _ payload = Inl ValueError"

definition plain_payload ::
  "int \<Rightarrow> int option \<Rightarrow> int option \<Rightarrow> transaction_type \<Rightarrow> date \<Rightarrow> string \<Rightarrow> string option \<Rightarrow> decimal \<Rightarrow>
    transaction_create" where
  "plain_payload account_id category_id payee_id ty d description notes amount =
    \<lparr>tc_account_id = account_id, tc_category_id = category_id, tc_payee_id = payee_id, tc_amount = amount,
     tc_exchange_rate = None, tc_type = ty, tc_direction = None, tc_date = d, tc_description = description,
     tc_notes = notes, tc_is_internal = False, tc_is_split = False, tc_linked_id = None,
     tc_planned_id = None, tc_splits = [], tc_tag_ids = [], tc_payee_name = None\<rparr>"

definition row_payload ::
  "int \<Rightarrow> int option \<Rightarrow> int option \<Rightarrow> int option \<Rightarrow> number \<Rightarrow> date \<Rightarrow> string \<Rightarrow> string option \<Rightarrow>
    transaction_create result" where
  "row_payload account_id expense_cat income_cat payee_id amount d description notes =
    ebind (number_ge_0 amount) (\<lambda>pos.
      let ty = (if pos then INCOME else EXPENSE);
          category_id = (if ty = INCOME then income_cat else expense_cat)
      in checked_payload amount (plain_payload account_id category_id payee_id ty d description notes))"

definition to_transaction_creates ::
  "parsed_row list \<Rightarrow> int \<Rightarrow> int option \<Rightarrow> int option \<Rightarrow> transaction_create list result" where
  "to_transaction_creates rows account_id expense_cat income_cat =
    emap (\<lambda>row. row_payload account_id expense_cat income_cat None (pr_amount row) (pr_date row)
      (pr_description row) (Some (pr_notes row))) rows"

subsection \<open>Descriptions of mBank rows\<close>

text \<open>\<open>re.sub(r"\s{2,}", " ", s)\<close>: a run of two or more becomes one blank, a single one stays as it is.\<close>

function squeeze :: "string \<Rightarrow> string" where
  "squeeze [] = []"
| "squeeze [c] = [c]"
| "squeeze (c # d # cs) =
    (if is_space c \<and> is_space d then CHR '' '' # squeeze (dropWhile is_space cs) else c # squeeze (d # cs))"
  by pat_completeness auto
termination
proof (relation "measure length")
  fix c d :: char and cs
  have "length (dropWhile is_space cs) \<le> length cs" by (rule length_dropWhile_le)
  then show "(dropWhile is_space cs, c # d # cs) \<in> measure length" by simp
qed simp_all

definition ends_in_date :: "string \<Rightarrow> bool" where
  "ends_in_date s \<longleftrightarrow> 10 \<le> length s \<and>
    map is_digit (last_n 10 s) = [True, True, True, True, False, True, True, False, True, True] \<and>
    last_n 10 s ! 4 = CHR ''-'' \<and> last_n 10 s ! 7 = CHR ''-''"

definition rstrip :: "string \<Rightarrow> string" where
  "rstrip s = rev (dropWhile is_space (rev s))"

text \<open>\<open>re.sub(r"\s+DATA TRANSAKCJI:\s*\d{4}-\d{2}-\d{2}$", "", text).strip()\<close> on a stripped text\<close>

definition drop_transaction_date :: "string \<Rightarrow> string" where
  "drop_transaction_date s =
    (let label = ''DATA TRANSAKCJI:'';
         before = rstrip (take (length s - 10) s);
         stem = take (length before - length label) before
     in if ends_in_date s \<and> ends_with before label \<and> stem \<noteq> [] \<and> is_space (last stem)
        then strip stem else s)"

definition clean_cell :: "raw_row \<Rightarrow> string \<Rightarrow> string result" where
  "clean_cell raw key =
    (case raw key of
       None \<Rightarrow> Inr [] | Some None \<Rightarrow> Inl TypeError
     | Some (Some v) \<Rightarrow> Inr (drop_transaction_date (strip (squeeze v))))"

definition tytul_key :: string where
  "tytul_key = ''Tytu'' @ [char_of (197 :: nat), char_of (130 :: nat)]"

definition em_dash :: string where
  "em_dash = [char_of (226 :: nat), char_of (128 :: nat), char_of (148 :: nat)]"

definition build_mbank_description :: "raw_row \<Rightarrow> string result" where
  "build_mbank_description raw =
    ebind (clean_cell raw ''Opis operacji'') (\<lambda>opis.
    ebind (clean_cell raw tytul_key) (\<lambda>tytul.
    ebind (clean_cell raw ''Nadawca/Odbiorca'') (\<lambda>payee.
    Inr (if payee \<noteq> [] \<and> tytul \<noteq> [] then payee @ '' '' @ em_dash @ '' '' @ tytul
         else if payee \<noteq> [] then payee else if tytul \<noteq> [] then tytul else opis))))"

text \<open>The body of the loop of \<open>to_transaction_creates_with_payees\<close>, which also creates payees.\<close>

definition mbank_create ::
  "(string \<Rightarrow> string) \<Rightarrow> int \<Rightarrow> int option \<Rightarrow> int option \<Rightarrow> string set \<Rightarrow> parsed_row \<Rightarrow>
    transaction_create list \<times> db \<Rightarrow> (transaction_create list \<times> db) result" where
  "mbank_create hmac account_id expense_cat income_cat known row = (\<lambda>(creates, s).
    ebind (build_mbank_description (pr_raw row)) (\<lambda>description.
    ebind (cell (pr_raw row) ''Nadawca/Odbiorca'') (\<lambda>payee_raw.
    ebind (if payee_raw = [] then Inr (None, s)
           else ebind (match_or_create_from_name hmac payee_raw s) (\<lambda>(p, s1). Inr (Some (pay_id p), s1)))
      (\<lambda>(payee_id, s1).
    ebind (is_counterparty_transfer row known) (\<lambda>own.
    ebind (if own
           then ebind (number_ge_0 (pr_amount row)) (\<lambda>pos.
             checked_payload (pr_amount row) (\<lambda>x.
               (plain_payload account_id None payee_id TRANSFER (pr_date row) description None x)
                 \<lparr>tc_direction := Some (if pos then DIR_IN else DIR_OUT), tc_is_internal := True\<rparr>))
           else row_payload account_id expense_cat income_cat payee_id (pr_amount row) (pr_date row)
                  description None)
      (\<lambda>c. Inr (creates @ [c], s1)))))))"

definition to_transaction_creates_with_payees ::
  "(string \<Rightarrow> string) \<Rightarrow> parsed_row list \<Rightarrow> int \<Rightarrow> int option \<Rightarrow> int option \<Rightarrow> string set \<Rightarrow> db \<Rightarrow>
    (transaction_create list \<times> db) result" where
  "to_transaction_creates_with_payees hmac rows account_id expense_cat income_cat known s =
    efold (mbank_create hmac account_id expense_cat income_cat known) rows ([], s)"

subsection \<open>Categorisation rules\<close>

definition apply_rule_to :: "categorisation_rule list \<Rightarrow> (int \<rightharpoonup> string) \<Rightarrow> transaction_create \<Rightarrow> transaction_create" where
  "apply_rule_to rules names c =
    (if tc_is_internal c \<or> tc_type c = TRANSFER then c
     else let payee_name = (case tc_payee_id c of None \<Rightarrow> None | Some i \<Rightarrow> if i = 0 then None else names i)
          in case first_match payee_name (tc_description c) rules of
               None \<Rightarrow> c
             | Some k \<Rightarrow> if Some k \<noteq> tc_category_id c then c\<lparr>tc_category_id := Some k\<rparr> else c)"

definition apply_categorisation_rules :: "transaction_create list \<Rightarrow> db \<Rightarrow> transaction_create list" where
  "apply_categorisation_rules creates s =
    (if creates = [] then creates
     else let rules = list_rules True s
          in if rules = [] then creates
             else let ids = set (concat (map (\<lambda>c. case tc_payee_id c of None \<Rightarrow> [] | Some i \<Rightarrow> [i]) creates));
                      names = map_of (map (\<lambda>p. (pay_id p, pay_name p)) (filter (\<lambda>p. pay_id p \<in> ids) (payees s)))
                  in map (apply_rule_to rules names) creates)"

subsection \<open>Duplicates\<close>

definition find_duplicate :: "int \<Rightarrow> date \<Rightarrow> decimal \<Rightarrow> string \<Rightarrow> db \<Rightarrow> bool" where
  "find_duplicate account_id d amount description s =
    list_ex (\<lambda>found. found = description)
      (map tx_description (filter (\<lambda>t. tx_account_id t = account_id \<and> tx_date t = d \<and> tx_amount t = amount)
        (transactions s)))"

definition is_duplicate :: "db \<Rightarrow> transaction_create \<Rightarrow> bool" where
  "is_duplicate s c = find_duplicate (tc_account_id c) (tc_date c) (tc_amount c) (tc_description c) s"

primrec filter_loop ::
  "db \<Rightarrow> transaction_create list \<Rightarrow> transaction_create list \<times> transaction_create list \<Rightarrow>
    transaction_create list \<times> transaction_create list" where
  "filter_loop s [] acc = acc"
| "filter_loop s (c # cs) acc =
    filter_loop s cs (if is_duplicate s c then (fst acc, snd acc @ [c]) else (fst acc @ [c], snd acc))"

definition filter_duplicates ::
  "transaction_create list \<Rightarrow> db \<Rightarrow> transaction_create list \<times> transaction_create list" where
  "filter_duplicates creates s = filter_loop s creates ([], [])"

subsection \<open>Import runs\<close>

record import_run =
  run_id :: int
  run_account_id :: int
  run_filename :: string
  run_profile :: string
  run_imported_count :: nat
  run_skipped_count :: nat
  run_date_min :: "date option"
  run_date_max :: "date option"
  run_created_at :: int

text \<open>The tables of \<open>db\<close> and the \<open>import_runs\<close> table, which only the import uses.\<close>

record import_state =
  is_db :: db
  is_runs :: "import_run list"
  seq_run :: int

definition record_import_run ::
  "env \<Rightarrow> int \<Rightarrow> string \<Rightarrow> string \<Rightarrow> nat \<Rightarrow> nat \<Rightarrow> date option \<Rightarrow> date option \<Rightarrow> import_state \<Rightarrow> import_state result" where
  "record_import_run e account_id filename profile imported skipped date_min date_max st =
    raise_if (\<not> has_account (is_db st) account_id) (IntegrityError ''import_runs'')
      (Inr (st\<lparr>is_runs := is_runs st @ [\<lparr>run_id = seq_run st, run_account_id = account_id, run_filename = filename,
         run_profile = profile, run_imported_count = imported, run_skipped_count = skipped,
         run_date_min = date_min, run_date_max = date_max, run_created_at = env_now e\<rparr>],
         seq_run := seq_run st + 1\<rparr>))"

text \<open>Newest first; the code leaves the order of equal times to the database.\<close>

definition list_recent_runs :: "nat \<Rightarrow> import_state \<Rightarrow> import_run list" where
  "list_recent_runs limit st = take limit (sort_key (\<lambda>r. - run_created_at r) (is_runs st))"

subsection \<open>Importing one queued file\<close>

record import_job =
  job_filename :: string
  job_profile :: string
  job_rows :: "parsed_row list"
  job_number_digits :: "string option"
  job_account_id :: int
  job_expense_cat :: int
  job_income_cat :: int
  job_skip_duplicates :: bool

definition least_date :: "date list \<Rightarrow> date option" where
  "least_date ds = (if ds = [] then None else Some (Min (set ds)))"

definition greatest_date :: "date list \<Rightarrow> date option" where
  "greatest_date ds = (if ds = [] then None else Some (Max (set ds)))"

definition job_creates ::
  "env \<Rightarrow> string set \<Rightarrow> import_job \<Rightarrow> db \<Rightarrow> (transaction_create list \<times> db) result" where
  "job_creates e known job s =
    (if job_profile job = ''mbank''
     then to_transaction_creates_with_payees (env_hmac e) (job_rows job) (job_account_id job)
            (Some (job_expense_cat job)) (Some (job_income_cat job)) known s
     else ebind (to_transaction_creates (job_rows job) (job_account_id job)
            (Some (job_expense_cat job)) (Some (job_income_cat job))) (\<lambda>creates. Inr (creates, s)))"

text \<open>\<open>_persist\<close>: one session, rolled back when anything raises.\<close>

definition persist_import ::
  "env \<Rightarrow> string set \<Rightarrow> import_job \<Rightarrow> import_state \<Rightarrow>
    ((nat \<times> transaction_create list) \<times> import_state) result" where
  "persist_import e known job st =
    ebind (job_creates e known job (is_db st)) (\<lambda>(creates, s1).
    let (unique, skipped) = (if job_skip_duplicates job then filter_duplicates creates s1 else (creates, []));
        final = apply_categorisation_rules unique s1;
        dates = map tc_date final
    in ebind (record_import_run e (job_account_id job) (job_filename job) (job_profile job) (length final)
              (length skipped) (least_date dates) (greatest_date dates) (st\<lparr>is_db := s1\<rparr>)) (\<lambda>st1.
       ebind (create_bulk e final (is_db st1)) (\<lambda>(count, s2).
       let s3 = (case job_number_digits job of
                   None \<Rightarrow> s2
                 | Some digits \<Rightarrow> if job_profile job = ''mbank'' \<and> digits \<noteq> []
                                  then save_external_number (job_account_id job) digits s2 else s2)
       in Inr ((count, skipped), st1\<lparr>is_db := s3\<rparr>))))"

section \<open>Conversion\<close>

lemma cell_strip: "raw k = Some (Some v) \<Longrightarrow> cell raw k = Inr (strip v)"
  by (simp add: cell_def)

definition finite_amount :: "number \<Rightarrow> decimal" where
  "finite_amount n = (case n of Finite x \<Rightarrow> x | _ \<Rightarrow> 0)"

text \<open>The text a row's transaction gets, by the profile of its file.\<close>

definition row_text :: "import_job \<Rightarrow> parsed_row \<Rightarrow> string" where
  "row_text job row =
    (if job_profile job = ''mbank'' then (case build_mbank_description (pr_raw row) of Inr d \<Rightarrow> d | Inl _ \<Rightarrow> [])
     else pr_description row)"

text \<open>What the ledger keeps of a row: its day, its text and, through the type and the direction, its sign.\<close>

definition books_row :: "import_job \<Rightarrow> parsed_row \<Rightarrow> transaction_create \<Rightarrow> bool" where
  "books_row job row c \<longleftrightarrow>
    tc_account_id c = job_account_id job \<and> tc_date c = pr_date row \<and> tc_description c = row_text job row \<and>
    tc_amount c = \<bar>finite_amount (pr_amount row)\<bar> \<and> cents (tc_amount c) \<and>
    (\<forall>e. signed_ledger_amount (new_row e c) = finite_amount (pr_amount row))"

lemma checked_payload_Inr:
  assumes "checked_payload n f = Inr c"
  obtains x where "n = Finite x" "cents x" "c = f \<bar>x\<bar>"
proof (cases n)
  case (Finite x)
  with assms have "cents x" "validate_rules (f \<bar>x\<bar>) = Inr c" by (auto simp: raise_if_def split: if_splits)
  then show thesis
    using that Finite by (auto simp: validate_rules_def raise_if_def split: if_splits)
qed (use assms in simp_all)

lemma row_payload_books:
  assumes "row_payload (job_account_id job) ec ic pid (pr_amount row) (pr_date row) d notes = Inr c"
    and "d = row_text job row"
  shows "books_row job row c"
proof -
  obtain p where "number_ge_0 (pr_amount row) = Inr p"
    and c: "checked_payload (pr_amount row) (plain_payload (job_account_id job)
      (if (if p then INCOME else EXPENSE) = INCOME then ic else ec) pid (if p then INCOME else EXPENSE)
      (pr_date row) d notes) = Inr c"
    using assms(1) by (auto simp: row_payload_def ebind_Inr_iff Let_def)
  moreover from c obtain x where x: "pr_amount row = Finite x" "cents x"
    "c = plain_payload (job_account_id job) (if (if p then INCOME else EXPENSE) = INCOME then ic else ec) pid
      (if p then INCOME else EXPENSE) (pr_date row) d notes \<bar>x\<bar>"
    by (rule checked_payload_Inr)
  ultimately have "p = (0 \<le> x)" by simp
  with x assms(2) show ?thesis
    by (simp add: books_row_def finite_amount_def plain_payload_def cents_abs new_row_def signed_ledger_amount_def)
qed

lemma mbank_create_effect:
  assumes "mbank_create hmac (job_account_id job) ec ic known row (cs, s) = Inr (cs', s')"
    and "job_profile job = ''mbank''"
  shows "payee_frame s s' \<and> (\<exists>c. cs' = cs @ [c] \<and> books_row job row c)"
proof -
  from assms(1) obtain d praw pid own c where d: "build_mbank_description (pr_raw row) = Inr d"
    and p: "(if praw = [] then Inr (None, s)
           else ebind (match_or_create_from_name hmac praw s) (\<lambda>(p, s1). Inr (Some (pay_id p), s1))) = Inr (pid, s')"
    and c: "(if own
           then ebind (number_ge_0 (pr_amount row)) (\<lambda>pos.
             checked_payload (pr_amount row) (\<lambda>x.
               (plain_payload (job_account_id job) None pid TRANSFER (pr_date row) d None x)
                 \<lparr>tc_direction := Some (if pos then DIR_IN else DIR_OUT), tc_is_internal := True\<rparr>))
           else row_payload (job_account_id job) ec ic pid (pr_amount row) (pr_date row) d None) = Inr c"
    and cs: "cs' = cs @ [c]"
    unfolding mbank_create_def by (auto simp only: ebind_Inr_iff prod.case split_paired_Ex Inr_inject prod.inject)
  have dt: "d = row_text job row" using d assms(2) by (simp add: row_text_def)
  have "payee_frame s s'"
    using p match_or_create_payee_frame by (auto simp: ebind_Inr_iff split: if_splits)
  moreover have "books_row job row c"
  proof (cases own)
    case False
    with c show ?thesis by (intro row_payload_books [OF _ dt]) simp
  next
    case True
    with c obtain pos where pos: "number_ge_0 (pr_amount row) = Inr pos"
      and k: "checked_payload (pr_amount row) (\<lambda>x.
               (plain_payload (job_account_id job) None pid TRANSFER (pr_date row) d None x)
                 \<lparr>tc_direction := Some (if pos then DIR_IN else DIR_OUT), tc_is_internal := True\<rparr>) = Inr c"
      by (auto simp: ebind_Inr_iff)
    from k obtain x where x: "pr_amount row = Finite x" "cents x"
      "c = (plain_payload (job_account_id job) None pid TRANSFER (pr_date row) d None \<bar>x\<bar>)
        \<lparr>tc_direction := Some (if pos then DIR_IN else DIR_OUT), tc_is_internal := True\<rparr>"
      by (rule checked_payload_Inr)
    moreover have "pos = (0 \<le> x)" using pos x by simp
    ultimately show ?thesis using dt
      by (simp add: books_row_def finite_amount_def plain_payload_def cents_abs new_row_def signed_ledger_amount_def)
  qed
  ultimately show ?thesis using cs by blast
qed

text \<open>The tables an import reads when it looks for duplicates and books rows.\<close>

definition same_ledger :: "db \<Rightarrow> db \<Rightarrow> bool" where
  "same_ledger s s' \<longleftrightarrow> transactions s' = transactions s \<and> accounts s' = accounts s \<and> seq_tx s' = seq_tx s"

lemma payee_frame_same_ledger: "payee_frame s s' \<Longrightarrow> same_ledger s s'"
  by (simp add: same_ledger_def payee_frameD)

lemma mbank_loop_effect:
  assumes "efold (mbank_create hmac (job_account_id job) ec ic known) rows (cs, s) = Inr (cs', s')"
    and "job_profile job = ''mbank''"
  shows "same_ledger s s' \<and> (\<exists>ds. cs' = cs @ ds \<and> list_all2 (books_row job) rows ds)"
  using assms
proof (induction rows arbitrary: cs s)
  case Nil
  then show ?case by (simp add: same_ledger_def)
next
  case (Cons row rows)
  from Cons.prems(1) obtain cs1 s1 where
    st: "mbank_create hmac (job_account_id job) ec ic known row (cs, s) = Inr (cs1, s1)"
    and rest: "efold (mbank_create hmac (job_account_id job) ec ic known) rows (cs1, s1) = Inr (cs', s')"
    by (auto simp: ebind_Inr_iff)
  obtain c where c: "payee_frame s s1" "cs1 = cs @ [c]" "books_row job row c"
    using mbank_create_effect [OF st Cons.prems(2)] by blast
  from Cons.IH [OF rest Cons.prems(2)] obtain ds where "same_ledger s1 s'" "cs' = cs1 @ ds"
    "list_all2 (books_row job) rows ds" by blast
  then show ?case using c payee_frame_same_ledger [OF c(1)] by (auto simp: same_ledger_def)
qed

lemma job_creates_effect:
  assumes "job_creates e known job s = Inr (creates, s1)"
  shows "same_ledger s s1 \<and> list_all2 (books_row job) (job_rows job) creates"
proof (cases "job_profile job = ''mbank''")
  case True
  with assms mbank_loop_effect [of "env_hmac e" job _ _ known "job_rows job" "[]" s creates s1] show ?thesis
    by (auto simp: job_creates_def to_transaction_creates_with_payees_def)
next
  case False
  with assms have s1: "s1 = s" and l: "list_all2 (\<lambda>row c. row_payload (job_account_id job) (Some (job_expense_cat job))
      (Some (job_income_cat job)) None (pr_amount row) (pr_date row) (pr_description row) (Some (pr_notes row)) = Inr c)
      (job_rows job) creates"
    by (auto simp: job_creates_def to_transaction_creates_def ebind_Inr_iff emap_Inr_iff)
  from l have "list_all2 (books_row job) (job_rows job) creates"
    by (rule list_all2_mono) (erule row_payload_books, simp add: row_text_def False)
  with s1 show ?thesis by (simp add: same_ledger_def)
qed

section \<open>Duplicates and rules\<close>

lemma filter_loop_eq:
  "filter_loop s cs (u, k) = (u @ filter (\<lambda>c. \<not> is_duplicate s c) cs, k @ filter (is_duplicate s) cs)"
  by (induction cs arbitrary: u k) auto

lemma filter_duplicates_eq:
  "filter_duplicates cs s = (filter (\<lambda>c. \<not> is_duplicate s c) cs, filter (is_duplicate s) cs)"
  by (simp add: filter_duplicates_def filter_loop_eq)

text \<open>The row-level statement of "already in the ledger".\<close>

definition in_ledger :: "db \<Rightarrow> import_job \<Rightarrow> parsed_row \<Rightarrow> bool" where
  "in_ledger s job row \<longleftrightarrow> (\<exists>t \<in> set (transactions s). tx_account_id t = job_account_id job \<and>
     tx_date t = pr_date row \<and> tx_amount t = \<bar>finite_amount (pr_amount row)\<bar> \<and> tx_description t = row_text job row)"

lemma is_duplicate_iff: "books_row job row c \<Longrightarrow> is_duplicate s c \<longleftrightarrow> in_ledger s job row"
  unfolding is_duplicate_def find_duplicate_def in_ledger_def books_row_def
  by (simp add: list_ex_iff image_iff Bex_def conj_assoc, metis)

lemma same_ledger_in: "same_ledger s s' \<Longrightarrow> in_ledger s' job row = in_ledger s job row"
  by (simp add: in_ledger_def same_ledger_def)

lemma list_all2_filter:
  assumes "list_all2 P xs ys" and "\<And>x y. P x y \<Longrightarrow> Q x = R y"
  shows "list_all2 P (filter Q xs) (filter R ys)"
  using assms by (induction rule: list_all2_induct) auto

lemma apply_rule_frame:
  "tc_account_id (apply_rule_to rs ns c) = tc_account_id c" "tc_date (apply_rule_to rs ns c) = tc_date c"
  "tc_amount (apply_rule_to rs ns c) = tc_amount c" "tc_type (apply_rule_to rs ns c) = tc_type c"
  "tc_direction (apply_rule_to rs ns c) = tc_direction c"
  "tc_description (apply_rule_to rs ns c) = tc_description c"
  by (simp_all add: apply_rule_to_def Let_def split: option.split)

lemma signed_rule: "signed_ledger_amount (new_row e (apply_rule_to rs ns c)) = signed_ledger_amount (new_row e c)"
  by (simp add: apply_rule_frame new_row_def signed_ledger_amount_def)

lemma books_row_rule: "books_row job row c \<Longrightarrow> books_row job row (apply_rule_to rs ns c)"
  unfolding books_row_def apply_rule_frame signed_rule .

lemma rules_keep_books:
  assumes "list_all2 (books_row job) rows cs"
  shows "list_all2 (books_row job) rows (apply_categorisation_rules cs s)"
proof -
  have "list_all2 (books_row job) rows (map (apply_rule_to rs ns) cs)" for rs ns
    using assms by (auto simp: list.rel_map intro: list_all2_mono books_row_rule)
  then show ?thesis using assms by (simp only: apply_categorisation_rules_def Let_def split: if_split) blast
qed

text \<open>
  The rules give each new row the category that \<open>RuleService\<close> would match for it
  (\<open>match_category_id\<close>), and leave transfers alone.
\<close>

lemma rules_agree_with_matching:
  assumes "ids_ok pay_id n (payees s)"
    and "\<And>c. c \<in> set cs \<Longrightarrow> tc_payee_id c \<noteq> Some 0"
  shows "apply_categorisation_rules cs s = map (\<lambda>c.
    if tc_is_internal c \<or> tc_type c = TRANSFER then c
    else case match_category_id (Option.bind (tc_payee_id c) (\<lambda>i. map_option pay_name (get_payee s i)))
              (tc_description c) s of
           None \<Rightarrow> c | Some k \<Rightarrow> c\<lparr>tc_category_id := Some k\<rparr>) cs"
proof (cases "list_rules True s = []")
  case True
  then show ?thesis
    by (simp add: apply_categorisation_rules_def match_category_id_def map_idI)
next
  case False
  define ids where "ids = set (concat (map (\<lambda>c. case tc_payee_id c of None \<Rightarrow> [] | Some i \<Rightarrow> [i]) cs))"
  define names where "names = map_of (map (\<lambda>p. (pay_id p, pay_name p)) (filter (\<lambda>p. pay_id p \<in> ids) (payees s)))"
  have look: "names i = map_option pay_name (get_payee s i)" if "i \<in> ids" for i
  proof -
    have "map_of (map (\<lambda>p. (pay_id p, pay_name p)) (filter (\<lambda>p. pay_id p \<in> ids) ps)) i =
        map_option pay_name (find_row pay_id i ps)" for ps
      using that by (induction ps) auto
    then show ?thesis by (simp add: names_def get_payee_def)
  qed
  have "apply_rule_to (list_rules True s) names c = (if tc_is_internal c \<or> tc_type c = TRANSFER then c
    else case match_category_id (Option.bind (tc_payee_id c) (\<lambda>i. map_option pay_name (get_payee s i)))
              (tc_description c) s of
           None \<Rightarrow> c | Some k \<Rightarrow> c\<lparr>tc_category_id := Some k\<rparr>)" if c: "c \<in> set cs" for c
  proof -
    have "(case tc_payee_id c of None \<Rightarrow> None | Some i \<Rightarrow> if i = 0 then None else names i) =
      Option.bind (tc_payee_id c) (\<lambda>i. map_option pay_name (get_payee s i))"
    proof (cases "tc_payee_id c")
      case (Some i)
      then have "i \<in> ids" using c by (force simp: ids_def)
      moreover have "i \<noteq> 0" using assms(2) [OF c] Some by auto
      ultimately show ?thesis using Some look by simp
    qed simp
    then show ?thesis
      by (auto simp: apply_rule_to_def match_category_id_def Let_def split: option.split)
  qed
  then show ?thesis using False
    by (simp add: apply_categorisation_rules_def ids_def names_def Let_def)
qed

section \<open>Booking\<close>

lemma bulk_effect:
  assumes "efold (\<lambda>p u. ebind (insert_tx (new_row e p) u) (\<lambda>(t, v). Inr v)) ps s = Inr s'"
    and "books_ok s" and "\<forall>p \<in> set ps. cents (tc_amount p)"
  shows "books_ok s' \<and> accounts s' = accounts s \<and>
    (\<exists>rows. transactions s' = transactions s @ rows \<and> list_all2 (\<lambda>p t. \<exists>i. t = (new_row e p)\<lparr>tx_id := i\<rparr>) ps rows) \<and>
    (\<forall>a. has_account s a \<longrightarrow>
      balance s' a None = balance s a None + sum_list (map (\<lambda>p. tx_delta (new_row e p) a) ps))"
  using assms
proof (induction ps arbitrary: s)
  case Nil
  then show ?case by simp
next
  case (Cons p ps)
  from Cons.prems(1) obtain t u where i: "insert_tx (new_row e p) s = Inr (t, u)"
    and rest: "efold (\<lambda>p u. ebind (insert_tx (new_row e p) u) (\<lambda>(t, v). Inr v)) ps u = Inr s'"
    by (auto simp: ebind_Inr_iff)
  note ins = insert_tx_Inr [OF i]
  have c: "cents (tx_amount (new_row e p))" using Cons.prems(3) by (simp add: new_row_def)
  have ok: "books_ok u" by (rule books_ok_insert [OF Cons.prems(2) c i])
  obtain rows where ih: "books_ok s'" "accounts s' = accounts u" "transactions s' = transactions u @ rows"
    "list_all2 (\<lambda>p t. \<exists>i. t = (new_row e p)\<lparr>tx_id := i\<rparr>) ps rows"
    "\<forall>a. has_account u a \<longrightarrow>
      balance s' a None = balance u a None + sum_list (map (\<lambda>p. tx_delta (new_row e p) a) ps)"
    using Cons.IH [OF rest ok] Cons.prems(3) by auto
  have "has_account u a = has_account s a" for a using ins(2) by (simp add: has_account_def get_account_def)
  moreover have "balance u a None = balance s a None + tx_delta (new_row e p) a" if "has_account s a" for a
    using kaleta_ledger.ins_bal [OF Cons.prems(2) c that i] kaleta_ledger.ins_eff [OF i] by simp
  ultimately have "\<forall>a. has_account s a \<longrightarrow>
      balance s' a None = balance s a None + sum_list (map (\<lambda>p. tx_delta (new_row e p) a) (p # ps))"
    using ih(5) by (simp add: add.assoc)
  moreover have "transactions s' = transactions s @ (t # rows)" using ih(3) ins(2) by simp
  moreover have "list_all2 (\<lambda>p t. \<exists>i. t = (new_row e p)\<lparr>tx_id := i\<rparr>) (p # ps) (t # rows)"
    using ih(4) ins(1) by auto
  moreover have "accounts s' = accounts s" using ih(2) ins(2) by simp
  ultimately show ?case using ih(1) by blast
qed

lemma save_number_frame:
  "transactions (save_external_number i n s) = transactions s"
  "has_account (save_external_number i n s) a = has_account s a"
  by (auto simp: save_external_number_def has_account_def get_account_def find_row_upd_row split: option.split)

lemma balance_save_number:
  assumes "books_ok s"
  shows "books_ok (save_external_number i n s)" "balance (save_external_number i n s) a None = balance s a None"
proof -
  let ?s = "save_external_number i n s"
  show ok: "books_ok ?s"
    using assms
    by (auto simp: save_external_number_def books_ok_def ledger_ok_def money_ok_def dest!: set_upd_row_D
        split: option.split)
  then have m: "money_ok ?s" "money_ok s" using assms by (simp_all add: books_ok_def)
  show "balance ?s a None = balance s a None"
  proof (cases "get_account s a")
    case None
    then have "get_account ?s a = None" using save_number_frame(2) [of i n s a] by (simp add: has_account_def)
    with None show ?thesis by (simp add: balance_missing)
  next
    case (Some x)
    have "\<exists>y. get_account ?s a = Some y \<and> acc_opening y = acc_opening x"
      using Some by (auto simp: save_external_number_def get_account_def find_row_upd_row split: option.split)
    then obtain y where "get_account ?s a = Some y" "acc_opening y = acc_opening x" by blast
    then show ?thesis
      unfolding balance_eq [OF m(2) Some] balance_eq [OF m(1) \<open>get_account ?s a = Some y\<close>] sum_ledger_rows
      by (simp add: save_number_frame)
  qed
qed

text \<open>The rows of a job that are booked.\<close>

definition fresh_rows :: "db \<Rightarrow> import_job \<Rightarrow> parsed_row list" where
  "fresh_rows s job = filter (\<lambda>row. \<not> (job_skip_duplicates job \<and> in_ledger s job row)) (job_rows job)"

lemma persist_steps:
  assumes "persist_import e known job st = Inr ((n, skipped), st')"
  obtains creates s1 unique final s2 where
    "job_creates e known job (is_db st) = Inr (creates, s1)"
    "(unique, skipped) = (if job_skip_duplicates job then filter_duplicates creates s1 else (creates, []))"
    "final = apply_categorisation_rules unique s1" "n = length final" "has_account s1 (job_account_id job)"
    "efold (\<lambda>p u. ebind (insert_tx (new_row e p) u) (\<lambda>(t, v). Inr v)) final s1 = Inr s2"
    "is_db st' = s2 \<or> (\<exists>d. is_db st' = save_external_number (job_account_id job) d s2)"
proof -
  from assms obtain creates s1 where c: "job_creates e known job (is_db st) = Inr (creates, s1)"
    by (auto simp: persist_import_def ebind_Inr_iff)
  obtain unique sk where u: "(unique, sk) = (if job_skip_duplicates job then filter_duplicates creates s1 else (creates, []))"
    by (metis surj_pair)
  let ?final = "apply_categorisation_rules unique s1"
  from assms [unfolded persist_import_def c ebind_simps prod.case u [symmetric] Let_def]
  obtain st1 count s2 where r: "record_import_run e (job_account_id job) (job_filename job) (job_profile job)
        (length ?final) (length sk) (least_date (map tc_date ?final)) (greatest_date (map tc_date ?final))
        (st\<lparr>is_db := s1\<rparr>) = Inr st1"
    and b: "create_bulk e ?final (is_db st1) = Inr (count, s2)"
    and st': "(case job_number_digits job of None \<Rightarrow> s2
        | Some digits \<Rightarrow> if job_profile job = ''mbank'' \<and> digits \<noteq> []
            then save_external_number (job_account_id job) digits s2 else s2) = is_db st'" "count = n" "sk = skipped"
    by (auto simp: ebind_Inr_iff)
  have "is_db st1 = s1" "has_account s1 (job_account_id job)"
    using r by (auto simp: record_import_run_def raise_if_def split: if_splits)
  moreover have "is_db st' = s2 \<or> (\<exists>d. is_db st' = save_external_number (job_account_id job) d s2)"
    using st'(1) by (simp split: option.splits if_splits) metis
  moreover have "efold (\<lambda>p u. ebind (insert_tx (new_row e p) u) (\<lambda>(t, v). Inr v)) ?final (is_db st1) = Inr s2"
    "count = length ?final"
    using b by (auto simp: create_bulk_def ebind_Inr_iff)
  ultimately show thesis using that [OF c] u st' by simp
qed

lemma list_all2_left: "list_all2 P xs ys \<Longrightarrow> x \<in> set xs \<Longrightarrow> \<exists>y \<in> set ys. P x y"
  by (induction rule: list_all2_induct) auto

lemma list_all2_right: "list_all2 P xs ys \<Longrightarrow> y \<in> set ys \<Longrightarrow> \<exists>x \<in> set xs. P x y"
  by (induction rule: list_all2_induct) auto

lemma fresh_creates:
  assumes "job_creates e known job s = Inr (creates, s1)"
    and "(unique, skipped) = (if job_skip_duplicates job then filter_duplicates creates s1 else (creates, []))"
  shows "list_all2 (books_row job) (fresh_rows s job) (apply_categorisation_rules unique s1)"
    and "length unique + length skipped = length (job_rows job)"
proof -
  have sl: "same_ledger s s1" and l: "list_all2 (books_row job) (job_rows job) creates"
    using job_creates_effect [OF assms(1)] by blast+
  have "list_all2 (books_row job) (filter (\<lambda>row. \<not> in_ledger s job row) (job_rows job))
      (filter (\<lambda>c. \<not> is_duplicate s1 c) creates)"
    by (rule list_all2_filter [OF l]) (simp add: is_duplicate_iff same_ledger_in [OF sl])
  then have "list_all2 (books_row job) (fresh_rows s job) unique"
    using assms(2) l by (auto simp: fresh_rows_def filter_duplicates_eq split: if_splits)
  then show "list_all2 (books_row job) (fresh_rows s job) (apply_categorisation_rules unique s1)"
    by (rule rules_keep_books)
  have "length unique + length skipped = length creates"
    using assms(2) sum_length_filter_compl [of "is_duplicate s1" creates]
    by (auto simp: filter_duplicates_eq split: if_splits)
  then show "length unique + length skipped = length (job_rows job)"
    using list_all2_lengthD [OF l] by simp
qed

lemma length_apply_rules [simp]: "length (apply_categorisation_rules cs s) = length cs"
  by (simp add: apply_categorisation_rules_def Let_def)

lemma books_rowD:
  assumes "books_row job row p"
  shows "cents (tc_amount p)" and "tc_account_id p = job_account_id job"
    and "signed_ledger_amount (new_row e p) = finite_amount (pr_amount row)"
  using assms unfolding books_row_def by blast+

lemma books_row_delta:
  assumes "books_row job row p"
  shows "tx_delta (new_row e p) x = (if x = job_account_id job then finite_amount (pr_amount row) else 0)"
proof -
  have "tx_account_id (new_row e p) = job_account_id job" using books_rowD(2) [OF assms] by (simp add: new_row_def)
  then show ?thesis by (simp add: tx_delta_def books_rowD(3) [OF assms])
qed


definition ex_row :: "decimal \<Rightarrow> date \<Rightarrow> string \<Rightarrow> parsed_row" where
  "ex_row x d text = \<lparr>pr_date = d, pr_amount = Finite x, pr_description = text, pr_raw = Map.empty, pr_notes = []\<rparr>"

definition ex_job :: import_job where
  "ex_job = \<lparr>job_filename = ''july.csv'', job_profile = ''generic'',
     job_rows = [ex_row (- 12) (Date 2026 7 1) ''coffee'', ex_row 30 (Date 2026 7 2) ''refund''],
     job_number_digits = None, job_account_id = 1, job_expense_cat = 1, job_income_cat = 1,
     job_skip_duplicates = True\<rparr>"

definition ex_import_db :: db where
  "ex_import_db = ex_db\<lparr>transactions := [], seq_tx := 1, cat_rules := [],
     categories := [\<lparr>cat_id = 1, cat_name = ''misc'', cat_type = CAT_EXPENSE, cat_parent_id = None,
       cat_is_subscriptions_root = False\<rparr>]\<rparr>"

definition ex_import :: import_state where
  "ex_import = \<lparr>is_db = ex_import_db, is_runs = [], seq_run = 1\<rparr>"

lemmas ex_import_defs = ex_import_def ex_import_db_def ex_defs ex_job_def ex_row_def

lemma ex_import_ok: "books_ok (is_db ex_import)"
  by (simp add: ex_import_defs books_ok_def ledger_ok_def money_ok_def ids_ok_def cents_half)

lemma ex_import_succeeds: "succeeds (persist_import ex_env {} ex_job ex_import)"
  by code_simp


text \<open>Whether a row can be converted does not depend on the default categories.\<close>

lemma row_payload_other_categories:
  assumes "row_payload a (Some ec) (Some ic) pid n d text notes = Inr c"
  shows "\<exists>c'. row_payload a' (Some ec') (Some ic') pid n d text notes' = Inr c'"
proof -
  from assms obtain x where x: "n = Finite x" "cents x" "length text \<le> 500"
    by (cases n) (auto simp: row_payload_def ebind_Inr_iff Let_def plain_payload_def raise_if_def split: if_splits)
  then show ?thesis
    by (simp add: row_payload_def plain_payload_def raise_if_def validate_rules_def)
qed

lemma imported_rows_are_in_the_ledger:
  assumes "books_ok (is_db st)" and "persist_import e known job st = Inr ((n, skipped), st')"
  shows "\<forall>row \<in> set (job_rows job). in_ledger (is_db st') job row"
    and "has_account (is_db st') (job_account_id job)"
proof -
  let ?s = "is_db st" and ?t = "is_db st'"
  from assms(2) obtain creates s1 unique final s2 where c: "job_creates e known job ?s = Inr (creates, s1)"
    and u: "(unique, skipped) = (if job_skip_duplicates job then filter_duplicates creates s1 else (creates, []))"
    and f: "final = apply_categorisation_rules unique s1"
    and acc: "has_account s1 (job_account_id job)"
    and b: "efold (\<lambda>p u. ebind (insert_tx (new_row e p) u) (\<lambda>(t, v). Inr v)) final s1 = Inr s2"
    and st': "is_db st' = s2 \<or> (\<exists>d. is_db st' = save_external_number (job_account_id job) d s2)"
    by (rule persist_steps)
  have sl: "same_ledger ?s s1" using job_creates_effect [OF c] by blast
  have ok1: "books_ok s1" using assms(1) sl by (simp add: books_ok_def ledger_ok_def money_ok_def same_ledger_def)
  note rel = fresh_creates(1) [OF c u, folded f]
  have "\<forall>p \<in> set final. cents (tc_amount p)"
    using list_all2_right [OF rel] books_rowD(1) by blast
  note bulk = bulk_effect [OF b ok1 this]
  then obtain rows where rows: "transactions s2 = transactions s1 @ rows"
    "list_all2 (\<lambda>p t. \<exists>i. t = (new_row e p)\<lparr>tx_id := i\<rparr>) final rows" "accounts s2 = accounts s1" by blast
  have "has_account s2 a = has_account s1 a" for a using rows(3) by (simp add: has_account_def get_account_def)
  then have tt: "transactions ?t = transactions s2" "has_account ?t a = has_account s1 a" for a
    using st' save_number_frame by metis+
  have inl: "in_ledger ?t job row" if "row \<in> set (job_rows job)" for row
  proof (cases "row \<in> set (fresh_rows ?s job)")
    case True
    then obtain p where p0: "p \<in> set final" "books_row job row p" using list_all2_left [OF rel] by blast
    then obtain t where p: "books_row job row p" "t \<in> set rows" "\<exists>i. t = (new_row e p)\<lparr>tx_id := i\<rparr>"
      using list_all2_left [OF rows(2)] by blast
    then have "tx_account_id t = job_account_id job \<and> tx_date t = pr_date row \<and>
      tx_amount t = \<bar>finite_amount (pr_amount row)\<bar> \<and> tx_description t = row_text job row"
      by (auto simp: books_row_def new_row_def)
    then show ?thesis using p(2) by (auto simp: in_ledger_def tt rows(1))
  next
    case False
    then have "in_ledger ?s job row" using that by (simp add: fresh_rows_def)
    then show ?thesis using sl by (auto simp: in_ledger_def tt rows(1) same_ledger_def)
  qed
  then show "\<forall>row \<in> set (job_rows job). in_ledger (is_db st') job row" by blast
  show "has_account (is_db st') (job_account_id job)" using tt(2) acc by simp
qed

text \<open>
  C33. Importing again adds nothing. After an import into an account, a later file of the same account
  (not mBank's) whose rows all were in the first one, with duplicates skipped, imports no row and leaves
  every table but the list of runs as it is, whatever its default categories.
\<close>

theorem reimport_adds_nothing:
  assumes "books_ok (is_db st)" and "persist_import e known job st = Inr ((n, skipped), st')"
    and "job_profile job \<noteq> ''mbank''" and "job_profile job2 \<noteq> ''mbank''"
    and "job_account_id job2 = job_account_id job" and "set (job_rows job2) \<subseteq> set (job_rows job)"
    and "job_skip_duplicates job2"
  shows "\<exists>sk st''. persist_import e2 known2 job2 st' = Inr ((0, sk), st'') \<and>
    length sk = length (job_rows job2) \<and> is_db st'' = is_db st'"
proof -
  let ?t = "is_db st'"
  from assms(2) obtain creates s1 unique final s2 where c: "job_creates e known job (is_db st) = Inr (creates, s1)"
    by (rule persist_steps)
  have inl2: "in_ledger ?t job2 row" if "row \<in> set (job_rows job2)" for row
    using imported_rows_are_in_the_ledger(1) [OF assms(1,2)] that assms(3-6)
    by (fastforce simp: in_ledger_def row_text_def)
  have conv: "list_all2 (\<lambda>row k. row_payload (job_account_id job) (Some (job_expense_cat job)) (Some (job_income_cat job)) None
      (pr_amount row) (pr_date row) (pr_description row) (Some (pr_notes row)) = Inr k) (job_rows job) creates"
    using c assms(3) by (simp add: job_creates_def to_transaction_creates_def ebind_Inr_iff emap_Inr_iff)
  have "\<exists>cs2. to_transaction_creates (job_rows job2) (job_account_id job2) (Some (job_expense_cat job2))
      (Some (job_income_cat job2)) = Inr cs2"
    unfolding to_transaction_creates_def
  proof (rule emap_succeeds, rule ballI)
    fix row assume "row \<in> set (job_rows job2)"
    then have "row \<in> set (job_rows job)" using assms(6) by blast
    then obtain k where "row_payload (job_account_id job) (Some (job_expense_cat job)) (Some (job_income_cat job)) None
      (pr_amount row) (pr_date row) (pr_description row) (Some (pr_notes row)) = Inr k"
      using list_all2_left [OF conv] by blast
    then show "\<exists>k. row_payload (job_account_id job2) (Some (job_expense_cat job2)) (Some (job_income_cat job2)) None
      (pr_amount row) (pr_date row) (pr_description row) (Some (pr_notes row)) = Inr k"
      by (rule row_payload_other_categories)
  qed
  then obtain cs2 where "to_transaction_creates (job_rows job2) (job_account_id job2) (Some (job_expense_cat job2))
      (Some (job_income_cat job2)) = Inr cs2" by blast
  then have c2: "job_creates e2 known2 job2 ?t = Inr (cs2, ?t)" using assms(4) by (simp add: job_creates_def)
  then have l2: "list_all2 (books_row job2) (job_rows job2) cs2" using job_creates_effect by blast
  have "is_duplicate ?t k" if k: "k \<in> set cs2" for k
  proof -
    obtain row where "row \<in> set (job_rows job2)" "books_row job2 row k"
      using list_all2_right [OF l2 k] by blast
    then show ?thesis using inl2 is_duplicate_iff by blast
  qed
  then have "filter_duplicates cs2 ?t = ([], cs2)" by (simp add: filter_duplicates_eq)
  then show ?thesis
    using c2 assms(4,5,7) imported_rows_are_in_the_ledger(2) [OF assms(1,2)] list_all2_lengthD [OF l2]
    by (auto simp: persist_import_def apply_categorisation_rules_def record_import_run_def create_bulk_def
        raise_if_def split: option.split)
qed

theorem reimport_adds_nothing_witness:
  "\<exists>n sk st' sk' st''. persist_import ex_env {} ex_job ex_import = Inr ((n, sk), st') \<and>
    persist_import ex_env {} ex_job st' = Inr ((0, sk'), st'') \<and> length sk' = 2"
proof -
  obtain n sk st' where r: "persist_import ex_env {} ex_job ex_import = Inr ((n, sk), st')"
    using ex_import_succeeds by (metis succeedsE surj_pair)
  have j: "job_profile ex_job \<noteq> ''mbank''" "job_skip_duplicates ex_job" "length (job_rows ex_job) = 2"
    by (simp_all add: ex_job_def)
  from reimport_adds_nothing [OF ex_import_ok r j(1) j(1) refl subset_refl j(2)] r j(3) show ?thesis by metis
qed

section \<open>Where the import goes wrong\<close>

text \<open>
  The duplicate test compares the unsigned amount and not the type: a refund of the same amount on the same
  day under the same text is taken for the purchase and never booked.
\<close>

lemma refund_taken_for_duplicate:
  assumes "in_ledger s job row" and "books_row job row2 c" and "pr_date row2 = pr_date row"
    and "row_text job row2 = row_text job row"
    and "finite_amount (pr_amount row2) = - finite_amount (pr_amount row)"
  shows "is_duplicate s c"
  using assms is_duplicate_iff [OF assms(2), of s] by (simp add: in_ledger_def)

text \<open>
  An import stores only the last ten digits of the statement's account number, but the transfer test looks for
  the whole counterparty number in the set of stored ones: a transfer to the account, written with its
  full number on another statement, is never recognised.
\<close>

lemma known_digits_from:
  "d \<in> build_known_account_digits numbers \<Longrightarrow> \<exists>x. Some x \<in> set numbers \<and> d = digits_only x"
  by (induction numbers) (auto simp: build_known_account_digits_def split: option.splits if_splits)

lemma length_last_n: "length (last_n n xs) = min n (length xs)"
  by (simp add: last_n_def)

lemma saved_number_is_not_recognised:
  assumes "get_account s i = Some a" and "10 < length number" and "\<forall>c \<in> set number. is_digit c"
    and "pr_raw row ''Numer rachunku'' = Some (Some number)"
    and "\<forall>b \<in> set (accounts s). acc_id b \<noteq> i \<longrightarrow> acc_number b = None"
  shows "is_counterparty_transfer row
    (build_known_account_digits (map acc_number (accounts (save_external_number i number s)))) = Inr False"
proof -
  let ?known = "build_known_account_digits (map acc_number (accounts (save_external_number i number s)))"
  have "number \<noteq> []" using assms(2) by auto
  have nospace: "\<not> is_space c" if "is_digit c" for c using that by (simp add: is_digit_def is_space_def)
  have "strip number = number"
  proof -
    have "dropWhile is_space xs = xs" if "set xs \<subseteq> set number" for xs
      using that assms(3) nospace by (cases xs) auto
    then show ?thesis by (simp add: strip_def)
  qed
  then have cp: "counterparty_account_raw (pr_raw row) = Inr number"
    using \<open>number \<noteq> []\<close> cell_strip [of "pr_raw row", OF assms(4)] by (simp add: counterparty_account_raw_def)
  have "digits_only number = number" using assms(3) by (simp add: digits_only_def filter_id_conv)
  moreover have "length d \<le> 10" if d: "d \<in> ?known" for d
  proof -
    obtain x where "Some x \<in> set (map acc_number (accounts (save_external_number i number s)))" "d = digits_only x"
      using known_digits_from [OF d] by blast
    then obtain b where "b \<in> set (accounts (save_external_number i number s))" "acc_number b = Some x"
      by (metis imageE list.set_map)
    then have "x = last_n 10 number"
      using assms(1,5) by (auto simp: save_external_number_def dest!: set_upd_row_D)
    then show ?thesis using \<open>d = digits_only x\<close> length_filter_le [of is_digit x]
      by (simp add: digits_only_def length_last_n)
  qed
  then have "number \<notin> ?known" using assms(2) by force
  ultimately show ?thesis using cp by (simp add: is_counterparty_transfer_def Let_def)
qed

text \<open>One amount with a third decimal place makes the conversion of the whole file fail.\<close>

lemma one_bad_amount_blocks_the_file:
  assumes "row \<in> set rows" and "pr_amount row = Finite x" and "\<not> cents x"
  shows "\<exists>err. to_transaction_creates rows a ec ic = Inl err"
proof (cases "to_transaction_creates rows a ec ic")
  case (Inr cs)
  then have "\<exists>c. row_payload a ec ic None (pr_amount row) (pr_date row) (pr_description row) (Some (pr_notes row)) = Inr c"
    using assms(1) by (auto simp: to_transaction_creates_def emap_Inr_iff list_all2_conv_all_nth in_set_conv_nth)
  then show ?thesis using assms(2,3) by (auto simp: row_payload_def ebind_Inr_iff raise_if_def Let_def)
qed blast

end
