(* ===== verification/Csv.thy ===== *)
theory Csv
  imports Texts
begin

text \<open>
  The part of Python's \<open>csv\<close> module the program uses, in the default dialect (quote character \<open>"\<close>, doubled
  inside a quoted field, minimal quoting, lines ended by CR LF): \<open>csv.reader\<close> as its state machine over the
  lines of an \<open>io.StringIO\<close>, \<open>csv.DictReader\<close>, and \<open>csv.writer\<close>. The limit of 131072 characters on a field is
  not modelled.
\<close>

section \<open>Reading\<close>

definition LF :: char where "LF = char_of (10 :: nat)"
definition CR :: char where "CR = char_of (13 :: nat)"
definition QUOTE :: char where "QUOTE = char_of (34 :: nat)"

text \<open>The lines of a \<open>StringIO\<close>, each with its line feed.\<close>

fun io_lines :: "string \<Rightarrow> string list" where
  "io_lines [] = []"
| "io_lines (c # cs) =
    (if c = LF then [c] # io_lines cs
     else case io_lines cs of [] \<Rightarrow> [[c]] | l # ls \<Rightarrow> (c # l) # ls)"

datatype csv_mode = START_RECORD | START_FIELD | IN_FIELD | IN_QUOTED | QUOTE_IN_QUOTED | EAT_CRNL

type_synonym csv_state = "csv_mode \<times> string \<times> string list"

text \<open>One character, or \<open>None\<close> at the end of a line: the field being read and the fields before it.\<close>

fun csv_step :: "char \<Rightarrow> char option \<Rightarrow> csv_state \<Rightarrow> csv_state result" where
  "csv_step d c (START_RECORD, f, fs) =
    (case c of
       None \<Rightarrow> Inr (START_RECORD, f, fs)
     | Some x \<Rightarrow> if x = LF \<or> x = CR then Inr (EAT_CRNL, f, fs)
                 else if x = QUOTE then Inr (IN_QUOTED, f, fs)
                 else if x = d then Inr (START_FIELD, [], fs @ [f])
                 else Inr (IN_FIELD, f @ [x], fs))"
| "csv_step d c (START_FIELD, f, fs) =
    (case c of
       None \<Rightarrow> Inr (START_RECORD, [], fs @ [f])
     | Some x \<Rightarrow> if x = LF \<or> x = CR then Inr (EAT_CRNL, [], fs @ [f])
                 else if x = QUOTE then Inr (IN_QUOTED, f, fs)
                 else if x = d then Inr (START_FIELD, [], fs @ [f])
                 else Inr (IN_FIELD, f @ [x], fs))"
| "csv_step d c (IN_FIELD, f, fs) =
    (case c of
       None \<Rightarrow> Inr (START_RECORD, [], fs @ [f])
     | Some x \<Rightarrow> if x = LF \<or> x = CR then Inr (EAT_CRNL, [], fs @ [f])
                 else if x = d then Inr (START_FIELD, [], fs @ [f])
                 else Inr (IN_FIELD, f @ [x], fs))"
| "csv_step d c (IN_QUOTED, f, fs) =
    (case c of
       None \<Rightarrow> Inr (IN_QUOTED, f, fs)
     | Some x \<Rightarrow> if x = QUOTE then Inr (QUOTE_IN_QUOTED, f, fs) else Inr (IN_QUOTED, f @ [x], fs))"
| "csv_step d c (QUOTE_IN_QUOTED, f, fs) =
    (case c of
       None \<Rightarrow> Inr (START_RECORD, [], fs @ [f])
     | Some x \<Rightarrow> if x = QUOTE then Inr (IN_QUOTED, f @ [x], fs)
                 else if x = d then Inr (START_FIELD, [], fs @ [f])
                 else if x = LF \<or> x = CR then Inr (EAT_CRNL, [], fs @ [f])
                 else Inr (IN_FIELD, f @ [x], fs))"
| "csv_step d c (EAT_CRNL, f, fs) =
    (case c of
       None \<Rightarrow> Inr (START_RECORD, f, fs)
     | Some x \<Rightarrow> if x = LF \<or> x = CR then Inr (EAT_CRNL, f, fs) else Inl CsvError)"

primrec csv_chars :: "char \<Rightarrow> string \<Rightarrow> csv_state \<Rightarrow> csv_state result" where
  "csv_chars d [] st = Inr st"
| "csv_chars d (c # cs) st = ebind (csv_step d (Some c) st) (csv_chars d cs)"

definition csv_line :: "char \<Rightarrow> string \<Rightarrow> csv_state \<Rightarrow> csv_state result" where
  "csv_line d l st = ebind (csv_chars d l st) (csv_step d None)"

text \<open>
  The records of the remaining lines, each with the number of its last line, and the error that ends them, if
  one does. A record goes on over the lines inside a quoted field; an end of file there ends it.
\<close>

fun csv_lines :: "char \<Rightarrow> nat \<Rightarrow> string list \<Rightarrow> csv_state \<Rightarrow> (nat \<times> string list) list \<times> error option" where
  "csv_lines d n [] st = (if fst st = IN_QUOTED then [(n, snd (snd st) @ [fst (snd st)])] else [], None)"
| "csv_lines d n (l # ls) st =
    (case csv_line d l st of
       Inl err \<Rightarrow> ([], Some err)
     | Inr st' \<Rightarrow>
         if fst st' = START_RECORD
         then (let (rs, err) = csv_lines d (n + 1) ls (START_RECORD, [], []) in ((n + 1, snd (snd st')) # rs, err))
         else csv_lines d (n + 1) ls st')"

definition csv_reader :: "char \<Rightarrow> string \<Rightarrow> (nat \<times> string list) list \<times> error option" where
  "csv_reader d content = csv_lines d 0 (io_lines content) (START_RECORD, [], [])"

text \<open>
  \<open>DictReader.__next__\<close>: blank records are skipped, but \<open>line_num\<close> was taken before skipping. A short record
  has \<open>None\<close> under its last names, and of two columns with one name the last counts.
\<close>

definition dict_row :: "string list \<Rightarrow> string list \<Rightarrow> string \<rightharpoonup> string option" where
  "dict_row names row =
    map_of (rev (zip names (map Some row) @ map (\<lambda>k. (k, None)) (drop (length row) names)))"

fun skip_blank :: "nat option \<Rightarrow> (nat \<times> string list) list \<Rightarrow> (nat \<times> string list) list" where
  "skip_blank m [] = []"
| "skip_blank m ((n, row) # rs) =
    (let shown = (case m of None \<Rightarrow> n | Some k \<Rightarrow> k)
     in if row = [] then skip_blank (Some shown) rs else (shown, row) # skip_blank None rs)"

definition dict_rows :: "string list \<Rightarrow> (nat \<times> string list) list \<Rightarrow> (nat \<times> (string \<rightharpoonup> string option)) list" where
  "dict_rows names rs = map (\<lambda>(n, row). (n, dict_row names row)) (skip_blank None rs)"

section \<open>Writing\<close>

definition needs_quotes :: "char \<Rightarrow> string \<Rightarrow> bool" where
  "needs_quotes d f \<longleftrightarrow> (\<exists>c \<in> set f. c = d \<or> c = QUOTE \<or> c = LF \<or> c = CR)"

definition double_quotes :: "string \<Rightarrow> string" where
  "double_quotes f = concat (map (\<lambda>c. if c = QUOTE then [QUOTE, QUOTE] else [c]) f)"

definition write_field :: "char \<Rightarrow> bool \<Rightarrow> string \<Rightarrow> string" where
  "write_field d alone f =
    (if needs_quotes d f \<or> (alone \<and> f = []) then QUOTE # double_quotes f @ [QUOTE] else f)"

fun join_fields :: "char \<Rightarrow> string list \<Rightarrow> string" where
  "join_fields d [] = []"
| "join_fields d [f] = f"
| "join_fields d (f # g # fs) = f @ d # join_fields d (g # fs)"

definition write_row :: "char \<Rightarrow> string list \<Rightarrow> string" where
  "write_row d fields = join_fields d (map (write_field d (length fields = 1)) fields) @ [CR, LF]"

definition write_rows :: "char \<Rightarrow> string list list \<Rightarrow> string" where
  "write_rows d rows = concat (map (write_row d) rows)"

section \<open>What is written is read back\<close>

lemma specials_distinct [simp]:
  "LF \<noteq> CR" "CR \<noteq> LF" "LF \<noteq> QUOTE" "QUOTE \<noteq> LF" "CR \<noteq> QUOTE" "QUOTE \<noteq> CR"
  by (simp_all add: LF_def CR_def QUOTE_def)

text \<open>The reader on a text, from a state inside a line.\<close>

definition rd :: "char \<Rightarrow> string \<Rightarrow> csv_state \<Rightarrow> nat \<Rightarrow> (nat \<times> string list) list \<times> error option" where
  "rd d text st n = csv_lines d n (io_lines text) st"

lemma io_lines_nonempty: "cs \<noteq> [] \<Longrightarrow> io_lines cs \<noteq> []"
  by (cases cs) (simp_all split: list.split)

lemma rd_char:
  assumes "c \<noteq> LF" and "cs \<noteq> []" and "csv_step d (Some c) st = Inr st'"
  shows "rd d (c # cs) st n = rd d cs st' n"
proof -
  obtain l ls where "io_lines cs = l # ls"
    using io_lines_nonempty [OF assms(2)] by (cases "io_lines cs") simp_all
  then show ?thesis using assms by (simp add: rd_def csv_line_def)
qed

lemma rd_newline_inside:
  "rd d (LF # cs) (IN_QUOTED, f, fs) n = rd d cs (IN_QUOTED, f @ [LF], fs) (n + 1)"
  by (simp add: rd_def csv_line_def)

lemma rd_end:
  assumes "rd d cs (START_RECORD, [], []) (n + 1) = (rs, err)"
  shows "rd d (LF # cs) (EAT_CRNL, [], fs) n = ((n + 1, fs) # rs, err)"
  using assms by (simp add: rd_def csv_line_def)

lemma rd_plain:
  assumes "\<not> needs_quotes d f" and "rest \<noteq> []"
  shows "rd d (f @ rest) (IN_FIELD, g, fs) n = rd d rest (IN_FIELD, g @ f, fs) n"
  using assms
proof (induction f arbitrary: g)
  case Nil
  then show ?case by simp
next
  case (Cons c f)
  then have c: "c \<noteq> d" "c \<noteq> QUOTE" "c \<noteq> LF" "c \<noteq> CR" and f: "\<not> needs_quotes d f"
    by (auto simp: needs_quotes_def)
  have "rd d (c # f @ rest) (IN_FIELD, g, fs) n = rd d (f @ rest) (IN_FIELD, g @ [c], fs) n"
    by (rule rd_char) (use c Cons.prems in auto)
  then show ?case using Cons.IH [OF f Cons.prems(2)] by simp
qed

lemma rd_quoted:
  assumes "rest \<noteq> []"
  shows "\<exists>m. rd d (double_quotes f @ rest) (IN_QUOTED, g, fs) n = rd d rest (IN_QUOTED, g @ f, fs) m"
proof (induction f arbitrary: g n)
  case Nil
  then show ?case by (auto simp: double_quotes_def)
next
  case (Cons c f)
  have tail: "double_quotes f @ rest \<noteq> []" using assms by simp
  consider "c = QUOTE" | "c = LF" | "c \<noteq> QUOTE" "c \<noteq> LF" by blast
  then have "\<exists>k. rd d (double_quotes (c # f) @ rest) (IN_QUOTED, g, fs) n =
      rd d (double_quotes f @ rest) (IN_QUOTED, g @ [c], fs) k"
  proof cases
    case 1
    have "rd d (QUOTE # QUOTE # double_quotes f @ rest) (IN_QUOTED, g, fs) n =
        rd d (QUOTE # double_quotes f @ rest) (QUOTE_IN_QUOTED, g, fs) n"
      by (rule rd_char) simp_all
    also have "\<dots> = rd d (double_quotes f @ rest) (IN_QUOTED, g @ [QUOTE], fs) n"
      by (rule rd_char) (use tail in simp_all)
    finally show ?thesis using 1 by (auto simp: double_quotes_def)
  next
    case 2
    then show ?thesis using rd_newline_inside by (auto simp: double_quotes_def)
  next
    case 3
    have "rd d (c # double_quotes f @ rest) (IN_QUOTED, g, fs) n =
        rd d (double_quotes f @ rest) (IN_QUOTED, g @ [c], fs) n"
      by (rule rd_char) (use 3 tail in simp_all)
    then show ?thesis using 3 by (auto simp: double_quotes_def)
  qed
  then show ?case using Cons.IH [of "g @ [c]"] by (metis append.assoc append_Cons append_Nil)
qed

text \<open>The separators the writer puts after a field: the delimiter, or the end of the line.\<close>

definition separator :: "char \<Rightarrow> char \<Rightarrow> bool" where
  "separator d c \<longleftrightarrow> c = d \<or> c = CR"

definition after :: "char \<Rightarrow> char \<Rightarrow> csv_mode" where
  "after d c = (if c = d then START_FIELD else EAT_CRNL)"

definition plain_delimiter :: "char \<Rightarrow> bool" where
  "plain_delimiter d \<longleftrightarrow> d \<noteq> QUOTE \<and> d \<noteq> LF \<and> d \<noteq> CR"

lemma rd_field:
  assumes "plain_delimiter d" and "mode = START_FIELD \<or> (mode = START_RECORD \<and> (alone \<longrightarrow> c = CR) \<and> (c = CR \<longrightarrow> alone))"
    and "separator d c" and "rest \<noteq> []"
  shows "\<exists>m. rd d (write_field d alone f @ c # rest) (mode, [], fs) n = rd d rest (after d c, [], fs @ [f]) m"
proof (cases "needs_quotes d f \<or> (alone \<and> f = [])")
  case True
  have "rd d (QUOTE # double_quotes f @ QUOTE # c # rest) (mode, [], fs) n =
      rd d (double_quotes f @ QUOTE # c # rest) (IN_QUOTED, [], fs) n"
    by (rule rd_char) (use assms(2) in auto)
  moreover obtain m where "rd d (double_quotes f @ QUOTE # c # rest) (IN_QUOTED, [], fs) n =
      rd d (QUOTE # c # rest) (IN_QUOTED, f, fs) m"
    using rd_quoted [of "QUOTE # c # rest" d f "[]" fs n] by auto
  moreover have "rd d (QUOTE # c # rest) (IN_QUOTED, f, fs) m = rd d (c # rest) (QUOTE_IN_QUOTED, f, fs) m"
    by (rule rd_char) simp_all
  moreover have "rd d (c # rest) (QUOTE_IN_QUOTED, f, fs) m = rd d rest (after d c, [], fs @ [f]) m"
    by (rule rd_char) (use assms in \<open>auto simp: separator_def after_def plain_delimiter_def\<close>)
  ultimately show ?thesis using True by (auto simp: write_field_def)
next
  case False
  show ?thesis
  proof (cases f)
    case Nil
    then have "mode = START_FIELD \<or> c = d" using False assms(2,3) by (auto simp: separator_def)
    then have "rd d (c # rest) (mode, [], fs) n = rd d rest (after d c, [], fs @ [[]]) n"
      by (intro rd_char) (use assms in \<open>auto simp: separator_def after_def plain_delimiter_def\<close>)
    then show ?thesis using False Nil by (auto simp: write_field_def)
  next
    case (Cons x xs)
    have x: "x \<noteq> d" "x \<noteq> QUOTE" "x \<noteq> LF" "x \<noteq> CR" and xs: "\<not> needs_quotes d xs"
      using False Cons by (auto simp: needs_quotes_def)
    have "rd d (x # xs @ c # rest) (mode, [], fs) n = rd d (xs @ c # rest) (IN_FIELD, [x], fs) n"
      by (rule rd_char) (use assms(2) x in auto)
    also have "\<dots> = rd d (c # rest) (IN_FIELD, f, fs) n"
      using rd_plain [OF xs, of "c # rest" "[x]"] Cons by simp
    also have "\<dots> = rd d rest (after d c, [], fs @ [f]) n"
      by (rule rd_char) (use assms in \<open>auto simp: separator_def after_def plain_delimiter_def\<close>)
    finally show ?thesis using False Cons by (auto simp: write_field_def)
  qed
qed

lemma rd_fields:
  assumes "plain_delimiter d" and "fields \<noteq> []" and "rest \<noteq> []"
    and "mode = START_FIELD \<and> \<not> alone \<or> mode = START_RECORD \<and> alone = (length fields = 1)"
  shows "\<exists>m. rd d (join_fields d (map (write_field d alone) fields) @ CR # rest) (mode, [], fs) n =
    rd d rest (EAT_CRNL, [], fs @ fields) m"
  using assms
proof (induction fields arbitrary: mode fs n alone)
  case Nil
  then show ?case by simp
next
  case (Cons f fields)
  show ?case
  proof (cases fields)
    case Nil
    then have "mode = START_FIELD \<or> (mode = START_RECORD \<and> (alone \<longrightarrow> CR = CR) \<and> (CR = CR \<longrightarrow> alone))"
      using Cons.prems(4) by auto
    from rd_field [OF Cons.prems(1) this, of rest f fs n] Cons.prems(1,3) Nil show ?thesis
      by (auto simp: separator_def after_def plain_delimiter_def)
  next
    case (Cons g gs)
    let ?tail = "join_fields d (map (write_field d alone) fields) @ CR # rest"
    have na: "\<not> alone" using Cons.prems(4) Cons by auto
    have "mode = START_FIELD \<or> (mode = START_RECORD \<and> (alone \<longrightarrow> d = CR) \<and> (d = CR \<longrightarrow> alone))"
      using Cons.prems(1,4) na by (auto simp: plain_delimiter_def)
    from rd_field [OF Cons.prems(1) this, of ?tail f fs n]
    obtain m where "rd d (write_field d alone f @ d # ?tail) (mode, [], fs) n = rd d ?tail (START_FIELD, [], fs @ [f]) m"
      by (auto simp: separator_def after_def)
    moreover obtain m' where "rd d ?tail (START_FIELD, [], fs @ [f]) m = rd d rest (EAT_CRNL, [], (fs @ [f]) @ fields) m'"
      using Cons.IH [OF Cons.prems(1) _ Cons.prems(3), of START_FIELD alone "fs @ [f]" m] na Cons by auto
    ultimately show ?thesis using Cons by auto
  qed
qed

lemma rd_rows:
  assumes "plain_delimiter d" and "\<forall>row \<in> set rows. row \<noteq> []"
  shows "\<exists>rs. rd d (write_rows d rows) (START_RECORD, [], []) n = (rs, None) \<and> map snd rs = rows"
  using assms(2)
proof (induction rows arbitrary: n)
  case Nil
  then show ?case by (simp add: write_rows_def rd_def)
next
  case (Cons row rows)
  obtain m where m: "rd d (join_fields d (map (write_field d (length row = 1)) row) @ CR # LF # write_rows d rows)
      (START_RECORD, [], []) n = rd d (LF # write_rows d rows) (EAT_CRNL, [], [] @ row) m"
    using rd_fields [OF assms(1), of row "LF # write_rows d rows" START_RECORD "length row = 1" "[]" n] Cons.prems by auto
  obtain rs where rs: "rd d (write_rows d rows) (START_RECORD, [], []) (m + 1) = (rs, None)" "map snd rs = rows"
    using Cons.IH Cons.prems by auto
  have "rd d (LF # write_rows d rows) (EAT_CRNL, [], row) m = ((m + 1, row) # rs, None)"
    by (rule rd_end [OF rs(1)])
  moreover have "write_rows d (row # rows) =
      join_fields d (map (write_field d (length row = 1)) row) @ CR # LF # write_rows d rows"
    by (simp add: write_rows_def write_row_def)
  ultimately show ?case using m rs(2) by simp
qed

lemma csv_round_trip:
  assumes "plain_delimiter d" and "\<forall>row \<in> set rows. row \<noteq> []"
  shows "\<exists>rs. csv_reader d (write_rows d rows) = (rs, None) \<and> map snd rs = rows"
  using rd_rows [OF assms, of 0] by (simp add: csv_reader_def rd_def)

end
