(* ===== verification/ImportFormats.thy ===== *)
theory ImportFormats
  imports ImportLedger Csv Merchants
begin

text \<open>
  The generic half of the statement parser (\<open>src/src/kaleta/services/import_service.py\<close>): amounts and dates as
  text, the column mapping with its detection from header names, the inspection of a CSV file and
  \<open>parse_csv\<close>. Texts are ASCII, with non-ASCII literals as UTF-8 bytes; an error message is a value of
  \<open>issue\<close> that carries what the message names. A date format is made of \<open>%Y\<close>, \<open>%y\<close>, \<open>%m\<close>, \<open>%d\<close> and
  punctuation, as all formats of the mapping step are.
\<close>

section \<open>Definitions\<close>

subsection \<open>Text\<close>

definition is_line_break :: "char \<Rightarrow> bool" where
  "is_line_break c \<longleftrightarrow> (of_char c :: nat) \<in> {10, 11, 12, 13, 28, 29, 30}"

text \<open>\<open>str.splitlines()\<close>\<close>

fun splitlines_from :: "string \<Rightarrow> string \<Rightarrow> string list" where
  "splitlines_from line [] = (if line = [] then [] else [line])"
| "splitlines_from line (c # cs) =
    (if c = CR then line # (case cs of x # xs \<Rightarrow> if x = LF then splitlines_from [] xs else splitlines_from [] cs
                                     | [] \<Rightarrow> [])
     else if is_line_break c then line # splitlines_from [] cs
     else splitlines_from (line @ [c]) cs)"

definition splitlines :: "string \<Rightarrow> string list" where
  "splitlines s = splitlines_from [] s"

text \<open>\<open>str.replace(old, new)\<close> for a non-empty \<open>old\<close>\<close>

function replace_text :: "string \<Rightarrow> string \<Rightarrow> string \<Rightarrow> string" where
  "replace_text old new [] = []"
| "replace_text old new (c # cs) =
    (if old \<noteq> [] \<and> take (length old) (c # cs) = old
     then new @ replace_text old new (drop (length old) (c # cs))
     else c # replace_text old new cs)"
  by pat_completeness auto
termination
  by (relation "measure (\<lambda>(old, new, s). length s)") (auto simp: neq_Nil_conv)

fun split_on :: "char \<Rightarrow> string \<Rightarrow> string list" where
  "split_on d [] = [[]]"
| "split_on d (c # cs) =
    (if c = d then [] # split_on d cs
     else case split_on d cs of [] \<Rightarrow> [[c]] | w # ws \<Rightarrow> (c # w) # ws)"

definition starts_with :: "string \<Rightarrow> string \<Rightarrow> bool" where
  "starts_with s prefix \<longleftrightarrow> take (length prefix) s = prefix"

definition is_upper :: "char \<Rightarrow> bool" where
  "is_upper c \<longleftrightarrow> 65 \<le> (of_char c :: nat) \<and> (of_char c :: nat) \<le> 90"

subsection \<open>Amounts\<close>

text \<open>\<open>Decimal(text)\<close>; \<open>None\<close> is \<open>InvalidOperation\<close>.\<close>

definition split_sign :: "string \<Rightarrow> bool \<times> string" where
  "split_sign s =
    (case s of [] \<Rightarrow> (False, [])
     | c # cs \<Rightarrow> if c = CHR ''-'' then (True, cs) else if c = CHR ''+'' then (False, cs) else (False, s))"

definition digit_run :: "string \<Rightarrow> string \<times> string" where
  "digit_run s = (takeWhile is_digit s, dropWhile is_digit s)"

definition exponent_of :: "string \<Rightarrow> int option" where
  "exponent_of s =
    (case s of [] \<Rightarrow> Some 0
     | c # cs \<Rightarrow>
         if lower_char c = CHR ''e''
         then let (neg, ds) = split_sign cs
              in if ds \<noteq> [] \<and> list_all is_digit ds
                 then Some (if neg then - int (digits_value ds) else int (digits_value ds)) else None
         else None)"

definition finite_of :: "bool \<Rightarrow> string \<Rightarrow> number option" where
  "finite_of neg s =
    (let (ip, r) = digit_run s;
         (fp, r') = (case r of [] \<Rightarrow> ([], [])
                     | c # cs \<Rightarrow> if c = CHR ''.'' then digit_run cs else ([], r))
     in if ip @ fp = [] then None
        else case exponent_of r' of
               None \<Rightarrow> None
             | Some e \<Rightarrow> let x = of_nat (digits_value (ip @ fp)) * pow10 (e - int (length fp))
                         in Some (Finite (if neg then - x else x)))"

definition decimal_of :: "string \<Rightarrow> number option" where
  "decimal_of text =
    (let (neg, s) = split_sign (filter (\<lambda>c. c \<noteq> CHR ''_'') (strip text));
         low = casefold s
     in if low = ''inf'' \<or> low = ''infinity'' then Some (Infinite (\<not> neg))
        else if starts_with low ''nan'' \<and> list_all is_digit (drop 3 low) then Some Quiet_nan
        else if starts_with low ''snan'' \<and> list_all is_digit (drop 4 low) then Some Signaling_nan
        else finite_of neg s)"

definition nbsp :: string where
  "nbsp = [char_of (194 :: nat), char_of (160 :: nat)]"

text \<open>\<open>re.sub(r"[A-Z]{3}$", "", s)\<close>\<close>

definition drop_currency :: "string \<Rightarrow> string" where
  "drop_currency s = (if 3 \<le> length s \<and> list_all is_upper (last_n 3 s) then take (length s - 3) s else s)"

definition without :: "char \<Rightarrow> string \<Rightarrow> string" where
  "without c s = filter (\<lambda>x. x \<noteq> c) s"

definition comma_to_dot :: "string \<Rightarrow> string" where
  "comma_to_dot s = map (\<lambda>x. if x = CHR '','' then CHR ''.'' else x) s"

definition clean_amount :: "string \<Rightarrow> string \<Rightarrow> string \<Rightarrow> string" where
  "clean_amount value decimal_separator thousands_separator =
    (let a = replace_text nbsp [] (strip value);
         b = strip (drop_currency a);
         c = (if thousands_separator \<noteq> [] then replace_text thousands_separator [] b else without (CHR '' '') b)
     in if decimal_separator = '','' then
          comma_to_dot (if thousands_separator \<noteq> ''.'' then without (CHR ''.'') c else c)
        else if decimal_separator = ''.'' then
          (if thousands_separator \<noteq> '','' then without (CHR '','') c else c)
        else if CHR '','' \<in> set c \<and> CHR ''.'' \<notin> set c then comma_to_dot c
        else if CHR '','' \<in> set c \<and> CHR ''.'' \<in> set c then comma_to_dot (without (CHR ''.'') c)
        else c)"

definition parse_amount :: "string \<Rightarrow> string \<Rightarrow> string \<Rightarrow> number result" where
  "parse_amount value decimal_separator thousands_separator =
    (case decimal_of (clean_amount value decimal_separator thousands_separator) of
       None \<Rightarrow> Inl (ImportError ''Cannot parse amount'') | Some n \<Rightarrow> Inr n)"

text \<open>Unary minus and subtraction, which round to the context and trap a signalling NaN.\<close>

fun number_neg :: "number \<Rightarrow> number result" where
  "number_neg (Finite x) = Inr (Finite (ctx (- x)))"
| "number_neg (Infinite positive) = Inr (Infinite (\<not> positive))"
| "number_neg Quiet_nan = Inr Quiet_nan"
| "number_neg Signaling_nan = Inl InvalidOperation"

fun number_sub :: "number \<Rightarrow> number \<Rightarrow> number result" where
  "number_sub (Finite x) (Finite y) = Inr (Finite (ctx (x - y)))"
| "number_sub Signaling_nan _ = Inl InvalidOperation"
| "number_sub _ Signaling_nan = Inl InvalidOperation"
| "number_sub Quiet_nan _ = Inr Quiet_nan"
| "number_sub _ Quiet_nan = Inr Quiet_nan"
| "number_sub (Infinite p) (Infinite q) = (if p = q then Inl InvalidOperation else Inr (Infinite p))"
| "number_sub (Infinite p) (Finite y) = Inr (Infinite p)"
| "number_sub (Finite x) (Infinite q) = Inr (Infinite (\<not> q))"

subsection \<open>Dates\<close>

datatype directive = Year4 | Year2 | Month | Day | Literal char

fun directives :: "string \<Rightarrow> directive list" where
  "directives [] = []"
| "directives [c] = [Literal c]"
| "directives (c # x # cs) =
    (if c = CHR ''%'' then
       (if x = CHR ''Y'' then Year4 # directives cs
        else if x = CHR ''y'' then Year2 # directives cs
        else if x = CHR ''m'' then Month # directives cs
        else if x = CHR ''d'' then Day # directives cs
        else Literal c # directives (x # cs))
     else Literal c # directives (x # cs))"

definition digit_of :: "char \<Rightarrow> nat" where
  "digit_of c = of_char c - 48"

text \<open>
  The alternatives of each directive's regular expression, in the order \<open>strptime\<close> tries them: what a
  prefix of the text means and what is left of it.
\<close>

definition two_digits :: "nat \<Rightarrow> nat \<Rightarrow> string \<Rightarrow> (nat \<times> string) list" where
  "two_digits lo hi s =
    (case s of a # b # r \<Rightarrow>
        if is_digit a \<and> is_digit b \<and> lo \<le> 10 * digit_of a + digit_of b \<and> 10 * digit_of a + digit_of b \<le> hi
        then [(10 * digit_of a + digit_of b, r)] else []
     | _ \<Rightarrow> [])"

definition one_digit :: "string \<Rightarrow> (nat \<times> string) list" where
  "one_digit s = (case s of a # r \<Rightarrow> if is_digit a \<and> a \<noteq> CHR ''0'' then [(digit_of a, r)] else [] | [] \<Rightarrow> [])"

fun alternatives :: "directive \<Rightarrow> string \<Rightarrow> (nat \<times> string) list" where
  "alternatives Year4 s =
    (if 4 \<le> length s \<and> list_all is_digit (take 4 s) then [(digits_value (take 4 s), drop 4 s)] else [])"
| "alternatives Year2 s = two_digits 0 99 s"
| "alternatives Month s = two_digits 10 12 s @ two_digits 1 9 s @ one_digit s"
| "alternatives Day s = two_digits 30 31 s @ two_digits 10 29 s @ two_digits 1 9 s @ one_digit s @
    (case s of a # r \<Rightarrow> if a = CHR '' '' then one_digit r else [] | [] \<Rightarrow> [])"
| "alternatives (Literal c) s = (case s of a # r \<Rightarrow> if a = c then [(0, r)] else [] | [] \<Rightarrow> [])"

record date_parts =
  dp_year :: nat
  dp_month :: nat
  dp_day :: nat

fun put_part :: "directive \<Rightarrow> nat \<Rightarrow> date_parts \<Rightarrow> date_parts" where
  "put_part Year4 n p = p\<lparr>dp_year := n\<rparr>"
| "put_part Year2 n p = p\<lparr>dp_year := (if n \<le> 68 then 2000 + n else 1900 + n)\<rparr>"
| "put_part Month n p = p\<lparr>dp_month := n\<rparr>"
| "put_part Day n p = p\<lparr>dp_day := n\<rparr>"
| "put_part (Literal c) n p = p"

text \<open>The first match of the whole pattern at the start of the text, with backtracking.\<close>

fun first_some :: "('a \<Rightarrow> 'b option) \<Rightarrow> 'a list \<Rightarrow> 'b option" where
  "first_some f [] = None"
| "first_some f (x # xs) = (case f x of None \<Rightarrow> first_some f xs | Some y \<Rightarrow> Some y)"

primrec match_format :: "directive list \<Rightarrow> date_parts \<Rightarrow> string \<Rightarrow> (date_parts \<times> string) option" where
  "match_format [] p s = Some (p, s)"
| "match_format (x # xs) p s = first_some (\<lambda>(n, r). match_format xs (put_part x n p) r) (alternatives x s)"

definition strptime :: "string \<Rightarrow> string \<Rightarrow> date result" where
  "strptime s fmt =
    (case match_format (directives fmt) \<lparr>dp_year = 1900, dp_month = 1, dp_day = 1\<rparr> s of
       None \<Rightarrow> Inl ValueError
     | Some (p, rest) \<Rightarrow>
         if rest \<noteq> [] then Inl ValueError else mk_date (int (dp_year p)) (int (dp_month p)) (int (dp_day p)))"

definition DATE_FORMATS :: "string list" where
  "DATE_FORMATS = [''%Y-%m-%d'', ''%d.%m.%Y'', ''%d/%m/%Y'', ''%m/%d/%Y'', ''%d-%m-%Y'', ''%Y%m%d'']"

definition parse_date :: "string \<Rightarrow> string \<Rightarrow> date result" where
  "parse_date value fmt =
    (case first_some (\<lambda>f. case strptime (strip value) f of Inl _ \<Rightarrow> None | Inr d \<Rightarrow> Some d)
            (if fmt \<noteq> [] then [fmt] else DATE_FORMATS) of
       None \<Rightarrow> Inl (ImportError ''Cannot parse date'') | Some d \<Rightarrow> Inr d)"

subsection \<open>The column mapping\<close>

record column_mapping =
  cm_date :: "int option"
  cm_amount :: "int option"
  cm_description :: "int option"
  cm_notes :: "int option"
  cm_payee :: "int option"
  cm_counterparty :: "int option"
  cm_debit :: "int option"
  cm_credit :: "int option"
  cm_date_format :: string
  cm_decimal_separator :: string
  cm_thousands_separator :: string
  cm_negative_for_expenses :: bool

definition no_mapping :: column_mapping where
  "no_mapping = \<lparr>cm_date = None, cm_amount = None, cm_description = None, cm_notes = None, cm_payee = None,
     cm_counterparty = None, cm_debit = None, cm_credit = None, cm_date_format = [], cm_decimal_separator = [],
     cm_thousands_separator = [], cm_negative_for_expenses = True\<rparr>"

definition is_complete :: "column_mapping \<Rightarrow> bool" where
  "is_complete m \<longleftrightarrow> cm_date m \<noteq> None \<and> cm_description m \<noteq> None \<and>
    (cm_amount m \<noteq> None \<or> cm_debit m \<noteq> None \<or> cm_credit m \<noteq> None)"

datatype issue =
    FieldRequired string
  | NoHeaders
  | NoDateColumn "string list"
  | NoAmountColumn "string list"
  | BadLine nat error
  | BadRecord string nat error

definition validation_errors :: "column_mapping \<Rightarrow> issue list" where
  "validation_errors m =
    (if cm_date m = None then [FieldRequired ''Date''] else []) @
    (if cm_description m = None then [FieldRequired ''Description''] else []) @
    (if cm_amount m = None \<and> cm_debit m = None \<and> cm_credit m = None then [FieldRequired ''Amount''] else [])"

text \<open>The keyed dictionary that remembers a mapping. \<open>int\<close> of a text accepts digits with a sign.\<close>

datatype json = JNull | JInt int | JStr string | JBool bool

definition int_of_text :: "string \<Rightarrow> int result" where
  "int_of_text s =
    (let (neg, ds) = split_sign (filter (\<lambda>c. c \<noteq> CHR ''_'') (strip s))
     in if ds = [] \<or> \<not> list_all is_digit ds then Inl ValueError
        else Inr (if neg then - int (digits_value ds) else int (digits_value ds)))"

fun optional_int :: "json option \<Rightarrow> int option result" where
  "optional_int None = Inr None"
| "optional_int (Some JNull) = Inr None"
| "optional_int (Some (JInt i)) = Inr (Some i)"
| "optional_int (Some (JBool b)) = Inr (Some (if b then 1 else 0))"
| "optional_int (Some (JStr s)) = (if s = [] then Inr None else ebind (int_of_text s) (\<lambda>i. Inr (Some i)))"

fun json_text :: "json option \<Rightarrow> string" where
  "json_text (Some (JStr s)) = s"
| "json_text (Some (JInt i)) = (if i = 0 then [] else str_int i)"
| "json_text (Some (JBool b)) = (if b then ''True'' else [])"
| "json_text _ = []"

fun json_truth :: "json option \<Rightarrow> bool" where
  "json_truth None = True"
| "json_truth (Some JNull) = False"
| "json_truth (Some (JInt i)) = (i \<noteq> 0)"
| "json_truth (Some (JStr s)) = (s \<noteq> [])"
| "json_truth (Some (JBool b)) = b"

definition json_opt :: "int option \<Rightarrow> json" where
  "json_opt v = (case v of None \<Rightarrow> JNull | Some i \<Rightarrow> JInt i)"

definition to_dict :: "column_mapping \<Rightarrow> (string \<times> json) list" where
  "to_dict m =
    [(''date'', json_opt (cm_date m)), (''amount'', json_opt (cm_amount m)),
     (''description'', json_opt (cm_description m)), (''notes'', json_opt (cm_notes m)),
     (''payee'', json_opt (cm_payee m)), (''counterparty_account'', json_opt (cm_counterparty m)),
     (''debit'', json_opt (cm_debit m)), (''credit'', json_opt (cm_credit m)),
     (''date_format'', JStr (cm_date_format m)), (''decimal_separator'', JStr (cm_decimal_separator m)),
     (''thousands_separator'', JStr (cm_thousands_separator m)),
     (''amounts_negative_for_expenses'', JBool (cm_negative_for_expenses m))]"

definition from_dict :: "(string \<times> json) list \<Rightarrow> column_mapping result" where
  "from_dict data =
    (if data = [] then Inr no_mapping
     else let get = (\<lambda>k. map_of data k) in
       ebind (optional_int (get ''date'')) (\<lambda>dt.
       ebind (optional_int (get ''amount'')) (\<lambda>am.
       ebind (optional_int (get ''description'')) (\<lambda>de.
       ebind (optional_int (get ''notes'')) (\<lambda>no.
       ebind (optional_int (get ''payee'')) (\<lambda>pa.
       ebind (optional_int (get ''counterparty_account'')) (\<lambda>co.
       ebind (optional_int (get ''debit'')) (\<lambda>db.
       ebind (optional_int (get ''credit'')) (\<lambda>cr.
       Inr \<lparr>cm_date = dt, cm_amount = am, cm_description = de, cm_notes = no, cm_payee = pa,
            cm_counterparty = co, cm_debit = db, cm_credit = cr, cm_date_format = json_text (get ''date_format''),
            cm_decimal_separator = json_text (get ''decimal_separator''),
            cm_thousands_separator = json_text (get ''thousands_separator''),
            cm_negative_for_expenses = json_truth (get ''amounts_negative_for_expenses'')\<rparr>)))))))))"

subsection \<open>Detection\<close>

definition bytes :: "nat list \<Rightarrow> string" where
  "bytes ns = map char_of ns"

definition DATE_ALIASES :: "string list" where
  "DATE_ALIASES = [''date'', ''data'', ''data ksi'' @ bytes [196, 153] @ ''gowania'', ''data ksiegowania'',
     ''data transakcji'', ''data operacji'', ''transaction date'']"

definition AMOUNT_ALIASES :: "string list" where
  "AMOUNT_ALIASES = [''amount'', ''kwota'', ''warto'' @ bytes [197, 155, 196, 135], ''value'', ''transaction amount'',
     ''kwota operacji'']"

definition DESC_ALIASES :: "string list" where
  "DESC_ALIASES = [''description'', ''opis'', ''tytu'' @ bytes [197, 130], ''title'', ''tytul'', ''opis operacji'', ''details'']"

definition PAYEE_ALIASES :: "string list" where
  "PAYEE_ALIASES = [''payee'', ''odbiorca'', ''nadawca'', ''merchant'', ''counterparty'']"

definition COUNTERPARTY_ALIASES :: "string list" where
  "COUNTERPARTY_ALIASES = [''counterparty account'', ''numer rachunku'', ''numer konta'', ''account number'', ''iban'']"

definition DEBIT_ALIASES :: "string list" where
  "DEBIT_ALIASES = [''debit'', ''wydatki'', ''obci'' @ bytes [196, 133, 197, 188] @ ''enie'',
     ''wyp'' @ bytes [197, 130] @ ''ata'', ''money out'']"

definition CREDIT_ALIASES :: "string list" where
  "CREDIT_ALIASES = [''credit'', ''przychody'', ''uznanie'', ''wp'' @ bytes [197, 130] @ ''ata'', ''money in'']"

definition norm_header :: "string \<Rightarrow> string" where
  "norm_header name = casefold (strip name)"

fun detect_from :: "int \<Rightarrow> string list \<Rightarrow> string list \<Rightarrow> int option" where
  "detect_from i [] aliases = None"
| "detect_from i (h # hs) aliases =
    (if norm_header h \<in> set aliases then Some i else detect_from (i + 1) hs aliases)"

definition detect_column :: "string list \<Rightarrow> string list \<Rightarrow> int option" where
  "detect_column headers aliases = detect_from 0 headers aliases"

definition detect_column_mapping :: "string list \<Rightarrow> column_mapping" where
  "detect_column_mapping headers = no_mapping\<lparr>cm_date := detect_column headers DATE_ALIASES,
     cm_amount := detect_column headers AMOUNT_ALIASES, cm_description := detect_column headers DESC_ALIASES,
     cm_payee := detect_column headers PAYEE_ALIASES,
     cm_counterparty := detect_column headers COUNTERPARTY_ALIASES,
     cm_debit := detect_column headers DEBIT_ALIASES, cm_credit := detect_column headers CREDIT_ALIASES\<rparr>"

definition TAB :: char where "TAB = char_of (9 :: nat)"

text \<open>\<open>max\<close> returns the first delimiter of the greatest count.\<close>

definition detect_delimiter :: "string \<Rightarrow> char" where
  "detect_delimiter content =
    (let sample = take 2048 content;
         n = (\<lambda>d. length (filter (\<lambda>c. c = d) sample))
     in if n (CHR '';'') \<le> n (CHR '','') \<and> n TAB \<le> n (CHR '','') then CHR '',''
        else if n TAB \<le> n (CHR '';'') then CHR '';'' else TAB)"

record csv_inspection =
  ci_delimiter :: char
  ci_headers :: "string list"
  ci_sample_rows :: "string list list"
  ci_detected :: column_mapping
  ci_total_rows :: nat

definition inspect_csv :: "string \<Rightarrow> char option \<Rightarrow> nat \<Rightarrow> csv_inspection result" where
  "inspect_csv content delimiter sample_limit =
    (let d = (case delimiter of Some x \<Rightarrow> x | None \<Rightarrow> detect_delimiter content);
         (records, err) = csv_reader d content
     in case records of
          [] \<Rightarrow> (case err of Some e \<Rightarrow> Inl e
                 | None \<Rightarrow> Inr \<lparr>ci_delimiter = d, ci_headers = [], ci_sample_rows = [],
                     ci_detected = no_mapping, ci_total_rows = 0\<rparr>)
        | (n, hs) # rest \<Rightarrow>
            (case err of Some e \<Rightarrow> Inl e
             | None \<Rightarrow> let headers = map strip hs;
                          rows = filter (\<lambda>row. row \<noteq> []) (map snd rest)
                      in Inr \<lparr>ci_delimiter = d, ci_headers = headers, ci_sample_rows = take sample_limit rows,
                           ci_detected = detect_column_mapping headers, ci_total_rows = length rows\<rparr>))"

subsection \<open>Parsing a statement\<close>

record import_result =
  ir_rows :: "parsed_row list"
  ir_errors :: "issue list"
  ir_error_rows :: "nat list"
  ir_skipped :: nat

definition no_rows :: import_result where
  "no_rows = \<lparr>ir_rows = [], ir_errors = [], ir_error_rows = [], ir_skipped = 0\<rparr>"

text \<open>\<open>headers[i]\<close>, with Python's negative indices.\<close>

definition header_at :: "string list \<Rightarrow> int option \<Rightarrow> string option result" where
  "header_at headers col =
    (case col of
       None \<Rightarrow> Inr None
     | Some i \<Rightarrow>
         if 0 \<le> i \<and> i < int (length headers) then Inr (Some (headers ! nat i))
         else if - int (length headers) \<le> i \<and> i < 0 then Inr (Some (headers ! nat (int (length headers) + i)))
         else Inl IndexError)"

record row_keys =
  rk_date :: string
  rk_amount :: "string option"
  rk_description :: "string option"
  rk_notes :: "string option"
  rk_payee :: "string option"
  rk_counterparty :: "string option"
  rk_debit :: "string option"
  rk_credit :: "string option"

text \<open>\<open>row.get(key, "").strip() if key else ""\<close>: an empty header name counts as no column.\<close>

definition keyed_cell :: "raw_row \<Rightarrow> string option \<Rightarrow> string result" where
  "keyed_cell raw key =
    (case key of None \<Rightarrow> Inr [] | Some k \<Rightarrow> if k = [] then Inr [] else cell raw k)"

definition is_set :: "string option \<Rightarrow> bool" where
  "is_set key \<longleftrightarrow> key \<noteq> None \<and> key \<noteq> Some []"

definition side_amount :: "column_mapping \<Rightarrow> string \<Rightarrow> number result" where
  "side_amount m text =
    (if text = [] then Inr (Finite 0)
     else parse_amount text (cm_decimal_separator m) (cm_thousands_separator m))"

text \<open>The amount of a row, \<open>None\<close> when it has none and is skipped.\<close>

definition row_amount :: "column_mapping \<Rightarrow> row_keys \<Rightarrow> raw_row \<Rightarrow> number option result" where
  "row_amount m keys raw =
    (if is_set (rk_amount keys) then
       ebind (keyed_cell raw (rk_amount keys)) (\<lambda>raw_amount.
       if raw_amount = [] then Inr None
       else ebind (parse_amount raw_amount (cm_decimal_separator m) (cm_thousands_separator m)) (\<lambda>amount.
         if cm_negative_for_expenses m then Inr (Some amount)
         else ebind (number_neg amount) (\<lambda>x. Inr (Some x))))
     else
       ebind (keyed_cell raw (rk_debit keys)) (\<lambda>raw_debit.
       ebind (keyed_cell raw (rk_credit keys)) (\<lambda>raw_credit.
       ebind (side_amount m raw_debit) (\<lambda>debit.
       ebind (side_amount m raw_credit) (\<lambda>credit.
       ebind (number_sub credit debit) (\<lambda>x. Inr (Some x)))))))"

definition parse_row :: "column_mapping \<Rightarrow> row_keys \<Rightarrow> raw_row \<Rightarrow> parsed_row option result" where
  "parse_row m keys raw =
    ebind (case raw (rk_date keys) of
             None \<Rightarrow> parse_date [] (cm_date_format m)
           | Some None \<Rightarrow> Inl AttributeError
           | Some (Some v) \<Rightarrow> parse_date v (cm_date_format m)) (\<lambda>d.
    ebind (row_amount m keys raw) (\<lambda>amount.
    case amount of
      None \<Rightarrow> Inr None
    | Some n \<Rightarrow>
        ebind (keyed_cell raw (rk_description keys)) (\<lambda>description.
        ebind (keyed_cell raw (rk_notes keys)) (\<lambda>notes.
        ebind (keyed_cell raw (rk_payee keys)) (\<lambda>payee.
        ebind (keyed_cell raw (rk_counterparty keys)) (\<lambda>counterparty.
        let raw1 = (if payee \<noteq> [] then raw(''payee'' \<mapsto> Some payee) else raw);
            raw2 = (if counterparty \<noteq> [] then raw1(''counterparty_account'' \<mapsto> Some counterparty) else raw1)
        in Inr (Some \<lparr>pr_date = d, pr_amount = n,
             pr_description = (if description = [] then payee else description),
             pr_raw = raw2, pr_notes = notes\<rparr>)))))))"

text \<open>\<open>except (ImportError_, KeyError)\<close> around one row; every other exception leaves the loop.\<close>

definition parse_record ::
  "column_mapping \<Rightarrow> row_keys \<Rightarrow> nat \<times> raw_row \<Rightarrow> import_result \<Rightarrow> import_result result" where
  "parse_record m keys rec res =
    (case parse_row m keys (snd rec) of
       Inl err \<Rightarrow>
         (if err = KeyError \<or> (case err of ImportError x \<Rightarrow> True | _ \<Rightarrow> False)
          then Inr (res\<lparr>ir_errors := ir_errors res @ [BadLine (fst rec) err],
                        ir_error_rows := ir_error_rows res @ [fst rec]\<rparr>)
          else Inl err)
     | Inr None \<Rightarrow> Inr (res\<lparr>ir_skipped := ir_skipped res + 1\<rparr>)
     | Inr (Some row) \<Rightarrow> Inr (res\<lparr>ir_rows := ir_rows res @ [row]\<rparr>))"

definition keys_of :: "column_mapping \<Rightarrow> string list \<Rightarrow> row_keys option result" where
  "keys_of m headers =
    ebind (header_at headers (cm_date m)) (\<lambda>dt.
    ebind (header_at headers (cm_amount m)) (\<lambda>am.
    ebind (header_at headers (cm_description m)) (\<lambda>de.
    ebind (header_at headers (cm_notes m)) (\<lambda>no.
    ebind (header_at headers (cm_payee m)) (\<lambda>pa.
    ebind (header_at headers (cm_counterparty m)) (\<lambda>co.
    ebind (header_at headers (cm_debit m)) (\<lambda>db.
    ebind (header_at headers (cm_credit m)) (\<lambda>cr.
    Inr (map_option (\<lambda>k. \<lparr>rk_date = k, rk_amount = am, rk_description = de, rk_notes = no, rk_payee = pa,
      rk_counterparty = co, rk_debit = db, rk_credit = cr\<rparr>) dt)))))))))"

definition parse_csv :: "string \<Rightarrow> char option \<Rightarrow> column_mapping option \<Rightarrow> import_result result" where
  "parse_csv content delimiter mapping =
    (let d = (case delimiter of Some x \<Rightarrow> x | None \<Rightarrow> detect_delimiter content);
         (records, err) = csv_reader d content
     in case records of
          [] \<Rightarrow> (case err of Some e \<Rightarrow> Inl e | None \<Rightarrow> Inr (no_rows\<lparr>ir_errors := [NoHeaders]\<rparr>))
        | (n, headers) # rest \<Rightarrow>
            if headers = [] then Inr (no_rows\<lparr>ir_errors := [NoHeaders]\<rparr>)
            else let m = (case mapping of Some x \<Rightarrow> x | None \<Rightarrow> detect_column_mapping headers)
            in if mapping = None \<and> cm_date m = None then Inr (no_rows\<lparr>ir_errors := [NoDateColumn headers]\<rparr>)
            else if mapping = None \<and> cm_amount m = None \<and> cm_debit m = None \<and> cm_credit m = None
            then Inr (no_rows\<lparr>ir_errors := [NoAmountColumn headers]\<rparr>)
            else if mapping \<noteq> None \<and> validation_errors m \<noteq> []
            then Inr (no_rows\<lparr>ir_errors := validation_errors m\<rparr>)
            else ebind (keys_of m headers) (\<lambda>keys.
              case keys of
                None \<Rightarrow> Inr (no_rows\<lparr>ir_errors := [NoDateColumn headers]\<rparr>)
              | Some ks \<Rightarrow>
                  ebind (efold (parse_record m ks) (dict_rows headers rest) no_rows) (\<lambda>res.
                  case err of Some e \<Rightarrow> Inl e | None \<Rightarrow> Inr res)))"

section \<open>Every record of the file is accounted for\<close>

definition seen :: "import_result \<Rightarrow> nat" where
  "seen res = length (ir_rows res) + length (ir_error_rows res) + ir_skipped res"

lemma seen_no_rows [simp]: "seen no_rows = 0"
  by (simp add: seen_def no_rows_def)

lemma parse_record_seen: "parse_record m ks rec res = Inr res' \<Longrightarrow> seen res' = seen res + 1"
  by (auto simp: parse_record_def seen_def split: sum.splits option.splits if_splits)

lemma records_seen: "efold (parse_record m ks) recs res = Inr res' \<Longrightarrow> seen res' = seen res + length recs"
proof (induction recs arbitrary: res)
  case Nil
  then show ?case by simp
next
  case (Cons r recs)
  then obtain u where "parse_record m ks r res = Inr u" "efold (parse_record m ks) recs u = Inr res'"
    by (auto simp: ebind_Inr_iff)
  then show ?case using Cons.IH parse_record_seen by fastforce
qed

lemma length_skip_blank: "length (skip_blank k rs) = length (filter (\<lambda>row. row \<noteq> []) (map snd rs))"
  by (induction k rs rule: skip_blank.induct) (simp_all add: Let_def)

lemma length_dict_rows: "length (dict_rows hs rs) = length (filter (\<lambda>row. row \<noteq> []) (map snd rs))"
  by (simp add: dict_rows_def length_skip_blank)

text \<open>
  C34. No record of a statement is lost without a trace: when a file is parsed with a complete mapping,
  the rows it yields, the rows reported as unparseable and the rows skipped for having no amount add up to
  the number of records that the inspection of the file announced.
\<close>

theorem parse_csv_accounts_for_every_record:
  assumes "inspect_csv content delimiter limit = Inr insp" and "ci_headers insp \<noteq> []"
    and "parse_csv content delimiter (Some m) = Inr res" and "validation_errors m = []"
  shows "length (ir_rows res) + length (ir_error_rows res) + ir_skipped res = ci_total_rows insp"
proof -
  define d where "d = (case delimiter of Some x \<Rightarrow> x | None \<Rightarrow> detect_delimiter content)"
  obtain records err where r: "csv_reader d content = (records, err)" by (metis surj_pair)
  obtain n headers rest where cons: "records = (n, headers) # rest"
    using assms(1,2) r by (auto simp: inspect_csv_def d_def [symmetric] Let_def split: list.splits option.splits)
  have e: "err = None" and insp: "ci_total_rows insp = length (filter (\<lambda>row. row \<noteq> []) (map snd rest))"
    and h: "headers \<noteq> []"
    using assms(1,2) r cons by (auto simp: inspect_csv_def d_def [symmetric] Let_def split: option.splits)
  have dt: "cm_date m \<noteq> None" using assms(4) by (auto simp: validation_errors_def split: if_splits)
  obtain keys where k: "keys_of m headers = Inr keys"
    and b: "(case keys of None \<Rightarrow> Inr (no_rows\<lparr>ir_errors := [NoDateColumn headers]\<rparr>)
      | Some ks \<Rightarrow> ebind (efold (parse_record m ks) (dict_rows headers rest) no_rows) (\<lambda>res. Inr res)) = Inr res"
    using assms(3,4) r cons e h
    by (auto simp: parse_csv_def d_def [symmetric] Let_def ebind_Inr_iff)
  have "keys \<noteq> None" using k dt by (auto simp: keys_of_def ebind_Inr_iff header_at_def split: if_splits)
  then obtain ks where "efold (parse_record m ks) (dict_rows headers rest) no_rows = Inr res"
    using b by (auto simp: ebind_Inr_iff)
  from records_seen [OF this] show ?thesis by (simp add: seen_def [symmetric] insp length_dict_rows)
qed

definition ex_mapping :: column_mapping where
  "ex_mapping = no_mapping\<lparr>cm_date := Some 0, cm_amount := Some 1, cm_description := Some 2, cm_date_format := ''%Y-%m-%d''\<rparr>"

definition ex_statement :: string where
  "ex_statement = write_rows (CHR '','') [[''day'', ''sum'', ''what''], [''2026-07-01'', ''-1'', ''a''],
     [''soon'', ''3'', ''b''], [''2026-07-02'', '''', ''c'']]"

theorem parse_csv_accounts_for_every_record_witness:
  "\<exists>insp res. inspect_csv ex_statement (Some (CHR '','')) 10 = Inr insp \<and>
    parse_csv ex_statement (Some (CHR '','')) (Some ex_mapping) = Inr res \<and> ci_total_rows insp = 3 \<and>
    length (ir_rows res) + length (ir_error_rows res) + ir_skipped res = 3"
proof -
  have "(case inspect_csv ex_statement (Some (CHR '','')) 10 of Inl _ \<Rightarrow> False
      | Inr insp \<Rightarrow> ci_headers insp \<noteq> [] \<and> ci_total_rows insp = 3)" by code_simp
  then obtain insp where i: "inspect_csv ex_statement (Some (CHR '','')) 10 = Inr insp" "ci_headers insp \<noteq> []"
    "ci_total_rows insp = 3" by (auto split: sum.splits)
  have "succeeds (parse_csv ex_statement (Some (CHR '','')) (Some ex_mapping))" by code_simp
  then obtain res where r: "parse_csv ex_statement (Some (CHR '','')) (Some ex_mapping) = Inr res"
    by (auto elim: succeedsE)
  have "validation_errors ex_mapping = []" by (simp add: validation_errors_def ex_mapping_def no_mapping_def)
  from parse_csv_accounts_for_every_record [OF i(1,2) r this] i r show ?thesis by auto
qed

section \<open>Amounts in every notation\<close>

text \<open>An amount as a bank writes it: a sign, groups of digits, the decimal separator and the fraction.\<close>

fun join_groups :: "string \<Rightarrow> string list \<Rightarrow> string" where
  "join_groups sep [] = []"
| "join_groups sep [g] = g"
| "join_groups sep (g # h # gs) = g @ sep @ join_groups sep (h # gs)"

definition written :: "bool \<Rightarrow> string list \<Rightarrow> string \<Rightarrow> string \<Rightarrow> string \<Rightarrow> string" where
  "written neg groups fr dec th = (if neg then ''-'' else []) @ join_groups th groups @ dec @ fr"

definition written_value :: "bool \<Rightarrow> string list \<Rightarrow> string \<Rightarrow> decimal" where
  "written_value neg groups fr =
    (let x = of_nat (digits_value (concat groups @ fr)) / 10 ^ length fr in if neg then - x else x)"

definition digits :: "string \<Rightarrow> bool" where
  "digits s \<longleftrightarrow> s \<noteq> [] \<and> list_all is_digit s"

lemma digit_facts:
  assumes "is_digit c"
  shows "\<not> is_space c" "\<not> is_upper c" "c \<noteq> CHR '' ''" "c \<noteq> CHR '',''" "c \<noteq> CHR ''.''" "c \<noteq> CHR ''-''"
    "c \<noteq> CHR ''+''" "c \<noteq> CHR ''_''" "c \<noteq> char_of (194 :: nat)" "lower_char c = c"
  using assms by (auto simp: is_digit_def is_space_def is_upper_def lower_char_def)

lemma replace_char: "replace_text [t] [] s = filter (\<lambda>c. c \<noteq> t) s"
  by (induction s) auto

lemma replace_absent: "old \<noteq> [] \<Longrightarrow> hd old \<notin> set s \<Longrightarrow> replace_text old new s = s"
proof (induction s)
  case Nil
  then show ?case by simp
next
  case (Cons c s)
  then have "take (length old) (c # s) \<noteq> old" by (cases old) auto
  with Cons show ?case by simp
qed

lemma strip_ends: "s \<noteq> [] \<Longrightarrow> \<not> is_space (hd s) \<Longrightarrow> \<not> is_space (last s) \<Longrightarrow> strip s = s"
proof -
  assume s: "s \<noteq> []" "\<not> is_space (hd s)" "\<not> is_space (last s)"
  then have "dropWhile is_space s = s" by (cases s) auto
  moreover have "dropWhile is_space (rev s) = rev s" using s by (cases s rule: rev_cases) auto
  ultimately show ?thesis by (simp add: strip_def)
qed

lemma digitsD: "digits s \<Longrightarrow> s \<noteq> [] \<and> (\<forall>c \<in> set s. is_digit c)"
  by (simp add: digits_def list_all_iff)

lemma digits_concat: "gs \<noteq> [] \<Longrightarrow> list_all digits gs \<Longrightarrow> digits (concat gs)"
  by (induction gs) (auto simp: digits_def list_all_iff)

lemma join_nil [simp]: "join_groups [] gs = concat gs"
proof (induction gs)
  case (Cons g gs)
  then show ?case by (cases gs) simp_all
qed simp

lemma filter_join:
  assumes "list_all digits gs" and "\<not> is_digit t"
  shows "filter (\<lambda>c. c \<noteq> t) (join_groups [t] gs) = concat gs"
  using assms(1)
proof (induction gs)
  case (Cons g gs)
  have "filter (\<lambda>c. c \<noteq> t) g = g" using Cons.prems assms(2) by (auto simp: digits_def list_all_iff filter_id_conv)
  with Cons show ?case by (cases gs) simp_all
qed simp

lemma set_join: "set (join_groups sep gs) \<subseteq> set sep \<union> set (concat gs)"
proof (induction gs)
  case (Cons g gs)
  then show ?case by (cases gs) auto
qed simp

lemma hd_join: "gs \<noteq> [] \<Longrightarrow> list_all digits gs \<Longrightarrow> join_groups sep gs \<noteq> [] \<and> is_digit (hd (join_groups sep gs))"
  by (cases gs; cases "tl gs") (auto simp: digits_def list_all_iff)

text \<open>The number as \<open>Decimal\<close> reads it.\<close>

definition sign_of :: "bool \<Rightarrow> string" where
  "sign_of neg = (if neg then ''-'' else [])"

lemma finite_of_digits:
  assumes "digits ds" and "digits fr"
  shows "finite_of neg (ds @ CHR ''.'' # fr) = Some (Finite (let x = of_nat (digits_value (ds @ fr)) / 10 ^ length fr
    in if neg then - x else x))"
proof -
  have d: "digit_run (ds @ CHR ''.'' # fr) = (ds, CHR ''.'' # fr)" "digit_run fr = (fr, [])"
    using digitsD [OF assms(1)] digitsD [OF assms(2)]
    by (auto simp: digit_run_def takeWhile_append dropWhile_append is_digit_def dropWhile_eq_Nil_conv takeWhile_eq_all_conv)
  have "pow10 (- int (length fr)) = 1 / 10 ^ length fr"
    by (simp add: pow10_uminus pow10_of_nat)
  then show ?thesis using digitsD [OF assms(1)] d by (simp add: finite_of_def exponent_of_def Let_def)
qed

lemma casefold_digit_head: "is_digit (hd s) \<Longrightarrow> s \<noteq> [] \<Longrightarrow> hd (casefold s) = hd s \<and> casefold s \<noteq> []"
  by (cases s) (simp_all add: casefold_def digit_facts(10))

lemma decimal_of_written:
  assumes "digits ds" and "digits fr"
  shows "decimal_of (sign_of neg @ ds @ CHR ''.'' # fr) = finite_of neg (ds @ CHR ''.'' # fr)"
proof -
  let ?s = "ds @ CHR ''.'' # fr"
  obtain a as where ds: "ds = a # as" "is_digit a" using digitsD [OF assms(1)] by (cases ds) auto
  obtain z zs where fr: "fr = zs @ [z]" "is_digit z" using digitsD [OF assms(2)] by (cases fr rule: rev_cases) auto
  have clean: "\<forall>c \<in> set (sign_of neg @ ?s). c \<noteq> CHR ''_''"
    using digitsD [OF assms(1)] digitsD [OF assms(2)] digit_facts(8) by (auto simp: sign_of_def)
  have "strip (sign_of neg @ ?s) = sign_of neg @ ?s"
    by (rule strip_ends) (use ds fr digit_facts(1) in \<open>auto simp: sign_of_def is_space_def\<close>)
  then have "filter (\<lambda>c. c \<noteq> CHR ''_'') (strip (sign_of neg @ ?s)) = sign_of neg @ ?s"
    using clean by (simp add: filter_id_conv)
  moreover have "split_sign (sign_of neg @ ?s) = (neg, ?s)"
    using ds digit_facts(6,7) [OF ds(2)] by (simp add: split_sign_def sign_of_def)
  moreover have h: "hd (casefold ?s) = a" "casefold ?s \<noteq> []"
    using casefold_digit_head [of ?s] ds by simp_all
  moreover have "a \<noteq> CHR ''i''" "a \<noteq> CHR ''n''" "a \<noteq> CHR ''s''" using ds(2) by (auto simp: is_digit_def)
  moreover from this h have "casefold ?s \<noteq> ''inf''" "casefold ?s \<noteq> ''infinity''"
    "\<not> starts_with (casefold ?s) ''nan''" "\<not> starts_with (casefold ?s) ''snan''"
    by (cases "casefold ?s"; auto simp: starts_with_def)+
  ultimately show ?thesis by (simp add: decimal_of_def Let_def)
qed

lemma last_in_last_n:
  assumes "xs \<noteq> []" and "0 < n"
  shows "last xs \<in> set (last_n n xs)"
proof -
  have "length xs - n < length xs" using assms by simp
  then have "last (drop (length xs - n) xs) = last xs" "drop (length xs - n) xs \<noteq> []"
    by (simp_all add: last_drop)
  then show ?thesis unfolding last_n_def by (metis last_in_set)
qed

lemma nbsp_char_distinct [simp]:
  "char_of (194 :: nat) \<noteq> CHR '' ''" "char_of (194 :: nat) \<noteq> CHR '',''" "char_of (194 :: nat) \<noteq> CHR ''.''"
  "char_of (194 :: nat) \<noteq> CHR ''-''"
  by code_simp+

lemma trimmed_written:
  assumes "groups \<noteq> []" and "list_all digits groups" and "digits fr"
    and "d = CHR '','' \<or> d = CHR ''.''" and "th \<in> {[], '' '', '','', ''.''}"
    and "suffix = [] \<or> (\<exists>cur. suffix = CHR '' '' # cur \<and> length cur = 3 \<and> list_all is_upper cur)"
  shows "strip (drop_currency (replace_text nbsp [] (strip (written neg groups fr [d] th @ suffix)))) =
    written neg groups fr [d] th"
proof -
  let ?w = "written neg groups fr [d] th" and ?j = "join_groups th groups"
  have w: "?w = sign_of neg @ ?j @ d # fr" by (simp add: written_def sign_of_def)
  note j = hd_join [OF assms(1,2), of th]
  have dg: "\<forall>c \<in> set (concat groups). is_digit c" "\<forall>c \<in> set fr. is_digit c" "fr \<noteq> []"
    using digitsD [OF digits_concat [OF assms(1,2)]] digitsD [OF assms(3)] by blast+
  have hd: "\<not> is_space (hd (?w @ x))" for x
    using j digit_facts(1) by (auto simp: w sign_of_def is_space_def)
  have lst: "is_digit (last ?w)" "?w \<noteq> []" using dg(2,3) by (simp_all add: w)
  have up: "\<not> is_space c" if "is_upper c" for c using that by (auto simp: is_upper_def is_space_def)
  have strip_w: "strip ?w = ?w"
    using strip_ends [OF lst(2)] hd [of "[]"] digit_facts(1) [OF lst(1)] by simp
  have no194: "char_of (194 :: nat) \<notin> set (?w @ suffix)"
  proof -
    let ?n = "char_of (194 :: nat) :: char"
    have u: "\<not> is_upper ?n" "\<not> is_digit ?n" by (simp_all add: is_upper_def is_digit_def)
    have "?n \<notin> set ?j"
    proof
      assume "?n \<in> set ?j"
      then have "?n \<in> set th \<or> ?n \<in> set (concat groups)" using set_join [of th groups] by blast
      moreover have "?n \<notin> set th" using assms(5) by auto
      moreover have "?n \<notin> set (concat groups)" using dg(1) u by blast
      ultimately show False by blast
    qed
    moreover have "?n \<notin> set fr" "?n \<noteq> d" "?n \<notin> set (sign_of neg)"
      using dg u assms(4) by (auto simp: sign_of_def)
    moreover have "?n \<notin> set suffix"
      using assms(6) u by (auto simp: list_all_iff)
    ultimately show ?thesis by (simp add: w)
  qed
  have nb: "replace_text nbsp [] (?w @ suffix) = ?w @ suffix"
    by (rule replace_absent) (use no194 in \<open>auto simp: nbsp_def\<close>)
  show "strip (drop_currency (replace_text nbsp [] (strip (?w @ suffix)))) = ?w"
  proof (cases "suffix = []")
    case True
    have "\<not> list_all is_upper (last_n 3 ?w)" if "3 \<le> length ?w"
    proof -
      have "last ?w \<in> set (last_n 3 ?w)" using last_in_last_n [OF lst(2), of 3] by simp
      then show ?thesis using digit_facts(2) [OF lst(1)] by (auto simp: list_all_iff)
    qed
    then have "drop_currency ?w = ?w" by (simp only: drop_currency_def split: if_split) blast
    then show ?thesis using True strip_w nb by simp
  next
    case False
    then obtain cur where cur: "suffix = CHR '' '' # cur" "length cur = 3" "list_all is_upper cur"
      using assms(6) by auto
    then have "cur \<noteq> []" by auto
    then have "\<not> is_space (last cur)" using up cur(3) last_in_set [of cur] by (simp add: list_all_iff)
    note this \<open>cur \<noteq> []\<close>
    then have "strip (?w @ suffix) = ?w @ suffix"
      using strip_ends [of "?w @ suffix"] hd cur by simp
    moreover have "drop_currency (?w @ suffix) = ?w @ '' ''"
      using cur by (simp add: drop_currency_def last_n_def)
    moreover have "strip (?w @ '' '') = ?w"
    proof -
      have "dropWhile is_space (?w @ '' '') = ?w @ '' ''" using hd [of "'' ''"] by (cases ?w) auto
      moreover have "dropWhile is_space (rev ?w) = rev ?w"
        using lst digit_facts(1) by (cases ?w rule: rev_cases) auto
      ultimately show ?thesis by (simp add: strip_def is_space_def)
    qed
    ultimately show ?thesis using nb by simp
  qed
qed

lemma ungrouped_written:
  assumes "groups \<noteq> []" and "list_all digits groups" and "digits fr"
    and "d = CHR '','' \<or> d = CHR ''.''" and "th \<in> {[], '' '', '','', ''.''}" and "th \<noteq> [d]"
  shows "(if th \<noteq> [] then replace_text th [] (written neg groups fr [d] th)
      else without (CHR '' '') (written neg groups fr [d] th)) = sign_of neg @ concat groups @ d # fr"
proof -
  let ?w = "written neg groups fr [d] th" and ?u = "sign_of neg @ concat groups @ d # fr"
  have dg: "\<forall>c \<in> set (concat groups). is_digit c" "\<forall>c \<in> set fr. is_digit c"
    using digitsD [OF digits_concat [OF assms(1,2)]] digitsD [OF assms(3)] by blast+
    have f: "filter (\<lambda>c. c \<noteq> t) xs = xs" if "\<forall>c \<in> set xs. is_digit c" "\<not> is_digit t" for xs t
      using that by (auto simp: filter_id_conv)
    have nd: "\<not> is_digit (CHR '' '')" "\<not> is_digit (CHR '','')" "\<not> is_digit (CHR ''.'')" by (simp_all add: is_digit_def)
    show ?thesis
    proof (cases "th = []")
      case True
      have "without (CHR '' '') ?w = ?u"
        using assms(4) f [OF dg(1) nd(1)] f [OF dg(2) nd(1)] by (auto simp: written_def True sign_of_def without_def)
      then show ?thesis using True by simp
    next
      case False
      then obtain t where t: "th = [t]" "\<not> is_digit t" "t \<noteq> CHR ''-''" "t \<noteq> d"
        using assms(5,6) nd by auto
      have "filter (\<lambda>c. c \<noteq> t) ?w = ?u"
        using t filter_join [OF assms(2) t(2)] f [OF dg(2) t(2)] by (auto simp: written_def sign_of_def)
      then show ?thesis using t(1) replace_char by simp
    qed
qed

lemma plain_written:
  assumes "\<forall>c \<in> set ds. is_digit c" and "\<forall>c \<in> set fr. is_digit c"
  shows "comma_to_dot (sign_of neg @ ds @ CHR '','' # fr) = sign_of neg @ ds @ CHR ''.'' # fr"
    and "without (CHR ''.'') (sign_of neg @ ds @ CHR '','' # fr) = sign_of neg @ ds @ CHR '','' # fr"
    and "without (CHR '','') (sign_of neg @ ds @ CHR ''.'' # fr) = sign_of neg @ ds @ CHR ''.'' # fr"
proof -
  have "map (\<lambda>x. if x = CHR '','' then CHR ''.'' else x) xs = xs" if "\<forall>c \<in> set xs. is_digit c" for xs
    using that digit_facts(4) by (intro map_idI) auto
  note m = this [OF assms(1)] this [OF assms(2)]
  show "comma_to_dot (sign_of neg @ ds @ CHR '','' # fr) = sign_of neg @ ds @ CHR ''.'' # fr"
    by (simp add: comma_to_dot_def m sign_of_def)
  have f: "filter (\<lambda>x. x \<noteq> c) xs = xs" if "\<forall>c \<in> set xs. is_digit c" "\<not> is_digit c" for xs c
    using that by (auto simp: filter_id_conv)
  have nd: "\<not> is_digit (CHR '','')" "\<not> is_digit (CHR ''.'')" by (simp_all add: is_digit_def)
  show "without (CHR ''.'') (sign_of neg @ ds @ CHR '','' # fr) = sign_of neg @ ds @ CHR '','' # fr"
    by (simp add: without_def f [OF assms(1) nd(2)] f [OF assms(2) nd(2)] sign_of_def)
  show "without (CHR '','') (sign_of neg @ ds @ CHR ''.'' # fr) = sign_of neg @ ds @ CHR ''.'' # fr"
    by (simp add: without_def f [OF assms(1) nd(1)] f [OF assms(2) nd(1)] sign_of_def)
qed



text \<open>
  Without explicit separators a number with both a comma and a dot is read as European, whichever comes
  last: an American amount loses its decimal point by two digits.
\<close>

lemma american_amount_misread:
  "parse_amount ''1,234.56'' [] [] = Inr (Finite (123456 / 100000))"
proof -
  have "clean_amount ''1,234.56'' [] [] = sign_of False @ ''1'' @ CHR ''.'' # ''23456''" by code_simp
  moreover have d: "digits ''1''" "digits ''23456''" by (simp_all add: digits_def is_digit_def)
  ultimately show ?thesis
    by (simp only: parse_amount_def decimal_of_written [OF d] finite_of_digits [OF d] option.case)
      (simp add: digits_value_def)
qed

section \<open>Dates in every format\<close>

definition two :: "int \<Rightarrow> string" where
  "two n = [digit_char (nat (n div 10)), digit_char (nat (n mod 10))]"

definition four :: "int \<Rightarrow> string" where
  "four n = two (n div 100) @ two (n mod 100)"

primrec shown_part :: "date \<Rightarrow> directive \<Rightarrow> string" where
  "shown_part dt Year4 = four (d_year dt)"
| "shown_part dt Year2 = two (d_year dt mod 100)"
| "shown_part dt Month = two (d_month dt)"
| "shown_part dt Day = two (d_day dt)"
| "shown_part dt (Literal c) = [c]"

text \<open>\<open>d.strftime(fmt)\<close>\<close>

definition strftime :: "date \<Rightarrow> string \<Rightarrow> string" where
  "strftime dt fmt = concat (map (shown_part dt) (directives fmt))"

lemma digit_char_facts:
  assumes "n < 10"
  shows "is_digit (digit_char n)" "digit_of (digit_char n) = n" "digit_char n = CHR ''0'' \<longleftrightarrow> n = 0"
proof -
  have c: "(of_char (digit_char n) :: nat) = 48 + n"
    using assms by (simp add: digit_char_def)
  then show "is_digit (digit_char n)" "digit_of (digit_char n) = n"
    using assms by (simp_all add: is_digit_def digit_of_def)
  have "digit_char n = CHR ''0'' \<longleftrightarrow> (of_char (digit_char n) :: nat) = of_char (CHR ''0'')"
    by (simp only: of_char_eq_iff)
  then show "digit_char n = CHR ''0'' \<longleftrightarrow> n = 0" by (simp add: c)
qed

lemma two_shape:
  assumes "0 \<le> n" and "n < 100"
  obtains a b where "two n = [digit_char a, digit_char b]" "a < 10" "b < 10" "nat n = 10 * a + b"
proof -
  obtain k where k: "n = int k" "k < 100" using assms by (metis nat_0_le nat_less_iff of_nat_numeral of_nat_less_iff)
  have "two n = [digit_char (k div 10), digit_char (k mod 10)]"
    by (simp add: two_def k(1) nat_div_distrib nat_mod_distrib)
  moreover have "k div 10 < 10" "k mod 10 < 10" "nat n = 10 * (k div 10) + k mod 10" using k by simp_all
  ultimately show thesis by (rule that)
qed

lemma two_digits_two:
  assumes "0 \<le> n" and "n < 100"
  shows "two_digits lo hi (two n @ r) = (if lo \<le> nat n \<and> nat n \<le> hi then [(nat n, r)] else [])"
proof -
  obtain a b where "two n = [digit_char a, digit_char b]" "a < 10" "b < 10" "nat n = 10 * a + b"
    by (rule two_shape [OF assms])
  then show ?thesis by (simp add: two_digits_def digit_char_facts)
qed

lemma year_four:
  assumes "0 \<le> y" and "y < 10000"
  shows "alternatives Year4 (four y @ r) = [(nat y, r)]"
proof -
  have b: "0 \<le> y div 100" "y div 100 < 100" "0 \<le> y mod 100" "y mod 100 < 100" using assms by auto
  obtain a b' where t1: "two (y div 100) = [digit_char a, digit_char b']" "a < 10" "b' < 10"
    "nat (y div 100) = 10 * a + b'" by (rule two_shape [OF b(1,2)])
  obtain c d where t2: "two (y mod 100) = [digit_char c, digit_char d]" "c < 10" "d < 10"
    "nat (y mod 100) = 10 * c + d" by (rule two_shape [OF b(3,4)])
  have cv: "(of_char (digit_char n) :: nat) = 48 + n" if "n < 10" for n using that by (simp add: digit_char_def)
  have "y = 100 * (y div 100) + y mod 100" by simp
  then have "nat y = 100 * nat (y div 100) + nat (y mod 100)" using b by linarith
  then have "digits_value (four y) = nat y"
    unfolding t1(4) t2(4) by (simp add: digits_value_def four_def t1(1) t2(1) cv t1(2,3) t2(2,3))
  moreover have "length (four y) = 4" "list_all is_digit (four y)"
    by (simp_all add: four_def t1(1) t2(1) digit_char_facts t1(2,3) t2(2,3))
  ultimately show ?thesis by simp
qed

definition part_value :: "date \<Rightarrow> directive \<Rightarrow> nat" where
  "part_value dt x = (case x of Year4 \<Rightarrow> nat (d_year dt) | Year2 \<Rightarrow> nat (d_year dt mod 100)
     | Month \<Rightarrow> nat (d_month dt) | Day \<Rightarrow> nat (d_day dt) | Literal c \<Rightarrow> 0)"

lemma valid_bounds:
  assumes "valid_date dt"
  shows "0 < d_year dt" "d_year dt < 10000" "1 \<le> d_month dt" "d_month dt \<le> 12" "1 \<le> d_day dt" "d_day dt \<le> 31"
proof -
  have "days_in_month y m \<le> 31" for y m by (simp add: days_in_month_def)
  then show "0 < d_year dt" "d_year dt < 10000" "1 \<le> d_month dt" "d_month dt \<le> 12" "1 \<le> d_day dt" "d_day dt \<le> 31"
    using assms by (cases dt; auto simp: valid_date_def intro: order_trans)+
qed

lemma alternatives_shown:
  assumes "valid_date dt"
  shows "\<exists>xs. alternatives x (shown_part dt x @ r) = (part_value dt x, r) # xs"
proof (cases x)
  case Year4
  then show ?thesis using year_four [of "d_year dt"] valid_bounds [OF assms] by (simp add: part_value_def)
next
  case Year2
  then show ?thesis using two_digits_two [of "d_year dt mod 100" 0 99 r] by (simp add: part_value_def)
next
  case Month
  have b: "0 \<le> d_month dt" "d_month dt < 100" "1 \<le> d_month dt" "d_month dt \<le> 12"
    using valid_bounds [OF assms] by simp_all
  show ?thesis unfolding Month using b(3,4) by (auto simp: part_value_def two_digits_two [OF b(1,2)])
next
  case Day
  have b: "0 \<le> d_day dt" "d_day dt < 100" "1 \<le> d_day dt" "d_day dt \<le> 31"
    using valid_bounds [OF assms] by simp_all
  show ?thesis unfolding Day using b(3,4) by (auto simp: part_value_def two_digits_two [OF b(1,2)])
qed (simp add: part_value_def)

lemma match_shown:
  assumes "valid_date dt"
  shows "match_format xs p (concat (map (shown_part dt) xs)) =
    Some (fold (\<lambda>x. put_part x (part_value dt x)) xs p, [])"
proof (induction xs arbitrary: p)
  case Nil
  then show ?case by simp
next
  case (Cons x xs)
  obtain as where "alternatives x (shown_part dt x @ concat (map (shown_part dt) xs)) =
      (part_value dt x, concat (map (shown_part dt) xs)) # as"
    using alternatives_shown [OF assms] by blast
  then show ?case using Cons.IH by simp
qed

lemma parts_put:
  assumes "Year2 \<notin> set xs"
  shows "dp_year (fold (\<lambda>x. put_part x (part_value dt x)) xs p) =
      (if Year4 \<in> set xs then part_value dt Year4 else dp_year p)"
    and "dp_month (fold (\<lambda>x. put_part x (part_value dt x)) xs p) =
      (if Month \<in> set xs then part_value dt Month else dp_month p)"
    and "dp_day (fold (\<lambda>x. put_part x (part_value dt x)) xs p) =
      (if Day \<in> set xs then part_value dt Day else dp_day p)"
proof -
  have "dp_year (put_part x n q) = (if x = Year4 then n else dp_year q)"
    "dp_month (put_part x n q) = (if x = Month then n else dp_month q)"
    "dp_day (put_part x n q) = (if x = Day then n else dp_day q)" if "x \<noteq> Year2" for x n q
    using that by (cases x; simp)+
  note one = this
  show "dp_year (fold (\<lambda>x. put_part x (part_value dt x)) xs p) =
      (if Year4 \<in> set xs then part_value dt Year4 else dp_year p)"
    using assms by (induction xs arbitrary: p) (auto simp: one)
  show "dp_month (fold (\<lambda>x. put_part x (part_value dt x)) xs p) =
      (if Month \<in> set xs then part_value dt Month else dp_month p)"
    using assms by (induction xs arbitrary: p) (auto simp: one)
  show "dp_day (fold (\<lambda>x. put_part x (part_value dt x)) xs p) =
      (if Day \<in> set xs then part_value dt Day else dp_day p)"
    using assms by (induction xs arbitrary: p) (auto simp: one)
qed

lemma strptime_strftime:
  assumes "valid_date dt" and "{Year4, Month, Day} \<subseteq> set (directives fmt)" and "Year2 \<notin> set (directives fmt)"
  shows "strptime (strftime dt fmt) fmt = Inr dt"
proof -
  have "Date (int (nat (d_year dt))) (int (nat (d_month dt))) (int (nat (d_day dt))) = dt"
    using valid_bounds [OF assms(1)] by (cases dt) simp
  then show ?thesis
    using match_shown [OF assms(1)] parts_put [OF assms(3)] assms(1,2)
    by (simp add: strptime_def strftime_def part_value_def mk_date_def)
qed

lemma strip_strftime:
  assumes "fmt \<in> set DATE_FORMATS" and "valid_date dt"
  shows "strip (strftime dt fmt) = strftime dt fmt"
proof -
  have sp: "\<not> is_space (digit_char n)" if "n < 10" for n using digit_char_facts(1) [OF that] digit_facts(1) by blast
  have ends: "two n \<noteq> [] \<and> \<not> is_space (hd (two n)) \<and> \<not> is_space (last (two n))" if "0 \<le> n" "n < 100" for n
    by (rule two_shape [OF that]) (simp add: sp)
  note v = valid_bounds [OF assms(2)]
  have d: "two (d_day dt) \<noteq> []" "\<not> is_space (hd (two (d_day dt)))" "\<not> is_space (last (two (d_day dt)))"
    "\<not> is_space (hd (two (d_month dt)))" "two (d_month dt) \<noteq> []"
    using ends [of "d_day dt"] ends [of "d_month dt"] v by auto
  have y: "four (d_year dt) \<noteq> []" "\<not> is_space (hd (four (d_year dt)))" "\<not> is_space (last (four (d_year dt)))"
    using ends [of "d_year dt div 100"] ends [of "d_year dt mod 100"] v by (auto simp: four_def)
  from assms(1) have "fmt \<in> {''%Y-%m-%d'', ''%d.%m.%Y'', ''%d/%m/%Y'', ''%m/%d/%Y'', ''%d-%m-%Y'', ''%Y%m%d''}"
    by (simp add: DATE_FORMATS_def)
  then show ?thesis
    by (elim insertE emptyE; intro strip_ends) (simp_all add: strftime_def d y)
qed

text \<open>
  A date written in any of the formats the importer knows is read back when that format is chosen, and
  an ISO date is read back without choosing one.
\<close>

lemma dates_are_read_back:
  assumes "valid_date dt" and "fmt \<in> set DATE_FORMATS"
  shows "parse_date (strftime dt fmt) fmt = Inr dt \<and> parse_date (strftime dt ''%Y-%m-%d'') [] = Inr dt"
proof -
  have rb: "strptime (strip (strftime dt f)) f = Inr dt" if "f \<in> set DATE_FORMATS" for f
    unfolding strip_strftime [OF that assms(1)]
    by (rule strptime_strftime [OF assms(1)]) (use that in \<open>auto simp: DATE_FORMATS_def\<close>)
  have "''%Y-%m-%d'' \<in> set DATE_FORMATS" by (simp add: DATE_FORMATS_def)
  note iso = rb [OF this]
  obtain rest where fs: "DATE_FORMATS = ''%Y-%m-%d'' # rest" by (simp add: DATE_FORMATS_def)
  have "first_some (\<lambda>f. case strptime (strip (strftime dt ''%Y-%m-%d'')) f of Inl _ \<Rightarrow> None | Inr d \<Rightarrow> Some d)
      DATE_FORMATS = Some dt"
    by (simp only: fs first_some.simps iso sum.case option.case)
  moreover have "fmt \<noteq> []" using assms(2) by (auto simp: DATE_FORMATS_def)
  ultimately show ?thesis by (simp add: parse_date_def rb [OF assms(2)])
qed

lemma dates_are_read_back_witness: "parse_date ''29.02.2024'' ''%d.%m.%Y'' = Inr (Date 2024 2 29)"
proof -
  have "valid_date (Date 2024 2 29)" by (simp add: valid_date_def days_in_month_def is_leap_def)
  moreover have "''%d.%m.%Y'' \<in> set DATE_FORMATS" by (simp add: DATE_FORMATS_def)
  moreover have "strftime (Date 2024 2 29) ''%d.%m.%Y'' = ''29.02.2024''" by code_simp
  ultimately show ?thesis using dates_are_read_back by metis
qed

section \<open>The remembered mapping\<close>

lemma mapping_round_trip: "from_dict (to_dict m) = Inr m"
proof -
  have "optional_int (Some (json_opt v)) = Inr v" for v by (cases v) (simp_all add: json_opt_def)
  then show ?thesis by (cases m) (simp add: from_dict_def to_dict_def)
qed

section \<open>Where the parser goes wrong\<close>

text \<open>
  A record shorter than the header has no text in its last columns. Reading one of them raises
  \<open>AttributeError\<close>, which the handler around a row does not catch: the whole file fails.
\<close>

lemma short_record_fails_the_file:
  assumes "raw (rk_date ks) = Some None" and "rec = (n, raw)"
  shows "efold (parse_record m ks) (rec # recs) res = Inl AttributeError"
  using assms by (simp add: parse_record_def parse_row_def)

text \<open>A mapping made for a wider file points outside the header: \<open>IndexError\<close>, outside every handler.\<close>

lemma stale_mapping_fails_the_file:
  assumes "cm_date m = Some i" and "int (length headers) \<le> i"
  shows "keys_of m headers = Inl IndexError"
  using assms by (simp add: keys_of_def header_at_def)

text \<open>An amount column whose header is empty counts as not mapped: every row is booked with amount zero.\<close>

lemma empty_amount_header_books_zero:
  assumes "rk_amount ks = Some []" and "rk_debit ks = None" and "rk_credit ks = None"
  shows "row_amount m ks raw = Inr (Some (Finite 0))"
  using assms by (simp add: row_amount_def is_set_def keyed_cell_def side_amount_def ctx_def)

text \<open>Of two columns with the same header the last is read, whichever the mapping points at.\<close>

lemma twin_headers_read_the_last: "dict_row [h, h] [a, b] h = Some (Some b)"
  by (simp add: dict_row_def)

text \<open>After a blank line a bad row is reported under the number of the blank line.\<close>

lemma blank_line_shifts_the_report:
  "dict_rows [h] [(2, []), (3, [v])] = [(2, dict_row [h] [v])]"
  by (simp add: dict_rows_def)

end
