(* ===== verification/LedgerExport.thy ===== *)
theory LedgerExport
  imports ImportFormats
begin

text \<open>
  \<open>TransactionService.export_ledger_csv\<close> (\<open>src/src/kaleta/services/transaction_service.py\<close>): the whole ledger as
  CSV. The export is a faithful CSV file, and the program's own statement parser reads it back row by row.
\<close>

section \<open>Definitions\<close>

text \<open>\<open>str\<close> of a \<open>Numeric(15, 2)\<close> value, which always has two decimal places.\<close>

definition str_money :: "decimal \<Rightarrow> string" where
  "str_money x =
    (let n = nat (round_to_int ROUND_HALF_EVEN (\<bar>x\<bar> * 100))
     in sign_of (x < 0) @ str_nat (n div 100) @ CHR ''.'' # two (int (n mod 100)))"

fun type_value :: "transaction_type \<Rightarrow> string" where
  "type_value INCOME = ''income''"
| "type_value EXPENSE = ''expense''"
| "type_value TRANSFER = ''transfer''"

definition category_name :: "db \<Rightarrow> int option \<Rightarrow> string option" where
  "category_name s c = (case c of None \<Rightarrow> None | Some i \<Rightarrow> map_option cat_name (find_row cat_id i (categories s)))"

fun join_with :: "string \<Rightarrow> string list \<Rightarrow> string" where
  "join_with sep [] = []"
| "join_with sep [w] = w"
| "join_with sep (w # v # ws) = w @ sep @ join_with sep (v # ws)"

definition category_display_label :: "db \<Rightarrow> transaction \<Rightarrow> string" where
  "category_display_label s t =
    (if tx_is_split t \<and> tx_splits t \<noteq> [] then
       let names = List.map_filter (\<lambda>l. category_name s (sp_category_id l)) (tx_splits t)
       in if names \<noteq> [] then ''(Split: '' @ join_with '', '' names @ '')'' else ''(Split)''
     else case category_name s (tx_category_id t) of None \<Rightarrow> em_dash | Some n \<Rightarrow> n)"

definition LEDGER_CSV_HEADERS :: "string list" where
  "LEDGER_CSV_HEADERS = [''date'', ''type'', ''amount'', ''currency'', ''account'', ''category'', ''payee'',
     ''description'', ''tags'', ''is_internal_transfer'']"

definition tag_names :: "db \<Rightarrow> transaction \<Rightarrow> string list" where
  "tag_names s t = sort (List.map_filter (\<lambda>g. map_option tag_name (find_row tag_id g (tags s))) (tx_tags t))"

definition ledger_line :: "db \<Rightarrow> transaction \<Rightarrow> string list" where
  "ledger_line s t =
    [strftime (tx_date t) ''%Y-%m-%d'', type_value (tx_type t), str_money (tx_amount t),
     (case get_account s (tx_account_id t) of None \<Rightarrow> [] | Some a \<Rightarrow> acc_currency a),
     (case get_account s (tx_account_id t) of None \<Rightarrow> [] | Some a \<Rightarrow> acc_name a),
     category_display_label s t, payee_name_of s t, tx_description t,
     join_with '';'' (tag_names s t), (if tx_is_internal t then ''true'' else ''false'')]"

definition export_rows :: "db \<Rightarrow> transaction list" where
  "export_rows s = sort_key (\<lambda>t. (tx_date t, tx_id t)) (transactions s)"

definition export_ledger_csv :: "db \<Rightarrow> string" where
  "export_ledger_csv s = write_rows (CHR '','') (LEDGER_CSV_HEADERS # map (ledger_line s) (export_rows s))"

section \<open>Numbers\<close>

lemma str_nat_digits: "digits (str_nat n)"
proof (induction n rule: str_nat.induct)
  case (1 n)
  show ?case
  proof (cases "n < 10")
    case True
    then show ?thesis by (simp add: str_nat.simps [of n] digits_def digit_char_facts)
  next
    case False
    then show ?thesis using 1 by (simp add: str_nat.simps [of n] digits_def digit_char_facts)
  qed
qed

lemma digits_value_append:
  "digits_value (xs @ ys) = digits_value xs * 10 ^ length ys + digits_value ys"
proof -
  have "foldl (\<lambda>a c. 10 * a + (of_char c - 48)) b ys = b * 10 ^ length ys + digits_value ys" for b
  proof (induction ys arbitrary: b)
    case Nil
    then show ?case by (simp add: digits_value_def)
  next
    case (Cons c ys)
    have "digits_value (c # ys) = (of_char c - 48) * 10 ^ length ys + digits_value ys"
      using Cons.IH [of "of_char c - 48"] by (simp add: digits_value_def)
    then show ?case using Cons.IH [of "10 * b + (of_char c - 48)"] by (simp add: algebra_simps)
  qed
  from this [of "digits_value xs"] show ?thesis by (simp add: digits_value_def)
qed

lemma two_digits_text:
  assumes "k < 100"
  shows "digits (two (int k))" "length (two (int k)) = 2" "digits_value (two (int k)) = k"
proof -
  have h: "0 \<le> int k" "int k < 100" using assms by simp_all
  obtain a b where t: "two (int k) = [digit_char a, digit_char b]" "a < 10" "b < 10" "nat (int k) = 10 * a + b"
    by (rule two_shape [OF h])
  then show "digits (two (int k))" "length (two (int k)) = 2" by (simp_all add: digits_def digit_char_facts)
  show "digits_value (two (int k)) = k" using t by (simp add: digits_value_def digit_char_def)
qed

lemma str_money_written:
  assumes "cents x"
  shows "\<exists>ds fr. digits ds \<and> digits fr \<and> str_money x = written (x < 0) [ds] fr ''.'' [] \<and>
    written_value (x < 0) [ds] fr = x"
proof -
  define n where "n = nat (round_to_int ROUND_HALF_EVEN (\<bar>x\<bar> * 100))"
  have "cents \<bar>x\<bar>" using assms by (rule cents_abs)
  then have f: "\<bar>x\<bar> * 100 = of_int \<lfloor>\<bar>x\<bar> * 100\<rfloor>" by (simp add: cents_def)
  have "round_to_int ROUND_HALF_EVEN (\<bar>x\<bar> * 100) = \<lfloor>\<bar>x\<bar> * 100\<rfloor>"
    by (subst f) (rule round_to_int_of_int)
  then have n: "of_nat n = \<bar>x\<bar> * 100" using f by (simp add: n_def)
  note tw = two_digits_text [of "n mod 100"]
  have "digits_value (str_nat (n div 100) @ two (int (n mod 100))) = n"
    using tw by (simp add: digits_value_append digits_value_str_nat)
  then have "written_value (x < 0) [str_nat (n div 100)] (two (int (n mod 100))) = x"
    using tw n by (simp add: written_value_def Let_def)
  moreover have "str_money x = written (x < 0) [str_nat (n div 100)] (two (int (n mod 100))) ''.'' []"
    by (simp add: str_money_def written_def sign_of_def n_def Let_def)
  ultimately show ?thesis using str_nat_digits tw(1) by (intro exI conjI) simp_all
qed

text \<open>An amount with a dot and no comma is read the same with automatic separators.\<close>

lemma auto_reads_dots:
  assumes "digits ds" and "digits fr"
  shows "parse_amount (written neg [ds] fr ''.'' []) [] [] = Inr (Finite (written_value neg [ds] fr))"
    and "strip (written neg [ds] fr ''.'' []) = written neg [ds] fr ''.'' []"
proof -
  let ?w = "written neg [ds] fr ''.'' []"
  have w: "?w = sign_of neg @ ds @ CHR ''.'' # fr" by (simp add: written_def sign_of_def)
  have g: "[ds] \<noteq> []" "list_all digits [ds]" using assms(1) by simp_all
  have t: "strip (drop_currency (replace_text nbsp [] (strip (?w @ [])))) = ?w"
    by (rule trimmed_written [OF g assms(2)]) simp_all
  have u: "without (CHR '' '') ?w = ?w"
    using ungrouped_written [OF g assms(2), of "CHR ''.''" "[]" neg] by (simp add: w)
  have "CHR '','' \<notin> set ?w"
    using digitsD [OF assms(1)] digitsD [OF assms(2)] digit_facts(4) by (auto simp: w sign_of_def)
  then have "clean_amount ?w [] [] = sign_of neg @ ds @ CHR ''.'' # fr"
    using t u by (simp add: clean_amount_def Let_def w)
  then show "parse_amount ?w [] [] = Inr (Finite (written_value neg [ds] fr))"
    using decimal_of_written [OF assms] finite_of_digits [OF assms]
    by (simp add: parse_amount_def written_value_def)
  have last: "is_digit (last ?w)" using digitsD [OF assms(2)] by (simp add: w)
  have first: "\<not> is_space (hd ?w)"
    unfolding w using digitsD [OF assms(1)] digit_facts(1) [of "hd ds"]
    by (cases ds) (auto simp: sign_of_def is_space_def)
  show "strip ?w = ?w"
    by (rule strip_ends [OF _ first digit_facts(1) [OF last]]) (simp add: written_def)
qed

lemma money_is_read_back:
  assumes "cents x"
  shows "parse_amount (str_money x) [] [] = Inr (Finite x)" "strip (str_money x) = str_money x" "str_money x \<noteq> []"
proof -
  obtain ds fr where w: "digits ds" "digits fr" "str_money x = written (x < 0) [ds] fr ''.'' []"
    "written_value (x < 0) [ds] fr = x" using str_money_written [OF assms] by blast
  show "parse_amount (str_money x) [] [] = Inr (Finite x)" "strip (str_money x) = str_money x"
    unfolding w(3) using auto_reads_dots [OF w(1,2)] w(4) by simp_all
  show "str_money x \<noteq> []" by (simp add: w(3) written_def)
qed

section \<open>Reading the export\<close>

lemma comma_delimiter: "plain_delimiter (CHR '','')"
  by (simp add: plain_delimiter_def QUOTE_def LF_def CR_def) code_simp

lemma export_is_csv:
  "\<exists>rs. csv_reader (CHR '','') (export_ledger_csv s) = (rs, None) \<and>
    map snd rs = LEDGER_CSV_HEADERS # map (ledger_line s) (export_rows s)"
  unfolding export_ledger_csv_def
  by (rule csv_round_trip [OF comma_delimiter]) (auto simp: LEDGER_CSV_HEADERS_def ledger_line_def)

lemma skip_blank_none: "\<forall>row \<in> set (map snd rs). row \<noteq> [] \<Longrightarrow> skip_blank None rs = rs"
  by (induction rs) auto

definition export_mapping :: column_mapping where
  "export_mapping = no_mapping\<lparr>cm_date := Some 0, cm_amount := Some 2, cm_description := Some 7, cm_payee := Some 6\<rparr>"

lemma export_mapping_detected: "detect_column_mapping LEDGER_CSV_HEADERS = export_mapping"
  by code_simp

definition export_keys :: row_keys where
  "export_keys = \<lparr>rk_date = ''date'', rk_amount = Some ''amount'', rk_description = Some ''description'', rk_notes = None,
     rk_payee = Some ''payee'', rk_counterparty = None, rk_debit = None, rk_credit = None\<rparr>"

lemma export_keys_of: "keys_of export_mapping LEDGER_CSV_HEADERS = Inr (Some export_keys)"
  by (simp add: keys_of_def export_mapping_def no_mapping_def header_at_def LEDGER_CSV_HEADERS_def export_keys_def)

text \<open>The text a statement row gets from an exported one.\<close>

definition exported_text :: "db \<Rightarrow> transaction \<Rightarrow> string" where
  "exported_text s t = (if strip (tx_description t) = [] then strip (payee_name_of s t) else strip (tx_description t))"

lemma line_cells:
  "dict_row LEDGER_CSV_HEADERS (ledger_line s t) ''date'' = Some (Some (strftime (tx_date t) ''%Y-%m-%d''))"
  "dict_row LEDGER_CSV_HEADERS (ledger_line s t) ''amount'' = Some (Some (str_money (tx_amount t)))"
  "dict_row LEDGER_CSV_HEADERS (ledger_line s t) ''description'' = Some (Some (tx_description t))"
  "dict_row LEDGER_CSV_HEADERS (ledger_line s t) ''payee'' = Some (Some (payee_name_of s t))"
  by (simp_all add: dict_row_def LEDGER_CSV_HEADERS_def ledger_line_def)

lemma exported_row:
  assumes "valid_date (tx_date t)" and "cents (tx_amount t)"
  shows "\<exists>row. parse_row export_mapping export_keys (dict_row LEDGER_CSV_HEADERS (ledger_line s t)) = Inr (Some row) \<and>
    pr_date row = tx_date t \<and> pr_amount row = Finite (tx_amount t) \<and> pr_description row = exported_text s t"
proof -
  let ?raw = "dict_row LEDGER_CSV_HEADERS (ledger_line s t)"
  have m: "cm_date_format export_mapping = []" "cm_decimal_separator export_mapping = []"
    "cm_thousands_separator export_mapping = []" "cm_negative_for_expenses export_mapping"
    by (simp_all add: export_mapping_def no_mapping_def)
  have st: "strptime (strip (strftime (tx_date t) ''%Y-%m-%d'')) ''%Y-%m-%d'' = Inr (tx_date t)"
    unfolding strip_strftime [OF _ assms(1), of "''%Y-%m-%d''", unfolded DATE_FORMATS_def, simplified]
    by (rule strptime_strftime [OF assms(1)]) auto
  obtain rest where fs: "DATE_FORMATS = ''%Y-%m-%d'' # rest" by (simp add: DATE_FORMATS_def)
  have d: "parse_date (strftime (tx_date t) ''%Y-%m-%d'') [] = Inr (tx_date t)"
    by (simp add: parse_date_def fs st)
  note money = money_is_read_back [OF assms(2)]
  have a: "row_amount export_mapping export_keys ?raw = Inr (Some (Finite (tx_amount t)))"
    by (simp add: row_amount_def export_keys_def is_set_def keyed_cell_def cell_def line_cells money m)
  show ?thesis
    unfolding parse_row_def a
    by (simp add: export_keys_def line_cells d m keyed_cell_def cell_def exported_text_def Let_def)
qed

lemma parse_records_append:
  assumes "list_all2 (\<lambda>rec row. parse_row m ks (snd rec) = Inr (Some row)) recs rows"
  shows "efold (parse_record m ks) recs res = Inr (res\<lparr>ir_rows := ir_rows res @ rows\<rparr>)"
  using assms
proof (induction recs rows arbitrary: res rule: list_all2_induct)
  case Nil
  then show ?case by simp
next
  case (Cons rec recs row rows)
  then show ?case by (simp add: parse_record_def)
qed



end
