(* ===== verification/BankStatements.thy ===== *)
theory BankStatements
  imports ImportFormats
begin

text \<open>
  The bank-specific statement formats (\<open>src/src/kaleta/services/import_service.py\<close>, \<open>import_profiles.py\<close>): the
  mBank CSV with its metadata block, and Wise's CSV, QIF, MT940 and XLSX. Texts are ASCII, as in
  \<open>ImportFormats\<close>; the rows of a workbook, read by a third-party package, are an argument. The regular
  expressions are written out as the deterministic readers they amount to.
\<close>

section \<open>Definitions\<close>

subsection \<open>Text\<close>

text \<open>\<open>sub in text\<close>\<close>

fun contains_text :: "string \<Rightarrow> string \<Rightarrow> bool" where
  "contains_text sub [] \<longleftrightarrow> sub = []"
| "contains_text sub (c # cs) \<longleftrightarrow> starts_with (c # cs) sub \<or> contains_text sub cs"

definition rstrip_char :: "char \<Rightarrow> string \<Rightarrow> string" where
  "rstrip_char c s = rev (dropWhile (\<lambda>x. x = c) (rev s))"

text \<open>\<open>text.split(sep)[0]\<close>\<close>

fun before :: "string \<Rightarrow> string \<Rightarrow> string" where
  "before sep [] = []"
| "before sep (c # cs) = (if starts_with (c # cs) sep then [] else c # before sep cs)"

definition is_letter :: "char \<Rightarrow> bool" where
  "is_letter c \<longleftrightarrow> is_upper c \<or> (97 \<le> (of_char c :: nat) \<and> (of_char c :: nat) \<le> 122)"

definition is_word :: "char \<Rightarrow> bool" where
  "is_word c \<longleftrightarrow> is_letter c \<or> is_digit c \<or> c = CHR ''_''"

definition upper_char :: "char \<Rightarrow> char" where
  "upper_char c = (let n = of_char c :: nat in if 97 \<le> n \<and> n \<le> 122 then char_of (n - 32) else c)"

definition upper :: "string \<Rightarrow> string" where
  "upper = map upper_char"

text \<open>The lines at whose start a multi-line \<open>^\<close> matches.\<close>

definition regex_lines :: "string \<Rightarrow> string list" where
  "regex_lines s = split_on LF s"

text \<open>\<open>date.fromisoformat\<close>: calendar and week dates, with and without hyphens.\<close>

definition from_iso_week :: "int \<Rightarrow> int \<Rightarrow> int \<Rightarrow> date result" where
  "from_iso_week y w k =
    (if y < 1 \<or> 9999 < y \<or> w < 1 \<or> 53 < w \<or> k < 1 \<or> 7 < k then Inl ValueError
     else if w = 53 \<and> isoweek1monday (y + 1) \<le> isoweek1monday y + 364 then Inl ValueError
     else let n = isoweek1monday y + (w - 1) * 7 + k - 1
          in if max_ordinal < n then Inl ValueError else Inr (fromordinal n))"

definition fixed_digits :: "string \<Rightarrow> int" where
  "fixed_digits s = (if list_all is_digit s then int (digits_value s) else - 1)"

definition fromisoformat :: "string \<Rightarrow> date result" where
  "fromisoformat s =
    (let y = fixed_digits (take 4 s); sep = starts_with (drop 4 s) ''-'';
         r = (if sep then drop 5 s else drop 4 s)
     in if length s < 7 \<or> y < 0 then Inl ValueError
        else if starts_with r ''W'' then
          (let w = fixed_digits (take 2 (drop 1 r)); k = drop 3 r
           in if length r < 3 then Inl ValueError
              else if k = [] then from_iso_week y w 1
              else if sep then (if length k = 2 \<and> hd k = CHR ''-'' then from_iso_week y w (fixed_digits (tl k))
                                else Inl ValueError)
              else (if length k = 1 then from_iso_week y w (fixed_digits k) else Inl ValueError))
        else if sep then
          (if length r = 5 \<and> r ! 2 = CHR ''-'' \<and> 0 \<le> fixed_digits (take 2 r) \<and> 0 \<le> fixed_digits (drop 3 r)
           then mk_date y (fixed_digits (take 2 r)) (fixed_digits (drop 3 r)) else Inl ValueError)
        else if length r = 4 \<and> 0 \<le> fixed_digits (take 2 r) \<and> 0 \<le> fixed_digits (drop 2 r)
        then mk_date y (fixed_digits (take 2 r)) (fixed_digits (drop 2 r)) else Inl ValueError)"

text \<open>\<open>{key: value for \<dots> if value}\<close>\<close>

definition filled :: "(string \<times> string) list \<Rightarrow> raw_row" where
  "filled kvs = map_of (map (\<lambda>(k, v). (k, Some v)) (filter (\<lambda>(k, v). v \<noteq> []) kvs))"

definition is_import_error :: "error \<Rightarrow> bool" where
  "is_import_error err = (case err of ImportError _ \<Rightarrow> True | _ \<Rightarrow> False)"

record bank_metadata =
  bm_client_name :: string
  bm_account_type :: string
  bm_currency :: string
  bm_account_number :: string
  bm_account_digits :: string
  bm_date_from :: "date option"
  bm_date_to :: "date option"

subsection \<open>mBank\<close>

fun first_value :: "string list \<Rightarrow> string" where
  "first_value [] = []"
| "first_value (l # ls) =
    (let val = strip (rstrip_char (CHR '';'') (strip l)) in if val \<noteq> [] then val else first_value ls)"

fun value_after_key :: "string list \<Rightarrow> string \<Rightarrow> string" where
  "value_after_key [] key = []"
| "value_after_key (l # ls) key =
    (if starts_with (strip l) key \<and> first_value (take 4 ls) \<noteq> [] then first_value (take 4 ls)
     else value_after_key ls key)"

definition period_of :: "string \<Rightarrow> date option \<times> date option" where
  "period_of raw =
    (case filter (\<lambda>p. p \<noteq> []) (map strip (split_on (CHR '';'') raw)) of
       [] \<Rightarrow> (None, None)
     | [a] \<Rightarrow> (case fromisoformat a of Inl _ \<Rightarrow> (None, None) | Inr d \<Rightarrow> (Some d, None))
     | a # b # _ \<Rightarrow>
         (case fromisoformat a of Inl _ \<Rightarrow> (None, None)
          | Inr d \<Rightarrow> (case fromisoformat b of Inl _ \<Rightarrow> (Some d, None) | Inr e \<Rightarrow> (Some d, Some e))))"

definition mbank_metadata :: "string \<Rightarrow> bank_metadata" where
  "mbank_metadata content =
    (let ls = splitlines content; get = value_after_key ls; number = get ''#Numer rachunku'';
         period = (if get ''#Za okres:'' = [] then (None, None) else period_of (get ''#Za okres:''))
     in \<lparr>bm_client_name = get ''#Klient'', bm_account_type = get ''#Rodzaj rachunku'',
         bm_currency = get ''#Waluta'', bm_account_number = number, bm_account_digits = digits_only number,
         bm_date_from = fst period, bm_date_to = snd period\<rparr>)"

fun join_by :: "string \<Rightarrow> string list \<Rightarrow> string" where
  "join_by sep [] = []"
| "join_by sep [w] = w"
| "join_by sep (w # v # ws) = w @ sep @ join_by sep (v # ws)"

definition clean_header :: "string \<Rightarrow> string" where
  "clean_header l =
    join_by '';'' (map (\<lambda>col. strip (dropWhile (\<lambda>c. c = CHR ''#'') col)) (split_on (CHR '';'') l))"

definition is_body_line :: "string \<Rightarrow> bool" where
  "is_body_line l \<longleftrightarrow> strip l \<noteq> [] \<and> \<not> starts_with (strip l) ''Niniejszy dokument''"

fun data_section :: "string list \<Rightarrow> string option" where
  "data_section [] = None"
| "data_section (l # ls) =
    (if contains_text ''#Data'' l \<and> contains_text ''#Kwota'' l
     then Some (join_by [LF] (clean_header l # map strip (takeWhile is_body_line ls)))
     else data_section ls)"

definition extract_data_section :: "string \<Rightarrow> string option" where
  "extract_data_section content = data_section (splitlines content)"

definition is_mbank_content :: "string \<Rightarrow> bool" where
  "is_mbank_content content \<longleftrightarrow> contains_text ''#Numer rachunku'' content \<or> contains_text ''#Rodzaj rachunku'' content"

subsection \<open>Wise: CSV\<close>

fun scan_wise :: "raw_row list \<Rightarrow> string \<times> string \<times> date list \<Rightarrow> string \<times> string \<times> date list" where
  "scan_wise [] st = st"
| "scan_wise (row # rows) (currency, holder, dates) =
    (let cur = (if currency = [] then soft_cell row ''Currency'' else currency);
         hol = (if holder = [] then soft_cell row ''Card Holder Full Name'' else holder);
         raw = soft_cell row ''Date''
     in scan_wise rows (cur, hol,
          if raw = [] then dates else case parse_date raw [] of Inl _ \<Rightarrow> dates | Inr d \<Rightarrow> dates @ [d]))"

definition wise_banner :: "string \<times> string \<times> date list \<Rightarrow> bank_metadata" where
  "wise_banner st =
    (let (currency, holder, dates) = st
     in \<lparr>bm_client_name = holder, bm_account_type = ''Wise'', bm_currency = currency, bm_account_number = [],
         bm_account_digits = [], bm_date_from = least_date dates, bm_date_to = greatest_date dates\<rparr>)"

definition wise_metadata :: "string \<Rightarrow> bank_metadata result" where
  "wise_metadata content =
    (case csv_reader (CHR '','') content of
       (records, Some err) \<Rightarrow> Inl err
     | ([], None) \<Rightarrow> Inr (wise_banner ([], [], []))
     | ((n, headers) # rest, None) \<Rightarrow>
         Inr (wise_banner (scan_wise (map snd (dict_rows headers rest)) ([], [], []))))"

definition build_wise_description :: "raw_row \<Rightarrow> string" where
  "build_wise_description raw =
    (if soft_cell raw ''Merchant'' \<noteq> [] then soft_cell raw ''Merchant''
     else if soft_cell raw ''Payee Name'' \<noteq> [] then soft_cell raw ''Payee Name''
     else soft_cell raw ''Description'')"

definition apply_wise_descriptions :: "parsed_row list \<Rightarrow> parsed_row list" where
  "apply_wise_descriptions rows =
    map (\<lambda>row. let description = build_wise_description (pr_raw row)
               in if description \<noteq> [] \<and> description \<noteq> pr_description row
                  then row\<lparr>pr_description := description\<rparr> else row) rows"

subsection \<open>Wise: QIF\<close>

record qif_record =
  qif_date :: string
  qif_amount :: string
  qif_payee :: string
  qif_reference :: string
  qif_memo :: string

definition no_qif :: qif_record where
  "no_qif = \<lparr>qif_date = [], qif_amount = [], qif_payee = [], qif_reference = [], qif_memo = []\<rparr>"

definition qif_is_empty :: "qif_record \<Rightarrow> bool" where
  "qif_is_empty r \<longleftrightarrow> qif_date r = [] \<and> qif_amount r = [] \<and> qif_payee r = [] \<and> qif_reference r = [] \<and> qif_memo r = []"

definition qif_as_raw :: "qif_record \<Rightarrow> raw_row" where
  "qif_as_raw r = filled [(''date'', qif_date r), (''amount'', qif_amount r), (''payee'', qif_payee r),
     (''reference'', qif_reference r), (''memo'', qif_memo r)]"

definition set_qif :: "char \<Rightarrow> string \<Rightarrow> qif_record \<Rightarrow> qif_record" where
  "set_qif field_letter value r =
    (if field_letter = CHR ''D'' then r\<lparr>qif_date := value\<rparr>
     else if field_letter = CHR ''T'' then r\<lparr>qif_amount := value\<rparr>
     else if field_letter = CHR ''P'' then r\<lparr>qif_payee := value\<rparr>
     else if field_letter = CHR ''N'' then r\<lparr>qif_reference := value\<rparr>
     else if field_letter = CHR ''M'' then r\<lparr>qif_memo := value\<rparr> else r)"

fun qif_lines :: "string list \<Rightarrow> qif_record \<Rightarrow> qif_record list" where
  "qif_lines [] r = (if qif_is_empty r then [] else [r])"
| "qif_lines (l # ls) r =
    (let s = strip l
     in if s = [] \<or> starts_with s ''!'' then qif_lines ls r
        else if s = ''^'' then (if qif_is_empty r then qif_lines ls no_qif else r # qif_lines ls no_qif)
        else qif_lines ls (set_qif (hd s) (strip (tl s)) r))"

definition iter_qif_records :: "string \<Rightarrow> qif_record list" where
  "iter_qif_records content = qif_lines (splitlines content) no_qif"

text \<open>
  One turn of the loops that read QIF, MT940 and workbook records: an \<open>ImportError_\<close> is reported, a record
  without a row is skipped, and any other exception leaves the loop.
\<close>

definition take_row :: "string \<Rightarrow> nat \<Rightarrow> parsed_row option result \<Rightarrow> import_result \<Rightarrow> import_result result" where
  "take_row what i outcome res =
    (case outcome of
       Inl err \<Rightarrow> if is_import_error err then Inr (res\<lparr>ir_errors := ir_errors res @ [BadRecord what i err]\<rparr>) else Inl err
     | Inr None \<Rightarrow> Inr (res\<lparr>ir_skipped := ir_skipped res + 1\<rparr>)
     | Inr (Some row) \<Rightarrow> Inr (res\<lparr>ir_rows := ir_rows res @ [row]\<rparr>))"

definition take_rows :: "string \<Rightarrow> ('a \<Rightarrow> parsed_row option result) \<Rightarrow> 'a list \<Rightarrow> import_result result" where
  "take_rows what f xs = efold (\<lambda>(i, x). take_row what i (f x)) (List.enumerate 1 xs) no_rows"

definition qif_row :: "qif_record \<Rightarrow> parsed_row option result" where
  "qif_row r =
    (if qif_date r = [] \<or> qif_amount r = [] then Inr None
     else ebind (parse_date (qif_date r) ''%m/%d/%Y'') (\<lambda>d.
          ebind (parse_amount (qif_amount r) ''.'' '','') (\<lambda>amount.
          Inr (Some \<lparr>pr_date = d, pr_amount = amount, pr_description = qif_payee r, pr_raw = qif_as_raw r,
                     pr_notes = []\<rparr>))))"

definition parse_qif :: "string \<Rightarrow> import_result result" where
  "parse_qif content = take_rows ''QIF record'' qif_row (iter_qif_records content)"

text \<open>\<open>statement_12345678_JPY_2026-04-01_2026-06-30.qif\<close>\<close>

definition iso_shape :: "string \<Rightarrow> bool" where
  "iso_shape s \<longleftrightarrow> length s = 10 \<and> list_all is_digit (take 4 s) \<and> s ! 4 = CHR ''-'' \<and>
    list_all is_digit (take 2 (drop 5 s)) \<and> s ! 7 = CHR ''-'' \<and> list_all is_digit (drop 8 s)"

definition wise_filename_parts :: "string \<Rightarrow> (string \<times> string \<times> string) option" where
  "wise_filename_parts name =
    (let r = dropWhile is_digit (drop 10 name); cur = take 3 (drop 1 r); a = take 10 (drop 5 r);
         b = take 10 (drop 16 r); ext = drop 27 r;
         ext' = (if ext \<noteq> [] \<and> last ext = LF then butlast ext else ext)
     in if starts_with name ''statement_'' \<and> r \<noteq> drop 10 name \<and> 28 \<le> length r \<and> hd r = CHR ''_'' \<and>
           list_all is_letter cur \<and> r ! 4 = CHR ''_'' \<and> iso_shape a \<and> r ! 15 = CHR ''_'' \<and> iso_shape b \<and>
           r ! 26 = CHR ''.'' \<and> ext' \<noteq> [] \<and> list_all (\<lambda>c. is_letter c \<or> is_digit c) ext'
        then Some (cur, a, b) else None)"

record wise_filename =
  wf_currency :: string
  wf_date_from :: date
  wf_date_to :: date

definition parse_wise_filename :: "string \<Rightarrow> wise_filename option" where
  "parse_wise_filename name =
    (case wise_filename_parts name of
       None \<Rightarrow> None
     | Some (cur, a, b) \<Rightarrow>
         (case (fromisoformat a, fromisoformat b) of
            (Inr d, Inr e) \<Rightarrow> Some \<lparr>wf_currency = upper cur, wf_date_from = d, wf_date_to = e\<rparr>
          | _ \<Rightarrow> None))"

definition readable :: "'a result list \<Rightarrow> 'a list" where
  "readable rs = List.map_filter (\<lambda>r. case r of Inl _ \<Rightarrow> None | Inr x \<Rightarrow> Some x) rs"

definition qif_metadata :: "string \<Rightarrow> string \<Rightarrow> bank_metadata" where
  "qif_metadata content filename =
    (let dates = readable (map (\<lambda>r. parse_date (qif_date r) ''%m/%d/%Y'')
                    (filter (\<lambda>r. qif_date r \<noteq> []) (iter_qif_records content)))
     in \<lparr>bm_client_name = [], bm_account_type = ''Wise'',
         bm_currency = (case parse_wise_filename filename of None \<Rightarrow> [] | Some f \<Rightarrow> wf_currency f),
         bm_account_number = [], bm_account_digits = [], bm_date_from = least_date dates, bm_date_to = greatest_date dates\<rparr>)"

definition is_qif_reference :: "string \<Rightarrow> bool" where
  "is_qif_reference l \<longleftrightarrow>
    (starts_with l ''NCARD-'' \<and> drop 6 l \<noteq> [] \<and> is_word (hd (drop 6 l))) \<or>
    (starts_with l ''NTRANSFER-'' \<and> drop 10 l \<noteq> [] \<and> is_word (hd (drop 10 l)))"

definition is_wise_qif_content :: "string \<Rightarrow> bool" where
  "is_wise_qif_content content \<longleftrightarrow>
    contains_text ''!Type:Bank'' (take 64 content) \<and> list_ex is_qif_reference (regex_lines content)"

subsection \<open>Wise: MT940\<close>

text \<open>\<open>:<tag>:<value>\<close>\<close>

definition mt940_field :: "string \<Rightarrow> (string \<times> string) option" where
  "mt940_field s =
    (case s of
       c # a # b # u # r \<Rightarrow>
         if c = CHR '':'' \<and> is_digit a \<and> is_digit b then
           (if u = CHR '':'' then Some ([a, b], r)
            else if is_upper u \<and> r \<noteq> [] \<and> hd r = CHR '':'' then Some ([a, b, u], tl r) else None)
         else None
     | _ \<Rightarrow> None)"

fun field_lines :: "string list \<Rightarrow> (string \<times> string list) option \<Rightarrow> (string \<times> string list) list" where
  "field_lines [] cur = (case cur of None \<Rightarrow> [] | Some f \<Rightarrow> [f])"
| "field_lines (l # ls) cur =
    (let s = strip l
     in if s = [] then field_lines ls cur
        else case mt940_field s of
          None \<Rightarrow> field_lines ls (map_option (\<lambda>(tag, lines). (tag, lines @ [s])) cur)
        | Some (tag, v) \<Rightarrow>
            (case cur of None \<Rightarrow> field_lines ls (Some (tag, [strip v]))
             | Some f \<Rightarrow> f # field_lines ls (Some (tag, [strip v]))))"

definition iter_mt940_fields :: "string \<Rightarrow> (string \<times> string list) list" where
  "iter_mt940_fields content = field_lines (splitlines content) None"

record mt940_entry =
  me_statement_line :: string
  me_details :: string
  me_narrative :: string

fun entries_of :: "(string \<times> string list) list \<Rightarrow> mt940_entry option \<Rightarrow> mt940_entry list" where
  "entries_of [] cur = (case cur of None \<Rightarrow> [] | Some e \<Rightarrow> [e])"
| "entries_of ((tag, lines) # fs) cur =
    (if tag = ''61'' then
       (case cur of None \<Rightarrow> [] | Some e \<Rightarrow> [e]) @
       entries_of fs (Some \<lparr>me_statement_line = hd lines, me_details = strip (join_words (tl lines)), me_narrative = []\<rparr>)
     else if tag = ''86'' then
       entries_of fs (map_option (\<lambda>e. e\<lparr>me_narrative := strip (join_words lines)\<rparr>) cur)
     else (case cur of None \<Rightarrow> [] | Some e \<Rightarrow> [e]) @ entries_of fs None)"

definition iter_mt940_entries :: "string \<Rightarrow> mt940_entry list" where
  "iter_mt940_entries content = entries_of (iter_mt940_fields content) None"

text \<open>The groups of the \<open>:61:\<close> expression: value date, mark, amount, type code and reference.\<close>

definition is_amount_char :: "char \<Rightarrow> bool" where
  "is_amount_char c \<longleftrightarrow> is_digit c \<or> c = CHR '',''"

record statement_groups =
  sg_value_date :: string
  sg_mark :: char
  sg_amount :: string
  sg_type_code :: string
  sg_reference :: string

definition match_statement :: "string \<Rightarrow> statement_groups option" where
  "match_statement s =
    (let r = drop 6 s; r1 = (if 4 \<le> length r \<and> list_all is_digit (take 4 r) then drop 4 r else r);
         r2 = tl r1; r3 = (if r2 \<noteq> [] \<and> is_upper (hd r2) then tl r2 else r2);
         amount = takeWhile is_amount_char r3; r4 = dropWhile is_amount_char r3
     in if 6 \<le> length s \<and> list_all is_digit (take 6 s) \<and> r1 \<noteq> [] \<and> (hd r1 = CHR ''D'' \<or> hd r1 = CHR ''C'') \<and>
           amount \<noteq> [] \<and> is_digit (hd amount) \<and> 4 \<le> length r4 \<and> is_upper (hd r4) \<and>
           list_all (\<lambda>c. is_upper c \<or> is_digit c) (take 3 (tl r4)) \<and> LF \<notin> set (drop 4 r4)
        then Some \<lparr>sg_value_date = take 6 s, sg_mark = hd r1, sg_amount = amount, sg_type_code = take 4 r4,
                   sg_reference = drop 4 r4\<rparr>
        else None)"

definition signed_by :: "char \<Rightarrow> number \<Rightarrow> number result" where
  "signed_by mark amount = (if mark = CHR ''D'' then number_neg amount else Inr amount)"

record statement_line =
  sl_value_date :: date
  sl_amount :: number
  sl_type_code :: string
  sl_reference :: string

definition parse_mt940_statement_line :: "string \<Rightarrow> statement_line result" where
  "parse_mt940_statement_line line =
    (case match_statement (strip line) of
       None \<Rightarrow> Inl (ImportError ''Cannot parse MT940 statement line'')
     | Some g \<Rightarrow>
         ebind (parse_amount (sg_amount g) '','' []) (\<lambda>amount.
         ebind (parse_date (sg_value_date g) ''%y%m%d'') (\<lambda>d.
         ebind (signed_by (sg_mark g) amount) (\<lambda>x.
         Inr \<lparr>sl_value_date = d, sl_amount = x, sl_type_code = sg_type_code g,
              sl_reference = strip (before ''//'' (sg_reference g))\<rparr>))))"

record mt940_balance =
  mb_currency :: string
  mb_amount :: number

text \<open>A balance: mark, date, currency, amount.\<close>

definition parse_mt940_balance :: "string \<Rightarrow> mt940_balance option result" where
  "parse_mt940_balance value =
    (let s = strip value; cur = take 3 (drop 7 s); amount = drop 10 s
     in if 11 \<le> length s \<and> (hd s = CHR ''D'' \<or> hd s = CHR ''C'') \<and> list_all is_digit (take 6 (drop 1 s)) \<and>
           list_all is_upper cur \<and> is_digit (hd amount) \<and> list_all is_amount_char amount
        then (case parse_amount amount '','' [] of
                Inl err \<Rightarrow> if is_import_error err then Inr None else Inl err
              | Inr n \<Rightarrow> ebind (signed_by (hd s) n) (\<lambda>x. Inr (Some \<lparr>mb_currency = upper cur, mb_amount = x\<rparr>)))
        else Inr None)"

text \<open>
  \<open>str\<close> of a \<open>Decimal\<close> with sign, coefficient and exponent, and of the amount of a statement line: a debit is
  negated, which rounds it to the 28 digits of the context and drops the sign of zero.
\<close>

definition str_decimal :: "bool \<Rightarrow> nat \<Rightarrow> int \<Rightarrow> string" where
  "str_decimal neg coeff e =
    (let ds = str_nat coeff; leftdigits = e + int (length ds);
         dotplace = (if e \<le> 0 \<and> - 6 < leftdigits then leftdigits else 1);
         body = (if dotplace \<le> 0 then ''0.'' @ replicate (nat (- dotplace)) (CHR ''0'') @ ds
                 else if int (length ds) \<le> dotplace then ds @ replicate (nat (dotplace - int (length ds))) (CHR ''0'')
                 else take (nat dotplace) ds @ CHR ''.'' # drop (nat dotplace) ds);
         ex = (if leftdigits = dotplace then []
               else CHR ''E'' # (if leftdigits - dotplace < 0 then [] else ''+'') @ str_int (leftdigits - dotplace))
     in sign_of neg @ body @ ex)"

definition round_coeff :: "nat \<Rightarrow> int \<Rightarrow> nat \<times> int" where
  "round_coeff coeff e =
    (let k = length (str_nat coeff) - 28; q = nat (round_to_int ROUND_HALF_EVEN (of_nat coeff / 10 ^ k))
     in if k = 0 then (coeff, e) else if q = 10 ^ 28 then (10 ^ 27, e + int k + 1) else (q, e + int k))"

definition statement_amount_text :: "char \<Rightarrow> string \<Rightarrow> string" where
  "statement_amount_text mark amount =
    (let coeff = digits_value (without (CHR '','') amount);
         e = - int (length (tl (dropWhile (\<lambda>c. c \<noteq> CHR '','') amount)));
         (c, e') = (if mark = CHR ''D'' then round_coeff coeff e else (coeff, e))
     in str_decimal (mark = CHR ''D'' \<and> c \<noteq> 0) c e')"

definition mt940_description :: "mt940_entry \<Rightarrow> statement_line \<Rightarrow> string" where
  "mt940_description entry sl =
    (if me_details entry \<noteq> [] then me_details entry
     else if sl_reference sl \<noteq> [] \<and> sl_reference sl \<noteq> ''NONREF'' then sl_reference sl else [])"

definition shown_amount :: "string \<Rightarrow> string" where
  "shown_amount line =
    (case match_statement (strip line) of None \<Rightarrow> [] | Some g \<Rightarrow> statement_amount_text (sg_mark g) (sg_amount g))"

definition mt940_row :: "mt940_entry \<Rightarrow> parsed_row option result" where
  "mt940_row entry =
    ebind (parse_mt940_statement_line (me_statement_line entry)) (\<lambda>sl.
    Inr (Some \<lparr>pr_date = sl_value_date sl, pr_amount = sl_amount sl, pr_description = mt940_description entry sl,
      pr_raw = filled [(''date'', take 6 (me_statement_line entry)), (''amount'', shown_amount (me_statement_line entry)),
        (''reference'', me_details entry), (''type_code'', sl_type_code sl), (''narrative'', me_narrative entry)],
      pr_notes = []\<rparr>))"

definition parse_mt940 :: "string \<Rightarrow> import_result result" where
  "parse_mt940 content = take_rows ''MT940 entry'' mt940_row (iter_mt940_entries content)"

definition BALANCE_TAGS :: "string list" where
  "BALANCE_TAGS = [''60F'', ''62F'', ''60M'', ''62M'']"

definition scan_field :: "string \<times> string list \<Rightarrow> string \<times> string \<Rightarrow> (string \<times> string) result" where
  "scan_field f st =
    (let (tag, lines) = f; (currency, number) = st
     in if tag = ''25'' \<and> number = [] then Inr (currency, strip (before ''/'' (hd lines)))
        else if tag \<in> set BALANCE_TAGS \<and> currency = [] then
          ebind (parse_mt940_balance (hd lines)) (\<lambda>b.
          Inr (case b of None \<Rightarrow> currency | Some x \<Rightarrow> mb_currency x, number))
        else Inr st)"

definition mt940_metadata :: "string \<Rightarrow> bank_metadata result" where
  "mt940_metadata content =
    ebind (efold scan_field (iter_mt940_fields content) ([], [])) (\<lambda>(currency, number).
    let dates = map sl_value_date (readable (map (\<lambda>e. parse_mt940_statement_line (me_statement_line e))
                  (iter_mt940_entries content)))
    in Inr \<lparr>bm_client_name = [], bm_account_type = ''Wise'', bm_currency = currency, bm_account_number = number,
         bm_account_digits = digits_only number, bm_date_from = least_date dates, bm_date_to = greatest_date dates\<rparr>)"

text \<open>\<open>\bTRWI[A-Z]{2}[A-Z0-9]{2}\b\<close>, with the character before as the first argument\<close>

fun has_wise_bic :: "char option \<Rightarrow> string \<Rightarrow> bool" where
  "has_wise_bic prev [] \<longleftrightarrow> False"
| "has_wise_bic prev (c # cs) \<longleftrightarrow>
    (let s = c # cs
     in (case prev of None \<Rightarrow> True | Some p \<Rightarrow> \<not> is_word p) \<and> starts_with s ''TRWI'' \<and> 8 \<le> length s \<and>
        list_all is_upper (take 2 (drop 4 s)) \<and> list_all (\<lambda>x. is_upper x \<or> is_digit x) (take 2 (drop 6 s)) \<and>
        (drop 8 s = [] \<or> \<not> is_word (hd (drop 8 s)))) \<or>
    has_wise_bic (Some c) cs"

definition is_wise_mt940_content :: "string \<Rightarrow> bool" where
  "is_wise_mt940_content content \<longleftrightarrow>
    list_ex (\<lambda>l. starts_with l '':61:'') (regex_lines content) \<and>
    (list_ex (\<lambda>l. starts_with l '':25:'' \<and> contains_text ''TRWI'' (drop 4 l)) (regex_lines content) \<or>
     has_wise_bic None content)"

definition is_wise_content :: "string \<Rightarrow> bool" where
  "is_wise_content content \<longleftrightarrow>
    (let sample = take 512 content
     in contains_text ''TransferWise ID'' sample \<or> contains_text ''transferwise id'' (casefold sample)) \<or>
    is_wise_qif_content content \<or> is_wise_mt940_content content"

definition is_wise_file :: "string \<Rightarrow> bool" where
  "is_wise_file content \<longleftrightarrow> contains_text ''TransferWise ID'' (take 512 content) \<or> is_wise_content content"

subsection \<open>Wise: XLSX\<close>

text \<open>A cell as the workbook package returns it: empty, a date, or a value with its \<open>str\<close>.\<close>

datatype sheet_cell = EmptyCell | DateCell date | ValueCell string

definition xlsx_cell_text :: "sheet_cell \<Rightarrow> string" where
  "xlsx_cell_text c = (case c of EmptyCell \<Rightarrow> [] | DateCell d \<Rightarrow> strftime d ''%Y-%m-%d'' | ValueCell s \<Rightarrow> strip s)"

type_synonym sheet_row = "string \<rightharpoonup> string"

definition sheet_record :: "string list \<Rightarrow> sheet_cell list \<Rightarrow> sheet_row option" where
  "sheet_record headers row =
    (let kvs = filter (\<lambda>(k, v). k \<noteq> []) (zip headers (map xlsx_cell_text row)); rec = map_of (rev kvs)
     in if list_ex (\<lambda>(k, v). rec k \<noteq> Some []) kvs then Some rec else None)"

definition read_records :: "sheet_cell list list \<Rightarrow> sheet_row list" where
  "read_records rows =
    (case rows of [] \<Rightarrow> [] | hs # body \<Rightarrow> List.map_filter (sheet_record (map xlsx_cell_text hs)) body)"

definition get_text :: "sheet_row \<Rightarrow> string \<Rightarrow> string" where
  "get_text rec k = (case rec k of None \<Rightarrow> [] | Some v \<Rightarrow> v)"

definition XLSX_COLUMNS :: "string list" where
  "XLSX_COLUMNS = [''ID'', ''Date'', ''Amount'', ''Currency'', ''Description'', ''Merchant'', ''Payee Name'',
     ''Card Holder Full Name'']"

definition xlsx_row :: "sheet_row \<Rightarrow> parsed_row option result" where
  "xlsx_row rec =
    (if get_text rec ''Date'' = [] \<or> get_text rec ''Amount'' = [] then Inr None
     else ebind (parse_date (get_text rec ''Date'') []) (\<lambda>d.
          ebind (parse_amount (get_text rec ''Amount'') ''.'' []) (\<lambda>amount.
          let raw = filled (map (\<lambda>k. (k, get_text rec k)) XLSX_COLUMNS)
          in Inr (Some \<lparr>pr_date = d, pr_amount = amount, pr_description = build_wise_description raw,
                     pr_raw = raw, pr_notes = []\<rparr>))))"

definition parse_xlsx :: "sheet_row list \<Rightarrow> import_result result" where
  "parse_xlsx records = take_rows ''XLSX row'' xlsx_row records"

fun first_text :: "string \<Rightarrow> sheet_row list \<Rightarrow> string" where
  "first_text k [] = []"
| "first_text k (r # rs) = (if get_text r k \<noteq> [] then get_text r k else first_text k rs)"

definition xlsx_metadata :: "sheet_row list \<Rightarrow> bank_metadata" where
  "xlsx_metadata records =
    wise_banner (first_text ''Currency'' records, first_text ''Card Holder Full Name'' records,
      readable (map (\<lambda>r. parse_date (get_text r ''Date'') []) (filter (\<lambda>r. get_text r ''Date'' \<noteq> []) records)))"

subsection \<open>Detection\<close>

definition detect_bank_profile :: "string \<Rightarrow> string option" where
  "detect_bank_profile content =
    (if is_mbank_content content then Some ''mbank'' else if is_wise_content content then Some ''wise'' else None)"

section \<open>Lines and fields\<close>

definition plain_line :: "string \<Rightarrow> bool" where
  "plain_line l \<longleftrightarrow> list_all (\<lambda>c. \<not> is_line_break c) l"

definition unlines :: "string list \<Rightarrow> string" where
  "unlines ls = concat (map (\<lambda>l. l @ [LF]) ls)"

lemma break_chars [simp]: "is_line_break CR" "is_line_break LF" "LF \<noteq> CR"
  by code_simp+

lemma splitlines_line:
  "plain_line l \<Longrightarrow> splitlines_from a (l @ LF # r) = (a @ l) # splitlines_from [] r"
proof (induction l arbitrary: a)
  case Nil
  then show ?case by simp
next
  case (Cons c l)
  then have "c \<noteq> CR" "\<not> is_line_break c" "plain_line l" by (auto simp: plain_line_def)
  with Cons.IH show ?case by simp
qed

lemma splitlines_unlines: "\<forall>l \<in> set ls. plain_line l \<Longrightarrow> splitlines (unlines ls) = ls"
  by (induction ls) (simp_all add: splitlines_def unlines_def splitlines_line)

definition clean :: "string \<Rightarrow> bool" where
  "clean s \<longleftrightarrow> plain_line s \<and> strip s = s"

lemma strip_fixed:
  assumes "strip s = s" and "s \<noteq> []"
  shows "\<not> is_space (hd s)" "\<not> is_space (last s)"
proof -
  let ?d = "dropWhile is_space s"
  have r: "rev s = dropWhile is_space (rev ?d)" using assms(1) by (metis strip_def rev_rev_ident)
  have "rev s \<noteq> []" using assms(2) by simp
  then have "\<not> is_space (hd (rev s))" using r hd_dropWhile by metis
  then show "\<not> is_space (last s)" by (simp add: hd_rev)
  have "length s \<le> length ?d" using r by (metis length_dropWhile_le length_rev)
  moreover have "length ?d + length (takeWhile is_space s) = length s"
    by (metis add.commute length_append takeWhile_dropWhile_id)
  ultimately have "length (takeWhile is_space s) = 0" by linarith
  then have "takeWhile is_space s = []" by simp
  then show "\<not> is_space (hd s)" using assms(2) by (cases s) (auto split: if_splits)
qed

lemma strip_append:
  assumes "a \<noteq> []" and "\<not> is_space (hd a)" and "\<not> is_space (last a)" and "strip b = b"
  shows "strip (a @ b) = a @ b"
proof (cases "b = []")
  case True
  then show ?thesis using strip_ends [OF assms(1-3)] by simp
next
  case False
  then show ?thesis using strip_fixed [OF assms(4)] assms(1,2) by (intro strip_ends) simp_all
qed

text \<open>An MT940 field as a bank writes it.\<close>

definition tag_ok :: "string \<Rightarrow> bool" where
  "tag_ok t \<longleftrightarrow> (\<exists>a b u. (t = [a, b] \<or> t = [a, b, u] \<and> is_upper u) \<and> is_digit a \<and> is_digit b)"

definition written_field :: "string \<times> string list \<Rightarrow> string list" where
  "written_field f = (CHR '':'' # fst f @ CHR '':'' # hd (snd f)) # tl (snd f)"

definition good_field :: "string \<times> string list \<Rightarrow> bool" where
  "good_field f \<longleftrightarrow> tag_ok (fst f) \<and> snd f \<noteq> [] \<and> list_all clean (snd f) \<and>
    list_all (\<lambda>l. l \<noteq> [] \<and> mt940_field l = None) (tl (snd f))"

lemma colon_facts: "\<not> is_space (CHR '':'')" "\<not> is_upper (CHR '':'')" "\<not> is_line_break (CHR '':'')"
  by code_simp+

lemma field_head:
  assumes "tag_ok t" and "strip v = v"
  shows "mt940_field (CHR '':'' # t @ CHR '':'' # v) = Some (t, v)"
    and "strip (CHR '':'' # t @ CHR '':'' # v) = CHR '':'' # t @ CHR '':'' # v"
proof -
  obtain a b u where t: "t = [a, b] \<or> t = [a, b, u] \<and> is_upper u" "is_digit a" "is_digit b"
    using assms(1) by (auto simp: tag_ok_def)
  then show "mt940_field (CHR '':'' # t @ CHR '':'' # v) = Some (t, v)"
    using colon_facts(2) by (auto simp: mt940_field_def)
  show "strip (CHR '':'' # t @ CHR '':'' # v) = CHR '':'' # t @ CHR '':'' # v"
    using strip_append [of "CHR '':'' # t @ '':''" v] assms(2) colon_facts(1) by simp
qed

lemma continuation_lines:
  assumes "list_all (\<lambda>l. l \<noteq> [] \<and> strip l = l \<and> mt940_field l = None) xs"
  shows "field_lines (xs @ ls) (Some (t, ys)) = field_lines ls (Some (t, ys @ xs))"
    and "field_lines (xs @ ls) None = field_lines ls None"
  using assms by (induction xs arbitrary: ys) simp_all

lemma field_lines_written:
  assumes "good_field f"
  shows "field_lines (written_field f @ ls) cur = (case cur of None \<Rightarrow> [] | Some g \<Rightarrow> [g]) @ field_lines ls (Some f)"
proof -
  obtain t v xs where f: "f = (t, v # xs)" using assms by (cases f; cases "snd f") (auto simp: good_field_def)
  have g: "tag_ok t" "strip v = v" "list_all (\<lambda>l. l \<noteq> [] \<and> strip l = l \<and> mt940_field l = None) xs"
    using assms by (auto simp: f good_field_def clean_def list_all_iff)
  show ?thesis using continuation_lines(1) [OF g(3), of ls t "[v]"]
    by (simp add: f written_field_def field_head [OF g(1,2)] g(2) Let_def split: option.splits)
qed

lemma field_lines_all:
  assumes "list_all good_field fs"
  shows "field_lines (concat (map written_field fs)) cur = (case cur of None \<Rightarrow> [] | Some g \<Rightarrow> [g]) @ fs"
  using assms
proof (induction fs arbitrary: cur)
  case Nil
  then show ?case by (simp split: option.splits)
next
  case (Cons f fs)
  then show ?case by (simp add: field_lines_written)
qed

text \<open>Everything a bank writes as fields comes back as fields; what stands before the first tag is dropped.\<close>

lemma fields_round_trip:
  assumes "list_all good_field fs" and "list_all (\<lambda>l. l \<noteq> [] \<and> clean l \<and> mt940_field l = None) envelope"
  shows "iter_mt940_fields (unlines (envelope @ concat (map written_field fs))) = fs"
proof -
  have "\<forall>l \<in> set (written_field f). plain_line l" if "good_field f" for f
  proof -
    have "list_all (\<lambda>c. \<not> is_line_break c) (fst f)"
      using that by (auto simp: good_field_def tag_ok_def is_digit_def is_upper_def is_line_break_def)
    moreover have "clean (hd (snd f))" using that by (cases "snd f") (auto simp: good_field_def)
    moreover have "\<forall>l \<in> set (tl (snd f)). clean l" using that by (cases "snd f") (auto simp: good_field_def list_all_iff)
    ultimately show ?thesis using colon_facts(3) by (auto simp: written_field_def plain_line_def clean_def)
  qed
  then have "\<forall>l \<in> set (envelope @ concat (map written_field fs)). plain_line l"
    using assms by (auto simp: list_all_iff clean_def)
  moreover have "list_all (\<lambda>l. l \<noteq> [] \<and> strip l = l \<and> mt940_field l = None) envelope"
    using assms(2) by (auto simp: list_all_iff clean_def)
  ultimately show ?thesis
    by (simp add: iter_mt940_fields_def splitlines_unlines continuation_lines(2) field_lines_all [OF assms(1)])
qed

section \<open>The period of an mBank statement\<close>

text \<open>
  mBank writes the period as \<open>01.01.2000;10.08.2026\<close>; it is read as ISO dates, so the banner never has one.
\<close>

lemma mbank_period_is_never_read:
  "period_of ''01.01.2000;10.08.2026'' = (None, None)" "period_of ''2000-01-01;2026-08-10'' = (Some (Date 2000 1 1), Some (Date 2026 8 10))"
  by code_simp+

section \<open>Rows\<close>

lemma takes_tally: "take_row what i outcome res = Inr res' \<Longrightarrow>
    length (ir_rows res') + length (ir_errors res') + ir_skipped res' =
    length (ir_rows res) + length (ir_errors res) + ir_skipped res + 1"
  by (auto simp: take_row_def split: sum.splits option.splits if_splits)

text \<open>The loops cannot fail on readable or unreadable text alone, and every record is a row, an error or skipped.\<close>

lemma take_rows_accounts:
  assumes "\<And>x err. x \<in> set xs \<Longrightarrow> f x = Inl err \<Longrightarrow> is_import_error err"
  shows "\<exists>res. take_rows what f xs = Inr res \<and>
    length (ir_rows res) + length (ir_errors res) + ir_skipped res = length xs"
proof -
  have "\<exists>r'. efold (\<lambda>(i, x). take_row what i (f x)) (List.enumerate k ys) r = Inr r' \<and>
      length (ir_rows r') + length (ir_errors r') + ir_skipped r' =
      length (ir_rows r) + length (ir_errors r) + ir_skipped r + length ys" if "set ys \<subseteq> set xs" for ys k r
    using that
  proof (induction ys arbitrary: k r)
    case Nil
    then show ?case by simp
  next
    case (Cons y ys)
    have "\<exists>u. take_row what k (f y) r = Inr u"
      using assms [of y] Cons.prems by (cases "f y") (auto simp: take_row_def split: option.splits)
    then obtain u where u: "take_row what k (f y) r = Inr u" by blast
    then show ?case using Cons takes_tally [OF u] by fastforce
  qed
  from this [of xs 1 no_rows] show ?thesis by (simp add: take_rows_def no_rows_def)
qed

lemma take_rows_all:
  assumes "list_all2 (\<lambda>x row. f x = Inr (Some row)) xs rows"
  shows "take_rows what f xs = Inr (no_rows\<lparr>ir_rows := rows\<rparr>)"
proof -
  have "efold (\<lambda>(i, x). take_row what i (f x)) (List.enumerate k xs) r = Inr (r\<lparr>ir_rows := ir_rows r @ rows\<rparr>)" for k r
    using assms
  proof (induction xs rows arbitrary: k r rule: list_all2_induct)
    case Nil
    then show ?case by simp
  next
    case (Cons x xs row rows)
    then show ?case by (simp add: take_row_def)
  qed
  then show ?thesis by (simp add: take_rows_def no_rows_def)
qed

lemma parse_date_error: "parse_date v f = Inl err \<Longrightarrow> is_import_error err"
  by (auto simp: parse_date_def is_import_error_def split: option.splits)

lemma parse_amount_error: "parse_amount v d t = Inl err \<Longrightarrow> is_import_error err"
  by (auto simp: parse_amount_def is_import_error_def split: option.splits)

section \<open>MT940 statements are read back\<close>

text \<open>A movement, and the fields a bank writes for it; the amount has a comma and may have no decimals.\<close>

record movement =
  mv_date :: date
  mv_entry_date :: string
  mv_debit :: bool
  mv_funds_code :: string
  mv_whole :: string
  mv_fraction :: string
  mv_type_code :: string
  mv_reference :: string
  mv_details :: string
  mv_narrative :: string

definition mv_amount :: "movement \<Rightarrow> decimal" where
  "mv_amount m =
    (let x = of_nat (digits_value (mv_whole m @ mv_fraction m)) / 10 ^ length (mv_fraction m)
     in if mv_debit m then - x else x)"

definition movement_line :: "movement \<Rightarrow> string" where
  "movement_line m = strftime (mv_date m) ''%y%m%d'' @ mv_entry_date m @ (if mv_debit m then CHR ''D'' else CHR ''C'') #
    mv_funds_code m @ mv_whole m @ CHR '','' # mv_fraction m @ mv_type_code m @ mv_reference m"

definition movement_fields :: "movement \<Rightarrow> (string \<times> string list) list" where
  "movement_fields m =
    (''61'', movement_line m # (if mv_details m = [] then [] else [mv_details m])) #
    (if mv_narrative m = [] then [] else [(''86'', [mv_narrative m])])"

definition good_movement :: "movement \<Rightarrow> bool" where
  "good_movement m \<longleftrightarrow> valid_date (mv_date m) \<and> 1969 \<le> d_year (mv_date m) \<and> d_year (mv_date m) \<le> 2068 \<and>
    (mv_entry_date m = [] \<or> length (mv_entry_date m) = 4 \<and> list_all is_digit (mv_entry_date m)) \<and>
    (mv_funds_code m = [] \<or> length (mv_funds_code m) = 1 \<and> is_upper (hd (mv_funds_code m))) \<and>
    digits (mv_whole m) \<and> list_all is_digit (mv_fraction m) \<and> length (mv_whole m @ mv_fraction m) \<le> 28 \<and>
    length (mv_type_code m) = 4 \<and> is_upper (hd (mv_type_code m)) \<and>
    list_all (\<lambda>c. is_upper c \<or> is_digit c) (tl (mv_type_code m)) \<and> clean (mv_reference m) \<and>
    clean (mv_details m) \<and> mt940_field (mv_details m) = None \<and> clean (mv_narrative m)"

definition mv_description :: "movement \<Rightarrow> string" where
  "mv_description m =
    (let ref = strip (before ''//'' (mv_reference m))
     in if mv_details m \<noteq> [] then mv_details m else if ref \<noteq> ''NONREF'' then ref else [])"

lemma comma_amount:
  assumes "digits ds" and "list_all is_digit fr"
  shows "parse_amount (ds @ CHR '','' # fr) '','' [] = Inr (Finite (of_nat (digits_value (ds @ fr)) / 10 ^ length fr))"
proof -
  let ?w = "ds @ CHR '','' # fr" and ?v = "ds @ CHR ''.'' # fr"
  have dg: "\<forall>c \<in> set ds. is_digit c" "\<forall>c \<in> set fr. is_digit c" "ds \<noteq> []"
    using digitsD [OF assms(1)] assms(2) by (auto simp: list_all_iff)
  obtain a as where ds: "ds = a # as" "is_digit a" using dg(1,3) by (cases ds) auto
  have sp: "\<not> is_space (CHR '','')" "\<not> is_space (CHR ''.'')" "\<not> is_upper (CHR '','')" by code_simp+
  have nospace: "\<not> is_space (hd ?w)" "\<not> is_space (last ?w)" "\<not> is_space (hd ?v)" "\<not> is_space (last ?v)"
    using ds dg digit_facts(1) sp by (auto dest: last_in_set)
  have s: "strip ?w = ?w" "strip ?v = ?v" by (rule strip_ends; use nospace in simp)+
  have nb: "replace_text nbsp [] ?w = ?w"
    by (rule replace_absent) (use dg digit_facts(9) in \<open>auto simp: nbsp_def\<close>)
  have "\<not> is_upper (last ?w)" using dg(2) digit_facts(2) sp(3) by (cases fr rule: rev_cases) auto
  then have "\<not> list_all is_upper (last_n 3 ?w)"
    using last_in_last_n [of ?w 3] by (auto simp: list_all_iff)
  then have dc: "drop_currency ?w = ?w" by (simp add: drop_currency_def)
  have blank: "without (CHR '' '') ?w = ?w" using dg digit_facts(3) by (auto simp: without_def filter_id_conv)
  note p = plain_written [OF dg(1,2), of False]
  have "clean_amount ?w '','' [] = ?v"
    using p by (simp add: clean_amount_def Let_def s nb dc blank sign_of_def)
  moreover have "decimal_of ?v = finite_of False ?v"
  proof -
    have "filter (\<lambda>c. c \<noteq> CHR ''_'') ?v = ?v" using dg digit_facts(8) by (auto simp: filter_id_conv)
    moreover have "split_sign ?v = (False, ?v)" using ds digit_facts(6,7) [OF ds(2)] by (simp add: split_sign_def)
    moreover have h: "hd (casefold ?v) = a" "casefold ?v \<noteq> []" using casefold_digit_head [of ?v] ds by simp_all
    moreover have "a \<noteq> CHR ''i''" "a \<noteq> CHR ''n''" "a \<noteq> CHR ''s''" using ds(2) by (auto simp: is_digit_def)
    moreover from this h have "casefold ?v \<noteq> ''inf''" "casefold ?v \<noteq> ''infinity''"
      "\<not> starts_with (casefold ?v) ''nan''" "\<not> starts_with (casefold ?v) ''snan''"
      by (cases "casefold ?v"; auto simp: starts_with_def)+
    ultimately show ?thesis using s(2) by (simp add: decimal_of_def Let_def)
  qed
  moreover have "finite_of False ?v = Some (Finite (of_nat (digits_value (ds @ fr)) / 10 ^ length fr))"
  proof -
    have "digit_run ?v = (ds, CHR ''.'' # fr)" "digit_run fr = (fr, [])"
      using dg by (auto simp: digit_run_def takeWhile_append dropWhile_append is_digit_def dropWhile_eq_Nil_conv
          takeWhile_eq_all_conv)
    moreover have "pow10 (- int (length fr)) = 1 / 10 ^ length fr" by (simp add: pow10_uminus pow10_of_nat)
    ultimately show ?thesis using dg(3) by (simp add: finite_of_def exponent_of_def Let_def)
  qed
  ultimately show ?thesis by (simp add: parse_amount_def)
qed

lemma digits_value_bound: "list_all is_digit ds \<Longrightarrow> digits_value ds < 10 ^ length ds"
proof (induction ds rule: rev_induct)
  case Nil
  then show ?case by (simp add: digits_value_def)
next
  case (snoc c ds)
  then have "digits_value ds + 1 \<le> 10 ^ length ds" "of_char c - 48 \<le> (9 :: nat)" by (auto simp: is_digit_def)
  then show ?case by (simp add: digits_value_def)
qed

lemma negated_amount:
  assumes "list_all is_digit (ds @ fr)" and "length (ds @ fr) \<le> 28"
  shows "ctx (- (of_nat (digits_value (ds @ fr)) / 10 ^ length fr)) = - (of_nat (digits_value (ds @ fr)) / 10 ^ length fr)"
proof (rule ctx_exact [where k = "length fr" and n = "- int (digits_value (ds @ fr))"])
  have "(of_nat (digits_value (ds @ fr)) :: decimal) < of_nat (10 ^ length (ds @ fr))"
    using digits_value_bound [OF assms(1)] of_nat_less_iff by blast
  also have "of_nat (10 ^ length (ds @ fr)) = (10 :: decimal) ^ length (ds @ fr)" by simp
  also have "\<dots> \<le> 10 ^ 28" using assms(2) by (intro power_increasing) simp_all
  finally have "(of_nat (digits_value (ds @ fr)) :: decimal) / 10 ^ length fr < 10 ^ 28 / 10 ^ length fr"
    by (simp add: divide_strict_right_mono)
  moreover have "pow10 (28 - int (length fr)) = 10 ^ 28 / 10 ^ length fr"
    using pow10_add [of 28 "- int (length fr)"] by (simp add: pow10_uminus pow10_of_nat) (simp add: pow10_def)
  ultimately show "\<bar>- (of_nat (digits_value (ds @ fr)) / 10 ^ length fr)\<bar> < pow10 (28 - int (length fr))" by simp
qed simp

lemma value_date_read:
  assumes "valid_date dt" and "1969 \<le> d_year dt" and "d_year dt \<le> 2068"
  shows "parse_date (strftime dt ''%y%m%d'') ''%y%m%d'' = Inr dt"
    and "length (strftime dt ''%y%m%d'') = 6" and "list_all is_digit (strftime dt ''%y%m%d'')"
proof -
  note v = valid_bounds [OF assms(1)]
  have shape: "length (two n) = 2 \<and> list_all is_digit (two n)" if "0 \<le> n" "n < 100" for n
    by (rule two_shape [OF that]) (simp add: digit_char_facts)
  have s: "strftime dt ''%y%m%d'' = two (d_year dt mod 100) @ two (d_month dt) @ two (d_day dt)"
    by (simp add: strftime_def)
  show len: "length (strftime dt ''%y%m%d'') = 6" and ds: "list_all is_digit (strftime dt ''%y%m%d'')"
    using shape [of "d_year dt mod 100"] shape [of "d_month dt"] shape [of "d_day dt"] v by (simp_all add: s)
  have m: "d_year dt mod 100 = (if 2000 \<le> d_year dt then d_year dt - 2000 else d_year dt - 1900)"
  proof (cases "2000 \<le> d_year dt")
    case True
    then show ?thesis using assms(3) by simp presburger
  next
    case False
    then show ?thesis using assms(2) by simp presburger
  qed
  have y: "nat (d_year dt mod 100) \<le> 68 \<longleftrightarrow> 2000 \<le> d_year dt"
    unfolding m using assms(2,3) by auto
  have dp: "match_format (directives ''%y%m%d'') p (strftime dt ''%y%m%d'') =
      Some (fold (\<lambda>x. put_part x (part_value dt x)) [Year2, Month, Day] p, [])" for p
    using match_shown [OF assms(1), of "directives ''%y%m%d''" p] by (simp add: strftime_def)
  have "Date (int (nat (d_year dt))) (int (nat (d_month dt))) (int (nat (d_day dt))) = dt"
    using v by (cases dt) simp
  moreover have "int (if nat (d_year dt mod 100) \<le> 68 then 2000 + nat (d_year dt mod 100)
      else 1900 + nat (d_year dt mod 100)) = int (nat (d_year dt))"
    using y m assms(2,3) by auto
  ultimately have "strptime (strftime dt ''%y%m%d'') ''%y%m%d'' = Inr dt"
    unfolding strptime_def dp using assms(1) by (simp add: part_value_def mk_date_def)
  moreover have "strip (strftime dt ''%y%m%d'') = strftime dt ''%y%m%d''"
  proof (rule strip_ends)
    show "strftime dt ''%y%m%d'' \<noteq> []" using len by auto
    then have "hd (strftime dt ''%y%m%d'') \<in> set (strftime dt ''%y%m%d'')"
      "last (strftime dt ''%y%m%d'') \<in> set (strftime dt ''%y%m%d'')" by simp_all
    then show "\<not> is_space (hd (strftime dt ''%y%m%d''))" "\<not> is_space (last (strftime dt ''%y%m%d''))"
      using ds digit_facts(1) unfolding list_all_iff by blast+
  qed
  ultimately show "parse_date (strftime dt ''%y%m%d'') ''%y%m%d'' = Inr dt" by (simp add: parse_date_def)
qed

text \<open>The pieces of a written statement line, taken apart from the left.\<close>

lemma upper_facts: "is_upper c \<Longrightarrow> \<not> is_digit c \<and> \<not> is_amount_char c \<and> \<not> is_space c \<and> \<not> is_line_break c"
  by (auto simp: is_upper_def is_digit_def is_amount_char_def is_space_def is_line_break_def)

lemma digit_no_break: "is_digit c \<Longrightarrow> \<not> is_line_break c"
  by (auto simp: is_digit_def is_line_break_def)

lemma match_written:
  assumes "good_movement m"
  shows "match_statement (movement_line m) = Some \<lparr>sg_value_date = strftime (mv_date m) ''%y%m%d'',
      sg_mark = (if mv_debit m then CHR ''D'' else CHR ''C''), sg_amount = mv_whole m @ CHR '','' # mv_fraction m,
      sg_type_code = mv_type_code m, sg_reference = mv_reference m\<rparr>"
proof -
  let ?d = "strftime (mv_date m) ''%y%m%d''" and ?mark = "if mv_debit m then CHR ''D'' else CHR ''C''"
  let ?amount = "mv_whole m @ CHR '','' # mv_fraction m" and ?tail = "mv_type_code m @ mv_reference m"
  have g: "valid_date (mv_date m)" "1969 \<le> d_year (mv_date m)" "d_year (mv_date m) \<le> 2068"
    "mv_entry_date m = [] \<or> length (mv_entry_date m) = 4 \<and> list_all is_digit (mv_entry_date m)"
    "mv_funds_code m = [] \<or> length (mv_funds_code m) = 1 \<and> is_upper (hd (mv_funds_code m))"
    "digits (mv_whole m)" "list_all is_digit (mv_fraction m)" "length (mv_type_code m) = 4"
    "is_upper (hd (mv_type_code m))" "list_all (\<lambda>c. is_upper c \<or> is_digit c) (tl (mv_type_code m))"
    "clean (mv_reference m)" using assms by (simp_all add: good_movement_def)
  note vd = value_date_read [OF g(1-3)]
  obtain w ws where w: "mv_whole m = w # ws" "is_digit w" using digitsD [OF g(6)] by (cases "mv_whole m") auto
  obtain t ts where t: "mv_type_code m = t # ts" "length ts = 3" "is_upper t"
    using g(8,9) by (cases "mv_type_code m") auto
  have line: "movement_line m = ?d @ mv_entry_date m @ ?mark # mv_funds_code m @ ?amount @ ?tail"
    by (simp add: movement_line_def)
  let ?rest = "?mark # mv_funds_code m @ ?amount @ ?tail"
  have mark: "\<not> is_digit ?mark" by (simp add: is_digit_def)
  have r: "drop 6 (movement_line m) = mv_entry_date m @ ?rest" "take 6 (movement_line m) = ?d"
    using vd(2) by (simp_all add: line)
  have r1: "(if 4 \<le> length (mv_entry_date m @ ?rest) \<and> list_all is_digit (take 4 (mv_entry_date m @ ?rest))
      then drop 4 (mv_entry_date m @ ?rest) else mv_entry_date m @ ?rest) = ?rest"
    using g(4) mark by auto
  have r3: "(let r2 = mv_funds_code m @ ?amount @ ?tail in if r2 \<noteq> [] \<and> is_upper (hd r2) then tl r2 else r2) =
      ?amount @ ?tail"
    using g(5) w digit_facts(2) [OF w(2)] by (cases "mv_funds_code m") auto
  have am: "takeWhile is_amount_char (?amount @ ?tail) = ?amount" "dropWhile is_amount_char (?amount @ ?tail) = ?tail"
    using digitsD [OF g(6)] g(7) t upper_facts [OF t(3)]
    by (auto simp: list_all_iff is_amount_char_def takeWhile_append dropWhile_append)
  have lf: "LF \<notin> set (mv_reference m)"
    using g(11) break_chars(2) by (auto simp: clean_def plain_line_def list_all_iff)
  have amount: "?amount \<noteq> []" "is_digit (hd ?amount)" using w by simp_all
  have tail: "4 \<le> length ?tail" "is_upper (hd ?tail)" "take 4 ?tail = mv_type_code m" "drop 4 ?tail = mv_reference m"
    "take 3 (tl ?tail) = tl (mv_type_code m)" using t by simp_all
  have "6 \<le> length (movement_line m)" using vd(2) by (simp add: line)
  then show ?thesis
    unfolding match_statement_def Let_def r r1 list.sel r3 [unfolded Let_def] am tail
    using amount tail(1,2) g(10) lf vd(3) by simp
qed

definition entry_of :: "movement \<Rightarrow> mt940_entry" where
  "entry_of m = \<lparr>me_statement_line = movement_line m, me_details = mv_details m, me_narrative = mv_narrative m\<rparr>"

lemma entries_of_movement:
  assumes "good_movement m"
  shows "entries_of (movement_fields m @ fs) cur =
    (case cur of None \<Rightarrow> [] | Some e \<Rightarrow> [e]) @ entries_of fs (Some (entry_of m))"
  using assms by (simp add: movement_fields_def entry_of_def good_movement_def clean_def strip_def)

lemma entries_of_movements:
  assumes "list_all good_movement ms" and "tag \<noteq> ''61''" and "tag \<noteq> ''86''"
  shows "entries_of (concat (map movement_fields ms) @ (tag, v) # fs) cur =
    (case cur of None \<Rightarrow> [] | Some e \<Rightarrow> [e]) @ map entry_of ms @ entries_of fs None"
  using assms(1) by (induction ms arbitrary: cur) (simp_all add: entries_of_movement assms(2,3))

lemma entries_of_header:
  "list_all (\<lambda>f. fst f \<noteq> ''61'' \<and> fst f \<noteq> ''86'') hs \<Longrightarrow> entries_of (hs @ fs) None = entries_of fs None"
  by (induction hs) auto

lemma entries_of_rest: "list_all (\<lambda>f. fst f \<noteq> ''61'' \<and> fst f \<noteq> ''86'') hs \<Longrightarrow> entries_of hs None = []"
  using entries_of_header [of hs "[]"] by simp

lemma movement_line_clean:
  assumes "good_movement m"
  shows "clean (movement_line m)"
proof -
  let ?d = "strftime (mv_date m) ''%y%m%d''"
  have vd: "length ?d = 6" "list_all is_digit ?d" using value_date_read assms by (auto simp: good_movement_def)
  obtain d ds where d: "?d = d # ds" "is_digit d" using vd by (cases ?d) auto
  have tc: "length (mv_type_code m) = 4" "is_upper (hd (mv_type_code m))"
    "list_all (\<lambda>c. is_upper c \<or> is_digit c) (tl (mv_type_code m))" using assms by (simp_all add: good_movement_def)
  then obtain t ts where c: "mv_type_code m = t # ts" "length ts = 3" by (cases "mv_type_code m") auto
  then have t: "mv_type_code m = t # ts" "ts \<noteq> []" "list_all (\<lambda>c. is_upper c \<or> is_digit c) ts" "is_upper t"
    using tc by auto
  have ref: "strip (mv_reference m) = mv_reference m" "plain_line (mv_reference m)"
    using assms by (simp_all add: good_movement_def clean_def)
  let ?a = "?d @ mv_entry_date m @ (if mv_debit m then CHR ''D'' else CHR ''C'') #
    mv_funds_code m @ mv_whole m @ CHR '','' # mv_fraction m @ mv_type_code m"
  have line: "movement_line m = ?a @ mv_reference m" by (simp add: movement_line_def)
  have "last ts \<in> set ts" using t(2) by simp
  then have "\<not> is_space (last ts)" using t(3) upper_facts digit_facts(1) by (auto simp: list_all_iff)
  then have "strip (movement_line m) = movement_line m"
    unfolding line using ref(1) d digit_facts(1) t(1,2) by (intro strip_append) simp_all
  moreover have "plain_line (movement_line m)"
  proof -
    have "list_all is_digit (mv_entry_date m)" "list_all is_digit (mv_whole m)" "list_all is_digit (mv_fraction m)"
      "list_all is_upper (mv_funds_code m)"
      using assms by (auto simp: good_movement_def digits_def length_Suc_conv)
    moreover have "\<not> is_line_break (CHR ''D'')" "\<not> is_line_break (CHR ''C'')" "\<not> is_line_break (CHR '','')"
      by code_simp+
    ultimately show ?thesis
      using vd(2) t(1,3,4) ref(2) digit_no_break upper_facts
      by (auto simp: line plain_line_def list_all_iff)
  qed
  ultimately show ?thesis by (simp add: clean_def)
qed

lemma movement_fields_good:
  assumes "good_movement m"
  shows "list_all good_field (movement_fields m)"
  using movement_line_clean [OF assms] assms
  by (auto simp: movement_fields_def good_field_def good_movement_def tag_ok_def is_digit_def)

lemma movement_row:
  assumes "good_movement m"
  shows "\<exists>row. mt940_row (entry_of m) = Inr (Some row) \<and> pr_date row = mv_date m \<and>
    pr_amount row = Finite (mv_amount m) \<and> pr_description row = mv_description m"
proof -
  have g: "valid_date (mv_date m)" "1969 \<le> d_year (mv_date m)" "d_year (mv_date m) \<le> 2068"
    "digits (mv_whole m)" "list_all is_digit (mv_fraction m)" "length (mv_whole m @ mv_fraction m) \<le> 28"
    "strip (movement_line m) = movement_line m" "list_all is_digit (mv_whole m @ mv_fraction m)"
    using assms movement_line_clean [OF assms] by (auto simp: good_movement_def clean_def digits_def)
  have "signed_by (if mv_debit m then CHR ''D'' else CHR ''C'')
      (Finite (of_nat (digits_value (mv_whole m @ mv_fraction m)) / 10 ^ length (mv_fraction m))) = Inr (Finite (mv_amount m))"
    using negated_amount [OF g(8,6)] by (simp add: signed_by_def mv_amount_def Let_def)
  then have "parse_mt940_statement_line (movement_line m) = Inr \<lparr>sl_value_date = mv_date m, sl_amount = Finite (mv_amount m),
      sl_type_code = mv_type_code m, sl_reference = strip (before ''//'' (mv_reference m))\<rparr>"
    by (simp add: parse_mt940_statement_line_def g(7) match_written [OF assms] comma_amount [OF g(4,5)]
        value_date_read(1) [OF g(1-3)])
  then show ?thesis
    by (simp add: mt940_row_def entry_of_def mt940_description_def mv_description_def Let_def)
qed

text \<open>
  C37. An MT940 statement is read back: whatever fields stand before and after, and whatever envelope
  surrounds them, every movement the bank wrote becomes one row, in order, with its value date, its exact
  amount (negative for a debit) and its best description; nothing is reported and nothing is skipped.
\<close>

theorem mt940_reads_back:
  assumes "list_all good_movement ms" and "list_all good_field (header @ closing)" and "closing \<noteq> []"
    and "list_all (\<lambda>f. fst f \<noteq> ''61'' \<and> fst f \<noteq> ''86'') (header @ closing)"
    and "list_all (\<lambda>l. l \<noteq> [] \<and> clean l \<and> mt940_field l = None) envelope"
  shows "\<exists>res. parse_mt940 (unlines (envelope @
      concat (map written_field (header @ concat (map movement_fields ms) @ closing)))) = Inr res \<and>
    ir_errors res = [] \<and> ir_skipped res = 0 \<and>
    map (\<lambda>row. (pr_date row, pr_amount row, pr_description row)) (ir_rows res) =
      map (\<lambda>m. (mv_date m, Finite (mv_amount m), mv_description m)) ms"
proof -
  let ?fs = "header @ concat (map movement_fields ms) @ closing"
  have "list_all good_field ?fs"
    using assms(1,2) movement_fields_good by (auto simp: list_all_iff)
  note fields = fields_round_trip [OF this assms(5)]
  obtain tag v cs where c: "closing = (tag, v) # cs" using assms(3) by (metis surj_pair neq_Nil_conv)
  have "entries_of ?fs None = map entry_of ms"
    using assms(4) entries_of_movements [OF assms(1), of tag v cs None] entries_of_rest [of cs]
    by (simp add: entries_of_header c)
  then have es: "iter_mt940_entries (unlines (envelope @ concat (map written_field ?fs))) = map entry_of ms"
    by (simp only: iter_mt940_entries_def fields)
  have "\<forall>m \<in> set ms. \<exists>row. mt940_row (entry_of m) = Inr (Some row) \<and> pr_date row = mv_date m \<and>
      pr_amount row = Finite (mv_amount m) \<and> pr_description row = mv_description m"
    using assms(1) movement_row by (simp add: list_all_iff)
  then obtain f where f: "\<forall>m \<in> set ms. mt940_row (entry_of m) = Inr (Some (f m)) \<and> pr_date (f m) = mv_date m \<and>
      pr_amount (f m) = Finite (mv_amount m) \<and> pr_description (f m) = mv_description m" by metis
  have "list_all2 (\<lambda>x row. mt940_row x = Inr (Some row)) (map entry_of ms) (map f ms)"
    using f by (simp add: list_all2_conv_all_nth)
  from take_rows_all [OF this]
  have "parse_mt940 (unlines (envelope @ concat (map written_field ?fs))) = Inr (no_rows\<lparr>ir_rows := map f ms\<rparr>)"
    by (simp only: parse_mt940_def es)
  moreover have "map (\<lambda>row. (pr_date row, pr_amount row, pr_description row)) (map f ms) =
      map (\<lambda>m. (mv_date m, Finite (mv_amount m), mv_description m)) ms" using f by simp
  ultimately show ?thesis by (intro exI [of _ "no_rows\<lparr>ir_rows := map f ms\<rparr>"]) (simp only:, simp add: no_rows_def)
qed

definition ex_movement :: movement where
  "ex_movement = \<lparr>mv_date = Date 2026 5 17, mv_entry_date = [], mv_debit = True, mv_funds_code = [], mv_whole = ''51571'',
     mv_fraction = ''5'', mv_type_code = ''FMSC'', mv_reference = ''NONREF'', mv_details = ''CARD-3802617048'',
     mv_narrative = []\<rparr>"

definition ex_mt940 :: string where
  "ex_mt940 = unlines [''{1:F01}'', '':25:GB33TRWI'', '':61:260517D51571,5FMSCNONREF'', ''CARD-3802617048'', '':62F:C260630JPY1,'']"

theorem mt940_reads_back_witness:
  "\<exists>res row. parse_mt940 ex_mt940 = Inr res \<and> ir_rows res = [row] \<and> pr_date row = Date 2026 5 17 \<and>
    pr_amount row = Finite (- 515715 / 10) \<and> pr_description row = ''CARD-3802617048''"
proof -
  have "list_all good_movement [ex_movement]" by code_simp
  moreover have "list_all good_field ([(''25'', [''GB33TRWI''])] @ [(''62F'', [''C260630JPY1,''])])"
    "list_all (\<lambda>f. fst f \<noteq> ''61'' \<and> fst f \<noteq> ''86'') ([(''25'', [''GB33TRWI''])] @ [(''62F'', [''C260630JPY1,''])])"
    "list_all (\<lambda>l. l \<noteq> [] \<and> clean l \<and> mt940_field l = None) [''{1:F01}'']"
    by (simp_all add: good_field_def tag_ok_def is_digit_def is_upper_def) code_simp+
  ultimately obtain res where res: "parse_mt940 (unlines ([''{1:F01}''] @ concat (map written_field
      ([(''25'', [''GB33TRWI''])] @ concat (map movement_fields [ex_movement]) @ [(''62F'', [''C260630JPY1,''])])))) = Inr res"
    "map (\<lambda>row. (pr_date row, pr_amount row, pr_description row)) (ir_rows res) =
      map (\<lambda>m. (mv_date m, Finite (mv_amount m), mv_description m)) [ex_movement]"
    using mt940_reads_back [of "[ex_movement]" "[(''25'', [''GB33TRWI''])]" "[(''62F'', [''C260630JPY1,''])]" "[''{1:F01}'']"]
    by auto
  have "unlines ([''{1:F01}''] @ concat (map written_field
      ([(''25'', [''GB33TRWI''])] @ concat (map movement_fields [ex_movement]) @ [(''62F'', [''C260630JPY1,''])]))) = ex_mt940"
    by code_simp
  moreover have "mv_date ex_movement = Date 2026 5 17" "mv_amount ex_movement = - 515715 / 10"
    "mv_description ex_movement = ''CARD-3802617048''"
    by (simp_all add: ex_movement_def mv_amount_def mv_description_def digits_value_def)
  ultimately show ?thesis using res by (auto simp: map_eq_Cons_conv)
qed

end
