(* ===== verification/ImportRules.thy ===== *)
theory ImportRules
  imports BankStatements
begin

text \<open>
  The remembered import settings (\<open>src/src/kaleta/services/import_rule_service.py\<close>): a rule ties a file-name
  pattern to an account and a column mapping, the pattern is suggested from the name of the first file, and a
  later upload takes the most specific rule that matches its name. Matching is \<open>fnmatch.fnmatchcase\<close> on
  case-folded texts, written out here as the standard library defines it.
\<close>

section \<open>Definitions\<close>

subsection \<open>File-name patterns\<close>

text \<open>
  The members of a bracket expression. A range whose ends are out of order stands for nothing, and a hyphen
  that starts or ends the expression stands for itself.
\<close>

fun in_brackets :: "char \<Rightarrow> string \<Rightarrow> bool" where
  "in_brackets x (a # h # b # r) =
    (if h = CHR ''-'' then (of_char a \<le> (of_char x :: nat) \<and> (of_char x :: nat) \<le> of_char b) \<or> in_brackets x r
     else x = a \<or> in_brackets x (h # b # r))"
| "in_brackets x (a # r) = (x = a \<or> in_brackets x r)"
| "in_brackets x [] = False"

text \<open>The text between the brackets and what follows, when the bracket is closed.\<close>

definition bracket_body :: "string \<Rightarrow> (bool \<times> string \<times> string) option" where
  "bracket_body p =
    (let neg = starts_with p ''!''; q = (if neg then drop 1 p else p);
         k = (if starts_with q '']'' then 1 else 0);
         rest = dropWhile (\<lambda>c. c \<noteq> CHR '']'') (drop k q)
     in if rest = [] then None
        else Some (neg, take k q @ takeWhile (\<lambda>c. c \<noteq> CHR '']'') (drop k q), drop 1 rest))"

lemma bracket_shorter:
  assumes "bracket_body p = Some (neg, body, rest)"
  shows "length rest < length p"
proof -
  define q where "q = (if starts_with p ''!'' then drop 1 p else p)"
  define d where "d = dropWhile (\<lambda>c. c \<noteq> CHR '']'') (drop (if starts_with q '']'' then 1 else 0) q)"
  have b: "bracket_body p = (if d = [] then None else Some (starts_with p ''!'',
      take (if starts_with q '']'' then 1 else 0) q @ takeWhile (\<lambda>c. c \<noteq> CHR '']'') (drop (if starts_with q '']'' then 1 else 0) q),
      drop 1 d))"
    by (simp only: bracket_body_def Let_def q_def d_def)
  have "d \<noteq> []" "rest = drop 1 d" using assms unfolding b by (simp_all split: if_splits)
  moreover have "length d \<le> length q" unfolding d_def by (rule order_trans [OF length_dropWhile_le]) simp
  moreover have "length q \<le> length p" by (simp add: q_def)
  ultimately show ?thesis by (cases d) auto
qed

function glob :: "string \<Rightarrow> string \<Rightarrow> bool" where
  "glob [] s = (s = [])"
| "glob (p # ps) s =
    (if p = CHR ''*'' then glob ps s \<or> (case s of [] \<Rightarrow> False | c # cs \<Rightarrow> glob (p # ps) cs)
     else case s of
       [] \<Rightarrow> False
     | c # cs \<Rightarrow>
         if p = CHR ''?'' then glob ps cs
         else if p = CHR ''['' then
           (case bracket_body ps of
              None \<Rightarrow> c = p \<and> glob ps cs
            | Some (neg, body, rest) \<Rightarrow> (in_brackets c body \<noteq> neg) \<and> glob rest cs)
         else c = p \<and> glob ps cs)"
  by pat_completeness auto
termination
  by (relation "measure (\<lambda>(p, s). length p + length s)") (auto dest: bracket_shorter)

definition pattern_matches :: "string \<Rightarrow> string \<Rightarrow> bool" where
  "pattern_matches pattern filename = glob (casefold pattern) (casefold filename)"

definition specificity_score :: "string \<Rightarrow> nat" where
  "specificity_score pattern = length (takeWhile (\<lambda>c. c \<noteq> CHR ''*'' \<and> c \<noteq> CHR ''?'') (casefold pattern))"

text \<open>\<open>re.sub(r"\d[\d\-]*", "*", name, count=1)\<close>\<close>

definition star_digits :: "string \<Rightarrow> string" where
  "star_digits name =
    (let r = dropWhile (\<lambda>c. \<not> is_digit c) name
     in if r = [] then name
        else takeWhile (\<lambda>c. \<not> is_digit c) name @ CHR ''*'' # dropWhile (\<lambda>c. is_digit c \<or> c = CHR ''-'') r)"

definition suggest_filename_pattern :: "string \<Rightarrow> string" where
  "suggest_filename_pattern filename = (if strip filename = [] then ''*'' else star_digits (strip filename))"

definition normalise_pattern :: "string \<Rightarrow> string result" where
  "normalise_pattern pattern =
    (let cleaned = strip pattern
     in raise_if (cleaned = []) (ValidationError ''errors.import_rule.pattern_empty'')
       (raise_if (200 < length cleaned) (ValidationError ''errors.import_rule.pattern_too_long'') (Inr cleaned)))"

subsection \<open>Rules\<close>

record import_rule =
  imr_id :: int
  imr_filename_pattern :: string
  imr_account_id :: int
  imr_column_mapping :: "(string \<times> json) list"
  imr_encoding :: "string option"
  imr_delimiter :: "string option"
  imr_is_active :: bool
  imr_last_used_at :: "int option"

record rule_store =
  rs_rules :: "import_rule list"
  seq_rule :: int

record import_rule_create =
  irc_filename_pattern :: string
  irc_account_id :: int
  irc_column_mapping :: "(string \<times> json) list"
  irc_encoding :: "string option"
  irc_delimiter :: "string option"
  irc_is_active :: bool

text \<open>A field of an update is absent, or set, and where the schema allows it set to null.\<close>

record import_rule_update =
  iru_filename_pattern :: "string option option"
  iru_account_id :: "int option option"
  iru_column_mapping :: "(string \<times> json) list option option"
  iru_encoding :: "string option option"
  iru_delimiter :: "string option option"
  iru_is_active :: "bool option option"

definition list_import_rules :: "bool \<Rightarrow> rule_store \<Rightarrow> import_rule list" where
  "list_import_rules active_only st =
    sort_key (\<lambda>r. (text_key (Some (imr_filename_pattern r)), imr_id r))
      (filter (\<lambda>r. active_only \<longrightarrow> imr_is_active r) (rs_rules st))"

definition get_import_rule :: "int \<Rightarrow> rule_store \<Rightarrow> import_rule option" where
  "get_import_rule i st = find_row imr_id i (rs_rules st)"

definition require_account :: "db \<Rightarrow> int \<Rightarrow> unit result" where
  "require_account s a =
    raise_if (\<not> has_account s a) (NotFoundError ''errors.import_rule.account_not_found'') (Inr ())"

definition create_import_rule :: "db \<Rightarrow> import_rule_create \<Rightarrow> rule_store \<Rightarrow> (import_rule \<times> rule_store) result" where
  "create_import_rule s data st =
    ebind (normalise_pattern (irc_filename_pattern data)) (\<lambda>pattern.
    ebind (require_account s (irc_account_id data)) (\<lambda>_.
    let rule = \<lparr>imr_id = seq_rule st, imr_filename_pattern = pattern, imr_account_id = irc_account_id data,
          imr_column_mapping = irc_column_mapping data, imr_encoding = irc_encoding data,
          imr_delimiter = irc_delimiter data, imr_is_active = irc_is_active data, imr_last_used_at = None\<rparr>
    in Inr (rule, st\<lparr>rs_rules := rs_rules st @ [rule], seq_rule := seq_rule st + 1\<rparr>)))"

text \<open>A null in a column that is not nullable is refused by the database when the update is committed.\<close>

definition required_null :: "'a option option \<Rightarrow> bool" where
  "required_null v \<longleftrightarrow> v = Some None"

definition set_required :: "'a option option \<Rightarrow> ('a \<Rightarrow> 'r \<Rightarrow> 'r) \<Rightarrow> 'r \<Rightarrow> 'r" where
  "set_required v f r = (case v of Some (Some x) \<Rightarrow> f x r | _ \<Rightarrow> r)"

definition apply_rule_update :: "string option \<Rightarrow> import_rule_update \<Rightarrow> import_rule \<Rightarrow> import_rule" where
  "apply_rule_update pattern data r =
    patch (iru_delimiter data) (\<lambda>v x. x\<lparr>imr_delimiter := v\<rparr>)
    (patch (iru_encoding data) (\<lambda>v x. x\<lparr>imr_encoding := v\<rparr>)
    (set_required (iru_is_active data) (\<lambda>v x. x\<lparr>imr_is_active := v\<rparr>)
    (set_required (iru_column_mapping data) (\<lambda>v x. x\<lparr>imr_column_mapping := v\<rparr>)
    (set_required (iru_account_id data) (\<lambda>v x. x\<lparr>imr_account_id := v\<rparr>)
    (patch pattern (\<lambda>v x. x\<lparr>imr_filename_pattern := v\<rparr>) r)))))"

definition update_import_rule :: "db \<Rightarrow> int \<Rightarrow> import_rule_update \<Rightarrow> rule_store \<Rightarrow> (import_rule \<times> rule_store) result" where
  "update_import_rule s i data st =
    (case get_import_rule i st of
       None \<Rightarrow> Inl (NotFoundError ''errors.import_rule.not_found'')
     | Some r \<Rightarrow>
         ebind (case iru_filename_pattern data of
                  None \<Rightarrow> Inr None
                | Some p \<Rightarrow> ebind (normalise_pattern (case p of None \<Rightarrow> [] | Some x \<Rightarrow> x)) (\<lambda>x. Inr (Some x))) (\<lambda>pattern.
         ebind (case iru_account_id data of Some (Some a) \<Rightarrow> require_account s a | _ \<Rightarrow> Inr ()) (\<lambda>_.
         raise_if (required_null (iru_account_id data) \<or> required_null (iru_column_mapping data) \<or>
                   required_null (iru_is_active data)) (IntegrityError ''import_rules'')
           (let r' = apply_rule_update pattern data r
            in Inr (r', st\<lparr>rs_rules := upd_row imr_id i (\<lambda>_. r') (rs_rules st)\<rparr>)))))"

definition delete_import_rule :: "int \<Rightarrow> rule_store \<Rightarrow> bool \<times> rule_store" where
  "delete_import_rule i st =
    (if get_import_rule i st = None then (False, st) else (True, st\<lparr>rs_rules := del_row imr_id i (rs_rules st)\<rparr>))"

text \<open>The greatest key first, so a rule that was never used sorts as the oldest.\<close>

definition rule_rank :: "import_rule \<Rightarrow> nat \<times> (bool \<times> int) \<times> int" where
  "rule_rank r = (specificity_score (imr_filename_pattern r),
     (case imr_last_used_at r of None \<Rightarrow> (False, 0) | Some t \<Rightarrow> (True, t)), imr_id r)"

definition match_rule :: "string \<Rightarrow> rule_store \<Rightarrow> import_rule option" where
  "match_rule filename st =
    (let matches = filter (\<lambda>r. pattern_matches (imr_filename_pattern r) filename) (list_import_rules True st)
     in if matches = [] then None else Some (last (sort_key rule_rank matches)))"

definition touch_last_used :: "int \<Rightarrow> int \<Rightarrow> rule_store \<Rightarrow> rule_store" where
  "touch_last_used now i st = st\<lparr>rs_rules := upd_row imr_id i (\<lambda>r. r\<lparr>imr_last_used_at := Some now\<rparr>) (rs_rules st)\<rparr>"

definition find_by_pattern :: "string \<Rightarrow> rule_store \<Rightarrow> import_rule option" where
  "find_by_pattern pattern st =
    find (\<lambda>r. casefold (imr_filename_pattern r) = casefold pattern) (list_import_rules False st)"

definition upsert_from_import ::
  "int \<Rightarrow> db \<Rightarrow> string \<Rightarrow> string option \<Rightarrow> int \<Rightarrow> (string \<times> json) list \<Rightarrow> string option \<Rightarrow> rule_store \<Rightarrow>
   (import_rule \<times> rule_store) result" where
  "upsert_from_import now s filename filename_pattern account_id mapping delimiter st =
    ebind (normalise_pattern (case filename_pattern of
             None \<Rightarrow> suggest_filename_pattern filename
           | Some p \<Rightarrow> if p = [] then suggest_filename_pattern filename else p)) (\<lambda>pattern.
    case find_by_pattern pattern st of
      None \<Rightarrow> create_import_rule s \<lparr>irc_filename_pattern = pattern, irc_account_id = account_id,
        irc_column_mapping = mapping, irc_encoding = None, irc_delimiter = delimiter, irc_is_active = True\<rparr> st
    | Some existing \<Rightarrow>
        ebind (update_import_rule s (imr_id existing) \<lparr>iru_filename_pattern = None, iru_account_id = Some (Some account_id),
          iru_column_mapping = Some (Some mapping), iru_encoding = Some None, iru_delimiter = Some delimiter,
          iru_is_active = Some (Some True)\<rparr> st) (\<lambda>(updated, st1).
        let st2 = touch_last_used now (imr_id updated) st1
        in Inr (case get_import_rule (imr_id updated) st2 of None \<Rightarrow> updated | Some r \<Rightarrow> r, st2)))"

section \<open>A suggested pattern matches its own file\<close>

lemma glob_prefix: "CHR ''['' \<notin> set a \<Longrightarrow> glob p s \<Longrightarrow> glob (a @ p) (a @ s)"
  by (induction a) auto

lemma glob_star: "glob p s \<Longrightarrow> glob (CHR ''*'' # p) (x @ s)"
  by (induction x) auto

lemma casefold_bracket: "CHR ''['' \<notin> set s \<Longrightarrow> CHR ''['' \<notin> set (casefold s)"
proof -
  have "c = CHR ''[''" if "lower_char c = CHR ''[''" for c
  proof (rule ccontr)
    assume "c \<noteq> CHR ''[''"
    then have u: "65 \<le> (of_char c :: nat)" "(of_char c :: nat) \<le> 90" using that by (auto simp: lower_char_def Let_def split: if_splits)
    then have "(of_char (lower_char c) :: nat) = of_char c + 32" by (simp add: lower_char_def)
    then show False using that u by simp
  qed
  then show "CHR ''['' \<notin> set s \<Longrightarrow> CHR ''['' \<notin> set (casefold s)" by (force simp: casefold_def)
qed

lemma casefold_append [simp]: "casefold (a @ b) = casefold a @ casefold b"
  by (simp add: casefold_def)

lemma star_digits_matches:
  assumes "CHR ''['' \<notin> set name"
  shows "pattern_matches (star_digits name) name"
proof -
  let ?r = "dropWhile (\<lambda>c. \<not> is_digit c) name" and ?a = "takeWhile (\<lambda>c. \<not> is_digit c) name"
  let ?P = "\<lambda>c. is_digit c \<or> c = CHR ''-''"
  have name: "name = ?a @ takeWhile ?P ?r @ dropWhile ?P ?r" by simp
  have self: "glob (casefold x) (casefold x)" if "CHR ''['' \<notin> set x" for x
    using glob_prefix [OF casefold_bracket [OF that], of "[]" "[]"] by simp
  show ?thesis
  proof (cases "?r = []")
    case True
    then show ?thesis using self [OF assms] by (simp add: pattern_matches_def star_digits_def)
  next
    case False
    have b: "CHR ''['' \<notin> set ?a" "CHR ''['' \<notin> set (dropWhile ?P ?r)"
      using assms by (auto dest: set_takeWhileD set_dropWhileD)
    have "glob (casefold ?a @ CHR ''*'' # casefold (dropWhile ?P ?r))
        (casefold ?a @ casefold (takeWhile ?P ?r) @ casefold (dropWhile ?P ?r))"
      by (intro glob_prefix glob_star self casefold_bracket b)
    moreover have "casefold (star_digits name) = casefold ?a @ CHR ''*'' # casefold (dropWhile ?P ?r)"
      using False unfolding star_digits_def Let_def if_not_P [OF False] by (simp add: casefold_def lower_char_def)
    moreover have "casefold name = casefold ?a @ casefold (takeWhile ?P ?r) @ casefold (dropWhile ?P ?r)"
      by (metis name casefold_append)
    ultimately show ?thesis by (simp add: pattern_matches_def)
  qed
qed

lemma suggested_pattern_matches:
  assumes "CHR ''['' \<notin> set name" and "strip name = name"
  shows "pattern_matches (suggest_filename_pattern name) name"
  using star_digits_matches [OF assms(1)] assms(2)
  by (simp add: suggest_filename_pattern_def pattern_matches_def casefold_def lower_char_def)

text \<open>
  A bracket in a file name is kept in the pattern, where it opens a set of characters: the settings that are
  remembered for such a file are never found again, not even for that file.
\<close>

lemma bracketed_name_is_forgotten:
  "suggest_filename_pattern ''report[1].csv'' = ''report[*].csv''"
  "\<not> pattern_matches (suggest_filename_pattern ''report[1].csv'') ''report[1].csv''"
  by code_simp+

section \<open>The best rule\<close>

lemma sort_key_last_max:
  assumes "xs \<noteq> []" and "x \<in> set xs"
  shows "f x \<le> f (last (sort_key f xs))"
proof -
  have "sorted (map f (sort_key f xs))" "x \<in> set (sort_key f xs)" using assms by simp_all
  moreover obtain ys y where "sort_key f xs = ys @ [y]"
    using assms(1) by (metis length_0_conv length_sort rev_exhaust)
  ultimately show ?thesis by (auto simp: sorted_append)
qed

lemma match_rule_best:
  assumes "r \<in> set (rs_rules st)" and "imr_is_active r" and "pattern_matches (imr_filename_pattern r) filename"
  shows "\<exists>b. match_rule filename st = Some b \<and> b \<in> set (rs_rules st) \<and> imr_is_active b \<and>
    pattern_matches (imr_filename_pattern b) filename \<and> rule_rank r \<le> rule_rank b"
proof -
  let ?m = "filter (\<lambda>r. pattern_matches (imr_filename_pattern r) filename) (list_import_rules True st)"
  have r: "r \<in> set ?m" using assms by (simp add: list_import_rules_def)
  have ne: "?m \<noteq> []" using r by (metis empty_iff empty_set)
  let ?b = "last (sort_key rule_rank ?m)"
  have "?b \<in> set (sort_key rule_rank ?m)" using ne by (metis last_in_set length_0_conv length_sort)
  then have "?b \<in> set ?m" by simp
  then have "?b \<in> set (rs_rules st)" "imr_is_active ?b" "pattern_matches (imr_filename_pattern ?b) filename"
    by (simp_all add: list_import_rules_def)
  moreover have "match_rule filename st = Some ?b" using ne by (simp add: match_rule_def Let_def)
  ultimately show ?thesis using sort_key_last_max [OF ne r] by blast
qed

definition rules_ok :: "rule_store \<Rightarrow> bool" where
  "rules_ok st \<longleftrightarrow> ids_ok imr_id (seq_rule st) (rs_rules st)"

lemma create_rule_facts:
  assumes "create_import_rule s data st = Inr (r, st')"
  shows "rs_rules st' = rs_rules st @ [r]" "imr_account_id r = irc_account_id data"
    "imr_column_mapping r = irc_column_mapping data" "imr_is_active r = irc_is_active data"
    "normalise_pattern (irc_filename_pattern data) = Inr (imr_filename_pattern r)" "imr_id r = seq_rule st"
    "seq_rule st' = seq_rule st + 1"
  using assms by (auto simp: create_import_rule_def Let_def ebind_Inr_iff)

lemma rules_ok_kept:
  assumes "rules_ok st"
  shows "create_import_rule s data st = Inr (r, st') \<Longrightarrow> rules_ok st'"
    and "update_import_rule s i upd st = Inr (r, st') \<Longrightarrow> rules_ok st'"
    and "rules_ok (snd (delete_import_rule i st))" and "rules_ok (touch_last_used now i st)"
proof -
  show "rules_ok st'" if "create_import_rule s data st = Inr (r, st')"
    using create_rule_facts(1,6,7) [OF that] assms ids_ok_insert [of imr_id "seq_rule st" "rs_rules st" r]
    by (simp add: rules_ok_def)
  show "rules_ok (snd (delete_import_rule i st))"
    using assms by (auto simp: delete_import_rule_def rules_ok_def ids_ok_def del_row_def distinct_map_filter)
  show "rules_ok (touch_last_used now i st)"
    using assms by (simp add: touch_last_used_def rules_ok_def ids_ok_upd_row)
  have id: "imr_id (apply_rule_update p u x) = imr_id x" for p u x
    by (simp add: apply_rule_update_def patch_def set_required_def split: option.splits)
  show "rules_ok st'" if u: "update_import_rule s i upd st = Inr (r, st')"
  proof -
    obtain x p where x: "find_row imr_id i (rs_rules st) = Some x"
      and st': "st' = st\<lparr>rs_rules := upd_row imr_id i (\<lambda>_. apply_rule_update p upd x) (rs_rules st)\<rparr>"
      using u by (auto simp: update_import_rule_def get_import_rule_def ebind_Inr_iff raise_if_Inr_iff Let_def
          split: option.splits)
    have i: "imr_id (apply_rule_update p upd x) = i" using find_row_Some_D [OF x] by (simp add: id)
    have "map imr_id (rs_rules st') = map imr_id (rs_rules st)"
      using upd_row_const_key [of imr_id "apply_rule_update p upd x" "rs_rules st"] by (simp add: st' i)
    from ids_ok_cong [OF this] show ?thesis using assms by (simp add: rules_ok_def st')
  qed
qed

lemma star_digits_ends:
  assumes "strip f = f" and "f \<noteq> []"
  shows "strip (star_digits f) = star_digits f" "star_digits f \<noteq> []"
proof -
  let ?r = "dropWhile (\<lambda>c. \<not> is_digit c) f" and ?a = "takeWhile (\<lambda>c. \<not> is_digit c) f"
  let ?b = "dropWhile (\<lambda>c. is_digit c \<or> c = CHR ''-'') ?r"
  note e = strip_fixed [OF assms]
  have "strip (?a @ CHR ''*'' # ?b) = ?a @ CHR ''*'' # ?b" if "?r \<noteq> []"
  proof (rule strip_ends)
    have st: "\<not> is_space (CHR ''*'')" by code_simp
    have "?a \<noteq> [] \<Longrightarrow> hd ?a = hd f" by (cases f) auto
    then show "\<not> is_space (hd (?a @ CHR ''*'' # ?b))" using e(1) st by (cases "?a = []") simp_all
    have "f = (?a @ takeWhile (\<lambda>c. is_digit c \<or> c = CHR ''-'') ?r) @ ?b" by simp
    then have "?b \<noteq> [] \<Longrightarrow> last ?b = last f" by (metis last_append)
    then show "\<not> is_space (last (?a @ CHR ''*'' # ?b))" using e(2) st by (cases "?b = []") simp_all
  qed simp
  then show "strip (star_digits f) = star_digits f" "star_digits f \<noteq> []"
    unfolding star_digits_def Let_def using assms by simp_all
qed

text \<open>What is stored when the settings of an import are remembered.\<close>

lemma upsert_effect:
  assumes "upsert_from_import now s filename None account mapping delimiter st = Inr (r, st')" and "rules_ok st"
  shows "r \<in> set (rs_rules st') \<and> imr_is_active r \<and> imr_account_id r = account \<and> imr_column_mapping r = mapping \<and>
    casefold (imr_filename_pattern r) = casefold (strip (suggest_filename_pattern filename)) \<and> rules_ok st'"
proof -
  obtain pattern where p: "normalise_pattern (suggest_filename_pattern filename) = Inr pattern"
    using assms(1) by (auto simp: upsert_from_import_def ebind_Inr_iff)
  then have pat: "pattern = strip (suggest_filename_pattern filename)"
    by (auto simp: normalise_pattern_def Let_def raise_if_Inr_iff)
  show ?thesis
  proof (cases "find_by_pattern pattern st")
    case None
    then have c: "create_import_rule s \<lparr>irc_filename_pattern = pattern, irc_account_id = account,
        irc_column_mapping = mapping, irc_encoding = None, irc_delimiter = delimiter, irc_is_active = True\<rparr> st = Inr (r, st')"
      using assms(1) p by (simp add: upsert_from_import_def)
    have "imr_filename_pattern r = strip pattern"
      using create_rule_facts(5) [OF c] by (auto simp: normalise_pattern_def Let_def raise_if_Inr_iff)
    then show ?thesis
      using create_rule_facts [OF c] rules_ok_kept(1) [OF assms(2) c] by (simp add: pat strip_strip)
  next
    case (Some x)
    define u where "u = \<lparr>iru_filename_pattern = None, iru_account_id = Some (Some account),
      iru_column_mapping = Some (Some mapping), iru_encoding = Some None, iru_delimiter = Some delimiter,
      iru_is_active = Some (Some True)\<rparr>"
    have "x \<in> set (list_import_rules False st)" "casefold (imr_filename_pattern x) = casefold pattern"
      using Some by (auto simp: find_by_pattern_def find_Some_iff)
    then have x: "x \<in> set (rs_rules st)" "casefold (imr_filename_pattern x) = casefold pattern"
      by (simp_all add: list_import_rules_def)
    then have fx: "find_row imr_id (imr_id x) (rs_rules st) = Some x"
      using assms(2) by (auto simp: rules_ok_def ids_ok_def intro: find_row_member)
    obtain y st1 where up: "update_import_rule s (imr_id x) u st = Inr (y, st1)"
      and r: "r = (case get_import_rule (imr_id y) (touch_last_used now (imr_id y) st1) of None \<Rightarrow> y | Some z \<Rightarrow> z)"
        "st' = touch_last_used now (imr_id y) st1"
      using assms(1) p Some by (auto simp: upsert_from_import_def u_def ebind_Inr_iff Let_def)
    have y: "y = apply_rule_update None u x" "st1 = st\<lparr>rs_rules := upd_row imr_id (imr_id x) (\<lambda>_. y) (rs_rules st)\<rparr>"
      using up fx by (auto simp: update_import_rule_def get_import_rule_def u_def ebind_Inr_iff raise_if_Inr_iff Let_def)
    have yf: "imr_id y = imr_id x" "imr_account_id y = account" "imr_column_mapping y = mapping" "imr_is_active y"
      "imr_filename_pattern y = imr_filename_pattern x"
      by (simp_all add: y(1) apply_rule_update_def u_def set_required_def)
    have "find_row imr_id (imr_id x) (rs_rules st') = Some (y\<lparr>imr_last_used_at := Some now\<rparr>)"
      using fx yf(1) find_row_upd_const_key [of imr_id "imr_id x" y "rs_rules st"]
      by (simp add: r(2) y(2) touch_last_used_def find_row_upd_row)
    then have ry: "r = y\<lparr>imr_last_used_at := Some now\<rparr>" "r \<in> set (rs_rules st')"
      using yf(1) find_row_Some_D by (fastforce simp: r get_import_rule_def)+
    have "rules_ok st'" unfolding r(2) by (rule rules_ok_kept(4) [OF rules_ok_kept(2) [OF assms(2) up]])
    then show ?thesis using ry yf x(2) by (simp add: pat)
  qed
qed



end
