(* ===== verification/ImportQueue.thy ===== *)
theory ImportQueue
  imports ImportRules LedgerExport
begin

text \<open>
  The import queue (\<open>src/src/kaleta/services/import_service.py\<close>, \<open>views/import_view/state.py\<close> and
  \<open>page.py\<close>): parsing one uploaded file under a profile with its fallbacks, the settings a file inherits from
  the ones before it, the check that guards the import, and the step a file stands on.
\<close>

section \<open>Definitions\<close>

subsection \<open>Parse errors by line\<close>

definition row_error_prefix :: "nat \<Rightarrow> string" where
  "row_error_prefix line_no = ''Row '' @ str_nat line_no @ '':''"

definition row_error_line :: "string \<Rightarrow> nat option" where
  "row_error_line message =
    (let (ds, r) = digit_run (drop 4 message)
     in if starts_with message ''Row '' \<and> ds \<noteq> [] \<and> starts_with r '':'' then Some (digits_value ds) else None)"

subsection \<open>Parsing one file\<close>

record parse_outcome =
  po_profile :: string
  po_rows :: "parsed_row list"
  po_errors :: "issue list"
  po_error_rows :: "nat list"
  po_metadata :: "bank_metadata option"
  po_ok :: bool
  po_needs_mapping :: bool
  po_error_key :: "string option"
  po_skipped :: "nat option"
  po_inspection :: "csv_inspection option"
  po_mapping :: "column_mapping option"

definition outcome :: "string \<Rightarrow> parse_outcome" where
  "outcome profile = \<lparr>po_profile = profile, po_rows = [], po_errors = [], po_error_rows = [], po_metadata = None,
     po_ok = False, po_needs_mapping = False, po_error_key = None, po_skipped = None, po_inspection = None,
     po_mapping = None\<rparr>"

definition parse_generic_with_mapping :: "string \<Rightarrow> column_mapping option \<Rightarrow> string \<Rightarrow> parse_outcome result" where
  "parse_generic_with_mapping content mapping profile =
    ebind (inspect_csv content None 10) (\<lambda>insp.
    let effective = (case mapping of Some m \<Rightarrow> m | None \<Rightarrow> ci_detected insp);
        base = (outcome profile)\<lparr>po_inspection := Some insp, po_mapping := Some effective\<rparr>
    in if validation_errors effective \<noteq> []
       then Inr (base\<lparr>po_errors := validation_errors effective, po_needs_mapping := True\<rparr>)
       else ebind (parse_csv content (Some (ci_delimiter insp)) (Some effective)) (\<lambda>res.
         let seen = base\<lparr>po_rows := ir_rows res, po_errors := ir_errors res, po_error_rows := ir_error_rows res\<rparr>
         in if ir_rows res = []
            then Inr (seen\<lparr>po_needs_mapping := True,
                 po_error_key := (if ir_errors res = [] then Some ''import.no_rows'' else None),
                 po_skipped := (if ir_errors res = [] then Some (ir_skipped res) else None)\<rparr>)
            else Inr (seen\<lparr>po_ok := True\<rparr>)))"

text \<open>The outcome of a bank format: its rows with the banner, or the error of the format.\<close>

definition bank_outcome :: "string \<Rightarrow> import_result \<Rightarrow> bank_metadata \<Rightarrow> parse_outcome" where
  "bank_outcome profile res md = (outcome profile)\<lparr>po_rows := ir_rows res, po_errors := ir_errors res,
     po_error_rows := ir_error_rows res, po_metadata := Some md, po_ok := True\<rparr>"

definition no_rows_outcome :: "import_result \<Rightarrow> string \<Rightarrow> parse_outcome" where
  "no_rows_outcome res key = (outcome ''wise'')\<lparr>po_errors := ir_errors res, po_error_rows := ir_error_rows res,
     po_error_key := Some key, po_skipped := Some (ir_skipped res)\<rparr>"

definition parse_wise_mt940 :: "string \<Rightarrow> parse_outcome result" where
  "parse_wise_mt940 content =
    ebind (parse_mt940 content) (\<lambda>res.
    if ir_rows res = [] then Inr (no_rows_outcome res ''import.mt940_no_rows'')
    else ebind (mt940_metadata content) (\<lambda>md. Inr (bank_outcome ''wise'' res md)))"

definition parse_wise_qif :: "string \<Rightarrow> string \<Rightarrow> parse_outcome result" where
  "parse_wise_qif content filename =
    ebind (parse_qif content) (\<lambda>res.
    if ir_rows res = [] then Inr (no_rows_outcome res ''import.qif_no_rows'')
    else Inr (bank_outcome ''wise'' res (qif_metadata content filename)))"

text \<open>
  The workbook of an upload: \<open>None\<close> when its bytes are not a Wise workbook, otherwise what the optional
  package reads from its first sheet, when the package is there.
\<close>

definition parse_wise_xlsx :: "bool \<Rightarrow> sheet_cell list list result \<Rightarrow> parse_outcome result" where
  "parse_wise_xlsx available sheet =
    (if \<not> available then Inr ((outcome ''wise'')\<lparr>po_error_key := Some ''import.xlsx_extra_missing''\<rparr>)
     else ebind sheet (\<lambda>rows.
       let records = read_records rows
       in ebind (parse_xlsx records) (\<lambda>res.
          if ir_rows res = [] then Inr (no_rows_outcome res ''import.xlsx_no_rows'')
          else Inr (bank_outcome ''wise'' res (xlsx_metadata records)))))"

definition parse_mbank :: "string \<Rightarrow> column_mapping option \<Rightarrow> parse_outcome result" where
  "parse_mbank content mapping =
    (let fallback = parse_generic_with_mapping content mapping ''generic''
     in if \<not> is_mbank_content content then fallback
        else case extract_data_section content of
          None \<Rightarrow> fallback
        | Some section \<Rightarrow>
            ebind (parse_csv section (Some (CHR '';'')) None) (\<lambda>res.
            if ir_rows res = [] then fallback else Inr (bank_outcome ''mbank'' res (mbank_metadata content))))"

definition parse_wise :: "string \<Rightarrow> column_mapping option \<Rightarrow> string \<Rightarrow> parse_outcome result" where
  "parse_wise content mapping filename =
    (let fallback = parse_generic_with_mapping content mapping ''generic''
     in if is_wise_mt940_content content then parse_wise_mt940 content
        else if is_wise_qif_content content then parse_wise_qif content filename
        else if \<not> is_wise_file content then fallback
        else ebind (wise_metadata content) (\<lambda>md.
             ebind (parse_csv content (Some (CHR '','')) None) (\<lambda>res.
             if ir_rows res = [] then fallback
             else Inr (bank_outcome ''wise'' (res\<lparr>ir_rows := apply_wise_descriptions (ir_rows res)\<rparr>) md))))"

definition parse_queued_file ::
  "bool \<Rightarrow> string \<Rightarrow> string \<Rightarrow> column_mapping option \<Rightarrow> string \<Rightarrow> sheet_cell list list result option \<Rightarrow>
   parse_outcome result" where
  "parse_queued_file xlsx_available content profile mapping filename workbook =
    (case workbook of
       Some sheet \<Rightarrow> parse_wise_xlsx xlsx_available sheet
     | None \<Rightarrow>
         let resolved = (if profile = ''generic''
                         then (case detect_bank_profile content of None \<Rightarrow> profile | Some p \<Rightarrow> p) else profile)
         in if resolved = ''mbank'' then parse_mbank content mapping
            else if resolved = ''wise'' then parse_wise content mapping filename
            else parse_generic_with_mapping content mapping resolved)"

subsection \<open>Settings of a queued file\<close>

record settings_snapshot =
  ss_file_id :: string
  ss_profile :: string
  ss_metadata :: "bank_metadata option"
  ss_target_account :: "int option"
  ss_expense_cat :: "int option"
  ss_income_cat :: "int option"
  ss_skip_duplicates :: bool
  ss_mapping :: "column_mapping option"

definition copy_account_settings :: "settings_snapshot \<Rightarrow> settings_snapshot \<Rightarrow> settings_snapshot" where
  "copy_account_settings prior cur = cur\<lparr>ss_target_account := ss_target_account prior,
     ss_expense_cat := ss_expense_cat prior, ss_income_cat := ss_income_cat prior,
     ss_skip_duplicates := ss_skip_duplicates prior\<rparr>"

text \<open>A statement of the same account: the number for mBank, the currency for Wise; \<open>[]\<close> is unknown.\<close>

definition statement_key :: "(bank_metadata \<Rightarrow> string) \<Rightarrow> string \<Rightarrow> settings_snapshot \<Rightarrow> string" where
  "statement_key field profile s =
    (if ss_profile s = profile then (case ss_metadata s of None \<Rightarrow> [] | Some md \<Rightarrow> field md) else [])"

definition same_statement :: "(bank_metadata \<Rightarrow> string) \<Rightarrow> string \<Rightarrow> settings_snapshot \<Rightarrow> settings_snapshot \<Rightarrow> bool" where
  "same_statement field profile cur prior \<longleftrightarrow> ss_file_id prior \<noteq> ss_file_id cur \<and>
    statement_key field profile cur \<noteq> [] \<and> statement_key field profile prior = statement_key field profile cur \<and>
    ss_target_account prior \<noteq> None"

definition true_id :: "int option \<Rightarrow> bool" where
  "true_id v \<longleftrightarrow> v \<noteq> None \<and> v \<noteq> Some 0"

definition same_profile :: "settings_snapshot \<Rightarrow> settings_snapshot \<Rightarrow> bool" where
  "same_profile cur prior \<longleftrightarrow> ss_file_id prior \<noteq> ss_file_id cur \<and> ss_profile prior = ss_profile cur \<and>
    (true_id (ss_expense_cat prior) \<or> true_id (ss_income_cat prior) \<or> ss_mapping prior \<noteq> None)"

definition or_else :: "'a option \<Rightarrow> 'a option \<Rightarrow> 'a option" where
  "or_else a b = (case a of None \<Rightarrow> b | Some x \<Rightarrow> Some x)"

definition inherit_queue_settings :: "settings_snapshot \<Rightarrow> settings_snapshot list \<Rightarrow> settings_snapshot \<times> bool" where
  "inherit_queue_settings cur queue =
    (case find (same_statement bm_account_digits ''mbank'' cur) (rev queue) of
       Some prior \<Rightarrow> (copy_account_settings prior cur, True)
     | None \<Rightarrow>
    (case find (same_statement bm_currency ''wise'' cur) (rev queue) of
       Some prior \<Rightarrow> (copy_account_settings prior cur, True)
     | None \<Rightarrow>
    (case find (same_profile cur) (rev queue) of
       Some prior \<Rightarrow> (cur\<lparr>ss_expense_cat := or_else (ss_expense_cat cur) (ss_expense_cat prior),
          ss_income_cat := or_else (ss_income_cat cur) (ss_income_cat prior),
          ss_skip_duplicates := ss_skip_duplicates prior,
          ss_mapping := or_else (ss_mapping cur) (ss_mapping prior)\<rparr>, True)
     | None \<Rightarrow> (cur, False))))"

subsection \<open>Readiness\<close>

record readiness_check =
  rc_target_account :: "int option"
  rc_expense_cat :: "int option"
  rc_income_cat :: "int option"
  rc_profile :: string
  rc_metadata :: "bank_metadata option"
  rc_account_currency :: "string option"

definition text_or_empty :: "string option \<Rightarrow> string" where
  "text_or_empty v = (case v of None \<Rightarrow> [] | Some x \<Rightarrow> x)"

definition file_currency :: "readiness_check \<Rightarrow> string" where
  "file_currency c =
    (if rc_profile c = ''mbank'' \<or> rc_profile c = ''wise''
     then (case rc_metadata c of None \<Rightarrow> [] | Some md \<Rightarrow> bm_currency md) else [])"

definition validate_import_readiness :: "readiness_check \<Rightarrow> string option" where
  "validate_import_readiness c =
    (if rc_target_account c = None then Some ''import.select_account_hint''
     else if rc_expense_cat c = None then Some ''import.select_expense_cat_hint''
     else if rc_income_cat c = None then Some ''import.select_income_cat_hint''
     else if file_currency c \<noteq> [] \<and> upper (text_or_empty (rc_account_currency c)) \<noteq> [] \<and>
             upper (file_currency c) \<noteq> upper (text_or_empty (rc_account_currency c))
     then Some ''import.currency_mismatch_block'' else None)"

definition currency_mismatch_warning :: "string \<Rightarrow> string \<Rightarrow> bool" where
  "currency_mismatch_warning file account \<longleftrightarrow> file \<noteq> [] \<and> account \<noteq> [] \<and> upper file \<noteq> upper account"

subsection \<open>The queue\<close>

text \<open>A status message is a key of the translations or the text of an exception.\<close>

datatype message = Message string | Raised error

record queued_file =
  qf_id :: string
  qf_filename :: string
  qf_content :: string
  qf_workbook :: "sheet_cell list list result option"
  qf_profile :: string
  qf_parsed_rows :: "parsed_row list"
  qf_parse_errors :: "issue list"
  qf_error_rows :: "nat list"
  qf_metadata :: "bank_metadata option"
  qf_mapping :: "column_mapping option"
  qf_auto_mapping :: "column_mapping option"
  qf_inspection :: "csv_inspection option"
  qf_target_account :: "int option"
  qf_expense_cat :: "int option"
  qf_income_cat :: "int option"
  qf_skip_duplicates :: bool
  qf_status :: string
  qf_status_msg :: message
  qf_imported_count :: nat
  qf_skipped_rows :: "transaction_create list"
  qf_matched_rule :: "int option"
  qf_filename_pattern :: string
  qf_remember_mapping :: bool

definition file_settings :: "queued_file \<Rightarrow> settings_snapshot" where
  "file_settings f = \<lparr>ss_file_id = qf_id f, ss_profile = qf_profile f, ss_metadata = qf_metadata f,
     ss_target_account = qf_target_account f, ss_expense_cat = qf_expense_cat f, ss_income_cat = qf_income_cat f,
     ss_skip_duplicates = qf_skip_duplicates f, ss_mapping = qf_mapping f\<rparr>"

definition apply_settings_snapshot :: "settings_snapshot \<Rightarrow> queued_file \<Rightarrow> queued_file" where
  "apply_settings_snapshot s f =
    (let g = f\<lparr>qf_target_account := ss_target_account s, qf_expense_cat := ss_expense_cat s,
           qf_income_cat := ss_income_cat s, qf_skip_duplicates := ss_skip_duplicates s\<rparr>
     in case ss_mapping s of None \<Rightarrow> g | Some m \<Rightarrow> g\<lparr>qf_mapping := Some m, qf_auto_mapping := Some m\<rparr>)"

text \<open>The inheritance step of \<open>handle_upload\<close>; what a remembered rule has filled in stays.\<close>

definition inherit_on_upload :: "settings_snapshot list \<Rightarrow> queued_file \<Rightarrow> queued_file" where
  "inherit_on_upload priors f =
    (let (s, inherited) = inherit_queue_settings (file_settings f) priors;
         s' = s\<lparr>ss_target_account := or_else (qf_target_account f) (ss_target_account s),
                ss_mapping := or_else (qf_mapping f) (ss_mapping s)\<rparr>
     in if inherited then apply_settings_snapshot s' f else f)"

definition parse_file :: "bool \<Rightarrow> queued_file \<Rightarrow> queued_file result" where
  "parse_file xlsx_available f =
    ebind (parse_queued_file xlsx_available (qf_content f) (qf_profile f) (qf_mapping f) (qf_filename f) (qf_workbook f))
     (\<lambda>res.
      let key = text_or_empty (po_error_key res);
          g = f\<lparr>qf_profile := po_profile res, qf_inspection := po_inspection res, qf_metadata := None,
            qf_parsed_rows := [],
            qf_mapping := or_else (po_mapping res) (qf_mapping f),
            qf_auto_mapping := (if po_mapping res \<noteq> None \<and> qf_mapping f = None then po_mapping res else qf_auto_mapping f),
            qf_parse_errors := po_errors res, qf_error_rows := po_error_rows res\<rparr>
      in Inr (if po_ok res
              then g\<lparr>qf_parsed_rows := po_rows res, qf_metadata := po_metadata res, qf_status := ''ready'',
                     qf_status_msg := Message ''import.rows_loaded''\<rparr>
              else if po_needs_mapping res
              then g\<lparr>qf_parsed_rows := po_rows res, qf_metadata := po_metadata res, qf_status := ''needs_mapping'',
                     qf_status_msg := Message (if key = [] then ''import.mapping_required'' else key)\<rparr>
              else g\<lparr>qf_status := ''failed'', qf_status_msg := Message key\<rparr>))"

definition readiness_of :: "queued_file \<Rightarrow> string option \<Rightarrow> readiness_check" where
  "readiness_of f currency = \<lparr>rc_target_account = qf_target_account f, rc_expense_cat = qf_expense_cat f,
     rc_income_cat = qf_income_cat f, rc_profile = qf_profile f, rc_metadata = qf_metadata f,
     rc_account_currency = currency\<rparr>"

definition settings_block_reason :: "queued_file \<Rightarrow> string option \<Rightarrow> string option" where
  "settings_block_reason f currency = validate_import_readiness (readiness_of f currency)"

definition settings_are_complete :: "queued_file \<Rightarrow> string option \<Rightarrow> bool" where
  "settings_are_complete f currency \<longleftrightarrow> settings_block_reason f currency = None"

definition queue_is_terminal :: "queued_file list \<Rightarrow> bool" where
  "queue_is_terminal queue \<longleftrightarrow> queue \<noteq> [] \<and> list_all (\<lambda>f. qf_status f \<in> {''done'', ''failed''}) queue"

definition import_button_label :: "int \<Rightarrow> string" where
  "import_button_label n = (if n \<le> 0 then ''import.import_btn_zero'' else if n = 1 then ''import.import_btn_one''
     else ''import.import_btn_many'')"

subsection \<open>Running the import\<close>

definition job_of :: "queued_file \<Rightarrow> int \<Rightarrow> int \<Rightarrow> int \<Rightarrow> import_job" where
  "job_of f target expense income = \<lparr>job_filename = qf_filename f, job_profile = qf_profile f,
     job_rows = qf_parsed_rows f, job_number_digits = map_option bm_account_digits (qf_metadata f),
     job_account_id = target, job_expense_cat = expense, job_income_cat = income,
     job_skip_duplicates = qf_skip_duplicates f\<rparr>"

text \<open>\<open>_save_remembered_rule\<close> and the touch that follows; a failure is only shown to the user.\<close>

definition remember :: "env \<Rightarrow> db \<Rightarrow> queued_file \<Rightarrow> rule_store \<Rightarrow> queued_file \<times> rule_store" where
  "remember e s f rs =
    (let touch = (\<lambda>g st. case qf_matched_rule g of None \<Rightarrow> (g, st) | Some i \<Rightarrow> (g, touch_last_used (env_now e) i st))
     in case qf_target_account f of
          None \<Rightarrow> touch f rs
        | Some target \<Rightarrow>
            if \<not> qf_remember_mapping f then touch f rs
            else case upsert_from_import (env_now e) s (qf_filename f)
                (if qf_filename_pattern f = [] then None else Some (qf_filename_pattern f)) target
                (case qf_mapping f of None \<Rightarrow> [] | Some m \<Rightarrow> to_dict m)
                (map_option (\<lambda>i. [ci_delimiter i]) (qf_inspection f)) rs of
              Inl err \<Rightarrow> (f, rs)
            | Inr (rule, rs1) \<Rightarrow> touch (f\<lparr>qf_matched_rule := Some (imr_id rule)\<rparr>) rs1)"

definition import_one ::
  "env \<Rightarrow> string set \<Rightarrow> account list \<Rightarrow> queued_file \<Rightarrow> import_state \<times> rule_store \<Rightarrow>
   queued_file \<times> import_state \<times> rule_store" where
  "import_one e known accs f world =
    (let (st, rs) = world;
         currency = (case qf_target_account f of None \<Rightarrow> None
                     | Some a \<Rightarrow> map_option acc_currency (find_row acc_id a accs))
     in case validate_import_readiness (readiness_of f currency) of
          Some key \<Rightarrow> (f\<lparr>qf_status := ''failed'', qf_status_msg := Message key\<rparr>, st, rs)
        | None \<Rightarrow>
            (case persist_import e known
                (job_of f (the (qf_target_account f)) (the (qf_expense_cat f)) (the (qf_income_cat f))) st of
               Inl err \<Rightarrow> (f\<lparr>qf_status := ''failed'', qf_status_msg := Raised err\<rparr>, st, rs)
             | Inr ((n, skipped), st1) \<Rightarrow>
                 let (g, rs1) = remember e (is_db st1) (f\<lparr>qf_imported_count := n, qf_skipped_rows := skipped,
                       qf_status := ''done'', qf_status_msg := Message ''import.done''\<rparr>) rs
                 in (g, st1, rs1)))"

fun import_all ::
  "env \<Rightarrow> string set \<Rightarrow> account list \<Rightarrow> queued_file list \<Rightarrow> import_state \<times> rule_store \<Rightarrow>
   queued_file list \<times> import_state \<times> rule_store" where
  "import_all e known accs [] world = ([], world)"
| "import_all e known accs (f # fs) world =
    (let (g, w1) = (if qf_status f = ''ready'' then import_one e known accs f world else (f, world));
         (gs, w2) = import_all e known accs fs w1
     in (g # gs, w2))"

subsection \<open>The steps of the wizard\<close>

definition ALL_STEPS :: "nat list" where
  "ALL_STEPS = [1, 2, 3, 4, 5, 6]"

definition current_step :: "queued_file option \<Rightarrow> string option \<Rightarrow> nat" where
  "current_step active currency =
    (case active of
       None \<Rightarrow> 2
     | Some f \<Rightarrow>
         if qf_status f = ''done'' then 6
         else if qf_status f = ''importing'' then 5
         else if qf_status f = ''needs_mapping'' then 3
         else if qf_status f = ''failed'' then 2
         else if qf_status f = ''ready'' then (if settings_are_complete f currency then 5 else 4)
         else 2)"

definition steps_for :: "queued_file option \<Rightarrow> nat list" where
  "steps_for active =
    (case active of
       None \<Rightarrow> ALL_STEPS
     | Some f \<Rightarrow> if qf_profile f = ''generic'' then ALL_STEPS else filter (\<lambda>s. s \<noteq> 3) ALL_STEPS)"

definition next_step :: "nat \<Rightarrow> nat list \<Rightarrow> nat" where
  "next_step viewed steps = (case filter (\<lambda>s. viewed < s) steps of [] \<Rightarrow> viewed | s # _ \<Rightarrow> s)"

definition prev_step :: "nat \<Rightarrow> nat list \<Rightarrow> nat" where
  "prev_step viewed steps =
    (let earlier = filter (\<lambda>s. s < viewed) steps in if earlier = [] then viewed else last earlier)"

definition clamp_viewed :: "nat \<Rightarrow> nat \<Rightarrow> nat list \<Rightarrow> nat" where
  "clamp_viewed viewed reachable steps =
    (let allowed = filter (\<lambda>s. s \<le> reachable) steps;
         later = filter (\<lambda>s. viewed < s) allowed; earlier = filter (\<lambda>s. s < viewed) allowed
     in if allowed = [] then hd steps
        else if viewed \<in> set allowed then viewed
        else if later \<noteq> [] then hd later
        else if earlier \<noteq> [] then last earlier else hd allowed)"

definition can_continue :: "nat \<Rightarrow> nat \<Rightarrow> nat list \<Rightarrow> bool" where
  "can_continue viewed reachable steps \<longleftrightarrow> viewed < reachable \<and> next_step viewed steps \<noteq> viewed"

definition continue_blocked_reason :: "queued_file option \<Rightarrow> nat \<Rightarrow> nat \<Rightarrow> message option \<Rightarrow> message option" where
  "continue_blocked_reason active viewed reachable settings_reason =
    (if viewed < reachable then None
     else if last ALL_STEPS \<le> viewed then None
     else case active of
       None \<Rightarrow> Some (Message ''import.blocked_no_file'')
     | Some f \<Rightarrow>
         if viewed = 4 \<and> settings_reason \<noteq> None then settings_reason
         else if qf_status_msg f \<noteq> Message [] then Some (qf_status_msg f)
         else Some (Message ''import.blocked_step''))"

section \<open>Parse errors name their line\<close>

lemma error_line_round_trip: "row_error_line (row_error_prefix n @ rest) = Some n"
proof -
  obtain d ds where d: "str_nat n = d # ds" "\<forall>c \<in> set (str_nat n). is_digit c"
    using digitsD [OF str_nat_digits] by (metis list.exhaust)
  have "digit_run (str_nat n @ CHR '':'' # rest) = (str_nat n, CHR '':'' # rest)"
    using d(2) by (auto simp: digit_run_def takeWhile_append dropWhile_append is_digit_def)
  then show ?thesis
    using digits_value_str_nat [of n] by (simp add: row_error_line_def row_error_prefix_def starts_with_def d(1))
qed

section \<open>What a parse can end in\<close>

definition outcome_ok :: "parse_outcome \<Rightarrow> bool" where
  "outcome_ok r \<longleftrightarrow>
    (po_ok r \<longleftrightarrow> po_rows r \<noteq> []) \<and>
    (\<not> po_ok r \<longrightarrow> po_needs_mapping r \<or> po_error_key r \<noteq> None) \<and>
    \<not> (po_ok r \<and> po_needs_mapping r) \<and>
    (po_needs_mapping r \<longrightarrow> po_inspection r \<noteq> None \<and> po_mapping r \<noteq> None) \<and>
    (po_metadata r \<noteq> None \<longrightarrow> po_profile r = ''mbank'' \<or> po_profile r = ''wise'')"

lemma generic_outcome:
  "parse_generic_with_mapping content mapping profile = Inr r \<Longrightarrow>
    outcome_ok r \<and> po_profile r = profile \<and> po_metadata r = None"
  by (auto simp: parse_generic_with_mapping_def outcome_def outcome_ok_def ebind_Inr_iff Let_def split: if_splits)

lemma bank_outcomes:
  "ir_rows res \<noteq> [] \<Longrightarrow> outcome_ok (bank_outcome ''wise'' res md)"
  "ir_rows res \<noteq> [] \<Longrightarrow> outcome_ok (bank_outcome ''mbank'' res md)"
  "outcome_ok (no_rows_outcome res key)"
  "po_profile (bank_outcome p res md) = p" "\<not> po_needs_mapping (bank_outcome p res md)"
  "po_profile (no_rows_outcome res key) = ''wise''" "\<not> po_needs_mapping (no_rows_outcome res key)"
  by (simp_all add: bank_outcome_def no_rows_outcome_def outcome_def outcome_ok_def)

lemma mbank_outcomes:
  assumes "parse_mbank content mapping = Inr r"
  shows "outcome_ok r \<and> (po_needs_mapping r \<longrightarrow> po_profile r = ''generic'')"
  using assms generic_outcome bank_outcomes
  by (auto simp: parse_mbank_def Let_def ebind_Inr_iff split: if_splits option.splits)

lemma format_outcomes:
  "parse_wise_mt940 content = Inr r \<Longrightarrow> outcome_ok r \<and> \<not> po_needs_mapping r"
  "parse_wise_qif content filename = Inr r \<Longrightarrow> outcome_ok r \<and> \<not> po_needs_mapping r"
proof -
  show "outcome_ok r \<and> \<not> po_needs_mapping r" if m: "parse_wise_mt940 content = Inr r"
  proof -
    obtain res where res: "parse_mt940 content = Inr res" using m by (cases "parse_mt940 content") (auto simp: parse_wise_mt940_def)
    show ?thesis using m res bank_outcomes
      by (cases "ir_rows res = []") (auto simp: parse_wise_mt940_def ebind_Inr_iff)
  qed
  show "outcome_ok r \<and> \<not> po_needs_mapping r" if q: "parse_wise_qif content filename = Inr r"
  proof -
    obtain res where res: "parse_qif content = Inr res" using q by (cases "parse_qif content") (auto simp: parse_wise_qif_def)
    show ?thesis using q res bank_outcomes
      by (cases "ir_rows res = []") (auto simp: parse_wise_qif_def)
  qed
qed

lemma wise_outcomes:
  assumes "parse_wise content mapping filename = Inr r"
  shows "outcome_ok r \<and> (po_needs_mapping r \<longrightarrow> po_profile r = ''generic'')"
proof -
  consider "parse_wise_mt940 content = Inr r" | "parse_wise_qif content filename = Inr r"
    | "parse_generic_with_mapping content mapping ''generic'' = Inr r"
    | md res where "ir_rows res \<noteq> []"
        "r = bank_outcome ''wise'' (res\<lparr>ir_rows := apply_wise_descriptions (ir_rows res)\<rparr>) md"
    using assms by (auto simp: parse_wise_def Let_def ebind_Inr_iff split: if_splits)
  then show ?thesis
  proof cases
    case 1
    then show ?thesis using format_outcomes(1) by blast
  next
    case 2
    then show ?thesis using format_outcomes(2) by blast
  next
    case 3
    then show ?thesis using generic_outcome by blast
  next
    case (4 md res)
    then show ?thesis
      using bank_outcomes(1) [of "res\<lparr>ir_rows := apply_wise_descriptions (ir_rows res)\<rparr>" md]
      by (simp add: bank_outcomes apply_wise_descriptions_def)
  qed
qed

lemma xlsx_outcomes:
  assumes "parse_wise_xlsx available sheet = Inr r"
  shows "outcome_ok r \<and> (po_needs_mapping r \<longrightarrow> po_profile r = ''generic'')"
proof (cases available)
  case False
  then show ?thesis using assms by (auto simp: parse_wise_xlsx_def outcome_ok_def outcome_def)
next
  case True
  then obtain rows res where res: "sheet = Inr rows" "parse_xlsx (read_records rows) = Inr res"
    using assms by (cases sheet; cases "parse_xlsx (read_records (projr sheet))") (auto simp: parse_wise_xlsx_def Let_def)
  show ?thesis using True assms res bank_outcomes
    by (cases "ir_rows res = []") (auto simp: parse_wise_xlsx_def Let_def)
qed

lemma parse_outcomes:
  assumes "parse_queued_file av content profile mapping filename wb = Inr r"
  shows "outcome_ok r \<and> (profile \<in> {''generic'', ''mbank'', ''wise''} \<longrightarrow> po_needs_mapping r \<longrightarrow> po_profile r = ''generic'')"
proof (cases wb)
  case (Some sheet)
  then show ?thesis using assms xlsx_outcomes by (simp add: parse_queued_file_def)
next
  case None
  define resolved where "resolved = (if profile = ''generic''
    then (case detect_bank_profile content of None \<Rightarrow> profile | Some p \<Rightarrow> p) else profile)"
  have "parse_queued_file av content profile mapping filename wb =
      (if resolved = ''mbank'' then parse_mbank content mapping
       else if resolved = ''wise'' then parse_wise content mapping filename
       else parse_generic_with_mapping content mapping resolved)"
    unfolding parse_queued_file_def resolved_def by (simp add: None Let_def)
  then consider "parse_mbank content mapping = Inr r" | "parse_wise content mapping filename = Inr r"
    | "resolved \<noteq> ''mbank''" "resolved \<noteq> ''wise''" "parse_generic_with_mapping content mapping resolved = Inr r"
    using assms by (metis (full_types))
  then show ?thesis
  proof cases
    case 3
    then show ?thesis using generic_outcome [OF 3(3)] by (auto simp: resolved_def detect_bank_profile_def split: if_splits option.splits)
  qed (use mbank_outcomes wise_outcomes in blast)+
qed

text \<open>
  C38. Parsing an upload never leaves the user at a dead end. Whatever the bytes and whichever profile was
  chosen, a parse that returns has either rows, and then it is marked usable, or it has none and says what to
  do: it asks for a column mapping, with the inspected columns and a mapping to start from and under the
  profile that has a mapping step, or it names the error of the format. Only a file read by a bank's format
  carries a bank's banner.
\<close>

theorem upload_never_dead_ends:
  assumes "parse_queued_file xlsx_available content profile mapping filename workbook = Inr r"
    and "profile \<in> {''generic'', ''mbank'', ''wise''}"
  shows "(po_ok r \<longleftrightarrow> po_rows r \<noteq> []) \<and>
    (po_rows r = [] \<longrightarrow> po_needs_mapping r \<or> po_error_key r \<noteq> None) \<and>
    (po_needs_mapping r \<longrightarrow> po_profile r = ''generic'' \<and> po_inspection r \<noteq> None \<and> po_mapping r \<noteq> None \<and> \<not> po_ok r) \<and>
    (po_metadata r \<noteq> None \<longrightarrow> po_profile r = ''mbank'' \<or> po_profile r = ''wise'')"
  using parse_outcomes [OF assms(1)] assms(2) unfolding outcome_ok_def by blast

theorem upload_never_dead_ends_witness:
  "\<exists>r. parse_queued_file False ex_statement ''generic'' (Some ex_mapping) [] None = Inr r \<and> po_rows r \<noteq> [] \<and>
    \<not> po_needs_mapping r"
proof -
  have "(case parse_queued_file False ex_statement ''generic'' (Some ex_mapping) [] None of
      Inl _ \<Rightarrow> False | Inr r \<Rightarrow> po_ok r)" by code_simp
  then obtain r where r: "parse_queued_file False ex_statement ''generic'' (Some ex_mapping) [] None = Inr r" "po_ok r"
    by (auto split: sum.splits)
  show ?thesis using upload_never_dead_ends [OF r(1)] r by blast
qed

section \<open>The currency guard\<close>

lemma parsed_file_profile:
  assumes "parse_file av f0 = Inr f" and "qf_metadata f \<noteq> None"
  shows "qf_profile f = ''mbank'' \<or> qf_profile f = ''wise''"
proof -
  obtain r where r: "parse_queued_file av (qf_content f0) (qf_profile f0) (qf_mapping f0) (qf_filename f0) (qf_workbook f0) = Inr r"
    using assms(1) by (auto simp: parse_file_def ebind_Inr_iff)
  then have "qf_profile f = po_profile r" "qf_metadata f \<noteq> None \<longrightarrow> po_metadata r \<noteq> None"
    using assms(1) by (auto simp: parse_file_def Let_def split: if_splits)
  then show ?thesis using parse_outcomes [OF r] assms(2) unfolding outcome_ok_def by auto
qed


definition ex_file :: queued_file where
  "ex_file = \<lparr>qf_id = ''a'', qf_filename = ''wise.xlsx'', qf_content = [],
     qf_workbook = Some (Inr [[ValueCell ''Date'', ValueCell ''Amount'', ValueCell ''Currency''],
       [DateCell (Date 2026 7 1), ValueCell ''-1'', ValueCell ''EUR'']]),
     qf_profile = ''generic'', qf_parsed_rows = [], qf_parse_errors = [], qf_error_rows = [], qf_metadata = None,
     qf_mapping = None, qf_auto_mapping = None, qf_inspection = None, qf_target_account = Some 1,
     qf_expense_cat = Some 1, qf_income_cat = Some 2, qf_skip_duplicates = True, qf_status = ''pending'',
     qf_status_msg = Message [], qf_imported_count = 0, qf_skipped_rows = [], qf_matched_rule = None,
     qf_filename_pattern = [], qf_remember_mapping = True\<rparr>"


section \<open>Inherited settings\<close>

lemma find_member: "find P xs = Some x \<Longrightarrow> x \<in> set xs \<and> P x"
  by (auto simp: find_Some_iff)

text \<open>
  An account is only ever inherited from a statement of the same account (mBank) or in the same currency
  (Wise), and a mapping the file has is never replaced.
\<close>

lemma inherited_account_matches:
  assumes "inherit_queue_settings cur queue = (s, True)" and "ss_target_account s \<noteq> ss_target_account cur"
  shows "\<exists>prior \<in> set queue. ss_file_id prior \<noteq> ss_file_id cur \<and> ss_target_account s = ss_target_account prior \<and>
    (same_statement bm_account_digits ''mbank'' cur prior \<or> same_statement bm_currency ''wise'' cur prior)"
  using assms
  by (auto simp: inherit_queue_settings_def copy_account_settings_def same_statement_def
      split: option.splits dest!: find_member)

lemma inherited_mapping_kept:
  assumes "ss_mapping cur = Some m"
  shows "ss_mapping (fst (inherit_queue_settings cur queue)) = Some m"
  using assms by (auto simp: inherit_queue_settings_def copy_account_settings_def or_else_def split: option.splits)

text \<open>
  The upload asks for inherited settings before the file is parsed, when no banner is known yet, so neither
  the account number nor the currency can ever match: no upload inherits an account.
\<close>

lemma upload_inherits_no_account:
  assumes "qf_metadata f = None"
  shows "qf_target_account (inherit_on_upload priors f) = qf_target_account f"
proof -
  have "statement_key field p (file_settings f) = []" for field p
    using assms by (simp add: statement_key_def file_settings_def)
  then have "\<not> same_statement field p (file_settings f) prior" for field p prior by (simp add: same_statement_def)
  then have "find (same_statement field p (file_settings f)) xs = None" for field p xs by (simp add: find_None_iff)
  then show ?thesis
    by (auto simp: inherit_on_upload_def inherit_queue_settings_def apply_settings_snapshot_def file_settings_def
        or_else_def Let_def split: option.splits)
qed

section \<open>Running the whole queue\<close>

lemma remember_keeps: "remember e s f rs = (g, rs1) \<Longrightarrow>
    qf_status g = qf_status f \<and> qf_id g = qf_id f \<and> qf_imported_count g = qf_imported_count f"
  by (auto simp: remember_def Let_def split: option.splits sum.splits if_splits)

lemma import_one_settles:
  assumes "import_one e known accs f world = (g, w1)"
  shows "(qf_status g = ''done'' \<or> qf_status g = ''failed'') \<and> qf_id g = qf_id f \<and>
    (qf_status g = ''failed'' \<longrightarrow> w1 = world)"
proof -
  obtain st rs where w: "world = (st, rs)" by (cases world)
  show ?thesis
    using assms
    by (auto simp: import_one_def w Let_def remember_keeps split: option.splits sum.splits prod.splits
        dest!: remember_keeps)
qed

text \<open>
  A run ends: no file of the queue is left ready, a file that failed has booked nothing, and the other files
  keep what they were.
\<close>

lemma import_all_settles:
  assumes "import_all e known accs fs world = (gs, w1)"
  shows "list_all2 (\<lambda>f g. if qf_status f = ''ready'' then qf_id g = qf_id f \<and> qf_status g \<in> {''done'', ''failed''} else g = f) fs gs"
  using assms
proof (induction fs arbitrary: world gs w1)
  case Nil
  then show ?case by simp
next
  case (Cons f fs)
  show ?case
  proof (cases "qf_status f = ''ready''")
    case True
    obtain g w where g: "import_one e known accs f world = (g, w)" by (metis surj_pair)
    obtain gs' w' where gs': "import_all e known accs fs w = (gs', w')" by (metis surj_pair)
    have "gs = g # gs'" using Cons.prems True g gs' by simp
    then show ?thesis using Cons.IH [OF gs'] import_one_settles [OF g] True by simp
  next
    case False
    obtain gs' w' where gs': "import_all e known accs fs world = (gs', w')" by (metis surj_pair)
    have "gs = f # gs'" using Cons.prems False gs' by simp
    then show ?thesis using Cons.IH [OF gs'] False by simp
  qed
qed

lemma failed_queue_books_nothing:
  assumes "import_all e known accs fs world = (gs, w1)" and "list_all (\<lambda>g. qf_status g \<noteq> ''done'') gs"
  shows "w1 = world"
  using assms
proof (induction fs arbitrary: world gs w1)
  case Nil
  then show ?case by simp
next
  case (Cons f fs)
  define p where "p = (if qf_status f = ''ready'' then import_one e known accs f world else (f, world))"
  obtain g w where g: "p = (g, w)" by (cases p)
  obtain gs' w' where gs': "import_all e known accs fs w = (gs', w')" by (metis surj_pair)
  have e: "gs = g # gs'" "w1 = w'" using Cons.prems(1) g gs' by (simp_all add: p_def Let_def split: if_splits)
  have "w = world"
    using g Cons.prems(2) e(1) import_one_settles [of e known accs f world g w] by (auto simp: p_def split: if_splits)
  then show ?case using Cons.IH [OF gs'] Cons.prems(2) e by simp
qed

section \<open>Walking through the wizard\<close>

text \<open>
  Wherever the reader stood, the page puts them on a step that the file has and that its work has reached, and
  as long as they stand before it Continue moves them on without overtaking it.
\<close>

lemma wizard_follows_the_work:
  fixes currency :: "string option"
  assumes "parse_file av f0 = Inr f" and "qf_profile f0 \<in> {''generic'', ''mbank'', ''wise''}"
  defines "steps \<equiv> steps_for (Some f)" and "reach \<equiv> current_step (Some f) currency"
  shows "reach \<in> set steps" and "clamp_viewed v reach steps \<in> set steps" and "clamp_viewed v reach steps \<le> reach"
    and "clamp_viewed v reach steps < reach \<Longrightarrow> can_continue (clamp_viewed v reach steps) reach steps \<and>
      next_step (clamp_viewed v reach steps) steps \<le> reach"
proof -
  obtain r where r: "parse_queued_file av (qf_content f0) (qf_profile f0) (qf_mapping f0) (qf_filename f0) (qf_workbook f0) = Inr r"
    using assms(1) by (auto simp: parse_file_def ebind_Inr_iff)
  have st: "qf_profile f = po_profile r \<and> qf_status f \<in> {''ready'', ''needs_mapping'', ''failed''} \<and>
      (qf_status f = ''needs_mapping'' \<longrightarrow> po_needs_mapping r)"
    using assms(1) r by (auto simp: parse_file_def Let_def split: if_splits)
  then have gen: "qf_status f = ''needs_mapping'' \<longrightarrow> qf_profile f = ''generic''"
    using parse_outcomes [OF r] assms(2) by auto
  have reach: "reach \<in> {2, 3, 4, 5}" "reach = 3 \<longrightarrow> qf_profile f = ''generic''"
    using st gen by (auto simp: reach_def current_step_def)
  have steps: "steps = (if qf_profile f = ''generic'' then [1, 2, 3, 4, 5, 6] else [1, 2, 4, 5, 6])"
    by (simp add: steps_def steps_for_def ALL_STEPS_def)
  show mem: "reach \<in> set steps" using reach by (auto simp: steps)
  have allowed: "filter (\<lambda>s. s \<le> reach) steps \<noteq> []" using mem by (auto simp: filter_empty_conv)
  have clamp: "clamp_viewed v reach steps \<in> set (filter (\<lambda>s. s \<le> reach) steps)"
  proof -
    have "hd (filter P xs) \<in> set xs" if "filter P xs \<noteq> []" for P and xs :: "nat list"
      using hd_in_set [OF that] by auto
    moreover have "last (filter P xs) \<in> set xs" if "filter P xs \<noteq> []" for P and xs :: "nat list"
      using last_in_set [OF that] by auto
    ultimately show ?thesis using allowed unfolding clamp_viewed_def Let_def by (smt (verit) hd_in_set)
  qed
  then show "clamp_viewed v reach steps \<in> set steps" "clamp_viewed v reach steps \<le> reach" by auto
  show "can_continue (clamp_viewed v reach steps) reach steps \<and> next_step (clamp_viewed v reach steps) steps \<le> reach"
    if "clamp_viewed v reach steps < reach"
    using that clamp reach by (auto simp: steps can_continue_def next_step_def split: if_splits)
qed

end
