(* ===== verification/NetWorth.thy ===== *)
theory NetWorth
  imports Accounts Floats "HOL-Library.Product_Lexorder"
begin

text \<open>
  Exchange rates and net worth (\<open>src/src/kaleta/services/currency_rate_service.py\<close>, \<open>net_worth_service.py\<close> and
  the CRUD of \<open>asset_service.py\<close>). A rate is looked up in the family's table and in the shared NBP table;
  net worth converts every balance at the nearest rate and walks the ledger backwards month by month.

  Rows with equal dates come in insertion order, which is one of the orders the database may choose.
\<close>

section \<open>Definitions\<close>

subsection \<open>Rates\<close>

record currency_rate =
  cr_id :: int
  cr_date :: date
  cr_from :: string
  cr_to :: string
  cr_rate :: decimal

record nbp_rate =
  nr_date :: date
  nr_currency :: string
  nr_mid :: decimal

text \<open>The family's table with its sequence, and the instance's NBP table.\<close>

record rate_tables =
  rt_rates :: "currency_rate list"
  seq_rate :: int
  rt_nbp :: "nbp_rate list"

definition PLN :: string where
  "PLN = ''PLN''"

definition nbp_value :: "nbp_rate \<Rightarrow> string \<Rightarrow> decimal" where
  "nbp_value row from = (if from = PLN then quantize ROUND_HALF_EVEN 6 (dec_div 1 (nr_mid row)) else nr_mid row)"

definition nbp_currency :: "string \<Rightarrow> string \<Rightarrow> string option" where
  "nbp_currency from to =
    (if from = to \<or> (from \<noteq> PLN \<and> to \<noteq> PLN) then None else Some (if from = PLN then to else from))"

text \<open>
  Inserting a rate: the schema refuses a rate that is not positive, and the column \<open>Numeric(15, 6)\<close> rounds
  it to six places, half away from zero, and refuses what has more than nine digits before the point.
\<close>

record rate_create =
  rc_date :: date
  rc_from :: string
  rc_to :: string
  rc_rate :: decimal

definition create_rate :: "rate_create \<Rightarrow> rate_tables \<Rightarrow> rate_tables result" where
  "create_rate p tb =
    raise_if (rc_rate p \<le> 0 \<or> length (rc_from p) \<noteq> 3 \<or> length (rc_to p) \<noteq> 3) (ValidationError ''pydantic'')
      (let r = quantize ROUND_HALF_UP 6 (rc_rate p)
       in raise_if (10 ^ 9 \<le> r) (DataError ''currency_rates.rate'')
         (Inr (tb\<lparr>rt_rates := rt_rates tb @ [\<lparr>cr_id = seq_rate tb, cr_date = rc_date p, cr_from = rc_from p,
            cr_to = rc_to p, cr_rate = r\<rparr>], seq_rate := seq_rate tb + 1\<rparr>)))"

text \<open>
  The two rows of a pair are committed one by one: when the second is refused the first stays. The state is
  returned beside the result.
\<close>

definition record_transfer_rate :: "date \<Rightarrow> string \<Rightarrow> string \<Rightarrow> decimal \<Rightarrow> rate_tables \<Rightarrow> unit result \<times> rate_tables" where
  "record_transfer_rate d from to rate tb =
    (if from = to then (Inr (), tb)
     else case create_rate \<lparr>rc_date = d, rc_from = from, rc_to = to, rc_rate = rate\<rparr> tb of
       Inl err \<Rightarrow> (Inl err, tb)
     | Inr tb1 \<Rightarrow>
         if rate \<noteq> 0 then
           (case create_rate \<lparr>rc_date = d, rc_from = to, rc_to = from, rc_rate = dec_div 1 rate\<rparr> tb1 of
              Inl err \<Rightarrow> (Inl err, tb1)
            | Inr tb2 \<Rightarrow> (Inr (), tb2))
         else (Inr (), tb1))"

definition create_with_inverse :: "rate_create \<Rightarrow> bool \<Rightarrow> rate_tables \<Rightarrow> unit result \<times> rate_tables" where
  "create_with_inverse p also_inverse tb =
    (case create_rate p tb of
       Inl err \<Rightarrow> (Inl err, tb)
     | Inr tb1 \<Rightarrow>
         if also_inverse then
           (case create_rate \<lparr>rc_date = rc_date p, rc_from = rc_to p, rc_to = rc_from p,
                rc_rate = dec_div 1 (rc_rate p)\<rparr> tb1 of
              Inl err \<Rightarrow> (Inl err, tb1)
            | Inr tb2 \<Rightarrow> (Inr (), tb2))
         else (Inr (), tb1))"

definition delete_rate :: "int \<Rightarrow> rate_tables \<Rightarrow> bool \<times> rate_tables" where
  "delete_rate i tb =
    (if find_row cr_id i (rt_rates tb) = None then (False, tb)
     else (True, tb\<lparr>rt_rates := del_row cr_id i (rt_rates tb)\<rparr>))"

text \<open>\<open>ORDER BY date DESC\<close>\<close>

definition newest_first :: "('r \<Rightarrow> date) \<Rightarrow> 'r list \<Rightarrow> 'r list" where
  "newest_first day rows = sort_key (\<lambda>r. - toordinal (day r)) rows"

definition first_row :: "'r list \<Rightarrow> 'r option" where
  "first_row rows = (case rows of [] \<Rightarrow> None | r # _ \<Rightarrow> Some r)"

definition pair_rows :: "rate_tables \<Rightarrow> string \<Rightarrow> string \<Rightarrow> currency_rate list" where
  "pair_rows tb from to = filter (\<lambda>r. cr_from r = from \<and> cr_to r = to) (rt_rates tb)"

definition latest_on :: "('r \<Rightarrow> date) \<Rightarrow> date \<Rightarrow> 'r list \<Rightarrow> 'r option" where
  "latest_on day d rows = first_row (newest_first day (filter (\<lambda>r. day r \<le> d) rows))"

definition family_rate_on :: "rate_tables \<Rightarrow> date \<Rightarrow> string \<Rightarrow> string \<Rightarrow> (date \<times> decimal) option" where
  "family_rate_on tb d from to =
    (case latest_on cr_date d (pair_rows tb from to) of
       Some row \<Rightarrow> Some (cr_date row, cr_rate row)
     | None \<Rightarrow>
         (case latest_on cr_date d (pair_rows tb to from) of
            Some row \<Rightarrow> if cr_rate row \<noteq> 0 then Some (cr_date row, dec_div 1 (cr_rate row)) else None
          | None \<Rightarrow> None))"

definition nbp_rate_on :: "rate_tables \<Rightarrow> date \<Rightarrow> string \<Rightarrow> string \<Rightarrow> (date \<times> decimal) option" where
  "nbp_rate_on tb d from to =
    (case nbp_currency from to of
       None \<Rightarrow> None
     | Some c \<Rightarrow>
         (case latest_on nr_date d (filter (\<lambda>r. nr_currency r = c) (rt_nbp tb)) of
            None \<Rightarrow> None
          | Some row \<Rightarrow> if nr_mid row = 0 then None else Some (nr_date row, nbp_value row from)))"

definition get_rate_on :: "rate_tables \<Rightarrow> date \<Rightarrow> string \<Rightarrow> string \<Rightarrow> decimal option" where
  "get_rate_on tb d from to =
    (if from = to then Some 1
     else case (family_rate_on tb d from to, nbp_rate_on tb d from to) of
       (None, nbp) \<Rightarrow> map_option snd nbp
     | (Some own, None) \<Rightarrow> Some (snd own)
     | (Some own, Some nbp) \<Rightarrow> if fst own < fst nbp then Some (snd nbp) else Some (snd own))"

definition get_latest_rate :: "rate_tables \<Rightarrow> date \<Rightarrow> string \<Rightarrow> string \<Rightarrow> decimal option" where
  "get_latest_rate tb today from to = get_rate_on tb today from to"

text \<open>The history of one currency, oldest first: direct rates, else inverted ones, then NBP under them.\<close>

type_synonym history = "(date \<times> decimal) list"

definition oldest_first :: "('r \<Rightarrow> date) \<Rightarrow> 'r list \<Rightarrow> 'r list" where
  "oldest_first day rows = sort_key (\<lambda>r. toordinal (day r)) rows"

definition family_history :: "rate_tables \<Rightarrow> string \<Rightarrow> string \<Rightarrow> history" where
  "family_history tb from to =
    (let direct = map (\<lambda>r. (cr_date r, cr_rate r)) (oldest_first cr_date (pair_rows tb from to))
     in if direct \<noteq> [] then direct
        else map (\<lambda>r. (cr_date r, dec_div 1 (cr_rate r)))
               (oldest_first cr_date (filter (\<lambda>r. cr_rate r \<noteq> 0) (pair_rows tb to from))))"

text \<open>A dict keyed by date: a later entry replaces an earlier one of the same date; then sorted.\<close>

definition put :: "date \<Rightarrow> decimal \<Rightarrow> history \<Rightarrow> history" where
  "put d r h = filter (\<lambda>(x, _). x \<noteq> d) h @ [(d, r)]"

definition merge_nbp_history :: "rate_tables \<Rightarrow> string \<Rightarrow> string \<Rightarrow> history \<Rightarrow> history" where
  "merge_nbp_history tb from to h =
    (case nbp_currency from to of
       None \<Rightarrow> h
     | Some c \<Rightarrow>
         let nbp = map (\<lambda>r. (nr_date r, nbp_value r from))
               (filter (\<lambda>r. nr_currency r = c \<and> nr_mid r \<noteq> 0) (rt_nbp tb))
         in sort_key (\<lambda>e. toordinal (fst e)) (fold (\<lambda>(d, r). put d r) (nbp @ h) []))"

definition load_rates_for_currencies :: "rate_tables \<Rightarrow> string list \<Rightarrow> string \<Rightarrow> string \<rightharpoonup> history" where
  "load_rates_for_currencies tb currencies to c =
    (if c \<in> set currencies then Some (merge_nbp_history tb c to (family_history tb c to)) else None)"

definition build_relevant_pairs :: "string \<Rightarrow> string list \<Rightarrow> (string \<times> string) list \<Rightarrow> (string \<times> string) list" where
  "build_relevant_pairs default_currency account_currencies existing =
    (let foreign = sort (remdups (filter (\<lambda>c. c \<noteq> default_currency) account_currencies));
         relevant = filter (\<lambda>(f, t). t = default_currency) existing
     in relevant @ map (\<lambda>c. (c, default_currency)) (filter (\<lambda>c. c \<notin> fst ` set relevant) foreign))"

datatype rate_source = FAMILY | NBP

record rate_row =
  rr_date :: date
  rr_from :: string
  rr_to :: string
  rr_rate :: decimal
  rr_source :: rate_source

definition list_for_pair :: "rate_tables \<Rightarrow> string \<Rightarrow> string \<Rightarrow> currency_rate list" where
  "list_for_pair tb from to = newest_first cr_date (pair_rows tb from to)"

definition nbp_rows_for_pair :: "rate_tables \<Rightarrow> string \<Rightarrow> string \<Rightarrow> nat \<Rightarrow> rate_row list" where
  "nbp_rows_for_pair tb from to limit =
    (case nbp_currency from to of
       None \<Rightarrow> []
     | Some c \<Rightarrow> map (\<lambda>r. \<lparr>rr_date = nr_date r, rr_from = from, rr_to = to, rr_rate = nbp_value r from, rr_source = NBP\<rparr>)
         (filter (\<lambda>r. nr_mid r \<noteq> 0)
           (take limit (newest_first nr_date (filter (\<lambda>r. nr_currency r = c) (rt_nbp tb))))))"

text \<open>A stable sort with \<open>reverse=True\<close> keeps the order of equal keys.\<close>

definition list_recent_for_pairs :: "rate_tables \<Rightarrow> nat \<Rightarrow> (string \<times> string) list \<Rightarrow> rate_row list" where
  "list_recent_for_pairs tb per_pair pairs =
    newest_first rr_date (concat (map (\<lambda>(from, to).
      take per_pair (sort_key (\<lambda>r. (- toordinal (rr_date r), rr_source r \<noteq> FAMILY))
        (map (\<lambda>r. \<lparr>rr_date = cr_date r, rr_from = cr_from r, rr_to = cr_to r, rr_rate = cr_rate r, rr_source = FAMILY\<rparr>)
           (list_for_pair tb from to) @ nbp_rows_for_pair tb from to per_pair))) pairs))"

definition list_pairs :: "rate_tables \<Rightarrow> (string \<times> string) list" where
  "list_pairs tb = remdups (map (\<lambda>r. (cr_from r, cr_to r)) (rt_rates tb))"

subsection \<open>The nearest rate\<close>

function search_rate :: "history \<Rightarrow> date \<Rightarrow> int \<Rightarrow> int \<Rightarrow> decimal option \<Rightarrow> decimal option" where
  "search_rate es d lo hi best =
    (if lo \<le> hi then
       (let mid = (lo + hi) div 2; (x, r) = es ! nat mid
        in if x \<le> d then search_rate es d (mid + 1) hi (Some r) else search_rate es d lo (mid - 1) best)
     else best)"
  by pat_completeness auto
termination
  by (relation "measure (\<lambda>(es, d, lo, hi, best). nat (hi - lo + 1))") auto

definition nearest_rate :: "history \<Rightarrow> date \<Rightarrow> decimal option" where
  "nearest_rate es d = (if es = [] then None else search_rate es d 0 (int (length es) - 1) None)"

subsection \<open>Physical assets\<close>

datatype asset_type = REAL_ESTATE | VEHICLE | VALUABLES | OTHER_ASSET

record asset =
  as_id :: int
  as_name :: string
  as_type :: asset_type
  as_value :: decimal
  as_description :: string
  as_purchase_date :: "date option"
  as_purchase_price :: "decimal option"

record asset_table =
  at_assets :: "asset list"
  seq_asset :: int

text \<open>An update names the columns it sets; a null for a mandatory column is refused by the database and left out here.\<close>

record asset_update =
  aup_name :: "string option"
  aup_type :: "asset_type option"
  aup_value :: "decimal option"
  aup_description :: "string option"
  aup_purchase_date :: "date option option"
  aup_purchase_price :: "decimal option option"

definition list_assets :: "asset_table \<Rightarrow> asset list" where
  "list_assets tb = by_name as_name (at_assets tb)"

definition get_asset :: "asset_table \<Rightarrow> int \<Rightarrow> asset option" where
  "get_asset tb i = find_row as_id i (at_assets tb)"

definition create_asset :: "asset \<Rightarrow> asset_table \<Rightarrow> asset \<times> asset_table" where
  "create_asset data tb =
    (let a = data\<lparr>as_id := seq_asset tb\<rparr>
     in (a, tb\<lparr>at_assets := at_assets tb @ [a], seq_asset := seq_asset tb + 1\<rparr>))"

definition apply_asset_update :: "asset_update \<Rightarrow> asset \<Rightarrow> asset" where
  "apply_asset_update p =
    patch (aup_purchase_price p) (\<lambda>v a. a\<lparr>as_purchase_price := v\<rparr>) \<circ>
    patch (aup_purchase_date p) (\<lambda>v a. a\<lparr>as_purchase_date := v\<rparr>) \<circ>
    patch (aup_description p) (\<lambda>v a. a\<lparr>as_description := v\<rparr>) \<circ>
    patch (aup_value p) (\<lambda>v a. a\<lparr>as_value := v\<rparr>) \<circ>
    patch (aup_type p) (\<lambda>v a. a\<lparr>as_type := v\<rparr>) \<circ>
    patch (aup_name p) (\<lambda>v a. a\<lparr>as_name := v\<rparr>)"

definition update_asset :: "int \<Rightarrow> asset_update \<Rightarrow> asset_table \<Rightarrow> asset option \<times> asset_table" where
  "update_asset i p tb =
    (case get_asset tb i of
       None \<Rightarrow> (None, tb)
     | Some a \<Rightarrow> let a' = apply_asset_update p a
                 in (Some a', tb\<lparr>at_assets := upd_row as_id i (\<lambda>_. a') (at_assets tb)\<rparr>))"

definition delete_asset :: "int \<Rightarrow> asset_table \<Rightarrow> bool \<times> asset_table" where
  "delete_asset i tb =
    (if get_asset tb i = None then (False, tb) else (True, tb\<lparr>at_assets := del_row as_id i (at_assets tb)\<rparr>))"

subsection \<open>Net worth\<close>

definition is_liability_kind :: "account_type \<Rightarrow> bool" where
  "is_liability_kind ty \<longleftrightarrow> ty = CREDIT"

definition is_asset_kind :: "account_type \<Rightarrow> bool" where
  "is_asset_kind ty \<longleftrightarrow> ty \<noteq> CREDIT"

record account_snapshot =
  sn_id :: int
  sn_name :: string
  sn_type :: account_type
  sn_balance :: decimal
  sn_currency :: string
  sn_in_default :: decimal
  sn_rate_known :: bool

definition asset_value :: "account_snapshot \<Rightarrow> decimal" where
  "asset_value a = (if is_asset_kind (sn_type a) then sn_in_default a else 0)"

definition liability_value :: "account_snapshot \<Rightarrow> decimal" where
  "liability_value a = (if is_asset_kind (sn_type a) then 0 else ctx (- sn_in_default a))"

record monthly_net_worth =
  mn_year :: int
  mn_month :: int
  mn_net_worth :: decimal
  mn_assets :: decimal
  mn_liabilities :: decimal

record net_worth_summary =
  nw_accounts :: "account_snapshot list"
  nw_assets :: "asset list"
  nw_history :: "monthly_net_worth list"
  nw_prev :: "decimal option"
  nw_currency :: string

text \<open>\<open>sum(values, start)\<close> of decimals\<close>

definition dec_sum :: "decimal \<Rightarrow> decimal list \<Rightarrow> decimal" where
  "dec_sum start xs = foldl dec_add start xs"

definition total_physical_assets :: "net_worth_summary \<Rightarrow> decimal" where
  "total_physical_assets n = dec_sum 0 (map as_value (nw_assets n))"

definition account_assets :: "net_worth_summary \<Rightarrow> decimal" where
  "account_assets n = dec_sum 0 (map asset_value (nw_accounts n))"

definition total_assets :: "net_worth_summary \<Rightarrow> decimal" where
  "total_assets n = dec_add (account_assets n) (total_physical_assets n)"

definition total_liabilities :: "net_worth_summary \<Rightarrow> decimal" where
  "total_liabilities n = dec_sum 0 (map liability_value (nw_accounts n))"

definition net_worth :: "net_worth_summary \<Rightarrow> decimal" where
  "net_worth n = ctx (total_assets n - total_liabilities n)"

definition monthly_change :: "net_worth_summary \<Rightarrow> decimal option" where
  "monthly_change n = map_option (\<lambda>p. ctx (net_worth n - p)) (nw_prev n)"

definition delta_30d :: "net_worth_summary \<Rightarrow> decimal option" where
  "delta_30d n =
    (if length (nw_history n) < 2 then None
     else Some (ctx (net_worth n - mn_net_worth (nw_history n ! (length (nw_history n) - 2)))))"

definition delta_ytd :: "net_worth_summary \<Rightarrow> date \<Rightarrow> decimal option" where
  "delta_ytd n today =
    (case find (\<lambda>e. mn_year e = d_year today) (nw_history n) of
       None \<Rightarrow> None
     | Some e \<Rightarrow> if mn_month e = d_month today then None else Some (ctx (net_worth n - mn_net_worth e)))"

definition has_unknown_rates :: "net_worth_summary \<Rightarrow> bool" where
  "has_unknown_rates n \<longleftrightarrow> (\<exists>a \<in> set (nw_accounts n). \<not> sn_rate_known a \<and> sn_currency a \<noteq> nw_currency n)"

record balance_sheet =
  bs_accounts :: rat
  bs_physical :: rat
  bs_liabilities :: rat

definition balance_sheet_split :: "net_worth_summary \<Rightarrow> balance_sheet option" where
  "balance_sheet_split n =
    (let a = max (account_assets n) 0; p = max (total_physical_assets n) 0; l = max (total_liabilities n) 0;
         total = dec_sum 0 [a, p, l]; share = (\<lambda>x. to_float (dec_mul (dec_div x total) 100))
     in if total \<le> 0 then None
        else Some \<lparr>bs_accounts = share a, bs_physical = share p, bs_liabilities = share l\<rparr>)"

definition known_rate :: "(string \<rightharpoonup> history) \<Rightarrow> date \<Rightarrow> string \<Rightarrow> string \<Rightarrow> decimal option" where
  "known_rate rates d default_currency c =
    (if c = default_currency then Some 1
     else nearest_rate (case rates c of None \<Rightarrow> [] | Some h \<Rightarrow> h) d)"

definition apply_rates ::
  "account list \<Rightarrow> (int \<rightharpoonup> decimal) \<Rightarrow> (string \<rightharpoonup> history) \<Rightarrow> date \<Rightarrow> string \<Rightarrow> account_snapshot list" where
  "apply_rates accs current rates d default_currency =
    map (\<lambda>a. let rate = known_rate rates d default_currency (acc_currency a); b = get_or_0 (current (acc_id a))
             in \<lparr>sn_id = acc_id a, sn_name = acc_name a, sn_type = acc_type a, sn_balance = b,
                 sn_currency = acc_currency a,
                 sn_in_default = dec_mul b (case rate of None \<Rightarrow> 1 | Some r \<Rightarrow> r), sn_rate_known = (rate \<noteq> None)\<rparr>) accs"

definition month_delta :: "db \<Rightarrow> int \<Rightarrow> int \<Rightarrow> int \<Rightarrow> decimal" where
  "month_delta s a y m =
    sum_list (map signed_ledger_amount
      (filter (\<lambda>t. tx_account_id t = a \<and> d_year (tx_date t) = y \<and> d_month (tx_date t) = m) (transactions s)))"

text \<open>The loop of \<open>_monthly_history\<close>, newest month first; \<open>k\<close> is \<open>year * 12 + month - 1\<close>.\<close>

fun walk_back :: "db \<Rightarrow> decimal \<Rightarrow> int \<Rightarrow> nat \<Rightarrow> (account \<times> decimal) list \<Rightarrow> monthly_net_worth list" where
  "walk_back s physical k 0 bals = []"
| "walk_back s physical k (Suc n) bals =
    (let y = k div 12; m = k mod 12 + 1;
         assets = dec_sum physical (map snd (filter (\<lambda>(a, b). \<not> is_liability_kind (acc_type a)) bals));
         liabilities = dec_sum 0 (map (\<lambda>(a, b). ctx (- b)) (filter (\<lambda>(a, b). is_liability_kind (acc_type a)) bals))
     in \<lparr>mn_year = y, mn_month = m, mn_net_worth = ctx (assets - liabilities), mn_assets = assets,
         mn_liabilities = liabilities\<rparr> #
        walk_back s physical (k - 1) n (map (\<lambda>(a, b). (a, ctx (b - month_delta s (acc_id a) y m))) bals))"

definition month_index :: "date \<Rightarrow> int" where
  "month_index d = d_year d * 12 + d_month d - 1"

definition history_rate :: "(string \<rightharpoonup> history) \<Rightarrow> date \<Rightarrow> string \<Rightarrow> string \<Rightarrow> decimal" where
  "history_rate rates d default_currency c =
    (case known_rate rates d default_currency c of None \<Rightarrow> 1 | Some r \<Rightarrow> if r = 0 then 1 else r)"

definition monthly_history ::
  "db \<Rightarrow> account list \<Rightarrow> (int \<rightharpoonup> decimal) \<Rightarrow> (string \<rightharpoonup> history) \<Rightarrow> asset list \<Rightarrow> nat \<Rightarrow> string \<Rightarrow> date \<Rightarrow>
   monthly_net_worth list" where
  "monthly_history s accs current rates assets months default_currency today =
    rev (walk_back s (dec_sum 0 (map as_value assets)) (month_index today) months
      (map (\<lambda>a. (a, dec_mul (get_or_0 (current (acc_id a))) (history_rate rates today default_currency (acc_currency a)))) accs))"

definition get_summary ::
  "db \<Rightarrow> rate_tables \<Rightarrow> asset_table \<Rightarrow> nat \<Rightarrow> string \<Rightarrow> date \<Rightarrow> net_worth_summary" where
  "get_summary s tb assets months default_currency today =
    (let accs = by_name acc_name (accounts s); current = balances s None None; physical = list_assets assets;
         foreign = filter (\<lambda>c. c \<noteq> default_currency) (map acc_currency accs);
         rates = load_rates_for_currencies tb foreign default_currency;
         hist = monthly_history s accs current rates physical months default_currency today
     in \<lparr>nw_accounts = apply_rates accs current rates today default_currency, nw_assets = physical,
         nw_history = hist,
         nw_prev = (if 2 \<le> length hist then Some (mn_net_worth (hist ! (length hist - 2))) else None),
         nw_currency = default_currency\<rparr>)"

section \<open>The binary search finds the last rate\<close>

declare search_rate.simps [simp del]

text \<open>What the search is for: the last entry on or before the day.\<close>

definition last_rate :: "history \<Rightarrow> date \<Rightarrow> decimal option" where
  "last_rate es d = (let before = filter (\<lambda>(x, _). x \<le> d) es in if before = [] then None else Some (snd (last before)))"

lemma filter_before:
  assumes "sorted (map fst es)" and "n \<le> length es" and "\<forall>i < n. fst (es ! i) \<le> d"
    and "n < length es \<Longrightarrow> \<not> fst (es ! n) \<le> d"
  shows "filter (\<lambda>(x, _). x \<le> d) es = take n es"
proof -
  have "\<forall>e \<in> set (take n es). fst e \<le> d"
    using assms(2,3) by (metis in_set_conv_nth length_take min.absorb2 nth_take)
  moreover have "\<forall>e \<in> set (drop n es). \<not> fst e \<le> d"
  proof
    fix e assume "e \<in> set (drop n es)"
    then obtain j where "j < length (drop n es)" "e = drop n es ! j"
      by (metis in_set_conv_nth)
    then have j: "n + j < length es" "e = es ! (n + j)" using assms(2) by auto
    then have "fst (es ! n) \<le> fst e"
      using assms(1) sorted_nth_mono [of "map fst es" n "n + j"] by simp
    then show "\<not> fst e \<le> d" using assms(4) j(1) by auto
  qed
  ultimately have "filter (\<lambda>(x, _). x \<le> d) (take n es @ drop n es) = take n es"
    unfolding filter_append by (simp add: case_prod_beta filter_id_conv filter_empty_conv)
  then show ?thesis by simp
qed

lemma search_rate_finds:
  assumes "sorted (map fst es)" and "0 \<le> lo" and "lo \<le> hi + 1" and "hi < int (length es)"
    and "\<forall>i < nat lo. fst (es ! i) \<le> d" and "\<forall>i < length es. hi < int i \<longrightarrow> \<not> fst (es ! i) \<le> d"
    and "best = (if lo = 0 then None else Some (snd (es ! nat (lo - 1))))"
  shows "search_rate es d lo hi best = last_rate es d"
  using assms
proof (induction es d lo hi best rule: search_rate.induct)
  case (1 es d lo hi best)
  show ?case
  proof (cases "lo \<le> hi")
    case False
    then have eq: "lo = hi + 1" using "1.prems"(3) by simp
    have n: "nat lo \<le> length es" using "1.prems"(2,4) eq by linarith
    have "filter (\<lambda>(x, _). x \<le> d) es = take (nat lo) es"
      using "1.prems"(2,6) eq by (intro filter_before [OF "1.prems"(1) n "1.prems"(5)]) auto
    then have "last_rate es d = (if nat lo = 0 then None else Some (snd (es ! (nat lo - 1))))"
      using n by (auto simp: last_rate_def last_conv_nth min_def)
    moreover have "search_rate es d lo hi best = best" using False by (simp add: search_rate.simps [of es d lo hi])
    ultimately show ?thesis using "1.prems"(2,7) by (auto simp: nat_diff_distrib)
  next
    case True
    define mid where "mid = (lo + hi) div 2"
    have mid: "lo \<le> mid" "mid \<le> hi" "0 \<le> mid" using True "1.prems"(2) by (auto simp: mid_def)
    obtain x r where e: "es ! nat mid = (x, r)" by (cases "es ! nat mid")
    have mono: "fst (es ! i) \<le> fst (es ! j)" if "i \<le> j" "j < length es" for i j
      using sorted_nth_mono [OF "1.prems"(1), of i j] that by simp
    have step: "search_rate es d lo hi best =
        (if x \<le> d then search_rate es d (mid + 1) hi (Some r) else search_rate es d lo (mid - 1) best)"
      using True by (subst search_rate.simps) (simp add: mid_def [symmetric] Let_def e)
    show ?thesis
    proof (cases "x \<le> d")
      case le: True
      have "\<forall>i < nat (mid + 1). fst (es ! i) \<le> d"
      proof (intro allI impI)
        fix i assume "i < nat (mid + 1)"
        then have "i \<le> nat mid" "nat mid < length es" using mid "1.prems"(4) by auto
        then show "fst (es ! i) \<le> d" using mono [of i "nat mid"] le e by simp
      qed
      moreover have "Some r = (if mid + 1 = 0 then None else Some (snd (es ! nat (mid + 1 - 1))))"
        using mid(3) e by simp
      ultimately show ?thesis
        unfolding step if_P [OF le]
        using "1.IH"(1) [OF True mid_def refl e [symmetric]] "1.prems" mid le by simp
    next
      case gt: False
      have "\<forall>i < length es. mid - 1 < int i \<longrightarrow> \<not> fst (es ! i) \<le> d"
      proof (intro allI impI)
        fix i assume "i < length es" "mid - 1 < int i"
        then have "nat mid \<le> i" by linarith
        then show "\<not> fst (es ! i) \<le> d" using mono [of "nat mid" i] \<open>i < length es\<close> gt e by simp
      qed
      then show ?thesis
        unfolding step if_not_P [OF gt]
        using "1.IH"(2) [OF True mid_def refl e [symmetric]] "1.prems" mid gt by simp
    qed
  qed
qed

text \<open>
  C25. The nearest rate is found by a binary search that always ends and is right: on a history sorted by date
  it returns the rate of the last entry on or before the day, and nothing exactly when every entry is later.
\<close>

theorem nearest_rate_is_the_last:
  assumes "sorted (map fst es)"
  shows "nearest_rate es d =
    (let before = filter (\<lambda>(x, _). x \<le> d) es in if before = [] then None else Some (snd (last before)))"
proof (cases "es = []")
  case True
  then show ?thesis by (simp add: nearest_rate_def)
next
  case False
  then have "nearest_rate es d = last_rate es d"
    using search_rate_finds [OF assms, of 0 "int (length es) - 1" d None] by (simp add: nearest_rate_def)
  then show ?thesis by (simp add: last_rate_def)
qed

theorem nearest_rate_is_the_last_witness:
  "nearest_rate [(Date 2026 1 1, 4), (Date 2026 2 1, 5), (Date 2026 3 1, 6)] (Date 2026 2 14) = Some 5"
proof -
  have "sorted (map fst [(Date 2026 1 1, 4 :: decimal), (Date 2026 2 1, 5), (Date 2026 3 1, 6)])"
    by (simp add: less_eq_date_def less_date_def)
  from nearest_rate_is_the_last [OF this, of "Date 2026 2 14"] show ?thesis
    by (simp add: less_eq_date_def less_date_def)
qed

text \<open>The histories that are loaded are sorted, so the search applies to them.\<close>

lemma toordinal_sorts:
  assumes "\<forall>e \<in> set h. valid_date (fst e)"
  shows "sorted (map fst (sort_key (\<lambda>e. toordinal (fst e)) h))"
proof -
  have "sorted_wrt (\<lambda>x y. toordinal (fst x) \<le> toordinal (fst y)) (sort_key (\<lambda>e. toordinal (fst e)) h)"
    using sorted_sort_key [of "\<lambda>e. toordinal (fst e)" h] unfolding sorted_map .
  then show ?thesis unfolding sorted_map by (rule sorted_wrt_mono_rel [rotated]) (use assms in simp)
qed

section \<open>The history is the ledger\<close>

definition month_end :: "int \<Rightarrow> date" where
  "month_end k = Date (k div 12) (k mod 12 + 1) (days_in_month (k div 12) (k mod 12 + 1))"

text \<open>What an account held at the end of a month.\<close>

definition held :: "db \<Rightarrow> int \<Rightarrow> account \<Rightarrow> decimal" where
  "held s k a = acc_opening a + sum_list (map signed_ledger_amount
     (filter (\<lambda>t. tx_account_id t = acc_id a \<and> month_index (tx_date t) \<le> k) (transactions s)))"

lemma index_parts: "month_index d div 12 = d_year d" "month_index d mod 12 + 1 = d_month d" if "valid_date d"
proof -
  have "1 \<le> d_month d" "d_month d \<le> 12" using that by (cases d; simp add: valid_date_def)+
  then show "month_index d div 12 = d_year d" "month_index d mod 12 + 1 = d_month d"
    unfolding month_index_def by presburger+
qed

lemma before_month_end:
  assumes "valid_date d"
  shows "d \<le> month_end k \<longleftrightarrow> month_index d \<le> k"
proof -
  have v: "1 \<le> d_month d" "d_month d \<le> 12" "1 \<le> d_day d" "d_day d \<le> days_in_month (d_year d) (d_month d)"
    using assms by (cases d; simp add: valid_date_def)+
  have m: "0 \<le> k mod 12" "k mod 12 < 12" "k = 12 * (k div 12) + k mod 12" by simp_all
  consider "d_year d < k div 12" | "k div 12 < d_year d" | "d_year d = k div 12" by linarith
  then show ?thesis
  proof cases
    case 1
    then have "d_year d * 12 + 12 \<le> k div 12 * 12" by linarith
    then have "month_index d \<le> k" using v m by (simp add: month_index_def)
    then show ?thesis using 1 by (simp add: month_end_def less_eq_date_def less_date_def)
  next
    case 2
    then have "k div 12 * 12 + 12 \<le> d_year d * 12" by linarith
    then have "\<not> month_index d \<le> k" using v m by (simp add: month_index_def)
    then show ?thesis using 2 by (auto simp: month_end_def less_eq_date_def less_date_def)
  next
    case 3
    have "month_index d \<le> k \<longleftrightarrow> d_month d \<le> k mod 12 + 1" unfolding month_index_def 3 using m(3) by linarith
    moreover have "d_day d \<le> days_in_month (k div 12) (k mod 12 + 1)" if "d_month d = k mod 12 + 1"
      using v(4) unfolding that 3 .
    moreover have "d_month d \<le> k mod 12 + 1 \<longleftrightarrow> d_month d < k mod 12 + 1 \<or> d_month d = k mod 12 + 1" by linarith
    ultimately show ?thesis using 3 by (cases d) (auto simp: month_end_def less_eq_date_def less_date_def)
  qed
qed

lemma held_is_balance:
  assumes "money_ok s" and "distinct (map acc_id (accounts s))" and "a \<in> set (accounts s)"
    and "\<forall>t \<in> set (transactions s). valid_date (tx_date t)"
  shows "held s k a = balance s (acc_id a) (Some (month_end k))"
proof -
  have "get_account s (acc_id a) = Some a"
    using assms(2,3) by (simp add: get_account_def find_row_member)
  moreover have "filter (\<lambda>t. tx_account_id t = acc_id a \<and> month_index (tx_date t) \<le> k) (transactions s) =
      ledger_rows s (Some (month_end k)) (acc_id a)"
    unfolding ledger_rows_def until_def using assms(4) by (intro filter_cong) (auto simp: before_month_end)
  ultimately show ?thesis using assms(1) by (simp add: held_def balance_eq)
qed

lemma held_all:
  assumes "money_ok s" and "distinct (map acc_id (accounts s))" and "a \<in> set (accounts s)"
    and "\<forall>t \<in> set (transactions s). month_index (tx_date t) \<le> k"
  shows "held s k a = balance s (acc_id a) None"
proof -
  have "get_account s (acc_id a) = Some a"
    using assms(2,3) by (simp add: get_account_def find_row_member)
  moreover have "filter (\<lambda>t. tx_account_id t = acc_id a \<and> month_index (tx_date t) \<le> k) (transactions s) =
      ledger_rows s None (acc_id a)"
    unfolding ledger_rows_def until_def using assms(4) by (intro filter_cong) auto
  ultimately show ?thesis using assms(1) by (simp add: held_def balance_eq)
qed

text \<open>One step back: the month's delta is exactly what the month added.\<close>

lemma sum_filter_split:
  fixes f :: "'a \<Rightarrow> decimal"
  assumes "\<And>x. x \<in> set xs \<Longrightarrow> P x \<longleftrightarrow> Q x \<or> R x" and "\<And>x. x \<in> set xs \<Longrightarrow> \<not> (Q x \<and> R x)"
  shows "sum_list (map f (filter P xs)) = sum_list (map f (filter Q xs)) + sum_list (map f (filter R xs))"
  using assms by (induction xs) auto

lemma held_step:
  assumes "\<forall>t \<in> set (transactions s). valid_date (tx_date t)"
  shows "held s k a - month_delta s (acc_id a) (k div 12) (k mod 12 + 1) = held s (k - 1) a"
proof -
  have "sum_list (map signed_ledger_amount
      (filter (\<lambda>t. tx_account_id t = acc_id a \<and> month_index (tx_date t) \<le> k) (transactions s))) =
    sum_list (map signed_ledger_amount
      (filter (\<lambda>t. tx_account_id t = acc_id a \<and> month_index (tx_date t) \<le> k - 1) (transactions s))) +
    sum_list (map signed_ledger_amount
      (filter (\<lambda>t. tx_account_id t = acc_id a \<and> d_year (tx_date t) = k div 12 \<and> d_month (tx_date t) = k mod 12 + 1)
        (transactions s)))"
  proof (rule sum_filter_split)
    fix t assume "t \<in> set (transactions s)"
    then have "month_index (tx_date t) = k \<longleftrightarrow> d_year (tx_date t) = k div 12 \<and> d_month (tx_date t) = k mod 12 + 1"
      using assms index_parts [of "tx_date t"] by (metis (no_types) add_right_cancel div_mult_mod_eq)
    then show "tx_account_id t = acc_id a \<and> month_index (tx_date t) \<le> k \<longleftrightarrow>
        (tx_account_id t = acc_id a \<and> month_index (tx_date t) \<le> k - 1) \<or>
        (tx_account_id t = acc_id a \<and> d_year (tx_date t) = k div 12 \<and> d_month (tx_date t) = k mod 12 + 1)"
      "\<not> ((tx_account_id t = acc_id a \<and> month_index (tx_date t) \<le> k - 1) \<and>
        (tx_account_id t = acc_id a \<and> d_year (tx_date t) = k div 12 \<and> d_month (tx_date t) = k mod 12 + 1))"
      by auto
  qed
  then show ?thesis by (simp add: held_def month_delta_def)
qed

text \<open>All figures stay far below the precision of the decimal context.\<close>

definition worth_bound :: "db \<Rightarrow> decimal" where
  "worth_bound s = sum_list (map (\<lambda>a. \<bar>acc_opening a\<bar>) (accounts s)) + sum_list (map (\<lambda>t. \<bar>tx_amount t\<bar>) (transactions s))"

lemma dec_sum_exact:
  assumes "cents x" and "\<forall>y \<in> set ys. cents y" and "\<bar>x\<bar> + sum_list (map abs ys) < 10 ^ 26"
  shows "dec_sum x ys = x + sum_list ys"
  using assms
proof (induction ys arbitrary: x)
  case Nil
  then show ?case by (simp add: dec_sum_def)
next
  case (Cons y ys)
  have n: "0 \<le> sum_list (map abs ys)" by (rule sum_list_nonneg) auto
  have t: "\<bar>x + y\<bar> \<le> \<bar>x\<bar> + \<bar>y\<bar>" by (rule abs_triangle_ineq)
  have c: "cents (x + y)" using Cons.prems(1,2) by (simp add: cents_add)
  have "\<bar>x + y\<bar> < 10 ^ 26" using n t Cons.prems(3) by simp
  then have "dec_add x y = x + y" using ctx_cents [OF c] by (simp add: dec_add_def)
  then show ?case
    using Cons.IH [OF c] Cons.prems(2,3) t by (simp add: dec_sum_def add.assoc)
qed


lemma own_part_le:
  fixes f :: "'t \<Rightarrow> decimal"
  assumes "distinct (map key as)" and "\<And>t. 0 \<le> f t"
  shows "(\<Sum>a \<leftarrow> as. sum_list (map f (filter (\<lambda>t. own t = key a \<and> P t) ts))) \<le> sum_list (map f ts)"
proof (induction ts)
  case Nil
  then show ?case by (induction as) auto
next
  case (Cons t ts)
  have one: "(\<Sum>a \<leftarrow> as. if own t = key a \<and> P t then f t else 0) \<le> f t"
    using assms(1)
  proof (induction as)
    case (Cons a as)
    then have "(\<Sum>a \<leftarrow> as. if own t = key a \<and> P t then f t else 0) = (\<Sum>a \<leftarrow> as. 0)" if u: "own t = key a"
      using u by (intro arg_cong [where f = sum_list] map_cong) auto
    then show ?case using Cons assms(2) [of t] by auto
  qed (simp add: assms(2))
  have "(\<Sum>a \<leftarrow> as. sum_list (map f (filter (\<lambda>t. own t = key a \<and> P t) (t # ts)))) =
      (\<Sum>a \<leftarrow> as. if own t = key a \<and> P t then f t else 0) +
      (\<Sum>a \<leftarrow> as. sum_list (map f (filter (\<lambda>t. own t = key a \<and> P t) ts)))"
    unfolding sum_list_addf [symmetric] by (intro arg_cong [where f = sum_list] map_cong) auto
  then show ?case using one Cons.IH by simp
qed

lemma abs_sum_list_le:
  fixes f :: "'a \<Rightarrow> decimal"
  shows "\<bar>sum_list (map f xs)\<bar> \<le> sum_list (map (\<lambda>x. \<bar>f x\<bar>) xs)"
proof (induction xs)
  case (Cons x xs)
  then show ?case using abs_triangle_ineq [of "f x" "sum_list (map f xs)"] by simp
qed simp

lemma held_bounded:
  assumes "distinct (map acc_id (accounts s))"
  shows "(\<Sum>a \<leftarrow> accounts s. \<bar>held s k a\<bar>) \<le> worth_bound s"
proof -
  let ?rows = "\<lambda>a. filter (\<lambda>t. tx_account_id t = acc_id a \<and> month_index (tx_date t) \<le> k) (transactions s)"
  have "\<bar>held s k a\<bar> \<le> \<bar>acc_opening a\<bar> + sum_list (map (\<lambda>t. \<bar>tx_amount t\<bar>) (?rows a))" for a
  proof -
    have "\<bar>sum_list (map signed_ledger_amount (?rows a))\<bar> \<le> sum_list (map (\<lambda>t. \<bar>signed_ledger_amount t\<bar>) (?rows a))"
      by (rule abs_sum_list_le)
    moreover have "sum_list (map (\<lambda>t. \<bar>signed_ledger_amount t\<bar>) (?rows a)) \<le> sum_list (map (\<lambda>t. \<bar>tx_amount t\<bar>) (?rows a))"
      by (rule sum_list_mono) (simp add: signed_ledger_amount_def)
    ultimately show ?thesis
      unfolding held_def
      using abs_triangle_ineq [of "acc_opening a" "sum_list (map signed_ledger_amount (?rows a))"] by simp
  qed
  then have "(\<Sum>a \<leftarrow> accounts s. \<bar>held s k a\<bar>) \<le>
      (\<Sum>a \<leftarrow> accounts s. \<bar>acc_opening a\<bar> + sum_list (map (\<lambda>t. \<bar>tx_amount t\<bar>) (?rows a)))"
    by (intro sum_list_mono) auto
  also have "\<dots> = (\<Sum>a \<leftarrow> accounts s. \<bar>acc_opening a\<bar>) +
      (\<Sum>a \<leftarrow> accounts s. sum_list (map (\<lambda>t. \<bar>tx_amount t\<bar>) (?rows a)))"
    by (rule sum_list_addf)
  also have "\<dots> \<le> worth_bound s"
    using own_part_le [OF assms, of "\<lambda>t. \<bar>tx_amount t\<bar>" tx_account_id "\<lambda>t. month_index (tx_date t) \<le> k" "transactions s"]
    by (simp add: worth_bound_def)
  finally show ?thesis .
qed

lemma sum_list_mset:
  fixes f :: "'a \<Rightarrow> 'b :: comm_monoid_add"
  assumes "mset xs = mset ys"
  shows "sum_list (map f xs) = sum_list (map f ys)"
  by (metis assms mset_map sum_mset_sum_list)

lemma sum_filter_le:
  fixes f :: "'a \<Rightarrow> decimal"
  assumes "\<And>x. 0 \<le> f x"
  shows "sum_list (map f (filter P xs)) \<le> sum_list (map f xs)"
  by (induction xs) (auto simp: assms add_increasing)

lemma held_cents:
  assumes "money_ok s" and "a \<in> set (accounts s)"
  shows "cents (held s k a)"
  using assms unfolding held_def money_ok_def
  by (intro cents_add cents_sum_list) (auto intro!: cents_signed)

text \<open>One row of the history, from balances that are exact.\<close>

lemma walk_back_nth:
  assumes "money_ok s" and "distinct (map acc_id (accounts s))" and "mset accs = mset (accounts s)"
    and "\<forall>t \<in> set (transactions s). valid_date (tx_date t)"
    and "cents physical" and "\<bar>physical\<bar> + worth_bound s < 10 ^ 26" and "i < n"
  defines "own k \<equiv> physical + (\<Sum>a \<leftarrow> filter (\<lambda>a. acc_type a \<noteq> CREDIT) accs. held s k a)"
    and "owed k \<equiv> - (\<Sum>a \<leftarrow> filter (\<lambda>a. acc_type a = CREDIT) accs. held s k a)"
  shows "walk_back s physical k n (map (\<lambda>a. (a, held s k a)) accs) ! i =
    \<lparr>mn_year = (k - int i) div 12, mn_month = (k - int i) mod 12 + 1, mn_net_worth = own (k - int i) - owed (k - int i),
     mn_assets = own (k - int i), mn_liabilities = owed (k - int i)\<rparr>"
  using assms(7)
proof (induction n arbitrary: k i)
  case (Suc n)
  have mem: "a \<in> set accs \<longleftrightarrow> a \<in> set (accounts s)" for a using assms(3) by (metis set_mset_mset)
  have total: "(\<Sum>a \<leftarrow> accs. \<bar>held s j a\<bar>) \<le> worth_bound s" for j
    using held_bounded [OF assms(2), of j] sum_list_mset [OF assms(3), of "\<lambda>a. \<bar>held s j a\<bar>"] by simp
  have part: "(\<Sum>a \<leftarrow> filter P accs. \<bar>held s j a\<bar>) \<le> worth_bound s" for P j
    using sum_filter_le [of "\<lambda>a. \<bar>held s j a\<bar>" P accs] total [of j] by simp
  have c: "cents (held s j a)" if u: "a \<in> set accs" for j a using held_cents [OF assms(1)] u mem by simp
  have small: "\<bar>held s j a\<bar> < 10 ^ 26" if u: "a \<in> set accs" for j a
  proof -
    have "\<bar>held s j a\<bar> \<le> (\<Sum>a \<leftarrow> accs. \<bar>held s j a\<bar>)"
      using u by (intro member_le_sum_list) auto
    then show ?thesis using total [of j] assms(6) by simp
  qed
  have assets: "dec_sum physical (map (held s k) (filter (\<lambda>a. acc_type a \<noteq> CREDIT) accs)) = own k"
    unfolding own_def using part [of k "\<lambda>a. acc_type a \<noteq> CREDIT"] assms(5,6)
    by (intro dec_sum_exact) (auto simp: comp_def c)
  have neg: "ctx (- held s k a) = - held s k a" if u: "a \<in> set accs" for a
    using c [OF u] small [OF u] by (intro ctx_cents) auto
  have "dec_sum 0 (map (\<lambda>a. - held s k a) (filter (\<lambda>a. acc_type a = CREDIT) accs)) =
      0 + sum_list (map (\<lambda>a. - held s k a) (filter (\<lambda>a. acc_type a = CREDIT) accs))"
    using part [of k "\<lambda>a. acc_type a = CREDIT"] assms(6)
    by (intro dec_sum_exact) (auto simp: comp_def c)
  moreover have "map (\<lambda>a. ctx (- held s k a)) (filter (\<lambda>a. acc_type a = CREDIT) accs) =
      map (\<lambda>a. - held s k a) (filter (\<lambda>a. acc_type a = CREDIT) accs)"
    by (rule map_cong) (auto simp: neg)
  ultimately have debts: "dec_sum 0 (map (\<lambda>a. ctx (- held s k a)) (filter (\<lambda>a. acc_type a = CREDIT) accs)) = owed k"
    unfolding owed_def by (simp only: uminus_sum_list_map comp_def add_0)
  have net: "ctx (own k - owed k) = own k - owed k"
  proof (rule ctx_cents)
    show "cents (own k - owed k)"
      unfolding own_def owed_def using assms(5) c by (intro cents_diff cents_add cents_minus cents_sum_list) auto
    have "own k - owed k = physical + (\<Sum>a \<leftarrow> accs. held s k a)"
      unfolding own_def owed_def by (induction accs) auto
    then show "\<bar>own k - owed k\<bar> < 10 ^ 26"
      using abs_sum_list_le [of "held s k" accs] total [of k] assms(6) by linarith
  qed
  have undo: "map (\<lambda>a. (a, ctx (held s k a - month_delta s (acc_id a) (k div 12) (k mod 12 + 1)))) accs =
      map (\<lambda>a. (a, held s (k - 1) a)) accs"
    using ctx_cents [OF c small] by (simp add: held_step [OF assms(4)])
  have step: "walk_back s physical k (Suc n) (map (\<lambda>a. (a, held s k a)) accs) =
      \<lparr>mn_year = k div 12, mn_month = k mod 12 + 1, mn_net_worth = own k - owed k, mn_assets = own k,
        mn_liabilities = owed k\<rparr> # walk_back s physical (k - 1) n (map (\<lambda>a. (a, held s (k - 1) a)) accs)"
    by (simp only: walk_back.simps Let_def filter_map map_map comp_def case_prod_beta fst_conv snd_conv
        is_liability_kind_def assets debts net undo)
  show ?case
  proof (cases i)
    case 0
    then show ?thesis unfolding 0 step by simp
  next
    case (Suc j)
    then have "k - 1 - int j = k - int i" "j < n" using Suc.prems by simp_all
    then show ?thesis using Suc.IH [of j "k - 1"] Suc by (simp only: step nth_Cons_Suc)
  qed
qed simp


lemma walk_back_length: "length (walk_back s physical k n bals) = n"
  by (induction n arbitrary: k bals) (simp_all add: Let_def)

lemma mset_by_name: "mset (by_name f xs) = mset xs"
  by (simp add: by_name_def)

lemma month_end_parts: "d_year (month_end k) = k div 12" "d_month (month_end k) = k mod 12 + 1"
  by (simp_all add: month_end_def)

lemma sum_signs_agree:
  fixes f g :: "'a \<Rightarrow> decimal"
  assumes "mset xs = mset ys" and "\<And>a. a \<in> set ys \<Longrightarrow> f a = g a"
  shows "(\<Sum>a \<leftarrow> filter P xs. f a) = (\<Sum>a \<leftarrow> filter P ys. g a)"
proof -
  have "(\<Sum>a \<leftarrow> filter P xs. f a) = (\<Sum>a \<leftarrow> filter P ys. f a)"
    by (rule sum_list_mset) (use assms(1) in simp)
  also have "\<dots> = (\<Sum>a \<leftarrow> filter P ys. g a)"
    using assms(2) by (intro arg_cong [where f = sum_list] map_cong) auto
  finally show ?thesis .
qed

lemma history_row:
  assumes "money_ok s" and "distinct (map acc_id (accounts s))"
    and "\<forall>a \<in> set (accounts s). acc_currency a = cur"
    and "\<forall>t \<in> set (transactions s). valid_date (tx_date t) \<and> month_index (tx_date t) \<le> month_index today"
    and "\<forall>p \<in> set (at_assets tb). cents (as_value p)"
    and "sum_list (map (\<lambda>p. \<bar>as_value p\<bar>) (at_assets tb)) + worth_bound s < 10 ^ 26"
  shows "nw_history (get_summary s rates tb months cur today) =
    rev (walk_back s (sum_list (map as_value (at_assets tb))) (month_index today) months
      (map (\<lambda>a. (a, held s (month_index today) a)) (by_name acc_name (accounts s))))"
proof -
  have ph: "mset (list_assets tb) = mset (at_assets tb)" by (simp add: list_assets_def mset_by_name)
  have v: "\<bar>sum_list (map as_value (at_assets tb))\<bar> \<le> sum_list (map (\<lambda>p. \<bar>as_value p\<bar>) (at_assets tb))"
    by (rule abs_sum_list_le)
  have "0 \<le> worth_bound s" unfolding worth_bound_def by (intro add_nonneg_nonneg sum_list_nonneg) auto
  then have "dec_sum 0 (map as_value (list_assets tb)) = 0 + sum_list (map as_value (list_assets tb))"
    using assms(5,6) sum_list_mset [OF ph, of "\<lambda>p. \<bar>as_value p\<bar>"] ph
    by (intro dec_sum_exact) (auto simp: comp_def dest: mset_eq_setD)
  then have physical: "dec_sum 0 (map as_value (list_assets tb)) = sum_list (map as_value (at_assets tb))"
    using sum_list_mset [OF ph, of as_value] by simp
  have start: "dec_mul (get_or_0 (balances s None None (acc_id a))) (history_rate r today cur (acc_currency a)) =
      held s (month_index today) a" if u: "a \<in> set (accounts s)" for a r
  proof -
    have "balances s None None (acc_id a) = balances s (Some [acc_id a]) None (acc_id a)"
      by (cases "get_account s (acc_id a)") (simp_all add: balances_def in_scope_def ledger_sums_def)
    then have "get_or_0 (balances s None None (acc_id a)) = held s (month_index today) a"
      using held_all [OF assms(1,2) u] assms(4) by (simp add: balance_def)
    moreover have small: "\<bar>held s (month_index today) a\<bar> < 10 ^ 26"
    proof -
      have "\<bar>held s (month_index today) a\<bar> \<le> (\<Sum>a \<leftarrow> accounts s. \<bar>held s (month_index today) a\<bar>)"
        using u by (intro member_le_sum_list) auto
      then show ?thesis using held_bounded [OF assms(2), of "month_index today"] assms(6) v by linarith
    qed
    ultimately show ?thesis
      using assms(3) u small ctx_cents [OF held_cents [OF assms(1) u, of "month_index today"]]
      by (simp add: dec_mul_def history_rate_def known_rate_def)
  qed
  have set: "set (by_name acc_name (accounts s)) = set (accounts s)" by (rule mset_eq_setD [OF mset_by_name])
  have rolled: "map (\<lambda>a. (a, dec_mul (get_or_0 (balances s None None (acc_id a))) (history_rate r today cur (acc_currency a))))
      (by_name acc_name (accounts s)) =
    map (\<lambda>a. (a, held s (month_index today) a)) (by_name acc_name (accounts s))" for r
    by (rule map_cong [OF refl]) (simp only: set start)
  show ?thesis
    unfolding get_summary_def monthly_history_def Let_def physical net_worth_summary.simps rolled by (rule refl)
qed

text \<open>
  C24. The net-worth history is the ledger, walked backwards. In one currency, with no row dated after the
  current month, the \<open>i\<close>-th entry from the end carries the year and month \<open>i\<close> months ago, and its figures are
  the physical assets plus the balances the non-credit accounts had at the end of that month, the balances
  of the credit accounts as debts, and their difference, to the cent, although the code only subtracts the
  deltas of one month after another in a 28-digit context.
\<close>

theorem net_worth_history_is_the_ledger:
  assumes "money_ok s" and "distinct (map acc_id (accounts s))"
    and "\<forall>a \<in> set (accounts s). acc_currency a = cur"
    and "\<forall>t \<in> set (transactions s). valid_date (tx_date t) \<and> month_index (tx_date t) \<le> month_index today"
    and "\<forall>p \<in> set (at_assets tb). cents (as_value p)"
    and "sum_list (map (\<lambda>p. \<bar>as_value p\<bar>) (at_assets tb)) + worth_bound s < 10 ^ 26"
    and "i < months" and "d = month_end (month_index today - int i)"
    and "own = sum_list (map as_value (at_assets tb)) +
      (\<Sum>a \<leftarrow> filter (\<lambda>a. acc_type a \<noteq> CREDIT) (accounts s). balance s (acc_id a) (Some d))"
    and "owed = - (\<Sum>a \<leftarrow> filter (\<lambda>a. acc_type a = CREDIT) (accounts s). balance s (acc_id a) (Some d))"
  shows "rev (nw_history (get_summary s rates tb months cur today)) ! i =
    \<lparr>mn_year = d_year d, mn_month = d_month d, mn_net_worth = own - owed, mn_assets = own, mn_liabilities = owed\<rparr>"
proof -
  let ?k = "month_index today - int i"
  let ?accs = "by_name acc_name (accounts s)"
  have held: "held s ?k a = balance s (acc_id a) (Some d)" if u: "a \<in> set (accounts s)" for a
    unfolding assms(8) using assms(4) by (intro held_is_balance [OF assms(1,2) u]) blast
  have sums: "(\<Sum>a \<leftarrow> filter P ?accs. held s ?k a) =
      (\<Sum>a \<leftarrow> filter P (accounts s). balance s (acc_id a) (Some d))" for P
    by (rule sum_signs_agree [OF mset_by_name held])
  have ph: "cents (sum_list (map as_value (at_assets tb)))" using assms(5) by (intro cents_sum_list) auto
  have b: "\<bar>sum_list (map as_value (at_assets tb))\<bar> + worth_bound s < 10 ^ 26"
    using abs_sum_list_le [of as_value "at_assets tb"] assms(6) by linarith
  have v: "\<forall>t \<in> set (transactions s). valid_date (tx_date t)" using assms(4) by blast
  show ?thesis
    unfolding history_row [OF assms(1-6)] rev_rev_ident walk_back_nth [OF assms(1,2) mset_by_name v ph b assms(7)]
    using month_end_parts [of ?k] by (simp add: sums assms(8-10))
qed


definition ex_house :: asset_table where
  "ex_house = \<lparr>at_assets = [\<lparr>as_id = 1, as_name = ''Flat'', as_type = REAL_ESTATE, as_value = 500000, as_description = [],
     as_purchase_date = None, as_purchase_price = None\<rparr>], seq_asset = 2\<rparr>"

definition ex_rates :: rate_tables where
  "ex_rates = \<lparr>rt_rates = [], seq_rate = 1, rt_nbp = []\<rparr>"

text \<open>Account 1 was opened with 100.00 and paid 12.00 in January; account 2 holds 2.50. In March nothing moved.\<close>

theorem net_worth_history_is_the_ledger_witness:
  "rev (nw_history (get_summary ex_db ex_rates ex_house 13 ''PLN'' (Date 2026 3 14))) ! 3 =
    \<lparr>mn_year = 2025, mn_month = 12, mn_net_worth = 1000205 / 2, mn_assets = 1000205 / 2, mn_liabilities = 0\<rparr>"
proof -
  have d: "Date 2025 12 31 = month_end (month_index (Date 2026 3 14) - int 3)"
    by (simp add: month_end_def month_index_def days_in_month_def)
  have assets: "\<forall>p \<in> set (at_assets ex_house). cents (as_value p)" by (simp add: ex_house_def)
  have small: "sum_list (map (\<lambda>p. \<bar>as_value p\<bar>) (at_assets ex_house)) + worth_bound ex_db < 10 ^ 26"
    by (simp add: ex_house_def worth_bound_def ex_defs)
  have rows: "\<forall>t \<in> set (transactions ex_db). valid_date (tx_date t) \<and>
      month_index (tx_date t) \<le> month_index (Date 2026 3 14)"
    by (simp add: ex_defs month_index_def valid_date_def days_in_month_def)
  have ids: "distinct (map acc_id (accounts ex_db))" by (simp add: ex_defs)
  have cur: "\<forall>a \<in> set (accounts ex_db). acc_currency a = ''PLN''" by (simp add: ex_defs)
  have get: "get_account ex_db 1 = Some (ex_account 1 100)" "get_account ex_db 2 = Some (ex_account 2 (5 / 2))"
    by (simp_all add: get_account_def ex_defs)
  have b: "balance ex_db 1 (Some (Date 2025 12 31)) = 100" "balance ex_db 2 (Some (Date 2025 12 31)) = 5 / 2"
    unfolding balance_eq [OF ex_db_ok(1) get(1)] balance_eq [OF ex_db_ok(1) get(2)]
    by (simp_all add: ledger_rows_def until_def ex_defs less_eq_date_def less_date_def)
  from net_worth_history_is_the_ledger [OF ex_db_ok(1) ids cur rows assets small _ d refl refl, of 13 ex_rates]
  show ?thesis using b by (simp add: ex_house_def ex_db_def ex_account_def empty_db_def)
qed

section \<open>Departures from the intention\<close>

text \<open>
  An account in another currency is converted once, at today's rate, and then rolled back by deltas in its
  own currency. With 100 EUR at 4.00, of which 60 EUR came in this month, last month shows 340 where the
  account held 40 EUR.
\<close>

definition ex_euro_db :: db where
  "ex_euro_db = empty_db\<lparr>accounts := [(ex_account 1 40)\<lparr>acc_currency := ''EUR''\<rparr>], seq_account := 2,
     transactions := [ex_tx 1 1 INCOME 60 (Date 2026 3 2)], seq_tx := 2\<rparr>"

definition ex_euro_rates :: rate_tables where
  "ex_euro_rates = \<lparr>rt_rates = [\<lparr>cr_id = 1, cr_date = Date 2026 1 1, cr_from = ''EUR'', cr_to = ''PLN'', cr_rate = 4\<rparr>],
     seq_rate = 2, rt_nbp = []\<rparr>"

lemma foreign_history_mixes_currencies:
  "balance ex_euro_db 1 (Some (Date 2026 2 28)) = 40 \<and>
   map mn_net_worth (nw_history (get_summary ex_euro_db ex_euro_rates \<lparr>at_assets = [], seq_asset = 1\<rparr> 2 ''PLN'' (Date 2026 3 14)))
     = [340, 400]"
  by code_simp

text \<open>
  A row dated after the current month is part of the balance the walk starts from and is never rolled back,
  so it shifts every month of the history.
\<close>

definition ex_future_db :: db where
  "ex_future_db = ex_db\<lparr>transactions := [ex_tx 1 1 INCOME 60 (Date 2026 5 2)]\<rparr>"

lemma future_rows_shift_the_history:
  "map mn_net_worth (nw_history (get_summary ex_future_db ex_rates \<lparr>at_assets = [], seq_asset = 1\<rparr> 2 ''PLN'' (Date 2026 3 14)))
     = [325 / 2, 325 / 2] \<and>
   balance ex_future_db 1 (Some (Date 2026 3 31)) + balance ex_future_db 2 (Some (Date 2026 3 31)) = 205 / 2"
  by code_simp

text \<open>
  The inverse of a large rate rounds to zero in the column. It is then found before the exact inverse of the
  direct rate, so an amount in the weak currency is worth nothing.
\<close>

definition no_rates :: rate_tables where
  "no_rates = \<lparr>rt_rates = [], seq_rate = 1, rt_nbp = []\<rparr>"

lemma tiny_inverse_is_stored_as_zero:
  "(case record_transfer_rate (Date 2026 1 1) ''BTC'' ''IRR'' 4000000 no_rates of
      (r, tb) \<Rightarrow> r = Inr () \<and> get_rate_on tb (Date 2026 1 2) ''IRR'' ''BTC'' = Some 0) \<and>
   (case create_with_inverse \<lparr>rc_date = Date 2026 1 1, rc_from = ''BTC'', rc_to = ''IRR'', rc_rate = 4000000\<rparr> False no_rates of
      (r, tb) \<Rightarrow> get_rate_on tb (Date 2026 1 2) ''IRR'' ''BTC'' = Some (1 / 4000000))"
proof -
  have c: "ctx (1 / 4000000) = 1 / 4000000"
    by (rule ctx_exact [of _ 8 25]) (simp_all add: pow10_def)
  have q: "quantize ROUND_HALF_UP 6 4000000 = 4000000" "quantize ROUND_HALF_UP 6 (1 / 4000000) = 0"
    by code_simp+
  show ?thesis
    by (simp add: record_transfer_rate_def create_with_inverse_def create_rate_def no_rates_def raise_if_def Let_def
        dec_div_def c get_rate_on_def family_rate_on_def nbp_rate_on_def nbp_currency_def PLN_def latest_on_def pair_rows_def
        newest_first_def first_row_def q less_eq_date_def less_date_def)
qed

end
