(* ===== verification/SecondFactor.thy ===== *)
theory SecondFactor
  imports Merchants
begin

text \<open>
  The second factor (\<open>src/src/kaleta/services/mfa_service.py\<close>): enrolment, one-time codes, recovery codes, turning
  it off. Every write is a conditional statement that the database carries out at once, while the row it was
  decided on was read earlier. Each operation is therefore given the row it has read, and separately the tables
  it finds when it writes; called with the current row it is the operation without interference.

  The code generator (\<open>pyotp\<close>), the password hash (\<open>argon2\<close>), the random draws and the check of the login
  password are arguments, the record \<open>mfa_world\<close>. The column \<open>recovery_codes_hash\<close>, written by \<open>json.dumps\<close>
  only, is the list it holds. Messages shown to the user and the QR code are left out.
\<close>

section \<open>Definitions\<close>

subsection \<open>State\<close>

datatype mfa_kind = MFA_KIND_TOTP | MFA_KIND_SUPABASE

record user_mfa =
  mf_id :: int
  mf_user_id :: int
  mf_kind :: mfa_kind
  mf_secret :: string
  mf_enabled_at :: "int option"
  mf_last_counter :: "int option"
  mf_codes :: "string list"

record member =
  mem_id :: int
  mem_name :: string
  mem_valid_from :: "int option"

record auth_event =
  ev_event :: string
  ev_username :: "string option"
  ev_success :: bool

record mfa_db =
  mfa_rows :: "user_mfa list"
  seq_mfa :: int
  members :: "member list"
  events :: "auth_event list"

text \<open>The clock counts microseconds. \<open>totp_at secret t\<close> is the code at second \<open>t\<close>.\<close>

record mfa_world =
  clock :: int
  totp_at :: "string \<Rightarrow> int \<Rightarrow> string"
  hash_verify :: "string \<Rightarrow> string \<Rightarrow> bool"
  new_secret :: string
  new_codes :: "string list"
  new_hashes :: "string list"
  login_password_matches :: "int \<Rightarrow> string \<Rightarrow> bool"

definition TOTP_INTERVAL :: int where
  "TOTP_INTERVAL = 30"

definition TOTP_DRIFT_STEPS :: int where
  "TOTP_DRIFT_STEPS = 1"

definition STEP_UP_WINDOW_MINUTES :: int where
  "STEP_UP_WINDOW_MINUTES = 10"

definition is_enabled_row :: "user_mfa \<Rightarrow> bool" where
  "is_enabled_row r \<longleftrightarrow> mf_enabled_at r \<noteq> None"

definition ascii_alnum :: "char \<Rightarrow> bool" where
  "ascii_alnum c = (let n = of_char c :: nat in is_digit c \<or> (65 \<le> n \<and> n \<le> 90) \<or> (97 \<le> n \<and> n \<le> 122))"

definition normalise_code :: "string \<Rightarrow> string" where
  "normalise_code code = filter ascii_alnum (map upper_char (strip code))"

subsection \<open>Reads\<close>

definition mfa_row :: "mfa_db \<Rightarrow> int \<Rightarrow> user_mfa option" where
  "mfa_row s u = find_row mf_user_id u (mfa_rows s)"

definition mfa_enabled :: "mfa_db \<Rightarrow> int \<Rightarrow> bool" where
  "mfa_enabled s u = (case mfa_row s u of None \<Rightarrow> False | Some r \<Rightarrow> is_enabled_row r)"

record mfa_status =
  st_enabled :: bool
  st_enabled_at :: "int option"
  st_recovery_codes_remaining :: nat

definition mfa_status_of :: "mfa_db \<Rightarrow> int \<Rightarrow> mfa_status" where
  "mfa_status_of s u =
    (case mfa_row s u of
       None \<Rightarrow> \<lparr>st_enabled = False, st_enabled_at = None, st_recovery_codes_remaining = 0\<rparr>
     | Some r \<Rightarrow> \<lparr>st_enabled = is_enabled_row r, st_enabled_at = mf_enabled_at r,
         st_recovery_codes_remaining = length (mf_codes r)\<rparr>)"

definition reenrolment_required :: "mfa_db \<Rightarrow> int \<Rightarrow> bool" where
  "reenrolment_required s u =
    (case mfa_row s u of None \<Rightarrow> False | Some r \<Rightarrow> mf_kind r = MFA_KIND_SUPABASE \<and> mf_enabled_at r = None)"

definition step_up_is_fresh :: "mfa_world \<Rightarrow> int option \<Rightarrow> bool" where
  "step_up_is_fresh w verified_at =
    (case verified_at of None \<Rightarrow> False | Some stamp \<Rightarrow> clock w - stamp \<le> STEP_UP_WINDOW_MINUTES * 60 * 1000000)"

definition step_up_required :: "mfa_world \<Rightarrow> mfa_db \<Rightarrow> int \<Rightarrow> int option \<Rightarrow> bool" where
  "step_up_required w s u verified_at \<longleftrightarrow> mfa_enabled s u \<and> \<not> step_up_is_fresh w verified_at"

subsection \<open>Conditional statements and the audit trail\<close>

text \<open>\<open>UPDATE ... WHERE\<close> and \<open>DELETE ... WHERE\<close> with \<open>_claimed\<close>: whether one row was hit.\<close>

definition update_where :: "(user_mfa \<Rightarrow> bool) \<Rightarrow> (user_mfa \<Rightarrow> user_mfa) \<Rightarrow> mfa_db \<Rightarrow> bool \<times> mfa_db" where
  "update_where P f s =
    (length (filter P (mfa_rows s)) = 1, s\<lparr>mfa_rows := map (\<lambda>r. if P r then f r else r) (mfa_rows s)\<rparr>)"

definition delete_where :: "(user_mfa \<Rightarrow> bool) \<Rightarrow> mfa_db \<Rightarrow> bool \<times> mfa_db" where
  "delete_where P s = (length (filter P (mfa_rows s)) = 1, s\<lparr>mfa_rows := filter (\<lambda>r. \<not> P r) (mfa_rows s)\<rparr>)"

definition record_event :: "int \<Rightarrow> string \<Rightarrow> bool \<Rightarrow> mfa_db \<Rightarrow> mfa_db" where
  "record_event u event success s =
    s\<lparr>events := events s @ [\<lparr>ev_event = event, ev_username = map_option mem_name (find_row mem_id u (members s)),
      ev_success = success\<rparr>]\<rparr>"

definition audit_failure :: "int \<Rightarrow> string \<Rightarrow> mfa_db \<Rightarrow> mfa_db" where
  "audit_failure u event s = record_event u event False s"

definition revoke_sessions :: "mfa_world \<Rightarrow> int \<Rightarrow> mfa_db \<Rightarrow> mfa_db" where
  "revoke_sessions w u s = s\<lparr>members := upd_row mem_id u (\<lambda>m. m\<lparr>mem_valid_from := Some (clock w)\<rparr>) (members s)\<rparr>"

subsection \<open>Codes\<close>

definition matching_counter :: "mfa_world \<Rightarrow> user_mfa \<Rightarrow> string \<Rightarrow> int option" where
  "matching_counter w r code =
    (let candidate = normalise_code code; now = clock w div 1000000
     in if mf_kind r \<noteq> MFA_KIND_TOTP \<or> candidate = [] \<or> \<not> list_all is_digit candidate then None
        else map_option (\<lambda>t. t div TOTP_INTERVAL)
          (find (\<lambda>t. \<not> (case mf_last_counter r of None \<Rightarrow> False | Some used \<Rightarrow> t div TOTP_INTERVAL \<le> used) \<and>
                totp_at w (mf_secret r) t = candidate)
            (map (\<lambda>n. now + n * TOTP_INTERVAL) [- TOTP_DRIFT_STEPS .. TOTP_DRIFT_STEPS])))"

fun match_recovery_hash :: "mfa_world \<Rightarrow> string list \<Rightarrow> string \<Rightarrow> nat option" where
  "match_recovery_hash w [] candidate = None"
| "match_recovery_hash w (h # hs) candidate =
    (if hash_verify w h candidate then Some 0 else map_option Suc (match_recovery_hash w hs candidate))"

definition find_recovery_code :: "mfa_world \<Rightarrow> user_mfa \<Rightarrow> string \<Rightarrow> nat option" where
  "find_recovery_code w r code =
    (let candidate = normalise_code code
     in if candidate = [] then None else match_recovery_hash w (mf_codes r) candidate)"

definition claim_counter :: "user_mfa \<Rightarrow> int \<Rightarrow> mfa_db \<Rightarrow> bool \<times> mfa_db" where
  "claim_counter r counter s =
    update_where (\<lambda>q. mf_id q = mf_id r \<and>
        (case mf_last_counter q of None \<Rightarrow> True | Some used \<Rightarrow> used < counter))
      (\<lambda>q. q\<lparr>mf_last_counter := Some counter\<rparr>) s"

definition drop_nth :: "nat \<Rightarrow> 'a list \<Rightarrow> 'a list" where
  "drop_nth i xs = take i xs @ drop (Suc i) xs"

definition remove_recovery_code :: "user_mfa \<Rightarrow> nat \<Rightarrow> mfa_db \<Rightarrow> bool \<times> mfa_db" where
  "remove_recovery_code r i s =
    (if length (mf_codes r) \<le> i then (False, s)
     else update_where (\<lambda>q. mf_id q = mf_id r \<and> mf_codes q = mf_codes r)
       (\<lambda>q. q\<lparr>mf_codes := drop_nth i (mf_codes r)\<rparr>) s)"

definition spend_recovery_code :: "mfa_world \<Rightarrow> user_mfa \<Rightarrow> string \<Rightarrow> mfa_db \<Rightarrow> bool \<times> mfa_db" where
  "spend_recovery_code w r code s =
    (case find_recovery_code w r code of None \<Rightarrow> (False, s) | Some i \<Rightarrow> remove_recovery_code r i s)"

subsection \<open>Enrolment\<close>

definition ALREADY_ENABLED :: error where
  "ALREADY_ENABLED = ConflictError ''already enabled''"

definition NOT_ENABLED :: error where
  "NOT_ENABLED = ConflictError ''not enabled''"

text \<open>The foreign key of the insert holds, since the member is looked up first.\<close>

definition begin_enrolment_with :: "mfa_world \<Rightarrow> user_mfa option \<Rightarrow> int \<Rightarrow> mfa_db \<Rightarrow> string result \<times> mfa_db" where
  "begin_enrolment_with w existing u s =
    (if find_row mem_id u (members s) = None then (Inl (NotFoundError ''errors.mfa.user_not_found''), s)
     else case existing of
       None \<Rightarrow>
         if u \<in> mf_user_id ` set (mfa_rows s) then (Inl ALREADY_ENABLED, s)
         else (Inr (new_secret w), s\<lparr>mfa_rows := mfa_rows s @ [\<lparr>mf_id = seq_mfa s, mf_user_id = u,
           mf_kind = MFA_KIND_TOTP, mf_secret = new_secret w, mf_enabled_at = None, mf_last_counter = None,
           mf_codes = []\<rparr>], seq_mfa := seq_mfa s + 1\<rparr>)
     | Some r \<Rightarrow>
         if is_enabled_row r then (Inl ALREADY_ENABLED, s)
         else (case update_where (\<lambda>q. mf_id q = mf_id r \<and> mf_enabled_at q = None)
             (\<lambda>q. q\<lparr>mf_secret := new_secret w, mf_last_counter := None, mf_codes := []\<rparr>) s of
           (claimed, s') \<Rightarrow> (if claimed then (Inr (new_secret w), s') else (Inl ALREADY_ENABLED, s))))"

definition abandon_enrolment :: "int \<Rightarrow> mfa_db \<Rightarrow> bool \<times> mfa_db" where
  "abandon_enrolment u s = delete_where (\<lambda>q. mf_user_id q = u \<and> mf_enabled_at q = None) s"

definition confirm_enrolment_with ::
  "mfa_world \<Rightarrow> user_mfa option \<Rightarrow> int \<Rightarrow> string \<Rightarrow> mfa_db \<Rightarrow> string list result \<times> mfa_db" where
  "confirm_enrolment_with w row u code s =
    (case row of
       None \<Rightarrow> (Inl (ConflictError ''not started''), s)
     | Some r \<Rightarrow>
         if is_enabled_row r then (Inl ALREADY_ENABLED, s)
         else case matching_counter w r code of
           None \<Rightarrow> (Inl (ValidationError ''wrong code''), audit_failure u ''mfa_enrol_failure'' s)
         | Some counter \<Rightarrow>
             (case update_where (\<lambda>q. mf_id q = mf_id r \<and> mf_enabled_at q = None)
                 (\<lambda>q. q\<lparr>mf_enabled_at := Some (clock w), mf_last_counter := Some counter, mf_codes := new_hashes w\<rparr>) s of
               (claimed, s') \<Rightarrow>
                 (if claimed then (Inr (new_codes w), revoke_sessions w u (record_event u ''mfa_enabled'' True s'))
                  else (Inl ALREADY_ENABLED, s))))"

subsection \<open>Verification\<close>

definition verify_code_with :: "mfa_world \<Rightarrow> user_mfa option \<Rightarrow> int \<Rightarrow> string \<Rightarrow> mfa_db \<Rightarrow> bool \<times> mfa_db" where
  "verify_code_with w row u code s =
    (case row of
       None \<Rightarrow> (False, s)
     | Some r \<Rightarrow>
         if \<not> is_enabled_row r then (False, s)
         else case matching_counter w r code of
           None \<Rightarrow> (False, audit_failure u ''mfa_failure'' s)
         | Some counter \<Rightarrow>
             (case claim_counter r counter s of
                (True, s') \<Rightarrow> (True, record_event u ''mfa_verified'' True s')
              | (False, s') \<Rightarrow> (False, audit_failure u ''mfa_failure'' s')))"

definition verify_challenge_with :: "mfa_world \<Rightarrow> user_mfa option \<Rightarrow> int \<Rightarrow> string \<Rightarrow> mfa_db \<Rightarrow> bool \<times> mfa_db" where
  "verify_challenge_with w row u code s =
    (case row of
       None \<Rightarrow> (False, s)
     | Some r \<Rightarrow>
         if \<not> is_enabled_row r then (False, s)
         else case (case matching_counter w r code of
             Some counter \<Rightarrow> claim_counter r counter s
           | None \<Rightarrow> spend_recovery_code w r code s) of
             (True, s') \<Rightarrow> (True, record_event u ''mfa_step_up'' True s')
           | (False, s') \<Rightarrow> (False, audit_failure u ''mfa_step_up_failure'' s'))"

definition consume_recovery_code_with :: "mfa_world \<Rightarrow> user_mfa option \<Rightarrow> int \<Rightarrow> string \<Rightarrow> mfa_db \<Rightarrow> bool \<times> mfa_db" where
  "consume_recovery_code_with w row u code s =
    (case row of
       None \<Rightarrow> (False, s)
     | Some r \<Rightarrow>
         if \<not> is_enabled_row r then (False, s)
         else case spend_recovery_code w r code s of
             (True, s') \<Rightarrow> (True, record_event u ''mfa_verified'' True s')
           | (False, s') \<Rightarrow> (False, audit_failure u ''mfa_failure'' s'))"

subsection \<open>Management\<close>

definition regenerate_recovery_codes_with ::
  "mfa_world \<Rightarrow> user_mfa option \<Rightarrow> int \<Rightarrow> int option \<Rightarrow> mfa_db \<Rightarrow> string list result \<times> mfa_db" where
  "regenerate_recovery_codes_with w row u verified_at s =
    (case row of
       None \<Rightarrow> (Inl (ValidationError ''errors.mfa.enable_before_recovery_codes''), s)
     | Some r \<Rightarrow>
         if \<not> is_enabled_row r then (Inl (ValidationError ''errors.mfa.enable_before_recovery_codes''), s)
         else if \<not> step_up_is_fresh w verified_at
         then (Inl (ValidationError ''errors.mfa.confirm_before_recovery_codes''), s)
         else (case update_where (\<lambda>q. mf_id q = mf_id r \<and> mf_codes q = mf_codes r)
             (\<lambda>q. q\<lparr>mf_codes := new_hashes w\<rparr>) s of
           (claimed, s') \<Rightarrow>
             (if claimed then (Inr (new_codes w), revoke_sessions w u (record_event u ''mfa_recovery_reissued'' True s'))
              else (Inl (ConflictError ''recovery codes changed''), s))))"

definition WRONG :: error where
  "WRONG = ValidationError ''password or code''"

definition remove_factor :: "mfa_world \<Rightarrow> user_mfa \<Rightarrow> int \<Rightarrow> mfa_db \<Rightarrow> unit result \<times> mfa_db" where
  "remove_factor w r u s =
    (case delete_where (\<lambda>q. mf_id q = mf_id r \<and> mf_enabled_at q \<noteq> None) s of
       (claimed, s') \<Rightarrow>
         (if claimed then (Inr (), revoke_sessions w u (record_event u ''mfa_disabled'' True s')) else (Inl NOT_ENABLED, s')))"

definition refuse_disable :: "int \<Rightarrow> mfa_db \<Rightarrow> unit result \<times> mfa_db" where
  "refuse_disable u s = (Inl WRONG, audit_failure u ''mfa_disable_failure'' s)"

definition disable_with :: "mfa_world \<Rightarrow> user_mfa option \<Rightarrow> int \<Rightarrow> string \<Rightarrow> string \<Rightarrow> mfa_db \<Rightarrow> unit result \<times> mfa_db" where
  "disable_with w row u password code s =
    (case row of
       None \<Rightarrow> (Inl NOT_ENABLED, s)
     | Some r \<Rightarrow>
         if \<not> is_enabled_row r then (Inl NOT_ENABLED, s)
         else if find_row mem_id u (members s) = None then (Inl (NotFoundError ''User not found''), s)
         else if \<not> login_password_matches w u password \<or> (matching_counter w r code = None \<and> find_recovery_code w r code = None)
         then refuse_disable u s
         else case (matching_counter w r code, find_recovery_code w r code) of
           (None, Some i) \<Rightarrow>
             (case remove_recovery_code r i s of (ok, s') \<Rightarrow> (if ok then remove_factor w r u s' else refuse_disable u s'))
         | _ \<Rightarrow> remove_factor w r u s)"

text \<open>The way back from a shell: nothing is proved, and every confirmed factor leaves an event.\<close>

definition disable_without_proof :: "mfa_world \<Rightarrow> int option \<Rightarrow> mfa_db \<Rightarrow> nat \<times> mfa_db" where
  "disable_without_proof w u s =
    (let hit = (\<lambda>q. case u of None \<Rightarrow> True | Some i \<Rightarrow> mf_user_id q = i);
         enabled = map mf_user_id (filter is_enabled_row (filter hit (mfa_rows s)));
         s1 = fold (revoke_sessions w) enabled s;
         s2 = s1\<lparr>mfa_rows := filter (\<lambda>q. \<not> hit q) (mfa_rows s1)\<rparr>
     in if filter hit (mfa_rows s) = [] then (0, s)
        else (length enabled, fold (\<lambda>i. record_event i ''mfa_disabled_cli'' True) enabled s2))"

definition disable_all :: "mfa_world \<Rightarrow> mfa_db \<Rightarrow> nat \<times> mfa_db" where
  "disable_all w s = disable_without_proof w None s"

definition disable_for_admin :: "mfa_world \<Rightarrow> int \<Rightarrow> mfa_db \<Rightarrow> bool \<times> mfa_db" where
  "disable_for_admin w u s = (case disable_without_proof w (Some u) s of (n, s') \<Rightarrow> (0 < n, s'))"

subsection \<open>The operations without interference\<close>

definition begin_enrolment :: "mfa_world \<Rightarrow> int \<Rightarrow> mfa_db \<Rightarrow> string result \<times> mfa_db" where
  "begin_enrolment w u s = begin_enrolment_with w (mfa_row s u) u s"

definition confirm_enrolment :: "mfa_world \<Rightarrow> int \<Rightarrow> string \<Rightarrow> mfa_db \<Rightarrow> string list result \<times> mfa_db" where
  "confirm_enrolment w u code s = confirm_enrolment_with w (mfa_row s u) u code s"

definition verify_code :: "mfa_world \<Rightarrow> int \<Rightarrow> string \<Rightarrow> mfa_db \<Rightarrow> bool \<times> mfa_db" where
  "verify_code w u code s = verify_code_with w (mfa_row s u) u code s"

definition verify_challenge :: "mfa_world \<Rightarrow> int \<Rightarrow> string \<Rightarrow> mfa_db \<Rightarrow> bool \<times> mfa_db" where
  "verify_challenge w u code s = verify_challenge_with w (mfa_row s u) u code s"

definition consume_recovery_code :: "mfa_world \<Rightarrow> int \<Rightarrow> string \<Rightarrow> mfa_db \<Rightarrow> bool \<times> mfa_db" where
  "consume_recovery_code w u code s = consume_recovery_code_with w (mfa_row s u) u code s"

definition regenerate_recovery_codes :: "mfa_world \<Rightarrow> int \<Rightarrow> int option \<Rightarrow> mfa_db \<Rightarrow> string list result \<times> mfa_db" where
  "regenerate_recovery_codes w u v s = regenerate_recovery_codes_with w (mfa_row s u) u v s"

definition disable :: "mfa_world \<Rightarrow> int \<Rightarrow> string \<Rightarrow> string \<Rightarrow> mfa_db \<Rightarrow> unit result \<times> mfa_db" where
  "disable w u password code s = disable_with w (mfa_row s u) u password code s"


section \<open>Concurrent requests\<close>

text \<open>
  Requests run at the same time and share the tables. Besides the tables the system keeps the rows that
  requests have read and may still act on, however stale, and what was accepted: time steps and recovery
  codes, each with the enrolment it was accepted for, and all hashes ever issued. A new salt makes every new
  hash different from those before.
\<close>

record mfa_sys =
  sys_db :: mfa_db
  sys_read :: "user_mfa list"
  sys_taken :: "(int \<times> int) list"
  sys_spent :: "(int \<times> string) list"
  sys_issued :: "string set"

definition fresh_hashes :: "mfa_world \<Rightarrow> mfa_sys \<Rightarrow> bool" where
  "fresh_hashes w y \<longleftrightarrow> distinct (new_hashes w) \<and> set (new_hashes w) \<inter> sys_issued y = {}"

text \<open>What a request that was answered yes has used up.\<close>

definition take_step :: "mfa_world \<Rightarrow> user_mfa \<Rightarrow> string \<Rightarrow> mfa_sys \<Rightarrow> mfa_sys" where
  "take_step w r code y =
    (case matching_counter w r code of None \<Rightarrow> y | Some c \<Rightarrow> y\<lparr>sys_taken := (mf_id r, c) # sys_taken y\<rparr>)"

definition cross_off :: "mfa_world \<Rightarrow> user_mfa \<Rightarrow> string \<Rightarrow> mfa_sys \<Rightarrow> mfa_sys" where
  "cross_off w r code y =
    (case find_recovery_code w r code of None \<Rightarrow> y
     | Some i \<Rightarrow> y\<lparr>sys_spent := (mf_id r, mf_codes r ! i) # sys_spent y\<rparr>)"

definition use_up :: "mfa_world \<Rightarrow> user_mfa \<Rightarrow> string \<Rightarrow> mfa_sys \<Rightarrow> mfa_sys" where
  "use_up w r code y = (if matching_counter w r code = None then cross_off w r code y else take_step w r code y)"

inductive mfa_step :: "mfa_sys \<Rightarrow> mfa_sys \<Rightarrow> bool" where
  read: "r \<in> set (mfa_rows (sys_db y)) \<Longrightarrow> mfa_step y (y\<lparr>sys_read := r # sys_read y\<rparr>)"
| begin_none: "begin_enrolment_with w None u (sys_db y) = (a, s) \<Longrightarrow> mfa_step y (y\<lparr>sys_db := s\<rparr>)"
| begin_some: "r \<in> set (sys_read y) \<Longrightarrow> begin_enrolment_with w (Some r) u (sys_db y) = (a, s) \<Longrightarrow>
    mfa_step y (y\<lparr>sys_db := s\<rparr>)"
| abandon: "abandon_enrolment u (sys_db y) = (a, s) \<Longrightarrow> mfa_step y (y\<lparr>sys_db := s\<rparr>)"
| confirm: "r \<in> set (sys_read y) \<Longrightarrow> fresh_hashes w y \<Longrightarrow>
    confirm_enrolment_with w (Some r) u code (sys_db y) = (Inr codes, s) \<Longrightarrow>
    mfa_step y (take_step w r code (y\<lparr>sys_db := s, sys_issued := set (new_hashes w) \<union> sys_issued y\<rparr>))"
| confirm_fails: "r \<in> set (sys_read y) \<Longrightarrow>
    confirm_enrolment_with w (Some r) u code (sys_db y) = (Inl e, s) \<Longrightarrow> mfa_step y (y\<lparr>sys_db := s\<rparr>)"
| verify: "r \<in> set (sys_read y) \<Longrightarrow> verify_code_with w (Some r) u code (sys_db y) = (ok, s) \<Longrightarrow>
    mfa_step y ((if ok then take_step w r code else id) (y\<lparr>sys_db := s\<rparr>))"
| challenge: "r \<in> set (sys_read y) \<Longrightarrow> verify_challenge_with w (Some r) u code (sys_db y) = (ok, s) \<Longrightarrow>
    mfa_step y ((if ok then use_up w r code else id) (y\<lparr>sys_db := s\<rparr>))"
| consume: "r \<in> set (sys_read y) \<Longrightarrow> consume_recovery_code_with w (Some r) u code (sys_db y) = (ok, s) \<Longrightarrow>
    mfa_step y ((if ok then cross_off w r code else id) (y\<lparr>sys_db := s\<rparr>))"
| reissue: "r \<in> set (sys_read y) \<Longrightarrow> fresh_hashes w y \<Longrightarrow>
    regenerate_recovery_codes_with w (Some r) u v (sys_db y) = (Inr codes, s) \<Longrightarrow>
    mfa_step y (y\<lparr>sys_db := s, sys_issued := set (new_hashes w) \<union> sys_issued y\<rparr>)"
| reissue_fails: "r \<in> set (sys_read y) \<Longrightarrow>
    regenerate_recovery_codes_with w (Some r) u v (sys_db y) = (Inl e, s) \<Longrightarrow> mfa_step y (y\<lparr>sys_db := s\<rparr>)"
| disable: "r \<in> set (sys_read y) \<Longrightarrow> disable_with w (Some r) u password code (sys_db y) = (a, s) \<Longrightarrow>
    mfa_step y ((if a \<noteq> Inl WRONG \<and> is_enabled_row r \<and> find_row mem_id u (members (sys_db y)) \<noteq> None \<and>
        matching_counter w r code = None then cross_off w r code else id) (y\<lparr>sys_db := s\<rparr>))"
| shell: "disable_without_proof w u (sys_db y) = (n, s) \<Longrightarrow> mfa_step y (y\<lparr>sys_db := s\<rparr>)"

definition mfa_start :: "member list \<Rightarrow> mfa_sys" where
  "mfa_start ms = \<lparr>sys_db = \<lparr>mfa_rows = [], seq_mfa = 1, members = ms, events = []\<rparr>,
     sys_read = [], sys_taken = [], sys_spent = [], sys_issued = {}\<rparr>"

inductive mfa_run :: "mfa_sys \<Rightarrow> bool" where
  start: "mfa_run (mfa_start ms)"
| step: "mfa_run y \<Longrightarrow> mfa_step y y' \<Longrightarrow> mfa_run y'"

section \<open>A code works once\<close>

text \<open>What holds of every row, given what was read, accepted and issued so far.\<close>

definition good_row :: "mfa_sys \<Rightarrow> user_mfa \<Rightarrow> bool" where
  "good_row y q \<longleftrightarrow>
    (\<forall>r \<in> set (sys_read y). mf_id r = mf_id q \<and> is_enabled_row r \<longrightarrow> is_enabled_row q) \<and>
    (\<forall>c. (mf_id q, c) \<in> set (sys_taken y) \<longrightarrow> is_enabled_row q \<and> (\<exists>l. mf_last_counter q = Some l \<and> c \<le> l)) \<and>
    distinct (mf_codes q) \<and> set (mf_codes q) \<subseteq> sys_issued y \<and>
    (\<forall>h \<in> set (mf_codes q). (mf_id q, h) \<notin> set (sys_spent y))"

text \<open>What holds of the records of the past.\<close>

definition good_past :: "mfa_sys \<Rightarrow> bool" where
  "good_past y \<longleftrightarrow>
    (\<forall>r \<in> set (sys_read y). mf_id r < seq_mfa (sys_db y)) \<and>
    (\<forall>i c. (i, c) \<in> set (sys_taken y) \<longrightarrow> i < seq_mfa (sys_db y)) \<and>
    (\<forall>i h. (i, h) \<in> set (sys_spent y) \<longrightarrow> h \<in> sys_issued y \<and> i < seq_mfa (sys_db y)) \<and>
    sorted_wrt (\<lambda>(i, c) (j, d). i = j \<longrightarrow> d < c) (sys_taken y) \<and> distinct (sys_spent y)"

definition sys_inv :: "mfa_sys \<Rightarrow> bool" where
  "sys_inv y \<longleftrightarrow> ids_ok mf_id (seq_mfa (sys_db y)) (mfa_rows (sys_db y)) \<and> good_past y \<and>
    (\<forall>q \<in> set (mfa_rows (sys_db y)). good_row y q)"

text \<open>An allowed change of one row: it stays enabled, its counter grows, its codes are old ones or fresh.\<close>

definition row_ok :: "string set \<Rightarrow> user_mfa \<Rightarrow> user_mfa \<Rightarrow> bool" where
  "row_ok fresh q q' \<longleftrightarrow> mf_id q' = mf_id q \<and>
    (is_enabled_row q \<longrightarrow> is_enabled_row q' \<and>
      (\<forall>l. mf_last_counter q = Some l \<longrightarrow> (\<exists>l'. mf_last_counter q' = Some l' \<and> l \<le> l'))) \<and>
    distinct (mf_codes q') \<and> set (mf_codes q') \<subseteq> set (mf_codes q) \<union> fresh"

lemma good_row_change:
  assumes "good_row y q" and "good_past y" and "row_ok fresh q q'" and "fresh \<inter> sys_issued y = {}"
  shows "good_row (y\<lparr>sys_db := s, sys_issued := fresh \<union> sys_issued y\<rparr>) q'"
proof -
  have past: "h \<in> sys_issued y" if u: "(i, h) \<in> set (sys_spent y)" for i h
    using assms(2) u unfolding good_past_def by blast
  have taken: "\<exists>l'. mf_last_counter q' = Some l' \<and> c \<le> l'" if u: "(mf_id q, c) \<in> set (sys_taken y)" for c
    using assms(1,3) u unfolding good_row_def row_ok_def by (meson order_trans)
  have "set (mf_codes q') \<subseteq> fresh \<union> sys_issued y"
    using assms(1,3) unfolding good_row_def row_ok_def by blast
  moreover have "(mf_id q', h) \<notin> set (sys_spent y)" if u: "h \<in> set (mf_codes q')" for h
  proof -
    have "h \<in> set (mf_codes q) \<or> h \<in> fresh" using assms(3) u unfolding row_ok_def by blast
    then show ?thesis using assms(1,3,4) past unfolding good_row_def row_ok_def by (metis disjoint_iff)
  qed
  ultimately show ?thesis
    using assms(1,3) taken by (auto simp: good_row_def row_ok_def)
qed

lemma inv_update:
  assumes inv: "sys_inv y" and fresh: "fresh \<inter> sys_issued y = {}"
    and rows: "mfa_rows s = map g (mfa_rows (sys_db y))" "seq_mfa s = seq_mfa (sys_db y)"
    and ok: "\<And>q. q \<in> set (mfa_rows (sys_db y)) \<Longrightarrow> row_ok fresh q (g q)"
  shows "sys_inv (y\<lparr>sys_db := s, sys_issued := fresh \<union> sys_issued y\<rparr>)"
proof -
  have "map mf_id (map g (mfa_rows (sys_db y))) = map mf_id (mfa_rows (sys_db y))"
    using ok by (simp add: row_ok_def)
  then have "ids_ok mf_id (seq_mfa s) (mfa_rows s)"
    using inv unfolding ids_ok_map sys_inv_def rows by metis
  moreover have "good_past (y\<lparr>sys_db := s, sys_issued := fresh \<union> sys_issued y\<rparr>)"
    using inv rows(2) unfolding sys_inv_def good_past_def by simp
  ultimately show ?thesis
    using inv good_row_change [OF _ _ ok fresh] rows unfolding sys_inv_def by auto
qed

lemma inv_shrink:
  assumes "sys_inv y" and "mfa_rows s = filter P (mfa_rows (sys_db y))" and "seq_mfa s = seq_mfa (sys_db y)"
  shows "sys_inv (y\<lparr>sys_db := s\<rparr>)"
  using assms unfolding sys_inv_def good_past_def good_row_def ids_ok_def
  by (simp add: distinct_map_filter)

lemma inv_same:
  assumes "sys_inv y" and "mfa_rows s = mfa_rows (sys_db y)" and "seq_mfa s = seq_mfa (sys_db y)"
  shows "sys_inv (y\<lparr>sys_db := s\<rparr>)"
  using inv_shrink [OF assms(1), of s "\<lambda>_. True"] assms(2,3) by simp

lemma inv_insert:
  assumes inv: "sys_inv y" and rows: "mfa_rows s = mfa_rows (sys_db y) @ [q]" "seq_mfa s = seq_mfa (sys_db y) + 1"
    and q: "mf_id q = seq_mfa (sys_db y)" "mf_codes q = []"
  shows "sys_inv (y\<lparr>sys_db := s\<rparr>)"
proof -
  have past: "good_past y" using inv by (simp add: sys_inv_def)
  have "good_row (y\<lparr>sys_db := s\<rparr>) q"
    using past q unfolding good_row_def good_past_def by (auto simp: less_le)
  moreover have "ids_ok mf_id (seq_mfa s) (mfa_rows s)"
    unfolding rows using inv q(1) by (intro ids_ok_insert) (simp_all add: sys_inv_def)
  moreover have "good_past (y\<lparr>sys_db := s\<rparr>)"
    using past rows(2) unfolding good_past_def by (simp; fastforce)
  ultimately show ?thesis
    using inv rows(1) unfolding sys_inv_def by (auto simp: good_row_def)
qed

text \<open>Accepting a time step that is above every one accepted before.\<close>

lemma inv_take:
  assumes "sys_inv y" and "i < seq_mfa (sys_db y)"
    and "\<And>q. q \<in> set (mfa_rows (sys_db y)) \<Longrightarrow> mf_id q = i \<Longrightarrow> is_enabled_row q \<and> mf_last_counter q = Some c"
    and "\<And>d. (i, d) \<in> set (sys_taken y) \<Longrightarrow> d < c"
  shows "sys_inv (y\<lparr>sys_taken := (i, c) # sys_taken y\<rparr>)"
  using assms unfolding sys_inv_def good_past_def good_row_def by auto

lemma inv_spend:
  assumes "sys_inv y" and "i < seq_mfa (sys_db y)" and "h \<in> sys_issued y" and "(i, h) \<notin> set (sys_spent y)"
    and "\<And>q. q \<in> set (mfa_rows (sys_db y)) \<Longrightarrow> mf_id q = i \<Longrightarrow> h \<notin> set (mf_codes q)"
  shows "sys_inv (y\<lparr>sys_spent := (i, h) # sys_spent y\<rparr>)"
  using assms unfolding sys_inv_def good_past_def good_row_def by auto


lemma update_where_rows:
  assumes "update_where P f s = (ok, s')"
  shows "mfa_rows s' = map (\<lambda>q. if P q then f q else q) (mfa_rows s)" "seq_mfa s' = seq_mfa s"
    and "ok \<Longrightarrow> \<exists>q \<in> set (mfa_rows s). P q"
proof -
  show "mfa_rows s' = map (\<lambda>q. if P q then f q else q) (mfa_rows s)" "seq_mfa s' = seq_mfa s"
    using assms by (auto simp: update_where_def)
  show "\<exists>q \<in> set (mfa_rows s). P q" if u: ok
  proof -
    have "length (filter P (mfa_rows s)) = 1" using assms u by (simp add: update_where_def)
    then have "filter P (mfa_rows s) \<noteq> []" by auto
    then show ?thesis by (auto simp: filter_empty_conv)
  qed
qed

lemma side_effects [simp]:
  "mfa_rows (record_event u e b s) = mfa_rows s" "seq_mfa (record_event u e b s) = seq_mfa s"
  "mfa_rows (audit_failure u e s) = mfa_rows s" "seq_mfa (audit_failure u e s) = seq_mfa s"
  "mfa_rows (revoke_sessions w u s) = mfa_rows s" "seq_mfa (revoke_sessions w u s) = seq_mfa s"
  by (simp_all add: record_event_def audit_failure_def revoke_sessions_def)

lemma row_ok_refl: "distinct (mf_codes q) \<Longrightarrow> row_ok fresh q q"
  by (simp add: row_ok_def)

lemma inv_rows:
  assumes "sys_inv y" and "q \<in> set (mfa_rows (sys_db y))"
  shows "good_row y q" "distinct (mf_codes q)"
  using assms by (auto simp: sys_inv_def good_row_def)

lemma inv_one_row:
  assumes "sys_inv y" and "q \<in> set (mfa_rows (sys_db y))" and "q' \<in> set (mfa_rows (sys_db y))" and "mf_id q = mf_id q'"
  shows "q = q'"
  using assms by (auto simp: sys_inv_def ids_ok_def dest: inj_onD [OF distinct_map [THEN iffD1, THEN conjunct2]])

text \<open>A conditional update with allowed changes keeps the invariant.\<close>

lemma inv_update_where:
  assumes "sys_inv y" and "update_where P f (sys_db y) = (ok, s')" and "fresh \<inter> sys_issued y = {}"
    and "mfa_rows s = mfa_rows s'" and "seq_mfa s = seq_mfa s'"
    and "\<And>q. q \<in> set (mfa_rows (sys_db y)) \<Longrightarrow> P q \<Longrightarrow> row_ok fresh q (f q)"
  shows "sys_inv (y\<lparr>sys_db := s, sys_issued := fresh \<union> sys_issued y\<rparr>)"
  by (rule inv_update [OF assms(1,3), where g = "\<lambda>q. if P q then f q else q"])
    (use update_where_rows(1,2) [OF assms(2)] assms(4-6) inv_rows(2) [OF assms(1)] row_ok_refl in auto)

lemmas inv_update_old = inv_update_where [where fresh = "{}", simplified]

text \<open>A time step is claimed: the row is enabled, and its counter was behind.\<close>

lemma inv_claim:
  assumes inv: "sys_inv y" and r: "r \<in> set (sys_read y)" "is_enabled_row r"
    and claim: "claim_counter r c (sys_db y) = (ok, s')"
    and s: "mfa_rows s = mfa_rows s'" "seq_mfa s = seq_mfa s'"
  shows "sys_inv (y\<lparr>sys_db := s\<rparr>)" "ok \<Longrightarrow> sys_inv (y\<lparr>sys_db := s, sys_taken := (mf_id r, c) # sys_taken y\<rparr>)"
proof -
  note claim = claim [unfolded claim_counter_def]
  let ?P = "\<lambda>q. mf_id q = mf_id r \<and> (case mf_last_counter q of None \<Rightarrow> True | Some used \<Rightarrow> used < c)"
  show a: "sys_inv (y\<lparr>sys_db := s\<rparr>)"
    by (rule inv_update_old [OF inv claim s])
      (use inv_rows(2) [OF inv] in \<open>auto simp: row_ok_def is_enabled_row_def\<close>)
  assume ok
  then obtain q where q: "q \<in> set (mfa_rows (sys_db y))" "?P q" using update_where_rows(3) [OF claim] by blast
  have "is_enabled_row q" using inv_rows(1) [OF inv q(1)] r q(2) by (auto simp: good_row_def)
  moreover have "p = q" if u: "p \<in> set (mfa_rows (sys_db y))" "mf_id p = mf_id r" for p
    using inv_one_row [OF inv u(1) q(1)] u(2) q(2) by simp
  ultimately have only: "is_enabled_row p \<and> mf_last_counter p = Some c" if u: "p \<in> set (mfa_rows s)" "mf_id p = mf_id r" for p
    using u q(2) unfolding s update_where_rows(1) [OF claim] by (auto simp: is_enabled_row_def split: if_splits)
  have "mf_id r < seq_mfa s"
    using inv r(1) s(2) update_where_rows(2) [OF claim] by (simp add: sys_inv_def good_past_def)
  moreover have "d < c" if u: "(mf_id r, d) \<in> set (sys_taken y)" for d
    using inv_rows(1) [OF inv q(1)] u q(2) unfolding good_row_def by (auto split: option.splits)
  ultimately show "sys_inv (y\<lparr>sys_db := s, sys_taken := (mf_id r, c) # sys_taken y\<rparr>)"
    using inv_take [OF a, of "mf_id r" c] only by simp
qed

text \<open>A recovery code is crossed off: the list was still the one that was read.\<close>

lemma set_drop_nth: "distinct xs \<Longrightarrow> i < length xs \<Longrightarrow> set (drop_nth i xs) = set xs - {xs ! i} \<and> distinct (drop_nth i xs)"
proof -
  assume a: "distinct xs" "i < length xs"
  have "xs = take i xs @ xs ! i # drop (Suc i) xs" using a(2) by (simp add: id_take_nth_drop)
  then have "distinct (take i xs @ xs ! i # drop (Suc i) xs)" "set xs = set (take i xs @ xs ! i # drop (Suc i) xs)"
    using a(1) by metis+
  then show ?thesis unfolding drop_nth_def by auto
qed

lemma inv_remove:
  assumes inv: "sys_inv y" and r: "r \<in> set (sys_read y)"
    and remove: "remove_recovery_code r i (sys_db y) = (ok, s')"
    and s: "mfa_rows s = mfa_rows s'" "seq_mfa s = seq_mfa s'"
  shows "sys_inv (y\<lparr>sys_db := s\<rparr>)"
    "ok \<Longrightarrow> sys_inv (y\<lparr>sys_db := s, sys_spent := (mf_id r, mf_codes r ! i) # sys_spent y\<rparr>)"
proof -
  let ?P = "\<lambda>q. mf_id q = mf_id r \<and> mf_codes q = mf_codes r"
  have a: "sys_inv (y\<lparr>sys_db := s\<rparr>) \<and>
    (ok \<longrightarrow> sys_inv (y\<lparr>sys_db := s, sys_spent := (mf_id r, mf_codes r ! i) # sys_spent y\<rparr>))"
  proof (cases "length (mf_codes r) \<le> i")
    case True
    then show ?thesis using remove inv_same [OF inv, of s] s by (simp add: remove_recovery_code_def)
  next
    case False
    then have i: "i < length (mf_codes r)" by simp
    have upd: "update_where ?P (\<lambda>q. q\<lparr>mf_codes := drop_nth i (mf_codes r)\<rparr>) (sys_db y) = (ok, s')"
      using remove i by (simp add: remove_recovery_code_def)
    have keep: "row_ok {} q (q\<lparr>mf_codes := drop_nth i (mf_codes r)\<rparr>)"
      if u: "q \<in> set (mfa_rows (sys_db y))" "?P q" for q
      using set_drop_nth [of "mf_codes r" i] inv_rows(2) [OF inv u(1)] u(2) i
      by (auto simp: row_ok_def is_enabled_row_def)
    have a: "sys_inv (y\<lparr>sys_db := s\<rparr>)" by (rule inv_update_old [OF inv upd s keep])
    moreover have "sys_inv (y\<lparr>sys_db := s, sys_spent := (mf_id r, mf_codes r ! i) # sys_spent y\<rparr>)" if u: ok
    proof -
      obtain q where q: "q \<in> set (mfa_rows (sys_db y))" "?P q" using update_where_rows(3) [OF upd] u by blast
      have h: "mf_codes r ! i \<in> set (mf_codes q)" using q(2) i by simp
      have "mf_codes r ! i \<in> sys_issued y" "(mf_id r, mf_codes r ! i) \<notin> set (sys_spent y)"
        using inv_rows(1) [OF inv q(1)] h q(2) unfolding good_row_def by auto
      moreover have "mf_codes r ! i \<notin> set (mf_codes p)" if v: "p \<in> set (mfa_rows s)" "mf_id p = mf_id r" for p
      proof -
        let ?g = "\<lambda>q. if ?P q then q\<lparr>mf_codes := drop_nth i (mf_codes r)\<rparr> else q"
        obtain p0 where p0: "p0 \<in> set (mfa_rows (sys_db y))" "p = ?g p0"
          using v(1) unfolding s update_where_rows(1) [OF upd] set_map by blast
        then have "mf_id p0 = mf_id q" using v(2) q(2) by (simp split: if_splits)
        then have "p0 = q" by (rule inv_one_row [OF inv p0(1) q(1)])
        then have "mf_codes p = drop_nth i (mf_codes r)" using p0(2) q(2) by simp
        then show ?thesis using set_drop_nth [of "mf_codes r" i] inv_rows(2) [OF inv q(1)] q(2) i by simp
      qed
      moreover have "mf_id r < seq_mfa s"
        using inv r s(2) update_where_rows(2) [OF upd] by (simp add: sys_inv_def good_past_def)
      ultimately show ?thesis using inv_spend [OF a, of "mf_id r" "mf_codes r ! i"] by simp
    qed
    ultimately show ?thesis by blast
  qed
  then show "sys_inv (y\<lparr>sys_db := s\<rparr>)"
    "ok \<Longrightarrow> sys_inv (y\<lparr>sys_db := s, sys_spent := (mf_id r, mf_codes r ! i) # sys_spent y\<rparr>)" by blast+
qed


lemma inv_spend_code:
  assumes "sys_inv y" and "r \<in> set (sys_read y)"
    and "spend_recovery_code w r code (sys_db y) = (ok, s')"
    and "mfa_rows s = mfa_rows s'" "seq_mfa s = seq_mfa s'"
  shows "sys_inv (y\<lparr>sys_db := s\<rparr>)" "ok \<Longrightarrow> sys_inv (cross_off w r code (y\<lparr>sys_db := s\<rparr>))"
proof -
  have "sys_inv (y\<lparr>sys_db := s\<rparr>) \<and> (ok \<longrightarrow> sys_inv (cross_off w r code (y\<lparr>sys_db := s\<rparr>)))"
  proof (cases "find_recovery_code w r code")
    case None
    then show ?thesis using assms(3-5) inv_same [OF assms(1), of s] by (simp add: spend_recovery_code_def)
  next
    case (Some i)
    then have "remove_recovery_code r i (sys_db y) = (ok, s')" using assms(3) by (simp add: spend_recovery_code_def)
    from inv_remove [OF assms(1,2) this assms(4,5)] Some show ?thesis by (simp add: cross_off_def)
  qed
  then show "sys_inv (y\<lparr>sys_db := s\<rparr>)" "ok \<Longrightarrow> sys_inv (cross_off w r code (y\<lparr>sys_db := s\<rparr>))" by blast+
qed

lemma inv_begin:
  assumes "sys_inv y" and "begin_enrolment_with w ex u (sys_db y) = (a, s)"
  shows "sys_inv (y\<lparr>sys_db := s\<rparr>)"
proof (cases "mfa_rows s = mfa_rows (sys_db y) \<and> seq_mfa s = seq_mfa (sys_db y)")
  case True
  then show ?thesis using inv_same [OF assms(1), of s] by simp
next
  case False
  show ?thesis
  proof (cases ex)
    case None
    show ?thesis
      by (rule inv_insert [OF assms(1)])
        (use assms(2) None False in \<open>auto simp: begin_enrolment_with_def split: if_splits\<close>)
  next
    case (Some r)
    let ?f = "\<lambda>q. q\<lparr>mf_secret := new_secret w, mf_last_counter := None, mf_codes := []\<rparr>"
    obtain ok s' where upd: "update_where (\<lambda>q. mf_id q = mf_id r \<and> mf_enabled_at q = None) ?f (sys_db y) = (ok, s')"
      by fastforce
    then have "s = s'" using assms(2) Some False by (auto simp: begin_enrolment_with_def split: if_splits)
    then show ?thesis
      by (intro inv_update_old [OF assms(1) upd]) (auto simp: row_ok_def is_enabled_row_def)
  qed
qed

lemma inv_confirm:
  assumes "sys_inv y" and "r \<in> set (sys_read y)" and "fresh_hashes w y"
    and "confirm_enrolment_with w (Some r) u code (sys_db y) = (Inr codes, s)"
  shows "sys_inv (take_step w r code (y\<lparr>sys_db := s, sys_issued := set (new_hashes w) \<union> sys_issued y\<rparr>))"
proof -
  let ?P = "\<lambda>q. mf_id q = mf_id r \<and> mf_enabled_at q = None"
  obtain c where c: "matching_counter w r code = Some c"
    using assms(4) by (auto simp: confirm_enrolment_with_def split: if_splits option.splits)
  let ?f = "\<lambda>q. q\<lparr>mf_enabled_at := Some (clock w), mf_last_counter := Some c, mf_codes := new_hashes w\<rparr>"
  obtain s' where upd: "update_where ?P ?f (sys_db y) = (True, s')"
      and s: "mfa_rows s = mfa_rows s'" "seq_mfa s = seq_mfa s'"
    using assms(4) c by (auto simp: confirm_enrolment_with_def split: if_splits prod.splits)
  let ?y = "y\<lparr>sys_db := s, sys_issued := set (new_hashes w) \<union> sys_issued y\<rparr>"
  have a: "sys_inv ?y"
    by (rule inv_update_where [OF assms(1) upd _ s])
      (use assms(3) in \<open>auto simp: fresh_hashes_def row_ok_def is_enabled_row_def\<close>)
  obtain q where q: "q \<in> set (mfa_rows (sys_db y))" "?P q" using update_where_rows(3) [OF upd] by blast
  have "is_enabled_row p \<and> mf_last_counter p = Some c" if u: "p \<in> set (mfa_rows s)" "mf_id p = mf_id r" for p
    using u inv_one_row [OF assms(1) _ q(1)] q(2) unfolding s update_where_rows(1) [OF upd]
    by (auto simp: is_enabled_row_def split: if_splits)
  moreover have "(mf_id r, d) \<notin> set (sys_taken y)" for d
    using inv_rows(1) [OF assms(1) q(1)] q(2) unfolding good_row_def is_enabled_row_def by auto
  moreover have "mf_id r < seq_mfa s"
    using assms(1,2) s(2) update_where_rows(2) [OF upd] by (simp add: sys_inv_def good_past_def)
  ultimately show ?thesis using inv_take [OF a, of "mf_id r" c] c by (simp add: take_step_def)
qed

lemma inv_reissue:
  assumes "sys_inv y" and "fresh_hashes w y"
    and "regenerate_recovery_codes_with w (Some r) u v (sys_db y) = (Inr codes, s)"
  shows "sys_inv (y\<lparr>sys_db := s, sys_issued := set (new_hashes w) \<union> sys_issued y\<rparr>)"
proof -
  obtain s' where upd: "update_where (\<lambda>q. mf_id q = mf_id r \<and> mf_codes q = mf_codes r)
        (\<lambda>q. q\<lparr>mf_codes := new_hashes w\<rparr>) (sys_db y) = (True, s')"
      and s: "mfa_rows s = mfa_rows s'" "seq_mfa s = seq_mfa s'"
    using assms(3) by (auto simp: regenerate_recovery_codes_with_def split: if_splits prod.splits)
  show ?thesis
    by (rule inv_update_where [OF assms(1) upd _ s])
      (use assms(2) in \<open>auto simp: fresh_hashes_def row_ok_def is_enabled_row_def\<close>)
qed

lemma failed_calls_write_nothing:
  "confirm_enrolment_with w (Some r) u code s = (Inl e, s') \<Longrightarrow> mfa_rows s' = mfa_rows s \<and> seq_mfa s' = seq_mfa s"
  "regenerate_recovery_codes_with w (Some r) u v s = (Inl e, s') \<Longrightarrow> mfa_rows s' = mfa_rows s \<and> seq_mfa s' = seq_mfa s"
  by (auto simp: confirm_enrolment_with_def regenerate_recovery_codes_with_def
      split: if_splits option.splits prod.splits)

lemma inv_verify:
  assumes "sys_inv y" and "r \<in> set (sys_read y)" and "verify_code_with w (Some r) u code (sys_db y) = (ok, s)"
  shows "sys_inv ((if ok then take_step w r code else id) (y\<lparr>sys_db := s\<rparr>))"
proof (cases "is_enabled_row r \<and> matching_counter w r code \<noteq> None")
  case True
  then obtain c where c: "matching_counter w r code = Some c" by blast
  obtain b s' where claim: "claim_counter r c (sys_db y) = (b, s')" by fastforce
  then have s: "mfa_rows s = mfa_rows s'" "seq_mfa s = seq_mfa s'" and b: "ok = b"
    using assms(3) True c by (auto simp: verify_code_with_def split: bool.splits)
  show ?thesis using inv_claim [OF assms(1,2) _ claim s] True c b by (simp add: take_step_def)
next
  case False
  then show ?thesis
    using inv_same [OF assms(1), of s] assms(3)
    by (auto simp: verify_code_with_def split: if_splits option.splits)
qed

lemma inv_challenge:
  assumes "sys_inv y" and "r \<in> set (sys_read y)" and "verify_challenge_with w (Some r) u code (sys_db y) = (ok, s)"
  shows "sys_inv ((if ok then use_up w r code else id) (y\<lparr>sys_db := s\<rparr>))"
proof (cases "is_enabled_row r")
  case True
  obtain b s' where call: "(case matching_counter w r code of Some c \<Rightarrow> claim_counter r c (sys_db y)
      | None \<Rightarrow> spend_recovery_code w r code (sys_db y)) = (b, s')" by fastforce
  then have s: "mfa_rows s = mfa_rows s'" "seq_mfa s = seq_mfa s'" and b: "ok = b"
    using assms(3) True by (auto simp: verify_challenge_with_def split: bool.splits)
  show ?thesis
  proof (cases "matching_counter w r code")
    case None
    then show ?thesis using inv_spend_code [OF assms(1,2) _ s, of w code] call b by (simp add: use_up_def)
  next
    case (Some c)
    then show ?thesis using inv_claim [OF assms(1,2) True _ s, of c] call b by (simp add: use_up_def take_step_def)
  qed
next
  case False
  then show ?thesis using inv_same [OF assms(1), of s] assms(3) by (auto simp: verify_challenge_with_def)
qed

lemma inv_consume:
  assumes "sys_inv y" and "r \<in> set (sys_read y)" and "consume_recovery_code_with w (Some r) u code (sys_db y) = (ok, s)"
  shows "sys_inv ((if ok then cross_off w r code else id) (y\<lparr>sys_db := s\<rparr>))"
proof (cases "is_enabled_row r")
  case True
  obtain b s' where call: "spend_recovery_code w r code (sys_db y) = (b, s')" by fastforce
  then have s: "mfa_rows s = mfa_rows s'" "seq_mfa s = seq_mfa s'" and b: "ok = b"
    using assms(3) True by (auto simp: consume_recovery_code_with_def split: bool.splits)
  show ?thesis using inv_spend_code [OF assms(1,2) call s] b by simp
next
  case False
  then show ?thesis using inv_same [OF assms(1), of s] assms(3) by (auto simp: consume_recovery_code_with_def)
qed


lemma remove_factor_facts:
  "mfa_rows (snd (remove_factor w r u s)) = filter (\<lambda>q. \<not> (mf_id q = mf_id r \<and> mf_enabled_at q \<noteq> None)) (mfa_rows s)"
  "seq_mfa (snd (remove_factor w r u s)) = seq_mfa s" "fst (remove_factor w r u s) \<noteq> Inl WRONG"
  by (auto simp: remove_factor_def delete_where_def NOT_ENABLED_def WRONG_def)

lemma inv_disable:
  assumes "sys_inv y" and "r \<in> set (sys_read y)" and "disable_with w (Some r) u password code (sys_db y) = (a, s)"
  shows "sys_inv ((if a \<noteq> Inl WRONG \<and> is_enabled_row r \<and> find_row mem_id u (members (sys_db y)) \<noteq> None \<and>
    matching_counter w r code = None then cross_off w r code else id) (y\<lparr>sys_db := s\<rparr>))"
proof -
  have cut: "sys_inv (z\<lparr>sys_db := snd (remove_factor w r u (sys_db z))\<rparr>)" if v: "sys_inv z" for z
    by (rule inv_shrink [OF v remove_factor_facts(1,2)])
  consider (early) "\<not> is_enabled_row r \<or> find_row mem_id u (members (sys_db y)) = None"
    | (wrong) "is_enabled_row r" "find_row mem_id u (members (sys_db y)) \<noteq> None"
        "\<not> login_password_matches w u password \<or> (matching_counter w r code = None \<and> find_recovery_code w r code = None)"
    | (totp) "is_enabled_row r" "find_row mem_id u (members (sys_db y)) \<noteq> None" "login_password_matches w u password"
        "matching_counter w r code \<noteq> None"
    | (code) "is_enabled_row r" "find_row mem_id u (members (sys_db y)) \<noteq> None" "login_password_matches w u password"
        "matching_counter w r code = None" "find_recovery_code w r code \<noteq> None"
    by blast
  then show ?thesis
  proof cases
    case early
    then have "s = sys_db y" using assms(3) by (auto simp: disable_with_def split: if_splits)
    then show ?thesis using early inv_same [OF assms(1), of s] by auto
  next
    case wrong
    then have "(a, s) = refuse_disable u (sys_db y)" using assms(3) by (auto simp: disable_with_def)
    then show ?thesis using inv_same [OF assms(1), of s] by (simp add: refuse_disable_def)
  next
    case totp
    then have "(a, s) = remove_factor w r u (sys_db y)" using assms(3) by (auto simp: disable_with_def)
    then have "s = snd (remove_factor w r u (sys_db y))" by (metis snd_conv)
    then show ?thesis using cut [OF assms(1)] totp(4) by auto
  next
    case code
    then obtain i where found: "find_recovery_code w r code = Some i" by blast
    obtain ok s' where remove: "remove_recovery_code r i (sys_db y) = (ok, s')" by fastforce
    note keeps = inv_remove [OF assms(1,2) remove]
    have call: "(a, s) = (if ok then remove_factor w r u s' else refuse_disable u s')"
      using assms(3) code found remove by (simp add: disable_with_def)
    show ?thesis
    proof (cases ok)
      case True
      have a: "a \<noteq> Inl WRONG" and "s = snd (remove_factor w r u s')"
        using call True remove_factor_facts(3) [of w r u s'] by (metis fst_conv, metis snd_conv)
      then have z: "sys_inv (y\<lparr>sys_spent := (mf_id r, mf_codes r ! i) # sys_spent y, sys_db := s\<rparr>)"
        using cut [OF keeps(2) [OF refl refl True]] by simp
      have "y\<lparr>sys_spent := x, sys_db := s\<rparr> = y\<lparr>sys_db := s, sys_spent := x\<rparr>" for x by simp
      note z [unfolded this]
      then show ?thesis using a code found by (simp add: cross_off_def)
    next
      case False
      then have "a = Inl WRONG" "mfa_rows s = mfa_rows s'" "seq_mfa s = seq_mfa s'"
        using call by (simp_all add: refuse_disable_def)
      then show ?thesis using keeps(1) by simp
    qed
  qed
qed

lemma fold_keeps:
  assumes "\<And>i s. P (f i s) = P s"
  shows "P (fold f is s) = P s"
  by (induction "is" arbitrary: s) (simp_all add: assms)

lemma inv_shell:
  assumes "sys_inv y" and "disable_without_proof w u (sys_db y) = (n, s)"
  shows "sys_inv (y\<lparr>sys_db := s\<rparr>)"
proof -
  have k: "mfa_rows (fold (revoke_sessions w) is t) = mfa_rows t" "seq_mfa (fold (revoke_sessions w) is t) = seq_mfa t"
    "mfa_rows (fold (\<lambda>i. record_event i e b) is t) = mfa_rows t" "seq_mfa (fold (\<lambda>i. record_event i e b) is t) = seq_mfa t"
    for "is" t e b by (rule fold_keeps, simp)+
  have "mfa_rows s = filter (\<lambda>q. \<not> (case u of None \<Rightarrow> True | Some i \<Rightarrow> mf_user_id q = i)) (mfa_rows (sys_db y)) \<and>
      seq_mfa s = seq_mfa (sys_db y)"
    using assms(2) by (auto simp: disable_without_proof_def Let_def k filter_empty_conv filter_id_conv split: if_splits)
  then show ?thesis using inv_shrink [OF assms(1)] by blast
qed

lemma step_keeps_inv: "mfa_step y y' \<Longrightarrow> sys_inv y \<Longrightarrow> sys_inv y'"
proof (induction rule: mfa_step.induct)
  case (read r y)
  then show ?case
    using inv_one_row [OF read(2)] by (auto simp: sys_inv_def good_past_def good_row_def ids_ok_def)
next
  case (abandon u y a s)
  then show ?case by (intro inv_shrink) (auto simp: abandon_enrolment_def delete_where_def)
next
  case (confirm_fails r y w u code e s)
  then show ?case using failed_calls_write_nothing(1) inv_same by metis
next
  case (reissue_fails r y w u v e s)
  then show ?case using failed_calls_write_nothing(2) inv_same by metis
qed (simp_all only: inv_begin inv_confirm inv_reissue inv_verify inv_challenge inv_consume inv_disable inv_shell)

lemma run_keeps_inv: "mfa_run y \<Longrightarrow> sys_inv y"
proof (induction rule: mfa_run.induct)
  case (start ms)
  then show ?case by (simp add: mfa_start_def sys_inv_def good_past_def ids_ok_def)
next
  case (step y y')
  then show ?case using step_keeps_inv by blast
qed



text \<open>A member enrols, confirms with the code of step 3, signs in with that of step 4 and tries it again from a stale row.\<close>

definition ex_world :: "int \<Rightarrow> mfa_world" where
  "ex_world seconds = \<lparr>clock = seconds * 1000000,
     totp_at = (\<lambda>secret t. if t div 30 = 3 then ''111333'' else if t div 30 = 4 then ''222444'' else ''000000''),
     hash_verify = (\<lambda>h c. h = CHR ''#'' # c), new_secret = ''SECRET'', new_codes = [''AAAAAAAAAA'', ''BBBBBBBBBB''],
     new_hashes = [''#AAAAAAAAAA'', ''#BBBBBBBBBB''], login_password_matches = (\<lambda>_ p. p = ''pw'')\<rparr>"

definition ex_pending :: user_mfa where
  "ex_pending = \<lparr>mf_id = 1, mf_user_id = 7, mf_kind = MFA_KIND_TOTP, mf_secret = ''SECRET'', mf_enabled_at = None,
     mf_last_counter = None, mf_codes = []\<rparr>"

definition ex_on :: "int \<Rightarrow> user_mfa" where
  "ex_on c = ex_pending\<lparr>mf_enabled_at := Some 90000000, mf_last_counter := Some c,
     mf_codes := [''#AAAAAAAAAA'', ''#BBBBBBBBBB'']\<rparr>"

definition ex_members :: "member list" where
  "ex_members = [\<lparr>mem_id = 7, mem_name = ''anna'', mem_valid_from = None\<rparr>]"

lemmas ex_mfa_defs = ex_world_def ex_pending_def ex_on_def ex_members_def


definition ex_system :: "user_mfa list \<Rightarrow> user_mfa list \<Rightarrow> (int \<times> int) list \<Rightarrow> (int \<times> string) list \<Rightarrow> auth_event list \<Rightarrow> int option \<Rightarrow> mfa_sys" where
  "ex_system rows read taken spent es v = \<lparr>sys_db = \<lparr>mfa_rows = rows, seq_mfa = 2,
     members = [\<lparr>mem_id = 7, mem_name = ''anna'', mem_valid_from = v\<rparr>], events = es\<rparr>,
     sys_read = read, sys_taken = taken, sys_spent = spent, sys_issued = {''#AAAAAAAAAA'', ''#BBBBBBBBBB''}\<rparr>"

definition ex_event :: "string \<Rightarrow> bool \<Rightarrow> auth_event" where
  "ex_event e b = \<lparr>ev_event = e, ev_username = Some ''anna'', ev_success = b\<rparr>"

lemma ex_counter: "matching_counter (ex_world 90) ex_pending ''111333'' = Some 3"
  "matching_counter (ex_world 120) (ex_on 3) ''222444'' = Some 4"
  by code_simp+

lemma ex_begun: "begin_enrolment_with (ex_world 60) None 7 (sys_db (mfa_start ex_members)) =
  (Inr ''SECRET'', \<lparr>mfa_rows = [ex_pending], seq_mfa = 2, members = ex_members, events = []\<rparr>)"
  by (simp add: begin_enrolment_with_def mfa_start_def ex_mfa_defs)

lemma ex_confirmed:
  "confirm_enrolment_with (ex_world 90) (Some ex_pending) 7 ''111333'' \<lparr>mfa_rows = [ex_pending], seq_mfa = 2,
     members = ex_members, events = []\<rparr> =
   (Inr [''AAAAAAAAAA'', ''BBBBBBBBBB''], sys_db (ex_system [ex_on 3] r tk sp [ex_event ''mfa_enabled'' True] (Some 90000000)))"
  unfolding confirm_enrolment_with_def option.case ex_counter
  by (simp add: is_enabled_row_def update_where_def revoke_sessions_def record_event_def ex_system_def
      ex_event_def ex_mfa_defs upd_row_def)

lemma ex_verified:
  "verify_code_with (ex_world 120) (Some (ex_on 3)) 7 ''222444'' (sys_db (ex_system [ex_on 3] r tk sp es v)) =
     (True, sys_db (ex_system [ex_on 4] r tk sp (es @ [ex_event ''mfa_verified'' True]) v))"
  "verify_code_with (ex_world 120) (Some (ex_on 3)) 7 ''222444'' (sys_db (ex_system [ex_on 4] r tk sp es v)) =
     (False, sys_db (ex_system [ex_on 4] r tk sp (es @ [ex_event ''mfa_failure'' False]) v))"
  unfolding verify_code_with_def option.case ex_counter
  by (simp_all add: is_enabled_row_def claim_counter_def update_where_def record_event_def audit_failure_def
      ex_system_def ex_event_def ex_mfa_defs)

text \<open>Enrolled with step 3, signed in with step 4; a second tab with the row read before is refused.\<close>

definition ex_end :: mfa_sys where
  "ex_end = ex_system [ex_on 4] [ex_on 3, ex_pending] [(1, 4), (1, 3)] []
     [ex_event ''mfa_enabled'' True, ex_event ''mfa_verified'' True, ex_event ''mfa_failure'' False] (Some 90000000)"

definition ex_started :: "user_mfa list \<Rightarrow> mfa_sys" where
  "ex_started read = \<lparr>sys_db = \<lparr>mfa_rows = [ex_pending], seq_mfa = 2, members = ex_members, events = []\<rparr>,
     sys_read = read, sys_taken = [], sys_spent = [], sys_issued = {}\<rparr>"

lemma ex_read: "mfa_run (ex_system rows rd tk sp es v) \<Longrightarrow> r \<in> set rows \<Longrightarrow> mfa_run (ex_system rows (r # rd) tk sp es v)"
  using mfa_run.step [OF _ read [of r "ex_system rows rd tk sp es v"]] by (simp add: ex_system_def)

lemma ex_run_confirmed: "mfa_run (ex_system [ex_on 3] [ex_pending] [(1, 3)] [] [ex_event ''mfa_enabled'' True] (Some 90000000))"
  (is "mfa_run ?z")
proof -
  have "mfa_step (mfa_start ex_members) (ex_started [])"
    using begin_none [OF ex_begun] by (simp add: mfa_start_def ex_started_def)
  then have "mfa_run (ex_started [])" by (rule mfa_run.step [OF start])
  then have run: "mfa_run (ex_started [ex_pending])"
    using mfa_run.step [OF _ read [of ex_pending "ex_started []"]] by (simp add: ex_started_def)
  have call: "confirm_enrolment_with (ex_world 90) (Some ex_pending) 7 ''111333'' (sys_db (ex_started [ex_pending])) =
      (Inr [''AAAAAAAAAA'', ''BBBBBBBBBB''], sys_db ?z)"
    by (simp add: ex_started_def ex_confirmed)
  have "mfa_step (ex_started [ex_pending]) (take_step (ex_world 90) ex_pending ''111333''
      (ex_started [ex_pending]\<lparr>sys_db := sys_db ?z,
        sys_issued := set (new_hashes (ex_world 90)) \<union> sys_issued (ex_started [ex_pending])\<rparr>))"
    by (rule confirm [OF _ _ call]) (simp_all add: ex_started_def fresh_hashes_def ex_world_def)
  also have "\<dots> = ?z"
    by (simp add: take_step_def ex_counter ex_started_def ex_system_def) (simp add: ex_world_def ex_pending_def)
  finally show ?thesis by (rule mfa_run.step [OF run])
qed

lemma ex_run: "mfa_run ex_end"
proof -
  let ?on = "\<lambda>c tk es. ex_system [ex_on c] [ex_on 3, ex_pending] tk [] es (Some 90000000)"
  let ?e = "[ex_event ''mfa_enabled'' True]"
  have run: "mfa_run (?on 3 [(1, 3)] ?e)" using ex_read [OF ex_run_confirmed] by simp
  have "mfa_step (?on 3 [(1, 3)] ?e) ((if True then take_step (ex_world 120) (ex_on 3) ''222444'' else id)
      (?on 3 [(1, 3)] ?e\<lparr>sys_db := sys_db (?on 4 [(1, 4), (1, 3)] (?e @ [ex_event ''mfa_verified'' True]))\<rparr>))"
    by (rule verify [where u = 7], simp add: ex_system_def)
      (use ex_verified(1) in \<open>simp add: ex_system_def\<close>)
  also have "\<dots> = ?on 4 [(1, 4), (1, 3)] (?e @ [ex_event ''mfa_verified'' True])"
    by (simp add: take_step_def ex_counter ex_system_def) (simp add: ex_on_def ex_pending_def)
  finally have run: "mfa_run (?on 4 [(1, 4), (1, 3)] (?e @ [ex_event ''mfa_verified'' True]))"
    by (rule mfa_run.step [OF run])
  have "mfa_step (?on 4 [(1, 4), (1, 3)] (?e @ [ex_event ''mfa_verified'' True]))
      ((if False then take_step (ex_world 120) (ex_on 3) ''222444'' else id)
        (?on 4 [(1, 4), (1, 3)] (?e @ [ex_event ''mfa_verified'' True])\<lparr>sys_db := sys_db ex_end\<rparr>))"
    by (rule verify [where u = 7], simp add: ex_system_def)
      (use ex_verified(2) in \<open>simp add: ex_system_def ex_end_def\<close>)
  also have "\<dots> = ex_end" by (simp add: ex_system_def ex_end_def)
  finally show ?thesis by (rule mfa_run.step [OF run])
qed



section \<open>Issued recovery codes\<close>

definition mfa_ok :: "mfa_db \<Rightarrow> bool" where
  "mfa_ok s \<longleftrightarrow> ids_ok mf_id (seq_mfa s) (mfa_rows s) \<and> distinct (map mf_user_id (mfa_rows s))"

lemma update_one:
  assumes "distinct (map mf_id (mfa_rows s))" and "r \<in> set (mfa_rows s)" and "P r"
    and "\<And>q. P q \<Longrightarrow> mf_id q = mf_id r"
  shows "update_where P f s = (True, s\<lparr>mfa_rows := upd_row mf_id (mf_id r) f (mfa_rows s)\<rparr>)"
proof -
  have one: "q = r" if u: "q \<in> set (mfa_rows s)" "P q" for q
    using assms(1,2) assms(4) [OF u(2)] u(1) by (auto simp: distinct_map dest: inj_onD)
  have "filter P rows = [r]" if u: "distinct rows" "r \<in> set rows" "\<And>q. q \<in> set rows \<Longrightarrow> P q \<Longrightarrow> q = r" for rows
    using u
  proof (induction rows)
    case (Cons x xs)
    show ?case
    proof (cases "x = r")
      case True
      have "\<not> P q" if v: "q \<in> set xs" for q
        using Cons.prems(1) Cons.prems(3) [OF list.set_intros(2) [OF v]] v True by (metis distinct.simps(2))
      then have "filter P xs = []" by (simp add: filter_empty_conv)
      then show ?thesis using True assms(3) by simp
    next
      case False
      have "\<not> P x" using Cons.prems(3) [OF list.set_intros(1)] False by blast
      moreover have "filter P xs = [r]"
        by (rule Cons.IH) (use Cons.prems(1,2) False in simp, use Cons.prems(2) False in simp,
            rule Cons.prems(3) [OF list.set_intros(2)])
      ultimately show ?thesis by simp
    qed
  qed simp
  from this [of "mfa_rows s"] have "filter P (mfa_rows s) = [r]" using one assms(1,2) by (simp add: distinct_map)
  moreover have "map (\<lambda>q. if P q then f q else q) (mfa_rows s) = upd_row mf_id (mf_id r) f (mfa_rows s)"
    unfolding upd_row_def
  proof (rule map_cong [OF refl])
    fix q assume q: "q \<in> set (mfa_rows s)"
    show "(if P q then f q else q) = (if mf_id q = mf_id r then f q else q)"
    proof (cases "mf_id q = mf_id r")
      case True
      have "inj_on mf_id (set (mfa_rows s))" using assms(1) by (simp add: distinct_map)
      then have "q = r" using True q assms(2) by (rule inj_onD)
      then show ?thesis using assms(3) by simp
    next
      case False
      then show ?thesis using assms(4) [of q] by auto
    qed
  qed
  ultimately show ?thesis by (simp add: update_where_def)
qed

lemma find_user_after:
  assumes "find_row mf_user_id u rows = Some r" and "distinct (map mf_id rows)" and "\<And>q. mf_user_id (f q) = mf_user_id q"
  shows "find_row mf_user_id u (upd_row mf_id (mf_id r) f rows) = Some (f r)"
  using assms(1,2)
proof (induction rows)
  case (Cons x xs)
  then show ?case
    by (auto simp: assms(3) dest!: find_row_Some_D split: if_splits)
qed simp

lemma match_recovery_hash_at:
  assumes "i < length hs" and "\<And>j. j < length hs \<Longrightarrow> hash_verify w (hs ! j) c \<longleftrightarrow> j = i"
  shows "match_recovery_hash w hs c = Some i"
  using assms
proof (induction hs arbitrary: i)
  case (Cons h hs)
  show ?case
  proof (cases i)
    case 0
    then show ?thesis using Cons.prems(2) [of 0] by simp
  next
    case (Suc k)
    have "match_recovery_hash w hs c = Some k"
      using Cons.prems(1) Cons.prems(2) [of "Suc j" for j] Suc by (intro Cons.IH) auto
    then show ?thesis using Cons.prems(2) [of 0] Suc by simp
  qed
qed simp

lemma match_recovery_hash_none: "\<forall>h \<in> set hs. \<not> hash_verify w h c \<Longrightarrow> match_recovery_hash w hs c = None"
  by (induction hs) auto


lemma distinct_upd_row_users:
  assumes "\<And>q. mf_id (f q) = mf_id q" and "\<And>q. mf_user_id (f q) = mf_user_id q" and "mfa_ok s"
    and "mfa_rows s' = upd_row mf_id i f (mfa_rows s)" and "seq_mfa s' = seq_mfa s"
  shows "mfa_ok s'"
  using assms(3) unfolding mfa_ok_def ids_ok_map assms(4,5)
  by (simp add: map_key_upd_row [where key = mf_id, OF assms(1)] upd_row_def comp_def assms(2) if_distrib [of mf_user_id]
      if_distrib [of mf_id] assms(1) cong: if_cong)

text \<open>Confirming writes the ten hashes into the member's row and switches it on.\<close>

lemma confirmed_row:
  assumes "mfa_ok s" and "confirm_enrolment w u code s = (Inr codes, s')"
  obtains r where "mfa_row s' u = Some r" and "is_enabled_row r" and "mf_codes r = new_hashes w" and "codes = new_codes w"
    and "mfa_ok s'"
proof -
  obtain r c where r: "mfa_row s u = Some r" "\<not> is_enabled_row r" "matching_counter w r code = Some c"
    using assms(2) by (auto simp: confirm_enrolment_def confirm_enrolment_with_def split: option.splits if_splits)
  let ?f = "\<lambda>q. q\<lparr>mf_enabled_at := Some (clock w), mf_last_counter := Some c, mf_codes := new_hashes w\<rparr>"
  have mem: "r \<in> set (mfa_rows s)" "mf_user_id r = u" using r(1) by (auto simp: mfa_row_def dest: find_row_Some_D)
  have ids: "distinct (map mf_id (mfa_rows s))" using assms(1) by (simp add: mfa_ok_def ids_ok_def)
  have "update_where (\<lambda>q. mf_id q = mf_id r \<and> mf_enabled_at q = None) ?f s =
      (True, s\<lparr>mfa_rows := upd_row mf_id (mf_id r) ?f (mfa_rows s)\<rparr>)"
    using r(2) by (intro update_one [OF ids mem(1)]) (auto simp: is_enabled_row_def)
  then have rows: "mfa_rows s' = upd_row mf_id (mf_id r) ?f (mfa_rows s)" "seq_mfa s' = seq_mfa s" "codes = new_codes w"
    using assms(2) r by (auto simp: confirm_enrolment_def confirm_enrolment_with_def)
  have "mfa_row s' u = Some (?f r)"
    using find_user_after [of u "mfa_rows s" r ?f] r(1) ids unfolding mfa_row_def rows by simp
  moreover have "mfa_ok s'" by (rule distinct_upd_row_users [OF _ _ assms(1) rows(1,2)]) simp_all
  ultimately show ?thesis using rows(3) by (intro that [of "?f r"]) (simp_all add: is_enabled_row_def)
qed

lemma consumed_row:
  assumes "mfa_ok s" and "mfa_row s u = Some r" and "is_enabled_row r"
    and "find_recovery_code w r code = Some i" and "i < length (mf_codes r)"
  obtains s' where "consume_recovery_code w u code s = (True, s')"
    and "mfa_row s' u = Some (r\<lparr>mf_codes := drop_nth i (mf_codes r)\<rparr>)"
proof -
  let ?f = "\<lambda>q. q\<lparr>mf_codes := drop_nth i (mf_codes r)\<rparr>"
  have mem: "r \<in> set (mfa_rows s)" using assms(2) by (auto simp: mfa_row_def dest: find_row_Some_D)
  have ids: "distinct (map mf_id (mfa_rows s))" using assms(1) by (simp add: mfa_ok_def ids_ok_def)
  have "update_where (\<lambda>q. mf_id q = mf_id r \<and> mf_codes q = mf_codes r) ?f s =
      (True, s\<lparr>mfa_rows := upd_row mf_id (mf_id r) ?f (mfa_rows s)\<rparr>)"
    by (rule update_one [OF ids mem]) auto
  then have "consume_recovery_code w u code s =
      (True, record_event u ''mfa_verified'' True (s\<lparr>mfa_rows := upd_row mf_id (mf_id r) ?f (mfa_rows s)\<rparr>))"
    using assms(2-5) by (simp add: consume_recovery_code_def consume_recovery_code_with_def spend_recovery_code_def
        remove_recovery_code_def)
  moreover have "find_row mf_user_id u (upd_row mf_id (mf_id r) ?f (mfa_rows s)) = Some (?f r)"
    using assms(2) ids by (intro find_user_after) (simp_all add: mfa_row_def)
  ultimately show ?thesis using that by (simp add: mfa_row_def)
qed

lemma nth_drop_nth:
  assumes "h \<in> set (drop_nth i xs)" and "i < length xs"
  obtains j where "j < length xs" and "j \<noteq> i" and "h = xs ! j"
proof -
  obtain k where "k < length (drop_nth i xs)" and h: "h = drop_nth i xs ! k"
    using assms(1) by (metis in_set_conv_nth)
  then have k: "k < length xs - 1" using assms(2) by (simp add: drop_nth_def)
  show ?thesis
  proof (rule that)
    show "(if k < i then k else Suc k) < length xs" "(if k < i then k else Suc k) \<noteq> i" using k assms(2) by auto
    show "h = xs ! (if k < i then k else Suc k)" using h k assms(2) by (auto simp: drop_nth_def nth_append)
  qed
qed

text \<open>
  C21. The recovery codes that confirming an enrolment hands out work, each exactly once. However the code is
  typed (with blanks, dashes, in lower case), entering it is accepted, leaves one code less, and entering it
  again is refused. The hash function has to verify a code against its own hash and no other.
\<close>

theorem issued_recovery_codes_work:
  assumes "mfa_ok s" and "confirm_enrolment w u code s = (Inr codes, s1)"
    and "length (new_hashes w) = length (new_codes w)"
    and "\<And>j. j < length codes \<Longrightarrow> hash_verify w' (new_hashes w ! j) (codes ! i) \<longleftrightarrow> j = i"
    and "i < length codes" and "normalise_code typed = codes ! i" and "codes ! i \<noteq> []"
  shows "case consume_recovery_code w' u typed s1 of (ok, s2) \<Rightarrow>
    ok \<and> st_recovery_codes_remaining (mfa_status_of s2 u) = length codes - 1 \<and> \<not> fst (consume_recovery_code w' u typed s2)"
proof -
  obtain r where r: "mfa_row s1 u = Some r" "is_enabled_row r" "mf_codes r = new_hashes w" "codes = new_codes w" "mfa_ok s1"
    by (rule confirmed_row [OF assms(1,2)])
  have len: "i < length (mf_codes r)" "length (mf_codes r) = length codes" using r(3,4) assms(3,5) by simp_all
  have v: "hash_verify w' (mf_codes r ! j) (codes ! i) \<longleftrightarrow> j = i" if u: "j < length (mf_codes r)" for j
    using assms(4) u len r(3) by simp
  have found: "find_recovery_code w' r typed = Some i"
    using match_recovery_hash_at [OF len(1), of w' "codes ! i"] v assms(6,7) by (simp add: find_recovery_code_def)
  obtain s2 where s2: "consume_recovery_code w' u typed s1 = (True, s2)"
      "mfa_row s2 u = Some (r\<lparr>mf_codes := drop_nth i (mf_codes r)\<rparr>)"
    by (rule consumed_row [OF r(5,1,2) found len(1)])
  have "\<not> hash_verify w' h (codes ! i)" if u: "h \<in> set (drop_nth i (mf_codes r))" for h
    by (rule nth_drop_nth [OF u len(1)]) (use v in auto)
  then have "find_recovery_code w' (r\<lparr>mf_codes := drop_nth i (mf_codes r)\<rparr>) typed = None"
    using match_recovery_hash_none [of "drop_nth i (mf_codes r)" w' "codes ! i"] assms(6) by (simp add: find_recovery_code_def Let_def)
  then have "\<not> fst (consume_recovery_code w' u typed s2)"
    using s2(2) by (simp add: consume_recovery_code_def consume_recovery_code_with_def spend_recovery_code_def)
  moreover have "length (drop_nth i (mf_codes r)) = length codes - 1" using len by (simp add: drop_nth_def)
  ultimately show ?thesis using s2 by (simp add: mfa_status_of_def)
qed

theorem issued_recovery_codes_work_witness:
  "fst (consume_recovery_code (ex_world 200) 7 '' bbbbb-bbbbb''
    (snd (confirm_enrolment (ex_world 90) 7 ''111333''
      \<lparr>mfa_rows = [ex_pending], seq_mfa = 2, members = ex_members, events = []\<rparr>)))"
proof -
  let ?s = "\<lparr>mfa_rows = [ex_pending], seq_mfa = 2, members = ex_members, events = []\<rparr>"
  have ok: "mfa_ok ?s" by (simp add: mfa_ok_def ids_ok_def ex_pending_def)
  have "mfa_row ?s 7 = Some ex_pending" by (simp add: mfa_row_def ex_pending_def)
  then have call: "confirm_enrolment (ex_world 90) 7 ''111333'' ?s = (Inr [''AAAAAAAAAA'', ''BBBBBBBBBB''],
      sys_db (ex_system [ex_on 3] [] [] [] [ex_event ''mfa_enabled'' True] (Some 90000000)))"
    unfolding confirm_enrolment_def by (simp add: ex_confirmed)
  have typed: "normalise_code '' bbbbb-bbbbb'' = ''BBBBBBBBBB''" by code_simp
  have own: "hash_verify (ex_world 200) (new_hashes (ex_world 90) ! j) ([''AAAAAAAAAA'', ''BBBBBBBBBB''] ! 1) \<longleftrightarrow> j = 1"
    if u: "j < 2" for j using u by (cases j) (simp_all add: ex_world_def less_Suc_eq)
  have ex_lengths: "length (new_hashes (ex_world 90)) = length (new_codes (ex_world 90))" by (simp add: ex_world_def)
  have "case consume_recovery_code (ex_world 200) 7 '' bbbbb-bbbbb'' (snd (confirm_enrolment (ex_world 90) 7 ''111333'' ?s)) of
      (ok, s2) \<Rightarrow> ok \<and> st_recovery_codes_remaining (mfa_status_of s2 7) = 2 - 1 \<and>
        \<not> fst (consume_recovery_code (ex_world 200) 7 '' bbbbb-bbbbb'' s2)"
    using issued_recovery_codes_work [OF ok call, of "ex_world 200" 1 "'' bbbbb-bbbbb''"] typed own
    unfolding call by (simp add: ex_lengths)
  then show ?thesis by (simp add: case_prod_beta)
qed


section \<open>Departures from the intention\<close>

text \<open>
  A confirmation only asks that the row is still unconfirmed, not that it still holds the secret the code was
  checked against. When the enrolment is restarted in another tab while the hashes of the recovery codes are
  computed, the factor is switched on with a secret that nobody has proved to hold.
\<close>

lemma confirmed_secret_can_be_unproved:
  "(case confirm_enrolment_with (ex_world 90) (Some ex_pending) 7 ''111333''
       \<lparr>mfa_rows = [ex_pending\<lparr>mf_secret := ''OTHER''\<rparr>], seq_mfa = 2, members = ex_members, events = []\<rparr> of
     (a, s) \<Rightarrow> a = Inr (new_codes (ex_world 90)) \<and> map mf_secret (mfa_rows s) = [''OTHER''] \<and>
       map is_enabled_row (mfa_rows s) = [True])"
  unfolding confirm_enrolment_with_def option.case ex_counter
  by (simp add: is_enabled_row_def update_where_def ex_pending_def)

text \<open>
  Turning the factor off judges the time step on the row it has read and does not claim it, so a code that
  another request has spent meanwhile still turns it off.
\<close>

lemma disable_accepts_a_spent_code:
  "fst (verify_code_with (ex_world 120) (Some (ex_on 3)) 7 ''222444'' (sys_db (ex_system [ex_on 3] r tk sp es v))) \<and>
   fst (disable_with (ex_world 120) (Some (ex_on 3)) 7 ''pw'' ''222444''
     (snd (verify_code_with (ex_world 120) (Some (ex_on 3)) 7 ''222444'' (sys_db (ex_system [ex_on 3] r tk sp es v))))) = Inr ()"
proof -
  have on: "is_enabled_row (ex_on 3)" by (simp add: is_enabled_row_def ex_on_def)
  have member: "find_row mem_id 7 (members (sys_db (ex_system [ex_on 4] r tk sp es' v))) \<noteq> None" for es'
    by (simp add: ex_system_def)
  have password: "login_password_matches (ex_world 120) 7 ''pw''" by (simp add: ex_world_def)
  have "fst (remove_factor (ex_world 120) (ex_on 3) 7 (sys_db (ex_system [ex_on 4] r tk sp es' v))) = Inr ()" for es'
    by (simp add: remove_factor_def delete_where_def ex_system_def ex_on_def ex_pending_def)
  then show ?thesis
    using on member password by (simp add: ex_verified disable_with_def ex_counter)
qed

text \<open>
  Restarting an enrolment over the marker that a hosted recovery leaves replaces the secret but not the kind of
  the row, and for that kind no code is ever right.
\<close>

lemma restarted_marker_never_confirms:
  assumes "find_row mem_id u (members s) \<noteq> None" and "mfa_rows s = [q]" and "mf_user_id q = u"
    and "mf_kind q = MFA_KIND_SUPABASE" and "mf_enabled_at q = None"
  shows "case begin_enrolment w u s of (a, s') \<Rightarrow>
    a = Inr (new_secret w) \<and> fst (confirm_enrolment w' u code s') = Inl (ValidationError ''wrong code'')"
  using assms
  by (auto simp: begin_enrolment_def begin_enrolment_with_def mfa_row_def is_enabled_row_def update_where_def
      confirm_enrolment_def confirm_enrolment_with_def matching_counter_def Let_def)

end
