(* ===== verification/Spec2Isabelle.thy ===== *)
theory Spec2Isabelle
  imports Accounts Payees Transactions Recurrence Planned Credit PersonalLoans ReserveFunds Categories Budgets
    Rules RateLimit Weeks Gifts IrregularItems Merchants Subscriptions
    EditDistance Dedupe TransferReview ImportLedger Csv ImportFormats LedgerExport
    BankStatements ImportRules ImportQueue NetWorth SecondFactor
begin

text \<open>
  Verification of Kaleta, a personal-finance application: the ledger and the services that write to it.

  \<^bold>\<open>The program.\<close> Kaleta keeps accounts, transactions, payees, categories, planned transactions,
  budgets, personal loans, credit cards and loans, and reserve funds in one relational database per
  household. The services under \<open>src/src/kaleta/services\<close> are the only code that reads and writes it;
  the views and the HTTP routes call them and hold no state of their own. Account balances are not
  stored: they are derived from an opening balance and the signed ledger, so every service that touches
  \<open>transactions\<close> moves money, and its correctness is stated in terms of \<open>balance\<close>.

  \<^bold>\<open>The model.\<close> One record \<open>db\<close> (theory \<open>Models\<close>) holds every table as a list of records in insertion
  order with its id sequence; a column is a field, an enum is a datatype, a nullable column an
  \<open>option\<close>. A service operation is a function on \<open>db\<close>. One that may raise returns a value of
  \<open>'a result = error + 'a\<close> (theory \<open>Prelude\<close>), with the program's exceptions and message keys as the
  constructors of \<open>error\<close>; a raise rolls the transaction back, so no state comes with it. Where the
  source commits in the middle of a loop the state is returned beside the result. Foreign keys, unique
  indexes and check constraints are the predicates under which an insert or an update of a row
  succeeds. The clock, the signed-in member and the keyed hash of the blind indexes are an argument,
  the record \<open>env\<close>. Loops whose end depends on user data are \<open>partial_function (option)\<close>: \<open>None\<close>
  means that the loop does not return, and the theorems prove that it does.

  \<^bold>\<open>Theories.\<close>
  \<^item> \<open>Prelude\<close>: results, the \<open>ebind\<close>, \<open>emap\<close>, \<open>efold\<close> combinators, tables as lists of rows with
    \<open>find_row\<close>, \<open>upd_row\<close>, \<open>del_row\<close> and the id invariant \<open>ids_ok\<close> (\<open>exceptions.py\<close>).
  \<^item> \<open>Dates\<close>: \<open>datetime.date\<close>, ordinals, \<open>timedelta\<close>, \<open>calendar.monthrange\<close>, with the order
    isomorphism between valid dates and ordinals.
  \<^item> \<open>Decimals\<close>: \<open>decimal.Decimal\<close> as rationals with \<open>quantize\<close> in its four rounding modes and the
    operations of the 28-digit context, \<open>dec_mul\<close> and \<open>dec_div\<close>, where the source divides or
    multiplies. Sums of money are exact in that context for amounts of the column width and are
    written as plain sums.
  \<^item> \<open>Floats\<close>: \<open>float(Decimal)\<close> as the nearest binary64 value, ties to even, with its error bound.
  \<^item> \<open>Texts\<close>: case folding, stripping and the keyed blind indexes of encrypted columns
    (\<open>services/text_order.py\<close>, \<open>db/types.py\<close>); the keyed hash is a parameter.
  \<^item> \<open>Models\<close>: the tables (\<open>models/*.py\<close>).
  \<^item> \<open>Accounts\<close> (\<open>account_service.py\<close>): ledger sums, balances, create, update, external numbers.
    A balance correction changes the opening balance so that the balance is the one asked for; the
    breakdown of a list of accounts adds up.
  \<^item> \<open>Payees\<close> (\<open>payee_service.py\<close>): payees with the spellings they answer to, matching, creation, merge,
    deletion. The transition system of its operations keeps an identity for every payee and the
    uniqueness of names; a merge keeps every spelling and redirects every transaction.
  \<^item> \<open>Transactions\<close> (\<open>transaction_service.py\<close>): create, update with optimistic locking, transfers,
    pairing, splits, bulk edits, deletion, search and paging. The effect of each on balances, on the
    link structure of transfers and on the split sums.
  \<^item> \<open>Recurrence\<close> and \<open>Planned\<close> (\<open>planned_transaction_service.py\<close>): the arithmetic of recurring
    dates, the two loops that enumerate occurrences, posting. The loops return exactly the dates of
    the recurrence in the window; posting is idempotent.
  \<^item> \<open>Credit\<close> (\<open>credit_service.py\<close>): due dates, minimum payments, amortisation.
  \<^item> \<open>PersonalLoans\<close> (\<open>personal_loan_service.py\<close>, \<open>loan_links.py\<close>): loans, repayments and the
    transactions linked to them; no transaction is ever linked twice.
  \<^item> \<open>ReserveFunds\<close> (\<open>reserve_fund_service.py\<close>): goals, contributions, closing, the monthly pace.
  \<^item> \<open>Categories\<close> (\<open>category_service.py\<close>): the category tree and deletion of a subtree. The rounds
    of \<open>below\<close> are bounded by the number of categories, which is proved to reach the whole subtree.
  \<^item> \<open>Budgets\<close> (\<open>budget_service.py\<close>, \<open>categorised_flows.py\<close>): plan rows, the annual grid and the
    realization of a month.
  \<^item> \<open>Rules\<close> (\<open>rule_service.py\<close>): categorisation rules, which one wins, and the offer to make one.
  \<^item> \<open>RateLimit\<close> (\<open>auth/login_rate_limit.py\<close>): failed-attempt counters on an abstract store, its two
    implementations and the mail throttle. The commands of the Redis server are a parameter.
  \<^item> \<open>Weeks\<close> (\<open>core/weeks.py\<close>): cutting days into weeks, with ISO numbers across the year's end.
  \<^item> \<open>Gifts\<close> (\<open>gift_service.py\<close>): the gift list, the purchases linked to it and the summary by person.
  \<^item> \<open>IrregularItems\<close> (\<open>irregular_item_service.py\<close>, \<open>core/irregular.py\<close>): yearly costs saved for in a
    fund, the single monthly transfer that feeds it, and the history of its account.
  \<^item> \<open>Merchants\<close> (\<open>merchant_key.py\<close>): merchant keys, amount buckets and medians of the detectors.
  \<^item> \<open>Subscriptions\<close> (\<open>subscription_service.py\<close>): tracked subscriptions, cancellation and settlement,
    the detector of recurring charges with its dismissals, and the filing of past charges. The loop that
    projects the next charge is an instance of \<open>date_steps\<close>.
  \<^item> \<open>EditDistance\<close> and \<open>Dedupe\<close> (\<open>dedupe_service.py\<close>): the name distance against its definition as the
    least number of edits, the detectors of duplicates, and the merges of transactions, payees and
    categories.

  \<^item> \<open>TransferReview\<close> (\<open>import_service.py\<close>): which pairs of rows are suggested as one transfer, their
    acceptance and dismissal. The suggestions are a stable matching of the free rows, and accepting all
    of them leaves nothing to suggest.
  \<^item> \<open>ImportLedger\<close> (\<open>import_service.py\<close>, \<open>views/import_view/page.py\<close>): parsed statement rows to the
    ledger. An import moves the balance by the sum of the rows that are new, and importing again adds
    nothing.
  \<^item> \<open>Csv\<close> and \<open>ImportFormats\<close>: Python's \<open>csv\<close> module as a state machine, with the round trip of what its
    writer writes, and the parser of amounts, dates and CSV statements.
  \<^item> \<open>LedgerExport\<close>: the CSV export of the ledger, and that the statement parser reads it back row by row.
  \<^item> \<open>BankStatements\<close>: the bank formats (mBank, and Wise as CSV, QIF, MT940 and workbook) with their banners and
    the detection of the bank. An MT940 statement is read back movement by movement.
  \<^item> \<open>ImportRules\<close>: the settings remembered per file-name pattern, with \<open>fnmatch\<close> written out.
  \<^item> \<open>ImportQueue\<close>: one upload through detection, parsing and fallback, inherited settings, the currency
    guard, the run over the queue and the steps of the wizard. No upload ends in a dead end, and nothing is
    booked on an account in another currency.
  \<^item> \<open>NetWorth\<close> (\<open>currency_rate_service.py\<close>, \<open>net_worth_service.py\<close>, \<open>asset_service.py\<close>): exchange rates of the family
    and of the central bank, physical assets, net worth and its history. The search for the nearest rate ends and
    is right, and the history, which the code derives by walking backwards, is the ledger at each month's end.
  \<^item> \<open>SecondFactor\<close> (\<open>mfa_service.py\<close>): enrolment, one-time codes and recovery codes, with the requests of
    several tabs running at the same time: an operation gets the row it read, however stale, beside the tables
    it writes to. In every run of that transition system a code works once; the codes handed out work.

  \<^bold>\<open>Interfaces.\<close> The locales are the contracts between components, interpreted on the model's own
  definitions: \<open>ledger\<close> (what a change of the rows does to the derived balances, \<open>Accounts\<close>),
  \<open>name_resolver\<close> (resolving a typed payee name, \<open>Payees\<close>), \<open>date_steps\<close> (a step function under which
  the enumeration loops of \<open>Recurrence\<close> return), \<open>plan_store\<close> (an abstract map from category, month
  and year to an amount that both ways of writing a budget row refine, \<open>Budgets\<close>) and \<open>store_contract\<close>
  (what a limiter needs of its store, \<open>RateLimit\<close>; the store in Redis meets it whenever the server
  behaves as documented).

  \<^bold>\<open>Properties.\<close> Each theorem that opens with a claim number states one property of the code; where it
  has hypotheses, the theorem of the same name with the suffix \<open>_witness\<close> applies it to a concrete
  database. Lemmas that show where the code departs from its own intention stand at the end of the
  theories that hold them.

  \<^bold>\<open>Not modelled.\<close> Views, HTTP routes and middleware (user interface and glue), encryption and key
  storage (cryptographic libraries), the network services (fetching of exchange rates, delivery of bug reports),
  tenant administration over database schemas, factors held by an identity provider, decoding of uploaded bytes, reports
  and forecasts. Encrypted columns are modelled by their plain text, and concurrent sessions by
  sequences of committed operations, in \<open>SecondFactor\<close> of conditional statements on stale rows.
\<close>

end
